(* ===== verification/Prelude.thy ===== *)
theory Prelude imports Main "HOL-Library.Word" "HOL-Library.Multiset" begin

text \<open>
  Shared vocabulary of the development: the type synonyms that name the machine types of the
  executor's sources, and the lemmas on lists, counting and occurrence order that several
  component theories use.  Nothing here models code by itself except the named constants.

  \<^item> \<open>u32\<close>, \<open>u64\<close>, \<open>u256\<close> are the unsigned machine words of the sources
    (\<open>uint32_t\<close>, \<open>uint64_t\<close>/\<open>size_t\<close> and the 256-bit \<open>u256\<close>); \<open>i64\<close> is the signed 64-bit integer.
  \<^item> \<open>precedes xs i j\<close>: in the list \<open>xs\<close> every occurrence of \<open>j\<close> has an occurrence of \<open>i\<close>
    before it; execution logs are compared through it.
\<close>

type_synonym u8 = "8 word"
type_synonym u32 = "32 word"
type_synonym u64 = "64 word"
type_synonym u256 = "256 word"
type_synonym bytes = "8 word list"

named_theorems inv_rules \<open>preservation of component invariants by operations\<close>
named_theorems step_simps \<open>unfolding of handlers into their branches\<close>

section \<open>Lower case\<close>

text \<open>\<open>boost::to_lower\<close> on one character, in the C locale.\<close>

definition lower_char :: "char \<Rightarrow> char" where
  "lower_char c = (let n = (of_char c :: nat) in if 65 \<le> n \<and> n \<le> 90 then char_of (n + 32) else c)"

section \<open>Updating one position of a list of counters\<close>

lemma sum_list_map_update:
  assumes "k < length xs"
  shows "sum_list (map f (xs[k := x])) + f (xs ! k) = sum_list (map f xs) + (f x :: nat)"
  using assms
proof (induction xs arbitrary: k)
  case Nil
  then show ?case by simp
next
  case (Cons a xs)
  show ?case
  proof (cases k)
    case 0
    then show ?thesis by simp
  next
    case (Suc m)
    with Cons have "sum_list (map f (xs[m := x])) + f (xs ! m) = sum_list (map f xs) + f x"
      by simp
    with Suc show ?thesis by simp
  qed
qed

lemma sum_list_map_ge:
  assumes "k < length xs"
  shows "(f (xs ! k) :: nat) \<le> sum_list (map f xs)"
  using assms by (simp add: member_le_sum_list)

lemma sum_list_map_zero:
  assumes "\<And>x. x \<in> set xs \<Longrightarrow> f x = (0 :: nat)"
  shows "sum_list (map f xs) = 0"
  using assms by simp

lemma count_list_pos_iff: "0 < count_list xs x \<longleftrightarrow> x \<in> set xs"
  by (simp add: count_list_0_iff zero_less_iff_neq_zero)

lemma count_list_le_one_distinct: "(\<And>x. count_list xs x \<le> 1) \<Longrightarrow> distinct xs"
proof (induction xs)
  case Nil
  then show ?case by simp
next
  case (Cons a xs)
  have "count_list xs x \<le> 1" for x
    using Cons.prems [of x] by (simp split: if_splits)
  moreover have "a \<notin> set xs"
    using Cons.prems [of a] by (simp add: count_list_0_iff)
  ultimately show ?case using Cons.IH by simp
qed

lemma count_list_distinct: "distinct xs \<Longrightarrow> count_list xs x = (if x \<in> set xs then 1 else 0)"
  by (induction xs) auto

section \<open>Order of occurrence in a log\<close>

definition precedes :: "'a list \<Rightarrow> 'a \<Rightarrow> 'a \<Rightarrow> bool" where
  "precedes xs i j \<longleftrightarrow> (\<forall>k < length xs. xs ! k = j \<longrightarrow> i \<in> set (take k xs))"

lemma precedes_Nil [simp]: "precedes [] i j"
  by (simp add: precedes_def)

lemma precedes_snoc:
  "precedes (xs @ [x]) i j \<longleftrightarrow> precedes xs i j \<and> (x = j \<longrightarrow> i \<in> set xs)"
  by (auto simp: precedes_def nth_append less_Suc_eq)

lemma precedes_memD:
  assumes "precedes xs i j" and "j \<in> set xs"
  shows "i \<in> set xs"
  using assms by (metis in_set_conv_nth in_set_takeD precedes_def)

lemma precedes_trans:
  assumes "precedes xs i j" and "precedes xs j k"
  shows "precedes xs i k"
  unfolding precedes_def
proof (intro allI impI)
  fix m
  assume m: "m < length xs" "xs ! m = k"
  with assms(2) have "j \<in> set (take m xs)" by (simp add: precedes_def)
  then obtain l where l: "l < m" "xs ! l = j"
    using m by (auto simp: in_set_conv_nth)
  with assms(1) m have "i \<in> set (take l xs)" by (simp add: precedes_def)
  with l show "i \<in> set (take m xs)"
    by (metis in_mono less_imp_le set_take_subset_set_take)
qed

lemma precedes_split:
  assumes "precedes (as @ b # cs) i b"
  shows "i \<in> set as"
proof -
  have "(as @ b # cs) ! length as = b" and "length as < length (as @ b # cs)"
    by (simp_all add: nth_append)
  with assms have "i \<in> set (take (length as) (as @ b # cs))"
    unfolding precedes_def by blast
  then show ?thesis by simp
qed

end
