(* ===== verification/Dag.thy ===== *)
theory Dag imports Prelude begin

text \<open>
  The dependency graph of \<open>src/dag/DAG.h\<close> and \<open>src/dag/DAG.cpp\<close>: vertices with an atomic
  32-bit in-degree and a vector of out-edges, the queue of vertices whose in-degree is zero,
  and the operations \<open>init\<close>, \<open>addEdge\<close>, \<open>generate\<close>, \<open>waitPop\<close> and \<open>consume\<close>.

  Vertex ids are \<open>nat\<close> (they index the vector); \<open>INVALID_ID\<close> is \<open>ID(0) - 1\<close>.  The in-degree
  keeps its machine width.  \<open>m_vtxs[id]\<close> out of range is undefined behaviour in C++: the
  operations return \<open>None\<close> there.  \<open>consume\<close> is split into its loop body \<open>consume_edge\<close>
  (one atomic \<open>fetch_sub\<close> and what follows it) and the final counter update, so that the
  interleavings of several threads can be built from the same pieces.
\<close>

section \<open>State and operations\<close>

definition INVALID_ID :: nat where
  "INVALID_ID = 4294967295"

record vertex =
  in_degree :: u32
  out_edge :: "nat list"

record dag =
  vtxs :: "vertex list"
  top_level :: "nat list"
  total_vtxs :: nat
  total_consume :: nat
  dag_stop :: bool

definition new_vertex :: vertex where
  "new_vertex = \<lparr>in_degree = 0, out_edge = []\<rparr>"

definition new_dag :: dag where
  "new_dag = \<lparr>vtxs = [], top_level = [], total_vtxs = 0, total_consume = 0, dag_stop = False\<rparr>"

text \<open>\<open>clear\<close> drops the vertices; the queue is kept, as the commented-out line leaves it.\<close>

definition dag_clear :: "dag \<Rightarrow> dag" where
  "dag_clear d = d\<lparr>vtxs := []\<rparr>"

definition dag_init :: "nat \<Rightarrow> dag \<Rightarrow> dag" where
  "dag_init maxSize d =
     (dag_clear d)\<lparr>vtxs := replicate maxSize new_vertex, total_vtxs := maxSize,
                   total_consume := 0\<rparr>"

definition add_edge :: "nat \<Rightarrow> nat \<Rightarrow> dag \<Rightarrow> dag option" where
  "add_edge f t d =
     (let n = length (vtxs d) in
      if f \<ge> n \<and> t \<ge> n then Some d
      else if f < n \<and> t < n then
        (let vf = vtxs d ! f;
             vs1 = (vtxs d)[f := vf\<lparr>out_edge := out_edge vf @ [t]\<rparr>];
             vt = vs1 ! t
         in Some (d\<lparr>vtxs := vs1[t := vt\<lparr>in_degree := in_degree vt + 1\<rparr>]\<rparr>))
      else None)"

definition dag_generate :: "dag \<Rightarrow> dag" where
  "dag_generate d =
     d\<lparr>top_level := top_level d @
         filter (\<lambda>i. in_degree (vtxs d ! i) = 0) [0..<length (vtxs d)]\<rparr>"

text \<open>
  One evaluation of the predicate of \<open>wait_for\<close>: \<open>Some (id, d')\<close> when \<open>waitPop\<close> returns
  \<open>id\<close>, \<open>None\<close> when the caller keeps waiting.  \<open>timeout\<close> is the expiry of the 10 ms.
\<close>

definition wait_pop :: "bool \<Rightarrow> bool \<Rightarrow> dag \<Rightarrow> (nat \<times> dag) option" where
  "wait_pop needWait timeout d =
     (case top_level d of
        i # q \<Rightarrow> Some (i, d\<lparr>top_level := q\<rparr>)
      | [] \<Rightarrow>
          if total_consume d \<ge> total_vtxs d then Some (INVALID_ID, d)
          else if \<not> needWait then Some (INVALID_ID, d)
          else if dag_stop d then Some (INVALID_ID, d)
          else if timeout then Some (INVALID_ID, d)
          else None)"

text \<open>The loop body of \<open>consume\<close>: the state, \<open>producedNum\<close> and \<open>nextId\<close>.\<close>

definition consume_edge :: "nat \<Rightarrow> dag \<times> nat \<times> nat \<Rightarrow> (dag \<times> nat \<times> nat) option" where
  "consume_edge i = (\<lambda>(d, producedNum, nextId).
     if i < length (vtxs d) then
       (let v = vtxs d ! i;
            lastDegree = in_degree v;
            d1 = d\<lparr>vtxs := (vtxs d)[i := v\<lparr>in_degree := lastDegree - 1\<rparr>]\<rparr>
        in if lastDegree = 1 then
             (if producedNum + 1 = 1 then Some (d1, producedNum + 1, i)
              else Some (d1\<lparr>top_level := top_level d1 @ [i]\<rparr>, producedNum + 1, nextId))
           else Some (d1, producedNum, nextId))
     else None)"

fun consume_edges :: "nat list \<Rightarrow> dag \<times> nat \<times> nat \<Rightarrow> (dag \<times> nat \<times> nat) option" where
  "consume_edges [] s = Some s"
| "consume_edges (i # is) s = Option.bind (consume_edge i s) (consume_edges is)"

definition dag_consume :: "nat \<Rightarrow> dag \<Rightarrow> (nat \<times> dag) option" where
  "dag_consume i d =
     (if i < length (vtxs d) then
        (case consume_edges (out_edge (vtxs d ! i)) (d, 0, INVALID_ID) of
           None \<Rightarrow> None
         | Some (d', _, nextId) \<Rightarrow> Some (nextId, d'\<lparr>total_consume := total_consume d' + 1\<rparr>))
      else None)"

section \<open>Well-formed graphs\<close>

text \<open>
  \<open>edge_count vs v\<close> is the number of edge occurrences into \<open>v\<close>; an edge may occur several
  times, once per critical field that produced it.
\<close>

definition edge_count :: "vertex list \<Rightarrow> nat \<Rightarrow> nat" where
  "edge_count vs v = sum_list (map (\<lambda>x. count_list (out_edge x) v) vs)"

definition has_edge :: "dag \<Rightarrow> nat \<Rightarrow> nat \<Rightarrow> bool" where
  "has_edge d f t \<longleftrightarrow> f < length (vtxs d) \<and> t \<in> set (out_edge (vtxs d ! f))"

definition forward :: "dag \<Rightarrow> bool" where
  "forward d \<longleftrightarrow> (\<forall>f t. has_edge d f t \<longrightarrow> f < t \<and> t < length (vtxs d))"

definition degrees_ok :: "dag \<Rightarrow> bool" where
  "degrees_ok d \<longleftrightarrow>
     (\<forall>v < length (vtxs d). unat (in_degree (vtxs d ! v)) = edge_count (vtxs d) v)"

text \<open>What the scheduler relies on: the contract between \<open>TxDAG::init\<close> and \<open>executeUnit\<close>.\<close>

definition dag_ready :: "dag \<Rightarrow> bool" where
  "dag_ready d \<longleftrightarrow> forward d \<and> degrees_ok d \<and> length (vtxs d) < INVALID_ID
     \<and> top_level d = filter (\<lambda>i. in_degree (vtxs d ! i) = 0) [0..<length (vtxs d)]
     \<and> total_vtxs d = length (vtxs d) \<and> total_consume d = 0 \<and> \<not> dag_stop d"

lemma edge_count_pos: "has_edge d f t \<Longrightarrow> 0 < edge_count (vtxs d) t"
  unfolding has_edge_def edge_count_def
  using sum_list_map_ge [of f "vtxs d" "\<lambda>x. count_list (out_edge x) t"]
  by (metis count_list_pos_iff less_le_trans)

lemma edge_count_zeroD:
  "edge_count (vtxs d) t = 0 \<Longrightarrow> \<not> has_edge d f t"
  using edge_count_pos by fastforce

section \<open>Initialisation and edges\<close>

lemma dag_init_simps [simp]:
  "vtxs (dag_init n d) = replicate n new_vertex"
  "top_level (dag_init n d) = top_level d"
  "total_vtxs (dag_init n d) = n"
  "total_consume (dag_init n d) = 0"
  "dag_stop (dag_init n d) = dag_stop d"
  by (simp_all add: dag_init_def dag_clear_def)

lemma dag_init_forward: "forward (dag_init n d)"
  by (auto simp: forward_def has_edge_def new_vertex_def)

lemma edge_count_replicate [simp]: "edge_count (replicate n new_vertex) v = 0"
  by (simp add: edge_count_def new_vertex_def sum_list_replicate)

lemma dag_init_degrees: "degrees_ok (dag_init n d)"
  by (simp add: degrees_ok_def) (simp add: new_vertex_def)

lemma add_edge_Some:
  assumes "f < t" and "t < length (vtxs d)"
  shows "add_edge f t d =
    Some (d\<lparr>vtxs := (vtxs d)
              [f := (vtxs d ! f)\<lparr>out_edge := out_edge (vtxs d ! f) @ [t]\<rparr>,
               t := (vtxs d ! t)\<lparr>in_degree := in_degree (vtxs d ! t) + 1\<rparr>]\<rparr>)"
  using assms by (simp add: add_edge_def Let_def)

lemma edge_count_add_edge:
  assumes "f < t" and "t < length (vtxs d)" and "add_edge f t d = Some d'"
  shows "edge_count (vtxs d') v = edge_count (vtxs d) v + (if v = t then 1 else 0)"
proof -
  let ?g = "\<lambda>x. count_list (out_edge x) v"
  let ?vf = "(vtxs d ! f)\<lparr>out_edge := out_edge (vtxs d ! f) @ [t]\<rparr>"
  let ?vs = "(vtxs d)[f := ?vf]"
  let ?vt = "(vtxs d ! t)\<lparr>in_degree := in_degree (vtxs d ! t) + 1\<rparr>"
  have vs: "vtxs d' = ?vs[t := ?vt]" using assms(3) add_edge_Some [OF assms(1,2)] by auto
  have "sum_list (map ?g (?vs[t := ?vt])) + ?g (?vs ! t) = sum_list (map ?g ?vs) + ?g ?vt"
    using assms(2) by (intro sum_list_map_update) simp
  then have 1: "sum_list (map ?g (?vs[t := ?vt])) = sum_list (map ?g ?vs)"
    using assms(1) by simp
  have "sum_list (map ?g ?vs) + ?g (vtxs d ! f) = sum_list (map ?g (vtxs d)) + ?g ?vf"
    using assms(1,2) by (intro sum_list_map_update) simp
  with 1 show ?thesis by (simp add: edge_count_def vs)
qed

lemma add_edge_nth:
  assumes "f < t" and "t < length (vtxs d)" and "add_edge f t d = Some d'"
    and "a < length (vtxs d)"
  shows "out_edge (vtxs d' ! a) = out_edge (vtxs d ! a) @ (if a = f then [t] else [])"
    and "in_degree (vtxs d' ! a) = in_degree (vtxs d ! a) + (if a = t then 1 else 0)"
  using assms(3,4) assms(1,2) add_edge_Some [OF assms(1,2)]
  by (auto simp: nth_list_update)

lemma has_edge_add_edge:
  assumes "f < t" and "t < length (vtxs d)" and "add_edge f t d = Some d'"
  shows "has_edge d' a b \<longleftrightarrow> has_edge d a b \<or> (a = f \<and> b = t)"
  using assms add_edge_nth(1) [OF assms(1-3)] add_edge_Some [OF assms(1,2)]
  by (auto simp: has_edge_def split: if_splits)

lemma add_edge_frame:
  assumes "f < t" and "t < length (vtxs d)" and "add_edge f t d = Some d'"
  shows "length (vtxs d') = length (vtxs d)" "top_level d' = top_level d"
    "total_vtxs d' = total_vtxs d" "total_consume d' = total_consume d"
    "dag_stop d' = dag_stop d"
  using assms by (auto simp: add_edge_Some)

lemma add_edge_forward [inv_rules]:
  assumes "f < t" and "t < length (vtxs d)" and "add_edge f t d = Some d'" and "forward d"
  shows "forward d'"
  using assms has_edge_add_edge [OF assms(1-3)] add_edge_frame(1) [OF assms(1-3)]
  by (auto simp: forward_def)

lemma add_edge_degrees [inv_rules]:
  assumes "f < t" and "t < length (vtxs d)" and "add_edge f t d = Some d'" and "degrees_ok d"
    and "edge_count (vtxs d) t + 1 < 2 ^ 32"
  shows "degrees_ok d'"
  unfolding degrees_ok_def
proof (intro allI impI)
  fix v
  assume "v < length (vtxs d')"
  then have v: "v < length (vtxs d)" using add_edge_frame(1) [OF assms(1-3)] by simp
  have deg: "unat (in_degree (vtxs d ! v)) = edge_count (vtxs d) v"
    using assms(4) v by (simp add: degrees_ok_def)
  have "edge_count (vtxs d) v + (if v = t then 1 else 0) < 2 ^ 32"
    using assms(5) deg unsigned_less [of "in_degree (vtxs d ! v)", where ?'a = nat] by (cases "v = t") auto
  then have "unat (in_degree (vtxs d ! v) + (if v = t then 1 else 0))
      = edge_count (vtxs d) v + (if v = t then 1 else 0)"
    using deg by (auto simp: unat_word_ariths)
  then show "unat (in_degree (vtxs d' ! v)) = edge_count (vtxs d') v"
    using add_edge_nth(2) [OF assms(1-3) v] edge_count_add_edge [OF assms(1-3), of v] by simp
qed

lemma dag_generate_simps [simp]:
  "vtxs (dag_generate d) = vtxs d" "total_vtxs (dag_generate d) = total_vtxs d"
  "total_consume (dag_generate d) = total_consume d" "dag_stop (dag_generate d) = dag_stop d"
  by (simp_all add: dag_generate_def)

lemma has_edge_generate [simp]: "has_edge (dag_generate d) f t = has_edge d f t"
  by (simp add: has_edge_def)

lemma dag_generate_ready:
  assumes "forward d" "degrees_ok d" "length (vtxs d) < INVALID_ID" "top_level d = []"
    and "total_vtxs d = length (vtxs d)" "total_consume d = 0" "\<not> dag_stop d"
  shows "dag_ready (dag_generate d)"
proof -
  have "forward (dag_generate d)" "degrees_ok (dag_generate d)"
    using assms(1,2) by (simp_all only: forward_def degrees_ok_def has_edge_generate dag_generate_simps)
  moreover have "top_level (dag_generate d) =
      filter (\<lambda>i. in_degree (vtxs d ! i) = 0) [0..<length (vtxs d)]"
    using assms(4) by (simp add: dag_generate_def)
  ultimately show ?thesis using assms(3,5-7) unfolding dag_ready_def by simp
qed

end
