(* ===== verification/TxDag.thy ===== *)
theory TxDag imports Dag begin

text \<open>
  \<open>src/dag/TxDAG.h\<close> and \<open>src/dag/TxDAG.cpp\<close>, first half: the template \<open>CriticalField\<close> (the
  last transaction that touched a field) at key type \<open>string\<close>, and \<open>TxDAG::init\<close>, which
  turns the critical fields of the transactions of a block into the dependency graph.

  The lemmas show that the graph built is well formed in the sense of \<open>dag_ready\<close>, that it
  has an edge from the last earlier transaction with the same field, and that every edge
  joins two transactions that share a field.
\<close>

section \<open>CriticalField\<close>

record critical_field =
  m_criticals :: "string \<rightharpoonup> nat"
  m_criticalAll :: nat

definition new_critical_field :: critical_field where
  "new_critical_field = \<lparr>m_criticals = Map.empty, m_criticalAll = INVALID_ID\<rparr>"

definition cf_get :: "critical_field \<Rightarrow> string \<Rightarrow> nat" where
  "cf_get cf c =
     (case m_criticals cf c of
        None \<Rightarrow> if m_criticalAll cf \<noteq> INVALID_ID then m_criticalAll cf else INVALID_ID
      | Some i \<Rightarrow> i)"

definition cf_update :: "critical_field \<Rightarrow> string \<Rightarrow> nat \<Rightarrow> critical_field" where
  "cf_update cf c i = cf\<lparr>m_criticals := (m_criticals cf)(c \<mapsto> i)\<rparr>"

definition cf_set_critical_all :: "critical_field \<Rightarrow> nat \<Rightarrow> critical_field" where
  "cf_set_critical_all cf i = cf\<lparr>m_criticalAll := i, m_criticals := Map.empty\<rparr>"

section \<open>TxDAG::init\<close>

record tx_dag =
  m_dag :: dag
  m_exeCnt :: nat
  m_totalParaTxs :: nat
  m_stop :: bool

definition new_tx_dag :: tx_dag where
  "new_tx_dag = \<lparr>m_dag = new_dag, m_exeCnt = 0, m_totalParaTxs = 0, m_stop = False\<rparr>"

fun add_critical_edges :: "string list \<Rightarrow> nat \<Rightarrow> critical_field \<Rightarrow> dag \<Rightarrow> dag option" where
  "add_critical_edges [] i cf d = Some d"
| "add_critical_edges (c # cs) i cf d =
     (let pId = cf_get cf c in
      if pId \<noteq> INVALID_ID then Option.bind (add_edge pId i d) (add_critical_edges cs i cf)
      else add_critical_edges cs i cf d)"

fun update_criticals :: "string list \<Rightarrow> nat \<Rightarrow> critical_field \<Rightarrow> critical_field" where
  "update_criticals [] i cf = cf"
| "update_criticals (c # cs) i cf = update_criticals cs i (cf_update cf c i)"

definition init_tx ::
    "string list \<Rightarrow> nat \<Rightarrow> dag \<times> critical_field \<Rightarrow> (dag \<times> critical_field) option" where
  "init_tx cs i = (\<lambda>(d, cf).
     if cs \<noteq> [] then
       (case add_critical_edges cs i cf d of
          None \<Rightarrow> None
        | Some d' \<Rightarrow> Some (d', update_criticals cs i cf))
     else Some (d, cf))"

text \<open>The loop over the ids; \<open>_txsCriticals[id]\<close> out of range is undefined behaviour.\<close>

fun init_loop ::
    "string list list \<Rightarrow> nat list \<Rightarrow> dag \<times> critical_field \<Rightarrow> (dag \<times> critical_field) option" where
  "init_loop crits [] s = Some s"
| "init_loop crits (i # is) s =
     (if i < length crits then Option.bind (init_tx (crits ! i) i s) (init_loop crits is)
      else None)"

definition txdag_init :: "nat \<Rightarrow> string list list \<Rightarrow> tx_dag \<Rightarrow> tx_dag option" where
  "txdag_init txsSize crits td =
     (case init_loop crits [0..<txsSize] (dag_init txsSize (m_dag td), new_critical_field) of
        None \<Rightarrow> None
      | Some (d, _) \<Rightarrow> Some (td\<lparr>m_dag := dag_generate d, m_totalParaTxs := txsSize\<rparr>))"

definition has_finished :: "tx_dag \<Rightarrow> bool" where
  "has_finished td \<longleftrightarrow> m_exeCnt td \<ge> m_totalParaTxs td \<or> m_stop td"

section \<open>What the loop computes\<close>

text \<open>The last transaction before \<open>k\<close> that has the critical field \<open>c\<close>.\<close>

fun last_use :: "string list list \<Rightarrow> nat \<Rightarrow> string \<Rightarrow> nat" where
  "last_use crits 0 c = INVALID_ID"
| "last_use crits (Suc k) c = (if c \<in> set (crits ! k) then k else last_use crits k c)"

lemma last_use_cases:
  "last_use crits k c = INVALID_ID \<or> (last_use crits k c < k \<and> c \<in> set (crits ! last_use crits k c))"
  by (induction k) auto

lemma last_use_ge:
  assumes "i < k" and "c \<in> set (crits ! i)" and "k \<le> INVALID_ID"
  shows "i \<le> last_use crits k c \<and> last_use crits k c < k"
  using assms
proof (induction k)
  case 0
  then show ?case by simp
next
  case (Suc k)
  show ?case
  proof (cases "c \<in> set (crits ! k)")
    case True
    with Suc.prems show ?thesis by simp
  next
    case False
    with Suc.prems(1,2) have "i < k" by (metis less_SucE)
    with Suc False show ?thesis by simp
  qed
qed

lemma cf_get_update: "cf_get (cf_update cf a i) c = (if c = a then i else cf_get cf c)"
  by (simp add: cf_update_def cf_get_def split: option.split)

lemma cf_get_update_criticals:
  "cf_get (update_criticals cs i cf) c = (if c \<in> set cs then i else cf_get cf c)"
  by (induction cs arbitrary: cf) (auto simp: cf_get_update)

text \<open>The state of the loop after the transactions \<open>0..<k\<close>.\<close>

definition loop_inv :: "string list list \<Rightarrow> nat \<Rightarrow> nat \<Rightarrow> dag \<times> critical_field \<Rightarrow> bool" where
  "loop_inv crits n k = (\<lambda>(d, cf).
     length (vtxs d) = n \<and> top_level d = [] \<and> total_vtxs d = n \<and> total_consume d = 0
     \<and> \<not> dag_stop d \<and> forward d \<and> degrees_ok d
     \<and> (\<forall>c. cf_get cf c = last_use crits k c)
     \<and> (\<forall>v \<ge> k. edge_count (vtxs d) v = 0)
     \<and> (\<forall>f t. has_edge d f t \<longleftrightarrow>
          t < k \<and> (\<exists>c \<in> set (crits ! t). last_use crits t c = f \<and> f \<noteq> INVALID_ID)))"

text \<open>Adding the edges of one transaction, one critical field at a time.\<close>

lemma add_critical_edges_ok:
  assumes "k < length (vtxs d)" and "forward d" and "degrees_ok d"
    and "\<And>c. c \<in> set cs \<Longrightarrow> cf_get cf c = INVALID_ID \<or> cf_get cf c < k"
    and "edge_count (vtxs d) k + length cs < 2 ^ 32"
  shows "\<exists>d'. add_critical_edges cs k cf d = Some d' \<and> forward d' \<and> degrees_ok d'
     \<and> length (vtxs d') = length (vtxs d) \<and> top_level d' = top_level d
     \<and> total_vtxs d' = total_vtxs d \<and> total_consume d' = total_consume d
     \<and> dag_stop d' = dag_stop d
     \<and> (\<forall>v. v \<noteq> k \<longrightarrow> edge_count (vtxs d') v = edge_count (vtxs d) v)
     \<and> (\<forall>f t. has_edge d' f t \<longleftrightarrow> has_edge d f t \<or>
          (t = k \<and> (\<exists>c \<in> set cs. cf_get cf c = f \<and> f \<noteq> INVALID_ID)))"
  using assms
proof (induction cs arbitrary: d)
  case Nil
  then show ?case by simp
next
  case (Cons c cs)
  show ?case
  proof (cases "cf_get cf c = INVALID_ID")
    case True
    have "\<exists>d'. add_critical_edges cs k cf d = Some d' \<and> forward d' \<and> degrees_ok d'
     \<and> length (vtxs d') = length (vtxs d) \<and> top_level d' = top_level d
     \<and> total_vtxs d' = total_vtxs d \<and> total_consume d' = total_consume d
     \<and> dag_stop d' = dag_stop d
     \<and> (\<forall>v. v \<noteq> k \<longrightarrow> edge_count (vtxs d') v = edge_count (vtxs d) v)
     \<and> (\<forall>f t. has_edge d' f t \<longleftrightarrow> has_edge d f t \<or>
          (t = k \<and> (\<exists>c \<in> set cs. cf_get cf c = f \<and> f \<noteq> INVALID_ID)))"
      using Cons.prems by (intro Cons.IH) auto
    with True show ?thesis by auto
  next
    case False
    let ?p = "cf_get cf c"
    have p: "?p < k" using Cons.prems(4) [of c] False by auto
    obtain d1 where d1: "add_edge ?p k d = Some d1"
      using add_edge_Some [OF p Cons.prems(1)] by blast
    note fr = add_edge_frame [OF p Cons.prems(1) d1]
    have fd: "forward d1" "degrees_ok d1"
      using add_edge_forward [OF p Cons.prems(1) d1 Cons.prems(2)]
        add_edge_degrees [OF p Cons.prems(1) d1 Cons.prems(3)] Cons.prems(5) by auto
    have cnt: "edge_count (vtxs d1) v = edge_count (vtxs d) v + (if v = k then 1 else 0)" for v
      by (rule edge_count_add_edge [OF p Cons.prems(1) d1])
    have "\<exists>d'. add_critical_edges cs k cf d1 = Some d' \<and> forward d' \<and> degrees_ok d'
     \<and> length (vtxs d') = length (vtxs d1) \<and> top_level d' = top_level d1
     \<and> total_vtxs d' = total_vtxs d1 \<and> total_consume d' = total_consume d1
     \<and> dag_stop d' = dag_stop d1
     \<and> (\<forall>v. v \<noteq> k \<longrightarrow> edge_count (vtxs d') v = edge_count (vtxs d1) v)
     \<and> (\<forall>f t. has_edge d' f t \<longleftrightarrow> has_edge d1 f t \<or>
          (t = k \<and> (\<exists>c \<in> set cs. cf_get cf c = f \<and> f \<noteq> INVALID_ID)))"
      using Cons.prems fr fd cnt by (intro Cons.IH) auto
    then show ?thesis
      using d1 fr cnt False has_edge_add_edge [OF p Cons.prems(1) d1] by auto
  qed
qed

text \<open>The loop over \<open>[k..<n]\<close> keeps the invariant when the sizes fit the machine integers.\<close>

definition fits :: "nat \<Rightarrow> string list list \<Rightarrow> bool" where
  "fits n crits \<longleftrightarrow> n \<le> length crits \<and> n < INVALID_ID \<and> (\<forall>cs \<in> set crits. length cs < 2 ^ 32)"

lemma init_tx_ok:
  assumes "fits n crits" and "k < n" and "loop_inv crits n k s"
  shows "\<exists>s'. init_tx (crits ! k) k s = Some s' \<and> loop_inv crits n (Suc k) s'"
proof -
  obtain d cf where s: "s = (d, cf)" by (cases s)
  note inv = assms(3) [unfolded s loop_inv_def, simplified]
  have kk: "k < length crits" "k < INVALID_ID" using assms(1,2) by (auto simp: fits_def)
  have len: "length (crits ! k) < 2 ^ 32"
    using assms(1) kk nth_mem by (fastforce simp: fits_def)
  have get: "cf_get cf c = INVALID_ID \<or> cf_get cf c < k" for c
    using inv last_use_cases [of crits k c] by auto
  have "edge_count (vtxs d) k = 0" using inv by blast
  then obtain d' where d': "add_critical_edges (crits ! k) k cf d = Some d'"
      "forward d'" "degrees_ok d'" "length (vtxs d') = n" "top_level d' = []"
      "total_vtxs d' = n" "total_consume d' = 0" "\<not> dag_stop d'"
      "\<forall>v. v \<noteq> k \<longrightarrow> edge_count (vtxs d') v = edge_count (vtxs d) v"
      "\<forall>f t. has_edge d' f t \<longleftrightarrow> has_edge d f t \<or>
          (t = k \<and> (\<exists>c \<in> set (crits ! k). cf_get cf c = f \<and> f \<noteq> INVALID_ID))"
    using add_critical_edges_ok [of k d "crits ! k" cf] inv len get assms(2) by auto
  let ?cf = "update_criticals (crits ! k) k cf"
  have cf: "cf_get ?cf c = last_use crits (Suc k) c" for c
    using inv by (simp add: cf_get_update_criticals)
  have cnt: "\<forall>v \<ge> Suc k. edge_count (vtxs d') v = 0"
    using d'(9) inv by simp
  have edges: "has_edge d' f t \<longleftrightarrow>
      t < Suc k \<and> (\<exists>c \<in> set (crits ! t). last_use crits t c = f \<and> f \<noteq> INVALID_ID)" for f t
    using d'(10) inv less_Suc_eq by auto
  have "loop_inv crits n (Suc k) (d', ?cf)"
    using d' cf cnt edges by (simp add: loop_inv_def)
  moreover have "init_tx (crits ! k) k s = Some (d', ?cf)"
    using d'(1) by (cases "crits ! k") (auto simp: init_tx_def s)
  ultimately show ?thesis by blast
qed

lemma init_loop_ok:
  assumes "fits n crits" and "k \<le> n" and "loop_inv crits n k s"
  shows "\<exists>s'. init_loop crits [k..<n] s = Some s' \<and> loop_inv crits n n s'"
  using assms(2,3)
proof (induction "n - k" arbitrary: k s)
  case 0
  then show ?case by simp
next
  case (Suc m)
  then have k: "k < n" by simp
  obtain s1 where s1: "init_tx (crits ! k) k s = Some s1" "loop_inv crits n (Suc k) s1"
    using init_tx_ok [OF assms(1) k Suc.prems(2)] by blast
  obtain s2 where "init_loop crits [Suc k..<n] s1 = Some s2" "loop_inv crits n n s2"
    using Suc.hyps(1) [of "Suc k" s1] s1(2) Suc.hyps(2) k by fastforce
  moreover have "k < length crits" using assms(1) k by (simp add: fits_def)
  ultimately show ?case using s1(1) k by (simp add: upt_conv_Cons)
qed

lemma loop_inv_start: "loop_inv crits n 0 (dag_init n new_dag, new_critical_field)"
proof -
  have "\<not> has_edge (dag_init n new_dag) f t" for f t
    by (rule edge_count_zeroD) simp
  then show ?thesis
    by (simp add: loop_inv_def dag_init_forward dag_init_degrees new_critical_field_def cf_get_def
        new_dag_def)
qed

text \<open>The graph of a fresh \<open>TxDAG\<close>.\<close>

definition build_dag :: "nat \<Rightarrow> string list list \<Rightarrow> dag option" where
  "build_dag n crits = map_option m_dag (txdag_init n crits new_tx_dag)"

lemma build_dag_ok:
  assumes "fits n crits"
  shows "\<exists>d. build_dag n crits = Some d \<and> dag_ready d \<and> length (vtxs d) = n
     \<and> (\<forall>f t. has_edge d f t \<longleftrightarrow>
          t < n \<and> (\<exists>c \<in> set (crits ! t). last_use crits t c = f \<and> f \<noteq> INVALID_ID))"
proof -
  obtain d cf where l: "init_loop crits [0..<n] (dag_init n new_dag, new_critical_field) = Some (d, cf)"
      "loop_inv crits n n (d, cf)"
    using init_loop_ok [OF assms _ loop_inv_start] by (metis le0 prod.exhaust)
  note inv = l(2) [unfolded loop_inv_def, simplified]
  have "build_dag n crits = Some (dag_generate d)"
    using l(1) by (simp add: build_dag_def txdag_init_def new_tx_dag_def)
  moreover have "dag_ready (dag_generate d)"
    using inv assms by (intro dag_generate_ready) (auto simp: fits_def)
  ultimately show ?thesis using inv by simp
qed

end
