(* ===== verification/Scheduler.thy ===== *)
theory Scheduler imports TxDag begin

text \<open>
  \<open>TxDAG::executeUnit\<close> run by any number of threads over one graph, as in the
  \<open>tbb::parallel_for\<close> of \<open>dagExecuteTransactionsForEvm\<close>: each thread repeats \<open>executeUnit\<close>
  until \<open>hasFinished\<close>.  A step is one atomic action of one thread: entering the unit, a
  successful or unsuccessful \<open>waitPop\<close>, running a transaction, one iteration of the loop of
  \<open>DAG::consume\<close> (its \<open>fetch_sub\<close> and the push that may follow), or the end of \<open>consume\<close>.
  The log records the order in which the transactions are run.

  The lemmas give the token invariant of the protocol (a transaction is queued, held by a
  thread or executed exactly when its in-degree is zero, and then in exactly one of these
  ways), that the log respects the edges, a potential that every productive step
  decreases, and that an unfinished state always has a productive step.
\<close>

section \<open>Threads and steps\<close>

text \<open>The position of a thread; the last number is its local \<open>exeCnt\<close>.\<close>

datatype worker =
    Outside
  | Waiting nat
  | Running nat nat
  | Consuming nat "nat list" nat nat nat

record sched =
  s_tx :: tx_dag
  s_workers :: "worker list"
  s_log :: "nat list"

datatype label = Enter | Leave | Pop | Exec | Edge | Fin

definition set_worker :: "sched \<Rightarrow> nat \<Rightarrow> worker \<Rightarrow> sched" where
  "set_worker s w x = s\<lparr>s_workers := (s_workers s)[w := x]\<rparr>"

definition set_dag :: "sched \<Rightarrow> dag \<Rightarrow> sched" where
  "set_dag s d = s\<lparr>s_tx := (s_tx s)\<lparr>m_dag := d\<rparr>\<rparr>"

inductive sched_step :: "label \<Rightarrow> sched \<Rightarrow> sched \<Rightarrow> bool" where
  enter: "w < length (s_workers s) \<Longrightarrow> s_workers s ! w = Outside \<Longrightarrow> \<not> has_finished (s_tx s) \<Longrightarrow>
    sched_step Enter s (set_worker s w (Waiting 0))"
| leave: "w < length (s_workers s) \<Longrightarrow> s_workers s ! w = Waiting c \<Longrightarrow>
    wait_pop True timeout (m_dag (s_tx s)) = Some (INVALID_ID, d') \<Longrightarrow>
    sched_step Leave s
      (set_worker (s\<lparr>s_tx := (s_tx s)\<lparr>m_dag := d',
          m_exeCnt := (if c > 0 then m_exeCnt (s_tx s) + c else m_exeCnt (s_tx s))\<rparr>\<rparr>) w Outside)"
| pop: "w < length (s_workers s) \<Longrightarrow> s_workers s ! w = Waiting c \<Longrightarrow>
    wait_pop True timeout (m_dag (s_tx s)) = Some (i, d') \<Longrightarrow> i \<noteq> INVALID_ID \<Longrightarrow>
    sched_step Pop s (set_worker (set_dag s d') w (Running i c))"
| exec: "w < length (s_workers s) \<Longrightarrow> s_workers s ! w = Running i c \<Longrightarrow>
    i < length (vtxs (m_dag (s_tx s))) \<Longrightarrow>
    sched_step Exec s
      (set_worker (s\<lparr>s_log := s_log s @ [i]\<rparr>) w
        (Consuming i (out_edge (vtxs (m_dag (s_tx s)) ! i)) 0 INVALID_ID (c + 1)))"
| edge: "w < length (s_workers s) \<Longrightarrow> s_workers s ! w = Consuming i (t # ts) p nx c \<Longrightarrow>
    consume_edge t (m_dag (s_tx s), p, nx) = Some (d', p', nx') \<Longrightarrow>
    sched_step Edge s (set_worker (set_dag s d') w (Consuming i ts p' nx' c))"
| fin: "w < length (s_workers s) \<Longrightarrow> s_workers s ! w = Consuming i [] p nx c \<Longrightarrow>
    sched_step Fin s
      (set_worker (set_dag s ((m_dag (s_tx s))\<lparr>total_consume := total_consume (m_dag (s_tx s)) + 1\<rparr>)) w
        (if nx \<noteq> INVALID_ID then Running nx c else Waiting c))"

inductive_cases sched_stepE: "sched_step l s s'"

inductive sched_run :: "sched \<Rightarrow> label list \<Rightarrow> sched \<Rightarrow> bool" where
  run_nil: "sched_run s [] s"
| run_snoc: "sched_run s ls s' \<Longrightarrow> sched_step l s' s'' \<Longrightarrow> sched_run s (ls @ [l]) s''"

definition sched_start :: "tx_dag \<Rightarrow> nat \<Rightarrow> sched" where
  "sched_start td k = \<lparr>s_tx = td, s_workers = replicate k Outside, s_log = []\<rparr>"

lemma set_worker_simps [simp]:
  "s_tx (set_worker s w x) = s_tx s" "s_log (set_worker s w x) = s_log s"
  "s_workers (set_worker s w x) = (s_workers s)[w := x]"
  by (simp_all add: set_worker_def)

lemma set_dag_simps [simp]:
  "s_workers (set_dag s d) = s_workers s" "s_log (set_dag s d) = s_log s"
  "s_tx (set_dag s d) = (s_tx s)\<lparr>m_dag := d\<rparr>"
  by (simp_all add: set_dag_def)

section \<open>The invariant\<close>

text \<open>What a thread still owes to a vertex, and whether it holds its token.\<close>

fun owes :: "nat \<Rightarrow> worker \<Rightarrow> nat" where
  "owes v (Consuming i ts p nx c) = count_list ts v"
| "owes v _ = 0"

fun holds :: "nat \<Rightarrow> worker \<Rightarrow> nat" where
  "holds v (Running i c) = (if i = v then 1 else 0)"
| "holds v (Consuming i ts p nx c) = (if nx = v then 1 else 0)"
| "holds v _ = 0"

fun local_cnt :: "worker \<Rightarrow> nat" where
  "local_cnt (Waiting c) = c"
| "local_cnt (Running i c) = c"
| "local_cnt (Consuming i ts p nx c) = c"
| "local_cnt Outside = 0"

fun worker_ok :: "nat \<Rightarrow> worker \<Rightarrow> bool" where
  "worker_ok n (Running i c) \<longleftrightarrow> i < n"
| "worker_ok n (Consuming i ts p nx c) \<longleftrightarrow>
     (\<forall>t \<in> set ts. t < n) \<and> (if p = 0 then nx = INVALID_ID else nx < n)"
| "worker_ok n _ \<longleftrightarrow> True"

definition out_of :: "dag \<Rightarrow> nat \<Rightarrow> nat list" where
  "out_of D v = out_edge (vtxs D ! v)"

text \<open>Edge occurrences into \<open>v\<close> from transactions that have not been executed.\<close>

definition pending :: "dag \<Rightarrow> nat list \<Rightarrow> nat \<Rightarrow> nat" where
  "pending D xs v =
     sum_list (map (\<lambda>u. if u \<in> set xs then 0 else count_list (out_of D u) v) [0..<length (vtxs D)])"

definition sched_inv :: "dag \<Rightarrow> sched \<Rightarrow> bool" where
  "sched_inv D s \<longleftrightarrow>
     (let d = m_dag (s_tx s); n = length (vtxs D); ws = s_workers s in
      dag_ready D \<and> length (vtxs d) = n \<and> (\<forall>v < n. out_of d v = out_of D v)
      \<and> (\<forall>v < n. unat (in_degree (vtxs d ! v))
            = pending D (s_log s) v + sum_list (map (owes v) ws))
      \<and> (\<forall>v < n. count_list (top_level d) v + sum_list (map (holds v) ws) + count_list (s_log s) v
            = (if in_degree (vtxs d ! v) = 0 then 1 else 0))
      \<and> (\<forall>v \<in> set (top_level d) \<union> set (s_log s). v < n)
      \<and> (\<forall>x \<in> set ws. worker_ok n x)
      \<and> m_exeCnt (s_tx s) + sum_list (map local_cnt ws) = length (s_log s)
      \<and> m_totalParaTxs (s_tx s) = n \<and> \<not> m_stop (s_tx s)
      \<and> (\<forall>u v. has_edge D u v \<longrightarrow> precedes (s_log s) u v))"

lemma pending_Nil: "pending D [] v = edge_count (vtxs D) v"
proof -
  have "map (\<lambda>u. count_list (out_of D u) v) [0..<length (vtxs D)]
      = map (\<lambda>x. count_list (out_edge x) v) (vtxs D)"
    by (rule nth_equalityI) (simp_all add: out_of_def)
  then show ?thesis by (simp add: pending_def edge_count_def)
qed

lemma pending_snoc:
  assumes "i < length (vtxs D)" and "i \<notin> set xs"
  shows "pending D xs v = pending D (xs @ [i]) v + count_list (out_of D i) v"
proof -
  let ?A = "{0..<length (vtxs D)}"
  define g where "g = (\<lambda>ys u. if u \<in> set ys then 0 else count_list (out_of D u) v)"
  have eq: "pending D ys v = sum (g ys) ?A" for ys
    by (simp add: pending_def g_def interv_sum_list_conv_sum_set_nat)
  have "sum (g ys) ?A = g ys i + sum (g ys) (?A - {i})" for ys
    using assms(1) by (simp add: sum.remove)
  moreover have "sum (g xs) (?A - {i}) = sum (g (xs @ [i])) (?A - {i})"
    by (rule sum.cong) (auto simp: g_def)
  moreover have "g xs i = count_list (out_of D i) v" "g (xs @ [i]) i = 0"
    using assms(2) by (simp_all add: g_def)
  ultimately show ?thesis unfolding eq by presburger
qed

lemma pending_zeroD:
  assumes "pending D xs v = 0" and "has_edge D u v"
  shows "u \<in> set xs"
proof (rule ccontr)
  assume "u \<notin> set xs"
  moreover have "u \<in> set [0..<length (vtxs D)]" using assms(2) by (simp add: has_edge_def)
  then have "(if u \<in> set xs then 0 else count_list (out_of D u) v) = 0"
    using assms(1) by (simp add: pending_def)
  ultimately have "count_list (out_of D u) v = 0" by simp
  then show False using assms(2) by (simp add: has_edge_def out_of_def count_list_0_iff)
qed

lemma sched_inv_start:
  assumes "dag_ready (m_dag td)" and "m_exeCnt td = 0"
    and "m_totalParaTxs td = length (vtxs (m_dag td))" and "\<not> m_stop td"
  shows "sched_inv (m_dag td) (sched_start td k)"
proof -
  let ?d = "m_dag td"
  have tl: "top_level ?d = filter (\<lambda>i. in_degree (vtxs ?d ! i) = 0) [0..<length (vtxs ?d)]"
    using assms(1) by (simp add: dag_ready_def)
  have "count_list (top_level ?d) v = (if in_degree (vtxs ?d ! v) = 0 then 1 else 0)"
    if "v < length (vtxs ?d)" for v
  proof -
    have "distinct (top_level ?d)" using tl by simp
    moreover have "v \<in> set (top_level ?d) \<longleftrightarrow> in_degree (vtxs ?d ! v) = 0" using tl that by simp
    ultimately show ?thesis by (simp add: count_list_distinct)
  qed
  moreover have "\<forall>v \<in> set (top_level ?d). v < length (vtxs ?d)" using tl by simp
  moreover have "\<forall>v < length (vtxs ?d). unat (in_degree (vtxs ?d ! v)) = edge_count (vtxs ?d) v"
    using assms(1) by (simp add: dag_ready_def degrees_ok_def)
  ultimately show ?thesis
    using assms by (simp add: sched_inv_def sched_start_def Let_def pending_Nil sum_list_replicate)
qed

section \<open>Every step keeps the invariant\<close>

lemma sched_invD:
  assumes "sched_inv D s"
  shows "dag_ready D" "length (vtxs (m_dag (s_tx s))) = length (vtxs D)"
    "\<And>v. v < length (vtxs D) \<Longrightarrow> out_of (m_dag (s_tx s)) v = out_of D v"
    "\<And>v. v < length (vtxs D) \<Longrightarrow> unat (in_degree (vtxs (m_dag (s_tx s)) ! v))
       = pending D (s_log s) v + sum_list (map (owes v) (s_workers s))"
    "\<And>v. v < length (vtxs D) \<Longrightarrow>
       count_list (top_level (m_dag (s_tx s))) v + sum_list (map (holds v) (s_workers s))
         + count_list (s_log s) v = (if in_degree (vtxs (m_dag (s_tx s)) ! v) = 0 then 1 else 0)"
    "\<And>v. v \<in> set (top_level (m_dag (s_tx s))) \<Longrightarrow> v < length (vtxs D)"
    "\<And>v. v \<in> set (s_log s) \<Longrightarrow> v < length (vtxs D)"
    "\<And>x. x \<in> set (s_workers s) \<Longrightarrow> worker_ok (length (vtxs D)) x"
    "m_exeCnt (s_tx s) + sum_list (map local_cnt (s_workers s)) = length (s_log s)"
    "m_totalParaTxs (s_tx s) = length (vtxs D)" "\<not> m_stop (s_tx s)"
    "\<And>u v. has_edge D u v \<Longrightarrow> precedes (s_log s) u v"
  using assms by (auto simp: sched_inv_def Let_def)

text \<open>Changing one thread: the sums over the threads are treated once and for all here.\<close>

lemma sched_inv_update:
  assumes inv: "sched_inv D s" and w: "w < length (s_workers s)"
    and ws: "s_workers s' = (s_workers s)[w := x]"
    and tot: "m_totalParaTxs (s_tx s') = m_totalParaTxs (s_tx s)" "m_stop (s_tx s') = m_stop (s_tx s)"
    and len: "length (vtxs (m_dag (s_tx s'))) = length (vtxs D)"
    and outs: "\<And>v. v < length (vtxs D) \<Longrightarrow>
      out_of (m_dag (s_tx s')) v = out_of (m_dag (s_tx s)) v"
    and deg: "\<And>v. v < length (vtxs D) \<Longrightarrow>
      unat (in_degree (vtxs (m_dag (s_tx s')) ! v)) + pending D (s_log s) v + owes v (s_workers s ! w)
      = unat (in_degree (vtxs (m_dag (s_tx s)) ! v)) + pending D (s_log s') v + owes v x"
    and tok: "\<And>v. v < length (vtxs D) \<Longrightarrow>
      count_list (top_level (m_dag (s_tx s'))) v + holds v x + count_list (s_log s') v
        + (if in_degree (vtxs (m_dag (s_tx s)) ! v) = 0 then 1 else 0)
      = count_list (top_level (m_dag (s_tx s))) v + holds v (s_workers s ! w)
        + count_list (s_log s) v + (if in_degree (vtxs (m_dag (s_tx s')) ! v) = 0 then 1 else 0)"
    and rng: "\<And>v. v \<in> set (top_level (m_dag (s_tx s'))) \<union> set (s_log s') \<Longrightarrow> v < length (vtxs D)"
    and ok: "worker_ok (length (vtxs D)) x"
    and cnt: "m_exeCnt (s_tx s') + local_cnt x + length (s_log s)
      = m_exeCnt (s_tx s) + local_cnt (s_workers s ! w) + length (s_log s')"
    and ord: "\<And>u v. has_edge D u v \<Longrightarrow> precedes (s_log s') u v"
  shows "sched_inv D s'"
proof -
  note D = sched_invD [OF inv]
  have sums: "sum_list (map f (s_workers s')) + f (s_workers s ! w)
      = sum_list (map f (s_workers s)) + (f x :: nat)" for f
    unfolding ws by (rule sum_list_map_update [OF w])
  have "unat (in_degree (vtxs (m_dag (s_tx s')) ! v))
      = pending D (s_log s') v + sum_list (map (owes v) (s_workers s'))" if "v < length (vtxs D)" for v
    using D(4) [OF that] deg [OF that] sums [of "owes v"] by linarith
  moreover have "count_list (top_level (m_dag (s_tx s'))) v + sum_list (map (holds v) (s_workers s'))
       + count_list (s_log s') v = (if in_degree (vtxs (m_dag (s_tx s')) ! v) = 0 then 1 else 0)"
    if "v < length (vtxs D)" for v
    using D(5) [OF that] tok [OF that] sums [of "holds v"] by linarith
  moreover have "m_exeCnt (s_tx s') + sum_list (map local_cnt (s_workers s')) = length (s_log s')"
    using D(9) cnt sums [of local_cnt] by linarith
  moreover have "\<forall>y \<in> set (s_workers s'). worker_ok (length (vtxs D)) y"
    using D(8) ok set_update_subset_insert [of "s_workers s" w x] ws by auto
  ultimately show ?thesis
    using D(1,3,10,11) tot len outs rng ord unfolding sched_inv_def Let_def by simp
qed

lemma wait_pop_cases:
  assumes "wait_pop True timeout d = Some (i, d')"
  shows "(\<exists>q. top_level d = i # q \<and> d' = d\<lparr>top_level := q\<rparr>) \<or> (i = INVALID_ID \<and> d' = d \<and> top_level d = [])"
  using assms by (auto simp: wait_pop_def split: list.splits if_splits)

lemma enter_inv [inv_rules]:
  assumes "sched_inv D s" "w < length (s_workers s)" "s_workers s ! w = Outside"
  shows "sched_inv D (set_worker s w (Waiting 0))"
  using sched_invD [OF assms(1)] assms
  by (intro sched_inv_update [OF assms(1,2), where x = "Waiting 0"]) auto

lemma leave_inv [inv_rules]:
  assumes inv: "sched_inv D s" and w: "w < length (s_workers s)" "s_workers s ! w = Waiting c"
    and wp: "wait_pop True timeout (m_dag (s_tx s)) = Some (INVALID_ID, d')"
  shows "sched_inv D (set_worker (s\<lparr>s_tx := (s_tx s)\<lparr>m_dag := d',
          m_exeCnt := (if c > 0 then m_exeCnt (s_tx s) + c else m_exeCnt (s_tx s))\<rparr>\<rparr>) w Outside)"
proof -
  note D = sched_invD [OF inv]
  have "INVALID_ID \<notin> set (top_level (m_dag (s_tx s)))"
    using D(1) D(6) [of INVALID_ID] unfolding dag_ready_def by linarith
  then have d': "d' = m_dag (s_tx s)" using wait_pop_cases [OF wp] by auto
  show ?thesis
    using D w by (intro sched_inv_update [OF inv w(1), where x = Outside]) (auto simp: d')
qed

lemma pop_inv [inv_rules]:
  assumes inv: "sched_inv D s" and w: "w < length (s_workers s)" "s_workers s ! w = Waiting c"
    and wp: "wait_pop True timeout (m_dag (s_tx s)) = Some (i, d')" and i: "i \<noteq> INVALID_ID"
  shows "sched_inv D (set_worker (set_dag s d') w (Running i c))"
proof -
  note D = sched_invD [OF inv]
  obtain q where q: "top_level (m_dag (s_tx s)) = i # q" "d' = (m_dag (s_tx s))\<lparr>top_level := q\<rparr>"
    using wait_pop_cases [OF wp] i by auto
  show ?thesis
    using D w q by (intro sched_inv_update [OF inv w(1), where x = "Running i c"]) (auto simp: out_of_def)
qed

lemma exec_inv [inv_rules]:
  assumes inv: "sched_inv D s" and w: "w < length (s_workers s)" "s_workers s ! w = Running i c"
  shows "sched_inv D (set_worker (s\<lparr>s_log := s_log s @ [i]\<rparr>) w
        (Consuming i (out_edge (vtxs (m_dag (s_tx s)) ! i)) 0 INVALID_ID (c + 1)))"
proof -
  note D = sched_invD [OF inv]
  let ?d = "m_dag (s_tx s)"
  have i: "i < length (vtxs D)" using D(8) w nth_mem by fastforce
  have out: "out_edge (vtxs ?d ! i) = out_of D i" using D(3) [OF i] by (simp add: out_of_def)
  have "holds i (s_workers s ! w) \<le> sum_list (map (holds i) (s_workers s))"
    by (rule sum_list_map_ge [OF w(1)])
  then have "1 \<le> sum_list (map (holds i) (s_workers s))" using w(2) by simp
  then have zero: "in_degree (vtxs ?d ! i) = 0" and nolog: "count_list (s_log s) i = 0"
    using D(5) [OF i] by (simp_all split: if_splits)
  have notin: "i \<notin> set (s_log s)" using nolog by (simp add: count_list_0_iff)
  have "pending D (s_log s) i = 0" using D(4) [OF i] zero by simp
  then have ord: "precedes (s_log s @ [i]) u v" if "has_edge D u v" for u v
    using D(12) [OF that] pending_zeroD that by (auto simp: precedes_snoc)
  have fwd: "\<forall>t \<in> set (out_of D i). t < length (vtxs D)"
    using D(1) i unfolding dag_ready_def forward_def has_edge_def out_of_def by blast
  have inval: "v < length (vtxs D) \<Longrightarrow> INVALID_ID \<noteq> v" for v
    using D(1) unfolding dag_ready_def by linarith
  show ?thesis
    unfolding out
  proof (rule sched_inv_update [OF inv w(1), where x = "Consuming i (out_of D i) 0 INVALID_ID (c + 1)"],
      goal_cases)
    case (6 v)
    then show ?case using pending_snoc [OF i notin, of v] w(2) by simp
  next
    case (7 v)
    then show ?case using inval [of v] w(2) by simp
  next
    case (8 v)
    then show ?case using D(6) [of v] D(7) [of v] i by auto
  qed (use D(2) fwd w(2) ord in simp_all)
qed

lemma consume_edge_cases:
  assumes "consume_edge t (d, p, nx) = Some (d', p', nx')"
  shows "vtxs d' = (vtxs d)[t := (vtxs d ! t)\<lparr>in_degree := in_degree (vtxs d ! t) - 1\<rparr>] \<and>
    (if in_degree (vtxs d ! t) = 1
     then p' = p + 1 \<and> (if p = 0 then nx' = t \<and> top_level d' = top_level d
                        else nx' = nx \<and> top_level d' = top_level d @ [t])
     else p' = p \<and> nx' = nx \<and> top_level d' = top_level d)"
  using assms by (auto simp: consume_edge_def Let_def split: if_splits)

lemma edge_inv [inv_rules]:
  assumes inv: "sched_inv D s" and w: "w < length (s_workers s)"
      "s_workers s ! w = Consuming i (t # ts) p nx c"
    and ce: "consume_edge t (m_dag (s_tx s), p, nx) = Some (d', p', nx')"
  shows "sched_inv D (set_worker (set_dag s d') w (Consuming i ts p' nx' c))"
proof -
  note D = sched_invD [OF inv]
  let ?d = "m_dag (s_tx s)" and ?last = "in_degree (vtxs (m_dag (s_tx s)) ! t)"
  have ok: "t < length (vtxs D)" "\<forall>t \<in> set ts. t < length (vtxs D)"
      "if p = 0 then nx = INVALID_ID else nx < length (vtxs D)"
    using D(8) [OF nth_mem [OF w(1)]] w(2) by auto
  note c = consume_edge_cases [OF ce]
  have "owes t (s_workers s ! w) \<le> sum_list (map (owes t) (s_workers s))"
    by (rule sum_list_map_ge [OF w(1)])
  then have pos: "1 \<le> unat ?last" using D(4) [OF ok(1)] w(2) by simp
  then have nz: "?last \<noteq> 0" by auto
  then have un: "unat (?last - 1) = unat ?last - 1" by (rule unat_minus_one)
  have zero: "?last - 1 = 0 \<longleftrightarrow> ?last = 1" by (rule right_minus_eq)
  have vt: "vtxs d' ! v = (if v = t then (vtxs ?d ! t)\<lparr>in_degree := ?last - 1\<rparr> else vtxs ?d ! v)"
    if "v < length (vtxs D)" for v
    using c [THEN conjunct1] D(2) ok(1) by (simp only: nth_list_update) simp
  have inval: "v < length (vtxs D) \<Longrightarrow> INVALID_ID \<noteq> v" for v
    using D(1) unfolding dag_ready_def by linarith
  show ?thesis
  proof (rule sched_inv_update [OF inv w(1), where x = "Consuming i ts p' nx' c"], goal_cases)
    case (5 v)
    then show ?case using vt [of v] by (simp add: out_of_def)
  next
    case (6 v)
    then show ?case using vt [of v] un pos w(2) by (cases "t = v") auto
  next
    case (7 v)
    then show ?case using vt [of v] zero nz w(2) c inval [of v] ok(3) by (auto split: if_splits)
  next
    case (8 v)
    then show ?case using D(6) [of v] D(7) [of v] c ok(1) by (auto split: if_splits)
  next
    case 9
    then show ?case using ok c by (auto split: if_splits)
  qed (use D(2,12) w(2) c in simp_all)
qed

lemma fin_inv [inv_rules]:
  assumes inv: "sched_inv D s" and w: "w < length (s_workers s)"
      "s_workers s ! w = Consuming i [] p nx c"
  shows "sched_inv D (set_worker (set_dag s ((m_dag (s_tx s))
      \<lparr>total_consume := total_consume (m_dag (s_tx s)) + 1\<rparr>)) w
      (if nx \<noteq> INVALID_ID then Running nx c else Waiting c))"
proof -
  note D = sched_invD [OF inv]
  have ok: "if p = 0 then nx = INVALID_ID else nx < length (vtxs D)"
    using D(8) [OF nth_mem [OF w(1)]] w(2) by simp
  have inval: "v < length (vtxs D) \<Longrightarrow> INVALID_ID \<noteq> v" for v
    using D(1) unfolding dag_ready_def by linarith
  show ?thesis
  proof (rule sched_inv_update [OF inv w(1),
        where x = "if nx \<noteq> INVALID_ID then Running nx c else Waiting c"], goal_cases)
    case (7 v)
    then show ?case using w(2) inval [of v] by simp
  next
    case (8 v)
    then show ?case using D(6) [of v] D(7) [of v] by auto
  next
    case 9
    then show ?case using ok by (simp split: if_splits)
  qed (use D(2,12) w(2) in \<open>simp_all add: out_of_def\<close>)
qed

lemma sched_step_inv: "sched_step l s s' \<Longrightarrow> sched_inv D s \<Longrightarrow> sched_inv D s'"
  by (induction rule: sched_step.induct) (blast intro: inv_rules)+

lemma sched_run_inv: "sched_run s ls s' \<Longrightarrow> sched_inv D s \<Longrightarrow> sched_inv D s'"
  by (induction rule: sched_run.induct) (auto intro: sched_step_inv)

section \<open>Progress and termination\<close>

text \<open>
  In a state with no thread inside \<open>executeUnit\<close> past its queue and with an empty queue, every
  transaction has been executed: the least one that has not would have in-degree zero, hence
  a token, and there is no place left for a token.
\<close>

fun busy :: "worker \<Rightarrow> bool" where
  "busy (Running i c) = True"
| "busy (Consuming i ts p nx c) = True"
| "busy _ = False"

lemma quiet_complete:
  assumes inv: "sched_inv D s" and quiet: "\<forall>x \<in> set (s_workers s). \<not> busy x"
    and empty: "top_level (m_dag (s_tx s)) = []"
  shows "v < length (vtxs D) \<Longrightarrow> v \<in> set (s_log s)"
proof (induction v rule: less_induct)
  case (less v)
  note D = sched_invD [OF inv]
  have none: "sum_list (map (owes v) (s_workers s)) = 0" "sum_list (map (holds v) (s_workers s)) = 0"
    using quiet by (auto intro!: sum_list_map_zero elim!: busy.elims(3))
  have "(if u \<in> set (s_log s) then 0 else count_list (out_of D u) v) = 0"
    if "u < length (vtxs D)" for u
  proof (cases "v \<in> set (out_of D u)")
    case True
    then have "has_edge D u v" using that by (simp add: has_edge_def out_of_def)
    then have "u < v" using D(1) unfolding dag_ready_def forward_def by blast
    then show ?thesis using less by simp
  next
    case False
    then show ?thesis by (simp add: count_list_0_iff)
  qed
  then have "pending D (s_log s) v = 0"
    unfolding pending_def by (intro sum_list_map_zero) simp
  then have "in_degree (vtxs (m_dag (s_tx s)) ! v) = 0"
    using D(4) [OF less.prems] none by (simp add: unat_eq_0)
  then have "count_list (s_log s) v = 1"
    using D(5) [OF less.prems] none empty by simp
  then show ?case by (metis count_list_0_iff zero_neq_one)
qed

lemma sched_log_distinct:
  assumes "sched_inv D s"
  shows "distinct (s_log s)"
proof (rule count_list_le_one_distinct)
  fix v
  note D = sched_invD [OF assms]
  show "count_list (s_log s) v \<le> 1"
  proof (cases "v < length (vtxs D)")
    case True
    then show ?thesis using D(5) [OF True] by (simp split: if_splits)
  next
    case False
    then have "v \<notin> set (s_log s)" using D(7) by blast
    then show ?thesis by (simp add: count_list_0_iff)
  qed
qed

lemma sched_log_length:
  assumes "sched_inv D s"
  shows "length (s_log s) \<le> length (vtxs D)"
    "length (s_log s) = length (vtxs D) \<Longrightarrow> set (s_log s) = {0..<length (vtxs D)}"
proof -
  note D = sched_invD [OF assms]
  have sub: "set (s_log s) \<subseteq> {0..<length (vtxs D)}" using D(7) by auto
  have card: "card (set (s_log s)) = length (s_log s)"
    using sched_log_distinct [OF assms] by (rule distinct_card)
  show "length (s_log s) \<le> length (vtxs D)"
    using card_mono [OF _ sub] card by simp
  show "set (s_log s) = {0..<length (vtxs D)}" if "length (s_log s) = length (vtxs D)"
    using card_subset_eq [OF _ sub] card that by simp
qed

text \<open>When \<open>hasFinished\<close> holds, everything has been executed.\<close>

lemma finished_complete:
  assumes "sched_inv D s" and "has_finished (s_tx s)"
  shows "set (s_log s) = {0..<length (vtxs D)} \<and> distinct (s_log s)"
proof -
  note D = sched_invD [OF assms(1)]
  have "length (vtxs D) \<le> length (s_log s)"
    using assms(2) D(9,10,11) by (simp add: has_finished_def)
  then have "length (s_log s) = length (vtxs D)" using sched_log_length(1) [OF assms(1)] by simp
  then show ?thesis using sched_log_length(2) [OF assms(1)] sched_log_distinct [OF assms(1)] by simp
qed

text \<open>Productive steps, and the potential they decrease.\<close>

fun productive :: "label \<Rightarrow> bool" where
  "productive Enter = False"
| "productive Leave = False"
| "productive _ = True"

fun work_left :: "worker \<Rightarrow> nat" where
  "work_left (Running i c) = 0"
| "work_left (Consuming i ts p nx c) = length ts + 2"
| "work_left _ = 1"

definition unexecuted :: "dag \<Rightarrow> nat list \<Rightarrow> nat" where
  "unexecuted D xs =
     sum_list (map (\<lambda>u. if u \<in> set xs then 0 else length (out_of D u) + 3) [0..<length (vtxs D)])"

definition potential :: "dag \<Rightarrow> sched \<Rightarrow> nat" where
  "potential D s = unexecuted D (s_log s) + sum_list (map work_left (s_workers s))"

lemma unexecuted_snoc:
  assumes "i < length (vtxs D)" and "i \<notin> set xs"
  shows "unexecuted D xs = unexecuted D (xs @ [i]) + length (out_of D i) + 3"
proof -
  let ?A = "{0..<length (vtxs D)}"
  define g where "g = (\<lambda>ys u. if u \<in> set ys then 0 else length (out_of D u) + 3)"
  have eq: "unexecuted D ys = sum (g ys) ?A" for ys
    by (simp add: unexecuted_def g_def interv_sum_list_conv_sum_set_nat)
  have "sum (g ys) ?A = g ys i + sum (g ys) (?A - {i})" for ys
    using assms(1) by (simp add: sum.remove)
  moreover have "sum (g xs) (?A - {i}) = sum (g (xs @ [i])) (?A - {i})"
    by (rule sum.cong) (auto simp: g_def)
  moreover have "g xs i = length (out_of D i) + 3" "g (xs @ [i]) i = 0"
    using assms(2) by (simp_all add: g_def)
  ultimately show ?thesis unfolding eq by presburger
qed

lemma work_update:
  assumes "w < length ws"
  shows "sum_list (map work_left (ws[w := x])) + work_left (ws ! w)
    = sum_list (map work_left ws) + work_left x"
  using assms by (rule sum_list_map_update)

text \<open>A thread about to run a transaction holds its token, so it has not been run.\<close>

lemma running_fresh:
  assumes "sched_inv D s" and "w < length (s_workers s)" and "s_workers s ! w = Running i c"
  shows "i < length (vtxs D)" "i \<notin> set (s_log s)"
proof -
  note D = sched_invD [OF assms(1)]
  show i: "i < length (vtxs D)" using D(8) assms(2,3) nth_mem by fastforce
  have "holds i (s_workers s ! w) \<le> sum_list (map (holds i) (s_workers s))"
    by (rule sum_list_map_ge [OF assms(2)])
  then have "count_list (s_log s) i = 0" using assms(3) D(5) [OF i] by (simp split: if_splits)
  then show "i \<notin> set (s_log s)" by (simp add: count_list_0_iff)
qed

lemma step_potential:
  assumes "sched_step l s s'" and "sched_inv D s"
  shows "potential D s' + (if productive l then 1 else 0) \<le> potential D s"
  using assms
proof (cases rule: sched_step.cases)
  case (exec w i c)
  note r = running_fresh [OF assms(2) exec(3,4)]
  have "out_edge (vtxs (m_dag (s_tx s)) ! i) = out_of D i"
    using sched_invD(3) [OF assms(2) r(1)] by (simp add: out_of_def)
  then show ?thesis
    using exec unexecuted_snoc [OF r] work_update [OF exec(3), of "Consuming i (out_of D i) 0 INVALID_ID (c + 1)"] by (simp add: potential_def)
next
  case (fin w i p nx c)
  then show ?thesis
    using work_update [OF fin(3), of "Running nx c"] work_update [OF fin(3), of "Waiting c"]
    by (simp add: potential_def split: if_splits)
next
  case (enter w)
  then show ?thesis using work_update [OF enter(3), of "Waiting 0"] by (simp add: potential_def)
next
  case (leave w c timeout d')
  then show ?thesis using work_update [OF leave(3), of Outside] by (simp add: potential_def)
next
  case (pop w c timeout i d')
  then show ?thesis using work_update [OF pop(3), of "Running i c"] by (simp add: potential_def)
next
  case (edge w i t ts p nx c d' p' nx')
  then show ?thesis using work_update [OF edge(3), of "Consuming i ts p' nx' c"] by (simp add: potential_def)
qed

lemma run_potential:
  assumes "sched_run s ls s'" and "sched_inv D s"
  shows "potential D s' + length (filter productive ls) \<le> potential D s"
  using assms
proof (induction rule: sched_run.induct)
  case (run_nil s)
  then show ?case by simp
next
  case (run_snoc s ls s' l s'')
  have "sched_inv D s'" using sched_run_inv [OF run_snoc.hyps(1) run_snoc.prems] .
  then have "potential D s'' + (if productive l then 1 else 0) \<le> potential D s'"
    using step_potential [OF run_snoc.hyps(2)] by blast
  then show ?case using run_snoc by (cases "productive l") auto
qed

text \<open>
  No deadlock: while something is left to execute, some thread can do productive work, at
  most after entering the unit first.
\<close>

lemma busy_step:
  assumes inv: "sched_inv D s" and w: "w < length (s_workers s)" and b: "busy (s_workers s ! w)"
  shows "\<exists>l s'. sched_step l s s' \<and> productive l"
proof (cases "s_workers s ! w")
  case (Running i c)
  have "i < length (vtxs (m_dag (s_tx s)))"
    using running_fresh(1) [OF inv w Running] sched_invD(2) [OF inv] by simp
  then show ?thesis using sched_step.exec [OF w Running] productive.simps by blast
next
  case (Consuming i ts p nx c)
  show ?thesis
  proof (cases ts)
    case Nil
    then show ?thesis using sched_step.fin [OF w] Consuming productive.simps by blast
  next
    case (Cons t ts')
    have "t < length (vtxs (m_dag (s_tx s)))"
      using sched_invD(8) [OF inv nth_mem [OF w]] sched_invD(2) [OF inv] Consuming Cons by simp
    then obtain d' p' nx' where "consume_edge t (m_dag (s_tx s), p, nx) = Some (d', p', nx')"
      by (cases "in_degree (vtxs (m_dag (s_tx s)) ! t) = 1"; cases "p = 0")
        (auto simp: consume_edge_def Let_def)
    then show ?thesis using sched_step.edge [OF w] Consuming Cons productive.simps by blast
  qed
qed (use b in simp_all)

lemma sched_progress:
  assumes inv: "sched_inv D s" and ws: "s_workers s \<noteq> []" and left: "set (s_log s) \<noteq> {0..<length (vtxs D)}"
  shows "(\<exists>l s'. sched_step l s s' \<and> productive l)
     \<or> (\<exists>s' s''. sched_step Enter s s' \<and> sched_step Pop s' s'')"
proof (cases "\<exists>w < length (s_workers s). busy (s_workers s ! w)")
  case True
  then show ?thesis using busy_step [OF inv] by blast
next
  case False
  then have quiet: "\<forall>x \<in> set (s_workers s). \<not> busy x" by (auto simp: in_set_conv_nth)
  note D = sched_invD [OF inv]
  have "top_level (m_dag (s_tx s)) \<noteq> []"
  proof
    assume "top_level (m_dag (s_tx s)) = []"
    then have "{0..<length (vtxs D)} \<subseteq> set (s_log s)" using quiet_complete [OF inv quiet] by auto
    moreover have "set (s_log s) \<subseteq> {0..<length (vtxs D)}" using D(7) by auto
    ultimately show False using left by simp
  qed
  then obtain i q where q: "top_level (m_dag (s_tx s)) = i # q" by (cases "top_level (m_dag (s_tx s))") auto
  then have i: "i \<noteq> INVALID_ID" using D(1) D(6) [of i] unfolding dag_ready_def by auto
  have wp: "wait_pop True timeout (m_dag (s_tx s)) = Some (i, (m_dag (s_tx s))\<lparr>top_level := q\<rparr>)"
    for timeout using q by (simp add: wait_pop_def)
  obtain w where w: "w < length (s_workers s)" using ws by blast
  have "\<not> busy (s_workers s ! w)" using quiet w by simp
  then consider c where "s_workers s ! w = Waiting c" | "s_workers s ! w = Outside"
    by (cases "s_workers s ! w") auto
  then show ?thesis
  proof cases
    case 1
    then show ?thesis using sched_step.pop [OF w 1 wp i] productive.simps by blast
  next
    case 2
    have "\<not> has_finished (s_tx s)" using finished_complete [OF inv] left by blast
    with w 2 have "sched_step Enter s (set_worker s w (Waiting 0))" by (rule sched_step.enter)
    moreover have "\<exists>s''. sched_step Pop (set_worker s w (Waiting 0)) s''"
      using sched_step.pop [of w "set_worker s w (Waiting 0)" 0] w wp i by auto
    ultimately show ?thesis by blast
  qed
qed

end
