(* ===== verification/Commute.thy ===== *)
theory Commute imports Prelude begin

text \<open>
  Schedules of operations that commute unless they conflict.  The locale \<open>independent_steps\<close>
  holds the argument behind parallel execution: a log that runs every index below \<open>n\<close> once
  and keeps the order of conflicting pairs ends in the state of the serial order.  The locale
  \<open>footprint\<close> gives the commutation law for operations on a map that read and write only the
  keys they declare, together with the answers they return.
\<close>

locale independent_steps =
  fixes step :: "nat \<Rightarrow> 's \<Rightarrow> 's" and conflict :: "nat \<Rightarrow> nat \<Rightarrow> bool"
  assumes commute: "\<not> conflict i j \<Longrightarrow> i < j \<Longrightarrow> step i (step j s) = step j (step i s)"
begin

lemma fold_move_last:
  assumes "\<And>b. b \<in> set bs \<Longrightarrow> b < x \<and> \<not> conflict b x"
  shows "fold step (x # bs) s = fold step (bs @ [x]) s"
  using assms
proof (induction bs arbitrary: s)
  case Nil
  then show ?case by simp
next
  case (Cons b bs)
  have "step b (step x s) = step x (step b s)" using Cons.prems by (intro commute) auto
  moreover have "fold step (x # bs) (step b s) = fold step (bs @ [x]) (step b s)"
    using Cons.prems by (intro Cons.IH) simp
  ultimately show ?case by simp
qed

lemma precedes_remove:
  assumes "precedes (as @ x # bs) i j" and "i \<noteq> x"
  shows "precedes (as @ bs) i j"
  unfolding precedes_def
proof (intro allI impI)
  fix k
  assume k: "k < length (as @ bs)" "(as @ bs) ! k = j"
  show "i \<in> set (take k (as @ bs))"
  proof (cases "k < length as")
    case True
    with k have "(as @ x # bs) ! k = j" "k < length (as @ x # bs)" by (simp_all add: nth_append)
    with assms(1) have "i \<in> set (take k (as @ x # bs))" unfolding precedes_def by blast
    with True show ?thesis by simp
  next
    case False
    then obtain m where m: "k = length as + m" by (metis le_Suc_ex not_less)
    have "(as @ x # bs) ! (length as + Suc m) = j" "length as + Suc m < length (as @ x # bs)"
      using k unfolding m by (simp_all add: nth_append)
    with assms(1) have "i \<in> set (take (length as + Suc m) (as @ x # bs))"
      unfolding precedes_def by blast
    with m assms(2) show ?thesis by simp
  qed
qed

lemma schedule_serial:
  assumes "distinct log" and "set log = {0..<n}"
    and "\<And>i j. i < j \<Longrightarrow> j < n \<Longrightarrow> conflict i j \<Longrightarrow> precedes log i j"
  shows "fold step log s = fold step [0..<n] s"
  using assms
proof (induction n arbitrary: log)
  case 0
  then show ?case by simp
next
  case (Suc n)
  have "n \<in> set log" using Suc.prems(2) by simp
  then obtain as bs where log: "log = as @ n # bs" by (meson split_list)
  have dist: "distinct (as @ bs)" "n \<notin> set (as @ bs)" using Suc.prems(1) log by auto
  have "set (as @ bs) = set log - {n}" using log Suc.prems(1) by auto
  moreover have "{0..<Suc n} - {n} = {0..<n}" by auto
  ultimately have sub: "set (as @ bs) = {0..<n}" using Suc.prems(2) by (simp only:)
  have "b < n \<and> \<not> conflict b n" if b: "b \<in> set bs" for b
  proof -
    have bn: "b < n" using sub b by auto
    have "\<not> conflict b n"
    proof
      assume "conflict b n"
      then have "precedes log b n" using Suc.prems(3) [of b n] bn by simp
      then have "b \<in> set as" unfolding log by (rule precedes_split)
      then show False using b Suc.prems(1) log by auto
    qed
    with bn show ?thesis by simp
  qed
  then have "fold step (n # bs) t = fold step (bs @ [n]) t" for t by (rule fold_move_last)
  then have "fold step log s = step n (fold step (as @ bs) s)" using log by simp
  moreover have "fold step (as @ bs) s = fold step [0..<n] s"
  proof (rule Suc.IH [OF dist(1) sub])
    fix i j
    assume ij: "i < j" "j < n" "conflict i j"
    then have "precedes (as @ n # bs) i j" using Suc.prems(3) [of i j] log by simp
    then show "precedes (as @ bs) i j" by (rule precedes_remove) (use ij in simp)
  qed
  ultimately show ?case by simp
qed

end

section \<open>Operations with a declared footprint\<close>

text \<open>
  \<open>run_at op calls i\<close> runs call \<open>i\<close> on the map and files its answer under \<open>i\<close>; a call that is
  \<open>None\<close> is not run.
\<close>

definition run_at :: "('c \<Rightarrow> 's \<Rightarrow> 'a \<times> 's) \<Rightarrow> (nat \<Rightarrow> 'c option) \<Rightarrow> nat \<Rightarrow>
    (nat \<rightharpoonup> 'a) \<times> 's \<Rightarrow> (nat \<rightharpoonup> 'a) \<times> 's" where
  "run_at op calls i s = (case calls i of None \<Rightarrow> s
     | Some c \<Rightarrow> ((fst s)(i \<mapsto> fst (op c (snd s))), snd (op c (snd s))))"

locale footprint =
  fixes op :: "'c \<Rightarrow> ('k \<rightharpoonup> 'v) \<Rightarrow> 'a \<times> ('k \<rightharpoonup> 'v)" and keys :: "'c \<Rightarrow> 'k set"
  assumes frame: "k \<notin> keys c \<Longrightarrow> snd (op c m) k = m k"
    and answer: "(\<And>k. k \<in> keys c \<Longrightarrow> m k = m' k) \<Longrightarrow> fst (op c m) = fst (op c m')"
    and effect: "(\<And>k. k \<in> keys c \<Longrightarrow> m k = m' k) \<Longrightarrow> k \<in> keys c \<Longrightarrow>
      snd (op c m) k = snd (op c m') k"
begin

lemma answer_indep:
  assumes "keys c \<inter> keys d = {}"
  shows "fst (op c (snd (op d m))) = fst (op c m)"
  using assms by (intro answer frame) auto

lemma effect_commute:
  assumes "keys c \<inter> keys d = {}"
  shows "snd (op c (snd (op d m))) = snd (op d (snd (op c m)))"
proof
  fix k
  have dc: "keys d \<inter> keys c = {}" using assms by blast
  have *: "snd (op x (snd (op y m))) k = snd (op y (snd (op x m))) k"
    if "k \<in> keys x" and "keys x \<inter> keys y = {}" for x y
  proof -
    have "k \<notin> keys y" using that by auto
    then have "snd (op y (snd (op x m))) k = snd (op x m) k" by (rule frame)
    moreover have "snd (op x (snd (op y m))) k = snd (op x m) k"
      using that by (intro effect frame) auto
    ultimately show ?thesis by simp
  qed
  show "snd (op c (snd (op d m))) k = snd (op d (snd (op c m))) k"
  proof (cases "k \<in> keys c \<or> k \<in> keys d")
    case True
    then show ?thesis using * [of c d] * [of d c] assms dc by auto
  next
    case False
    then show ?thesis by (simp add: frame)
  qed
qed

end

locale scheduled_footprint = footprint op keys
  for op :: "'c \<Rightarrow> ('k \<rightharpoonup> 'v) \<Rightarrow> 'a \<times> ('k \<rightharpoonup> 'v)" and keys +
  fixes calls :: "nat \<Rightarrow> 'c option"
begin

definition clash :: "nat \<Rightarrow> nat \<Rightarrow> bool" where
  "clash i j \<longleftrightarrow> (\<exists>c d. calls i = Some c \<and> calls j = Some d \<and> keys c \<inter> keys d \<noteq> {})"

lemma run_at_commute:
  assumes "\<not> clash i j" and "i < j"
  shows "run_at op calls i (run_at op calls j s) = run_at op calls j (run_at op calls i s)"
proof (cases "calls i"; cases "calls j")
  fix c d
  assume cd: "calls i = Some c" "calls j = Some d"
  then have "keys c \<inter> keys d = {}" using assms(1) by (auto simp: clash_def)
  moreover have "keys d \<inter> keys c = {}" using calculation by blast
  ultimately show ?thesis
    using cd assms(2) by (simp add: run_at_def answer_indep effect_commute [of c d] fun_upd_twist)
qed (simp_all add: run_at_def)

end

sublocale scheduled_footprint \<subseteq> sched: independent_steps "run_at op calls" clash
  by unfold_locales (rule run_at_commute)

end
