(* ===== verification/Serializable.thy ===== *)
theory Serializable imports Scheduler Commute begin

text \<open>
  What the graph and the threads of \<open>TxDAG\<close> guarantee together: transactions that share a
  critical field are run in block order, every transaction is run exactly once when
  \<open>hasFinished\<close> holds, and a run in which only transactions with a common critical field
  interfere ends like the serial run of the block.
\<close>

lemma txdag_init_facts:
  assumes "fits n crits" and "txdag_init n crits new_tx_dag = Some td"
  shows "dag_ready (m_dag td)" "length (vtxs (m_dag td)) = n" "m_exeCnt td = 0"
    "m_totalParaTxs td = n" "\<not> m_stop td"
    "\<And>f t. has_edge (m_dag td) f t \<longleftrightarrow>
       t < n \<and> (\<exists>c \<in> set (crits ! t). last_use crits t c = f \<and> f \<noteq> INVALID_ID)"
proof -
  obtain d where d: "build_dag n crits = Some d" "dag_ready d" "length (vtxs d) = n"
      "\<forall>f t. has_edge d f t \<longleftrightarrow>
         t < n \<and> (\<exists>c \<in> set (crits ! t). last_use crits t c = f \<and> f \<noteq> INVALID_ID)"
    using build_dag_ok [OF assms(1)] by blast
  have "d = m_dag td" using d(1) assms(2) by (simp add: build_dag_def)
  then show "dag_ready (m_dag td)" "length (vtxs (m_dag td)) = n"
    "\<And>f t. has_edge (m_dag td) f t \<longleftrightarrow>
       t < n \<and> (\<exists>c \<in> set (crits ! t). last_use crits t c = f \<and> f \<noteq> INVALID_ID)"
    using d(2-4) by blast+
  obtain x where "td = new_tx_dag\<lparr>m_dag := x, m_totalParaTxs := n\<rparr>"
    using assms(2) by (auto simp: txdag_init_def split: option.splits)
  then show "m_exeCnt td = 0" "m_totalParaTxs td = n" "\<not> m_stop td"
    by (simp_all add: new_tx_dag_def)
qed

lemma txdag_init_Some: "fits n crits \<Longrightarrow> \<exists>td. txdag_init n crits new_tx_dag = Some td"
  using build_dag_ok by (fastforce simp: build_dag_def)

lemma run_from_start:
  assumes "fits n crits" and "txdag_init n crits new_tx_dag = Some td"
    and "sched_run (sched_start td k) ls s"
  shows "sched_inv (m_dag td) s"
  using sched_run_inv [OF assms(3)] sched_inv_start txdag_init_facts [OF assms(1,2)] by simp

lemma shared_critical_order:
  assumes "fits n crits" and "txdag_init n crits new_tx_dag = Some td"
    and "sched_run (sched_start td k) ls s"
    and "i < j" and "j < n" and "c \<in> set (crits ! i)" and "c \<in> set (crits ! j)"
  shows "precedes (s_log s) i j"
  using assms(4-)
proof (induction j rule: less_induct)
  case (less j)
  let ?p = "last_use crits j c"
  have n: "n < INVALID_ID" using assms(1) by (simp add: fits_def)
  have p: "i \<le> ?p" "?p < j" using last_use_ge [of i j c crits] less.prems n by auto
  then have pc: "c \<in> set (crits ! ?p)" "?p \<noteq> INVALID_ID"
    using last_use_cases [of crits j c] less.prems(2) n by auto
  have "has_edge (m_dag td) ?p j"
    unfolding txdag_init_facts(6) [OF assms(1,2)]
    by (intro conjI bexI [of _ c]) (use less.prems pc(2) in simp_all)
  then have pj: "precedes (s_log s) ?p j"
    using sched_invD(12) [OF run_from_start [OF assms(1,2,3)]] by blast
  show ?case
  proof (cases "?p = i")
    case True
    with pj show ?thesis by simp
  next
    case False
    then have ip: "i < ?p" using p(1) by linarith
    have pn: "?p < n" using p(2) less.prems(2) by linarith
    show ?thesis
      by (rule precedes_trans [OF less.IH [OF p(2) ip pn less.prems(3) pc(1)] pj])
  qed
qed

lemma finished_permutation:
  assumes "fits n crits" and "txdag_init n crits new_tx_dag = Some td"
    and "sched_run (sched_start td k) ls s" and "has_finished (s_tx s)"
  shows "distinct (s_log s)" "set (s_log s) = {0..<n}"
  using finished_complete [OF run_from_start [OF assms(1,2,3)] assms(4)]
    txdag_init_facts(2) [OF assms(1,2)] by simp_all

text \<open>The log against the serial order, for operations that commute without a common field.\<close>

lemma log_serial:
  assumes "fits n crits" and "txdag_init n crits new_tx_dag = Some td"
    and "sched_run (sched_start td k) ls s" and "has_finished (s_tx s)"
    and "independent_steps step conflict"
    and "\<And>i j. i < j \<Longrightarrow> j < n \<Longrightarrow> conflict i j \<Longrightarrow> set (crits ! i) \<inter> set (crits ! j) \<noteq> {}"
  shows "fold step (s_log s) x = fold step [0..<n] x"
proof (rule independent_steps.schedule_serial [OF assms(5) finished_permutation [OF assms(1-4)]])
  fix i j
  assume ij: "i < j" "j < n" "conflict i j"
  then obtain c where "c \<in> set (crits ! i)" "c \<in> set (crits ! j)" using assms(6) by blast
  then show "precedes (s_log s) i j" using shared_critical_order [OF assms(1-3) ij(1,2)] by blast
qed

text \<open>
  The number of productive steps a run can take: three per transaction and one per edge,
  plus one per thread.
\<close>

lemma run_length_bound:
  assumes "fits n crits" and "txdag_init n crits new_tx_dag = Some td"
    and "sched_run (sched_start td k) ls s"
  shows "length (filter productive ls) \<le> potential (m_dag td) (sched_start td k)"
proof -
  have "sched_inv (m_dag td) (sched_start td k)"
    using sched_inv_start txdag_init_facts [OF assms(1,2)] by simp
  then show ?thesis using run_potential [OF assms(3)] by fastforce
qed

end
