(* ===== verification/Storage.thy ===== *)
theory Storage imports Prelude begin

text \<open>
  The table storage the executor works on.  \<open>StateStorage\<close>, \<open>Table\<close> and \<open>Entry\<close> belong to
  bcos-framework, which is not part of this repository, so the storage is a parameter of the
  model: a record of operations, and the locale \<open>table_storage\<close> that names the documented
  behaviour the executor relies on.  An entry is represented by its field 0, the only field
  the executor's tables use.

  \<^item> \<open>st_open s t\<close>: \<open>openTable(t)\<close> returns a table;
  \<^item> \<open>st_create s t f\<close>: \<open>createTable(t, f)\<close>, the flag says whether a table is returned;
  \<^item> \<open>st_get s t k\<close> and \<open>st_set s t k v\<close>: \<open>getRow\<close> and \<open>setRow\<close>; reading may change the
    state (locks, recency), so \<open>st_get\<close> returns it;
  \<^item> \<open>st_del s t k\<close>: \<open>setRow\<close> with \<open>newDeletedEntry()\<close>.

  \<open>st_sys\<close> is the name \<open>StorageInterface::SYS_TABLES\<close> of the table that lists the tables.
  The map-based store \<open>mem_ops\<close> is the concrete instance used by the witnesses.
\<close>

record 's storage_ops =
  st_open :: "'s \<Rightarrow> string \<Rightarrow> bool"
  st_create :: "'s \<Rightarrow> string \<Rightarrow> string \<Rightarrow> bool \<times> 's"
  st_get :: "'s \<Rightarrow> string \<Rightarrow> string \<Rightarrow> string option \<times> 's"
  st_set :: "'s \<Rightarrow> string \<Rightarrow> string \<Rightarrow> string \<Rightarrow> 's"
  st_del :: "'s \<Rightarrow> string \<Rightarrow> string \<Rightarrow> 's"
  st_sys :: string

text \<open>The content of a row, without the effect of reading it.\<close>

definition row :: "'s storage_ops \<Rightarrow> 's \<Rightarrow> string \<Rightarrow> string \<Rightarrow> string option" where
  "row ops s t k = fst (st_get ops s t k)"

text \<open>\<open>getRows\<close>: the rows one after the other.\<close>

fun get_each :: "'s storage_ops \<Rightarrow> string \<Rightarrow> string list \<Rightarrow> 's \<Rightarrow> string option list \<times> 's" where
  "get_each ops t [] s = ([], s)"
| "get_each ops t (k # ks) s =
     (let (e, s1) = st_get ops s t k; (es, s2) = get_each ops t ks s1 in (e # es, s2))"

text \<open>
  The contract.  \<open>inv\<close> is the invariant of the provider.  The rows of \<open>st_sys\<close> are left
  open where an operation may rewrite the list of tables.
\<close>

locale table_storage =
  fixes ops :: "'s storage_ops" and inv :: "'s \<Rightarrow> bool"
  assumes get_inv: "inv s \<Longrightarrow> inv (snd (st_get ops s t k))"
    and get_row: "inv s \<Longrightarrow> row ops (snd (st_get ops s t k)) t' k' = row ops s t' k'"
    and get_open: "inv s \<Longrightarrow> st_open ops (snd (st_get ops s t k)) t' = st_open ops s t'"
    and set_inv: "inv s \<Longrightarrow> inv (st_set ops s t k v)"
    and set_row: "inv s \<Longrightarrow> st_open ops s t \<Longrightarrow> t \<noteq> st_sys ops \<Longrightarrow>
      row ops (st_set ops s t k v) t' k' = (if t' = t \<and> k' = k then Some v else row ops s t' k')"
    and set_open: "inv s \<Longrightarrow> t \<noteq> st_sys ops \<Longrightarrow>
      st_open ops (st_set ops s t k v) t' = st_open ops s t'"
    and del_inv: "inv s \<Longrightarrow> inv (st_del ops s t k)"
    and del_row: "inv s \<Longrightarrow> st_open ops s t \<Longrightarrow> t \<noteq> st_sys ops \<Longrightarrow>
      row ops (st_del ops s t k) t' k' = (if t' = t \<and> k' = k then None else row ops s t' k')"
    and del_open: "inv s \<Longrightarrow> t \<noteq> st_sys ops \<Longrightarrow>
      st_open ops (st_del ops s t k) t' = st_open ops s t'"
    and create_inv: "inv s \<Longrightarrow> inv (snd (st_create ops s t f))"
    and create_ok: "inv s \<Longrightarrow> \<not> st_open ops s t \<Longrightarrow> fst (st_create ops s t f)"
    and create_open: "inv s \<Longrightarrow> \<not> st_open ops s t \<Longrightarrow>
      st_open ops (snd (st_create ops s t f)) t' = (t' = t \<or> st_open ops s t')"
    and create_row: "inv s \<Longrightarrow> \<not> st_open ops s t \<Longrightarrow> t' \<noteq> st_sys ops \<Longrightarrow>
      row ops (snd (st_create ops s t f)) t' k = row ops s t' k"
    and closed_row: "inv s \<Longrightarrow> \<not> st_open ops s t \<Longrightarrow> row ops s t k = None"
    and sys_name: "hd (st_sys ops) \<noteq> CHR ''/''" "st_sys ops \<noteq> []"
begin

text \<open>Tables whose names are absolute paths are not the list of tables.\<close>

lemma path_not_sys: "CHR ''/'' # p \<noteq> st_sys ops"
  using sys_name by (metis list.sel(1))

lemma get_Some_row: "st_get ops s t k = (e, s') \<Longrightarrow> row ops s t k = e"
  by (simp add: row_def)

end

section \<open>A store of maps\<close>

type_synonym mem = "string \<Rightarrow> string \<rightharpoonup> string"

definition mem_sys :: string where
  "mem_sys = ''s_tables''"

definition mem_ops :: "mem storage_ops" where
  "mem_ops = \<lparr>
     st_open = (\<lambda>m t. t = mem_sys \<or> m mem_sys t \<noteq> None),
     st_create = (\<lambda>m t f. if t = mem_sys \<or> m mem_sys t \<noteq> None then (False, m)
                          else (True, (m(t := Map.empty))(mem_sys := (m mem_sys)(t \<mapsto> f)))),
     st_get = (\<lambda>m t k. (if t = mem_sys \<or> m mem_sys t \<noteq> None then m t k else None, m)),
     st_set = (\<lambda>m t k v. m(t := (m t)(k \<mapsto> v))),
     st_del = (\<lambda>m t k. m(t := (m t)(k := None))),
     st_sys = mem_sys\<rparr>"

definition mem_empty :: mem where
  "mem_empty = (\<lambda>_. Map.empty)"

interpretation mem: table_storage mem_ops "\<lambda>_. True"
  by unfold_locales (auto simp: mem_ops_def mem_sys_def row_def split: if_splits)

lemma mem_simps [simp]:
  "st_sys mem_ops = mem_sys"
  "st_open mem_ops m t = (t = mem_sys \<or> m mem_sys t \<noteq> None)"
  "st_get mem_ops m t k = (if t = mem_sys \<or> m mem_sys t \<noteq> None then m t k else None, m)"
  "st_set mem_ops m t k v = m(t := (m t)(k \<mapsto> v))"
  "st_del mem_ops m t k = m(t := (m t)(k := None))"
  "st_create mem_ops m t f = (if t = mem_sys \<or> m mem_sys t \<noteq> None then (False, m)
     else (True, (m(t := Map.empty))(mem_sys := (m mem_sys)(t \<mapsto> f))))"
  by (simp_all add: mem_ops_def)

end
