(* ===== verification/Decimal.thy ===== *)
theory Decimal imports Prelude begin

text \<open>
  Numbers stored as text.  Tables keep numbers as strings (\<open>u256::str()\<close>, \<open>std::to_string\<close>,
  \<open>boost::lexical_cast\<close>); the conversion belongs to the libraries, so it is a parameter of
  the definitions that use it, with one law: reading back what was written gives the number.
  \<open>dec_of_nat\<close> and \<open>nat_of_dec\<close> are decimal notation, the instance that discharges it.
\<close>

locale number_text =
  fixes to_str :: "'n \<Rightarrow> string" and of_str :: "string \<Rightarrow> 'n"
  assumes of_to_str: "of_str (to_str n) = n"
begin

lemma to_str_inj: "to_str a = to_str b \<longleftrightarrow> a = b"
  by (metis of_to_str)

end

definition digit :: "nat \<Rightarrow> char" where
  "digit n = char_of (48 + n)"

fun dec_of_nat :: "nat \<Rightarrow> string" where
  "dec_of_nat n = (if n < 10 then [digit n] else dec_of_nat (n div 10) @ [digit (n mod 10)])"

declare dec_of_nat.simps [simp del]

definition nat_of_dec :: "string \<Rightarrow> nat" where
  "nat_of_dec s = foldl (\<lambda>a c. a * 10 + (of_char c - 48)) 0 s"

lemma of_char_digit: "n < 10 \<Longrightarrow> of_char (digit n) = 48 + (n :: nat)"
  by (simp add: digit_def)

lemma nat_of_dec_of_nat: "nat_of_dec (dec_of_nat n) = n"
proof (induction n rule: dec_of_nat.induct)
  case (1 n)
  show ?case
  proof (cases "n < 10")
    case True
    then show ?thesis by (simp add: dec_of_nat.simps [of n] nat_of_dec_def of_char_digit)
  next
    case False
    with 1 have "foldl (\<lambda>a c. a * 10 + (of_char c - 48)) 0 (dec_of_nat (n div 10)) = n div 10"
      by (simp add: nat_of_dec_def)
    with False show ?thesis
      by (simp add: dec_of_nat.simps [of n] nat_of_dec_def of_char_digit)
  qed
qed

lemma dec_of_nat_not_Nil [simp]: "dec_of_nat n \<noteq> []"
  by (subst dec_of_nat.simps) simp

interpretation nat_text: number_text dec_of_nat nat_of_dec
  by unfold_locales (rule nat_of_dec_of_nat)

definition u256_str :: "u256 \<Rightarrow> string" where
  "u256_str w = dec_of_nat (unat w)"

definition u256_num :: "string \<Rightarrow> u256" where
  "u256_num s = of_nat (nat_of_dec s)"

interpretation u256_text: number_text u256_str u256_num
  by unfold_locales (simp add: u256_str_def u256_num_def nat_of_dec_of_nat)

end
