(* ===== verification/Gas.thy ===== *)
theory Gas imports Prelude begin

text \<open>
  The gas metering of precompiled contracts (\<open>src/precompiled/PrecompiledGas.h\<close> and
  \<open>PrecompiledGas.cpp\<close>): the opcode enumeration, the cost table that \<open>GasMetrics::init\<close>
  builds in the constructor, the derived class \<open>FreeStorageGasMetrics\<close>, and the meter
  \<open>PrecompiledGas\<close> with its operation list and high-water mark of memory.  Costs are
  \<open>int64_t\<close> and kept as 64-bit words; \<open>memUsed\<close> is \<open>uint64_t\<close>.
\<close>

section \<open>Cost table\<close>

datatype interface_opcode =
    OpEQ | OpGE | OpGT | OpLE | OpLT | OpNE | OpLimit | OpGetInt | OpGetAddr | OpSet
  | OpGetByte32 | OpGetByte64 | OpGetString | OpCreateTable | OpOpenTable | OpSelect
  | OpInsert | OpUpdate | OpRemove | OpPaillierAdd | OpGroupSigVerify | OpRingSigVerify

definition VeryLow :: u64 where
  "VeryLow = 3"

definition MemGas :: u64 where
  "MemGas = 3"

definition MemUnitSize :: u64 where
  "MemUnitSize = 32"

record gas_metrics =
  CreateGas :: u64
  LoadGas :: u64
  StoreGas :: u64
  RemoveGas :: u64
  VerifyGas :: u64
  op_cost :: "interface_opcode \<rightharpoonup> u64"

fun cost_table :: "gas_metrics \<Rightarrow> interface_opcode \<rightharpoonup> u64" where
  "cost_table m OpGetByte32 = Some (32 * VeryLow)"
| "cost_table m OpGetByte64 = Some (64 * VeryLow)"
| "cost_table m OpCreateTable = Some (CreateGas m)"
| "cost_table m OpOpenTable = Some (LoadGas m)"
| "cost_table m OpSelect = Some (LoadGas m)"
| "cost_table m OpInsert = Some (StoreGas m)"
| "cost_table m OpUpdate = Some (StoreGas m)"
| "cost_table m OpRemove = Some (RemoveGas m)"
| "cost_table m OpPaillierAdd = Some (VerifyGas m)"
| "cost_table m OpGroupSigVerify = Some (VerifyGas m)"
| "cost_table m OpRingSigVerify = Some (VerifyGas m)"
| "cost_table m _ = Some VeryLow"

definition metrics_init :: "gas_metrics \<Rightarrow> gas_metrics" where
  "metrics_init m = m\<lparr>op_cost := cost_table m\<rparr>"

text \<open>The constructor of the base class: the member initialisers, then \<open>init()\<close>.\<close>

definition default_metrics :: gas_metrics where
  "default_metrics = metrics_init
     \<lparr>CreateGas = 16000, LoadGas = 200, StoreGas = 10000, RemoveGas = 2500, VerifyGas = 20000,
      op_cost = Map.empty\<rparr>"

text \<open>The derived constructor assigns the members after the base constructor has run.\<close>

definition free_storage_metrics :: gas_metrics where
  "free_storage_metrics =
     default_metrics\<lparr>CreateGas := 500, LoadGas := 200, StoreGas := 200, RemoveGas := 200\<rparr>"

section \<open>The meter\<close>

record precompiled_gas =
  operation_list :: "(interface_opcode \<times> u32) list"
  metric :: gas_metrics
  mem_used :: u64

definition create_precompiled_gas :: precompiled_gas where
  "create_precompiled_gas = \<lparr>operation_list = [], metric = default_metrics, mem_used = 0\<rparr>"

definition append_operation :: "interface_opcode \<Rightarrow> u32 \<Rightarrow> precompiled_gas \<Rightarrow> precompiled_gas" where
  "append_operation op n g = g\<lparr>operation_list := operation_list g @ [(op, n)]\<rparr>"

definition update_mem_used :: "u64 \<Rightarrow> precompiled_gas \<Rightarrow> precompiled_gas" where
  "update_mem_used n g = (if n > mem_used g then g\<lparr>mem_used := n\<rparr> else g)"

fun cal_computation_gas_from ::
    "(interface_opcode \<rightharpoonup> u64) \<Rightarrow> u64 \<Rightarrow> (interface_opcode \<times> u32) list \<Rightarrow> u64" where
  "cal_computation_gas_from tab acc [] = acc"
| "cal_computation_gas_from tab acc ((op, n) # ops) =
     (case tab op of
        None \<Rightarrow> cal_computation_gas_from tab acc ops
      | Some c \<Rightarrow> cal_computation_gas_from tab (acc + c * ucast n) ops)"

definition cal_computation_gas :: "precompiled_gas \<Rightarrow> u64" where
  "cal_computation_gas g = cal_computation_gas_from (op_cost (metric g)) 0 (operation_list g)"

definition cal_mem_gas :: "precompiled_gas \<Rightarrow> u64" where
  "cal_mem_gas g =
     (if mem_used g = 0 then 0
      else let memSize = (mem_used g + MemUnitSize - 1) div MemUnitSize
           in MemGas * memSize + (memSize * memSize) div 512)"

definition cal_total_gas :: "precompiled_gas \<Rightarrow> u64" where
  "cal_total_gas g = cal_computation_gas g + cal_mem_gas g"

section \<open>Lemmas\<close>

text \<open>The sum over the operation list, as a sum of words.\<close>

definition op_gas :: "(interface_opcode \<rightharpoonup> u64) \<Rightarrow> interface_opcode \<times> u32 \<Rightarrow> u64" where
  "op_gas tab p = (case tab (fst p) of None \<Rightarrow> 0 | Some c \<Rightarrow> c * ucast (snd p))"

lemma cal_computation_gas_from_sum:
  "cal_computation_gas_from tab acc ops = acc + (\<Sum>p\<leftarrow>ops. op_gas tab p)"
  by (induction tab acc ops rule: cal_computation_gas_from.induct)
    (auto simp: op_gas_def split: option.splits)

lemma cal_computation_gas_append:
  "cal_computation_gas (append_operation op n g) =
     cal_computation_gas g + op_gas (op_cost (metric g)) (op, n)"
  by (simp add: cal_computation_gas_def append_operation_def cal_computation_gas_from_sum)

lemma cal_computation_gas_mset:
  assumes "mset (operation_list g) = mset (operation_list g')" and "metric g = metric g'"
  shows "cal_computation_gas g = cal_computation_gas g'"
proof -
  have "(\<Sum>p\<leftarrow>ops. op_gas tab p) = (\<Sum>p\<in>#mset ops. op_gas tab p)" for tab ops
    by (induction ops) auto
  then show ?thesis using assms by (simp add: cal_computation_gas_def cal_computation_gas_from_sum)
qed

text \<open>Every opcode has a cost in a table that \<open>init\<close> built, so no operation is skipped.\<close>

lemma cost_table_total: "cost_table m op \<noteq> None"
  by (cases op) auto

lemma free_storage_op_cost: "op_cost free_storage_metrics = op_cost default_metrics"
  by (simp add: free_storage_metrics_def)

text \<open>Without overflow the memory charge is the quadratic formula over natural numbers.\<close>

lemma mem_gas_bound: "(k :: nat) \<le> 2 ^ 31 \<Longrightarrow> x \<le> 2 ^ 31 * 2 ^ 31 \<Longrightarrow> 3 * k + x div 512 < 2 ^ 64"
  by simp

lemma unat_cal_mem_gas:
  assumes "unat (mem_used g) < 2 ^ 36"
  shows "unat (cal_mem_gas g) =
    (let k = (unat (mem_used g) + 31) div 32 in 3 * k + k * k div 512)"
proof (cases "mem_used g = 0")
  case True
  then show ?thesis by (simp add: cal_mem_gas_def)
next
  case False
  let ?m = "unat (mem_used g)"
  let ?k = "(?m + 31) div 32"
  let ?w = "(mem_used g + MemUnitSize - 1) div MemUnitSize"
  have k: "?k \<le> 2 ^ 31" using assms by simp
  have a: "unat (31 + mem_used g) = ?m + 31"
    using assms by (subst unat_add_lem [THEN iffD1]) simp_all
  have "?w = (31 + mem_used g) div 32" by (simp add: MemUnitSize_def)
  moreover have "unat (32 :: u64) = 32" by simp
  ultimately have w: "unat ?w = ?k" by (simp only: unat_div_distrib a)
  have kk: "?k * ?k \<le> 2 ^ 31 * 2 ^ 31" using k by (intro mult_mono) auto
  have m3: "unat (MemGas * ?w) = 3 * ?k"
    using k w by (simp add: MemGas_def unat_word_ariths)
  have sq: "unat (?w * ?w) = ?k * ?k"
    using kk w by (simp add: unat_word_ariths)
  have "unat (?w * ?w div 512) = ?k * ?k div 512"
    using sq by (simp add: unat_div_distrib)
  moreover have "3 * ?k + ?k * ?k div 512 < 2 ^ 64" using k kk by (rule mem_gas_bound)
  ultimately have "unat (MemGas * ?w + ?w * ?w div 512) = 3 * ?k + ?k * ?k div 512"
    using m3 by (simp add: unat_word_ariths)
  then show ?thesis using False by (simp add: cal_mem_gas_def Let_def)
qed

lemma update_mem_used_max: "mem_used (update_mem_used n g) = max (mem_used g) n"
  by (auto simp: update_mem_used_def max_def)

lemma cal_computation_gas_mem [simp]:
  "cal_computation_gas (update_mem_used n g) = cal_computation_gas g"
  by (simp add: cal_computation_gas_def update_mem_used_def)

section \<open>Properties\<close>

text \<open>The total gas of a precompiled call is the cost of its operations, each priced by the
  table and none skipped, plus the quadratic memory charge, which is exact (no wrap-around) for
  outputs below 64 GiB; recording an output keeps the largest size seen.\<close>
theorem total_gas_formula:
  assumes "unat (mem_used g) < 2 ^ 36" and "op_cost (metric g) = cost_table m"
  shows "cal_total_gas g =
      (\<Sum>p\<leftarrow>operation_list g. the (cost_table m (fst p)) * ucast (snd p)) + cal_mem_gas g
    \<and> unat (cal_mem_gas g) =
        (let k = (unat (mem_used g) + 31) div 32 in 3 * k + k * k div 512)
    \<and> mem_used (update_mem_used n g) = max (mem_used g) n"
proof -
  have "op_gas (cost_table m) p = the (cost_table m (fst p)) * ucast (snd p)" for p
    using cost_table_total [of m "fst p"] by (auto simp: op_gas_def)
  then show ?thesis
    using assms(2) unat_cal_mem_gas [OF assms(1)]
    by (simp add: cal_total_gas_def cal_computation_gas_def cal_computation_gas_from_sum
        update_mem_used_max)
qed

theorem total_gas_formula_witness:
  "unat (cal_mem_gas (update_mem_used 100 create_precompiled_gas)) = 12"
proof -
  let ?g = "update_mem_used 100 create_precompiled_gas"
  have "mem_used ?g = 100" "op_cost (metric ?g) = cost_table
      \<lparr>CreateGas = 16000, LoadGas = 200, StoreGas = 10000, RemoveGas = 2500, VerifyGas = 20000,
       op_cost = Map.empty\<rparr>"
    by (simp_all add: update_mem_used_def create_precompiled_gas_def default_metrics_def
        metrics_init_def)
  then show ?thesis using total_gas_formula [of ?g] by simp
qed

text \<open>The free-storage metrics charge exactly the default prices: the table is built by the
  base constructor before the derived one lowers the storage prices.\<close>
theorem free_storage_metrics_same_price:
  "cal_total_gas (g\<lparr>metric := free_storage_metrics\<rparr>) = cal_total_gas (g\<lparr>metric := default_metrics\<rparr>)
    \<and> op_cost free_storage_metrics OpInsert = Some 10000 \<and> StoreGas free_storage_metrics = 200"
  by (simp add: cal_total_gas_def cal_computation_gas_def cal_mem_gas_def free_storage_op_cost)
    (simp add: free_storage_metrics_def default_metrics_def metrics_init_def)

end
