(* ===== verification/DagTransfer.thy ===== *)
theory DagTransfer imports Storage Decimal Gas begin

text \<open>
  The parallel precompiled contract \<open>DagTransferPrecompiled\<close>
  (\<open>src/precompiled/extension/DagTransferPrecompiled.cpp\<close>): the five methods over the table
  \<open>/tables/dag_transfer\<close>, the parallel tags from which the dependency graph is built, and the
  dispatcher.  The ABI codec is external, so a call is given by the selector's method with
  its decoded arguments (\<open>dt_call\<close>) and the answer is the tuple handed to the encoder
  (\<open>dt_answer\<close>); the encoder itself is a parameter of \<open>dt_dispatch\<close>, which needs the size of
  the encoded answer for the gas.  The error strings go to the log only and are left out.
\<close>

section \<open>Calls and answers\<close>

datatype dt_call =
    UserAdd string u256
  | UserSave string u256
  | UserDraw string u256
  | UserTransfer string string u256
  | UserBalance string
  | UnknownCall u32

datatype dt_answer = Code int | CodeBalance int u256 | NoAnswer

definition CODE_INVALID_USER_NAME :: int where "CODE_INVALID_USER_NAME = -51400"
definition CODE_INVALID_AMOUNT :: int where "CODE_INVALID_AMOUNT = -51401"
definition CODE_INVALID_USER_NOT_EXIST :: int where "CODE_INVALID_USER_NOT_EXIST = -51402"
definition CODE_INVALID_USER_ALREADY_EXIST :: int where
  "CODE_INVALID_USER_ALREADY_EXIST = -51403"
definition CODE_INVALID_INSUFFICIENT_BALANCE :: int where
  "CODE_INVALID_INSUFFICIENT_BALANCE = -51404"
definition CODE_INVALID_BALANCE_OVERFLOW :: int where "CODE_INVALID_BALANCE_OVERFLOW = -51405"
definition CODE_INVALID_OPENTABLE_FAILED :: int where "CODE_INVALID_OPENTABLE_FAILED = -51406"

lemmas dt_codes = CODE_INVALID_USER_NAME_def CODE_INVALID_AMOUNT_def
  CODE_INVALID_USER_NOT_EXIST_def CODE_INVALID_USER_ALREADY_EXIST_def
  CODE_INVALID_INSUFFICIENT_BALANCE_def CODE_INVALID_BALANCE_OVERFLOW_def
  CODE_INVALID_OPENTABLE_FAILED_def

definition DAG_TRANSFER :: string where
  "DAG_TRANSFER = ''/tables/dag_transfer''"

text \<open>\<open>getParallelTag\<close>.\<close>

fun get_parallel_tag :: "dt_call \<Rightarrow> string list" where
  "get_parallel_tag (UserAdd user amount) = (if user \<noteq> [] then [user] else [])"
| "get_parallel_tag (UserSave user amount) = (if user \<noteq> [] then [user] else [])"
| "get_parallel_tag (UserDraw user amount) = (if user \<noteq> [] then [user] else [])"
| "get_parallel_tag (UserTransfer from to amount) =
     (if from \<noteq> [] \<and> to \<noteq> [] then [from, to] else [])"
| "get_parallel_tag (UserBalance user) = []"
| "get_parallel_tag (UnknownCall func) = []"

section \<open>The methods\<close>

text \<open>\<open>openTable\<close>: open, else create, else open again.\<close>

definition dt_open :: "'s storage_ops \<Rightarrow> 's \<Rightarrow> bool \<times> 's" where
  "dt_open ops s =
     (if st_open ops s DAG_TRANSFER then (True, s)
      else case st_create ops s DAG_TRANSFER ''balance'' of
             (True, s') \<Rightarrow> (True, s')
           | (False, s') \<Rightarrow> (st_open ops s' DAG_TRANSFER, s'))"

definition user_add_call ::
    "'s storage_ops \<Rightarrow> (u256 \<Rightarrow> string) \<Rightarrow> string \<Rightarrow> u256 \<Rightarrow> 's \<Rightarrow> dt_answer \<times> 's" where
  "user_add_call ops str user amount s =
     (if user = [] then (Code CODE_INVALID_USER_NAME, s)
      else case dt_open ops s of
        (False, s1) \<Rightarrow> (Code CODE_INVALID_OPENTABLE_FAILED, s1)
      | (True, s1) \<Rightarrow>
        (case st_get ops s1 DAG_TRANSFER user of
           (Some _, s2) \<Rightarrow> (Code CODE_INVALID_USER_ALREADY_EXIST, s2)
         | (None, s2) \<Rightarrow> (Code 0, st_set ops s2 DAG_TRANSFER user (str amount))))"

definition user_save_call ::
    "'s storage_ops \<Rightarrow> (u256 \<Rightarrow> string) \<Rightarrow> (string \<Rightarrow> u256) \<Rightarrow> string \<Rightarrow> u256 \<Rightarrow> 's
     \<Rightarrow> dt_answer \<times> 's" where
  "user_save_call ops str num user amount s =
     (if user = [] then (Code CODE_INVALID_USER_NAME, s)
      else if amount = 0 then (Code CODE_INVALID_AMOUNT, s)
      else case dt_open ops s of
        (False, s1) \<Rightarrow> (Code CODE_INVALID_OPENTABLE_FAILED, s1)
      | (True, s1) \<Rightarrow>
        (case st_get ops s1 DAG_TRANSFER user of
           (None, s2) \<Rightarrow> (Code 0, st_set ops s2 DAG_TRANSFER user (str amount))
         | (Some e, s2) \<Rightarrow>
             (let balance = num e; new_balance = balance + amount
              in if new_balance < balance then (Code CODE_INVALID_BALANCE_OVERFLOW, s2)
                 else (Code 0, st_set ops s2 DAG_TRANSFER user (str new_balance)))))"

definition user_draw_call ::
    "'s storage_ops \<Rightarrow> (u256 \<Rightarrow> string) \<Rightarrow> (string \<Rightarrow> u256) \<Rightarrow> string \<Rightarrow> u256 \<Rightarrow> 's
     \<Rightarrow> dt_answer \<times> 's" where
  "user_draw_call ops str num user amount s =
     (if user = [] then (Code CODE_INVALID_USER_NAME, s)
      else if amount = 0 then (Code CODE_INVALID_AMOUNT, s)
      else case dt_open ops s of
        (False, s1) \<Rightarrow> (Code CODE_INVALID_OPENTABLE_FAILED, s1)
      | (True, s1) \<Rightarrow>
        (case st_get ops s1 DAG_TRANSFER user of
           (None, s2) \<Rightarrow> (Code CODE_INVALID_USER_NOT_EXIST, s2)
         | (Some e, s2) \<Rightarrow>
             (let balance = num e
              in if balance < amount then (Code CODE_INVALID_INSUFFICIENT_BALANCE, s2)
                 else (Code 0, st_set ops s2 DAG_TRANSFER user (str (balance - amount))))))"

definition user_balance_call ::
    "'s storage_ops \<Rightarrow> (string \<Rightarrow> u256) \<Rightarrow> string \<Rightarrow> 's \<Rightarrow> dt_answer \<times> 's" where
  "user_balance_call ops num user s =
     (if user = [] then (CodeBalance CODE_INVALID_USER_NAME 0, s)
      else case dt_open ops s of
        (False, s1) \<Rightarrow> (CodeBalance CODE_INVALID_OPENTABLE_FAILED 0, s1)
      | (True, s1) \<Rightarrow>
        (case st_get ops s1 DAG_TRANSFER user of
           (None, s2) \<Rightarrow> (CodeBalance CODE_INVALID_USER_NOT_EXIST 0, s2)
         | (Some e, s2) \<Rightarrow> (CodeBalance 0 (num e), s2)))"

text \<open>
  The part of \<open>userTransferCall\<close> after the balance check of the sender: reading the receiver
  (adding it when absent), the overflow check, the two writes.
\<close>

definition transfer_to ::
    "'s storage_ops \<Rightarrow> (u256 \<Rightarrow> string) \<Rightarrow> (string \<Rightarrow> u256) \<Rightarrow> string \<Rightarrow> string \<Rightarrow> u256 \<Rightarrow> u256
     \<Rightarrow> 's \<Rightarrow> dt_answer \<times> 's" where
  "transfer_to ops str num from to amount fromBalance s =
     (let (toBalance, s1) =
        (case st_get ops s DAG_TRANSFER to of
           (None, s') \<Rightarrow> (0, st_set ops s' DAG_TRANSFER to (str 0))
         | (Some e, s') \<Rightarrow> (num e, s'))
      in if toBalance + amount < toBalance then (Code CODE_INVALID_BALANCE_OVERFLOW, s1)
         else let s2 = st_set ops s1 DAG_TRANSFER from (str (fromBalance - amount));
                  s3 = st_set ops s2 DAG_TRANSFER to (str (toBalance + amount))
              in (Code 0, s3))"

definition user_transfer_call ::
    "'s storage_ops \<Rightarrow> (u256 \<Rightarrow> string) \<Rightarrow> (string \<Rightarrow> u256) \<Rightarrow> string \<Rightarrow> string \<Rightarrow> u256 \<Rightarrow> 's
     \<Rightarrow> dt_answer \<times> 's" where
  "user_transfer_call ops str num from to amount s =
     (if from = [] \<or> to = [] then (Code CODE_INVALID_USER_NAME, s)
      else if amount = 0 then (Code CODE_INVALID_AMOUNT, s)
      else if from = to then (Code 0, s)
      else case dt_open ops s of
        (False, s1) \<Rightarrow> (Code CODE_INVALID_OPENTABLE_FAILED, s1)
      | (True, s1) \<Rightarrow>
        (case st_get ops s1 DAG_TRANSFER from of
           (None, s2) \<Rightarrow> (Code CODE_INVALID_USER_NOT_EXIST, s2)
         | (Some e, s2) \<Rightarrow>
             (if num e < amount then (Code CODE_INVALID_INSUFFICIENT_BALANCE, s2)
              else transfer_to ops str num from to amount (num e) s2)))"

text \<open>The dispatcher without and with the gas of the encoded answer.\<close>

fun dt_run ::
    "'s storage_ops \<Rightarrow> (u256 \<Rightarrow> string) \<Rightarrow> (string \<Rightarrow> u256) \<Rightarrow> dt_call \<Rightarrow> 's \<Rightarrow> dt_answer \<times> 's" where
  "dt_run ops str num (UserAdd u a) s = user_add_call ops str u a s"
| "dt_run ops str num (UserSave u a) s = user_save_call ops str num u a s"
| "dt_run ops str num (UserDraw u a) s = user_draw_call ops str num u a s"
| "dt_run ops str num (UserTransfer f t a) s = user_transfer_call ops str num f t a s"
| "dt_run ops str num (UserBalance u) s = user_balance_call ops num u s"
| "dt_run ops str num (UnknownCall f) s = (NoAnswer, s)"

definition dt_dispatch ::
    "'s storage_ops \<Rightarrow> (u256 \<Rightarrow> string) \<Rightarrow> (string \<Rightarrow> u256) \<Rightarrow> (dt_answer \<Rightarrow> bytes) \<Rightarrow> dt_call \<Rightarrow> 's
     \<Rightarrow> (bytes \<times> u64) \<times> 's" where
  "dt_dispatch ops str num enc c s =
     (let (a, s') = dt_run ops str num c s;
          out = (if a = NoAnswer then [] else enc a);
          gas = update_mem_used (of_nat (length out)) create_precompiled_gas
      in ((out, cal_total_gas gas), s'))"

end
