(* ===== verification/DagTransferSpec.thy ===== *)
theory DagTransferSpec imports DagTransfer Commute begin

text \<open>
  What the DAG-transfer contract promises: \<open>dt_spec\<close> runs a call on the map of balances.  The
  refinement lemma shows that the code's methods on any storage that keeps the
  \<open>table_storage\<close> contract compute the same answer and the same map, and touch no other
  table.  The footprint lemmas show that a call reads and writes only the users it names, so
  the interpretation \<open>dt\<close> of \<open>scheduled_footprint\<close> makes schedules comparable.
\<close>

type_synonym balances = "string \<rightharpoonup> u256"

definition spec_put :: "string \<Rightarrow> u256 \<Rightarrow> balances \<Rightarrow> dt_answer \<times> balances" where
  "spec_put u a m = (Code 0, m(u \<mapsto> a))"

fun dt_spec :: "dt_call \<Rightarrow> balances \<Rightarrow> dt_answer \<times> balances" where
  "dt_spec (UserAdd u a) m =
     (if u = [] then (Code CODE_INVALID_USER_NAME, m)
      else if m u \<noteq> None then (Code CODE_INVALID_USER_ALREADY_EXIST, m)
      else spec_put u a m)"
| "dt_spec (UserSave u a) m =
     (if u = [] then (Code CODE_INVALID_USER_NAME, m)
      else if a = 0 then (Code CODE_INVALID_AMOUNT, m)
      else case m u of None \<Rightarrow> spec_put u a m
        | Some b \<Rightarrow> if b + a < b then (Code CODE_INVALID_BALANCE_OVERFLOW, m)
                   else spec_put u (b + a) m)"
| "dt_spec (UserDraw u a) m =
     (if u = [] then (Code CODE_INVALID_USER_NAME, m)
      else if a = 0 then (Code CODE_INVALID_AMOUNT, m)
      else case m u of None \<Rightarrow> (Code CODE_INVALID_USER_NOT_EXIST, m)
        | Some b \<Rightarrow> if b < a then (Code CODE_INVALID_INSUFFICIENT_BALANCE, m)
                   else spec_put u (b - a) m)"
| "dt_spec (UserTransfer f t a) m =
     (if f = [] \<or> t = [] then (Code CODE_INVALID_USER_NAME, m)
      else if a = 0 then (Code CODE_INVALID_AMOUNT, m)
      else if f = t then (Code 0, m)
      else case m f of None \<Rightarrow> (Code CODE_INVALID_USER_NOT_EXIST, m)
        | Some b \<Rightarrow>
            if b < a then (Code CODE_INVALID_INSUFFICIENT_BALANCE, m)
            else (case m t of None \<Rightarrow> (Code 0, m(f \<mapsto> b - a, t \<mapsto> a))
                    | Some c \<Rightarrow> if c + a < c then (Code CODE_INVALID_BALANCE_OVERFLOW, m)
                               else (Code 0, m(f \<mapsto> b - a, t \<mapsto> c + a))))"
| "dt_spec (UserBalance u) m =
     (if u = [] then (CodeBalance CODE_INVALID_USER_NAME 0, m)
      else case m u of None \<Rightarrow> (CodeBalance CODE_INVALID_USER_NOT_EXIST 0, m)
        | Some b \<Rightarrow> (CodeBalance 0 b, m))"
| "dt_spec (UnknownCall f) m = (NoAnswer, m)"

text \<open>The map of balances that a storage represents.\<close>

definition dt_abs :: "'s storage_ops \<Rightarrow> (string \<Rightarrow> u256) \<Rightarrow> 's \<Rightarrow> balances" where
  "dt_abs ops num s = (\<lambda>u. map_option num (row ops s DAG_TRANSFER u))"

section \<open>Refinement\<close>

locale dt_env = table_storage ops inv + number_text str num
  for ops :: "'s storage_ops" and inv and str :: "u256 \<Rightarrow> string" and num
begin

lemma DAG_TRANSFER_not_sys: "DAG_TRANSFER \<noteq> st_sys ops"
  unfolding DAG_TRANSFER_def by (rule path_not_sys)

text \<open>The state the methods work on once the table is open.\<close>

definition ready :: "'s \<Rightarrow> bool" where
  "ready s \<longleftrightarrow> inv s \<and> st_open ops s DAG_TRANSFER"

text \<open>Everything outside the contract's table and the list of tables.\<close>

definition same_rest :: "'s \<Rightarrow> 's \<Rightarrow> bool" where
  "same_rest s s' \<longleftrightarrow>
     (\<forall>t k. t \<noteq> DAG_TRANSFER \<longrightarrow> t \<noteq> st_sys ops \<longrightarrow> row ops s' t k = row ops s t k)"

lemma same_rest_refl [simp]: "same_rest s s"
  by (simp add: same_rest_def)

lemma same_rest_trans: "same_rest s s1 \<Longrightarrow> same_rest s1 s2 \<Longrightarrow> same_rest s s2"
  by (simp add: same_rest_def)

lemma dt_open_ready:
  assumes "inv s"
  shows "\<exists>s1. dt_open ops s = (True, s1) \<and> ready s1 \<and> dt_abs ops num s1 = dt_abs ops num s
     \<and> same_rest s s1"
proof (cases "st_open ops s DAG_TRANSFER")
  case True
  then show ?thesis using assms by (simp add: dt_open_def ready_def)
next
  case False
  obtain s1 where s1: "st_create ops s DAG_TRANSFER ''balance'' = (True, s1)"
    using create_ok [OF assms False, of "''balance''"] by (metis prod.collapse)
  have "row ops s1 t k = row ops s t k" if "t \<noteq> st_sys ops" for t k
    using create_row [OF assms False that, of "''balance''"] s1 by simp
  moreover have "ready s1"
    using create_inv [OF assms, of DAG_TRANSFER "''balance''"]
      create_open [OF assms False, of "''balance''"] s1 by (simp add: ready_def)
  ultimately show ?thesis
    using False s1 DAG_TRANSFER_not_sys by (simp add: dt_open_def dt_abs_def same_rest_def)
qed

lemma dt_get:
  assumes "ready s"
  shows "\<exists>e s1. st_get ops s DAG_TRANSFER u = (e, s1) \<and> ready s1
     \<and> map_option num e = dt_abs ops num s u \<and> dt_abs ops num s1 = dt_abs ops num s
     \<and> same_rest s s1"
proof -
  obtain e s1 where s1: "st_get ops s DAG_TRANSFER u = (e, s1)" by (metis surj_pair)
  have "inv s" using assms by (simp add: ready_def)
  note laws = get_inv [OF this, of DAG_TRANSFER u] get_row [OF this, of DAG_TRANSFER u]
    get_open [OF this, of DAG_TRANSFER u]
  show ?thesis
    using laws s1 assms get_Some_row [OF s1] by (auto simp: ready_def dt_abs_def same_rest_def)
qed

lemma dt_set:
  assumes "ready s"
  shows "ready (st_set ops s DAG_TRANSFER u (str a))"
    and "dt_abs ops num (st_set ops s DAG_TRANSFER u (str a)) = (dt_abs ops num s)(u \<mapsto> a)"
    and "same_rest s (st_set ops s DAG_TRANSFER u (str a))"
  using assms set_inv set_open set_row DAG_TRANSFER_not_sys
  by (auto simp: ready_def dt_abs_def same_rest_def of_to_str)

text \<open>A run \<open>r\<close> from \<open>s\<close> matches an abstract run \<open>a\<close>.\<close>

definition matches :: "'s \<Rightarrow> dt_answer \<times> 's \<Rightarrow> dt_answer \<times> balances \<Rightarrow> bool" where
  "matches s r a \<longleftrightarrow> inv (snd r) \<and> a = (fst r, dt_abs ops num (snd r)) \<and> same_rest s (snd r)"

lemma matches_trans: "same_rest s s1 \<Longrightarrow> matches s1 r a \<Longrightarrow> matches s r a"
  using same_rest_trans by (auto simp: matches_def)

lemma matches_stop:
  "inv s1 \<Longrightarrow> dt_abs ops num s1 = m \<Longrightarrow> same_rest s s1 \<Longrightarrow> matches s (x, s1) (x, m)"
  by (simp add: matches_def)

lemma matches_set:
  assumes "ready s1" and "dt_abs ops num s1 = m" and "same_rest s s1"
  shows "matches s (x, st_set ops s1 DAG_TRANSFER u (str a)) (x, m(u \<mapsto> a))"
  using assms dt_set [OF assms(1), of u a] same_rest_trans by (auto simp: matches_def ready_def)

text \<open>One lemma per method; every method opens the table and reads the user first.\<close>

lemma open_get:
  assumes "inv s"
  obtains s1 e s2 where "dt_open ops s = (True, s1)" and "st_get ops s1 DAG_TRANSFER u = (e, s2)"
    and "ready s2" and "map_option num e = dt_abs ops num s u"
    and "dt_abs ops num s2 = dt_abs ops num s" and "same_rest s s2" and "inv s2"
proof -
  obtain s1 where s1: "dt_open ops s = (True, s1)" "ready s1" "dt_abs ops num s1 = dt_abs ops num s"
      "same_rest s s1"
    using dt_open_ready [OF assms] by blast
  obtain e s2 where "st_get ops s1 DAG_TRANSFER u = (e, s2)" "ready s2"
      "map_option num e = dt_abs ops num s1 u" "dt_abs ops num s2 = dt_abs ops num s1"
      "same_rest s1 s2"
    using dt_get [OF s1(2)] by blast
  with s1 show ?thesis using that same_rest_trans by (metis ready_def)
qed

lemma matches_add:
  assumes "inv s"
  shows "matches s (user_add_call ops str u a s) (dt_spec (UserAdd u a) (dt_abs ops num s))"
proof -
  obtain s1 e s2 where *: "dt_open ops s = (True, s1)" "st_get ops s1 DAG_TRANSFER u = (e, s2)"
      "ready s2" "map_option num e = dt_abs ops num s u" "dt_abs ops num s2 = dt_abs ops num s"
      "same_rest s s2" "inv s2"
    using open_get [OF assms] .
  show ?thesis
    using * assms
    by (cases e) (auto simp: user_add_call_def spec_put_def intro: matches_stop matches_set)
qed

lemma matches_save:
  assumes "inv s"
  shows "matches s (user_save_call ops str num u a s) (dt_spec (UserSave u a) (dt_abs ops num s))"
proof -
  obtain s1 e s2 where *: "dt_open ops s = (True, s1)" "st_get ops s1 DAG_TRANSFER u = (e, s2)"
      "ready s2" "map_option num e = dt_abs ops num s u" "dt_abs ops num s2 = dt_abs ops num s"
      "same_rest s s2" "inv s2"
    using open_get [OF assms] .
  show ?thesis
    using * assms *(4) [symmetric]
    by (cases e) (auto simp: user_save_call_def spec_put_def Let_def intro: matches_stop matches_set)
qed

lemma matches_draw:
  assumes "inv s"
  shows "matches s (user_draw_call ops str num u a s) (dt_spec (UserDraw u a) (dt_abs ops num s))"
proof -
  obtain s1 e s2 where *: "dt_open ops s = (True, s1)" "st_get ops s1 DAG_TRANSFER u = (e, s2)"
      "ready s2" "map_option num e = dt_abs ops num s u" "dt_abs ops num s2 = dt_abs ops num s"
      "same_rest s s2" "inv s2"
    using open_get [OF assms] .
  show ?thesis
    using * assms *(4) [symmetric]
    by (cases e) (auto simp: user_draw_call_def spec_put_def Let_def intro: matches_stop matches_set)
qed

lemma matches_balance:
  assumes "inv s"
  shows "matches s (user_balance_call ops num u s) (dt_spec (UserBalance u) (dt_abs ops num s))"
proof -
  obtain s1 e s2 where *: "dt_open ops s = (True, s1)" "st_get ops s1 DAG_TRANSFER u = (e, s2)"
      "ready s2" "map_option num e = dt_abs ops num s u" "dt_abs ops num s2 = dt_abs ops num s"
      "same_rest s s2" "inv s2"
    using open_get [OF assms] .
  show ?thesis
    using * assms *(4) [symmetric]
    by (cases e) (auto simp: user_balance_call_def intro: matches_stop)
qed

lemma matches_transfer_to:
  assumes "ready s" and "same_rest s0 s" and "dt_abs ops num s = m" and "f \<noteq> t"
  shows "matches s0 (transfer_to ops str num f t a b s)
    (case m t of None \<Rightarrow> (Code 0, m(f \<mapsto> b - a, t \<mapsto> a))
       | Some c \<Rightarrow> if c + a < c then (Code CODE_INVALID_BALANCE_OVERFLOW, m)
                  else (Code 0, m(f \<mapsto> b - a, t \<mapsto> c + a)))"
proof -
  obtain e s1 where s1: "st_get ops s DAG_TRANSFER t = (e, s1)" "ready s1"
      "map_option num e = m t" "dt_abs ops num s1 = m" "same_rest s s1"
    using dt_get [OF assms(1)] assms(3) by blast
  have rest: "same_rest s0 s1" using same_rest_trans assms(2) s1(5) .
  let ?z = "st_set ops s1 DAG_TRANSFER t (str 0)"
  have put2: "matches s0 (Code 0, st_set ops (st_set ops r DAG_TRANSFER f (str x)) DAG_TRANSFER t (str y))
      (Code 0, (dt_abs ops num r)(f \<mapsto> x, t \<mapsto> y))" if "ready r" "same_rest s0 r" for r x y
    by (intro matches_set dt_set [OF that(1)] same_rest_trans [OF that(2)])
  show ?thesis
  proof (cases e)
    case None
    have z: "ready ?z" "dt_abs ops num ?z = m(t \<mapsto> 0)" "same_rest s0 ?z"
      using dt_set [OF s1(2)] s1(4) same_rest_trans [OF rest] by auto
    have "(m(t \<mapsto> 0))(f \<mapsto> b - a, t \<mapsto> a) = m(f \<mapsto> b - a, t \<mapsto> a)" using assms(4) by auto
    then show ?thesis
      using None s1(1,3) put2 [OF z(1,3), of "b - a" a] z(2) by (simp add: transfer_to_def)
  next
    case (Some x)
    then show ?thesis
      using s1 rest put2 [OF s1(2) rest, of "b - a" "num x + a"] s1(3) [symmetric]
      by (auto simp: transfer_to_def Let_def ready_def intro: matches_stop)
  qed
qed

lemma matches_transfer:
  assumes "inv s"
  shows "matches s (user_transfer_call ops str num f t a s)
    (dt_spec (UserTransfer f t a) (dt_abs ops num s))"
proof -
  obtain s1 e s2 where *: "dt_open ops s = (True, s1)" "st_get ops s1 DAG_TRANSFER f = (e, s2)"
      "ready s2" "map_option num e = dt_abs ops num s f" "dt_abs ops num s2 = dt_abs ops num s"
      "same_rest s s2" "inv s2"
    using open_get [OF assms] .
  show ?thesis
    using * assms *(4) [symmetric] matches_transfer_to [OF *(3,6,5)]
    by (cases e) (auto simp: user_transfer_call_def intro: matches_stop)
qed

lemma dt_run_matches: "inv s \<Longrightarrow> matches s (dt_run ops str num c s) (dt_spec c (dt_abs ops num s))"
  using matches_add matches_save matches_draw matches_transfer matches_balance
  by (cases c) (auto simp: matches_stop)

end

interpretation dt_mem: dt_env mem_ops "\<lambda>_. True" u256_str u256_num ..

section \<open>Footprint\<close>

text \<open>The users a call reads or writes.\<close>

fun dt_keys :: "dt_call \<Rightarrow> string set" where
  "dt_keys (UserAdd u a) = {u}"
| "dt_keys (UserSave u a) = {u}"
| "dt_keys (UserDraw u a) = {u}"
| "dt_keys (UserTransfer f t a) = (if f = [] \<or> t = [] then {} else {f, t})"
| "dt_keys (UserBalance u) = {u}"
| "dt_keys (UnknownCall f) = {}"

lemma dt_keys_tags: "get_parallel_tag c \<noteq> [] \<Longrightarrow> dt_keys c = set (get_parallel_tag c)"
  by (cases c) (auto split: if_splits)

interpretation dt: footprint dt_spec dt_keys
proof
  fix k c and m :: balances
  show "k \<notin> dt_keys c \<Longrightarrow> snd (dt_spec c m) k = m k"
    by (cases c) (auto simp: spec_put_def split: option.splits if_splits)
next
  fix c and m m' :: balances
  assume "\<And>k. k \<in> dt_keys c \<Longrightarrow> m k = m' k"
  then show "fst (dt_spec c m) = fst (dt_spec c m')"
    by (cases c) (auto simp: spec_put_def split: option.splits if_splits)
next
  fix k c and m m' :: balances
  assume "\<And>k. k \<in> dt_keys c \<Longrightarrow> m k = m' k" and "k \<in> dt_keys c"
  then show "snd (dt_spec c m) k = snd (dt_spec c m') k"
    by (cases c) (auto simp: spec_put_def split: option.splits if_splits)
qed

interpretation dts: scheduled_footprint dt_spec dt_keys calls for calls ..

section \<open>Properties of the contract\<close>

text \<open>C20: on any storage that keeps the storage contract, every method answers and changes the
  balances as specified on the map of balances, on every branch, and changes no row of another
  table.\<close>
theorem dag_transfer_refines_balances:
  assumes "table_storage ops I" and "number_text str num" and "I s"
    and "dt_run ops str num c s = (a, s')"
  shows "I s' \<and> dt_spec c (dt_abs ops num s) = (a, dt_abs ops num s')
    \<and> (\<forall>t k. t \<noteq> DAG_TRANSFER \<longrightarrow> t \<noteq> st_sys ops \<longrightarrow> row ops s' t k = row ops s t k)"
proof -
  have env: "dt_env ops I str num" using assms(1,2) by (simp add: dt_env_def)
  show ?thesis
    using dt_env.dt_run_matches [OF env assms(3), of c] assms(4)
    by (simp add: dt_env.matches_def [OF env] dt_env.same_rest_def [OF env])
qed

theorem dag_transfer_refines_balances_witness:
  "\<exists>s'. dt_run mem_ops u256_str u256_num (UserSave ''bob'' 9) mem_empty = (Code 0, s')
    \<and> dt_abs mem_ops u256_num s' = [''bob'' \<mapsto> 9]"
proof -
  obtain a s' where run: "dt_run mem_ops u256_str u256_num (UserSave ''bob'' 9) mem_empty = (a, s')"
    by (metis surj_pair)
  have "dt_abs mem_ops u256_num mem_empty = Map.empty"
    by (simp add: dt_abs_def row_def mem_empty_def fun_eq_iff)
  then show ?thesis
    using dag_transfer_refines_balances
      [OF mem.table_storage_axioms u256_text.number_text_axioms TrueI run] run
    by (simp add: spec_put_def)
qed

definition total_balance :: "string set \<Rightarrow> balances \<Rightarrow> nat" where
  "total_balance U m = (\<Sum>u \<in> U. case m u of None \<Rightarrow> 0 | Some b \<Rightarrow> unat b)"

lemma total_balance_upd:
  assumes "finite U" and "u \<in> U"
  shows "total_balance U (m(u \<mapsto> b)) + (case m u of None \<Rightarrow> 0 | Some b \<Rightarrow> unat b)
    = total_balance U m + unat b"
proof -
  have "(\<Sum>v \<in> U - {u}. case (m(u \<mapsto> b)) v of None \<Rightarrow> 0 | Some b \<Rightarrow> unat b)
      = (\<Sum>v \<in> U - {u}. case m v of None \<Rightarrow> 0 | Some b \<Rightarrow> unat b)"
    by (rule sum.cong) auto
  then show ?thesis using assms by (simp add: total_balance_def sum.remove)
qed

lemma unat_add_no_wrap:
  fixes b a :: u256
  assumes "\<not> b + a < b"
  shows "unat (b + a) = unat b + unat a"
  using assms by (metis linorder_not_less no_olen_add_nat unat_add_lem word_le_nat_alt)

lemma dt_spec_transfer_total:
  assumes "finite U" and "f \<in> U" and "t \<in> U"
  shows "total_balance U (snd (dt_spec (UserTransfer f t a) m)) = total_balance U m"
proof (cases "m f")
  case None
  then show ?thesis by simp
next
  case (Some b)
  show ?thesis
  proof (cases "f = [] \<or> t = [] \<or> a = 0 \<or> f = t \<or> b < a")
    case True
    then show ?thesis using Some by auto
  next
    case False
    then have sub: "unat (b - a) + unat a = unat b"
      by (simp add: unat_sub linorder_not_less word_le_nat_alt)
    let ?c = "case m t of None \<Rightarrow> 0 | Some c \<Rightarrow> c"
    have step: "total_balance U (m(f \<mapsto> b - a, t \<mapsto> ?c + a)) = total_balance U m"
      if "unat (?c + a) = unat ?c + unat a"
    proof -
      have "(m(f \<mapsto> b - a)) t = m t" using False by auto
      then have "total_balance U (m(f \<mapsto> b - a, t \<mapsto> ?c + a)) + unat ?c
          = total_balance U (m(f \<mapsto> b - a)) + unat (?c + a)"
        using total_balance_upd [OF assms(1,3), of "m(f \<mapsto> b - a)" "?c + a"]
        by (cases "m t") simp_all
      moreover have "total_balance U (m(f \<mapsto> b - a)) + unat b = total_balance U m + unat (b - a)"
        using total_balance_upd [OF assms(1,2), of m "b - a"] Some by simp
      ultimately show ?thesis using that sub by linarith
    qed
    show ?thesis
    proof (cases "m t")
      case None
      then show ?thesis using False Some step by simp
    next
      case (Some c)
      then show ?thesis using False \<open>m f = Some b\<close> step unat_add_no_wrap [of c a] by auto
    qed
  qed
qed

text \<open>C30: no transfer creates or destroys money: for every outcome, error branches and the
  automatic creation of the receiver included, the sum of the balances over any finite set of
  users that contains sender and receiver is unchanged.\<close>
theorem transfer_conserves_total:
  assumes "table_storage ops I" and "number_text str num" and "I s"
    and "finite U" and "src \<in> U" and "dst \<in> U"
  shows "total_balance U (dt_abs ops num (snd (user_transfer_call ops str num src dst a s)))
    = total_balance U (dt_abs ops num s)"
proof -
  have env: "dt_env ops I str num" using assms(1,2) by (simp add: dt_env_def)
  have "dt_abs ops num (snd (user_transfer_call ops str num src dst a s))
      = snd (dt_spec (UserTransfer src dst a) (dt_abs ops num s))"
    using dt_env.matches_transfer [OF env assms(3), of src dst a]
    by (simp add: dt_env.matches_def [OF env] del: dt_spec.simps)
  then show ?thesis using dt_spec_transfer_total [OF assms(4-6)] by simp
qed

theorem transfer_conserves_total_witness:
  "total_balance {''a'', ''b''} (dt_abs mem_ops u256_num (snd (user_transfer_call mem_ops
     u256_str u256_num ''a'' ''b'' 4 (snd (user_add_call mem_ops u256_str ''a'' 7 mem_empty))))) = 7"
proof -
  let ?s = "snd (user_add_call mem_ops u256_str ''a'' 7 mem_empty)"
  have abs: "dt_abs mem_ops u256_num mem_empty = Map.empty"
    by (simp add: dt_abs_def row_def mem_empty_def fun_eq_iff)
  have "dt_abs mem_ops u256_num ?s = [''a'' \<mapsto> 7]"
    using dt_mem.matches_add [OF TrueI, of mem_empty "''a''" 7] abs
    by (simp add: dt_mem.matches_def spec_put_def)
  then have "total_balance {''a'', ''b''} (dt_abs mem_ops u256_num ?s) = 7"
    by (simp add: total_balance_def)
  then show ?thesis
    using transfer_conserves_total [OF mem.table_storage_axioms u256_text.number_text_axioms
        TrueI, where U = "{''a'', ''b''}" and src = "''a''" and dst = "''b''" and a = 4 and s = ?s] by simp
qed

end
