(* ===== verification/ExecMessages.thy ===== *)
theory ExecMessages imports Prelude begin

text \<open>
  The two message formats of the executor: \<open>CallParameters\<close> (\<open>src/CallParameters.h\<close>), used
  inside, and the scheduler's \<open>ExecutionMessage\<close>, whose interface belongs to bcos-framework
  and of which only the fields read or written here are kept; \<open>createCallParameters\<close> and
  \<open>toExecutionResult\<close> of \<open>src/executor/TransactionExecutor.cpp\<close> translate between them.
  Identifiers and gas are \<open>int64_t\<close> values that are only copied here and are kept as \<open>int\<close>.
  The default message of the external factory is a parameter.
\<close>

section \<open>Records\<close>

datatype call_type = CP_MESSAGE | CP_KEY_LOCK | CP_FINISHED | CP_REVERT

datatype message_type =
    MSG_TXHASH | MSG_MESSAGE | MSG_FINISHED | MSG_KEY_LOCK | MSG_SEND_BACK | MSG_REVERT
  | MSG_REVERT_KEY_LOCK

record log_entry =
  le_address :: string
  le_topics :: "bytes list"
  le_data :: bytes

record call_parameters =
  cp_contextID :: int
  cp_seq :: int
  senderAddress :: string
  codeAddress :: string
  receiveAddress :: string
  cp_origin :: string
  cp_gas :: int
  cp_data :: bytes
  cp_keyLocks :: "string list"
  acquireKeyLock :: string
  cp_message :: string
  cp_logEntries :: "log_entry list"
  cp_createSalt :: "u256 option"
  cp_newEVMContractAddress :: string
  cp_status :: int
  cp_type :: call_type
  cp_staticCall :: bool
  cp_create :: bool

record execution_message =
  em_type :: message_type
  em_contextID :: int
  em_seq :: int
  em_from :: string
  em_to :: string
  em_origin :: string
  em_gas :: int
  em_data :: bytes
  em_keyLocks :: "string list"
  em_keyLockAcquired :: string
  em_message :: string
  em_logEntries :: "log_entry list"
  em_createSalt :: "u256 option"
  em_newEVMContractAddress :: string
  em_status :: int
  em_staticCall :: bool
  em_create :: bool
  em_transactionHash :: bytes

text \<open>\<open>CallParameters(_type)\<close>: the member initialisers.\<close>

definition new_call_parameters :: "call_type \<Rightarrow> call_parameters" where
  "new_call_parameters ty =
     \<lparr>cp_contextID = 0, cp_seq = 0, senderAddress = [], codeAddress = [], receiveAddress = [],
      cp_origin = [], cp_gas = 0, cp_data = [], cp_keyLocks = [], acquireKeyLock = [],
      cp_message = [], cp_logEntries = [], cp_createSalt = None, cp_newEVMContractAddress = [],
      cp_status = 0, cp_type = ty, cp_staticCall = False, cp_create = False\<rparr>"

section \<open>From message to call\<close>

text \<open>\<open>createCallParameters(input, staticCall)\<close>; \<open>None\<close> is the exception of the switch.\<close>

definition call_type_of :: "message_type \<Rightarrow> call_type option" where
  "call_type_of ty =
     (case ty of MSG_MESSAGE \<Rightarrow> Some CP_MESSAGE
      | MSG_REVERT \<Rightarrow> Some CP_REVERT
      | MSG_FINISHED \<Rightarrow> Some CP_FINISHED
      | MSG_KEY_LOCK \<Rightarrow> Some CP_MESSAGE
      | MSG_SEND_BACK \<Rightarrow> None
      | MSG_REVERT_KEY_LOCK \<Rightarrow> None
      | MSG_TXHASH \<Rightarrow> None)"

definition create_call_parameters :: "execution_message \<Rightarrow> bool \<Rightarrow> call_parameters option" where
  "create_call_parameters m static =
     (case call_type_of (em_type m) of
        None \<Rightarrow> None
      | Some ty \<Rightarrow> Some ((new_call_parameters ty)
          \<lparr>cp_contextID := em_contextID m, cp_seq := em_seq m, cp_origin := em_origin m,
           senderAddress := em_from m, receiveAddress := em_to m, codeAddress := em_to m,
           cp_create := em_create m, cp_data := em_data m, cp_gas := em_gas m,
           cp_staticCall := static, cp_newEVMContractAddress := em_newEVMContractAddress m,
           cp_status := em_status m, cp_keyLocks := em_keyLocks m\<rparr>))"

text \<open>
  \<open>createCallParameters(input, tx)\<close>: the sender and the input data come from the transaction,
  given here by the hexadecimal text of its sender and its input.
\<close>

definition create_call_parameters_tx ::
    "execution_message \<Rightarrow> string \<Rightarrow> bytes \<Rightarrow> call_parameters" where
  "create_call_parameters_tx m sender input =
     (new_call_parameters CP_MESSAGE)
       \<lparr>cp_contextID := em_contextID m, cp_seq := em_seq m, cp_origin := sender,
        senderAddress := sender, receiveAddress := em_to m, codeAddress := em_to m,
        cp_gas := em_gas m, cp_staticCall := em_staticCall m, cp_create := em_create m,
        cp_data := input, cp_keyLocks := em_keyLocks m\<rparr>"

section \<open>From call to message\<close>

definition result_header :: "execution_message \<Rightarrow> call_parameters \<Rightarrow> execution_message" where
  "result_header m0 p =
     (case cp_type p of
        CP_MESSAGE \<Rightarrow> m0\<lparr>em_from := senderAddress p, em_to := receiveAddress p,
                         em_type := MSG_MESSAGE, em_keyLocks := cp_keyLocks p\<rparr>
      | CP_KEY_LOCK \<Rightarrow> m0\<lparr>em_from := senderAddress p, em_to := senderAddress p,
                         em_type := MSG_KEY_LOCK, em_keyLockAcquired := acquireKeyLock p,
                         em_keyLocks := cp_keyLocks p\<rparr>
      | CP_FINISHED \<Rightarrow> m0\<lparr>em_from := receiveAddress p, em_to := senderAddress p,
                         em_type := MSG_FINISHED\<rparr>
      | CP_REVERT \<Rightarrow> m0\<lparr>em_from := receiveAddress p, em_to := senderAddress p,
                         em_type := MSG_REVERT\<rparr>)"

definition to_execution_result :: "execution_message \<Rightarrow> call_parameters \<Rightarrow> execution_message" where
  "to_execution_result m0 p =
     (let m = (result_header m0 p)
          \<lparr>em_contextID := cp_contextID p, em_seq := cp_seq p, em_origin := cp_origin p,
           em_gas := cp_gas p, em_data := cp_data p, em_staticCall := cp_staticCall p,
           em_create := cp_create p\<rparr>;
          m1 = (case cp_createSalt p of None \<Rightarrow> m | Some salt \<Rightarrow> m\<lparr>em_createSalt := Some salt\<rparr>)
      in m1\<lparr>em_status := cp_status p, em_message := cp_message p, em_logEntries := cp_logEntries p,
            em_newEVMContractAddress := cp_newEVMContractAddress p\<rparr>)"

definition to_execution_result_of ::
    "execution_message \<Rightarrow> int \<Rightarrow> int \<Rightarrow> call_parameters \<Rightarrow> execution_message" where
  "to_execution_result_of m0 contextID sq p =
     (to_execution_result m0 p)\<lparr>em_contextID := contextID, em_seq := sq\<rparr>"

section \<open>Lemmas\<close>

lemma to_execution_result_simps [simp]:
  "em_contextID (to_execution_result m0 p) = cp_contextID p"
  "em_seq (to_execution_result m0 p) = cp_seq p"
  "em_origin (to_execution_result m0 p) = cp_origin p"
  "em_gas (to_execution_result m0 p) = cp_gas p"
  "em_data (to_execution_result m0 p) = cp_data p"
  "em_staticCall (to_execution_result m0 p) = cp_staticCall p"
  "em_create (to_execution_result m0 p) = cp_create p"
  "em_status (to_execution_result m0 p) = cp_status p"
  "em_message (to_execution_result m0 p) = cp_message p"
  "em_logEntries (to_execution_result m0 p) = cp_logEntries p"
  "em_newEVMContractAddress (to_execution_result m0 p) = cp_newEVMContractAddress p"
  "em_type (to_execution_result m0 p) = em_type (result_header m0 p)"
  "em_from (to_execution_result m0 p) = em_from (result_header m0 p)"
  "em_to (to_execution_result m0 p) = em_to (result_header m0 p)"
  "em_keyLocks (to_execution_result m0 p) = em_keyLocks (result_header m0 p)"
  by (simp_all add: to_execution_result_def Let_def split: option.split)

lemma result_header_simps:
  "em_type (result_header m0 p) = (case cp_type p of CP_MESSAGE \<Rightarrow> MSG_MESSAGE
     | CP_KEY_LOCK \<Rightarrow> MSG_KEY_LOCK | CP_FINISHED \<Rightarrow> MSG_FINISHED | CP_REVERT \<Rightarrow> MSG_REVERT)"
  "em_from (result_header m0 p) =
     (if cp_type p \<in> {CP_MESSAGE, CP_KEY_LOCK} then senderAddress p else receiveAddress p)"
  "em_to (result_header m0 p) =
     (if cp_type p = CP_MESSAGE then receiveAddress p else senderAddress p)"
  "em_keyLocks (result_header m0 p) =
     (if cp_type p \<in> {CP_MESSAGE, CP_KEY_LOCK} then cp_keyLocks p else em_keyLocks m0)"
  by (cases "cp_type p"; simp add: result_header_def)+

section \<open>Properties\<close>

text \<open>A call that the executive hands out (an external call or a key-lock request) keeps its
  sender, identifiers, gas, data and flags through the scheduler's message and back; an answer
  (finished or reverted) comes back with sender and receiver exchanged.\<close>
theorem call_message_roundtrip:
  "\<exists>q. create_call_parameters (to_execution_result m0 p) (cp_staticCall p) = Some q
    \<and> cp_contextID q = cp_contextID p \<and> cp_seq q = cp_seq p \<and> cp_gas q = cp_gas p
    \<and> cp_data q = cp_data p \<and> cp_create q = cp_create p \<and> cp_staticCall q = cp_staticCall p
    \<and> cp_status q = cp_status p \<and> cp_origin q = cp_origin p
    \<and> cp_newEVMContractAddress q = cp_newEVMContractAddress p
    \<and> (cp_type p \<in> {CP_MESSAGE, CP_KEY_LOCK} \<longrightarrow>
         cp_type q = CP_MESSAGE \<and> senderAddress q = senderAddress p \<and> cp_keyLocks q = cp_keyLocks p)
    \<and> (cp_type p = CP_MESSAGE \<longrightarrow> receiveAddress q = receiveAddress p)
    \<and> (cp_type p \<in> {CP_FINISHED, CP_REVERT} \<longrightarrow>
         cp_type q = cp_type p \<and> senderAddress q = receiveAddress p \<and> receiveAddress q = senderAddress p)"
  by (cases "cp_type p")
    (simp_all add: create_call_parameters_def call_type_of_def result_header_simps
      new_call_parameters_def)

definition blank_message :: execution_message where
  "blank_message = \<lparr>em_type = MSG_MESSAGE, em_contextID = 0, em_seq = 0, em_from = [], em_to = [],
     em_origin = [], em_gas = 0, em_data = [], em_keyLocks = [], em_keyLockAcquired = [],
     em_message = [], em_logEntries = [], em_createSalt = None, em_newEVMContractAddress = [],
     em_status = 0, em_staticCall = False, em_create = False, em_transactionHash = []\<rparr>"

theorem call_message_roundtrip_witness:
  "\<exists>q. create_call_parameters (to_execution_result blank_message ((new_call_parameters CP_REVERT)
       \<lparr>senderAddress := ''a'', receiveAddress := ''b''\<rparr>)) False = Some q
    \<and> cp_type q = CP_REVERT \<and> senderAddress q = ''b'' \<and> receiveAddress q = ''a''"
  using call_message_roundtrip [of blank_message "(new_call_parameters CP_REVERT)
       \<lparr>senderAddress := ''a'', receiveAddress := ''b''\<rparr>"]
  by (auto simp: new_call_parameters_def)

end
