(* ===== verification/ParallelConfig.thy ===== *)
theory ParallelConfig imports Storage Decimal begin

text \<open>
  \<open>ParallelConfigPrecompiled\<close> (\<open>src/precompiled/ParallelConfigPrecompiled.h\<close> and \<open>.cpp\<close>): one
  table \<open>cp_<contract>\<close> per contract, from the decimal text of a function selector to the
  registered signature and the number of its leading critical parameters.  The archive that
  stores a \<open>ParallelConfig\<close> in an entry and the hash behind \<open>getFuncSelector\<close> are parameters.
\<close>

record para_config =
  function_name :: string
  critical_size :: u256

definition PARA_VALUE_NAMES :: string where
  "PARA_VALUE_NAMES = ''functionName,criticalSize''"

definition para_table :: "string \<Rightarrow> string" where
  "para_table contractName = ''cp_'' @ contractName"

definition u32_str :: "u32 \<Rightarrow> string" where
  "u32_str w = dec_of_nat (unat w)"

text \<open>\<open>openTable\<close>: a table, the null pointer, or \<open>std::bad_optional_access\<close>.\<close>

datatype open_result = Opened | NullTable | BadOptional

definition para_open :: "'s storage_ops \<Rightarrow> string \<Rightarrow> bool \<Rightarrow> 's \<Rightarrow> open_result \<times> 's" where
  "para_open ops contractName needCreate s =
     (let t = para_table contractName in
      if \<not> st_open ops s t \<and> needCreate
      then (case st_create ops s t PARA_VALUE_NAMES of
              (True, s1) \<Rightarrow> (if st_open ops s1 t then (Opened, s1) else (BadOptional, s1))
            | (False, s1) \<Rightarrow> (NullTable, s1))
      else (if st_open ops s t then (Opened, s) else (BadOptional, s)))"

text \<open>The answer is the code written to \<open>_out\<close>; \<open>None\<close> leaves \<open>_out\<close> empty.\<close>

definition register_parallel_function ::
    "'s storage_ops \<Rightarrow> (para_config \<Rightarrow> string) \<Rightarrow> (string \<Rightarrow> u32) \<Rightarrow> string \<Rightarrow> string \<Rightarrow> u256 \<Rightarrow> 's
     \<Rightarrow> (unit + int option) \<times> 's" where
  "register_parallel_function ops ser sel contractName functionName criticalSize s =
     (case para_open ops contractName True s of
        (BadOptional, s1) \<Rightarrow> (Inl (), s1)
      | (NullTable, s1) \<Rightarrow> (Inr None, s1)
      | (Opened, s1) \<Rightarrow>
          (Inr (Some 0), st_set ops s1 (para_table contractName) (u32_str (sel functionName))
             (ser \<lparr>function_name = functionName, critical_size = criticalSize\<rparr>)))"

definition unregister_parallel_function ::
    "'s storage_ops \<Rightarrow> (string \<Rightarrow> u32) \<Rightarrow> string \<Rightarrow> string \<Rightarrow> 's \<Rightarrow> (unit + int option) \<times> 's" where
  "unregister_parallel_function ops sel contractName functionName s =
     (if st_open ops s (para_table contractName)
      then (Inr (Some 0), st_del ops s (para_table contractName) (u32_str (sel functionName)))
      else (Inr None, s))"

definition get_parallel_config ::
    "'s storage_ops \<Rightarrow> (string \<Rightarrow> para_config) \<Rightarrow> string \<Rightarrow> u32 \<Rightarrow> 's \<Rightarrow> para_config option" where
  "get_parallel_config ops des contractAddress selector s =
     (if \<not> st_open ops s (para_table contractAddress) then None
      else case fst (st_get ops s (para_table contractAddress) (u32_str selector)) of
             None \<Rightarrow> None
           | Some e \<Rightarrow> Some (des e))"

section \<open>Lemmas\<close>

lemma u32_str_inj: "u32_str a = u32_str b \<longleftrightarrow> a = b"
  by (metis nat_text.to_str_inj u32_str_def word_unat_eq_iff)

lemma para_table_inj: "para_table a = para_table b \<longleftrightarrow> a = b"
  by (simp add: para_table_def)

locale para_env = table_storage ops inv + number_text ser des
  for ops :: "'s storage_ops" and inv and ser :: "para_config \<Rightarrow> string" and des
begin

lemma para_open_ok:
  assumes "inv s" and "para_table c \<noteq> st_sys ops"
  shows "\<exists>s1. para_open ops c True s = (Opened, s1) \<and> inv s1 \<and> st_open ops s1 (para_table c)
     \<and> (\<forall>t. t \<noteq> para_table c \<longrightarrow> st_open ops s1 t = st_open ops s t)
     \<and> (\<forall>t k. t \<noteq> st_sys ops \<longrightarrow> row ops s1 t k = row ops s t k)"
proof (cases "st_open ops s (para_table c)")
  case True
  then show ?thesis using assms by (simp add: para_open_def Let_def)
next
  case False
  obtain s1 where s1: "st_create ops s (para_table c) PARA_VALUE_NAMES = (True, s1)"
    using create_ok [OF assms(1) False] by (metis prod.collapse)
  then show ?thesis
    using False create_inv [OF assms(1), of "para_table c" PARA_VALUE_NAMES]
      create_open [OF assms(1) False, of PARA_VALUE_NAMES]
      create_row [OF assms(1) False, of _ PARA_VALUE_NAMES]
    by (simp add: para_open_def Let_def)
qed

lemma get_parallel_config_row:
  "inv s \<Longrightarrow> get_parallel_config ops des c f s =
     map_option des (row ops s (para_table c) (u32_str f))"
  using closed_row [of s "para_table c"]
  by (auto simp: get_parallel_config_def row_def split: option.split)

lemma register_lookup:
  assumes "inv s" and "para_table c \<noteq> st_sys ops" and "para_table c' \<noteq> st_sys ops"
  shows "\<exists>s'. register_parallel_function ops ser sel c name sz s = (Inr (Some 0), s') \<and> inv s'
     \<and> get_parallel_config ops des c' f s' =
        (if c' = c \<and> f = sel name then Some \<lparr>function_name = name, critical_size = sz\<rparr>
         else get_parallel_config ops des c' f s)"
proof -
  obtain s1 where s1: "para_open ops c True s = (Opened, s1)" "inv s1"
      "st_open ops s1 (para_table c)"
      "\<forall>t k. t \<noteq> st_sys ops \<longrightarrow> row ops s1 t k = row ops s t k"
    using para_open_ok [OF assms(1,2)] by blast
  let ?e = "ser \<lparr>function_name = name, critical_size = sz\<rparr>"
  let ?s = "st_set ops s1 (para_table c) (u32_str (sel name)) ?e"
  have "inv ?s" using s1(2) by (rule set_inv)
  moreover have "row ops ?s (para_table c') (u32_str f) =
      (if c' = c \<and> f = sel name then Some ?e else row ops s (para_table c') (u32_str f))"
    using set_row [OF s1(2,3) assms(2)] s1(4) assms(3) by (simp add: u32_str_inj para_table_inj)
  ultimately show ?thesis
    using s1(1) assms(1) by (simp add: register_parallel_function_def get_parallel_config_row of_to_str)
qed

lemma unregister_lookup:
  assumes "inv s" and "para_table c \<noteq> st_sys ops"
    and "unregister_parallel_function ops sel c name s = (r, s')"
  shows "inv s' \<and> get_parallel_config ops des c' f s' =
     (if c' = c \<and> f = sel name then None else get_parallel_config ops des c' f s)"
proof (cases "st_open ops s (para_table c)")
  case True
  let ?s = "st_del ops s (para_table c) (u32_str (sel name))"
  have s': "s' = ?s" using assms(3) True by (simp add: unregister_parallel_function_def)
  have "inv ?s" using assms(1) by (rule del_inv)
  then show ?thesis
    using del_row [OF assms(1) True assms(2)] assms(1) s'
    by (simp add: get_parallel_config_row u32_str_inj para_table_inj)
next
  case False
  then show ?thesis
    using assms closed_row [OF assms(1) False]
    by (auto simp: unregister_parallel_function_def get_parallel_config_row)
qed

end

text \<open>An archive for the witnesses: the decimal size, a separator, the name.\<close>

definition para_ser :: "para_config \<Rightarrow> string" where
  "para_ser c = u256_str (critical_size c) @ CHR '':'' # function_name c"

definition para_des :: "string \<Rightarrow> para_config" where
  "para_des s = \<lparr>function_name = tl (dropWhile (\<lambda>x. x \<noteq> CHR '':'') s),
                critical_size = u256_num (takeWhile (\<lambda>x. x \<noteq> CHR '':'') s)\<rparr>"

lemma digits_no_colon: "c \<in> set (dec_of_nat n) \<Longrightarrow> c \<noteq> CHR '':''"
proof (induction n rule: dec_of_nat.induct)
  case (1 n)
  have d: "digit m \<noteq> CHR '':''" if "m < 10" for m
  proof
    assume "digit m = CHR '':''"
    then have "of_char (digit m) = (58 :: nat)" by simp
    then show False using that of_char_digit [OF that] by simp
  qed
  show ?case using 1 d [of n] d [of "n mod 10"] by (auto simp: dec_of_nat.simps [of n] split: if_splits)
qed

interpretation para_mem: para_env mem_ops "\<lambda>_. True" para_ser para_des
proof
  fix c :: para_config
  have "\<forall>x \<in> set (u256_str (critical_size c)). x \<noteq> CHR '':''"
    using digits_no_colon by (auto simp: u256_str_def)
  then show "para_des (para_ser c) = c"
    by (simp add: para_des_def para_ser_def takeWhile_append2 dropWhile_append2
        u256_text.of_to_str)
qed

section \<open>Properties\<close>

text \<open>Registering a function makes \<open>getParallelConfig\<close> return exactly what was registered
  for that contract and selector, unregistering makes it return nothing, and no other contract
  or selector is affected.\<close>
theorem parallel_config_lookup:
  assumes "table_storage ops I" and "number_text ser des" and "I s"
    and "para_table c \<noteq> st_sys ops" and "para_table c' \<noteq> st_sys ops"
    and "register_parallel_function ops ser sel c name sz s = (r, s1)"
    and "unregister_parallel_function ops sel c name s1 = (r', s2)"
  shows "r = Inr (Some 0) \<and>
    get_parallel_config ops des c' f s1 =
      (if c' = c \<and> f = sel name then Some \<lparr>function_name = name, critical_size = sz\<rparr>
       else get_parallel_config ops des c' f s) \<and>
    get_parallel_config ops des c' f s2 =
      (if c' = c \<and> f = sel name then None else get_parallel_config ops des c' f s)"
proof -
  have env: "para_env ops I ser des" using assms(1,2) by (simp add: para_env_def)
  have reg: "r = Inr (Some 0)" "I s1" "get_parallel_config ops des c' f s1 =
      (if c' = c \<and> f = sel name then Some \<lparr>function_name = name, critical_size = sz\<rparr>
       else get_parallel_config ops des c' f s)"
    using para_env.register_lookup [OF env assms(3-5), of sel name sz f] assms(6) by auto
  show ?thesis
    using para_env.unregister_lookup [OF env reg(2) assms(4,7), of c' f] reg by simp
qed

theorem parallel_config_lookup_witness:
  "\<exists>s1. register_parallel_function mem_ops para_ser (\<lambda>_. 7) ''abc'' ''f(string)'' 1 mem_empty
      = (Inr (Some 0), s1)
    \<and> get_parallel_config mem_ops para_des ''abc'' 7 s1 =
        Some \<lparr>function_name = ''f(string)'', critical_size = 1\<rparr>"
proof -
  obtain r s1 where r: "register_parallel_function mem_ops para_ser (\<lambda>_. 7) ''abc'' ''f(string)'' 1
      mem_empty = (r, s1)" by (metis surj_pair)
  obtain r' s2 where r': "unregister_parallel_function mem_ops (\<lambda>_. 7) ''abc'' ''f(string)'' s1
      = (r', s2)" by (metis surj_pair)
  have sys: "para_table ''abc'' \<noteq> st_sys mem_ops" by (simp add: para_table_def mem_sys_def)
  show ?thesis
    using parallel_config_lookup [OF mem.table_storage_axioms para_mem.number_text_axioms TrueI
        sys sys r r', of 7] r by simp
qed

end
