(* ===== verification/Utilities.thy ===== *)
theory Utilities imports Prelude begin

text \<open>
  The helper functions of \<open>src/precompiled/Utilities.cpp\<close> and \<open>Utilities.h\<close> that work on
  values: reading the selector and the data of a call, the checks on table names, field
  names and lengths, the path functions of the file system, and the list of conditions.
  Exceptions (\<open>PrecompiledError\<close>, \<open>std::out_of_range\<close>) are the left of a sum.

  The string algorithms of boost (\<open>split\<close>, \<open>join\<close>, \<open>trim\<close>) are a parameter, the record
  \<open>text_ops\<close>; the locale \<open>text_lib\<close> states their documented behaviour.
\<close>

section \<open>String algorithms\<close>

record text_ops =
  tx_split :: "char \<Rightarrow> bool \<Rightarrow> string \<Rightarrow> string list"
  tx_join :: "char \<Rightarrow> string list \<Rightarrow> string"
  tx_trim :: "string \<Rightarrow> string"

definition is_alnum :: "char \<Rightarrow> bool" where
  "is_alnum c \<longleftrightarrow> (let n = of_char c :: nat in
     (48 \<le> n \<and> n \<le> 57) \<or> (65 \<le> n \<and> n \<le> 90) \<or> (97 \<le> n \<and> n \<le> 122))"

locale text_lib =
  fixes T :: text_ops
  assumes join_Nil: "tx_join T c [] = []"
    and join_one: "tx_join T c [s] = s"
    and join_Cons: "tx_join T c (s # s' # ss) = s @ c # tx_join T c (s' # ss)"
    and split_join: "ss \<noteq> [] \<Longrightarrow> \<forall>s \<in> set ss. c \<notin> set s \<Longrightarrow> compress \<longrightarrow> [] \<notin> set ss \<Longrightarrow>
      tx_split T c compress (tx_join T c ss) = ss"
    and trim_id: "\<forall>x \<in> set s. is_alnum x \<or> x \<in> {CHR ''$'', CHR ''_'', CHR ''@''} \<Longrightarrow>
      tx_trim T s = s"

text \<open>Splitting merges adjacent separators, so joining the parts again gives nothing longer.\<close>

locale path_lib = text_lib +
  assumes join_split: "length (tx_join T c (tx_split T c compress s)) \<le> length s"

section \<open>Selector and data of a call\<close>

text \<open>
  \<open>getParamFunc\<close> loads four bytes as a little-endian word and swaps them; fewer than four
  bytes are an out-of-bounds read (\<open>None\<close>).
\<close>

unbundle bit_operations_syntax

definition load_le :: "u8 \<Rightarrow> u8 \<Rightarrow> u8 \<Rightarrow> u8 \<Rightarrow> u32" where
  "load_le b0 b1 b2 b3 =
     ucast b0 OR push_bit 8 (ucast b1) OR push_bit 16 (ucast b2) OR push_bit 24 (ucast b3)"

definition swap_bytes :: "u32 \<Rightarrow> u32" where
  "swap_bytes func =
     push_bit 24 (func AND 0x000000FF) OR push_bit 8 (func AND 0x0000FF00) OR
     drop_bit 8 (func AND 0x00FF0000) OR drop_bit 24 (func AND 0xFF000000)"

fun get_param_func :: "bytes \<Rightarrow> u32 option" where
  "get_param_func (b0 # b1 # b2 # b3 # _) = Some (swap_bytes (load_le b0 b1 b2 b3))"
| "get_param_func _ = None"

definition get_param_data :: "bytes \<Rightarrow> bytes" where
  "get_param_data p = drop 4 p"

section \<open>Checks\<close>

definition SYS_TABLE_KEY_FIELD_NAME_MAX_LENGTH :: nat where
  "SYS_TABLE_KEY_FIELD_NAME_MAX_LENGTH = 64"
definition SYS_TABLE_KEY_FIELD_MAX_LENGTH :: nat where "SYS_TABLE_KEY_FIELD_MAX_LENGTH = 1024"
definition SYS_TABLE_VALUE_FIELD_MAX_LENGTH :: nat where
  "SYS_TABLE_VALUE_FIELD_MAX_LENGTH = 1024"
definition USER_TABLE_NAME_MAX_LENGTH :: nat where "USER_TABLE_NAME_MAX_LENGTH = 64"
definition USER_TABLE_NAME_MAX_LENGTH_S :: nat where "USER_TABLE_NAME_MAX_LENGTH_S = 50"
definition FS_PATH_MAX_LENGTH :: nat where "FS_PATH_MAX_LENGTH = 56"
definition FS_PATH_MAX_LEVEL :: nat where "FS_PATH_MAX_LEVEL = 6"

datatype precompiled_error =
    InvalidTableName string
  | InvalidField string
  | DuplicatedKey string
  | DuplicatedField string
  | LengthOverflow int
  | FieldNameOverflow
  | KeyNameOverflow
  | ValueNameOverflow
  | TotalKeyOverflow
  | TotalFieldOverflow
  | TableNameOverflow

definition get_table_name :: "string \<Rightarrow> string" where
  "get_table_name n =
     ''/tables/'' @ (case n of [] \<Rightarrow> [] | c # cs \<Rightarrow> if c = CHR ''/'' then cs else n)"

definition table_char_ok :: "char \<Rightarrow> bool" where
  "table_char_ok c \<longleftrightarrow> is_alnum c \<or> c \<in> {CHR ''_'', CHR ''/''}"

definition field_char_ok :: "char \<Rightarrow> bool" where
  "field_char_ok c \<longleftrightarrow> is_alnum c \<or> c \<in> {CHR ''$'', CHR ''_'', CHR ''@''}"

definition check_field_name :: "string \<Rightarrow> precompiled_error + unit" where
  "check_field_name f =
     (if f = [] \<or> hd f = CHR ''_'' then Inl (InvalidField f)
      else if list_all field_char_ok f then Inr () else Inl (InvalidField f))"

text \<open>The loop over a list of fields with the set of those seen; \<open>dup\<close> is the error raised.\<close>

fun check_fields :: "(string \<Rightarrow> precompiled_error) \<Rightarrow> string set \<Rightarrow> string list
     \<Rightarrow> precompiled_error + unit" where
  "check_fields dup seen [] = Inr ()"
| "check_fields dup seen (f # fs) =
     (if f \<in> seen then Inl (dup f)
      else case check_field_name f of
             Inl e \<Rightarrow> Inl e
           | Inr _ \<Rightarrow> check_fields dup (insert f seen) fs)"

definition check_name_validate ::
    "string \<Rightarrow> string list \<Rightarrow> string list \<Rightarrow> precompiled_error + unit" where
  "check_name_validate tableName keyFields valueFields =
     (if \<not> list_all table_char_ok tableName then Inl (InvalidTableName tableName)
      else case check_fields DuplicatedKey {} keyFields of
             Inl e \<Rightarrow> Inl e
           | Inr _ \<Rightarrow> check_fields DuplicatedField {} valueFields)"

definition check_length_validate :: "string \<Rightarrow> nat \<Rightarrow> int \<Rightarrow> precompiled_error + int" where
  "check_length_validate v maxLength errorCode =
     (if length v > maxLength then Inl (LengthOverflow errorCode) else Inr 0)"

text \<open>\<open>checkCreateTableParam\<close>; the answer is the pair of normalised field lists.\<close>

definition check_create_table_param ::
    "text_ops \<Rightarrow> string \<Rightarrow> string \<Rightarrow> string \<Rightarrow> precompiled_error + string \<times> string" where
  "check_create_table_param T tableName keyField valueField =
     (let ks = map (tx_trim T) (tx_split T CHR '','' False keyField);
          vs = map (tx_trim T) (tx_split T CHR '','' False valueField);
          tooLong = (\<lambda>s. length s > SYS_TABLE_KEY_FIELD_NAME_MAX_LENGTH)
      in if tooLong keyField then Inl FieldNameOverflow
         else if list_ex tooLong ks then Inl KeyNameOverflow
         else if list_ex tooLong vs then Inl ValueNameOverflow
         else case check_name_validate tableName ks vs of
           Inl e \<Rightarrow> Inl e
         | Inr _ \<Rightarrow>
             (let k = tx_join T CHR '','' ks; v = tx_join T CHR '','' vs; t = get_table_name tableName
              in if length k > SYS_TABLE_KEY_FIELD_MAX_LENGTH then Inl TotalKeyOverflow
                 else if length v > SYS_TABLE_VALUE_FIELD_MAX_LENGTH then Inl TotalFieldOverflow
                 else if length t > USER_TABLE_NAME_MAX_LENGTH \<or>
                         length t > USER_TABLE_NAME_MAX_LENGTH_S then Inl TableNameOverflow
                 else Inr (k, v)))"

section \<open>Paths\<close>

text \<open>Dropping one leading and one trailing slash; \<open>at(size() - 1)\<close> throws on the empty string.\<close>

definition strip_path :: "string \<Rightarrow> string option" where
  "strip_path p =
     (let d = (case p of [] \<Rightarrow> [] | c # cs \<Rightarrow> if c = CHR ''/'' then cs else p)
      in if d = [] then None
         else Some (if last d = CHR ''/'' then butlast d else d))"

definition path_char_ok :: "char \<Rightarrow> bool" where
  "path_char_ok c \<longleftrightarrow> is_alnum c \<or> c = CHR ''_''"

definition path_name_ok :: "string \<Rightarrow> bool" where
  "path_name_ok f \<longleftrightarrow> f \<noteq> [] \<and> hd f \<noteq> CHR ''_'' \<and> list_all path_char_ok f"

definition check_path_valid :: "text_ops \<Rightarrow> string \<Rightarrow> bool option" where
  "check_path_valid T p =
     (if p = [] then Some False
      else if length p > FS_PATH_MAX_LENGTH then Some False
      else if p = ''/'' then Some True
      else case strip_path p of
        None \<Rightarrow> None
      | Some d \<Rightarrow>
          (let l = tx_split T CHR ''/'' True d
           in if length l > FS_PATH_MAX_LEVEL \<or> l = [] then Some False
              else Some (list_all path_name_ok l)))"

definition get_parent_dir_and_base_name :: "text_ops \<Rightarrow> string \<Rightarrow> (string \<times> string) option" where
  "get_parent_dir_and_base_name T p =
     (if p = ''/'' then Some (''/'', ''/'')
      else case strip_path p of
        None \<Rightarrow> None
      | Some d \<Rightarrow>
          (let l = tx_split T CHR ''/'' True d
           in if l = [] then None
              else Some (CHR ''/'' # tx_join T CHR ''/'' (butlast l), last l)))"

section \<open>Conditions\<close>

datatype comparator = CmpEQ | CmpNE | CmpGT | CmpGE | CmpLT | CmpLE

type_synonym compare_triple = "string \<times> string \<times> comparator"

definition add_condition ::
    "string \<Rightarrow> string \<Rightarrow> comparator \<Rightarrow> compare_triple list \<Rightarrow> compare_triple list" where
  "add_condition k v cmp cs = (if (k, v, cmp) \<in> set cs then cs else cs @ [(k, v, cmp)])"

section \<open>Lemmas\<close>

lemma byte_masks:
  "(0xFF :: u32) = mask 8" "0xFF00 = push_bit 8 (mask 8 :: u32)"
  "0xFF0000 = push_bit 16 (mask 8 :: u32)" "0xFF000000 = push_bit 24 (mask 8 :: u32)"
  by (simp_all add: mask_eq_exp_minus_1 push_bit_eq_mult)

lemma bit_byte_high: "8 \<le> n \<Longrightarrow> \<not> bit (b :: u8) n"
  using bit_imp_le_length [of b n] by auto

text \<open>The swap turns the little-endian load into the big-endian value of the four bytes.\<close>

lemma swap_load: "swap_bytes (load_le b0 b1 b2 b3) = load_le b3 b2 b1 b0"
proof (rule bit_word_eqI)
  fix n
  assume n: "n < LENGTH(32)"
  consider "n < 8" | "8 \<le> n" "n < 16" | "16 \<le> n" "n < 24" | "24 \<le> n" by linarith
  then show "bit (swap_bytes (load_le b0 b1 b2 b3)) n = bit (load_le b3 b2 b1 b0) n"
    by cases (use n in \<open>auto simp: swap_bytes_def load_le_def byte_masks bit_simps bit_byte_high\<close>)
qed

lemma check_fields_ok:
  "check_fields dup seen fs = Inr () \<longleftrightarrow>
     distinct fs \<and> set fs \<inter> seen = {} \<and> (\<forall>f \<in> set fs. check_field_name f = Inr ())"
  by (induction fs arbitrary: seen) (auto split: sum.split)

lemma check_name_validate_ok:
  "check_name_validate t ks vs = Inr () \<longleftrightarrow>
     list_all table_char_ok t \<and> distinct ks \<and> distinct vs
     \<and> (\<forall>f \<in> set ks \<union> set vs. check_field_name f = Inr ())"
  using check_fields_ok [of DuplicatedKey "{}" ks] check_fields_ok [of DuplicatedField "{}" vs]
  by (auto simp: check_name_validate_def split: sum.split)

lemma check_field_name_ok:
  "check_field_name f = Inr () \<longleftrightarrow> f \<noteq> [] \<and> hd f \<noteq> CHR ''_'' \<and> list_all field_char_ok f"
  by (simp add: check_field_name_def)

lemma field_char_no_comma: "field_char_ok c \<Longrightarrow> c \<noteq> CHR '',''"
  by (auto simp: field_char_ok_def is_alnum_def)

lemma path_char_no_slash: "path_char_ok c \<Longrightarrow> c \<noteq> CHR ''/''"
  by (auto simp: path_char_ok_def is_alnum_def)

context text_lib
begin

lemma join_not_Nil: "ss \<noteq> [] \<Longrightarrow> [] \<notin> set ss \<Longrightarrow> tx_join T c ss \<noteq> []"
  by (cases ss; cases "tl ss") (auto simp: join_one join_Cons)

lemma last_join: "ss \<noteq> [] \<Longrightarrow> [] \<notin> set ss \<Longrightarrow> last (tx_join T c ss) = last (last ss)"
proof (induction ss)
  case Nil
  then show ?case by simp
next
  case (Cons s ss)
  then show ?case
    using join_not_Nil [of ss c] by (cases ss) (auto simp: join_one join_Cons last_append)
qed

text \<open>A path is the names below the root.\<close>

definition path_of :: "string list \<Rightarrow> string" where
  "path_of ss = CHR ''/'' # tx_join T CHR ''/'' ss"

lemma names_no_slash:
  "list_all path_name_ok ss \<Longrightarrow> [] \<notin> set ss \<and> (\<forall>s \<in> set ss. CHR ''/'' \<notin> set s)"
  by (auto simp: list_all_iff path_name_ok_def dest: path_char_no_slash)

lemma strip_path_of:
  assumes "ss \<noteq> []" and "list_all path_name_ok ss"
  shows "strip_path (path_of ss) = Some (tx_join T CHR ''/'' ss)"
proof -
  have no: "[] \<notin> set ss" "\<forall>s \<in> set ss. CHR ''/'' \<notin> set s" using names_no_slash [OF assms(2)] by auto
  have "last ss \<in> set ss" using assms(1) by simp
  then have "CHR ''/'' \<notin> set (last ss)" "last ss \<noteq> []" using no by metis+
  then have "last (last ss) \<noteq> CHR ''/''" by (metis last_in_set)
  then show ?thesis
    using join_not_Nil [OF assms(1) no(1)] last_join [OF assms(1) no(1)]
    by (simp add: strip_path_def path_of_def)
qed

lemma split_path_of:
  assumes "ss \<noteq> []" and "list_all path_name_ok ss"
  shows "tx_split T CHR ''/'' True (tx_join T CHR ''/'' ss) = ss"
  using names_no_slash [OF assms(2)] assms(1) by (intro split_join) auto

lemma path_of_not_root:
  "ss \<noteq> [] \<Longrightarrow> list_all path_name_ok ss \<Longrightarrow> path_of ss \<noteq> ''/''"
  using join_not_Nil [of ss] names_no_slash [of ss] by (auto simp: path_of_def)

lemma check_path_of:
  assumes "ss \<noteq> []" and "list_all path_name_ok ss"
  shows "check_path_valid T (path_of ss) =
    Some (length (path_of ss) \<le> FS_PATH_MAX_LENGTH \<and> length ss \<le> FS_PATH_MAX_LEVEL)"
  using assms path_of_not_root [OF assms] split_path_of [OF assms]
  by (simp add: check_path_valid_def strip_path_of) (simp add: path_of_def)

lemma parent_of_path:
  assumes "ss \<noteq> []" and "list_all path_name_ok ss"
  shows "get_parent_dir_and_base_name T (path_of ss) = Some (path_of (butlast ss), last ss)"
  using assms path_of_not_root [OF assms] split_path_of [OF assms]
  by (simp add: get_parent_dir_and_base_name_def strip_path_of) (simp add: path_of_def)

lemma create_table_fields:
  assumes "fs \<noteq> []" and "\<forall>f \<in> set fs. check_field_name f = Inr ()"
  shows "map (tx_trim T) (tx_split T CHR '','' False (tx_join T CHR '','' fs)) = fs"
proof -
  have "\<forall>f \<in> set fs. CHR '','' \<notin> set f"
    using assms(2) by (auto simp: check_field_name_ok list_all_iff dest: field_char_no_comma)
  then have "tx_split T CHR '','' False (tx_join T CHR '','' fs) = fs"
    using assms(1) by (intro split_join) auto
  moreover have "tx_trim T f = f" if "f \<in> set fs" for f
    using assms(2) that by (intro trim_id) (auto simp: check_field_name_ok list_all_iff field_char_ok_def)
  ultimately show ?thesis by (simp add: map_idI)
qed

end

section \<open>A concrete text library\<close>

fun join_with :: "char \<Rightarrow> string list \<Rightarrow> string" where
  "join_with c [] = []"
| "join_with c [s] = s"
| "join_with c (s # ss) = s @ c # join_with c ss"

function split_with :: "char \<Rightarrow> bool \<Rightarrow> string \<Rightarrow> string list" where
  "split_with c compress s =
     (case dropWhile (\<lambda>x. x \<noteq> c) s of
        [] \<Rightarrow> [s]
      | _ # r \<Rightarrow> takeWhile (\<lambda>x. x \<noteq> c) s
          # split_with c compress (if compress then dropWhile (\<lambda>x. x = c) r else r))"
  by pat_completeness auto
termination
proof (relation "measure (\<lambda>(c, b, s). length s)")
  fix c compress and s r :: string and x
  assume "dropWhile (\<lambda>x. x \<noteq> c) s = x # r"
  then have "length r < length s"
    by (metis Suc_le_lessD length_Cons length_dropWhile_le)
  moreover have "length (dropWhile (\<lambda>x. x = c) r) \<le> length r" by (rule length_dropWhile_le)
  ultimately show "((c, compress, if compress then dropWhile (\<lambda>x. x = c) r else r), c, compress, s)
      \<in> measure (\<lambda>(c, b, s). length s)"
    by auto
qed simp

declare split_with.simps [simp del]

definition std_text :: text_ops where
  "std_text = \<lparr>tx_split = split_with, tx_join = join_with,
     tx_trim = (\<lambda>s. rev (dropWhile (\<lambda>x. x = CHR '' '') (rev (dropWhile (\<lambda>x. x = CHR '' '') s))))\<rparr>"

lemma split_with_join:
  assumes "ss \<noteq> []" and "\<forall>s \<in> set ss. c \<notin> set s" and "compress \<longrightarrow> [] \<notin> set ss"
  shows "split_with c compress (join_with c ss) = ss"
  using assms
proof (induction c ss rule: join_with.induct)
  case (1 c)
  then show ?case by simp
next
  case (2 c s)
  then have "dropWhile (\<lambda>x. x \<noteq> c) s = []" by (auto simp: dropWhile_eq_Nil_conv)
  then show ?case by (simp only: join_with.simps split_with.simps [of c compress s] list.case)
next
  case (3 c s s' ss)
  let ?r = "join_with c (s' # ss)"
  have s: "\<forall>x \<in> set s. x \<noteq> c" using 3(3) by auto
  have d: "dropWhile (\<lambda>x. x \<noteq> c) (s @ c # ?r) = c # ?r" "takeWhile (\<lambda>x. x \<noteq> c) (s @ c # ?r) = s"
    using s by (simp_all add: dropWhile_append2 takeWhile_append2)
  have "dropWhile (\<lambda>x. x = c) ?r = ?r" if compress
  proof (cases s')
    case Nil
    then show ?thesis using 3(4) that by simp
  next
    case (Cons y ys)
    then have "y \<noteq> c" using 3(3) by auto
    then show ?thesis using Cons by (cases ss) auto
  qed
  then have "split_with c compress (s @ c # ?r) = s # split_with c compress ?r"
    using d by (subst split_with.simps) simp
  then show ?case using 3 by simp
qed

lemma join_split_with: "length (join_with c (split_with c compress s)) \<le> length s"
proof (induction c compress s rule: split_with.induct)
  case (1 c compress s)
  show ?case
  proof (cases "dropWhile (\<lambda>x. x \<noteq> c) s")
    case Nil
    then show ?thesis by (subst split_with.simps, subst Nil) simp
  next
    case (Cons x r)
    define r' where "r' = (if compress then dropWhile (\<lambda>x. x = c) r else r)"
    have "split_with c compress s = takeWhile (\<lambda>x. x \<noteq> c) s # split_with c compress r'"
      by (simp add: split_with.simps [of c compress s] Cons r'_def)
    moreover have "length (join_with c (split_with c compress r')) \<le> length r'"
      using 1 [OF Cons] by (simp add: r'_def)
    moreover have "length r' \<le> length r" by (simp add: r'_def length_dropWhile_le)
    moreover have "length s = length (takeWhile (\<lambda>x. x \<noteq> c) s) + Suc (length r)"
      using arg_cong [OF takeWhile_dropWhile_id, of length "\<lambda>x. x \<noteq> c" s] Cons by simp
    ultimately show ?thesis by (cases "split_with c compress r'") simp_all
  qed
qed

lemma dropWhile_none: "\<forall>x \<in> set s. x \<noteq> a \<Longrightarrow> dropWhile (\<lambda>x. x = a) s = s"
  by (cases s) auto

interpretation std: text_lib std_text
proof
  fix s :: string
  assume "\<forall>x \<in> set s. is_alnum x \<or> x \<in> {CHR ''$'', CHR ''_'', CHR ''@''}"
  then have "\<forall>x \<in> set s. x \<noteq> CHR '' ''" by (auto simp: is_alnum_def)
  then have "dropWhile (\<lambda>x. x = CHR '' '') s = s" "dropWhile (\<lambda>x. x = CHR '' '') (rev s) = rev s"
    by (intro dropWhile_none; simp)+
  then show "tx_trim std_text s = s" by (simp add: std_text_def)
qed (auto simp: std_text_def split_with_join)

interpretation std_path: path_lib std_text
  by unfold_locales (simp add: std_text_def join_split_with)

section \<open>Properties\<close>

text \<open>The selector of a call is the big-endian value of its first four bytes, and the data
  is what follows them.\<close>
theorem param_func_big_endian:
  "get_param_func (b0 # b1 # b2 # b3 # rest') = Some (load_le b3 b2 b1 b0)
    \<and> get_param_data (b0 # b1 # b2 # b3 # rest') = rest'"
  by (simp add: swap_load get_param_data_def)

text \<open>An absolute path made of valid names is accepted exactly when its length and depth are
  within the limits, and splitting it into directory and base name gives the path of the
  enclosing names and the last name.\<close>
theorem valid_path_split:
  assumes "text_lib T" and "names \<noteq> []" and "list_all path_name_ok names"
    and "p = CHR ''/'' # tx_join T CHR ''/'' names"
  shows "check_path_valid T p = Some (length p \<le> 56 \<and> length names \<le> 6)
    \<and> get_parent_dir_and_base_name T p =
        Some (CHR ''/'' # tx_join T CHR ''/'' (butlast names), last names)"
  using text_lib.check_path_of [OF assms(1-3)] text_lib.parent_of_path [OF assms(1-3)] assms(4)
  by (simp add: text_lib.path_of_def [OF assms(1)] FS_PATH_MAX_LENGTH_def FS_PATH_MAX_LEVEL_def)

theorem valid_path_split_witness:
  "check_path_valid std_text ''/usr/local/bin'' = Some True
    \<and> get_parent_dir_and_base_name std_text ''/usr/local/bin'' = Some (''/usr/local'', ''bin'')"
proof -
  have names: "[''usr'', ''local'', ''bin''] \<noteq> []" "list_all path_name_ok [''usr'', ''local'', ''bin'']"
    by (simp_all add: path_name_ok_def path_char_ok_def is_alnum_def)
  have join: "tx_join std_text = join_with" by (simp add: std_text_def)
  show ?thesis using valid_path_split [OF std.text_lib_axioms names refl] by (simp add: join)
qed

text \<open>The table-parameter check accepts well-formed, pairwise distinct field names within
  the length limits and returns them unchanged; a repeated key or value field is refused.\<close>
theorem create_table_param_check:
  assumes "text_lib T" and "ks \<noteq> []" and "vs \<noteq> []"
    and "\<forall>f \<in> set ks \<union> set vs. check_field_name f = Inr () \<and> length f \<le> 64"
    and "list_all table_char_ok t" and "length (get_table_name t) \<le> 50"
    and "length (tx_join T CHR '','' ks) \<le> 64" and "length (tx_join T CHR '','' vs) \<le> 1024"
  shows "check_create_table_param T t (tx_join T CHR '','' ks) (tx_join T CHR '','' vs) =
      Inr (tx_join T CHR '','' ks, tx_join T CHR '','' vs) \<longleftrightarrow> distinct ks \<and> distinct vs"
proof -
  note lib = assms(1)
  have eq: "map (tx_trim T) (tx_split T CHR '','' False (tx_join T CHR '','' ks)) = ks"
      "map (tx_trim T) (tx_split T CHR '','' False (tx_join T CHR '','' vs)) = vs"
    using text_lib.create_table_fields [OF lib assms(2)] text_lib.create_table_fields [OF lib assms(3)]
      assms(4) by auto
  have short: "\<not> list_ex (\<lambda>s. 64 < length s) ks" "\<not> list_ex (\<lambda>s. 64 < length s) vs"
    using assms(4) by (force simp: list_ex_iff)+
  have valid: "check_name_validate t ks vs = Inr () \<longleftrightarrow> distinct ks \<and> distinct vs"
    using assms(4,5) by (auto simp: check_name_validate_ok)
  show ?thesis
    using valid short assms(6-8)
    by (cases "check_name_validate t ks vs")
      (simp_all add: check_create_table_param_def Let_def eq SYS_TABLE_KEY_FIELD_NAME_MAX_LENGTH_def
        SYS_TABLE_KEY_FIELD_MAX_LENGTH_def SYS_TABLE_VALUE_FIELD_MAX_LENGTH_def
        USER_TABLE_NAME_MAX_LENGTH_def USER_TABLE_NAME_MAX_LENGTH_S_def)
qed

theorem create_table_param_check_witness:
  "check_create_table_param std_text ''t_user'' ''id'' ''name,age'' = Inr (''id'', ''name,age'')
    \<and> check_create_table_param std_text ''t_user'' ''id'' ''age,age'' \<noteq> Inr (''id'', ''age,age'')"
proof -
  have ok: "check_field_name f = Inr () \<and> length f \<le> 64" if "f \<in> {''id'', ''name'', ''age''}" for f
    using that by (auto simp: check_field_name_def field_char_ok_def is_alnum_def)
  have t: "list_all table_char_ok ''t_user''" "length (get_table_name ''t_user'') \<le> 50"
    by (simp_all add: table_char_ok_def is_alnum_def get_table_name_def)
  have join: "tx_join std_text = join_with" by (simp add: std_text_def)
  show ?thesis
    using create_table_param_check [OF std.text_lib_axioms _ _ _ t, of "[''id'']" "[''name'', ''age'']"]
      create_table_param_check [OF std.text_lib_axioms _ _ _ t, of "[''id'']" "[''age'', ''age'']"] ok
    by (simp add: join)
qed

end
