(* ===== verification/DagExecute.thy ===== *)
theory DagExecute imports Serializable DagTransferSpec ExecMessages ParallelConfig Utilities begin

text \<open>
  Parallel execution of a batch in \<open>src/executor/TransactionExecutor.cpp\<close>:
  \<open>dagExecuteTransactions\<close> (collecting the calls of a batch), \<open>getTxCriticals\<close> (the critical
  fields of a call) and \<open>dagExecuteTransactionsForEvm\<close> (sending back the calls without
  critical fields, running the others over the graph of \<open>TxDAG\<close>).  The threads are those of
  theory Scheduler; here is what each vertex runs.

  External code is a parameter: the transaction pool, the ABI parser and decoder, and the
  precompiled contracts by address.
\<close>

section \<open>Collecting the batch\<close>

text \<open>
  \<open>tbb::parallel_for\<close> visits the inputs in an unspecified order, the argument \<open>order\<close>.  A
  message of another type leaves its slot null.
\<close>

record batch =
  b_params :: "call_parameters option list"
  b_hashes :: "bytes list"
  b_indexes :: "nat list"

definition collect_one :: "execution_message list \<Rightarrow> nat \<Rightarrow> batch \<Rightarrow> batch" where
  "collect_one inputs i b =
     (let m = inputs ! i in
      case em_type m of
        MSG_TXHASH \<Rightarrow> b\<lparr>b_hashes := b_hashes b @ [em_transactionHash m], b_indexes := b_indexes b @ [i]\<rparr>
      | MSG_MESSAGE \<Rightarrow> b\<lparr>b_params := (b_params b)[i := create_call_parameters m False]\<rparr>
      | _ \<Rightarrow> b)"

definition collect_batch :: "execution_message list \<Rightarrow> nat list \<Rightarrow> batch" where
  "collect_batch inputs order =
     fold (collect_one inputs) order
       \<lparr>b_params = replicate (length inputs) None, b_hashes = [], b_indexes = []\<rparr>"

text \<open>Filling the slots from the pool's transactions, given as sender text and input.\<close>

definition fill_batch ::
    "execution_message list \<Rightarrow> (string \<times> bytes) list \<Rightarrow> batch \<Rightarrow> call_parameters option list" where
  "fill_batch inputs txs b =
     fold (\<lambda>(i, tx) ps. ps[i := Some (create_call_parameters_tx (inputs ! i) (fst tx) (snd tx))])
       (zip (b_indexes b) txs) (b_params b)"

text \<open>\<open>dagExecuteTransactions\<close> up to the call of the EVM branch; \<open>None\<close> is the pool's error.\<close>

definition dag_execute_params ::
    "(bytes list \<Rightarrow> (string \<times> bytes) list option) \<Rightarrow> execution_message list \<Rightarrow> nat list
     \<Rightarrow> (call_parameters option list \<times> bytes list) option" where
  "dag_execute_params fill_block inputs order =
     (let b = collect_batch inputs order in
      if b_hashes b \<noteq> []
      then (case fill_block (b_hashes b) of
              None \<Rightarrow> None
            | Some txs \<Rightarrow> Some (fill_batch inputs txs b, b_hashes b))
      else Some (b_params b, b_hashes b))"

section \<open>Critical fields\<close>

record precompiled_info =
  is_parallel :: bool
  parallel_tag :: "bytes \<Rightarrow> bool \<Rightarrow> string list"

text \<open>
  \<open>config\<close> is \<open>getParallelConfig\<close> on the block's storage, \<open>parser\<close> is \<open>ABIFunc::parser\<close> with
  \<open>getParamsType\<close>, \<open>abi_out\<close> is \<open>abiOutByFuncSelector\<close>.  The result is \<open>None\<close> where the
  selector is read out of bounds.
\<close>

record criticals_env =
  ce_precompiled :: "string \<Rightarrow> precompiled_info option"
  ce_isWasm :: bool
  ce_config :: "string \<Rightarrow> u32 \<Rightarrow> para_config option"
  ce_parser :: "string \<Rightarrow> string list option"
  ce_abi_out :: "bytes \<Rightarrow> string list \<Rightarrow> string list option"

definition get_tx_criticals :: "criticals_env \<Rightarrow> call_parameters \<Rightarrow> string list option" where
  "get_tx_criticals E p =
     (if cp_create p then Some []
      else case ce_precompiled E (receiveAddress p) of
        Some c \<Rightarrow>
          (if is_parallel c
           then Some (map (\<lambda>t. t @ receiveAddress p) (parallel_tag c (cp_data p) (ce_isWasm E)))
           else Some [])
      | None \<Rightarrow>
        (case get_param_func (cp_data p) of
           None \<Rightarrow> None
         | Some selector \<Rightarrow>
           (case ce_config E (receiveAddress p) selector of
              None \<Rightarrow> Some []
            | Some config \<Rightarrow>
              (case ce_parser E (function_name config) of
                 None \<Rightarrow> Some []
               | Some types \<Rightarrow>
                 (let criticalSize = unat (ucast (critical_size config) :: u64) in
                  if length types < criticalSize then Some []
                  else case ce_abi_out E (get_param_data (cp_data p)) (take criticalSize types) of
                    None \<Rightarrow> Some []
                  | Some res \<Rightarrow> Some (map (\<lambda>t. t @ receiveAddress p) res))))))"

section \<open>The EVM branch\<close>

text \<open>Calls without critical fields are answered \<open>SEND_BACK\<close>; the others are run by the graph.\<close>

definition send_back ::
    "execution_message \<Rightarrow> bytes list \<Rightarrow> nat \<Rightarrow> call_parameters \<Rightarrow> execution_message" where
  "send_back m0 hashes i p =
     (let m = (to_execution_result m0 p)\<lparr>em_type := MSG_SEND_BACK\<rparr>
      in if i < length hashes then m\<lparr>em_transactionHash := hashes ! i\<rparr> else m)"

definition evm_initial_results ::
    "execution_message \<Rightarrow> bytes list \<Rightarrow> string list list \<Rightarrow> call_parameters list
     \<Rightarrow> execution_message option list" where
  "evm_initial_results m0 hashes crits inputs =
     map (\<lambda>i. if crits ! i = [] then Some (send_back m0 hashes i (inputs ! i)) else None)
       [0..<length inputs]"

text \<open>
  \<open>setTxExecuteFunc\<close> with the guard of \<open>executeUnit\<close>: vertices whose executive was never
  created run nothing; an exception of \<open>start\<close> leaves the result unset.
\<close>

definition evm_execute_tx ::
    "execution_message \<Rightarrow> (call_parameters \<Rightarrow> 's \<Rightarrow> call_parameters option \<times> 's) \<Rightarrow>
     string list list \<Rightarrow> call_parameters list \<Rightarrow> nat \<Rightarrow>
     execution_message option list \<times> 's \<Rightarrow> execution_message option list \<times> 's" where
  "evm_execute_tx m0 start crits inputs i rs =
     (if crits ! i = [] then rs
      else let p = inputs ! i in
        case start p (snd rs) of
          (None, s') \<Rightarrow> (fst rs, s')
        | (Some out, s') \<Rightarrow>
            ((fst rs)[i := Some (to_execution_result_of m0 (cp_contextID p) (cp_seq p) out)], s'))"

text \<open>
  The whole branch, given the order in which the threads ran the vertices: the log of a
  finished run of the scheduler.
\<close>

definition dag_execute_evm ::
    "execution_message \<Rightarrow> (call_parameters \<Rightarrow> 's \<Rightarrow> call_parameters option \<times> 's) \<Rightarrow> bytes list \<Rightarrow>
     string list list \<Rightarrow> call_parameters list \<Rightarrow> nat list \<Rightarrow> 's \<Rightarrow>
     execution_message option list \<times> 's" where
  "dag_execute_evm m0 start hashes crits inputs log s =
     fold (evm_execute_tx m0 start crits inputs) log
       (evm_initial_results m0 hashes crits inputs, s)"

end
