(* ===== verification/Liveness.thy ===== *)
theory Liveness imports Serializable begin

text \<open>
  From every state that the threads can reach, some continuation finishes: all transactions
  are run, all threads leave the unit and \<open>hasFinished\<close> holds.  The continuation is built in
  three phases: run what is left, let the busy threads end, let the waiting threads leave.
\<close>

lemma sched_run_append:
  "sched_run s' ls' s'' \<Longrightarrow> sched_run s ls s' \<Longrightarrow> sched_run s (ls @ ls') s''"
proof (induction rule: sched_run.induct)
  case (run_nil s')
  then show ?case by simp
next
  case (run_snoc s' ls' t l u)
  have "sched_run s ((ls @ ls') @ [l]) u"
    by (rule sched_run.run_snoc [OF run_snoc.IH [OF run_snoc.prems] run_snoc.hyps(2)])
  then show ?case by simp
qed

lemma sched_run_one: "sched_step l s s' \<Longrightarrow> sched_run s [l] s'"
  using sched_run.run_snoc [OF sched_run.run_nil] by fastforce

lemma sched_run_Cons: "sched_step l s s' \<Longrightarrow> sched_run s' ls s'' \<Longrightarrow> sched_run s (l # ls) s''"
  using sched_run_append [OF _ sched_run_one] by fastforce

lemma step_log: "sched_step l s s' \<Longrightarrow> set (s_log s) \<subseteq> set (s_log s')"
  by (induction rule: sched_step.induct) auto

lemma step_workers: "sched_step l s s' \<Longrightarrow> length (s_workers s') = length (s_workers s)"
  by (induction rule: sched_step.induct) simp_all

lemma productive_decreases:
  assumes "sched_step l s s'" and "productive l" and "sched_inv D s"
  shows "potential D s' < potential D s"
  using step_potential [OF assms(1,3)] assms(2) by simp

lemma step_potential_le:
  assumes "sched_step l s s'" and "sched_inv D s"
  shows "potential D s' \<le> potential D s"
  using step_potential [OF assms] by linarith

definition all_run :: "dag \<Rightarrow> sched \<Rightarrow> bool" where
  "all_run D s \<longleftrightarrow> set (s_log s) = {0..<length (vtxs D)}"

lemma all_run_step:
  assumes "sched_step l s s'" and "sched_inv D s" and "all_run D s"
  shows "all_run D s'"
  using step_log [OF assms(1)] sched_invD(7) [OF sched_step_inv [OF assms(1,2)]] assms(3)
  by (fastforce simp: all_run_def)

lemma reach_all_run:
  assumes "sched_inv D s" and "s_workers s \<noteq> []"
  shows "\<exists>ls s'. sched_run s ls s' \<and> sched_inv D s' \<and> all_run D s'"
  using assms
proof (induction "potential D s" arbitrary: s rule: less_induct)
  case (less s)
  show ?case
  proof (cases "all_run D s")
    case True
    then show ?thesis using sched_run.run_nil less.prems by blast
  next
    case False
    then consider l s' where "sched_step l s s'" "productive l"
      | s1 s2 where "sched_step Enter s s1" "sched_step Pop s1 s2"
      using sched_progress [OF less.prems] by (auto simp: all_run_def)
    then show ?thesis
    proof cases
      case (1 l s')
      have "s_workers s' \<noteq> []" using step_workers [OF 1(1)] less.prems(2) by auto
      then obtain ls t where "sched_run s' ls t" "sched_inv D t" "all_run D t"
        using less.hyps [OF productive_decreases [OF 1 less.prems(1)]
          sched_step_inv [OF 1(1) less.prems(1)]] by blast
      then show ?thesis using sched_run_Cons [OF 1(1)] by blast
    next
      case (2 s1 s2)
      have i1: "sched_inv D s1" using sched_step_inv [OF 2(1) less.prems(1)] .
      have "potential D s2 < potential D s"
        using productive_decreases [OF 2(2) _ i1] step_potential_le [OF 2(1) less.prems(1)] by simp
      moreover have "s_workers s2 \<noteq> []"
        using step_workers [OF 2(1)] step_workers [OF 2(2)] less.prems(2) by auto
      ultimately obtain ls t where "sched_run s2 ls t" "sched_inv D t" "all_run D t"
        using less.hyps sched_step_inv [OF 2(2) i1] by blast
      then show ?thesis using sched_run_Cons [OF 2(1) sched_run_Cons [OF 2(2)]] by blast
    qed
  qed
qed

lemma reach_quiet:
  assumes "sched_inv D s" and "all_run D s"
  shows "\<exists>ls s'. sched_run s ls s' \<and> sched_inv D s' \<and> all_run D s'
    \<and> (\<forall>x \<in> set (s_workers s'). \<not> busy x)"
  using assms
proof (induction "potential D s" arbitrary: s rule: less_induct)
  case (less s)
  show ?case
  proof (cases "\<exists>w < length (s_workers s). busy (s_workers s ! w)")
    case True
    then obtain l s' where s': "sched_step l s s'" "productive l"
      using busy_step [OF less.prems(1)] by blast
    obtain ls t where "sched_run s' ls t" "sched_inv D t" "all_run D t"
        "\<forall>x \<in> set (s_workers t). \<not> busy x"
      using less.hyps [OF productive_decreases [OF s' less.prems(1)]
        sched_step_inv [OF s'(1) less.prems(1)] all_run_step [OF s'(1) less.prems]] by blast
    then show ?thesis using sched_run_Cons [OF s'(1)] by blast
  next
    case False
    then have "\<forall>x \<in> set (s_workers s). \<not> busy x" by (auto simp: in_set_conv_nth)
    then show ?thesis using sched_run.run_nil less.prems by blast
  qed
qed

lemma queue_empty:
  assumes "sched_inv D s" and "all_run D s"
  shows "top_level (m_dag (s_tx s)) = []"
proof (rule ccontr)
  assume "top_level (m_dag (s_tx s)) \<noteq> []"
  then obtain v where v: "v \<in> set (top_level (m_dag (s_tx s)))" using list.set_sel(1) by blast
  then have n: "v < length (vtxs D)" by (rule sched_invD(6) [OF assms(1)])
  then have "v \<in> set (s_log s)" using assms(2) by (simp add: all_run_def)
  then have "0 < count_list (s_log s) v" "0 < count_list (top_level (m_dag (s_tx s))) v"
    using v by (simp_all add: count_list_pos_iff)
  then show False using sched_invD(5) [OF assms(1) n] by (simp split: if_splits)
qed

text \<open>The number of threads inside the unit.\<close>

definition inside :: "sched \<Rightarrow> nat" where
  "inside s = sum_list (map (\<lambda>x. if x = Outside then 0 else 1) (s_workers s))"

lemma reach_finished:
  assumes "sched_inv D s" and "all_run D s" and "\<forall>x \<in> set (s_workers s). \<not> busy x"
  shows "\<exists>ls s'. sched_run s ls s' \<and> sched_inv D s' \<and> has_finished (s_tx s')"
  using assms
proof (induction "inside s" arbitrary: s rule: less_induct)
  case (less s)
  show ?case
  proof (cases "\<exists>w c. w < length (s_workers s) \<and> s_workers s ! w = Waiting c")
    case True
    then obtain w c where w: "w < length (s_workers s)" "s_workers s ! w = Waiting c" by blast
    have "wait_pop True True (m_dag (s_tx s)) = Some (INVALID_ID, m_dag (s_tx s))"
      using queue_empty [OF less.prems(1,2)] by (simp add: wait_pop_def)
    then obtain s' where s': "sched_step Leave s s'" "s_workers s' = (s_workers s)[w := Outside]"
      using sched_step.leave [OF w] by fastforce
    have "inside s' < inside s"
      using sum_list_map_update [OF w(1), of "\<lambda>x. if x = Outside then 0 else 1" Outside] w(2) s'(2)
      by (simp add: inside_def)
    moreover have "\<forall>x \<in> set (s_workers s'). \<not> busy x"
      using less.prems(3) set_update_subset_insert [of "s_workers s" w Outside] s'(2) by auto
    ultimately obtain ls t where "sched_run s' ls t" "sched_inv D t" "has_finished (s_tx t)"
      using less.hyps [OF _ sched_step_inv [OF s'(1) less.prems(1)] all_run_step [OF s'(1) less.prems(1,2)]]
      by blast
    then show ?thesis using sched_run_Cons [OF s'(1)] by blast
  next
    case False
    have "local_cnt x = 0" if x: "x \<in> set (s_workers s)" for x
    proof -
      obtain w where w: "w < length (s_workers s)" "x = s_workers s ! w"
        using x by (metis in_set_conv_nth)
      then have "x \<noteq> Waiting c" for c using False by metis
      moreover have "\<not> busy x" using less.prems(3) x by blast
      ultimately show ?thesis by (cases x) auto
    qed
    then have "sum_list (map local_cnt (s_workers s)) = 0" by (intro sum_list_map_zero)
    moreover have "length (s_log s) = length (vtxs D)"
      using distinct_card [OF sched_log_distinct [OF less.prems(1)]] less.prems(2)
      by (simp add: all_run_def)
    ultimately have "has_finished (s_tx s)"
      using sched_invD(9,10) [OF less.prems(1)] unfolding has_finished_def by linarith
    then show ?thesis using sched_run.run_nil less.prems(1) by blast
  qed
qed

lemma can_finish:
  assumes "sched_inv D s" and "s_workers s \<noteq> []"
  shows "\<exists>ls s'. sched_run s ls s' \<and> sched_inv D s' \<and> has_finished (s_tx s')"
proof -
  obtain l1 s1 where 1: "sched_run s l1 s1" "sched_inv D s1" "all_run D s1"
    using reach_all_run [OF assms] by blast
  obtain l2 s2 where 2: "sched_run s1 l2 s2" "sched_inv D s2" "all_run D s2"
      "\<forall>x \<in> set (s_workers s2). \<not> busy x"
    using reach_quiet [OF 1(2,3)] by blast
  obtain l3 s3 where "sched_run s2 l3 s3" "sched_inv D s3" "has_finished (s_tx s3)"
    using reach_finished [OF 2(2-4)] by blast
  then show ?thesis using 1(1) 2(1) sched_run_append by blast
qed

lemma finished_run_exists:
  assumes "fits n crits" and "0 < k"
  shows "\<exists>td ls s. txdag_init n crits new_tx_dag = Some td \<and> sched_run (sched_start td k) ls s
    \<and> has_finished (s_tx s)"
proof -
  obtain td where td: "txdag_init n crits new_tx_dag = Some td"
    using txdag_init_Some [OF assms(1)] by blast
  have "sched_inv (m_dag td) (sched_start td k)"
    by (rule run_from_start [OF assms(1) td sched_run.run_nil])
  moreover have "s_workers (sched_start td k) \<noteq> []" using assms(2) by (simp add: sched_start_def)
  ultimately show ?thesis using can_finish td by blast
qed

lemma run_workers: "sched_run s ls s' \<Longrightarrow> length (s_workers s') = length (s_workers s)"
  by (induction rule: sched_run.induct) (simp_all add: step_workers)

end
