(* ===== verification/DagSerial.thy ===== *)
theory DagSerial imports DagExecute Liveness begin

text \<open>
  The parallel EVM branch against serial execution.  \<open>starts_commute\<close> is the condition on two
  calls under which their order cannot be observed.  The first lemmas lift it to the whole
  branch; the second group instantiates the calls with the DAG-transfer contract, whose
  calls commute on balances when they have no critical field in common.
\<close>

section \<open>Calls that commute\<close>

definition starts_commute ::
    "(call_parameters \<Rightarrow> 's \<Rightarrow> 'r \<times> 's) \<Rightarrow> call_parameters \<Rightarrow> call_parameters \<Rightarrow> bool" where
  "starts_commute start p q \<longleftrightarrow> (\<forall>s.
     fst (start p (snd (start q s))) = fst (start p s)
     \<and> fst (start q (snd (start p s))) = fst (start q s)
     \<and> snd (start p (snd (start q s))) = snd (start q (snd (start p s))))"

lemma evm_execute_tx_commute:
  assumes "i \<noteq> j"
    and "crits ! i \<noteq> [] \<Longrightarrow> crits ! j \<noteq> [] \<Longrightarrow> starts_commute start (inputs ! i) (inputs ! j)"
  shows "evm_execute_tx m0 start crits inputs i (evm_execute_tx m0 start crits inputs j rs)
    = evm_execute_tx m0 start crits inputs j (evm_execute_tx m0 start crits inputs i rs)"
proof (cases "crits ! i = [] \<or> crits ! j = []")
  case True
  then show ?thesis by (auto simp: evm_execute_tx_def)
next
  case False
  let ?p = "inputs ! i" and ?q = "inputs ! j" and ?s = "snd rs"
  from False assms(2) have "starts_commute start ?p ?q" by simp
  then have c: "fst (start ?p (snd (start ?q ?s))) = fst (start ?p ?s)"
      "fst (start ?q (snd (start ?p ?s))) = fst (start ?q ?s)"
      "snd (start ?p (snd (start ?q ?s))) = snd (start ?q (snd (start ?p ?s)))"
    unfolding starts_commute_def by blast+
  obtain a s1 b s2 where ab: "start ?p ?s = (a, s1)" "start ?q ?s = (b, s2)"
    by (metis surj_pair)
  have "start ?p s2 = (a, snd (start ?q s1))" "start ?q s1 = (b, snd (start ?q s1))"
    using c ab by (auto intro!: prod_eqI)
  then obtain t where "start ?p s2 = (a, t)" "start ?q s1 = (b, t)" by blast
  with ab False assms(1) show ?thesis
    by (auto simp: evm_execute_tx_def Let_def list_update_swap split: option.split)
qed

definition crit_clash :: "string list list \<Rightarrow> nat \<Rightarrow> nat \<Rightarrow> bool" where
  "crit_clash crits i j \<longleftrightarrow> set (crits ! i) \<inter> set (crits ! j) \<noteq> {}"

lemma evm_independent:
  assumes "\<And>i j. i < j \<Longrightarrow> crits ! i \<noteq> [] \<Longrightarrow> crits ! j \<noteq> [] \<Longrightarrow> \<not> crit_clash crits i j \<Longrightarrow>
      j < length inputs \<Longrightarrow> starts_commute start (inputs ! i) (inputs ! j)"
  shows "independent_steps
    (\<lambda>i rs. if i < length inputs then evm_execute_tx m0 start crits inputs i rs else rs)
    (crit_clash crits)"
proof
  fix i j :: nat and rs
  assume "\<not> crit_clash crits i j" and "i < j"
  then show "(if i < length inputs then evm_execute_tx m0 start crits inputs i
        (if j < length inputs then evm_execute_tx m0 start crits inputs j rs else rs)
        else (if j < length inputs then evm_execute_tx m0 start crits inputs j rs else rs))
    = (if j < length inputs then evm_execute_tx m0 start crits inputs j
        (if i < length inputs then evm_execute_tx m0 start crits inputs i rs else rs)
        else (if i < length inputs then evm_execute_tx m0 start crits inputs i rs else rs))"
    using assms [of i j] evm_execute_tx_commute [of i j crits start inputs m0 rs] by auto
qed

lemma fold_guard:
  "set xs \<subseteq> {0..<n} \<Longrightarrow> fold (\<lambda>i rs. if i < n then f i rs else rs) xs x = fold f xs x"
  by (induction xs arbitrary: x) auto

lemma dag_execute_evm_serial:
  assumes "fits (length inputs) crits" and "txdag_init (length inputs) crits new_tx_dag = Some td"
    and "sched_run (sched_start td k) ls s" and "has_finished (s_tx s)"
    and comm: "\<And>i j. i < j \<Longrightarrow> crits ! i \<noteq> [] \<Longrightarrow> crits ! j \<noteq> [] \<Longrightarrow> \<not> crit_clash crits i j \<Longrightarrow>
      j < length inputs \<Longrightarrow> starts_commute start (inputs ! i) (inputs ! j)"
  shows "dag_execute_evm m0 start hashes crits inputs (s_log s) x
    = dag_execute_evm m0 start hashes crits inputs [0..<length inputs] x"
proof -
  let ?n = "length inputs"
  let ?f = "evm_execute_tx m0 start crits inputs"
  let ?g = "\<lambda>i rs. if i < ?n then ?f i rs else rs"
  have "fold ?g (s_log s) y = fold ?g [0..<?n] y" for y
  proof (rule log_serial [OF assms(1-4)])
    show "independent_steps ?g (crit_clash crits)" by (rule evm_independent) (rule comm)
  qed (simp add: crit_clash_def)
  moreover have "fold ?g (s_log s) y = fold ?f (s_log s) y" for y
    using finished_permutation(2) [OF assms(1-4)] by (intro fold_guard) simp
  moreover have "fold ?g [0..<?n] y = fold ?f [0..<?n] y" for y
    by (intro fold_guard) simp
  ultimately show ?thesis by (simp add: dag_execute_evm_def)
qed

text \<open>A representation of the state that the calls respect carries over to the branch.\<close>

lemma dag_execute_evm_simulation:
  assumes "R s m"
    and sim: "\<And>p s m. p \<in> set inputs \<Longrightarrow> R s m \<Longrightarrow>
      fst (start p s) = fst (start' p m) \<and> R (snd (start p s)) (snd (start' p m))"
    and "set log \<subseteq> {0..<length inputs}"
  shows "fst (dag_execute_evm m0 start hashes crits inputs log s)
      = fst (dag_execute_evm m0 start' hashes crits inputs log m)
    \<and> R (snd (dag_execute_evm m0 start hashes crits inputs log s))
        (snd (dag_execute_evm m0 start' hashes crits inputs log m))"
proof -
  have "fst (fold (evm_execute_tx m0 start crits inputs) log (r, s))
      = fst (fold (evm_execute_tx m0 start' crits inputs) log (r, m))
    \<and> R (snd (fold (evm_execute_tx m0 start crits inputs) log (r, s)))
        (snd (fold (evm_execute_tx m0 start' crits inputs) log (r, m)))" for r
    using assms(1,3)
  proof (induction log arbitrary: r s m)
    case Nil
    then show ?case by simp
  next
    case (Cons i log)
    have i: "inputs ! i \<in> set inputs" using Cons.prems(2) by simp
    obtain a s1 a' m1 where st: "start (inputs ! i) s = (a, s1)" "start' (inputs ! i) m = (a', m1)"
      by (metis surj_pair)
    have "a = a'" "R s1 m1" using sim [OF i Cons.prems(1)] st by auto
    then show ?case
      using Cons st by (auto simp: evm_execute_tx_def Let_def split: option.split)
  qed
  then show ?thesis by (simp add: dag_execute_evm_def)
qed

section \<open>DAG-transfer calls\<close>

text \<open>
  \<open>dec\<close> is the external decoder of the call data, \<open>enc\<close> the encoder of the answer and
  \<open>finish\<close> what the executive makes of the answer and the gas.
\<close>

definition dt_info :: "(bytes \<Rightarrow> bool \<Rightarrow> dt_call) \<Rightarrow> precompiled_info" where
  "dt_info dec = \<lparr>is_parallel = True, parallel_tag = (\<lambda>d w. get_parallel_tag (dec d w))\<rparr>"

definition dt_start ::
    "'s storage_ops \<Rightarrow> (u256 \<Rightarrow> string) \<Rightarrow> (string \<Rightarrow> u256) \<Rightarrow> (dt_answer \<Rightarrow> bytes) \<Rightarrow>
     (call_parameters \<Rightarrow> bytes \<times> u64 \<Rightarrow> call_parameters) \<Rightarrow> (bytes \<Rightarrow> dt_call) \<Rightarrow>
     call_parameters \<Rightarrow> 's \<Rightarrow> call_parameters option \<times> 's" where
  "dt_start ops str num enc finish dec p s =
     (let (r, s') = dt_dispatch ops str num enc (dec (cp_data p)) s in (Some (finish p r), s'))"

definition dt_output :: "(dt_answer \<Rightarrow> bytes) \<Rightarrow> dt_answer \<Rightarrow> bytes \<times> u64" where
  "dt_output enc a =
     (let out = (if a = NoAnswer then [] else enc a)
      in (out, cal_total_gas (update_mem_used (of_nat (length out)) create_precompiled_gas)))"

definition dt_spec_start ::
    "(dt_answer \<Rightarrow> bytes) \<Rightarrow> (call_parameters \<Rightarrow> bytes \<times> u64 \<Rightarrow> call_parameters) \<Rightarrow>
     (bytes \<Rightarrow> dt_call) \<Rightarrow> call_parameters \<Rightarrow> balances \<Rightarrow> call_parameters option \<times> balances" where
  "dt_spec_start enc finish dec p m =
     (let (a, m') = dt_spec (dec (cp_data p)) m in (Some (finish p (dt_output enc a)), m'))"

lemma dt_dispatch_run:
  "dt_dispatch ops str num enc c s =
     (dt_output enc (fst (dt_run ops str num c s)), snd (dt_run ops str num c s))"
  by (simp add: dt_dispatch_def dt_output_def Let_def split: prod.split)

lemma dt_spec_start_commute:
  assumes "dt_keys (dec (cp_data p)) \<inter> dt_keys (dec (cp_data q)) = {}"
  shows "starts_commute (dt_spec_start enc finish dec) p q"
  using assms dt.answer_indep [OF assms] dt.effect_commute [OF assms]
    dt.answer_indep [of "dec (cp_data q)" "dec (cp_data p)"]
  by (simp add: starts_commute_def dt_spec_start_def Let_def case_prod_unfold Int_commute)

context dt_env
begin

definition represents :: "'s \<Rightarrow> 's \<Rightarrow> balances \<Rightarrow> bool" where
  "represents s0 s m \<longleftrightarrow> inv s \<and> m = dt_abs ops num s \<and> same_rest s0 s"

lemma dt_start_represents:
  assumes "represents s0 s m"
  shows "fst (dt_start ops str num enc finish dec p s) = fst (dt_spec_start enc finish dec p m)
    \<and> represents s0 (snd (dt_start ops str num enc finish dec p s))
        (snd (dt_spec_start enc finish dec p m))"
proof -
  have "inv s" "m = dt_abs ops num s" "same_rest s0 s"
    using assms by (simp_all add: represents_def)
  with dt_run_matches [OF this(1), of "dec (cp_data p)"] same_rest_trans [OF this(3)]
  show ?thesis
    by (auto simp: matches_def represents_def dt_start_def dt_spec_start_def dt_dispatch_run Let_def)
qed

end

lemma dt_criticals:
  assumes "ce_precompiled E addr = Some (dt_info dec)" and "receiveAddress p = addr"
    and "get_tx_criticals E p = Some cs" and "cs \<noteq> []"
  shows "set cs = (\<lambda>t. t @ addr) ` dt_keys (dec (cp_data p) (ce_isWasm E))"
proof -
  let ?c = "dec (cp_data p) (ce_isWasm E)"
  have "cs = map (\<lambda>t. t @ addr) (get_parallel_tag ?c)"
    using assms by (auto simp: get_tx_criticals_def dt_info_def split: if_splits)
  moreover from this assms(4) have "get_parallel_tag ?c \<noteq> []" by auto
  ultimately show ?thesis by (simp add: dt_keys_tags)
qed

lemma dt_inputs_commute:
  assumes "ce_precompiled E addr = Some (dt_info dec)" and "\<forall>p \<in> set inputs. receiveAddress p = addr"
    and "map (get_tx_criticals E) inputs = map Some crits" and "i < j" and "j < length inputs"
    and "crits ! i \<noteq> []" and "crits ! j \<noteq> []" and "\<not> crit_clash crits i j"
  shows "starts_commute (dt_spec_start enc finish (\<lambda>d. dec d (ce_isWasm E))) (inputs ! i) (inputs ! j)"
proof -
  have set: "set (crits ! x) = (\<lambda>t. t @ addr) ` dt_keys (dec (cp_data (inputs ! x)) (ce_isWasm E))"
    if "x < length inputs" "crits ! x \<noteq> []" for x
  proof -
    have len: "length crits = length inputs" using assms(3) map_eq_imp_length_eq by metis
    have "map (get_tx_criticals E) inputs ! x = map Some crits ! x" using assms(3) by simp
    then have "get_tx_criticals E (inputs ! x) = Some (crits ! x)" using that(1) len by simp
    moreover have "receiveAddress (inputs ! x) = addr" using assms(2) that(1) by simp
    ultimately show ?thesis using dt_criticals [OF assms(1)] that(2) by blast
  qed
  have "i < length inputs" using assms(4,5) by simp
  then have "dt_keys (dec (cp_data (inputs ! i)) (ce_isWasm E))
      \<inter> dt_keys (dec (cp_data (inputs ! j)) (ce_isWasm E)) = {}"
    using assms(8) set [of i] set [of j] assms(5-7) unfolding crit_clash_def by blast
  then show ?thesis by (rule dt_spec_start_commute)
qed

context dt_env
begin

lemma dt_parallel_serial:
  assumes "ce_precompiled E addr = Some (dt_info dec)" and "\<forall>p \<in> set inputs. receiveAddress p = addr"
    and "map (get_tx_criticals E) inputs = map Some crits"
    and "fits (length inputs) crits" and "txdag_init (length inputs) crits new_tx_dag = Some td"
    and "sched_run (sched_start td k) ls s" and "has_finished (s_tx s)" and "inv st"
    and log: "log \<in> {s_log s, [0..<length inputs]}"
  shows "fst (dag_execute_evm m0 (dt_start ops str num enc finish (\<lambda>d. dec d (ce_isWasm E)))
        hashes crits inputs log st)
      = fst (dag_execute_evm m0 (dt_spec_start enc finish (\<lambda>d. dec d (ce_isWasm E)))
        hashes crits inputs [0..<length inputs] (dt_abs ops num st))
    \<and> represents st (snd (dag_execute_evm m0 (dt_start ops str num enc finish (\<lambda>d. dec d (ce_isWasm E)))
        hashes crits inputs log st))
      (snd (dag_execute_evm m0 (dt_spec_start enc finish (\<lambda>d. dec d (ce_isWasm E)))
        hashes crits inputs [0..<length inputs] (dt_abs ops num st)))"
proof -
  let ?S = "dt_spec_start enc finish (\<lambda>d. dec d (ce_isWasm E))"
  have par: "dag_execute_evm m0 ?S hashes crits inputs (s_log s) x
      = dag_execute_evm m0 ?S hashes crits inputs [0..<length inputs] x" for x
    by (rule dag_execute_evm_serial [OF assms(4-7)]) (rule dt_inputs_commute [OF assms(1-3)])
  have serial: "dag_execute_evm m0 ?S hashes crits inputs log x
      = dag_execute_evm m0 ?S hashes crits inputs [0..<length inputs] x" for x
  proof (cases "log = s_log s")
    case True
    show ?thesis unfolding True by (rule par)
  next
    case False
    then have eq: "log = [0..<length inputs]" using log by simp
    show ?thesis unfolding eq ..
  qed
  have start: "represents st st (dt_abs ops num st)" using assms(8) by (simp add: represents_def)
  have range: "set log \<subseteq> {0..<length inputs}"
  proof (cases "log = s_log s")
    case True
    show ?thesis unfolding True finished_permutation(2) [OF assms(4-7)] ..
  next
    case False
    then show ?thesis using log by simp
  qed
  show ?thesis
    unfolding serial [symmetric]
    by (rule dag_execute_evm_simulation [where R = "represents st", OF start _ range])
      (rule dt_start_represents)
qed

end

end
