(* ===== verification/ScaleUtils.thy ===== *)
theory ScaleUtils imports Decimal begin

text \<open>
  \<open>decodeCompactInteger\<close> and \<open>scaleEncodingLength\<close> (\<open>src/dag/ScaleUtils.cpp\<close>) over the
  parameter descriptions of \<open>src/dag/Abi.h\<close>, and \<open>canonizeParamter\<close> of \<open>src/dag/Abi.cpp\<close>.

  Positions are \<open>size_t\<close> and lengths \<open>unsigned\<close>, at their widths: \<open>size() - startPos\<close> wraps
  when the position is past the end, so a read past the end is a value of its own, \<open>ScOob\<close>
  (undefined behaviour in C++), beside \<open>ScNone\<close> (\<open>nullopt\<close>) and \<open>ScLen\<close>.  \<open>compactLen\<close>
  belongs to the external codec and is a parameter.
\<close>

datatype parameter_abi = ParameterAbi (pa_type: string) (pa_components: "parameter_abi list")

datatype scale_result = ScNone | ScOob | ScLen u64

section \<open>Compact integers\<close>

definition byte_at :: "bytes \<Rightarrow> u64 \<Rightarrow> u8 option" where
  "byte_at bs p = (if unat p < length bs then Some (bs ! unat p) else None)"

text \<open>\<open>encodedBytes.size() - startPos\<close> in \<open>size_t\<close>.\<close>

definition avail :: "bytes \<Rightarrow> u64 \<Rightarrow> u64" where
  "avail bs p = of_nat (length bs) - p"

text \<open>The accumulation loops, in 32 bits: \<open>number += byte * multiplier\<close>.\<close>

fun accumulate :: "bytes \<Rightarrow> u64 \<Rightarrow> nat \<Rightarrow> u32 \<Rightarrow> u32 \<Rightarrow> u32 option" where
  "accumulate bs p 0 mul number = Some number"
| "accumulate bs p (Suc n) mul number =
     (case byte_at bs p of
        None \<Rightarrow> None
      | Some b \<Rightarrow> accumulate bs (p + 1) n (mul * 256) (number + ucast b * mul))"

unbundle bit_operations_syntax

definition decode_compact_integer :: "bytes \<Rightarrow> u64 \<Rightarrow> scale_result" where
  "decode_compact_integer bs p =
     (if avail bs p < 1 then ScNone
      else case byte_at bs p of
        None \<Rightarrow> ScOob
      | Some b0 \<Rightarrow>
        (let flag = b0 AND 3 in
         if flag = 0 then ScLen (ucast (drop_bit 2 b0))
         else if flag = 1 then
           (if avail bs p < 2 then ScNone
            else case byte_at bs (p + 1) of
              None \<Rightarrow> ScOob
            | Some b1 \<Rightarrow> ScLen (ucast (drop_bit 2 (ucast (b0 AND 252) + ucast b1 * 256 :: u32))))
         else if flag = 2 then
           (if avail bs p < 4 then ScNone
            else case accumulate bs (p + 1) 3 256 (ucast b0) of
              None \<Rightarrow> ScOob
            | Some n \<Rightarrow> ScLen (ucast (drop_bit 2 n)))
         else
           (let cnt = (ucast (drop_bit 2 b0) :: u64) + 4 in
            if avail bs p < cnt + 1 then ScNone
            else case accumulate bs (p + 1) (unat cnt) 1 0 of
              None \<Rightarrow> ScOob
            | Some n \<Rightarrow> ScLen (ucast n))))"

section \<open>Type names\<close>

definition is_digit :: "char \<Rightarrow> bool" where
  "is_digit c \<longleftrightarrow> (let n = of_char c :: nat in 48 \<le> n \<and> n \<le> 57)"

text \<open>\<open>std::stoul\<close>: white space, a sign, digits, anything; \<open>None\<close> is an exception.\<close>

definition stoul :: "string \<Rightarrow> u64 option" where
  "stoul s =
     (let s1 = dropWhile (\<lambda>c. c = CHR '' '' \<or> (9 \<le> (of_char c :: nat) \<and> (of_char c :: nat) \<le> 13)) s;
          neg = (case s1 of c # _ \<Rightarrow> c = CHR ''-'' | [] \<Rightarrow> False);
          s2 = (case s1 of c # r \<Rightarrow> if c = CHR ''-'' \<or> c = CHR ''+'' then r else s1 | [] \<Rightarrow> []);
          ds = takeWhile is_digit s2
      in if ds = [] \<or> nat_of_dec ds \<ge> 2 ^ 64 then None
         else if neg then Some (- of_nat (nat_of_dec ds)) else Some (of_nat (nat_of_dec ds)))"

definition starts_with :: "string \<Rightarrow> string \<Rightarrow> bool" where
  "starts_with s p \<longleftrightarrow> take (length p) s = p"

text \<open>What follows the last occurrence of \<open>c\<close>, and what precedes it.\<close>

definition after_last :: "char \<Rightarrow> string \<Rightarrow> string" where
  "after_last c s = rev (takeWhile (\<lambda>x. x \<noteq> c) (rev s))"

definition before_last :: "char \<Rightarrow> string \<Rightarrow> string" where
  "before_last c s = rev (tl (dropWhile (\<lambda>x. x \<noteq> c) (rev s)))"

lemma before_last_shorter: "c \<in> set s \<Longrightarrow> length (before_last c s) < length s"
proof -
  assume "c \<in> set s"
  then have "dropWhile (\<lambda>x. x \<noteq> c) (rev s) \<noteq> []" by (auto simp: dropWhile_eq_Nil_conv)
  then have "length (tl (dropWhile (\<lambda>x. x \<noteq> c) (rev s))) < length (dropWhile (\<lambda>x. x \<noteq> c) (rev s))"
    by simp
  also have "\<dots> \<le> length s" using length_dropWhile_le [of _ "rev s"] by simp
  finally show ?thesis by (simp add: before_last_def)
qed

section \<open>Encoded length\<close>

fun abi_size :: "parameter_abi \<Rightarrow> nat" where
  "abi_size (ParameterAbi t cs) = length t + 1 + sum_list (map abi_size cs)"

text \<open>
  \<open>scale_len\<close> is \<open>scaleEncodingLength\<close>; \<open>scale_elems n\<close> is its loop over the \<open>n\<close> elements left
  of an array and \<open>scale_tuple\<close> the loop over the components of a tuple, both with the length
  so far and the moving position.
\<close>

function (sequential) scale_len ::
    "(u32 \<Rightarrow> u32) \<Rightarrow> parameter_abi \<Rightarrow> bytes \<Rightarrow> u64 \<Rightarrow> scale_result"
  and scale_elems ::
    "(u32 \<Rightarrow> u32) \<Rightarrow> nat \<Rightarrow> parameter_abi \<Rightarrow> bytes \<Rightarrow> u64 \<Rightarrow> u32 \<Rightarrow> scale_result"
  and scale_tuple ::
    "(u32 \<Rightarrow> u32) \<Rightarrow> parameter_abi list \<Rightarrow> bytes \<Rightarrow> u64 \<Rightarrow> u32 \<Rightarrow> scale_result" where
  "scale_len clen (ParameterAbi ty cs) bs p =
     (if ty \<noteq> [] \<and> last ty = CHR '']'' then
        (if CHR ''['' \<notin> set ty then ScNone
         else let dim = after_last CHR ''['' ty; sub = ParameterAbi (before_last CHR ''['' ty) cs in
           if dim = '']''
           then (case decode_compact_integer bs p of
                   ScLen v \<Rightarrow> (let len = clen (ucast v)
                              in scale_elems clen (unat (ucast v :: u32)) sub bs (p + ucast len) len)
                 | r \<Rightarrow> r)
           else (case stoul dim of
                   None \<Rightarrow> ScNone
                 | Some v \<Rightarrow> scale_elems clen (unat (ucast v :: u32)) sub bs p 0))
      else if starts_with ty ''uint'' \<or> starts_with ty ''int'' then
        (case stoul (after_last CHR ''t'' ty) of
           None \<Rightarrow> ScNone
         | Some v \<Rightarrow> ScLen (ucast (drop_bit 3 (ucast v :: u32))))
      else if ty = ''string'' \<or> ty = ''bytes'' then
        (case decode_compact_integer bs p of
           ScLen v \<Rightarrow> ScLen (v + ucast (clen (ucast v)))
         | r \<Rightarrow> r)
      else if ty = ''bool'' \<or> ty = ''byte'' then ScLen 1
      else if starts_with ty ''bytes'' then
        (case stoul (after_last CHR ''s'' ty) of
           None \<Rightarrow> ScNone
         | Some v \<Rightarrow> ScLen (ucast (ucast v :: u32)))
      else if ty = ''tuple'' then scale_tuple clen cs bs p 0
      else ScNone)"
| "scale_elems clen 0 sub bs p len = ScLen (ucast len)"
| "scale_elems clen (Suc n) sub bs p len =
     (case scale_len clen sub bs p of
        ScLen v \<Rightarrow> scale_elems clen n sub bs (p + v) (len + ucast v)
      | r \<Rightarrow> r)"
| "scale_tuple clen [] bs p len = ScLen (ucast len)"
| "scale_tuple clen (c # cs) bs p len =
     (case scale_len clen c bs p of
        ScLen v \<Rightarrow> scale_tuple clen cs bs (p + v) (len + ucast v)
      | r \<Rightarrow> r)"
  by pat_completeness auto
termination
  by (relation "measures [\<lambda>x. case x of Inl (_, a, _) \<Rightarrow> 2 * abi_size a
        | Inr (Inl (_, _, a, _)) \<Rightarrow> 2 * abi_size a + 1
        | Inr (Inr (_, cs, _)) \<Rightarrow> 2 * sum_list (map abi_size cs) + 1,
      \<lambda>x. case x of Inr (Inl (_, n, _)) \<Rightarrow> n | Inr (Inr (_, cs, _)) \<Rightarrow> length cs | _ \<Rightarrow> 0]")
    (auto dest!: before_last_shorter)

section \<open>Canonical type names\<close>

function canonize_parameter :: "parameter_abi \<Rightarrow> string" where
  "canonize_parameter (ParameterAbi ty cs) =
     (if starts_with ty ''tuple''
      then ''('' @ concat (map (\<lambda>i. canonize_parameter (cs ! i)
               @ (if i \<noteq> length cs - 1 then '','' else '''')) [0..<length cs]) @ '')'' @ drop 5 ty
      else ty)"
  by pat_completeness auto
termination
proof (relation "measure abi_size")
  fix ty i and cs :: "parameter_abi list"
  assume "i \<in> set [0..<length cs]"
  then have "abi_size (cs ! i) \<le> sum_list (map abi_size cs)" by (simp add: sum_list_map_ge)
  then show "(cs ! i, ParameterAbi ty cs) \<in> measure abi_size" by simp
qed simp

section \<open>The compact encoding\<close>

text \<open>The reference encoding of the SCALE format for values below \<open>2 ^ 30\<close>.\<close>

definition le_bytes :: "nat \<Rightarrow> nat \<Rightarrow> bytes" where
  "le_bytes n v = map (\<lambda>i. of_nat (v div 256 ^ i)) [0..<n]"

definition compact_enc :: "nat \<Rightarrow> bytes" where
  "compact_enc n = (if n < 2 ^ 6 then le_bytes 1 (4 * n)
     else if n < 2 ^ 14 then le_bytes 2 (4 * n + 1) else le_bytes 4 (4 * n + 2))"

lemma unat_and_3: "unat (w AND 3 :: u8) = unat w mod 4"
proof -
  have "w AND 3 = take_bit 2 w" by (simp add: take_bit_eq_mask mask_eq_exp_minus_1)
  then show ?thesis by (simp add: take_bit_eq_mod unat_mod_distrib)
qed

lemma unat_and_252: "unat (w AND 252 :: u8) = unat w div 4 * 4"
proof -
  have m: "(252 :: u8) = push_bit 2 (mask 6)" by (simp add: mask_eq_exp_minus_1 push_bit_eq_mult)
  have "w AND 252 = push_bit 2 (drop_bit 2 w)"
  proof (rule bit_word_eqI)
    fix n
    assume "n < LENGTH(8)"
    then show "bit (w AND 252) n = bit (push_bit 2 (drop_bit 2 w)) n"
      unfolding m using le_add_diff_inverse2 [of 2 n] by (auto simp: bit_simps)
  qed
  then have "unat (w AND 252) = (unat w div 4 * 4) mod 256"
    by (simp add: push_bit_eq_mult drop_bit_eq_div unat_word_ariths mod_mult_left_eq)
  moreover have "unat w div 4 * 4 < 256" using unsigned_less [of w, where ?'a = nat] by simp
  ultimately show ?thesis by simp
qed

lemma byte_at_offset:
  assumes "length pre + length bs + length post < 2 ^ 64" and "k < length bs"
  shows "byte_at (pre @ bs @ post) (of_nat (length pre) + of_nat k) = Some (bs ! k)"
proof -
  have "unat (of_nat (length pre) + of_nat k :: u64) = length pre + k"
    using assms by (simp add: unat_of_nat take_bit_eq_mod flip: of_nat_add)
  then show ?thesis using assms(2) by (simp add: byte_at_def nth_append)
qed

lemma avail_offset:
  assumes "length pre + length bs < 2 ^ 64"
  shows "unat (avail (pre @ bs) (of_nat (length pre))) = length bs"
proof -
  have "avail (pre @ bs) (of_nat (length pre)) = of_nat (length bs)" by (simp add: avail_def)
  then show ?thesis using assms by (simp add: unat_of_nat take_bit_eq_mod)
qed

lemma accumulate_unat:
  assumes "\<And>k. k < n \<Longrightarrow> byte_at bs (p + of_nat k) = Some (f k)"
  shows "accumulate bs p n mul number =
    Some (number + mul * of_nat (\<Sum>k<n. unat (f k) * 256 ^ k))"
  using assms
proof (induction n arbitrary: p mul number f)
  case 0
  then show ?case by simp
next
  case (Suc n)
  have "byte_at bs p = Some (f 0)" using Suc.prems [of 0] by simp
  moreover have "accumulate bs (p + 1) n (mul * 256) (number + ucast (f 0) * mul) =
      Some (number + ucast (f 0) * mul + mul * 256 * of_nat (\<Sum>k<n. unat (f (Suc k)) * 256 ^ k))"
    using Suc.prems [of "Suc k" for k] by (intro Suc.IH) (simp add: add.assoc)
  moreover have "(\<Sum>k<Suc n. unat (f k) * 256 ^ k)
      = unat (f 0) + 256 * (\<Sum>k<n. unat (f (Suc k)) * 256 ^ k)"
    unfolding sum.lessThan_Suc_shift by (simp add: sum_distrib_left mult.assoc mult.left_commute)
  ultimately show ?case by (simp add: algebra_simps)
qed

lemma le_bytes_sum: "(\<Sum>k<n. (v :: nat) div 256 ^ k mod 256 * 256 ^ k) = v mod 256 ^ n"
proof (induction n)
  case 0
  then show ?case by simp
next
  case (Suc n)
  have "v mod 256 ^ Suc n = 256 ^ n * (v div 256 ^ n mod 256) + v mod 256 ^ n"
    by (metis mod_mult2_eq mult.commute power_Suc)
  with Suc show ?case by simp
qed

lemma accumulate_le:
  assumes "length pre + 4 + length post < 2 ^ 64" and "v < 2 ^ 32"
  shows "accumulate (pre @ le_bytes 4 v @ post) (of_nat (length pre) + 1) 3 256 (ucast (of_nat v :: u8))
    = Some (of_nat v)"
proof -
  let ?bs = "pre @ le_bytes 4 v @ post"
  have len: "length (le_bytes 4 v) = 4" by (simp add: le_bytes_def)
  have "byte_at ?bs (of_nat (length pre) + 1 + of_nat k) = Some (of_nat (v div 256 ^ Suc k))"
    if "k < 3" for k
  proof -
    have "byte_at ?bs (of_nat (length pre) + of_nat (Suc k)) = Some (le_bytes 4 v ! Suc k)"
      using that assms(1) len by (intro byte_at_offset) auto
    then show ?thesis using that by (simp add: le_bytes_def add.assoc)
  qed
  then have "accumulate ?bs (of_nat (length pre) + 1) 3 256 (ucast (of_nat v :: u8)) =
      Some (ucast (of_nat v :: u8)
        + 256 * of_nat (\<Sum>k<3. unat (of_nat (v div 256 ^ Suc k) :: u8) * 256 ^ k))"
    by (intro accumulate_unat) simp
  moreover have "ucast (of_nat v :: u8) = (of_nat (v mod 256) :: u32)"
    by (simp add: unsigned_of_nat take_bit_eq_mod)
  moreover have "(\<Sum>k<3. unat (of_nat (v div 256 ^ Suc k) :: u8) * 256 ^ k) = v div 256"
  proof -
    have "(\<Sum>k<3. unat (of_nat (v div 256 ^ Suc k) :: u8) * 256 ^ k)
        = (\<Sum>k<3. (v div 256) div 256 ^ k mod 256 * 256 ^ k)"
      by (intro sum.cong) (simp_all add: unat_of_nat take_bit_eq_mod div_mult2_eq)
    also have "\<dots> = v div 256" unfolding le_bytes_sum using assms(2) by simp
    finally show ?thesis .
  qed
  moreover have "of_nat (v mod 256) + 256 * of_nat (v div 256) = (of_nat v :: u32)"
    by (metis mod_mult_div_eq of_nat_add of_nat_mult of_nat_numeral)
  ultimately show ?thesis by (simp only:)
qed

lemma drop2_of_nat:
  "v < 2 ^ 8 \<Longrightarrow> drop_bit 2 (of_nat v :: u8) = of_nat (v div 4)"
  "v < 2 ^ 32 \<Longrightarrow> drop_bit 2 (of_nat v :: u32) = of_nat (v div 4)"
  by (simp_all add: word_unat_eq_iff drop_bit_eq_div unat_div_distrib unat_of_nat take_bit_eq_mod
      div_less_dividend)

lemma flag_of_nat: "(of_nat v :: u8) AND 3 = of_nat (v mod 4)"
proof -
  have "unat ((of_nat v :: u8) AND 3) = v mod 256 mod 4"
    by (simp add: unat_and_3 unat_of_nat take_bit_eq_mod)
  also have "v mod 256 mod 4 = v mod 4" by (simp add: mod_mod_cancel)
  finally show ?thesis by (simp add: word_unat_eq_iff unat_of_nat take_bit_eq_mod)
qed

lemma decode_one:
  assumes "v < 2 ^ 8" and "v mod 4 = 0" and "length pre + 1 + length post < 2 ^ 64"
  shows "decode_compact_integer (pre @ le_bytes 1 v @ post) (of_nat (length pre)) =
    ScLen (of_nat (v div 4))"
proof -
  let ?bs = "pre @ le_bytes 1 v @ post" and ?p = "of_nat (length pre) :: u64"
  have len: "length (le_bytes 1 v) = 1" by (simp add: le_bytes_def)
  have b0: "byte_at ?bs ?p = Some (of_nat v)"
    using byte_at_offset [of pre "le_bytes 1 v" post 0] assms(3) len by (simp add: le_bytes_def)
  have "unat (avail ?bs ?p) = 1 + length post"
    using avail_offset [of pre "le_bytes 1 v @ post"] assms(3) len by simp
  then have "\<not> avail ?bs ?p < 1" by (simp add: word_less_nat_alt)
  moreover have "ucast (of_nat (v div 4) :: u8) = (of_nat (v div 4) :: u64)"
    using assms(1) by (simp add: unsigned_of_nat take_bit_eq_mod)
  ultimately show ?thesis
    using flag_of_nat [of v] assms(1,2) drop2_of_nat(1) [of v]
    by (simp add: decode_compact_integer_def b0 del: One_nat_def)
qed

lemma decode_two:
  assumes "v < 2 ^ 16" and "v mod 4 = 1" and "length pre + 2 + length post < 2 ^ 64"
  shows "decode_compact_integer (pre @ le_bytes 2 v @ post) (of_nat (length pre)) =
    ScLen (of_nat (v div 4))"
proof -
  let ?bs = "pre @ le_bytes 2 v @ post" and ?p = "of_nat (length pre) :: u64"
  let ?b0 = "of_nat v :: u8" and ?b1 = "of_nat (v div 256) :: u8"
  have len: "length (le_bytes 2 v) = 2" by (simp add: le_bytes_def)
  have "byte_at ?bs (?p + of_nat k) = Some (le_bytes 2 v ! k)" if "k < 2" for k
    using that assms(3) len by (intro byte_at_offset) auto
  from this [of 0] this [of 1] have b: "byte_at ?bs ?p = Some ?b0" "byte_at ?bs (?p + 1) = Some ?b1"
    by (simp_all add: le_bytes_def)
  have "unat (avail ?bs ?p) = 2 + length post"
    using avail_offset [of pre "le_bytes 2 v @ post"] assms(3) len by simp
  then have av: "\<not> avail ?bs ?p < 1" "\<not> avail ?bs ?p < 2" by (simp_all add: word_less_nat_alt)
  have u0: "unat (?b0 AND 252) = v mod 256 div 4 * 4"
    by (simp add: unat_and_252 unat_of_nat take_bit_eq_mod)
  have u1: "unat ?b1 = v div 256" using assms(1) by (simp add: unat_of_nat take_bit_eq_mod)
  have "v div 4 = (v mod 256 + 4 * (64 * (v div 256))) div 4" by simp
  also have "\<dots> = v mod 256 div 4 + 64 * (v div 256)" by (subst div_mult_self2) simp_all
  finally have "v mod 256 div 4 * 4 + v div 256 * 256 = v div 4 * 4" by simp
  moreover have "ucast (?b0 AND 252) = (of_nat (v mod 256 div 4 * 4) :: u32)"
      "ucast ?b1 = (of_nat (v div 256) :: u32)"
    using u0 u1 by (metis of_nat_unat)+
  ultimately have "ucast (?b0 AND 252) + ucast ?b1 * 256 = (of_nat (v div 4 * 4) :: u32)"
    by (metis of_nat_add of_nat_mult of_nat_numeral)
  then have "drop_bit 2 (ucast (?b0 AND 252) + ucast ?b1 * 256 :: u32) = of_nat (v div 4)"
    using drop2_of_nat(2) [of "v div 4 * 4"] assms(1) by simp
  moreover have "ucast (of_nat (v div 4) :: u32) = (of_nat (v div 4) :: u64)"
    using assms(1) by (simp add: unsigned_of_nat take_bit_eq_mod)
  ultimately show ?thesis
    using flag_of_nat [of v] assms(2) av by (simp add: decode_compact_integer_def b)
qed

lemma decode_four:
  assumes "v < 2 ^ 32" and "v mod 4 = 2" and "length pre + 4 + length post < 2 ^ 64"
  shows "decode_compact_integer (pre @ le_bytes 4 v @ post) (of_nat (length pre)) =
    ScLen (of_nat (v div 4))"
proof -
  let ?bs = "pre @ le_bytes 4 v @ post" and ?p = "of_nat (length pre) :: u64"
  have len: "length (le_bytes 4 v) = 4" by (simp add: le_bytes_def)
  have b: "byte_at ?bs ?p = Some (of_nat v)"
    using byte_at_offset [of pre "le_bytes 4 v" post 0] assms(3) len by (simp add: le_bytes_def)
  have "unat (avail ?bs ?p) = 4 + length post"
    using avail_offset [of pre "le_bytes 4 v @ post"] assms(3) len by simp
  then have av: "\<not> avail ?bs ?p < 1" "\<not> avail ?bs ?p < 4" by (simp_all add: word_less_nat_alt)
  have "ucast (of_nat (v div 4) :: u32) = (of_nat (v div 4) :: u64)"
    using assms(1) by (simp add: unsigned_of_nat take_bit_eq_mod)
  then show ?thesis
    using flag_of_nat [of v] assms(2) av accumulate_le [OF assms(3,1)] drop2_of_nat(2) [OF assms(1)]
    by (simp add: decode_compact_integer_def b)
qed

text \<open>Decoding a compact integer at any position of a buffer returns the encoded value, for
  all three encodings of the values below \<open>2 ^ 30\<close>.\<close>
theorem compact_roundtrip:
  assumes "n < 2 ^ 30" and "length pre + 4 + length post < 2 ^ 64"
  shows "decode_compact_integer (pre @ compact_enc n @ post) (of_nat (length pre)) = ScLen (of_nat n)"
proof -
  have mods: "4 * n mod 4 = 0" "(4 * n + 1) mod 4 = 1" "(4 * n + 2) mod 4 = 2"
      "4 * n div 4 = n" "(4 * n + 1) div 4 = n" "(4 * n + 2) div 4 = n"
    by presburger+
  consider "n < 2 ^ 6" | "\<not> n < 2 ^ 6" "n < 2 ^ 14" | "\<not> n < 2 ^ 6" "\<not> n < 2 ^ 14" by linarith
  then show ?thesis
  proof cases
    case 1
    then show ?thesis
      using decode_one [of "4 * n" pre post] assms(2) mods by (simp add: compact_enc_def)
  next
    case 2
    then show ?thesis
      using decode_two [of "4 * n + 1" pre post] assms(2) mods by (simp add: compact_enc_def)
  next
    case 3
    then show ?thesis
      using decode_four [of "4 * n + 2" pre post] assms mods by (simp add: compact_enc_def)
  qed
qed

theorem compact_roundtrip_witness:
  "decode_compact_integer ([7, 7, 7] @ compact_enc 1000000 @ [9]) 3 = ScLen 1000000"
  using compact_roundtrip [of 1000000 "[7, 7, 7]" "[9]"] by simp

text \<open>The position checks do not protect against a position past the end: the subtraction
  wraps, so a parameter list whose first string claims more bytes than the input holds makes
  the length computation of the second one read out of bounds.\<close>
theorem scale_length_reads_out_of_bounds:
  "scale_len (\<lambda>_. 1) (ParameterAbi ''tuple'' [ParameterAbi ''string'' [], ParameterAbi ''string'' []])
     [252] 0 = ScOob"
proof -
  have "decode_compact_integer [252] 0 = ScLen 63"
    by (simp add: decode_compact_integer_def avail_def byte_at_def drop_bit_eq_div)
  moreover have "decode_compact_integer [252] 64 = ScOob"
    by (simp add: decode_compact_integer_def avail_def byte_at_def)
  ultimately show ?thesis by (simp add: starts_with_def)
qed

end
