(* ===== verification/Codec.thy ===== *)
theory Codec imports Decimal "HOL-Library.AList" "HOL-Library.Countable" begin

text \<open>
  Results and encodings shared by the components that keep structured values in rows.  A result
  is a value, an exception (\<open>Throw\<close>), or \<open>Undef\<close> where C++ has undefined behaviour, such as
  dereferencing an empty \<open>std::optional\<close>.  The SCALE codec is external: a pair of functions with
  the law that decoding gives back what was encoded; \<open>count_enc\<close> is its instance for countable
  types.
\<close>

datatype 'a eval = Val 'a | Throw string | Undef

fun bind_eval :: "'a eval \<Rightarrow> ('a \<Rightarrow> 'b eval) \<Rightarrow> 'b eval" where
  "bind_eval (Val x) f = f x"
| "bind_eval (Throw e) f = Throw e"
| "bind_eval Undef f = Undef"

lemma bind_eval_cong [fundef_cong]:
  "m = m' \<Longrightarrow> (\<And>x. m' = Val x \<Longrightarrow> f x = f' x) \<Longrightarrow> bind_eval m f = bind_eval m' f'"
  by (cases m') simp_all

locale text_codec =
  fixes enc :: "'a \<Rightarrow> string" and dec :: "string \<Rightarrow> 'a option"
  assumes dec_enc: "dec (enc x) = Some x"
    and enc_not_Nil: "enc x \<noteq> []"

definition count_enc :: "'a :: countable \<Rightarrow> string" where
  "count_enc x = dec_of_nat (to_nat x)"

definition count_dec :: "string \<Rightarrow> 'a :: countable option" where
  "count_dec s = Some (from_nat (nat_of_dec s))"

interpretation counted: text_codec count_enc count_dec
  by unfold_locales (simp_all add: count_enc_def count_dec_def nat_of_dec_of_nat)

text \<open>Conversion between \<open>bytes\<close> and \<open>std::string\<close> (\<open>asString\<close>, \<open>asBytes\<close>).\<close>

definition bytes_text :: "bytes \<Rightarrow> string" where
  "bytes_text bs = map (\<lambda>b. char_of (unat b)) bs"

definition text_bytes :: "string \<Rightarrow> bytes" where
  "text_bytes s = map (\<lambda>c. of_nat (of_char c)) s"

lemma text_bytes_text [simp]: "text_bytes (bytes_text bs) = bs"
proof -
  have "unat (b :: u8) mod 256 = unat b" for b using unsigned_less [where w = b and ?'a = nat] by simp
  then show ?thesis by (simp add: text_bytes_def bytes_text_def map_idI)
qed

end
