(* ===== verification/ConflictGraph.thy ===== *)
theory ConflictGraph imports ScaleUtils ExecMessages Codec begin

text \<open>
  The parallel WASM branch of \<open>src/executor/TransactionExecutor.cpp\<close>:
  \<open>decodeConflictFields\<close> (the conflict keys of a call) and the graph that
  \<open>dagExecuteTransactionsForWasm\<close> builds from them for TBB.  A conflict key is the eight bytes
  of the slot, followed by the value that selects the accessed part; a bare slot stands for
  the whole variable (\<open>All\<close>, \<open>Len\<close>).

  \<open>boost::hash\<close> of the address is a parameter.  \<open>CfUndef\<close> is undefined behaviour (a failed
  assertion without checks, or a read out of range), \<open>CfNone\<close> is \<open>nullopt\<close>.  In the graph a
  task runs when all its predecessors have run, the behaviour of \<open>continue_node\<close>.
\<close>

section \<open>Conflict keys of a call\<close>

record conflict_field =
  cfl_kind :: u8
  cfl_path :: "u8 list"
  cfl_read_only :: bool
  cfl_slot :: u8

record function_abi =
  fa_name :: string
  fa_inputs :: "parameter_abi list"
  fa_conflicts :: "conflict_field list"

datatype cf_result = CfNone | CfUndef | CfKeys "bytes list"

text \<open>The object representation of a \<open>size_t\<close> or \<open>int64_t\<close> on a little-endian machine.\<close>

definition raw_u64 :: "u64 \<Rightarrow> bytes" where
  "raw_u64 w = le_bytes 8 (unat w)"

text \<open>\<open>Env\<close>: the bytes appended for the environment kind.\<close>

definition env_bytes :: "u64 \<Rightarrow> u64 \<Rightarrow> call_parameters \<Rightarrow> u8 \<Rightarrow> bytes option" where
  "env_bytes timestamp number p k =
     (if k = 0 then Some (text_bytes (senderAddress p))
      else if k = 1 then Some (text_bytes (cp_origin p))
      else if k = 2 then Some (raw_u64 timestamp)
      else if k = 3 then Some (raw_u64 number)
      else if k = 4 then Some (text_bytes (receiveAddress p))
      else None)"

text \<open>\<open>Var\<close>: the walk along the access path; first the inner loop over earlier siblings.\<close>

fun skip_components ::
    "(u32 \<Rightarrow> u32) \<Rightarrow> parameter_abi list \<Rightarrow> bytes \<Rightarrow> u32 \<Rightarrow> scale_result" where
  "skip_components clen [] bs p = ScLen (ucast p)"
| "skip_components clen (c # cs) bs p =
     (case scale_len clen c bs (ucast p) of
        ScLen v \<Rightarrow> skip_components clen cs bs (p + ucast v)
      | r \<Rightarrow> r)"

datatype walk_result = WalkNone | WalkUndef | WalkTo parameter_abi u32

fun walk_path :: "(u32 \<Rightarrow> u32) \<Rightarrow> u8 list \<Rightarrow> parameter_abi option \<Rightarrow> parameter_abi list \<Rightarrow> bytes \<Rightarrow> u32
     \<Rightarrow> walk_result" where
  "walk_path clen [] (Some q) comps bs p = WalkTo q p"
| "walk_path clen [] None comps bs p = WalkUndef"
| "walk_path clen (sg # sgs) cur comps bs p =
     (if unat sg \<ge> length comps then WalkNone
      else case skip_components clen (take (unat sg) comps) bs p of
        ScNone \<Rightarrow> WalkNone
      | ScOob \<Rightarrow> WalkUndef
      | ScLen p' \<Rightarrow>
          (let q = comps ! unat sg
           in walk_path clen sgs (Some q) (pa_components q) bs (ucast p')))"

definition var_bytes ::
    "(u32 \<Rightarrow> u32) \<Rightarrow> parameter_abi list \<Rightarrow> u8 list \<Rightarrow> bytes \<Rightarrow> scale_result \<times> bytes" where
  "var_bytes clen inputs path input =
     (case walk_path clen path None inputs input 0 of
        WalkNone \<Rightarrow> (ScNone, [])
      | WalkUndef \<Rightarrow> (ScOob, [])
      | WalkTo q p \<Rightarrow>
        (case scale_len clen q input (ucast p) of
           ScLen len \<Rightarrow>
             (if unat p + unat len \<le> length input
              then (ScLen len, take (unat len) (drop (unat p) input)) else (ScOob, []))
         | r \<Rightarrow> (r, [])))"

text \<open>One conflict field: the key, or the reason there is none.\<close>

definition field_key ::
    "(string \<Rightarrow> u64) \<Rightarrow> (u32 \<Rightarrow> u32) \<Rightarrow> u64 \<Rightarrow> u64 \<Rightarrow> function_abi \<Rightarrow> call_parameters \<Rightarrow>
     conflict_field \<Rightarrow> cf_result" where
  "field_key hash clen timestamp number f p c =
     (let slot = raw_u64 (hash (receiveAddress p) + ucast (cfl_slot c)); kind = cfl_kind c in
      if kind = 0 \<or> kind = 1 then CfKeys [slot]
      else if kind = 2 then
        (case cfl_path c of
           [] \<Rightarrow> CfUndef
         | k # _ \<Rightarrow> (case env_bytes timestamp number p k of
                       None \<Rightarrow> CfNone | Some bs \<Rightarrow> CfKeys [slot @ bs]))
      else if kind = 3 then
        (case var_bytes clen (fa_inputs f) (cfl_path c) (drop 4 (cp_data p)) of
           (ScNone, _) \<Rightarrow> CfNone
         | (ScOob, _) \<Rightarrow> CfUndef
         | (ScLen _, bs) \<Rightarrow> CfKeys [slot @ bs])
      else CfNone)"

fun field_keys :: "(conflict_field \<Rightarrow> cf_result) \<Rightarrow> conflict_field list \<Rightarrow> bytes list \<Rightarrow> cf_result" where
  "field_keys key [] ks = CfKeys ks"
| "field_keys key (c # cs) ks =
     (case key c of
        CfKeys k \<Rightarrow> field_keys key cs (ks @ k)
      | r \<Rightarrow> r)"

definition decode_conflict_fields ::
    "(string \<Rightarrow> u64) \<Rightarrow> (u32 \<Rightarrow> u32) \<Rightarrow> u64 \<Rightarrow> u64 \<Rightarrow> function_abi \<Rightarrow> call_parameters \<Rightarrow> cf_result" where
  "decode_conflict_fields hash clen timestamp number f p =
     (if fa_conflicts f = [] then CfNone
      else field_keys (field_key hash clen timestamp number f p) (fa_conflicts f) [])"

section \<open>Building the task graph\<close>

text \<open>\<open>wg_deps\<close> and \<open>wg_usage\<close> are the two hash maps; the order of iteration over them does
  not matter for the set of edges.\<close>

record wasm_graph =
  wg_edges :: "(nat \<times> nat) list"
  wg_starts :: "nat list"
  wg_deps :: "(bytes \<times> nat list) list"
  wg_usage :: "bytes \<Rightarrow> nat option"
  wg_tasks :: nat

definition slot_of :: "bytes \<Rightarrow> bytes" where
  "slot_of f = take 8 f"

definition whole :: "bytes \<Rightarrow> bool" where
  "whole f \<longleftrightarrow> length f = 8"

definition empty_graph :: wasm_graph where
  "empty_graph = \<lparr>wg_edges = [], wg_starts = [], wg_deps = [], wg_usage = Map.empty, wg_tasks = 0\<rparr>"

text \<open>The edge from the last user of the slot as a whole.\<close>

definition usage_edges :: "nat \<Rightarrow> bytes \<Rightarrow> wasm_graph \<Rightarrow> (nat \<times> nat) list" where
  "usage_edges n f g =
     (case wg_usage g (slot_of f) of
        Some u \<Rightarrow> if u \<noteq> n then [(u, n)] else []
      | None \<Rightarrow> [])"

text \<open>One conflict key of task \<open>n\<close>.\<close>

definition add_field :: "nat \<Rightarrow> bytes \<Rightarrow> wasm_graph \<Rightarrow> wasm_graph" where
  "add_field n f g =
     (let g1 = g\<lparr>wg_edges := wg_edges g @ usage_edges n f g\<rparr> in
      if \<not> whole f then
        (case map_of (wg_deps g1) f of
           Some l \<Rightarrow>
             (if last l \<noteq> n
              then g1\<lparr>wg_edges := wg_edges g1 @ [(last l, n)],
                      wg_deps := AList.update f (l @ [n]) (wg_deps g1)\<rparr>
              else g1\<lparr>wg_deps := AList.update f [n] (wg_deps g1)\<rparr>)
         | None \<Rightarrow> g1\<lparr>wg_deps := AList.update f [n] (wg_deps g1)\<rparr>)
      else
        g1\<lparr>wg_edges := wg_edges g1 @
             concat (map (\<lambda>(k, l). if slot_of k = slot_of f then map (\<lambda>x. (x, n)) l else [])
                (wg_deps g1)),
           wg_usage := (wg_usage g1)(slot_of f \<mapsto> n)\<rparr>)"

text \<open>
  One transaction: \<open>noDeps\<close> stays true exactly when no edge into the task is made, and then
  the task hangs on the start node.
\<close>

definition add_task :: "bytes list \<Rightarrow> wasm_graph \<Rightarrow> wasm_graph" where
  "add_task fs g =
     (let n = wg_tasks g;
          g1 = fold (add_field n) fs (g\<lparr>wg_tasks := n + 1\<rparr>)
      in if length (wg_edges g1) = length (wg_edges g)
         then g1\<lparr>wg_starts := wg_starts g1 @ [n]\<rparr> else g1)"

text \<open>The loop over all transactions; those without conflict keys are sent back.\<close>

definition build_graph :: "bytes list option list \<Rightarrow> wasm_graph" where
  "build_graph all_fields =
     fold (\<lambda>fs g. case fs of None \<Rightarrow> g | Some l \<Rightarrow> add_task l g) all_fields empty_graph"

text \<open>
  The orders in which TBB can run tasks after \<open>start.try_put\<close>: each task once, after a
  predecessor has sent to it and all of them have finished.
\<close>

inductive tbb_order :: "wasm_graph \<Rightarrow> nat list \<Rightarrow> bool" for g where
  tbb_nil: "tbb_order g []"
| tbb_snoc: "tbb_order g ns \<Longrightarrow> n \<notin> set ns \<Longrightarrow>
    n \<in> set (wg_starts g) \<or> n \<in> snd ` set (wg_edges g) \<Longrightarrow>
    \<forall>(u, v) \<in> set (wg_edges g). v = n \<longrightarrow> u \<in> set ns \<Longrightarrow> tbb_order g (ns @ [n])"

inductive_cases tbb_orderE: "tbb_order g ns"

section \<open>Order of conflicting tasks\<close>

text \<open>Two keys conflict when they are equal, or when one of them is the whole of their slot.\<close>

definition conflicting :: "bytes \<Rightarrow> bytes \<Rightarrow> bool" where
  "conflicting a b \<longleftrightarrow> a = b \<or> (slot_of a = slot_of b \<and> (whole a \<or> whole b))"

definition reach :: "wasm_graph \<Rightarrow> (nat \<times> nat) set" where
  "reach g = (set (wg_edges g))\<^sup>*"

text \<open>\<open>seen\<close> are the pairs of task and key processed so far, the last task being \<open>n\<close>.\<close>

definition graph_inv :: "(nat \<times> bytes) set \<Rightarrow> wasm_graph \<Rightarrow> bool" where
  "graph_inv seen g \<longleftrightarrow>
     (\<forall>t f. (t, f) \<in> seen \<longrightarrow> \<not> whole f \<longrightarrow>
        (\<exists>l. map_of (wg_deps g) f = Some l \<and> l \<noteq> [] \<and> (t, last l) \<in> reach g))
     \<and> (\<forall>t f. (t, f) \<in> seen \<longrightarrow> whole f \<longrightarrow>
        (\<exists>u. wg_usage g (slot_of f) = Some u \<and> (t, u) \<in> reach g))
     \<and> (\<forall>t f t' f'. (t, f) \<in> seen \<longrightarrow> (t', f') \<in> seen \<longrightarrow> t < t' \<longrightarrow> conflicting f f' \<longrightarrow>
        (t, t') \<in> reach g)"

lemma graph_invD:
  assumes "graph_inv seen g" and "(t, f) \<in> seen"
  shows "\<not> whole f \<Longrightarrow> \<exists>l. map_of (wg_deps g) f = Some l \<and> l \<noteq> [] \<and> (t, last l) \<in> reach g"
    "whole f \<Longrightarrow> \<exists>u. wg_usage g (slot_of f) = Some u \<and> (t, u) \<in> reach g"
    "(t', f') \<in> seen \<Longrightarrow> t < t' \<Longrightarrow> conflicting f f' \<Longrightarrow> (t, t') \<in> reach g"
  using assms unfolding graph_inv_def by blast+

lemma reach_mono: "set (wg_edges g) \<subseteq> set (wg_edges g') \<Longrightarrow> reach g \<subseteq> reach g'"
  unfolding reach_def by (rule rtrancl_mono)

lemma reach_edge: "(t, u) \<in> reach g \<Longrightarrow> (u, n) \<in> set (wg_edges g) \<Longrightarrow> (t, n) \<in> reach g"
  unfolding reach_def by (rule rtrancl_into_rtrancl)

lemma add_field_edges_mono: "set (wg_edges g) \<subseteq> set (wg_edges (add_field n f g))"
  by (auto simp: add_field_def Let_def split: option.splits)

lemma add_field_usage:
  "wg_usage (add_field n f g) =
     (if whole f then (wg_usage g)(slot_of f \<mapsto> n) else wg_usage g)"
  by (auto simp: add_field_def Let_def split: option.splits)

lemma add_field_deps:
  "map_of (wg_deps (add_field n f g)) k =
     (if k = f \<and> \<not> whole f
      then Some (case map_of (wg_deps g) f of
                   Some l \<Rightarrow> if last l \<noteq> n then l @ [n] else [n] | None \<Rightarrow> [n])
      else map_of (wg_deps g) k)"
  by (auto simp: add_field_def Let_def update_conv split: option.splits)

lemma add_field_usage_edge:
  "wg_usage g (slot_of f) = Some u \<Longrightarrow> u \<noteq> n \<Longrightarrow> (u, n) \<in> set (wg_edges (add_field n f g))"
  by (auto simp: add_field_def usage_edges_def Let_def split: option.splits)

lemma add_field_key_edge:
  "\<not> whole f \<Longrightarrow> map_of (wg_deps g) f = Some l \<Longrightarrow> last l \<noteq> n \<Longrightarrow>
     (last l, n) \<in> set (wg_edges (add_field n f g))"
  by (simp add: add_field_def Let_def)

lemma add_field_whole_edge:
  assumes "whole f" and "map_of (wg_deps g) k = Some l" and "slot_of k = slot_of f" and "x \<in> set l"
  shows "(x, n) \<in> set (wg_edges (add_field n f g))"
  using assms map_of_SomeD [OF assms(2)] by (force simp: add_field_def Let_def)

lemma reaches_task:
  assumes inv: "graph_inv seen g" and t: "(t, a) \<in> seen" and c: "conflicting a f"
  shows "(t, n) \<in> reach (add_field n f g)"
proof -
  let ?g = "add_field n f g"
  have mono: "reach g \<subseteq> reach ?g" by (rule reach_mono [OF add_field_edges_mono])
  note facts = graph_invD [OF inv t]
  show ?thesis
  proof (cases "whole a")
    case True
    then obtain u where u: "wg_usage g (slot_of a) = Some u" "(t, u) \<in> reach g"
      using facts(2) by blast
    have "slot_of a = slot_of f" using c by (auto simp: conflicting_def)
    then show ?thesis
      using u mono add_field_usage_edge [of g f u n] reach_edge [of t u ?g n] by auto
  next
    case False
    then obtain l where l: "map_of (wg_deps g) a = Some l" "l \<noteq> []" "(t, last l) \<in> reach g"
      using facts(1) by blast
    have tl: "(t, last l) \<in> reach ?g" using l(3) mono by blast
    show ?thesis
    proof (cases "whole f")
      case True
      then have "slot_of a = slot_of f" using c by (auto simp: conflicting_def)
      then have "(last l, n) \<in> set (wg_edges ?g)"
        using add_field_whole_edge [OF True l(1)] l(2) by simp
      then show ?thesis using tl reach_edge by blast
    next
      case f: False
      then have "a = f" using c False by (auto simp: conflicting_def)
      then show ?thesis
        using tl add_field_key_edge [OF f, of g l n] l(1) reach_edge [of t "last l" ?g n]
        by (cases "last l = n") auto
    qed
  qed
qed

lemma reach_refl: "(n, n) \<in> reach g"
  by (simp add: reach_def)

lemma add_field_inv:
  assumes inv: "graph_inv seen g" and le: "\<forall>(t, f) \<in> seen. t \<le> n"
  shows "graph_inv (insert (n, f) seen) (add_field n f g)"
proof -
  let ?g = "add_field n f g" and ?S = "insert (n, f) seen"
  have mono: "reach g \<subseteq> reach ?g" by (rule reach_mono [OF add_field_edges_mono])
  have to_n: "(t, n) \<in> reach ?g" if "(t, a) \<in> ?S" "conflicting a f" for t a
    using that reaches_task [OF inv, of t a f n] reach_refl by auto
  have "\<exists>l. map_of (wg_deps ?g) a = Some l \<and> l \<noteq> [] \<and> (t, last l) \<in> reach ?g"
    if ta: "(t, a) \<in> ?S" "\<not> whole a" for t a
  proof (cases "a = f")
    case True
    have "(t, n) \<in> reach ?g" using to_n [OF ta(1)] True by (simp add: conflicting_def)
    then show ?thesis using True ta(2) by (auto simp: add_field_deps split: option.split)
  next
    case False
    then have "(t, a) \<in> seen" using ta(1) by auto
    then obtain l where "map_of (wg_deps g) a = Some l" "l \<noteq> []" "(t, last l) \<in> reach g"
      using graph_invD(1) [OF inv _ ta(2)] by blast
    then show ?thesis using False mono by (auto simp: add_field_deps)
  qed
  moreover have "\<exists>u. wg_usage ?g (slot_of a) = Some u \<and> (t, u) \<in> reach ?g"
    if ta: "(t, a) \<in> ?S" "whole a" for t a
  proof (cases "whole f \<and> slot_of a = slot_of f")
    case True
    then have "(t, n) \<in> reach ?g" using to_n [OF ta(1)] by (simp add: conflicting_def)
    then show ?thesis using True by (simp add: add_field_usage)
  next
    case False
    then have "(t, a) \<in> seen" using ta by auto
    then obtain u where "wg_usage g (slot_of a) = Some u" "(t, u) \<in> reach g"
      using graph_invD(2) [OF inv _ ta(2)] by blast
    then show ?thesis using False mono by (auto simp: add_field_usage)
  qed
  moreover have "(t, t') \<in> reach ?g"
    if "(t, a) \<in> ?S" "(t', b) \<in> ?S" "t < t'" "conflicting a b" for t a t' b
  proof (cases "(t', b) = (n, f)")
    case True
    then show ?thesis using to_n that by auto
  next
    case False
    then have b: "(t', b) \<in> seen" using that(2) by auto
    then have "t' \<le> n" using le by auto
    then have "(t, a) \<in> seen" using that(1,3) by auto
    then have "(t, t') \<in> reach g" using graph_invD(3) [OF inv _ b that(3,4)] by blast
    then show ?thesis using mono by blast
  qed
  ultimately show ?thesis unfolding graph_inv_def by blast
qed

lemma add_fields_inv:
  assumes "graph_inv seen g" and "\<forall>(t, f) \<in> seen. t \<le> n"
  shows "graph_inv (seen \<union> {n} \<times> set fs) (fold (add_field n) fs g)"
  using assms
proof (induction fs arbitrary: seen g)
  case Nil
  then show ?case by simp
next
  case (Cons f fs)
  have "graph_inv (insert (n, f) seen \<union> {n} \<times> set fs) (fold (add_field n) fs (add_field n f g))"
    using Cons.prems by (intro Cons.IH add_field_inv) auto
  moreover have "insert (n, f) seen \<union> {n} \<times> set fs = seen \<union> {n} \<times> set (f # fs)" by auto
  ultimately show ?case by simp
qed

lemma add_field_tasks [simp]: "wg_tasks (add_field n f g) = wg_tasks g"
  "wg_starts (add_field n f g) = wg_starts g"
  by (simp_all add: add_field_def Let_def split: option.splits)

lemma add_fields_tasks [simp]: "wg_tasks (fold (add_field n) fs g) = wg_tasks g"
  "wg_starts (fold (add_field n) fs g) = wg_starts g"
  by (induction fs arbitrary: g) simp_all

lemma graph_inv_irrelevant [simp]:
  "graph_inv seen (g\<lparr>wg_tasks := k\<rparr>) = graph_inv seen g"
  "graph_inv seen (g\<lparr>wg_starts := q\<rparr>) = graph_inv seen g"
  by (simp_all add: graph_inv_def reach_def)

lemma add_task_inv:
  assumes "graph_inv seen g" and "\<forall>(t, f) \<in> seen. t < wg_tasks g"
  shows "graph_inv (seen \<union> {wg_tasks g} \<times> set fs) (add_task fs g)"
    and "wg_tasks (add_task fs g) = Suc (wg_tasks g)"
proof -
  have "graph_inv (seen \<union> {wg_tasks g} \<times> set fs)
      (fold (add_field (wg_tasks g)) fs (g\<lparr>wg_tasks := wg_tasks g + 1\<rparr>))"
    using assms by (intro add_fields_inv) auto
  then show "graph_inv (seen \<union> {wg_tasks g} \<times> set fs) (add_task fs g)"
    by (simp add: add_task_def Let_def)
qed (simp add: add_task_def Let_def)

text \<open>The keys of the tasks, numbered in the order in which the tasks are made.\<close>

definition task_fields :: "bytes list option list \<Rightarrow> bytes list list" where
  "task_fields all_fields = map the (filter (\<lambda>x. x \<noteq> None) all_fields)"

definition all_seen :: "bytes list list \<Rightarrow> (nat \<times> bytes) set" where
  "all_seen ts = {(i, f). i < length ts \<and> f \<in> set (ts ! i)}"

lemma build_graph_tasks: "build_graph xs = fold add_task (task_fields xs) empty_graph"
proof -
  have "fold (\<lambda>fs g. case fs of None \<Rightarrow> g | Some l \<Rightarrow> add_task l g) xs g
      = fold add_task (task_fields xs) g" for g
    by (induction xs arbitrary: g) (auto simp: task_fields_def split: option.split)
  then show ?thesis by (simp add: build_graph_def)
qed

lemma add_tasks_inv:
  "graph_inv (all_seen ts) (fold add_task ts empty_graph)
     \<and> wg_tasks (fold add_task ts empty_graph) = length ts"
proof (induction ts rule: rev_induct)
  case Nil
  then show ?case by (simp add: graph_inv_def all_seen_def empty_graph_def)
next
  case (snoc fs ts)
  let ?g = "fold add_task ts empty_graph"
  have "\<forall>(t, f) \<in> all_seen ts. t < wg_tasks ?g" using snoc by (auto simp: all_seen_def)
  note step = add_task_inv [OF conjunct1 [OF snoc] this, of fs]
  have "all_seen (ts @ [fs]) = all_seen ts \<union> {wg_tasks ?g} \<times> set fs"
    using snoc by (auto simp: all_seen_def nth_append less_Suc_eq)
  then show ?case using step snoc by simp
qed

section \<open>Which tasks run\<close>

text \<open>A transaction that accesses part of a slot and later the same slot as a whole.\<close>

definition self_overlap :: "bytes list \<Rightarrow> bool" where
  "self_overlap fs \<longleftrightarrow> (\<exists>j < length fs. whole (fs ! j) \<and>
     (\<exists>i < j. \<not> whole (fs ! i) \<and> slot_of (fs ! i) = slot_of (fs ! j)))"

text \<open>While task \<open>n\<close> is added, with its keys \<open>done\<close> so far.\<close>

definition forward_inv :: "nat \<Rightarrow> bytes set \<Rightarrow> wasm_graph \<Rightarrow> bool" where
  "forward_inv n keys g \<longleftrightarrow>
     (\<forall>(x, y) \<in> set (wg_edges g). x < y \<and> y \<le> n)
     \<and> (\<forall>k l. map_of (wg_deps g) k = Some l \<longrightarrow> l \<noteq> [] \<and> (\<forall>x \<in> set l. x \<le> n \<and> (x = n \<longrightarrow> k \<in> keys)))
     \<and> (\<forall>s u. wg_usage g s = Some u \<longrightarrow> u \<le> n)
     \<and> distinct (map fst (wg_deps g)) \<and> (\<forall>k \<in> fst ` set (wg_deps g). \<not> whole k)"

lemma forward_invD:
  assumes "forward_inv n keys g"
  shows "(x, y) \<in> set (wg_edges g) \<Longrightarrow> x < y \<and> y \<le> n"
    "map_of (wg_deps g) k = Some l \<Longrightarrow> l \<noteq> []"
    "map_of (wg_deps g) k = Some l \<Longrightarrow> z \<in> set l \<Longrightarrow> z \<le> n"
    "map_of (wg_deps g) k = Some l \<Longrightarrow> n \<in> set l \<Longrightarrow> k \<in> keys"
    "wg_usage g s = Some u \<Longrightarrow> u \<le> n"
    "distinct (map fst (wg_deps g))" "(k, l) \<in> set (wg_deps g) \<Longrightarrow> \<not> whole k"
proof -
  note E = assms [unfolded forward_inv_def]
  note E1 = E [THEN conjunct1] and R1 = E [THEN conjunct2]
  note E2 = R1 [THEN conjunct1] and R2 = R1 [THEN conjunct2]
  note E3 = R2 [THEN conjunct1] and R3 = R2 [THEN conjunct2]
  show "x < y \<and> y \<le> n" if "(x, y) \<in> set (wg_edges g)" using bspec [OF E1 that] by simp
  show "l \<noteq> []" if "map_of (wg_deps g) k = Some l" using E2 that by blast
  show "z \<le> n" if "map_of (wg_deps g) k = Some l" "z \<in> set l" using E2 that by blast
  show "k \<in> keys" if "map_of (wg_deps g) k = Some l" "n \<in> set l" using E2 that by blast
  show "u \<le> n" if "wg_usage g s = Some u" using E3 that by blast
  show "distinct (map fst (wg_deps g))" using R3 by (rule conjunct1)
  show "\<not> whole k" if "(k, l) \<in> set (wg_deps g)" using R3 that by force
qed

lemma add_field_edges:
  "(x, y) \<in> set (wg_edges (add_field n f g)) \<longleftrightarrow> (x, y) \<in> set (wg_edges g) \<or> (y = n \<and>
     ((wg_usage g (slot_of f) = Some x \<and> x \<noteq> n)
      \<or> (\<not> whole f \<and> (\<exists>l. map_of (wg_deps g) f = Some l \<and> last l \<noteq> n \<and> x = last l))
      \<or> (whole f \<and> (\<exists>(k, l) \<in> set (wg_deps g). slot_of k = slot_of f \<and> x \<in> set l))))"
  by (auto simp: add_field_def usage_edges_def Let_def split: option.splits if_splits)

lemma add_field_deps_keys:
  "fst ` set (wg_deps (add_field n f g)) \<subseteq> fst ` set (wg_deps g) \<union> (if whole f then {} else {f})"
  "distinct (map fst (wg_deps g)) \<Longrightarrow> distinct (map fst (wg_deps (add_field n f g)))"
  by (auto simp: add_field_def Let_def dom_update distinct_update split: option.splits)

lemma add_field_forward:
  assumes inv: "forward_inv n keys g"
    and ok: "whole f \<Longrightarrow> \<forall>k \<in> keys. \<not> whole k \<longrightarrow> slot_of k \<noteq> slot_of f"
  shows "forward_inv n (insert f keys) (add_field n f g)"
proof -
  note D = forward_invD [OF inv]
  have edges: "x < y \<and> y \<le> n" if e: "(x, y) \<in> set (wg_edges (add_field n f g))" for x y
  proof -
    consider "(x, y) \<in> set (wg_edges g)" | "y = n" "wg_usage g (slot_of f) = Some x" "x \<noteq> n"
      | l where "y = n" "map_of (wg_deps g) f = Some l" "last l \<noteq> n" "x = last l"
      | k l where "y = n" "whole f" "(k, l) \<in> set (wg_deps g)" "slot_of k = slot_of f" "x \<in> set l"
      using e unfolding add_field_edges by blast
    then show ?thesis
    proof cases
      case 1
      then show ?thesis by (rule D(1))
    next
      case 2
      then show ?thesis using D(5) by fastforce
    next
      case 3
      then show ?thesis using D(3) [OF 3(2), of x] D(2) [OF 3(2)] by simp
    next
      case 4
      then have m: "map_of (wg_deps g) k = Some l" using D(6) by (simp add: map_of_eq_Some_iff)
      have "x \<noteq> n"
        using D(4) [OF m] ok [OF 4(2)] D(7) [OF 4(3)] 4(4,5) by blast
      then show ?thesis using D(3) [OF m 4(5)] 4(1) by simp
    qed
  qed
  have deps: "l \<noteq> [] \<and> (\<forall>x \<in> set l. x \<le> n \<and> (x = n \<longrightarrow> k \<in> insert f keys))"
    if m: "map_of (wg_deps (add_field n f g)) k = Some l" for k l
  proof (cases "k = f \<and> \<not> whole f")
    case True
    show ?thesis
    proof (cases "map_of (wg_deps g) f")
      case None
      then have "l = [n]" using m True by (simp add: add_field_deps)
      then show ?thesis using True by simp
    next
      case (Some l0)
      then have "l = (if last l0 \<noteq> n then l0 @ [n] else [n])"
        using m True by (simp add: add_field_deps)
      then show ?thesis using D(3) [OF Some] True by (auto split: if_splits)
    qed
  next
    case False
    then have "map_of (wg_deps g) k = Some l" using m by (auto simp: add_field_deps)
    then show ?thesis using D(2-4) by blast
  qed
  have "u \<le> n" if "wg_usage (add_field n f g) s = Some u" for s u
    using that D(5) by (auto simp: add_field_usage split: if_splits)
  moreover have "\<forall>k \<in> fst ` set (wg_deps (add_field n f g)). \<not> whole k"
    using add_field_deps_keys(1) [of n f g] D(7) by (force split: if_splits)
  ultimately show ?thesis
    unfolding forward_inv_def using edges deps add_field_deps_keys(2) [OF D(6)] by blast
qed

lemma add_fields_forward:
  assumes "forward_inv n keys g"
    and "\<And>j. j < length fs \<Longrightarrow> whole (fs ! j) \<Longrightarrow>
      (\<forall>k \<in> keys \<union> set (take j fs). \<not> whole k \<longrightarrow> slot_of k \<noteq> slot_of (fs ! j))"
  shows "forward_inv n (keys \<union> set fs) (fold (add_field n) fs g)"
  using assms
proof (induction fs arbitrary: keys g)
  case Nil
  then show ?case by simp
next
  case (Cons f fs)
  have "forward_inv n (insert f keys) (add_field n f g)"
    using Cons.prems(1) Cons.prems(2) [of 0] by (intro add_field_forward) auto
  moreover have "\<forall>k \<in> insert f keys \<union> set (take j fs). \<not> whole k \<longrightarrow> slot_of k \<noteq> slot_of (fs ! j)"
    if "j < length fs" "whole (fs ! j)" for j
    using Cons.prems(2) [of "Suc j"] that by auto
  ultimately have "forward_inv n (insert f keys \<union> set fs) (fold (add_field n) fs (add_field n f g))"
    by (rule Cons.IH)
  then show ?case by simp
qed

lemma add_task_forward:
  assumes "forward_inv (wg_tasks g) {} g" and "\<not> self_overlap fs"
  shows "forward_inv (wg_tasks g) (set fs) (add_task fs g)"
proof -
  have "\<forall>k \<in> {} \<union> set (take j fs). \<not> whole k \<longrightarrow> slot_of k \<noteq> slot_of (fs ! j)"
    if "j < length fs" "whole (fs ! j)" for j
  proof (intro ballI impI notI)
    fix k
    assume "k \<in> {} \<union> set (take j fs)" "\<not> whole k" "slot_of k = slot_of (fs ! j)"
    then obtain i where "i < j" "\<not> whole (fs ! i)" "slot_of (fs ! i) = slot_of (fs ! j)"
      using that(1) by (auto simp: in_set_conv_nth)
    then show False using assms(2) that unfolding self_overlap_def by blast
  qed
  moreover have "forward_inv (wg_tasks g) {} (g\<lparr>wg_tasks := wg_tasks g + 1\<rparr>)"
    using assms(1) by (simp add: forward_inv_def)
  ultimately have "forward_inv (wg_tasks g) ({} \<union> set fs)
      (fold (add_field (wg_tasks g)) fs (g\<lparr>wg_tasks := wg_tasks g + 1\<rparr>))"
    by (intro add_fields_forward)
  then show ?thesis by (simp add: add_task_def Let_def forward_inv_def)
qed

lemma forward_next: "forward_inv n keys g \<Longrightarrow> forward_inv (Suc n) {} g"
  by (auto simp: forward_inv_def) (meson le_SucI not_less_eq_eq order_refl)+

lemma add_task_next:
  assumes "forward_inv (wg_tasks g) {} g" and "\<not> self_overlap fs"
  shows "forward_inv (wg_tasks (add_task fs g)) {} (add_task fs g)"
proof -
  have "wg_tasks (add_task fs g) = Suc (wg_tasks g)" by (simp add: add_task_def Let_def)
  then show ?thesis using forward_next [OF add_task_forward [OF assms]] by simp
qed

lemma add_tasks_forward:
  "\<forall>fs \<in> set ts. \<not> self_overlap fs \<Longrightarrow>
     forward_inv (length ts) {} (fold add_task ts empty_graph)"
proof (induction ts rule: rev_induct)
  case Nil
  then show ?case by (simp add: forward_inv_def empty_graph_def)
next
  case (snoc fs ts)
  have "wg_tasks (fold add_task ts empty_graph) = length ts" using add_tasks_inv by blast
  moreover have "wg_tasks (fold add_task (ts @ [fs]) empty_graph) = length (ts @ [fs])"
    using add_tasks_inv by blast
  ultimately show ?case
    using snoc add_task_next [of "fold add_task ts empty_graph" fs] by auto
qed

text \<open>Every task has a way to be triggered: the start node or an edge.\<close>

definition triggered :: "wasm_graph \<Rightarrow> nat \<Rightarrow> bool" where
  "triggered g n \<longleftrightarrow> n \<in> set (wg_starts g) \<or> n \<in> snd ` set (wg_edges g)"

lemma add_field_new_edges:
  "\<exists>es. wg_edges (add_field n f g) = wg_edges g @ es \<and> snd ` set es \<subseteq> {n}"
  by (auto simp: add_field_def usage_edges_def Let_def split: option.splits)

lemma add_fields_new_edges:
  "\<exists>es. wg_edges (fold (add_field n) fs g) = wg_edges g @ es \<and> snd ` set es \<subseteq> {n}"
proof (induction fs arbitrary: g)
  case Nil
  then show ?case by simp
next
  case (Cons f fs)
  obtain e1 where e1: "wg_edges (add_field n f g) = wg_edges g @ e1" "snd ` set e1 \<subseteq> {n}"
    using add_field_new_edges by blast
  obtain e2 where e2: "wg_edges (fold (add_field n) fs (add_field n f g))
      = wg_edges (add_field n f g) @ e2" "snd ` set e2 \<subseteq> {n}"
    using Cons by blast
  then show ?case using e1 by (intro exI [of _ "e1 @ e2"]) auto
qed

lemma add_task_triggered:
  assumes "m < wg_tasks g \<Longrightarrow> triggered g m" and "m < Suc (wg_tasks g)"
  shows "triggered (add_task fs g) m"
proof -
  let ?n = "wg_tasks g"
  obtain es where es: "wg_edges (fold (add_field ?n) fs (g\<lparr>wg_tasks := ?n + 1\<rparr>)) = wg_edges g @ es"
      "snd ` set es \<subseteq> {?n}"
    using add_fields_new_edges [of ?n fs "g\<lparr>wg_tasks := ?n + 1\<rparr>"] by auto
  have new: "es \<noteq> [] \<Longrightarrow> ?n \<in> snd ` set es" using es(2) by (cases es) auto
  show ?thesis
  proof (cases "m = ?n")
    case True
    then show ?thesis using es new by (auto simp: triggered_def add_task_def Let_def)
  next
    case False
    then show ?thesis using assms es(1) by (auto simp: triggered_def add_task_def Let_def)
  qed
qed

lemma add_tasks_triggered:
  "m < length ts \<Longrightarrow> triggered (fold add_task ts empty_graph) m"
proof (induction ts rule: rev_induct)
  case (snoc fs ts)
  have "wg_tasks (fold add_task ts empty_graph) = length ts" using add_tasks_inv by blast
  then show ?case
    using snoc add_task_triggered [of m "fold add_task ts empty_graph" fs] by simp
qed simp

lemma add_fields_mono: "set (wg_edges g) \<subseteq> set (wg_edges (fold (add_field n) fs g))"
  using add_fields_new_edges [of n fs g] by auto

lemma add_fields_keeps_key:
  "(\<exists>l. map_of (wg_deps g) k = Some l \<and> n \<in> set l) \<Longrightarrow>
     \<exists>l. map_of (wg_deps (fold (add_field n) fs g)) k = Some l \<and> n \<in> set l"
proof (induction fs arbitrary: g)
  case (Cons f fs)
  have "\<exists>l. map_of (wg_deps (add_field n f g)) k = Some l \<and> n \<in> set l"
    using Cons.prems by (auto simp: add_field_deps)
  then show ?case using Cons.IH by simp
qed simp

lemma add_field_new_key:
  "\<not> whole f \<Longrightarrow> \<exists>l. map_of (wg_deps (add_field n f g)) f = Some l \<and> n \<in> set l"
  by (auto simp: add_field_deps split: option.split)

lemma add_fields_loop:
  assumes "self_overlap fs"
  shows "(n, n) \<in> set (wg_edges (fold (add_field n) fs g))"
proof -
  obtain i j where ij: "j < length fs" "whole (fs ! j)" "i < j" "\<not> whole (fs ! i)"
      "slot_of (fs ! i) = slot_of (fs ! j)"
    using assms unfolding self_overlap_def by blast
  define g1 where "g1 = fold (add_field n) (take i fs) g"
  define g2 where "g2 = fold (add_field n) (drop (Suc i) (take j fs)) (add_field n (fs ! i) g1)"
  have "take j fs = take i fs @ fs ! i # drop (Suc i) (take j fs)"
    using id_take_nth_drop [of i "take j fs"] ij by (simp add: min_def)
  then have fs: "fs = take i fs @ fs ! i # drop (Suc i) (take j fs) @ fs ! j # drop (Suc j) fs"
    using id_take_nth_drop [OF ij(1)] by (metis append.assoc append_Cons)
  have split: "fold (add_field n) fs g = fold (add_field n) (drop (Suc j) fs) (add_field n (fs ! j) g2)"
    by (subst fs) (simp add: g1_def g2_def)
  obtain l where "map_of (wg_deps g2) (fs ! i) = Some l" "n \<in> set l"
    using add_fields_keeps_key [OF add_field_new_key [OF ij(4)]] unfolding g2_def by blast
  then have "(n, n) \<in> set (wg_edges (add_field n (fs ! j) g2))"
    using add_field_whole_edge [OF ij(2) _ ij(5)] by blast
  then show ?thesis unfolding split using add_fields_mono by blast
qed

lemma add_task_mono: "set (wg_edges g) \<subseteq> set (wg_edges (add_task fs g))"
  using add_fields_mono [of "g\<lparr>wg_tasks := wg_tasks g + 1\<rparr>" "wg_tasks g" fs]
  by (simp add: add_task_def Let_def)

lemma add_task_edges:
  "wg_edges (add_task fs g) =
     wg_edges (fold (add_field (wg_tasks g)) fs (g\<lparr>wg_tasks := wg_tasks g + 1\<rparr>))"
  by (simp add: add_task_def Let_def)

lemma add_tasks_loop:
  "n < length ts \<Longrightarrow> self_overlap (ts ! n) \<Longrightarrow>
     (n, n) \<in> set (wg_edges (fold add_task ts empty_graph))"
proof (induction ts rule: rev_induct)
  case (snoc fs ts)
  let ?g = "fold add_task ts empty_graph"
  have tasks: "wg_tasks ?g = length ts" using add_tasks_inv by blast
  show ?case
  proof (cases "n = length ts")
    case True
    then have "(n, n) \<in> set (wg_edges (fold (add_field n) fs (?g\<lparr>wg_tasks := wg_tasks ?g + 1\<rparr>)))"
      using snoc.prems by (intro add_fields_loop) simp
    then show ?thesis using True tasks add_task_edges [of fs ?g] by simp
  next
    case False
    then have "(n, n) \<in> set (wg_edges ?g)" using snoc by (simp add: nth_append)
    then show ?thesis using add_task_mono [of ?g fs] by auto
  qed
qed simp

lemma tbb_before:
  "tbb_order g ns \<Longrightarrow> (u, v) \<in> (set (wg_edges g))\<^sup>* \<Longrightarrow> u \<noteq> v \<Longrightarrow> v \<in> set ns \<Longrightarrow>
     \<exists>xs ys zs. ns = xs @ u # ys @ v # zs"
proof (induction ns arbitrary: v rule: tbb_order.induct)
  case tbb_nil
  then show ?case by simp
next
  case (tbb_snoc ns n)
  show ?case
  proof (cases "v = n")
    case False
    then obtain xs ys zs where "ns = xs @ u # ys @ v # zs" using tbb_snoc by fastforce
    then show ?thesis by (intro exI [of _ xs] exI [of _ ys] exI [of _ "zs @ [n]"]) simp
  next
    case True
    obtain w where w: "(u, w) \<in> (set (wg_edges g))\<^sup>*" "(w, n) \<in> set (wg_edges g)"
      using tbb_snoc.prems(1,2) True by (meson rtranclE)
    then have wn: "w \<in> set ns" using tbb_snoc.hyps(4) by auto
    have "u \<in> set ns" using tbb_snoc.IH [OF w(1) _ wn] wn by (cases "u = w") auto
    then obtain xs ys where "ns = xs @ u # ys" by (meson split_list)
    then show ?thesis using True by (intro exI [of _ xs] exI [of _ ys] exI [of _ "[]"]) simp
  qed
qed

lemma tbb_no_loop: "tbb_order g ns \<Longrightarrow> (n, n) \<in> set (wg_edges g) \<Longrightarrow> n \<notin> set ns"
  by (induction rule: tbb_order.induct) auto

section \<open>Which tasks run when some never can\<close>

definition keys_conflict :: "bytes list list \<Rightarrow> nat \<Rightarrow> nat \<Rightarrow> bool" where
  "keys_conflict kss i j \<longleftrightarrow> (\<exists>a \<in> set (kss ! i). \<exists>b \<in> set (kss ! j). conflicting a b)"

text \<open>
  A task that overlaps with itself waits for itself, and every task that conflicts with a waiting
  task before it waits with it.
\<close>

definition conflict_steps :: "bytes list list \<Rightarrow> (nat \<times> nat) set" where
  "conflict_steps kss = {(u, v). u < v \<and> v < length kss \<and> keys_conflict kss u v}"

definition waits_forever :: "bytes list list \<Rightarrow> nat \<Rightarrow> bool" where
  "waits_forever kss t \<longleftrightarrow> (\<exists>i < length kss. self_overlap (kss ! i) \<and> (i, t) \<in> (conflict_steps kss)\<^sup>*)"

text \<open>The edges go between conflicting tasks.  \<open>ks\<close> gives the keys of each task, of task \<open>n\<close> so far.\<close>

definition edge_cause :: "(nat \<Rightarrow> bytes list) \<Rightarrow> nat \<Rightarrow> nat \<Rightarrow> bool" where
  "edge_cause ks x y \<longleftrightarrow> (x < y \<and> (\<exists>a \<in> set (ks x). \<exists>b \<in> set (ks y). conflicting a b)) \<or> (x = y \<and> self_overlap (ks x))"

definition caused_inv :: "(nat \<Rightarrow> bytes list) \<Rightarrow> nat \<Rightarrow> wasm_graph \<Rightarrow> bool" where
  "caused_inv ks n g \<longleftrightarrow>
     (\<forall>(x, y) \<in> set (wg_edges g). y \<le> n \<and> edge_cause ks x y)
     \<and> (\<forall>(k, l) \<in> set (wg_deps g). l \<noteq> [] \<and> \<not> whole k \<and> (\<forall>x \<in> set l. x \<le> n \<and> k \<in> set (ks x)))
     \<and> (\<forall>s u. wg_usage g s = Some u \<longrightarrow> u \<le> n \<and> (\<exists>k \<in> set (ks u). whole k \<and> slot_of k = s))"

lemma caused_invD:
  assumes "caused_inv ks n g"
  shows "(x, y) \<in> set (wg_edges g) \<Longrightarrow> y \<le> n \<and> edge_cause ks x y"
    "(k, l) \<in> set (wg_deps g) \<Longrightarrow> l \<noteq> [] \<and> \<not> whole k"
    "(k, l) \<in> set (wg_deps g) \<Longrightarrow> z \<in> set l \<Longrightarrow> z \<le> n \<and> k \<in> set (ks z)"
    "wg_usage g s = Some u \<Longrightarrow> u \<le> n \<and> (\<exists>k \<in> set (ks u). whole k \<and> slot_of k = s)"
  using assms unfolding caused_inv_def by (blast, blast, blast, blast)

lemma self_overlap_append: "self_overlap fs \<Longrightarrow> self_overlap (fs @ gs)"
  unfolding self_overlap_def
proof (elim exE conjE)
  fix j i
  assume "j < length fs" "whole (fs ! j)" "i < j" "\<not> whole (fs ! i)" "slot_of (fs ! i) = slot_of (fs ! j)"
  then show "\<exists>j < length (fs @ gs). whole ((fs @ gs) ! j) \<and>
      (\<exists>i < j. \<not> whole ((fs @ gs) ! i) \<and> slot_of ((fs @ gs) ! i) = slot_of ((fs @ gs) ! j))"
    by (intro exI [of _ j] conjI exI [of _ i]) (simp_all add: nth_append)
qed

lemma self_overlap_snoc:
  "k \<in> set fs \<Longrightarrow> \<not> whole k \<Longrightarrow> whole f \<Longrightarrow> slot_of k = slot_of f \<Longrightarrow> self_overlap (fs @ [f])"
  unfolding self_overlap_def in_set_conv_nth
proof (elim exE conjE)
  fix i
  assume "\<not> whole k" "whole f" "slot_of k = slot_of f" "i < length fs" "fs ! i = k"
  then show "\<exists>j < length (fs @ [f]). whole ((fs @ [f]) ! j) \<and>
      (\<exists>i < j. \<not> whole ((fs @ [f]) ! i) \<and> slot_of ((fs @ [f]) ! i) = slot_of ((fs @ [f]) ! j))"
    by (intro exI [of _ "length fs"] conjI exI [of _ i]) (simp_all add: nth_append)
qed

lemma edge_cause_more: "edge_cause ks x y \<Longrightarrow> edge_cause (ks(n := ks n @ [f])) x y"
  by (auto simp: edge_cause_def self_overlap_append)

lemma edge_cause_new:
  assumes "x \<le> n" and "k \<in> set (ks x)" and "conflicting k f" and "x = n \<Longrightarrow> \<not> whole k \<and> whole f"
  shows "edge_cause (ks(n := ks n @ [f])) x n"
proof (cases "x = n")
  case True
  then show ?thesis using assms by (auto simp: edge_cause_def conflicting_def intro: self_overlap_snoc)
next
  case False
  then show ?thesis using assms by (auto simp: edge_cause_def)
qed

lemma in_set_update: "(k, l) \<in> set (AList.update f v xs) \<Longrightarrow> (k, l) \<in> set xs \<or> (k = f \<and> l = v)"
  by (induction xs) (auto split: if_splits)

lemma add_field_caused:
  assumes inv: "caused_inv ks n g"
  shows "caused_inv (ks(n := ks n @ [f])) n (add_field n f g)"
proof -
  let ?ks = "ks(n := ks n @ [f])"
  note D = caused_invD [OF inv]
  have "y \<le> n \<and> edge_cause ?ks x y" if e: "(x, y) \<in> set (wg_edges (add_field n f g))" for x y
  proof -
    consider "(x, y) \<in> set (wg_edges g)" | "y = n" "wg_usage g (slot_of f) = Some x" "x \<noteq> n"
      | l where "y = n" "\<not> whole f" "map_of (wg_deps g) f = Some l" "last l \<noteq> n" "x = last l"
      | k l where "y = n" "whole f" "(k, l) \<in> set (wg_deps g)" "slot_of k = slot_of f" "x \<in> set l"
      using e unfolding add_field_edges by blast
    then show ?thesis
    proof cases
      case 1
      then show ?thesis using D(1) edge_cause_more by blast
    next
      case 2
      then obtain k where "x \<le> n" "k \<in> set (ks x)" "whole k" "slot_of k = slot_of f" using D(4) by blast
      then show ?thesis using 2 by (auto intro!: edge_cause_new simp: conflicting_def)
    next
      case 3
      then have "x \<le> n \<and> f \<in> set (ks x)" using map_of_SomeD [OF 3(3)] D(2,3) by (metis last_in_set)
      then show ?thesis using 3 by (auto intro!: edge_cause_new simp: conflicting_def)
    next
      case 4
      then show ?thesis
        using D(2) [OF 4(3)] D(3) [OF 4(3,5)] by (auto intro!: edge_cause_new [where k = k] simp: conflicting_def)
    qed
  qed
  moreover have "l \<noteq> [] \<and> \<not> whole k \<and> (\<forall>x \<in> set l. x \<le> n \<and> k \<in> set (?ks x))"
    if kl: "(k, l) \<in> set (wg_deps (add_field n f g))" for k l
  proof (cases "(k, l) \<in> set (wg_deps g)")
    case True
    then show ?thesis using D(2,3) by fastforce
  next
    case False
    then have "k = f" "\<not> whole f" "l = (case map_of (wg_deps g) f of
        Some l \<Rightarrow> if last l \<noteq> n then l @ [n] else [n] | None \<Rightarrow> [n])"
      using kl by (auto simp: add_field_def Let_def split: option.splits if_splits dest!: in_set_update)
    moreover from this have "z \<le> n \<and> (f \<in> set (ks z) \<or> z = n)" if "z \<in> set l" for z
      using that D(3) by (auto dest!: map_of_SomeD split: option.splits if_splits)
    moreover have "l \<noteq> []" using calculation(3) by (simp split: option.splits)
    ultimately show ?thesis by fastforce
  qed
  moreover have "u \<le> n \<and> (\<exists>k \<in> set (?ks u). whole k \<and> slot_of k = s)"
    if u: "wg_usage (add_field n f g) s = Some u" for s u
  proof (cases "whole f \<and> s = slot_of f")
    case True
    then show ?thesis using u by (auto simp: add_field_usage)
  next
    case False
    then have "wg_usage g s = Some u" using u by (auto simp: add_field_usage split: if_splits)
    then show ?thesis using D(4) by fastforce
  qed
  ultimately show ?thesis unfolding caused_inv_def by blast
qed

lemma add_fields_caused:
  "caused_inv ks n g \<Longrightarrow> caused_inv (ks(n := ks n @ fs)) n (fold (add_field n) fs g)"
proof (induction fs arbitrary: ks g)
  case (Cons f fs)
  from Cons.IH [OF add_field_caused [OF Cons.prems, of f]] show ?case
    by (simp del: fun_upd_apply add: fun_upd_same)
qed simp

lemma caused_inv_weaken:
  assumes "caused_inv ks n g" and "n \<le> m" and "\<And>t. t \<le> n \<Longrightarrow> ks t = ks' t"
  shows "caused_inv ks' m g"
proof -
  note D = caused_invD [OF assms(1)]
  have "edge_cause ks' x y \<and> y \<le> m" if "(x, y) \<in> set (wg_edges g)" for x y
  proof -
    have xy: "y \<le> n" "edge_cause ks x y" using D(1) [OF that] by simp_all
    then have "x \<le> n" by (auto simp: edge_cause_def)
    then have "ks x = ks' x" "ks y = ks' y" using assms(3) xy(1) by simp_all
    then show ?thesis using xy assms(2) by (simp add: edge_cause_def)
  qed
  moreover have "l \<noteq> [] \<and> \<not> whole k \<and> (\<forall>x \<in> set l. x \<le> m \<and> k \<in> set (ks' x))"
    if "(k, l) \<in> set (wg_deps g)" for k l
    using D(2) [OF that] D(3) [OF that] assms(2,3) by fastforce
  moreover have "u \<le> m \<and> (\<exists>k \<in> set (ks' u). whole k \<and> slot_of k = s)" if "wg_usage g s = Some u" for s u
    using D(4) [OF that] assms(2,3) by fastforce
  ultimately show ?thesis unfolding caused_inv_def by blast
qed

definition keys_upto :: "bytes list list \<Rightarrow> nat \<Rightarrow> bytes list" where
  "keys_upto ts t = (if t < length ts then ts ! t else [])"

lemma add_tasks_caused: "caused_inv (keys_upto ts) (length ts) (fold add_task ts empty_graph)"
proof (induction ts rule: rev_induct)
  case Nil
  then show ?case by (simp add: caused_inv_def empty_graph_def)
next
  case (snoc fs ts)
  let ?g = "fold add_task ts empty_graph" and ?n = "length ts"
  have tasks: "wg_tasks ?g = ?n" using add_tasks_inv by blast
  have "caused_inv (keys_upto ts) ?n (?g\<lparr>wg_tasks := ?n + 1\<rparr>)" using snoc by (simp add: caused_inv_def)
  from add_fields_caused [OF this, of fs]
  have "caused_inv ((keys_upto ts)(?n := fs)) ?n (add_task fs ?g)"
    by (simp add: add_task_def Let_def tasks keys_upto_def caused_inv_def)
  then have "caused_inv (keys_upto (ts @ [fs])) (length (ts @ [fs])) (add_task fs ?g)"
    by (rule caused_inv_weaken) (auto simp: keys_upto_def nth_append)
  then show ?case by simp
qed

lemma edge_causes:
  assumes "(x, y) \<in> set (wg_edges (fold add_task ts empty_graph))"
  shows "y < length ts" "(x, y) \<in> conflict_steps ts \<or> (x = y \<and> self_overlap (ts ! x))"
proof -
  have e: "edge_cause (keys_upto ts) x y" using caused_invD(1) [OF add_tasks_caused assms] by simp
  have none: "\<not> self_overlap []" by (simp add: self_overlap_def)
  show "y < length ts" using e none by (auto simp: edge_cause_def keys_upto_def split: if_splits)
  then show "(x, y) \<in> conflict_steps ts \<or> (x = y \<and> self_overlap (ts ! x))"
    using e by (auto simp: edge_cause_def keys_upto_def conflict_steps_def keys_conflict_def)
qed

lemma starts_bound: "set (wg_starts (fold add_task ts empty_graph)) \<subseteq> {..<length ts}"
proof (induction ts rule: rev_induct)
  case (snoc fs ts)
  have "wg_tasks (fold add_task ts empty_graph) = length ts" using add_tasks_inv by blast
  moreover have "set (wg_starts (add_task fs g)) \<subseteq> insert (wg_tasks g) (set (wg_starts g))" for g
    by (auto simp: add_task_def Let_def)
  ultimately show ?case using snoc by fastforce
qed (simp add: empty_graph_def)

lemma tbb_bound: "tbb_order (build_graph xs) ns \<Longrightarrow> set ns \<subseteq> {..<length (task_fields xs)}"
proof (induction rule: tbb_order.induct)
  case (tbb_snoc ns n)
  have "n < length (task_fields xs)"
    using tbb_snoc.hyps(3) starts_bound edge_causes(1) unfolding build_graph_tasks by fastforce
  then show ?case using tbb_snoc.IH by simp
qed simp

lemma conflict_steps_reach: "(i, t) \<in> (conflict_steps (task_fields xs))\<^sup>* \<Longrightarrow> (i, t) \<in> (set (wg_edges (build_graph xs)))\<^sup>*"
proof (induction rule: rtrancl_induct)
  case (step u v)
  then obtain a b where ab: "u < v" "v < length (task_fields xs)" "a \<in> set (task_fields xs ! u)"
      "b \<in> set (task_fields xs ! v)" "conflicting a b"
    by (auto simp: conflict_steps_def keys_conflict_def)
  have "graph_inv (all_seen (task_fields xs)) (build_graph xs)"
    using add_tasks_inv by (simp add: build_graph_tasks)
  moreover have "(u, a) \<in> all_seen (task_fields xs)" "(v, b) \<in> all_seen (task_fields xs)"
    using ab by (auto simp: all_seen_def)
  ultimately have "(u, v) \<in> reach (build_graph xs)" using graph_invD(3) ab(1,5) by blast
  then show ?case using step.IH by (auto simp: reach_def)
qed simp

lemma tbb_not_waiting:
  assumes "tbb_order (build_graph xs) ns" and "t \<in> set ns"
  shows "\<not> waits_forever (task_fields xs) t"
proof
  assume "waits_forever (task_fields xs) t"
  then obtain i where i: "i < length (task_fields xs)" "self_overlap (task_fields xs ! i)"
      "(i, t) \<in> (conflict_steps (task_fields xs))\<^sup>*"
    by (auto simp: waits_forever_def)
  have "i \<in> set ns"
    using tbb_before [OF assms(1) conflict_steps_reach [OF i(3)] _ assms(2)] assms(2) by (cases "i = t") auto
  moreover have "(i, i) \<in> set (wg_edges (build_graph xs))"
    unfolding build_graph_tasks by (rule add_tasks_loop [OF i(1,2)])
  ultimately show False using tbb_no_loop [OF assms(1)] by blast
qed

text \<open>When TBB can run nothing more, exactly the tasks that do not wait forever have run.\<close>

lemma tbb_complete:
  assumes run: "tbb_order (build_graph xs) ns" and stop: "\<And>m. \<not> tbb_order (build_graph xs) (ns @ [m])"
  shows "set ns = {t. t < length (task_fields xs) \<and> \<not> waits_forever (task_fields xs) t}"
proof (rule equalityI)
  show "set ns \<subseteq> {t. t < length (task_fields xs) \<and> \<not> waits_forever (task_fields xs) t}"
    using tbb_bound [OF run] tbb_not_waiting [OF run] by auto
  have "t \<in> set ns" if "t < length (task_fields xs)" "\<not> waits_forever (task_fields xs) t" for t
    using that
  proof (induction t rule: less_induct)
    case (less t)
    have "u \<in> set ns" if e: "(u, t) \<in> set (wg_edges (build_graph xs))" for u
    proof -
      have "(u, t) \<in> conflict_steps (task_fields xs)"
        using edge_causes(2) [OF e [unfolded build_graph_tasks]] less.prems by (auto simp: waits_forever_def)
      moreover from this have "\<not> waits_forever (task_fields xs) u"
        using less.prems(2) unfolding waits_forever_def by (meson rtrancl_into_rtrancl)
      ultimately show ?thesis using less.IH by (auto simp: conflict_steps_def)
    qed
    moreover have "triggered (build_graph xs) t"
      unfolding build_graph_tasks by (rule add_tasks_triggered [OF less.prems(1)])
    ultimately show ?case using tbb_snoc [OF run, of t] stop [of t] by (auto simp: triggered_def)
  qed
  then show "{t. t < length (task_fields xs) \<and> \<not> waits_forever (task_fields xs) t} \<subseteq> set ns" by blast
qed

text \<open>C18: Two transactions whose conflict keys conflict never run at the same time or in the wrong
  order: whatever order TBB chooses, the earlier transaction of the block has finished before
  the later one starts.\<close>
theorem wasm_conflicts_ordered:
  assumes "tbb_order (build_graph xs) ns"
    and "i < j" and "j < length (task_fields xs)" and "j \<in> set ns"
    and "a \<in> set (task_fields xs ! i)" and "b \<in> set (task_fields xs ! j)" and "conflicting a b"
  shows "\<exists>ps qs rs. ns = ps @ i # qs @ j # rs"
proof -
  have inv: "graph_inv (all_seen (task_fields xs)) (build_graph xs)"
    using add_tasks_inv by (simp add: build_graph_tasks)
  have "(i, a) \<in> all_seen (task_fields xs)" "(j, b) \<in> all_seen (task_fields xs)"
    using assms by (auto simp: all_seen_def)
  then have "(i, j) \<in> reach (build_graph xs)" using graph_invD(3) [OF inv] assms by blast
  then show ?thesis using tbb_before assms unfolding reach_def by blast
qed

text \<open>C39: If no transaction accesses part of a slot and later the whole of it, the graph has no
  cycle: whatever TBB has run, some task can run next until all have run.\<close>
theorem wasm_all_tasks_fire:
  assumes ok: "\<forall>fs \<in> set (task_fields xs). \<not> self_overlap fs"
    and run: "tbb_order (build_graph xs) ns" and n: "n < length (task_fields xs)" "n \<notin> set ns"
  shows "\<exists>m. m < length (task_fields xs) \<and> tbb_order (build_graph xs) (ns @ [m])"
proof -
  let ?g = "build_graph xs"
  define m where "m = (LEAST m. m < length (task_fields xs) \<and> m \<notin> set ns)"
  have m: "m < length (task_fields xs)" "m \<notin> set ns"
    using LeastI [of "\<lambda>m. m < length (task_fields xs) \<and> m \<notin> set ns" n] n
    unfolding m_def by simp_all
  have least: "u \<in> set ns" if "u < m" for u
    using not_less_Least [of u "\<lambda>m. m < length (task_fields xs) \<and> m \<notin> set ns"] that m(1)
    unfolding m_def by auto
  have fwd: "forward_inv (length (task_fields xs)) {} ?g"
    unfolding build_graph_tasks by (rule add_tasks_forward [OF ok])
  have "triggered ?g m" unfolding build_graph_tasks by (rule add_tasks_triggered [OF m(1)])
  moreover have "\<forall>(u, v) \<in> set (wg_edges ?g). v = m \<longrightarrow> u \<in> set ns"
    using forward_invD(1) [OF fwd] least by blast
  ultimately have "tbb_order ?g (ns @ [m])"
    using run m(2) by (intro tbb_snoc) (auto simp: triggered_def)
  then show ?thesis using m(1) by blast
qed

text \<open>Three transactions: two touch one key of a slot, the third the slot as a whole.\<close>

definition slot_bytes :: bytes where
  "slot_bytes = replicate 8 0"

definition three_txs :: "bytes list option list" where
  "three_txs = [Some [slot_bytes @ [1]], None, Some [slot_bytes @ [1]], Some [slot_bytes]]"

lemma three_txs_order: "tbb_order (build_graph three_txs) [0]"
  "tbb_order (build_graph three_txs) [0, 1]" "tbb_order (build_graph three_txs) [0, 1, 2]"
proof -
  have e: "set (wg_edges (build_graph three_txs)) = {(0, 1), (0, 2), (1, 2)}"
    "wg_starts (build_graph three_txs) = [0]"
    by (code_simp, code_simp)
  show a: "tbb_order (build_graph three_txs) [0]"
    using tbb_snoc [OF tbb_nil, of 0] e by auto
  show b: "tbb_order (build_graph three_txs) [0, 1]"
    using tbb_snoc [OF a, of 1] e by auto
  show "tbb_order (build_graph three_txs) [0, 1, 2]"
    using tbb_snoc [OF b, of 2] e by auto
qed

lemma three_txs_fields:
  "task_fields three_txs = [[slot_bytes @ [1]], [slot_bytes @ [1]], [slot_bytes]]"
  by (simp add: task_fields_def three_txs_def)

theorem wasm_conflicts_ordered_witness:
  "\<exists>ps qs rs. [0, 1, 2] = ps @ 0 # qs @ (2::nat) # rs"
  by (rule wasm_conflicts_ordered [OF three_txs_order(3), of 0 2 "slot_bytes @ [1]" slot_bytes])
    (simp_all add: three_txs_fields conflicting_def slot_of_def whole_def slot_bytes_def)

theorem wasm_all_tasks_fire_witness:
  "\<exists>m < 3. tbb_order (build_graph three_txs) [0, 1, m]"
  using wasm_all_tasks_fire [of three_txs, OF _ three_txs_order(2), of 2]
  by (simp add: three_txs_fields self_overlap_def less_Suc_eq numeral_2_eq_2 numeral_3_eq_3)

text \<open>A transaction that accesses a key of a slot and later the whole slot gets an edge to
  itself, so TBB never runs it: its result stays unset although the graph is waited for.\<close>
theorem wasm_self_overlap_never_runs:
  assumes "n < length (task_fields xs)" and "self_overlap (task_fields xs ! n)"
    and "tbb_order (build_graph xs) ns"
  shows "n \<notin> set ns"
proof (rule tbb_no_loop [OF assms(3)])
  show "(n, n) \<in> set (wg_edges (build_graph xs))"
    unfolding build_graph_tasks by (rule add_tasks_loop [OF assms(1,2)])
qed

theorem wasm_self_overlap_never_runs_witness:
  "\<not> tbb_order (build_graph [Some [slot_bytes @ [1], slot_bytes]]) [0]"
proof
  let ?xs = "[Some [slot_bytes @ [1], slot_bytes]]"
  assume run: "tbb_order (build_graph ?xs) [0]"
  have fields: "task_fields ?xs = [[slot_bytes @ [1], slot_bytes]]" by (simp add: task_fields_def)
  have "self_overlap (task_fields ?xs ! 0)"
    unfolding fields self_overlap_def
    by (intro exI [of _ 1] conjI exI [of _ 0])
      (simp_all add: whole_def slot_of_def slot_bytes_def)
  then show False
    using wasm_self_overlap_never_runs [of 0 ?xs "[0]"] run fields by simp
qed

end
