(* ===== verification/SyncStorage.thy ===== *)
theory SyncStorage imports Storage "HOL-Library.Char_ord" "HOL-Library.List_Lexorder" begin

text \<open>
  \<open>SyncStorageWrapper\<close> (\<open>src/executive/SyncStorageWrapper.h\<close>): row access under key locks.
  \<open>m_existsKeyLocks\<close> are the keys held by other transactions, \<open>m_myKeyLocks\<close> those this
  transaction has touched since the last export; both are \<open>std::set\<close>s, kept here as
  increasing lists.  The handler \<open>m_externalAcquireKeyLocks\<close> is that of
  \<open>TransactionExecutive::externalAcquireKeyLocks\<close>: it exports the own locks, asks the
  scheduler, and either imports the locks of the response or throws (\<open>None\<close>).  The
  scheduler's response is a parameter; during the switch other transactions may change the
  storage, so the response carries the storage too.
\<close>

section \<open>Ordered sets of keys\<close>

fun emplace_key :: "string \<Rightarrow> string list \<Rightarrow> string list" where
  "emplace_key k [] = [k]"
| "emplace_key k (x # xs) =
     (if x < k then x # emplace_key k xs else if x = k then x # xs else k # x # xs)"

lemma set_emplace_key [simp]: "set (emplace_key k xs) = insert k (set xs)"
  by (induction xs) auto

lemma sorted_emplace_key: "sorted_wrt (<) xs \<Longrightarrow> sorted_wrt (<) (emplace_key k xs)"
  by (induction xs) auto

section \<open>State and operations\<close>

record 's sync_storage =
  sy_store :: 's
  sy_exists :: "string list"
  sy_my :: "string list"

text \<open>\<open>response s acquire own\<close>: the scheduler's answer to the request.\<close>

datatype 's lock_response = Revert 's | Granted 's "string list"

type_synonym 's scheduler = "'s \<Rightarrow> string \<Rightarrow> string list \<Rightarrow> 's lock_response"

definition import_exists_key_locks :: "string list \<Rightarrow> 's sync_storage \<Rightarrow> 's sync_storage" where
  "import_exists_key_locks ks s = s\<lparr>sy_exists := fold emplace_key ks []\<rparr>"

definition export_key_locks :: "'s sync_storage \<Rightarrow> string list \<times> 's sync_storage" where
  "export_key_locks s = (sy_my s, s\<lparr>sy_my := []\<rparr>)"

definition external_acquire_key_locks ::
    "'s scheduler \<Rightarrow> string \<Rightarrow> 's sync_storage \<Rightarrow> bool \<times> 's sync_storage" where
  "external_acquire_key_locks response key s =
     (let (own, s1) = export_key_locks s in
      case response (sy_store s1) key own of
        Revert st \<Rightarrow> (False, s1\<lparr>sy_store := st\<rparr>)
      | Granted st ks \<Rightarrow> (True, import_exists_key_locks ks (s1\<lparr>sy_store := st\<rparr>)))"

text \<open>The flag is false when the handler has thrown.\<close>

definition acquire_key_lock ::
    "'s scheduler \<Rightarrow> string \<Rightarrow> 's sync_storage \<Rightarrow> bool \<times> 's sync_storage" where
  "acquire_key_lock response key s =
     (let (ok, s1) = (if key \<in> set (sy_exists s) then external_acquire_key_locks response key s
                      else (True, s))
      in if ok then (True, s1\<lparr>sy_my := emplace_key key (sy_my s1)\<rparr>) else (False, s1))"

definition sync_get_row ::
    "'s storage_ops \<Rightarrow> 's scheduler \<Rightarrow> string \<Rightarrow> string \<Rightarrow> 's sync_storage
     \<Rightarrow> string option option \<times> 's sync_storage" where
  "sync_get_row ops response t k s =
     (case acquire_key_lock response k s of
        (False, s1) \<Rightarrow> (None, s1)
      | (True, s1) \<Rightarrow> (let (e, st) = st_get ops (sy_store s1) t k in (Some e, s1\<lparr>sy_store := st\<rparr>)))"

fun acquire_key_locks ::
    "'s scheduler \<Rightarrow> string list \<Rightarrow> 's sync_storage \<Rightarrow> bool \<times> 's sync_storage" where
  "acquire_key_locks response [] s = (True, s)"
| "acquire_key_locks response (k # ks) s =
     (case acquire_key_lock response k s of
        (False, s1) \<Rightarrow> (False, s1)
      | (True, s1) \<Rightarrow> acquire_key_locks response ks s1)"

definition sync_get_rows ::
    "'s storage_ops \<Rightarrow> 's scheduler \<Rightarrow> string \<Rightarrow> string list \<Rightarrow> 's sync_storage
     \<Rightarrow> string option list option \<times> 's sync_storage" where
  "sync_get_rows ops response t ks s =
     (case acquire_key_locks response ks s of
        (False, s1) \<Rightarrow> (None, s1)
      | (True, s1) \<Rightarrow>
          (let (es, st) = get_each ops t ks (sy_store s1) in (Some es, s1\<lparr>sy_store := st\<rparr>)))"

text \<open>\<open>setRow\<close> with a value or with a deleted entry.\<close>

definition sync_set_row ::
    "'s storage_ops \<Rightarrow> 's scheduler \<Rightarrow> string \<Rightarrow> string \<Rightarrow> string option \<Rightarrow> 's sync_storage
     \<Rightarrow> bool \<times> 's sync_storage" where
  "sync_set_row ops response t k v s =
     (case acquire_key_lock response k s of
        (False, s1) \<Rightarrow> (False, s1)
      | (True, s1) \<Rightarrow>
          (True, s1\<lparr>sy_store := (case v of Some x \<Rightarrow> st_set ops (sy_store s1) t k x
                                        | None \<Rightarrow> st_del ops (sy_store s1) t k)\<rparr>))"

definition sync_create_table ::
    "'s storage_ops \<Rightarrow> string \<Rightarrow> string \<Rightarrow> 's sync_storage \<Rightarrow> bool \<times> 's sync_storage" where
  "sync_create_table ops t f s =
     (let (ok, st) = st_create ops (sy_store s) t f in (ok, s\<lparr>sy_store := st\<rparr>))"

definition sync_open_table :: "'s storage_ops \<Rightarrow> string \<Rightarrow> 's sync_storage \<Rightarrow> bool" where
  "sync_open_table ops t s = st_open ops (sy_store s) t"

section \<open>The wrapper as a storage\<close>

text \<open>
  The wrapper offers the storage interface to the precompiled contracts.  While no other
  transaction holds a lock, no access can throw, and the contract of the storage below carries
  over; a thrown access abandons the transaction, so its value here is never used.
\<close>

definition sync_ops :: "'s storage_ops \<Rightarrow> 's scheduler \<Rightarrow> 's sync_storage storage_ops" where
  "sync_ops ops response = \<lparr>
     st_open = (\<lambda>s t. sync_open_table ops t s),
     st_create = (\<lambda>s t f. sync_create_table ops t f s),
     st_get = (\<lambda>s t k. let (r, s') = sync_get_row ops response t k s in (Option.bind r id, s')),
     st_set = (\<lambda>s t k v. snd (sync_set_row ops response t k (Some v) s)),
     st_del = (\<lambda>s t k. snd (sync_set_row ops response t k None s)),
     st_sys = st_sys ops\<rparr>"

lemma acquire_free:
  "sy_exists s = [] \<Longrightarrow>
     acquire_key_lock response k s = (True, s\<lparr>sy_my := emplace_key k (sy_my s)\<rparr>)"
  by (simp add: acquire_key_lock_def)

lemma sync_get_row_free:
  "sy_exists s = [] \<Longrightarrow> sync_get_row ops response t k s =
     (Some (fst (st_get ops (sy_store s) t k)),
      s\<lparr>sy_my := emplace_key k (sy_my s), sy_store := snd (st_get ops (sy_store s) t k)\<rparr>)"
  by (simp add: sync_get_row_def acquire_free split: prod.split)

lemma sync_set_row_free:
  "sy_exists s = [] \<Longrightarrow> sync_set_row ops response t k v s =
     (True, s\<lparr>sy_my := emplace_key k (sy_my s),
              sy_store := (case v of Some x \<Rightarrow> st_set ops (sy_store s) t k x
                                   | None \<Rightarrow> st_del ops (sy_store s) t k)\<rparr>)"
  by (simp add: sync_set_row_def acquire_free split: option.split)

locale sync_wrapper = table_storage ops inv
  for ops :: "'s storage_ops" and inv +
  fixes response :: "'s scheduler"

sublocale sync_wrapper \<subseteq> sync: table_storage "sync_ops ops response"
  "\<lambda>s. inv (sy_store s) \<and> sy_exists s = []"
proof
  show "hd (st_sys (sync_ops ops response)) \<noteq> CHR ''/''" "st_sys (sync_ops ops response) \<noteq> []"
    using sys_name by (simp_all add: sync_ops_def)
qed (auto simp: sync_ops_def row_def sync_get_row_free sync_set_row_free sync_open_table_def
    sync_create_table_def case_prod_unfold Let_def get_inv get_open set_inv set_open del_inv del_open
    create_inv create_ok create_open get_row [unfolded row_def] set_row [unfolded row_def]
    del_row [unfolded row_def] create_row [unfolded row_def] closed_row [unfolded row_def])

interpretation mem_sync: sync_wrapper mem_ops "\<lambda>_. True" response for response ..

section \<open>Properties\<close>

text \<open>
  What a transaction does to the rows of the storage below, and what it tells the scheduler, is
  observed by a storage and a scheduler that keep a log; \<open>sync_trace\<close> gives the log of each access.
  An access that is refused throws, and the transaction makes no further one.
\<close>

datatype row_access = GetRow string string | GetRows string "string list"
  | SetRow string string "string option"

fun access_keys :: "row_access \<Rightarrow> string list" where
  "access_keys (GetRow t k) = [k]"
| "access_keys (GetRows t ks) = ks"
| "access_keys (SetRow t k v) = [k]"

fun sync_access :: "'s storage_ops \<Rightarrow> 's scheduler \<Rightarrow> row_access \<Rightarrow> 's sync_storage \<Rightarrow> bool \<times> 's sync_storage" where
  "sync_access ops response (GetRow t k) s = apfst (\<lambda>r. r \<noteq> None) (sync_get_row ops response t k s)"
| "sync_access ops response (GetRows t ks) s = apfst (\<lambda>r. r \<noteq> None) (sync_get_rows ops response t ks s)"
| "sync_access ops response (SetRow t k v) s = sync_set_row ops response t k v s"

fun sync_run :: "'s storage_ops \<Rightarrow> 's scheduler \<Rightarrow> row_access list \<Rightarrow> 's sync_storage \<Rightarrow> bool \<times> 's sync_storage" where
  "sync_run ops response [] s = (True, s)"
| "sync_run ops response (a # as) s = (case sync_access ops response a s of
     (False, s1) \<Rightarrow> (False, s1) | (True, s1) \<Rightarrow> sync_run ops response as s1)"

text \<open>\<open>Asked k own g\<close>: the scheduler was asked for \<open>k\<close> and told the keys \<open>own\<close>; \<open>g\<close> are the foreign
  locks it granted the key with, \<open>None\<close> its refusal.\<close>

datatype lock_event = Touched string | Asked string "string list" "string list option"

definition logged_ops :: "'s storage_ops \<Rightarrow> ('s \<times> lock_event list) storage_ops" where
  "logged_ops ops = \<lparr>
     st_open = (\<lambda>(s, l) t. st_open ops s t),
     st_create = (\<lambda>(s, l) t f. case st_create ops s t f of (ok, s') \<Rightarrow> (ok, (s', l))),
     st_get = (\<lambda>(s, l) t k. case st_get ops s t k of (e, s') \<Rightarrow> (e, (s', l @ [Touched k]))),
     st_set = (\<lambda>(s, l) t k v. (st_set ops s t k v, l @ [Touched k])),
     st_del = (\<lambda>(s, l) t k. (st_del ops s t k, l @ [Touched k])),
     st_sys = st_sys ops\<rparr>"

fun logged_scheduler :: "'s scheduler \<Rightarrow> ('s \<times> lock_event list) scheduler" where
  "logged_scheduler response (s, l) k own = (case response s k own of
     Revert s' \<Rightarrow> Revert (s', l @ [Asked k own None])
   | Granted s' ks \<Rightarrow> Granted (s', l @ [Asked k own (Some ks)]) ks)"

definition with_log :: "lock_event list \<Rightarrow> 's sync_storage \<Rightarrow> ('s \<times> lock_event list) sync_storage" where
  "with_log l s = \<lparr>sy_store = (sy_store s, l), sy_exists = sy_exists s, sy_my = sy_my s\<rparr>"

definition without_log :: "('s \<times> lock_event list) sync_storage \<Rightarrow> 's sync_storage" where
  "without_log s = \<lparr>sy_store = fst (sy_store s), sy_exists = sy_exists s, sy_my = sy_my s\<rparr>"

fun sync_trace :: "'s storage_ops \<Rightarrow> 's scheduler \<Rightarrow> row_access list \<Rightarrow> 's sync_storage \<Rightarrow>
    lock_event list list \<times> bool \<times> 's sync_storage" where
  "sync_trace ops response [] s = ([], True, s)"
| "sync_trace ops response (a # as) s =
     (case sync_access (logged_ops ops) (logged_scheduler response) a (with_log [] s) of
        (False, s1) \<Rightarrow> ([snd (sy_store s1)], False, without_log s1)
      | (True, s1) \<Rightarrow> (case sync_trace ops response as (without_log s1) of
          (ls, ok, s2) \<Rightarrow> (snd (sy_store s1) # ls, ok, s2)))"

text \<open>
  The rules, read off the log alone.  \<open>guarded F C\<close>: with the foreign locks \<open>F\<close>, the scheduler is
  asked only for a foreign key, a refusal ends the access, and a foreign key is touched only if this
  access has asked for it, or told the scheduler that it is its own (\<open>C\<close>).  \<open>accounted R T\<close>: at each
  switch the scheduler knows, from this switch or an earlier one (\<open>R\<close>), every key touched so far (\<open>T\<close>).
\<close>

fun guarded :: "string set \<Rightarrow> string set \<Rightarrow> lock_event list \<Rightarrow> bool" where
  "guarded F C [] = True"
| "guarded F C (Touched k # l) = ((k \<notin> F \<or> k \<in> C) \<and> guarded F C l)"
| "guarded F C (Asked k own None # l) = (k \<in> F \<and> l = [])"
| "guarded F C (Asked k own (Some ks) # l) = (k \<in> F \<and> guarded (set ks) (insert k (set own \<union> C)) l)"

fun foreign_after :: "string set \<Rightarrow> lock_event list \<Rightarrow> string set" where
  "foreign_after F [] = F"
| "foreign_after F (Asked k own (Some ks) # l) = foreign_after (set ks) l"
| "foreign_after F (e # l) = foreign_after F l"

fun all_guarded :: "string set \<Rightarrow> lock_event list list \<Rightarrow> bool" where
  "all_guarded F [] = True"
| "all_guarded F (l # ls) = (guarded F {} l \<and> all_guarded (foreign_after F l) ls)"

fun accounted :: "string set \<Rightarrow> string set \<Rightarrow> lock_event list \<Rightarrow> bool" where
  "accounted R T [] = True"
| "accounted R T (Touched k # l) = accounted R (insert k T) l"
| "accounted R T (Asked k own g # l) = (T \<subseteq> R \<union> set own \<and> accounted (R \<union> set own) T l)"

definition touched :: "lock_event list \<Rightarrow> string list" where
  "touched l = concat (map (\<lambda>e. case e of Touched k \<Rightarrow> [k] | _ \<Rightarrow> []) l)"

definition reported :: "lock_event list \<Rightarrow> string set" where
  "reported l = (\<Union>e \<in> set l. case e of Asked k own g \<Rightarrow> set own | _ \<Rightarrow> {})"

lemma set_import: "set (fold emplace_key ks xs) = set ks \<union> set xs"
  by (induction ks arbitrary: xs) auto

text \<open>The part of the log that acquiring keys makes, from the storage without a log.\<close>

fun acquire_events :: "'s scheduler \<Rightarrow> string list \<Rightarrow> 's sync_storage \<Rightarrow> lock_event list" where
  "acquire_events response [] s = []"
| "acquire_events response (k # ks) s =
     (let later = acquire_events response ks (snd (acquire_key_lock response k s)) in
      if k \<in> set (sy_exists s)
      then (case response (sy_store s) k (sy_my s) of
              Revert st \<Rightarrow> [Asked k (sy_my s) None]
            | Granted st g \<Rightarrow> Asked k (sy_my s) (Some g) # later)
      else later)"

definition access_events :: "'s scheduler \<Rightarrow> row_access \<Rightarrow> 's sync_storage \<Rightarrow> lock_event list" where
  "access_events response a s = acquire_events response (access_keys a) s @
     (if fst (acquire_key_locks response (access_keys a) s) then map Touched (access_keys a) else [])"

lemma with_log_simps [simp]:
  "sy_store (with_log l s) = (sy_store s, l)" "sy_exists (with_log l s) = sy_exists s"
  "sy_my (with_log l s) = sy_my s" "without_log (with_log l s) = s"
  "(with_log l s)\<lparr>sy_store := (st, l')\<rparr> = with_log l' (s\<lparr>sy_store := st\<rparr>)"
  "(with_log l s)\<lparr>sy_my := ks\<rparr> = with_log l (s\<lparr>sy_my := ks\<rparr>)"
  "(with_log l s)\<lparr>sy_exists := ks\<rparr> = with_log l (s\<lparr>sy_exists := ks\<rparr>)"
  by (simp_all add: with_log_def without_log_def)

lemma acquire_key_lock_cases:
  obtains (free) "k \<notin> set (sy_exists s)"
      "acquire_key_lock response k s = (True, s\<lparr>sy_my := emplace_key k (sy_my s)\<rparr>)"
  | (granted) st g where "k \<in> set (sy_exists s)" "response (sy_store s) k (sy_my s) = Granted st g"
      "acquire_key_lock response k s =
        (True, s\<lparr>sy_my := [k], sy_store := st, sy_exists := fold emplace_key g []\<rparr>)"
  | (refused) st where "k \<in> set (sy_exists s)" "response (sy_store s) k (sy_my s) = Revert st"
      "acquire_key_lock response k s = (False, s\<lparr>sy_my := [], sy_store := st\<rparr>)"
proof (cases "k \<in> set (sy_exists s)")
  case True
  then show thesis
    by (cases "response (sy_store s) k (sy_my s)")
      (auto intro: granted refused simp: acquire_key_lock_def external_acquire_key_locks_def
        export_key_locks_def import_exists_key_locks_def)
qed (auto intro: free simp: acquire_key_lock_def)

lemma acquire_key_locks_logged:
  "acquire_key_locks (logged_scheduler response) ks (with_log l s) =
     map_prod id (with_log (l @ acquire_events response ks s)) (acquire_key_locks response ks s)"
proof (induction ks arbitrary: l s)
  case (Cons k ks)
  show ?case
  proof (cases rule: acquire_key_lock_cases [of k s response])
    case free
    then have "acquire_key_lock (logged_scheduler response) k (with_log l s)
        = (True, with_log l (s\<lparr>sy_my := emplace_key k (sy_my s)\<rparr>))"
      by (simp add: acquire_key_lock_def)
    then show ?thesis using free Cons.IH by simp
  next
    case (granted st g)
    then have "acquire_key_lock (logged_scheduler response) k (with_log l s)
        = (True, with_log (l @ [Asked k (sy_my s) (Some g)])
            (s\<lparr>sy_my := [k], sy_store := st, sy_exists := fold emplace_key g []\<rparr>))"
      by (simp add: acquire_key_lock_def external_acquire_key_locks_def export_key_locks_def
          import_exists_key_locks_def)
    then show ?thesis using granted Cons.IH by simp
  next
    case (refused st)
    then have "acquire_key_lock (logged_scheduler response) k (with_log l s)
        = (False, with_log (l @ [Asked k (sy_my s) None]) (s\<lparr>sy_my := [], sy_store := st\<rparr>))"
      by (simp add: acquire_key_lock_def external_acquire_key_locks_def export_key_locks_def)
    then show ?thesis using refused by simp
  qed
qed simp

lemma get_each_logged:
  "get_each (logged_ops ops) t ks (s, l) =
     map_prod id (\<lambda>s'. (s', l @ map Touched ks)) (get_each ops t ks s)"
  by (induction ks arbitrary: s l) (simp_all add: logged_ops_def case_prod_unfold Let_def)

lemma access_acquires:
  assumes "acquire_key_locks response (access_keys a) s = (ok, s1)"
  shows "fst (sync_access ops response a s) = ok"
    "sy_my (snd (sync_access ops response a s)) = sy_my s1"
    "sy_exists (snd (sync_access ops response a s)) = sy_exists s1"
  using assms
  by (cases a; auto simp: sync_get_row_def sync_get_rows_def sync_set_row_def case_prod_unfold Let_def
      split: prod.splits bool.splits)+

lemma sync_access_logged:
  "sync_access (logged_ops ops) (logged_scheduler response) a (with_log l s) =
     map_prod id (with_log (l @ access_events response a s)) (sync_access ops response a s)"
proof -
  obtain ok s1 where r: "acquire_key_locks response (access_keys a) s = (ok, s1)" by fastforce
  note L = acquire_key_locks_logged [of response "access_keys a" l s, unfolded r]
  have one: "acquire_key_locks response' [k] s' = acquire_key_lock response' k s'" for response' k and s' :: "'x sync_storage"
    by (simp split: prod.split bool.split)
  show ?thesis
  proof (cases a)
    case (GetRow t k)
    then show ?thesis
      using L r by (cases ok) (auto simp: one sync_get_row_def access_events_def logged_ops_def
          simp del: acquire_key_locks.simps split: prod.splits)
  next
    case (GetRows t ks)
    then show ?thesis
      using L r by (cases ok) (auto simp: sync_get_rows_def access_events_def get_each_logged
          simp del: acquire_key_locks.simps split: prod.splits)
  next
    case (SetRow t k v)
    then show ?thesis
      using L r by (cases ok; cases v) (auto simp: one sync_set_row_def access_events_def logged_ops_def
          simp del: acquire_key_locks.simps split: prod.splits)
  qed
qed

lemma guarded_touched: "guarded F C (map Touched ks) \<longleftrightarrow> (\<forall>k \<in> set ks. k \<notin> F \<or> k \<in> C)"
  by (induction ks) auto

lemma foreign_after_touched [simp]: "foreign_after F (map Touched ks) = F"
  by (induction ks) simp_all

text \<open>\<open>P\<close> are the keys this access has acquired before.\<close>

lemma acquire_events_guarded:
  assumes "acquire_key_locks response ks s = (ok, s1)" and "P \<subseteq> set (sy_my s) \<union> C"
    and "\<forall>p \<in> P. p \<notin> set (sy_exists s) \<or> p \<in> C" and "set xs \<subseteq> P \<union> set ks" and "\<not> ok \<Longrightarrow> xs = []"
  shows "guarded (set (sy_exists s)) C (acquire_events response ks s @ map Touched xs) \<and>
    foreign_after (set (sy_exists s)) (acquire_events response ks s @ map Touched xs) = set (sy_exists s1)"
  using assms
proof (induction ks arbitrary: s P C)
  case Nil
  then show ?case by (auto simp: guarded_touched)
next
  case (Cons k ks)
  show ?case
  proof (cases rule: acquire_key_lock_cases [of k s response])
    case free
    then show ?thesis
      using Cons.prems Cons.IH [of "s\<lparr>sy_my := emplace_key k (sy_my s)\<rparr>" "insert k P" C] by auto
  next
    case (granted st g)
    then show ?thesis
      using Cons.prems Cons.IH [of "s\<lparr>sy_my := [k], sy_store := st, sy_exists := fold emplace_key g []\<rparr>"
          "insert k P" "insert k (set (sy_my s) \<union> C)"]
      by (auto simp: set_import)
  next
    case (refused st)
    then show ?thesis using Cons.prems by auto
  qed
qed

lemma touched_simps [simp]: "touched [] = []" "touched (Touched k # l) = k # touched l"
  "touched (Asked k own g # l) = touched l" "touched (l @ l') = touched l @ touched l'"
  "touched (map Touched ks) = ks"
  by (simp_all add: touched_def o_def)

lemma reported_simps [simp]: "reported [] = {}" "reported (Touched k # l) = reported l"
  "reported (Asked k own g # l) = set own \<union> reported l" "reported (l @ l') = reported l \<union> reported l'"
  "reported (map Touched ks) = {}"
  by (simp_all add: reported_def)

lemma accounted_append:
  "accounted R T (l @ l') \<longleftrightarrow> accounted R T l \<and> accounted (R \<union> reported l) (T \<union> set (touched l)) l'"
  by (induction R T l rule: accounted.induct) (auto simp: Un_assoc)

lemma accounted_touched [simp]: "accounted R T (map Touched ks)"
  by (induction ks arbitrary: T) simp_all

lemma acquire_events_accounted:
  assumes "acquire_key_locks response ks s = (ok, s1)" and "T \<subseteq> R \<union> set (sy_my s)"
    and "P \<subseteq> R \<union> set (sy_my s)"
  shows "accounted R T (acquire_events response ks s) \<and>
    P \<subseteq> R \<union> reported (acquire_events response ks s) \<union> set (sy_my s1) \<and>
    (ok \<longrightarrow> set ks \<subseteq> R \<union> reported (acquire_events response ks s) \<union> set (sy_my s1)) \<and>
    touched (acquire_events response ks s) = []"
  using assms
proof (induction ks arbitrary: s R P)
  case Nil
  then show ?case by simp
next
  case (Cons k ks)
  show ?case
  proof (cases rule: acquire_key_lock_cases [of k s response])
    case free
    then show ?thesis
      using Cons.prems Cons.IH [of "s\<lparr>sy_my := emplace_key k (sy_my s)\<rparr>" R "insert k P"] by auto
  next
    case (granted st g)
    then show ?thesis
      using Cons.prems Cons.IH [of "s\<lparr>sy_my := [k], sy_store := st, sy_exists := fold emplace_key g []\<rparr>"
          "R \<union> set (sy_my s)" "insert k P"]
      by auto
  next
    case (refused st)
    then show ?thesis using Cons.prems by auto
  qed
qed

lemma refused_last:
  "acquire_key_locks response ks s = (False, s1) \<Longrightarrow>
     \<exists>l k own. acquire_events response ks s = l @ [Asked k own None]"
proof (induction ks arbitrary: s)
  case (Cons k ks)
  show ?case
  proof (cases rule: acquire_key_lock_cases [of k s response])
    case free
    then show ?thesis using Cons by simp
  next
    case (granted st g)
    then obtain l k' own where "acquire_events response ks
        (s\<lparr>sy_my := [k], sy_store := st, sy_exists := fold emplace_key g []\<rparr>) = l @ [Asked k' own None]"
      using Cons by fastforce
    then show ?thesis
      using granted by (intro exI [of _ "Asked k (sy_my s) (Some g) # l"]) auto
  next
    case (refused st)
    then show ?thesis by auto
  qed
qed simp

text \<open>One access of the transaction, from any state.\<close>

lemma access_rules:
  assumes "sync_access ops response a s = (ok, s1)" and "T \<subseteq> R \<union> set (sy_my s)"
  defines "l \<equiv> access_events response a s"
  shows "guarded (set (sy_exists s)) {} l" "foreign_after (set (sy_exists s)) l = set (sy_exists s1)"
    "accounted R T l" "T \<union> set (touched l) \<subseteq> R \<union> reported l \<union> set (sy_my s1)"
    "touched l = (if ok then access_keys a else [])"
    "\<not> ok \<Longrightarrow> \<exists>l' k own. l = l' @ [Asked k own None]"
proof -
  obtain ok2 s2 where r2: "acquire_key_locks response (access_keys a) s = (ok2, s2)" by fastforce
  have s2: "sy_my s1 = sy_my s2" "sy_exists s1 = sy_exists s2" and "ok2 = ok"
    using access_acquires [OF r2, of ops] assms(1) by simp_all
  then have r: "acquire_key_locks response (access_keys a) s = (ok, s2)" using r2 by simp
  have l: "l = acquire_events response (access_keys a) s @ map Touched (if ok then access_keys a else [])"
    by (simp add: l_def access_events_def r)
  have "guarded (set (sy_exists s)) {} l \<and> foreign_after (set (sy_exists s)) l = set (sy_exists s2)"
    unfolding l by (rule acquire_events_guarded [OF r, where P = "{}"]) (simp_all add: subset_iff)
  then show "guarded (set (sy_exists s)) {} l" "foreign_after (set (sy_exists s)) l = set (sy_exists s1)"
    by (simp_all add: s2)
  note acc = acquire_events_accounted [OF r assms(2,2)]
  show "accounted R T l" "T \<union> set (touched l) \<subseteq> R \<union> reported l \<union> set (sy_my s1)"
    "touched l = (if ok then access_keys a else [])"
    unfolding l s2 using acc by (auto simp: accounted_append)
  show "\<exists>l' k own. l = l' @ [Asked k own None]" if "\<not> ok"
    using refused_last [of response "access_keys a" s s2] r that unfolding l by simp
qed

text \<open>C21: Rows are accessed under their key locks.  Run any reads and writes of rows (\<open>getRow\<close>, \<open>getRows\<close>,
  \<open>setRow\<close>) from any state, with a scheduler that answers as it likes and changes the storage while the
  transaction waits.  In each access, every key is locked before any row is touched: the scheduler is
  asked exactly for keys with a foreign lock, and a foreign key is touched only after it was granted or
  reported as own in this access.  At each switch every key touched so far has been reported to the
  scheduler, and at the end each is reported or still among the own locks.  The accesses made touch
  exactly their keys, in order; the first refusal ends the run before that access touches anything.\<close>
theorem row_access_under_key_lock:
  assumes "sync_trace ops response acts s = (logs, ok, s')"
  shows "sync_run ops response acts s = (ok, s')
    \<and> all_guarded (set (sy_exists s)) logs
    \<and> accounted {} {} (concat logs)
    \<and> set (touched (concat logs)) \<subseteq> reported (concat logs) \<union> set (sy_my s')
    \<and> (\<exists>n \<le> length acts. map touched logs = map access_keys (take n acts) @ (if ok then [] else [[]])
        \<and> (ok \<longleftrightarrow> n = length acts))
    \<and> (ok \<or> (\<exists>l k own. last logs = l @ [Asked k own None]))"
proof -
  have "sync_run ops response acts s = (ok, s') \<and> all_guarded (set (sy_exists s)) logs
    \<and> accounted R T (concat logs)
    \<and> T \<union> set (touched (concat logs)) \<subseteq> R \<union> reported (concat logs) \<union> set (sy_my s')
    \<and> (\<exists>n \<le> length acts. map touched logs = map access_keys (take n acts) @ (if ok then [] else [[]])
        \<and> (ok \<longleftrightarrow> n = length acts))
    \<and> (ok \<or> (\<exists>l k own. last logs = l @ [Asked k own None]))"
    if "T \<subseteq> R \<union> set (sy_my s)" for R T
    using assms that
  proof (induction acts arbitrary: s logs R T)
    case Nil
    then show ?case by auto
  next
    case (Cons a acts)
    obtain ok1 s1 where a: "sync_access ops response a s = (ok1, s1)" by fastforce
    note A = access_rules [OF a Cons.prems(2)]
    show ?case
    proof (cases ok1)
      case False
      then have "logs = [access_events response a s]" "\<not> ok" "s' = s1"
        using Cons.prems(1) a by (auto simp: sync_access_logged)
      then show ?thesis using A a False by auto
    next
      case True
      then obtain ls where ls: "sync_trace ops response acts s1 = (ls, ok, s')"
          "logs = access_events response a s # ls"
        using Cons.prems(1) a by (auto simp: sync_access_logged split: prod.splits)
      note I = Cons.IH [OF ls(1) A(4)]
      then obtain n where n: "n \<le> length acts"
          "map touched ls = map access_keys (take n acts) @ (if ok then [] else [[]])" "ok \<longleftrightarrow> n = length acts"
        by blast
      have "\<exists>n \<le> length (a # acts). map touched logs = map access_keys (take n (a # acts)) @ (if ok then [] else [[]])
          \<and> (ok \<longleftrightarrow> n = length (a # acts))"
        using n A(5) True ls(2) by (intro exI [of _ "Suc n"]) auto
      moreover have "ok \<or> (\<exists>l k own. last logs = l @ [Asked k own None])"
        using I n ls(2) by (cases "ls = []") auto
      ultimately show ?thesis using I A a True ls(2) by (auto simp: accounted_append)
    qed
  qed
  from this [of "{}" "{}"] show ?thesis by simp
qed

text \<open>Another transaction holds \<open>b\<close>.  A write of \<open>a\<close> and a read of \<open>c\<close> and \<open>b\<close>, for which the scheduler
  is told \<open>a\<close> and \<open>c\<close>; then it refuses \<open>d\<close>, which the grant of \<open>b\<close> listed.\<close>

definition busy_scheduler :: "mem scheduler" where
  "busy_scheduler m k own = (if k = ''b'' then Granted m [''d''] else Revert m)"

definition busy_accesses :: "row_access list" where
  "busy_accesses = [SetRow ''t'' ''a'' (Some ''1''), GetRows ''t'' [''c'', ''b''], GetRow ''t'' ''d'', GetRow ''t'' ''a'']"

definition busy_start :: "mem sync_storage" where
  "busy_start = \<lparr>sy_store = mem_empty, sy_exists = [''b''], sy_my = []\<rparr>"

lemma sync_trace_step:
  "sync_trace ops response (a # as) s = (case sync_access ops response a s of
     (False, s1) \<Rightarrow> ([access_events response a s], False, s1)
   | (True, s1) \<Rightarrow> (case sync_trace ops response as s1 of
       (ls, ok, s2) \<Rightarrow> (access_events response a s # ls, ok, s2)))"
  by (simp add: sync_access_logged split: prod.split bool.split)

lemma busy_trace: "\<exists>s'. sync_trace mem_ops busy_scheduler busy_accesses busy_start =
    ([[Touched ''a''], [Asked ''b'' [''a'', ''c''] (Some [''d'']), Touched ''c'', Touched ''b''],
      [Asked ''d'' [''b''] None]], False, s') \<and> sy_my s' = []"
  by (simp add: busy_accesses_def busy_start_def busy_scheduler_def sync_trace_step access_events_def
      sync_get_row_def sync_get_rows_def sync_set_row_def acquire_key_lock_def mem_empty_def
      external_acquire_key_locks_def export_key_locks_def import_exists_key_locks_def Let_def
      del: sync_trace.simps(2))

theorem row_access_under_key_lock_witness:
  "\<not> fst (sync_run mem_ops busy_scheduler busy_accesses busy_start)
    \<and> all_guarded {''b''} [[Touched ''a''], [Asked ''b'' [''a'', ''c''] (Some [''d'']), Touched ''c'', Touched ''b''],
      [Asked ''d'' [''b''] None]]"
proof -
  obtain s' where t: "sync_trace mem_ops busy_scheduler busy_accesses busy_start =
    ([[Touched ''a''], [Asked ''b'' [''a'', ''c''] (Some [''d'']), Touched ''c'', Touched ''b''],
      [Asked ''d'' [''b''] None]], False, s')"
    using busy_trace by blast
  note w = row_access_under_key_lock [OF t]
  have "\<not> fst (sync_run mem_ops busy_scheduler busy_accesses busy_start)"
    using conjunct1 [OF w] by simp
  moreover have "all_guarded {''b''} [[Touched ''a''], [Asked ''b'' [''a'', ''c''] (Some [''d'']), Touched ''c'', Touched ''b''],
      [Asked ''d'' [''b''] None]]"
    using conjunct1 [OF conjunct2 [OF w]] by (simp only: busy_start_def sync_storage.simps list.set)
  ultimately show ?thesis by (rule conjI)
qed

lemma acquire_key_locks_free:
  assumes "sy_exists s = []" and "sorted_wrt (<) (sy_my s)"
  shows "\<exists>s'. acquire_key_locks response ks s = (True, s') \<and> sy_exists s' = [] \<and> sy_store s' = sy_store s
    \<and> set (sy_my s') = set ks \<union> set (sy_my s) \<and> sorted_wrt (<) (sy_my s')"
  using assms
proof (induction ks arbitrary: s)
  case Nil
  then show ?case by simp
next
  case (Cons k ks)
  let ?s = "s\<lparr>sy_my := emplace_key k (sy_my s)\<rparr>"
  have "sy_exists ?s = []" "sorted_wrt (<) (sy_my ?s)"
    using Cons.prems by (simp_all add: sorted_emplace_key)
  from Cons.IH [OF this] show ?case using Cons.prems(1) by (auto simp: acquire_free)
qed

text \<open>What a transaction reports to the scheduler when it switches is complete and exact:
  after acquiring any keys (in any order, with repetitions) without foreign locks, the exported
  list is the increasing list of those keys without repetition, and nothing is kept.\<close>
theorem exported_locks_exact:
  assumes "sy_exists s = []" and "sy_my s = []" and "acquire_key_locks response ks s = (ok, s1)"
    and "export_key_locks s1 = (own, s2)"
  shows "ok \<and> own = sorted_list_of_set (set ks) \<and> sy_my s2 = [] \<and> sy_store s2 = sy_store s"
proof -
  have facts: "ok" "sy_store s1 = sy_store s" "set (sy_my s1) = set ks" "sorted_wrt (<) (sy_my s1)"
    using acquire_key_locks_free [of s response ks] assms by auto
  then have "sy_my s1 = sorted_list_of_set (set ks)"
    by (metis finite_set set_sorted_list_of_set strict_sorted_equal strict_sorted_list_of_set)
  then show ?thesis using facts assms(4) by (auto simp: export_key_locks_def)
qed

theorem exported_locks_exact_witness:
  "fst (export_key_locks (snd (acquire_key_locks (\<lambda>s k own. Revert s) [''b'', ''a'', ''b'']
     \<lparr>sy_store = (0 :: nat), sy_exists = [], sy_my = []\<rparr>))) = [''a'', ''b'']"
proof -
  let ?s = "\<lparr>sy_store = (0 :: nat), sy_exists = [], sy_my = []\<rparr>"
  obtain ok s1 where a: "acquire_key_locks (\<lambda>s k own. Revert s) [''b'', ''a'', ''b''] ?s = (ok, s1)"
    by (metis surj_pair)
  obtain own s2 where e: "export_key_locks s1 = (own, s2)" by (metis surj_pair)
  have "own = sorted_list_of_set (set [''b'', ''a'', ''b''])"
    using exported_locks_exact [OF _ _ a e] by simp
  moreover have "sorted_list_of_set (set [''b'', ''a'', ''b'']) = [''a'', ''b'']"
    by (simp add: insert_commute)
  ultimately show ?thesis using a e by simp
qed

end
