(* ===== verification/LruStorage.thy ===== *)
theory LruStorage imports Storage begin

text \<open>
  \<open>LRUStorage\<close> (\<open>include/bcos-executor/LRUStorage.h\<close>, \<open>src/storage/LRUStorage.cpp\<close>): the
  cached storage with the queue of touched keys and the list of keys by recency, oldest
  first, that the cleaner thread keeps.  The underlying \<open>StateStorage\<close>, its \<open>capacity()\<close> and
  the effect of writing a \<open>PURGED\<close> entry are parameters; capacities are \<open>size_t\<close> words.
\<close>

type_synonym entry_key = "string \<times> string"

record 's lru =
  lr_store :: 's
  lr_mru :: "entry_key list"
  lr_queue :: "entry_key list"
  lr_max :: u64
  lr_running :: bool

definition new_lru :: "'s \<Rightarrow> 's lru" where
  "new_lru s = \<lparr>lr_store = s, lr_mru = [], lr_queue = [], lr_max = 32 * 1024 * 1024,
                lr_running = False\<rparr>"

definition update_mru :: "entry_key \<Rightarrow> 's lru \<Rightarrow> 's lru" where
  "update_mru e l = l\<lparr>lr_queue := lr_queue l @ [e]\<rparr>"

definition lru_get_row ::
    "'s storage_ops \<Rightarrow> string \<Rightarrow> string \<Rightarrow> 's lru \<Rightarrow> string option \<times> 's lru" where
  "lru_get_row ops t k l =
     (case st_get ops (lr_store l) t k of
        (None, s) \<Rightarrow> (None, l\<lparr>lr_store := s\<rparr>)
      | (Some e, s) \<Rightarrow> (Some e, update_mru (t, k) (l\<lparr>lr_store := s\<rparr>)))"

text \<open>\<open>asyncGetRows\<close>: all rows are read, then the keys that exist are queued in order.\<close>

definition lru_get_rows ::
    "'s storage_ops \<Rightarrow> string \<Rightarrow> string list \<Rightarrow> 's lru \<Rightarrow> string option list \<times> 's lru" where
  "lru_get_rows ops t ks l =
     (let (es, s) = get_each ops t ks (lr_store l);
          touched = map (\<lambda>(k, e). (t, k)) (filter (\<lambda>(k, e). e \<noteq> None) (zip ks es))
      in (es, fold update_mru touched (l\<lparr>lr_store := s\<rparr>)))"

definition lru_set_row ::
    "'s storage_ops \<Rightarrow> string \<Rightarrow> string \<Rightarrow> string option \<Rightarrow> 's lru \<Rightarrow> 's lru" where
  "lru_set_row ops t k v l =
     (let l1 = update_mru (t, k) l in
      l1\<lparr>lr_store := (case v of Some x \<Rightarrow> st_set ops (lr_store l1) t k x
                            | None \<Rightarrow> st_del ops (lr_store l1) t k)\<rparr>)"

text \<open>\<open>merge\<close>, given the traversed rows of the other storage.\<close>

definition lru_merge ::
    "'s storage_ops \<Rightarrow> (string \<times> string \<times> string option) list \<Rightarrow> 's lru \<Rightarrow> 's lru" where
  "lru_merge ops rows l = fold (\<lambda>(t, k, v). lru_set_row ops t k v) rows l"

definition lru_start :: "'s lru \<Rightarrow> 's lru" where
  "lru_start l = l\<lparr>lr_running := True\<rparr>"

definition lru_stop :: "'s lru \<Rightarrow> 's lru" where
  "lru_stop l =
     (if lr_running l then l\<lparr>lr_running := False, lr_queue := lr_queue l @ [([], [])]\<rparr> else l)"

section \<open>The cleaner thread\<close>

text \<open>\<open>emplace_back\<close> on the hashed-unique list; an existing key is moved to the end.\<close>

definition mru_touch :: "entry_key \<Rightarrow> entry_key list \<Rightarrow> entry_key list" where
  "mru_touch e xs = (if e \<in> set xs then removeAll e xs @ [e] else xs @ [e])"

definition is_stop :: "entry_key \<Rightarrow> bool" where
  "is_stop e \<longleftrightarrow> fst e = [] \<and> snd e = []"

text \<open>The inner loop; \<open>purge\<close> writes the purged entry, \<open>cap\<close> is the capacity in use.\<close>

fun clear_loop :: "('s \<Rightarrow> u64) \<Rightarrow> (entry_key \<Rightarrow> 's \<Rightarrow> 's) \<Rightarrow> u64 \<Rightarrow> entry_key list \<Rightarrow> 's
     \<Rightarrow> entry_key list \<times> 's" where
  "clear_loop cap purge mx [] s = ([], s)"
| "clear_loop cap purge mx (e # es) s =
     (if cap s > (mx * 2) div 3 then clear_loop cap purge mx es (purge e s) else (e # es, s))"

text \<open>One turn of \<open>startLoop\<close>; the flag says that the loop goes on.\<close>

definition clean_turn :: "('s \<Rightarrow> u64) \<Rightarrow> (entry_key \<Rightarrow> 's \<Rightarrow> 's) \<Rightarrow> 's lru \<Rightarrow> bool \<times> 's lru" where
  "clean_turn cap purge l =
     (case lr_queue l of
        [] \<Rightarrow> (True, l)
      | e # q \<Rightarrow>
          (let l1 = l\<lparr>lr_queue := q\<rparr> in
           if is_stop e then (False, l1)
           else let mru = mru_touch e (lr_mru l1) in
             if cap (lr_store l1) > lr_max l1
             then (let (m, s) = clear_loop cap purge (lr_max l1) mru (lr_store l1)
                   in (True, l1\<lparr>lr_mru := m, lr_store := s\<rparr>))
             else (True, l1\<lparr>lr_mru := mru\<rparr>)))"

fun clean_turns :: "('s \<Rightarrow> u64) \<Rightarrow> (entry_key \<Rightarrow> 's \<Rightarrow> 's) \<Rightarrow> nat \<Rightarrow> 's lru \<Rightarrow> 's lru" where
  "clean_turns cap purge 0 l = l"
| "clean_turns cap purge (Suc n) l =
     (case clean_turn cap purge l of
        (False, l1) \<Rightarrow> l1
      | (True, l1) \<Rightarrow> clean_turns cap purge n l1)"

section \<open>The cache as a storage\<close>

definition lru_ops :: "'s storage_ops \<Rightarrow> 's lru storage_ops" where
  "lru_ops ops = \<lparr>
     st_open = (\<lambda>l t. st_open ops (lr_store l) t),
     st_create = (\<lambda>l t f. let (ok, s) = st_create ops (lr_store l) t f in (ok, l\<lparr>lr_store := s\<rparr>)),
     st_get = (\<lambda>l t k. lru_get_row ops t k l),
     st_set = (\<lambda>l t k v. lru_set_row ops t k (Some v) l),
     st_del = (\<lambda>l t k. lru_set_row ops t k None l),
     st_sys = st_sys ops\<rparr>"

lemma update_mru_simps [simp]:
  "lr_store (update_mru e l) = lr_store l" "lr_mru (update_mru e l) = lr_mru l"
  "lr_queue (update_mru e l) = lr_queue l @ [e]" "lr_max (update_mru e l) = lr_max l"
  by (simp_all add: update_mru_def)

lemma lru_get_row_store:
  "fst (lru_get_row ops t k l) = fst (st_get ops (lr_store l) t k)"
  "lr_store (snd (lru_get_row ops t k l)) = snd (st_get ops (lr_store l) t k)"
  by (simp_all add: lru_get_row_def split: prod.split option.split)

lemma lru_set_row_store:
  "lr_store (lru_set_row ops t k v l) =
     (case v of Some x \<Rightarrow> st_set ops (lr_store l) t k x | None \<Rightarrow> st_del ops (lr_store l) t k)"
  by (cases v) (simp_all add: lru_set_row_def Let_def)

locale lru_cache = table_storage

sublocale lru_cache \<subseteq> cached: table_storage "lru_ops ops" "\<lambda>l. inv (lr_store l)"
proof
  show "hd (st_sys (lru_ops ops)) \<noteq> CHR ''/''" "st_sys (lru_ops ops) \<noteq> []"
    using sys_name by (simp_all add: lru_ops_def)
qed (auto simp: lru_ops_def row_def lru_get_row_store lru_set_row_store case_prod_unfold Let_def
    get_inv get_open set_inv set_open del_inv del_open create_inv create_ok create_open
    get_row [unfolded row_def] set_row [unfolded row_def] del_row [unfolded row_def]
    create_row [unfolded row_def] closed_row [unfolded row_def])

interpretation mem_lru: lru_cache mem_ops "\<lambda>_. True" ..

section \<open>Eviction order\<close>

lemma set_mru_touch: "set (mru_touch e xs) = insert e (set xs)"
  by (auto simp: mru_touch_def)

lemma distinct_mru_touch: "distinct xs \<Longrightarrow> distinct (mru_touch e xs)"
  by (simp add: mru_touch_def distinct_removeAll)

lemma last_mru_touch: "last (mru_touch e xs) = e"
  by (simp add: mru_touch_def)

lemma clear_loop_prefix:
  "\<exists>n. fst (clear_loop cap purge mx xs s) = drop n xs
     \<and> snd (clear_loop cap purge mx xs s) = fold purge (take n xs) s
     \<and> (cap (snd (clear_loop cap purge mx xs s)) \<le> (mx * 2) div 3
        \<or> fst (clear_loop cap purge mx xs s) = [])
     \<and> (\<forall>m < n. (mx * 2) div 3 < cap (fold purge (take m xs) s))"
proof (induction cap purge mx xs s rule: clear_loop.induct)
  case (1 cap purge mx s)
  then show ?case by (intro exI [of _ 0]) simp
next
  case (2 cap purge mx e es s)
  show ?case
  proof (cases "cap s > (mx * 2) div 3")
    case True
    from 2 [OF True] obtain n where n:
      "fst (clear_loop cap purge mx es (purge e s)) = drop n es"
      "snd (clear_loop cap purge mx es (purge e s)) = fold purge (take n es) (purge e s)"
      "cap (snd (clear_loop cap purge mx es (purge e s))) \<le> (mx * 2) div 3
        \<or> fst (clear_loop cap purge mx es (purge e s)) = []"
      "\<forall>m < n. (mx * 2) div 3 < cap (fold purge (take m es) (purge e s))"
      by blast
    have "(mx * 2) div 3 < cap (fold purge (take m (e # es)) s)" if "m < Suc n" for m
      using that n(4) True by (cases m) auto
    then show ?thesis using True n(1-3) by (intro exI [of _ "Suc n"]) simp
  next
    case False
    then show ?thesis by (intro exI [of _ 0]) simp
  qed
qed

text \<open>C32: the cleaner keeps every key once in its list and puts the touched key last; when the
  cache is over its capacity it purges the least recently used keys one by one, no more than
  needed, until two thirds of the capacity are in use or no key is left.\<close>
theorem lru_eviction:
  assumes "distinct (lr_mru l)" and "lr_queue l = e # q" and "\<not> is_stop e"
    and "clean_turn cap purge l = (goes_on, l')"
  shows "goes_on \<and> lr_queue l' = q \<and> distinct (lr_mru l') \<and> (\<exists>n.
      lr_mru l' = drop n (removeAll e (lr_mru l) @ [e])
    \<and> lr_store l' = fold purge (take n (removeAll e (lr_mru l) @ [e])) (lr_store l)
    \<and> (if cap (lr_store l) > lr_max l
       then (cap (lr_store l') \<le> (lr_max l * 2) div 3 \<or> lr_mru l' = [])
         \<and> (\<forall>m < n. (lr_max l * 2) div 3 <
               cap (fold purge (take m (removeAll e (lr_mru l) @ [e])) (lr_store l)))
       else n = 0))"
proof -
  let ?m = "removeAll e (lr_mru l) @ [e]"
  have touch: "mru_touch e (lr_mru l) = ?m" by (simp add: mru_touch_def)
  obtain n where n: "fst (clear_loop cap purge (lr_max l) ?m (lr_store l)) = drop n ?m"
      "snd (clear_loop cap purge (lr_max l) ?m (lr_store l)) = fold purge (take n ?m) (lr_store l)"
      "cap (snd (clear_loop cap purge (lr_max l) ?m (lr_store l))) \<le> (lr_max l * 2) div 3
        \<or> fst (clear_loop cap purge (lr_max l) ?m (lr_store l)) = []"
      "\<forall>m < n. (lr_max l * 2) div 3 < cap (fold purge (take m ?m) (lr_store l))"
    using clear_loop_prefix [of cap purge "lr_max l" ?m "lr_store l"] by (elim exE conjE)
  have dist: "distinct (drop k ?m)" for k
    using assms(1) by (intro distinct_drop) (simp add: distinct_removeAll)
  show ?thesis
  proof (cases "cap (lr_store l) > lr_max l")
    case True
    then have "clean_turn cap purge l = (True, l\<lparr>lr_queue := q, lr_mru := drop n ?m,
        lr_store := fold purge (take n ?m) (lr_store l)\<rparr>)"
      using assms(2,3) by (simp add: clean_turn_def touch case_prod_unfold Let_def n(1,2))
    then have l': "goes_on" "lr_queue l' = q" "lr_mru l' = drop n ?m"
        "lr_store l' = fold purge (take n ?m) (lr_store l)"
      using assms(4) by simp_all
    have "cap (lr_store l') \<le> (lr_max l * 2) div 3 \<or> lr_mru l' = []"
      using n(1-3) l'(3,4) by simp
    then show ?thesis
      unfolding l'(3) using True l' dist n(4) by (intro conjI exI [of _ n]) simp_all
  next
    case False
    then have "clean_turn cap purge l = (True, l\<lparr>lr_queue := q, lr_mru := ?m\<rparr>)"
      using assms(2,3) by (simp add: clean_turn_def touch Let_def)
    then have "goes_on" "lr_queue l' = q" "lr_mru l' = ?m" "lr_store l' = lr_store l"
      using assms(4) by simp_all
    then show ?thesis using False dist [of 0] by (intro conjI exI [of _ 0]) simp_all
  qed
qed

text \<open>A store that is its number of live keys, each of size 30.\<close>

theorem lru_eviction_witness:
  "lr_mru (snd (clean_turn (\<lambda>n :: nat. of_nat (30 * n)) (\<lambda>_ n. n - 1)
     \<lparr>lr_store = 4, lr_mru = [(''t'', ''a''), (''t'', ''b''), (''t'', ''c'')],
      lr_queue = [(''t'', ''a'')], lr_max = 100, lr_running = True\<rparr>)) = [(''t'', ''a'')]"
proof -
  let ?l = "\<lparr>lr_store = 4 :: nat, lr_mru = [(''t'', ''a''), (''t'', ''b''), (''t'', ''c'')],
      lr_queue = [(''t'', ''a'')], lr_max = 100, lr_running = True\<rparr>"
  let ?c = "\<lambda>n :: nat. of_nat (30 * n) :: u64" and ?p = "\<lambda>_ n :: nat. n - 1"
  obtain g l' where r: "clean_turn ?c ?p ?l = (g, l')" by (metis surj_pair)
  have "g \<and> lr_queue l' = [] \<and> distinct (lr_mru l')"
    using lru_eviction [OF _ _ _ r] by (simp add: is_stop_def)
  moreover have "lr_mru l' = [(''t'', ''a'')]"
    using r by (auto simp: clean_turn_def is_stop_def mru_touch_def Let_def)
  ultimately show ?thesis using r by simp
qed

end
