(* ===== verification/ContractAuth.thy ===== *)
theory ContractAuth imports Storage Codec Gas begin

text \<open>
  The access control of contracts, \<open>ContractAuthPrecompiled\<close>
  (\<open>src/precompiled/extension/ContractAuthPrecompiled.cpp\<close>): who may call a method of a
  contract (white and black lists in the table \<open>/apps/<contract>_accessAuth\<close>) and who may
  deploy contracts (lists in \<open>/apps\<close>).  Checks read the storage of the previous block when there
  is one (\<open>lastStorage\<close>), changes go to the current storage.

  Calls carry their decoded arguments.  Addresses are byte lists with their hexadecimal text
  as a parameter; the maps in the rows are association lists with the SCALE codec as a
  parameter, decoding giving \<open>None\<close> when it throws.  Reading a row of a table that is not there is
  undefined behaviour in C++ and is the value \<open>Undef\<close> here, an exception is \<open>Throw\<close>.
\<close>

type_synonym address = bytes

type_synonym type_map = "(bytes \<times> u256) list"
type_synonym user_map = "(address \<times> bool) list"
type_synonym method_map = "(bytes \<times> user_map) list"

record 's auth_env =
  ae_ops :: "'s storage_ops"
  ae_hex :: "address \<Rightarrow> string"
  ae_unhex :: "string \<Rightarrow> address"
  ae_committee :: string
  ae_num_str :: "u256 \<Rightarrow> string"
  ae_num :: "string \<Rightarrow> u256 option"
  ae_types :: "(type_map \<Rightarrow> string) \<times> (string \<Rightarrow> type_map option)"
  ae_methods :: "(method_map \<Rightarrow> string) \<times> (string \<Rightarrow> method_map option)"
  ae_users :: "(user_map \<Rightarrow> string) \<times> (string \<Rightarrow> user_map option)"

record 's auth_state =
  as_last :: "'s option"
  as_now :: 's
  as_gas :: precompiled_gas

section \<open>Constants\<close>

definition CODE_NO_AUTHORIZED :: int where "CODE_NO_AUTHORIZED = -50000"
definition CODE_TABLE_AUTH_TYPE_DECODE_ERROR :: int where
  "CODE_TABLE_AUTH_TYPE_DECODE_ERROR = -51004"
definition CODE_TABLE_ERROR_AUTH_TYPE :: int where "CODE_TABLE_ERROR_AUTH_TYPE = -51003"
definition CODE_TABLE_AUTH_TYPE_NOT_EXIST :: int where
  "CODE_TABLE_AUTH_TYPE_NOT_EXIST = -51002"
definition CODE_TABLE_AUTH_ROW_NOT_EXIST :: int where "CODE_TABLE_AUTH_ROW_NOT_EXIST = -51001"
definition CODE_TABLE_NOT_EXIST :: int where "CODE_TABLE_NOT_EXIST = -50100"

lemmas auth_codes = CODE_NO_AUTHORIZED_def CODE_TABLE_AUTH_TYPE_DECODE_ERROR_def
  CODE_TABLE_ERROR_AUTH_TYPE_def CODE_TABLE_AUTH_TYPE_NOT_EXIST_def
  CODE_TABLE_AUTH_ROW_NOT_EXIST_def CODE_TABLE_NOT_EXIST_def

definition ADMIN_FIELD :: string where "ADMIN_FIELD = ''admin''"
definition METHOD_AUTH_TYPE :: string where "METHOD_AUTH_TYPE = ''method_auth_type''"
definition METHOD_AUTH_WHITE :: string where "METHOD_AUTH_WHITE = ''method_auth_white''"
definition METHOD_AUTH_BLACK :: string where "METHOD_AUTH_BLACK = ''method_auth_black''"
definition FS_ACL_TYPE :: string where "FS_ACL_TYPE = ''acl_type''"
definition FS_ACL_WHITE :: string where "FS_ACL_WHITE = ''acl_white''"
definition FS_ACL_BLACK :: string where "FS_ACL_BLACK = ''acl_black''"
definition APPS :: string where "APPS = ''/apps''"

lemmas auth_rows = ADMIN_FIELD_def METHOD_AUTH_TYPE_def METHOD_AUTH_WHITE_def
  METHOD_AUTH_BLACK_def FS_ACL_TYPE_def FS_ACL_WHITE_def FS_ACL_BLACK_def

definition auth_table :: "string \<Rightarrow> string" where
  "auth_table path = ''/apps/'' @ path @ ''_accessAuth''"

section \<open>Reading\<close>

text \<open>Tables of the last block when its storage is there, of the current storage otherwise.\<close>

definition last_open :: "'s auth_env \<Rightarrow> string \<Rightarrow> 's auth_state \<Rightarrow> bool" where
  "last_open e t a =
     (case as_last a of Some l \<Rightarrow> st_open (ae_ops e) l t | None \<Rightarrow> st_open (ae_ops e) (as_now a) t)"

definition last_get ::
    "'s auth_env \<Rightarrow> string \<Rightarrow> string \<Rightarrow> 's auth_state \<Rightarrow> string option \<times> 's auth_state" where
  "last_get e t k a =
     (case as_last a of
        Some l \<Rightarrow> (let (v, l') = st_get (ae_ops e) l t k in (v, a\<lparr>as_last := Some l'\<rparr>))
      | None \<Rightarrow> (let (v, s') = st_get (ae_ops e) (as_now a) t k in (v, a\<lparr>as_now := s'\<rparr>)))"

definition get_method_auth_type ::
    "'s auth_env \<Rightarrow> string \<Rightarrow> bytes \<Rightarrow> 's auth_state \<Rightarrow> int eval \<times> 's auth_state" where
  "get_method_auth_type e path func a =
     (if \<not> last_open e path a then (Undef, a)
      else case last_get e path METHOD_AUTH_TYPE a of
        (None, a1) \<Rightarrow> (Val CODE_TABLE_AUTH_TYPE_NOT_EXIST, a1)
      | (Some v, a1) \<Rightarrow>
          (if v = [] then (Val CODE_TABLE_AUTH_TYPE_NOT_EXIST, a1)
           else case snd (ae_types e) v of
             None \<Rightarrow> (Val CODE_TABLE_AUTH_TYPE_DECODE_ERROR, a1)
           | Some m \<Rightarrow> (case map_of m func of
                          None \<Rightarrow> (Val CODE_TABLE_AUTH_TYPE_NOT_EXIST, a1)
                        | Some t \<Rightarrow> (Val (sint t), a1))))"

definition get_contract_admin ::
    "'s auth_env \<Rightarrow> string \<Rightarrow> 's auth_state \<Rightarrow> string \<times> 's auth_state" where
  "get_contract_admin e path a =
     (if \<not> last_open e path a then ([], a)
      else case last_get e path ADMIN_FIELD a of
        (None, a1) \<Rightarrow> ([], a1) | (Some v, a1) \<Rightarrow> (v, a1))"

definition get_deploy_auth_type ::
    "'s auth_env \<Rightarrow> 's auth_state \<Rightarrow> u256 eval \<times> 's auth_state" where
  "get_deploy_auth_type e a =
     (if \<not> last_open e APPS a then (Undef, a)
      else case last_get e APPS FS_ACL_TYPE a of
        (None, a1) \<Rightarrow> (Undef, a1)
      | (Some v, a1) \<Rightarrow> (case ae_num e v of None \<Rightarrow> (Val 0, a1) | Some t \<Rightarrow> (Val t, a1)))"

section \<open>Checks\<close>

text \<open>The answer of a list for an account, in white (1) or black (2) list mode.\<close>

definition user_access :: "bool \<Rightarrow> user_map \<Rightarrow> address \<Rightarrow> bool" where
  "user_access black m account =
     (case map_of m account of
        None \<Rightarrow> black
      | Some b \<Rightarrow> if black then \<not> b else b)"

definition check_method_auth ::
    "'s auth_env \<Rightarrow> string \<Rightarrow> bytes \<Rightarrow> address \<Rightarrow> 's auth_state \<Rightarrow> bool eval \<times> 's auth_state" where
  "check_method_auth e contract func account a =
     (let path = auth_table contract in
      if \<not> last_open e path a then (Val True, a)
      else case get_method_auth_type e path func a of
        (Val t, a1) \<Rightarrow>
          (if t = CODE_TABLE_AUTH_TYPE_NOT_EXIST then (Val True, a1)
           else if t = 1 \<or> t = 2 then
             (case last_get e path (if t = 1 then METHOD_AUTH_WHITE else METHOD_AUTH_BLACK) a1 of
                (None, a2) \<Rightarrow> (Val (t = 2), a2)
              | (Some v, a2) \<Rightarrow>
                  (if v = [] then (Val (t = 2), a2)
                   else case snd (ae_methods e) v of
                     None \<Rightarrow> (Throw ''decode'', a2)
                   | Some m \<Rightarrow> (case map_of m func of
                                  None \<Rightarrow> (Val True, a2)
                                | Some us \<Rightarrow> (Val (user_access (t = 2) us account), a2))))
           else (Val False, a1))
      | (Throw m, a1) \<Rightarrow> (Throw m, a1)
      | (Undef, a1) \<Rightarrow> (Undef, a1))"

definition check_deploy_auth ::
    "'s auth_env \<Rightarrow> address \<Rightarrow> 's auth_state \<Rightarrow> bool eval \<times> 's auth_state" where
  "check_deploy_auth e account a =
     (case get_deploy_auth_type e a of
        (Val t, a1) \<Rightarrow>
          (if t = 0 then (Val True, a1)
           else case last_get e APPS (if t = 1 then FS_ACL_WHITE else FS_ACL_BLACK) a1 of
             (None, a2) \<Rightarrow> (Undef, a2)
           | (Some v, a2) \<Rightarrow>
               (if v = [] then (Val (t = 2), a2)
                else case snd (ae_users e) v of
                  None \<Rightarrow> (Throw ''decode'', a2)
                | Some m \<Rightarrow> (Val (user_access (t = 2) m account), a2)))
      | (Throw m, a1) \<Rightarrow> (Throw m, a1)
      | (Undef, a1) \<Rightarrow> (Undef, a1))"

section \<open>Methods\<close>

datatype auth_answer =
    NoResult
  | AddressAns address
  | CodeAns int
  | BoolAns bool
  | TypeAns int
  | DeployTypeAns u256
  | Raised string
  | UndefAns

fun bool_answer :: "bool eval \<Rightarrow> auth_answer" where
  "bool_answer (Val b) = BoolAns b"
| "bool_answer (Throw m) = Raised m"
| "bool_answer Undef = UndefAns"

definition charge :: "'s auth_state \<Rightarrow> 's auth_state" where
  "charge a = a\<lparr>as_gas := append_operation OpSet 1 (update_mem_used 1 (as_gas a))\<rparr>"

text \<open>Rows of the current storage.\<close>

definition now_get ::
    "'s auth_env \<Rightarrow> string \<Rightarrow> string \<Rightarrow> 's auth_state \<Rightarrow> string option \<times> 's auth_state" where
  "now_get e t k a = (let (v, s') = st_get (ae_ops e) (as_now a) t k in (v, a\<lparr>as_now := s'\<rparr>))"

definition now_set ::
    "'s auth_env \<Rightarrow> string \<Rightarrow> string \<Rightarrow> string \<Rightarrow> 's auth_state \<Rightarrow> 's auth_state" where
  "now_set e t k v a = a\<lparr>as_now := st_set (ae_ops e) (as_now a) t k v\<rparr>"

definition get_admin ::
    "'s auth_env \<Rightarrow> string \<Rightarrow> 's auth_state \<Rightarrow> auth_answer \<times> 's auth_state" where
  "get_admin e contract a =
     (let (admin, a1) = get_contract_admin e (auth_table contract) a in
      if admin = [] then (AddressAns (replicate 20 0), a1)
      else (AddressAns (ae_unhex e admin), a1\<lparr>as_gas := update_mem_used 1 (as_gas a1)\<rparr>))"

definition reset_admin ::
    "'s auth_env \<Rightarrow> string \<Rightarrow> address \<Rightarrow> string \<Rightarrow> 's auth_state \<Rightarrow> auth_answer \<times> 's auth_state" where
  "reset_admin e contract admin sender a =
     (if sender \<noteq> ae_committee e then (CodeAns CODE_NO_AUTHORIZED, a)
      else let path = auth_table contract in
        if \<not> st_open (ae_ops e) (as_now a) path
        then (Raised ''Contract address not found.'', a)
        else case now_get e path ADMIN_FIELD a of
          (None, a1) \<Rightarrow> (Raised ''Contract address not found.'', a1)
        | (Some _, a1) \<Rightarrow>
            (CodeAns 0, charge (now_set e path ADMIN_FIELD (ae_hex e admin) a1)))"

definition set_method_auth_type ::
    "'s auth_env \<Rightarrow> string \<Rightarrow> bytes \<Rightarrow> u8 \<Rightarrow> string \<Rightarrow> 's auth_state
     \<Rightarrow> auth_answer \<times> 's auth_state" where
  "set_method_auth_type e contract func type sender a =
     (let path = auth_table contract in
      if \<not> st_open (ae_ops e) (as_now a) path then (CodeAns CODE_TABLE_NOT_EXIST, a)
      else let (admin, a1) = get_contract_admin e path a in
        if ae_unhex e sender \<noteq> ae_unhex e admin then (CodeAns CODE_NO_AUTHORIZED, a1)
        else case now_get e path METHOD_AUTH_TYPE a1 of
          (None, a2) \<Rightarrow> (CodeAns CODE_TABLE_AUTH_ROW_NOT_EXIST, a2)
        | (Some v, a2) \<Rightarrow>
            (case (if v = [] then Some [] else snd (ae_types e) v) of
               None \<Rightarrow> (Raised ''decode'', a2)
             | Some m \<Rightarrow>
                 (CodeAns 0, charge (now_set e path METHOD_AUTH_TYPE
                    (fst (ae_types e) (AList.update func (ucast type) m)) a2))))"

text \<open>\<open>setMethodAuth\<close>, behind \<open>openMethodAuth\<close> and \<open>closeMethodAuth\<close>.\<close>

definition set_user :: "bytes \<Rightarrow> address \<Rightarrow> bool \<Rightarrow> method_map \<Rightarrow> method_map" where
  "set_user func account access m =
     AList.update func
       (case map_of m func of
          Some us \<Rightarrow> AList.update account access us
        | None \<Rightarrow> [(account, access)]) m"

definition write_method_access ::
    "'s auth_env \<Rightarrow> string \<Rightarrow> string \<Rightarrow> bytes \<Rightarrow> address \<Rightarrow> bool \<Rightarrow> 's auth_state
     \<Rightarrow> auth_answer \<times> 's auth_state" where
  "write_method_access e path k func account access a =
     (let (r, a1) = now_get e path k a; v = (case r of None \<Rightarrow> [] | Some v \<Rightarrow> v)
      in case (if v = [] then Some [] else snd (ae_methods e) v) of
           None \<Rightarrow> (CodeAns CODE_TABLE_AUTH_ROW_NOT_EXIST, a1)
         | Some m \<Rightarrow>
             (CodeAns 0, charge (now_set e path k
                (fst (ae_methods e) (set_user func account access m)) a1)))"

definition set_method_auth ::
    "'s auth_env \<Rightarrow> string \<Rightarrow> bytes \<Rightarrow> address \<Rightarrow> bool \<Rightarrow> string \<Rightarrow> 's auth_state
     \<Rightarrow> auth_answer \<times> 's auth_state" where
  "set_method_auth e contract func account is_close sender a =
     (let path = auth_table contract in
      if \<not> st_open (ae_ops e) (as_now a) path then (CodeAns CODE_TABLE_NOT_EXIST, a)
      else case get_method_auth_type e path func a of
        (Throw m, a1) \<Rightarrow> (Raised m, a1)
      | (Undef, a1) \<Rightarrow> (UndefAns, a1)
      | (Val t, a1) \<Rightarrow>
        (if t \<le> 0 then (TypeAns t, a1)
         else let (admin, a2) = get_contract_admin e path a1 in
           if ae_unhex e sender \<noteq> ae_unhex e admin then (CodeAns CODE_NO_AUTHORIZED, a2)
           else if t \<noteq> 1 \<and> t \<noteq> 2 then (CodeAns CODE_TABLE_ERROR_AUTH_TYPE, a2)
           else write_method_access e path (if t = 1 then METHOD_AUTH_WHITE else METHOD_AUTH_BLACK)
                  func account (if is_close then t = 2 else t = 1) a2))"

definition get_deploy_type :: "'s auth_env \<Rightarrow> 's auth_state \<Rightarrow> auth_answer \<times> 's auth_state" where
  "get_deploy_type e a =
     (case get_deploy_auth_type e a of
        (Val t, a1) \<Rightarrow> (DeployTypeAns t, a1\<lparr>as_gas := update_mem_used 1 (as_gas a1)\<rparr>)
      | (Throw m, a1) \<Rightarrow> (Raised m, a1)
      | (Undef, a1) \<Rightarrow> (UndefAns, a1))"

definition set_deploy_type ::
    "'s auth_env \<Rightarrow> u8 \<Rightarrow> string \<Rightarrow> 's auth_state \<Rightarrow> auth_answer \<times> 's auth_state" where
  "set_deploy_type e type sender a =
     (if sender \<noteq> ae_committee e then (CodeAns CODE_NO_AUTHORIZED, a)
      else if type > 2 then (CodeAns CODE_TABLE_ERROR_AUTH_TYPE, a)
      else if \<not> st_open (ae_ops e) (as_now a) APPS then (UndefAns, a)
      else (CodeAns 0, charge (now_set e APPS FS_ACL_TYPE (ae_num_str e (ucast type)) a)))"

text \<open>\<open>setDeployAuth\<close>, behind \<open>openDeployAuth\<close> and \<open>closeDeployAuth\<close>.\<close>

definition set_deploy_auth ::
    "'s auth_env \<Rightarrow> address \<Rightarrow> bool \<Rightarrow> string \<Rightarrow> 's auth_state \<Rightarrow> auth_answer \<times> 's auth_state" where
  "set_deploy_auth e account is_close sender a =
     (if sender \<noteq> ae_committee e then (CodeAns CODE_NO_AUTHORIZED, a)
      else if \<not> st_open (ae_ops e) (as_now a) APPS then (UndefAns, a)
      else case get_deploy_auth_type e a of
        (Throw m, a1) \<Rightarrow> (Raised m, a1)
      | (Undef, a1) \<Rightarrow> (UndefAns, a1)
      | (Val t, a1) \<Rightarrow>
        (let k = (if t = 2 then FS_ACL_BLACK else FS_ACL_WHITE) in
         case now_get e APPS k a1 of
           (None, a2) \<Rightarrow> (UndefAns, a2)
         | (Some v, a2) \<Rightarrow>
             (case (if v = [] then Some [] else snd (ae_users e) v) of
                None \<Rightarrow> (Raised ''decode'', a2)
              | Some m \<Rightarrow>
                  (let access = (if is_close then t = 2 else t = 1)
                   in (CodeAns 0, charge (now_set e APPS k
                         (fst (ae_users e) (AList.update account access m)) a2))))))"

section \<open>The dispatcher\<close>

datatype auth_call =
    GetAdmin string
  | ResetAdmin string address
  | SetMethodAuthType string bytes u8
  | OpenMethodAuth string bytes address
  | CloseMethodAuth string bytes address
  | CheckMethodAuth string bytes address
  | DeployType
  | SetDeployType u8
  | OpenDeployAuth address
  | CloseDeployAuth address
  | HasDeployAuth address
  | AuthUnknown

fun auth_run ::
    "'s auth_env \<Rightarrow> auth_call \<Rightarrow> string \<Rightarrow> 's auth_state \<Rightarrow> auth_answer \<times> 's auth_state" where
  "auth_run e (GetAdmin c) sender a = get_admin e c a"
| "auth_run e (ResetAdmin c admin) sender a = reset_admin e c admin sender a"
| "auth_run e (SetMethodAuthType c f t) sender a = set_method_auth_type e c f t sender a"
| "auth_run e (OpenMethodAuth c f u) sender a = set_method_auth e c f u False sender a"
| "auth_run e (CloseMethodAuth c f u) sender a = set_method_auth e c f u True sender a"
| "auth_run e (CheckMethodAuth c f u) sender a =
     map_prod bool_answer id (check_method_auth e c f u a)"
| "auth_run e DeployType sender a = get_deploy_type e a"
| "auth_run e (SetDeployType t) sender a = set_deploy_type e t sender a"
| "auth_run e (OpenDeployAuth u) sender a = set_deploy_auth e u False sender a"
| "auth_run e (CloseDeployAuth u) sender a = set_deploy_auth e u True sender a"
| "auth_run e (HasDeployAuth u) sender a = map_prod bool_answer id (check_deploy_auth e u a)"
| "auth_run e AuthUnknown sender a = (NoResult, a)"

text \<open>\<open>call\<close>: the parameter's size opens the meter, the encoded answer closes it; an
  exception passes through.\<close>

definition auth_dispatch ::
    "'s auth_env \<Rightarrow> (auth_answer \<Rightarrow> bytes) \<Rightarrow> nat \<Rightarrow> auth_call \<Rightarrow> string \<Rightarrow> 's option \<Rightarrow> 's
     \<Rightarrow> (bytes \<times> u64) eval \<times> 's" where
  "auth_dispatch e enc n c sender prev s =
     (let (ans, a) = auth_run e c sender
            \<lparr>as_last = prev, as_now = s,
             as_gas = create_precompiled_gas\<lparr>mem_used := of_nat n\<rparr>\<rparr>
      in case ans of
           Raised m \<Rightarrow> (Throw m, as_now a)
         | UndefAns \<Rightarrow> (Undef, as_now a)
         | _ \<Rightarrow> (let out = (if ans = NoResult then [] else enc ans)
                in (Val (out, cal_total_gas (update_mem_used (of_nat (length out)) (as_gas a))),
                    as_now a)))"

end
