(* ===== verification/ContractAuthSpec.thy ===== *)
theory ContractAuthSpec imports ContractAuth begin

text \<open>
  Correctness of \<open>ContractAuth\<close>: the checks as pure functions of the stored rows, the effect of
  opening and closing an access on later checks, and who can change what.  The locale \<open>auth\<close>
  collects the contracts of the storage and of the external codecs; it is interpreted on the
  map store with a codec for countable types.
\<close>

section \<open>Decisions as functions of the rows\<close>

definition method_type_of :: "'s auth_env \<Rightarrow> string option \<Rightarrow> bytes \<Rightarrow> int" where
  "method_type_of e r func =
     (case r of
        None \<Rightarrow> CODE_TABLE_AUTH_TYPE_NOT_EXIST
      | Some v \<Rightarrow>
          (if v = [] then CODE_TABLE_AUTH_TYPE_NOT_EXIST
           else case snd (ae_types e) v of
             None \<Rightarrow> CODE_TABLE_AUTH_TYPE_DECODE_ERROR
           | Some m \<Rightarrow> (case map_of m func of
                          None \<Rightarrow> CODE_TABLE_AUTH_TYPE_NOT_EXIST | Some t \<Rightarrow> sint t)))"

definition method_decision ::
    "'s auth_env \<Rightarrow> int \<Rightarrow> string option \<Rightarrow> bytes \<Rightarrow> address \<Rightarrow> bool eval" where
  "method_decision e t r func account =
     (case r of
        None \<Rightarrow> Val (t = 2)
      | Some v \<Rightarrow>
          (if v = [] then Val (t = 2)
           else case snd (ae_methods e) v of
             None \<Rightarrow> Throw ''decode''
           | Some m \<Rightarrow> (case map_of m func of
                          None \<Rightarrow> Val True
                        | Some us \<Rightarrow> Val (user_access (t = 2) us account))))"

definition list_row :: "int \<Rightarrow> string" where
  "list_row t = (if t = 1 then METHOD_AUTH_WHITE else METHOD_AUTH_BLACK)"

definition method_mode :: "'s auth_env \<Rightarrow> 's \<Rightarrow> string \<Rightarrow> bytes \<Rightarrow> int" where
  "method_mode e s c func = method_type_of e (row (ae_ops e) s (auth_table c) METHOD_AUTH_TYPE) func"

definition deploy_mode :: "'s auth_env \<Rightarrow> 's \<Rightarrow> u256 option" where
  "deploy_mode e s = map_option (\<lambda>v. case ae_num e v of None \<Rightarrow> 0 | Some t \<Rightarrow> t) (row (ae_ops e) s APPS FS_ACL_TYPE)"

text \<open>The list of accounts a change is written to, and the one a check reads.\<close>

definition acl_written :: "u256 \<Rightarrow> string" where
  "acl_written t = (if t = 2 then FS_ACL_BLACK else FS_ACL_WHITE)"

definition acl_read :: "u256 \<Rightarrow> string" where
  "acl_read t = (if t = 1 then FS_ACL_WHITE else FS_ACL_BLACK)"

text \<open>The storage that checks read.\<close>

definition src :: "'s auth_state \<Rightarrow> 's" where
  "src a = (case as_last a of Some l \<Rightarrow> l | None \<Rightarrow> as_now a)"

definition method_check :: "'s auth_env \<Rightarrow> string \<Rightarrow> bytes \<Rightarrow> address \<Rightarrow> 's \<Rightarrow> bool eval" where
  "method_check e contract func account s =
     (let p = auth_table contract; t = method_type_of e (row (ae_ops e) s p METHOD_AUTH_TYPE) func in
      if \<not> st_open (ae_ops e) s p \<or> t = CODE_TABLE_AUTH_TYPE_NOT_EXIST then Val True
      else if t = 1 \<or> t = 2
        then method_decision e t (row (ae_ops e) s p (list_row t)) func account
      else Val False)"

definition deploy_check :: "'s auth_env \<Rightarrow> address \<Rightarrow> 's \<Rightarrow> bool eval" where
  "deploy_check e account s =
     (case row (ae_ops e) s APPS FS_ACL_TYPE of
        None \<Rightarrow> Undef
      | Some v \<Rightarrow>
          (let t = (case ae_num e v of None \<Rightarrow> 0 | Some t \<Rightarrow> t) in
           if t = 0 then Val True
           else case row (ae_ops e) s APPS (if t = 1 then FS_ACL_WHITE else FS_ACL_BLACK) of
             None \<Rightarrow> Undef
           | Some r \<Rightarrow>
               (if r = [] then Val (t = 2)
                else case snd (ae_users e) r of
                  None \<Rightarrow> Throw ''decode''
                | Some m \<Rightarrow> Val (user_access (t = 2) m account))))"

text \<open>The caller-visible content of the two storages.\<close>

definition same_rows :: "'s auth_env \<Rightarrow> 's \<Rightarrow> 's \<Rightarrow> bool" where
  "same_rows e s s' \<longleftrightarrow> (\<forall>t k. row (ae_ops e) s' t k = row (ae_ops e) s t k)
     \<and> (\<forall>t. st_open (ae_ops e) s' t = st_open (ae_ops e) s t)"

text \<open>The list that decides about \<open>func\<close> has an entry for it.\<close>

definition listed :: "'s auth_env \<Rightarrow> 's \<Rightarrow> string \<Rightarrow> bytes \<Rightarrow> bool" where
  "listed e s c func \<longleftrightarrow>
     (let t = method_type_of e (row (ae_ops e) s (auth_table c) METHOD_AUTH_TYPE) func in
      case row (ae_ops e) s (auth_table c) (list_row t) of
        None \<Rightarrow> False
      | Some v \<Rightarrow> v \<noteq> [] \<and> (case snd (ae_methods e) v of
                              None \<Rightarrow> False | Some m \<Rightarrow> map_of m func \<noteq> None))"

definition contract_admin :: "'s auth_env \<Rightarrow> 's \<Rightarrow> string \<Rightarrow> string" where
  "contract_admin e s c = (case row (ae_ops e) s (auth_table c) ADMIN_FIELD of
     None \<Rightarrow> [] | Some v \<Rightarrow> v)"

text \<open>The contract whose lists a call changes.\<close>

fun changed_contract :: "auth_call \<Rightarrow> string option" where
  "changed_contract (SetMethodAuthType c f t) = Some c"
| "changed_contract (OpenMethodAuth c f u) = Some c"
| "changed_contract (CloseMethodAuth c f u) = Some c"
| "changed_contract call = None"

locale auth = table_storage "ae_ops e" inv
  + types: text_codec "fst (ae_types e)" "snd (ae_types e)"
  + methods: text_codec "fst (ae_methods e)" "snd (ae_methods e)"
  + users: text_codec "fst (ae_users e)" "snd (ae_users e)"
  for e :: "'s auth_env" and inv +
  assumes num_str: "ae_num e (ae_num_str e n) = Some n"
    and unhex_hex: "ae_unhex e (ae_hex e x) = x"
begin

definition ok :: "'s auth_state \<Rightarrow> bool" where
  "ok a \<longleftrightarrow> inv (as_now a) \<and> inv (src a)"

definition same :: "'s auth_state \<Rightarrow> 's auth_state \<Rightarrow> bool" where
  "same a a' \<longleftrightarrow> ok a' \<and> same_rows e (src a) (src a') \<and> same_rows e (as_now a) (as_now a')"

lemma same_refl: "ok a \<Longrightarrow> same a a"
  by (simp add: same_def same_rows_def)

lemma same_trans: "same a b \<Longrightarrow> same b c \<Longrightarrow> same a c"
  by (simp add: same_def same_rows_def)

lemma same_rowsD:
  assumes "same a b"
  shows "row (ae_ops e) (src b) t k = row (ae_ops e) (src a) t k"
    "row (ae_ops e) (as_now b) t k = row (ae_ops e) (as_now a) t k"
    "st_open (ae_ops e) (src b) t = st_open (ae_ops e) (src a) t"
    "st_open (ae_ops e) (as_now b) t = st_open (ae_ops e) (as_now a) t"
    "ok b"
  using assms unfolding same_def same_rows_def by blast+

lemma last_open_src: "last_open e t a = st_open (ae_ops e) (src a) t"
  by (simp add: last_open_def src_def split: option.split)

lemma last_get_same:
  assumes "ok a"
  shows "fst (last_get e t k a) = row (ae_ops e) (src a) t k" "same a (snd (last_get e t k a))"
  using assms
  by (auto simp: last_get_def src_def row_def same_def same_rows_def ok_def case_prod_unfold Let_def
      get_inv get_open get_row [unfolded row_def] split: option.split)

lemma now_get_same:
  assumes "ok a"
  shows "fst (now_get e t k a) = row (ae_ops e) (as_now a) t k" "same a (snd (now_get e t k a))"
  using assms
  by (auto simp: now_get_def src_def row_def same_def same_rows_def ok_def case_prod_unfold Let_def
      get_inv get_open get_row [unfolded row_def] split: option.splits)

lemma last_getE:
  assumes "ok a"
  obtains a' where "last_get e t k a = (row (ae_ops e) (src a) t k, a')" "same a a'"
  using last_get_same [OF assms, of t k] by (metis prod.collapse)

lemma now_getE:
  assumes "ok a"
  obtains a' where "now_get e t k a = (row (ae_ops e) (as_now a) t k, a')" "same a a'"
  using now_get_same [OF assms, of t k] by (metis prod.collapse)

lemma method_typeE:
  assumes "ok a"
  obtains a' where "get_method_auth_type e p func a =
      (if st_open (ae_ops e) (src a) p
       then Val (method_type_of e (row (ae_ops e) (src a) p METHOD_AUTH_TYPE) func) else Undef, a')"
    "same a a'"
proof -
  obtain a' where g: "last_get e p METHOD_AUTH_TYPE a
      = (row (ae_ops e) (src a) p METHOD_AUTH_TYPE, a')" "same a a'"
    by (rule last_getE [OF assms])
  show thesis
    by (rule that [of "if st_open (ae_ops e) (src a) p then a' else a"])
      (auto simp: get_method_auth_type_def last_open_src g method_type_of_def same_refl [OF assms]
        split: option.split)
qed

lemma adminE:
  assumes "ok a"
  obtains a' where "get_contract_admin e p a =
      (case row (ae_ops e) (src a) p ADMIN_FIELD of None \<Rightarrow> [] | Some v \<Rightarrow> v, a')" "same a a'"
proof -
  obtain a' where g: "last_get e p ADMIN_FIELD a = (row (ae_ops e) (src a) p ADMIN_FIELD, a')"
      "same a a'"
    by (rule last_getE [OF assms])
  have "row (ae_ops e) (src a) p ADMIN_FIELD = None" if "\<not> st_open (ae_ops e) (src a) p"
    using closed_row [OF _ that] assms by (simp add: ok_def)
  then show thesis
    by (intro that [of "if st_open (ae_ops e) (src a) p then a' else a"])
      (auto simp: get_contract_admin_def last_open_src g same_refl [OF assms] split: option.split)
qed

lemma check_method:
  assumes "ok a"
  shows "fst (check_method_auth e c func account a) = method_check e c func account (src a)"
    and "same a (snd (check_method_auth e c func account a))"
proof -
  let ?p = "auth_table c"
  obtain a1 where 1: "get_method_auth_type e ?p func a =
      (if st_open (ae_ops e) (src a) ?p
       then Val (method_type_of e (row (ae_ops e) (src a) ?p METHOD_AUTH_TYPE) func) else Undef, a1)"
      "same a a1"
    by (rule method_typeE [OF assms])
  obtain k where k: "k = list_row (method_type_of e (row (ae_ops e) (src a) ?p METHOD_AUTH_TYPE) func)"
    by blast
  obtain a2 where 2: "last_get e ?p k a1 = (row (ae_ops e) (src a) ?p k, a2)" "same a1 a2"
    using last_getE [OF same_rowsD(5) [OF 1(2)], of ?p k] same_rowsD(1) [OF 1(2)] by metis
  have s2: "same a a2" by (rule same_trans [OF 1(2) 2(2)])
  show "fst (check_method_auth e c func account a) = method_check e c func account (src a)"
    using 2(1) k
    by (auto simp: check_method_auth_def method_check_def last_open_src 1 method_decision_def Let_def
        list_row_def split: option.split if_splits)
  show "same a (snd (check_method_auth e c func account a))"
    using 2(1) k s2 same_refl [OF assms] 1(2)
    by (auto simp: check_method_auth_def last_open_src 1 Let_def list_row_def
        split: option.split if_splits)
qed

lemma deploy_typeE:
  assumes "ok a"
  obtains a' where "get_deploy_auth_type e a =
      (case row (ae_ops e) (src a) APPS FS_ACL_TYPE of
         None \<Rightarrow> Undef | Some v \<Rightarrow> Val (case ae_num e v of None \<Rightarrow> 0 | Some t \<Rightarrow> t), a')"
    "same a a'"
proof -
  obtain a' where g: "last_get e APPS FS_ACL_TYPE a = (row (ae_ops e) (src a) APPS FS_ACL_TYPE, a')"
      "same a a'"
    by (rule last_getE [OF assms])
  have "row (ae_ops e) (src a) APPS FS_ACL_TYPE = None" if "\<not> st_open (ae_ops e) (src a) APPS"
    using closed_row [OF _ that] assms by (simp add: ok_def)
  then show thesis
    by (intro that [of "if st_open (ae_ops e) (src a) APPS then a' else a"])
      (auto simp: get_deploy_auth_type_def last_open_src g same_refl [OF assms] split: option.split)
qed

lemma check_deploy:
  assumes "ok a"
  shows "fst (check_deploy_auth e account a) = deploy_check e account (src a)"
    and "same a (snd (check_deploy_auth e account a))"
proof -
  obtain a1 where 1: "get_deploy_auth_type e a =
      (case row (ae_ops e) (src a) APPS FS_ACL_TYPE of
         None \<Rightarrow> Undef | Some v \<Rightarrow> Val (case ae_num e v of None \<Rightarrow> 0 | Some t \<Rightarrow> t), a1)" "same a a1"
    by (rule deploy_typeE [OF assms])
  have 2: "\<exists>a2. last_get e APPS k a1 = (row (ae_ops e) (src a) APPS k, a2) \<and> same a a2" for k
    using last_getE [OF same_rowsD(5) [OF 1(2)], of APPS k] same_rowsD(1) [OF 1(2)]
      same_trans [OF 1(2)] by metis
  obtain w where w: "last_get e APPS FS_ACL_WHITE a1 = (row (ae_ops e) (src a) APPS FS_ACL_WHITE, w)"
      "same a w" using 2 by blast
  obtain b where b: "last_get e APPS FS_ACL_BLACK a1 = (row (ae_ops e) (src a) APPS FS_ACL_BLACK, b)"
      "same a b" using 2 by blast
  show "fst (check_deploy_auth e account a) = deploy_check e account (src a)"
    by (auto simp: check_deploy_auth_def deploy_check_def 1(1) w(1) b(1) Let_def split: option.split)
  show "same a (snd (check_deploy_auth e account a))"
    using w(2) b(2) 1(2)
    by (auto simp: check_deploy_auth_def 1(1) w(1) b(1) Let_def split: option.split)
qed

lemma auth_table_not_sys: "auth_table c \<noteq> st_sys (ae_ops e)" "APPS \<noteq> st_sys (ae_ops e)"
  using path_not_sys by (simp_all add: auth_table_def APPS_def)

lemma now_set_rows:
  assumes "ok a" and "st_open (ae_ops e) (as_now a) p" and "p \<noteq> st_sys (ae_ops e)"
  shows "row (ae_ops e) (as_now (now_set e p k v a)) t j =
      (if t = p \<and> j = k then Some v else row (ae_ops e) (as_now a) t j)"
    "st_open (ae_ops e) (as_now (now_set e p k v a)) t = st_open (ae_ops e) (as_now a) t"
    "inv (as_now (now_set e p k v a))"
  using assms set_row set_open set_inv by (simp_all add: now_set_def ok_def)

lemma charge_now [simp]: "as_now (charge a) = as_now a" "as_last (charge a) = as_last a"
  by (simp_all add: charge_def)

text \<open>A successful change of a method's list.\<close>

lemma set_method_authE:
  assumes "ok a" and run: "set_method_auth e c func account is_close sender a = (CodeAns 0, a')"
  obtains t m where "t = method_type_of e (row (ae_ops e) (src a) (auth_table c) METHOD_AUTH_TYPE) func"
    "t = 1 \<or> t = 2" "st_open (ae_ops e) (as_now a) (auth_table c)" "inv (as_now a')"
    "(case row (ae_ops e) (as_now a) (auth_table c) (list_row t) of
        None \<Rightarrow> m = [] | Some v \<Rightarrow> if v = [] then m = [] else snd (ae_methods e) v = Some m)"
    "\<And>p j. row (ae_ops e) (as_now a') p j =
       (if p = auth_table c \<and> j = list_row t
        then Some (fst (ae_methods e)
          (set_user func account (if is_close then t = 2 else t = 1) m))
        else row (ae_ops e) (as_now a) p j)"
    "\<And>p. st_open (ae_ops e) (as_now a') p = st_open (ae_ops e) (as_now a) p"
proof -
  let ?p = "auth_table c" and ?R = "row (ae_ops e)"
  obtain t where t_def: "t = method_type_of e (?R (src a) ?p METHOD_AUTH_TYPE) func" by blast
  let ?v = "case ?R (as_now a) ?p (list_row t) of None \<Rightarrow> [] | Some v \<Rightarrow> v"
  obtain a1 where 1: "get_method_auth_type e ?p func a =
      (if st_open (ae_ops e) (src a) ?p then Val t else Undef, a1)" "same a a1"
    by (rule method_typeE [OF assms(1), of ?p func, folded t_def])
  obtain adm a2 where 2: "get_contract_admin e ?p a1 = (adm, a2)" "same a1 a2"
    by (rule adminE [OF same_rowsD(5) [OF 1(2)], of ?p]) auto
  have s2: "same a a2" by (rule same_trans [OF 1(2) 2(2)])
  obtain a3 where 3: "now_get e ?p (list_row t) a2 = (?R (as_now a) ?p (list_row t), a3)"
      "same a2 a3"
    using now_getE [OF same_rowsD(5) [OF s2], of ?p "list_row t"] same_rowsD(2) [OF s2] by metis
  have s3: "same a a3" by (rule same_trans [OF s2 3(2)])
  have open_p: "st_open (ae_ops e) (as_now a) ?p"
    using run by (auto simp: set_method_auth_def Let_def auth_codes split: if_splits)
  have src_p: "st_open (ae_ops e) (src a) ?p" and t0: "\<not> t \<le> 0"
    and adm: "ae_unhex e sender = ae_unhex e adm" and t: "t = 1 \<or> t = 2"
    using run open_p by (auto simp: set_method_auth_def Let_def 1(1) 2(1) auth_codes split: if_splits)
  have k: "(if t = 1 then METHOD_AUTH_WHITE else METHOD_AUTH_BLACK) = list_row t"
    by (simp add: list_row_def)
  define acc where "acc = (if is_close then t = 2 else t = 1)"
  have "write_method_access e ?p (list_row t) func account acc a2 = (CodeAns 0, a')"
    using run open_p src_p t0 adm t
    by (auto simp: set_method_auth_def Let_def 1(1) 2(1) list_row_def acc_def)
  then have "(case (if ?v = [] then Some [] else snd (ae_methods e) ?v) of
           None \<Rightarrow> (CodeAns CODE_TABLE_AUTH_ROW_NOT_EXIST, a3)
         | Some m \<Rightarrow> (CodeAns 0, charge (now_set e ?p (list_row t)
              (fst (ae_methods e) (set_user func account acc m)) a3))) = (CodeAns 0, a')"
    unfolding write_method_access_def 3(1) Let_def by simp
  then obtain m where m: "(if ?v = [] then Some [] else snd (ae_methods e) ?v) = Some m"
      "a' = charge (now_set e ?p (list_row t) (fst (ae_methods e) (set_user func account acc m)) a3)"
    by (auto simp: auth_codes split: option.splits if_splits)
  note rows = now_set_rows [OF same_rowsD(5) [OF s3] _ auth_table_not_sys(1), of c,
      unfolded same_rowsD(4) [OF s3], OF open_p]
  show thesis
  proof (rule that [OF t_def t open_p, of m])
    show "inv (as_now a')" using rows(3) by (simp add: m(2))
    show "case ?R (as_now a) ?p (list_row t) of
        None \<Rightarrow> m = [] | Some v \<Rightarrow> if v = [] then m = [] else snd (ae_methods e) v = Some m"
      using m(1) by (auto split: option.splits if_splits)
    show "?R (as_now a') p j = (if p = ?p \<and> j = list_row t
        then Some (fst (ae_methods e) (set_user func account (if is_close then t = 2 else t = 1) m))
        else ?R (as_now a) p j)" for p j
      using rows(1) same_rowsD(2) [OF s3] by (simp add: m(2) acc_def)
    show "st_open (ae_ops e) (as_now a') p = st_open (ae_ops e) (as_now a) p" for p
      using rows(2) same_rowsD(4) [OF s3] by (simp add: m(2))
  qed
qed

definition changed ::
    "string \<Rightarrow> bytes \<Rightarrow> address \<Rightarrow> bool \<Rightarrow> 's auth_state \<Rightarrow> 's auth_state \<Rightarrow> int \<Rightarrow> method_map \<Rightarrow> bool" where
  "changed c func account is_close a a' t m \<longleftrightarrow>
     t = method_type_of e (row (ae_ops e) (src a) (auth_table c) METHOD_AUTH_TYPE) func
   \<and> (t = 1 \<or> t = 2) \<and> st_open (ae_ops e) (as_now a) (auth_table c) \<and> inv (as_now a')
   \<and> (case row (ae_ops e) (as_now a) (auth_table c) (list_row t) of
        None \<Rightarrow> m = [] | Some v \<Rightarrow> if v = [] then m = [] else snd (ae_methods e) v = Some m)
   \<and> (\<forall>p j. row (ae_ops e) (as_now a') p j =
        (if p = auth_table c \<and> j = list_row t
         then Some (fst (ae_methods e)
           (set_user func account (if is_close then t = 2 else t = 1) m))
         else row (ae_ops e) (as_now a) p j))
   \<and> (\<forall>p. st_open (ae_ops e) (as_now a') p = st_open (ae_ops e) (as_now a) p)"

lemma set_method_auth_changed:
  assumes "ok a" and "set_method_auth e c func account is_close sender a = (CodeAns 0, a')"
  shows "\<exists>t m. changed c func account is_close a a' t m"
proof (rule set_method_authE [OF assms])
  fix t m
  assume facts: "t = method_type_of e (row (ae_ops e) (src a) (auth_table c) METHOD_AUTH_TYPE) func"
    "t = 1 \<or> t = 2" "st_open (ae_ops e) (as_now a) (auth_table c)" "inv (as_now a')"
    "case row (ae_ops e) (as_now a) (auth_table c) (list_row t) of
        None \<Rightarrow> m = [] | Some v \<Rightarrow> if v = [] then m = [] else snd (ae_methods e) v = Some m"
    "\<And>p j. row (ae_ops e) (as_now a') p j =
        (if p = auth_table c \<and> j = list_row t
         then Some (fst (ae_methods e)
           (set_user func account (if is_close then t = 2 else t = 1) m))
         else row (ae_ops e) (as_now a) p j)"
    "\<And>p. st_open (ae_ops e) (as_now a') p = st_open (ae_ops e) (as_now a) p"
  show ?thesis
    by (rule exI [of _ t], rule exI [of _ m], unfold changed_def) (intro conjI allI facts)
qed

lemma changedD:
  assumes "changed c func account is_close a a' t m"
  shows "t = method_type_of e (row (ae_ops e) (src a) (auth_table c) METHOD_AUTH_TYPE) func"
    "t = 1 \<or> t = 2" "st_open (ae_ops e) (as_now a) (auth_table c)" "inv (as_now a')"
    "case row (ae_ops e) (as_now a) (auth_table c) (list_row t) of
        None \<Rightarrow> m = [] | Some v \<Rightarrow> if v = [] then m = [] else snd (ae_methods e) v = Some m"
    "row (ae_ops e) (as_now a') p j =
        (if p = auth_table c \<and> j = list_row t
         then Some (fst (ae_methods e)
           (set_user func account (if is_close then t = 2 else t = 1) m))
         else row (ae_ops e) (as_now a) p j)"
    "st_open (ae_ops e) (as_now a') p = st_open (ae_ops e) (as_now a) p"
  by (insert assms [unfolded changed_def], (elim conjE, assumption)+) blast+

lemma rows_distinct [simp]:
  "METHOD_AUTH_TYPE \<noteq> list_row t" "list_row t \<noteq> METHOD_AUTH_TYPE"
  "list_row t = list_row t' \<longleftrightarrow> (t = 1 \<longleftrightarrow> t' = 1)"
  by (auto simp: list_row_def auth_rows)

lemma map_of_set_user:
  "map_of (set_user func account access m) f =
     (if f = func
      then Some (case map_of m func of
                   Some us \<Rightarrow> AList.update account access us | None \<Rightarrow> [(account, access)])
      else map_of m f)"
  by (simp add: set_user_def update_conv)

lemma auth_table_inj [simp]: "auth_table c = auth_table c' \<longleftrightarrow> c = c'"
  by (simp add: auth_table_def)

lemma method_check_cong:
  assumes "st_open (ae_ops e) s' (auth_table c) = st_open (ae_ops e) s (auth_table c)"
    and "row (ae_ops e) s' (auth_table c) METHOD_AUTH_TYPE =
      row (ae_ops e) s (auth_table c) METHOD_AUTH_TYPE"
    and "t = method_type_of e (row (ae_ops e) s (auth_table c) METHOD_AUTH_TYPE) f"
    and "method_decision e t (row (ae_ops e) s' (auth_table c) (list_row t)) f u =
      method_decision e t (row (ae_ops e) s (auth_table c) (list_row t)) f u"
  shows "method_check e c f u s' = method_check e c f u s"
  using assms(1,2,4) by (simp add: method_check_def Let_def assms(3))

lemma method_auth_effect:
  assumes a: "ok a" and run: "set_method_auth e c func account is_close sender a = (CodeAns 0, a')"
  defines "t \<equiv> method_mode e (src a) c func"
  shows "t = 1 \<or> t = 2"
    and "st_open (ae_ops e) s (auth_table c) \<Longrightarrow> method_mode e s c func = t \<Longrightarrow>
      row (ae_ops e) s (auth_table c) (list_row t) = row (ae_ops e) (as_now a') (auth_table c) (list_row t) \<Longrightarrow>
      method_check e c func account s = Val (\<not> is_close)"
    and "method_mode e (as_now a') c' f = method_mode e (as_now a) c' f"
    and "st_open (ae_ops e) (as_now a') (auth_table c)"
    and "method_mode e (as_now a) c func \<noteq> t \<Longrightarrow>
      method_check e c func account (as_now a') = method_check e c func account (as_now a)"
    and "c' \<noteq> c \<or> (listed e (as_now a) c f \<and> (f, u) \<noteq> (func, account)) \<Longrightarrow>
      method_check e c' f u (as_now a') = method_check e c' f u (as_now a)"
proof -
  let ?R = "row (ae_ops e)" and ?p = "auth_table c"
  obtain t0 m where ch: "changed c func account is_close a a' t0 m"
    using set_method_auth_changed [OF a run] by blast
  have tt: "t0 = t" using changedD(1) [OF ch] by (simp add: t_def method_mode_def)
  note t = changedD(2) [OF ch, unfolded tt] and op = changedD(3) [OF ch] and m = changedD(5) [OF ch, unfolded tt]
    and rows = changedD(6) [OF ch, unfolded tt] and opens = changedD(7) [OF ch]
  show "t = 1 \<or> t = 2" by (rule t)
  show "st_open (ae_ops e) (as_now a') (auth_table c)" by (simp add: opens op)
  show modes: "method_mode e (as_now a') c' f = method_mode e (as_now a) c' f" for c' f
    by (simp add: method_mode_def rows)
  show "method_check e c func account s = Val (\<not> is_close)"
    if s: "st_open (ae_ops e) s (auth_table c)" "method_mode e s c func = t"
      "?R s (auth_table c) (list_row t) = ?R (as_now a') (auth_table c) (list_row t)"
  proof -
    let ?acc = "if is_close then t = 2 else t = 1"
    have "method_decision e t (?R s ?p (list_row t)) func account =
        Val (user_access (t = 2) (case map_of m func of
          Some us \<Rightarrow> AList.update account ?acc us | None \<Rightarrow> [(account, ?acc)]) account)"
      by (simp add: s(3) rows method_decision_def methods.enc_not_Nil methods.dec_enc map_of_set_user)
    also have "\<dots> = Val (\<not> is_close)"
      using t by (cases "map_of m func") (auto simp: user_access_def update_conv)
    finally show ?thesis
      using t by (simp add: method_check_def s(1,2) [unfolded method_mode_def] Let_def auth_codes) auto
  qed
  show "method_check e c func account (as_now a') = method_check e c func account (as_now a)"
    if "method_mode e (as_now a) c func \<noteq> t"
    using that t by (auto simp: method_check_def method_mode_def Let_def rows opens)
  show "method_check e c' f u (as_now a') = method_check e c' f u (as_now a)"
    if other: "c' \<noteq> c \<or> (listed e (as_now a) c f \<and> (f, u) \<noteq> (func, account))"
  proof (cases "c' = c")
    case False
    then show ?thesis by (intro method_check_cong [OF _ _ refl]) (simp_all add: rows opens)
  next
    case True
    then have l: "listed e (as_now a) c f" and d: "(f, u) \<noteq> (func, account)" using other by auto
    define t' where "t' = method_type_of e (?R (as_now a) ?p METHOD_AUTH_TYPE) f"
    show ?thesis
    proof (cases "list_row t' = list_row t")
      case False
      then show ?thesis unfolding True
        by (intro method_check_cong [OF _ _ t'_def]) (simp_all add: rows opens)
    next
      case same: True
      obtain v us where v: "?R (as_now a) ?p (list_row t') = Some v" "v \<noteq> []"
          "snd (ae_methods e) v = Some m" "map_of m f = Some us"
        using l m same unfolding listed_def t'_def [symmetric] Let_def
        by (auto split: option.splits if_splits)
      have "method_decision e t' (Some (fst (ae_methods e)
          (set_user func account (if is_close then t = 2 else t = 1) m))) f u
        = method_decision e t' (Some v) f u"
        using v d
        by (cases "f = func") (simp_all add: method_decision_def methods.enc_not_Nil
            methods.dec_enc map_of_set_user user_access_def update_conv)
      then show ?thesis unfolding True
        by (intro method_check_cong [OF _ _ t'_def])
          (simp_all add: rows opens same v(1) [unfolded same])
    qed
  qed
qed

lemma method_auth_leak:
  assumes a: "ok a" and run: "set_method_auth e c func account is_close sender a = (CodeAns 0, a')"
    and types: "row (ae_ops e) (src a) (auth_table c) METHOD_AUTH_TYPE =
      row (ae_ops e) (as_now a) (auth_table c) METHOD_AUTH_TYPE"
    and white: "method_type_of e (row (ae_ops e) (as_now a) (auth_table c) METHOD_AUTH_TYPE) func = 1"
      "method_type_of e (row (ae_ops e) (as_now a) (auth_table c) METHOD_AUTH_TYPE) f = 1"
    and empty: "row (ae_ops e) (as_now a) (auth_table c) METHOD_AUTH_WHITE = Some []" and "f \<noteq> func"
  shows "method_check e c f u (as_now a) = Val False"
    and "method_check e c f u (as_now a') = Val True"
proof -
  let ?R = "row (ae_ops e)" and ?p = "auth_table c"
  have w: "list_row 1 = METHOD_AUTH_WHITE" by (simp add: list_row_def)
  obtain t m where ch: "changed c func account is_close a a' t m"
    using set_method_auth_changed [OF a run] by blast
  note t = changedD(1,2) [OF ch] and op = changedD(3) [OF ch] and m = changedD(5) [OF ch]
    and rows = changedD(6) [OF ch] and opens = changedD(7) [OF ch]
  have t1: "t = 1" using t(1) types white(1) by simp
  have "m = []" using m empty by (simp add: t1 w)
  show "method_check e c f u (as_now a) = Val False"
    by (simp add: method_check_def op white(2) auth_codes w empty method_decision_def)
  have "method_type_of e (?R (as_now a') ?p METHOD_AUTH_TYPE) f = 1"
    using white(2) by (simp add: rows)
  moreover have "method_decision e 1 (?R (as_now a') ?p (list_row 1)) f u = Val True"
    using \<open>f \<noteq> func\<close> \<open>m = []\<close>
    by (simp add: rows t1 method_decision_def methods.enc_not_Nil methods.dec_enc map_of_set_user)
  ultimately show "method_check e c f u (as_now a') = Val True"
    by (simp add: method_check_def Let_def auth_codes)
qed

section \<open>Deployment lists\<close>

lemma set_deploy_auth_rows:
  assumes "ok a" and run: "set_deploy_auth e u is_close sender a = (CodeAns 0, a')"
  shows "\<exists>v m. row (ae_ops e) (src a) APPS FS_ACL_TYPE = Some v
    \<and> (let t = (case ae_num e v of None \<Rightarrow> 0 | Some t \<Rightarrow> t);
           k = (if t = 2 then FS_ACL_BLACK else FS_ACL_WHITE) in
       (case row (ae_ops e) (as_now a) APPS k of
          None \<Rightarrow> False | Some w \<Rightarrow> if w = [] then m = [] else snd (ae_users e) w = Some m) \<and>
       (\<forall>p j. row (ae_ops e) (as_now a') p j =
        (if p = APPS \<and> j = k
         then Some (fst (ae_users e) (AList.update u (if is_close then t = 2 else t = 1) m))
         else row (ae_ops e) (as_now a) p j)))
    \<and> ok a' \<and> sender = ae_committee e"
proof -
  let ?R = "row (ae_ops e)"
  obtain a1 where 1: "get_deploy_auth_type e a = (case ?R (src a) APPS FS_ACL_TYPE of
         None \<Rightarrow> Undef | Some v \<Rightarrow> Val (case ae_num e v of None \<Rightarrow> 0 | Some t \<Rightarrow> t), a1)" "same a a1"
    by (rule deploy_typeE [OF assms(1)])
  have op: "st_open (ae_ops e) (as_now a) APPS" and com: "sender = ae_committee e"
    using run by (auto simp: set_deploy_auth_def auth_codes split: if_splits)
  obtain v where v: "?R (src a) APPS FS_ACL_TYPE = Some v"
    using run op com by (auto simp: set_deploy_auth_def 1(1) split: option.splits)
  define t where "t = (case ae_num e v of None \<Rightarrow> 0 | Some t \<Rightarrow> t)"
  define k where "k = (if t = 2 then FS_ACL_BLACK else FS_ACL_WHITE)"
  obtain a2 where 2: "now_get e APPS k a1 = (?R (as_now a) APPS k, a2)" "same a1 a2"
    using now_getE [OF same_rowsD(5) [OF 1(2)], of APPS k] same_rowsD(2) [OF 1(2)] by metis
  have s2: "same a a2" by (rule same_trans [OF 1(2) 2(2)])
  obtain w where w: "?R (as_now a) APPS k = Some w"
    using run op com
    by (auto simp: set_deploy_auth_def 1(1) v t_def [symmetric] k_def [symmetric] 2(1) Let_def
        split: option.splits)
  obtain m where wm: "(if w = [] then Some [] else snd (ae_users e) w) = Some m"
    using run op com
    by (auto simp: set_deploy_auth_def 1(1) v t_def [symmetric] k_def [symmetric] 2(1) w Let_def
        split: option.splits if_splits)
  then have m: "a' = charge (now_set e APPS k (fst (ae_users e)
      (AList.update u (if is_close then t = 2 else t = 1) m)) a2)"
    using run op com
    by (simp add: set_deploy_auth_def 1(1) v t_def [symmetric] k_def [symmetric] 2(1) w Let_def)
  note rows = now_set_rows [OF same_rowsD(5) [OF s2] _ auth_table_not_sys(2),
      unfolded same_rowsD(4) [OF s2], OF op]
  have src: "src a' = as_now a' \<or> src a' = src a2"
    by (simp add: src_def m now_set_def split: option.split)
  have "inv (as_now a')" using rows(3) by (simp add: m)
  then have "ok a'" using src same_rowsD(5) [OF s2] by (auto simp: ok_def)
  then show ?thesis
    using v com rows(1) same_rowsD(2) [OF s2]
    by (intro exI [of _ v] exI [of _ m])
      (use wm in \<open>auto simp: t_def [symmetric] k_def [symmetric] m w Let_def split: if_splits\<close>)
qed

lemma deploy_auth_effect:
  assumes "ok a" and "set_deploy_auth e u is_close sender a = (CodeAns 0, a')"
  obtains t where "deploy_mode e (src a) = Some t"
    "\<And>s. row (ae_ops e) s APPS (acl_written t) = row (ae_ops e) (as_now a') APPS (acl_written t) \<Longrightarrow>
      deploy_mode e s = Some t \<Longrightarrow> t = 1 \<or> t = 2 \<Longrightarrow> deploy_check e u s = Val (\<not> is_close)"
    "\<And>s. row (ae_ops e) s APPS (acl_written t) = row (ae_ops e) (as_now a') APPS (acl_written t) \<Longrightarrow>
      deploy_mode e s = Some 1 \<Longrightarrow> t \<noteq> 1 \<Longrightarrow> t \<noteq> 2 \<Longrightarrow> deploy_check e u s = Val False"
    "deploy_mode e (as_now a') = deploy_mode e (as_now a)"
    "\<And>t' x. deploy_mode e (as_now a) = Some t' \<Longrightarrow> acl_read t' \<noteq> acl_written t \<Longrightarrow>
      deploy_check e x (as_now a') = deploy_check e x (as_now a)"
    "\<And>x. x \<noteq> u \<Longrightarrow> deploy_check e x (as_now a') = deploy_check e x (as_now a)" "ok a'"
proof -
  let ?R = "row (ae_ops e)"
  obtain v m where v: "?R (src a) APPS FS_ACL_TYPE = Some v" and a': "ok a'"
    and eff: "let t = (case ae_num e v of None \<Rightarrow> 0 | Some t \<Rightarrow> t);
        k = (if t = 2 then FS_ACL_BLACK else FS_ACL_WHITE) in
      (case ?R (as_now a) APPS k of
        None \<Rightarrow> False | Some w \<Rightarrow> if w = [] then m = [] else snd (ae_users e) w = Some m) \<and>
      (\<forall>p j. ?R (as_now a') p j = (if p = APPS \<and> j = k
         then Some (fst (ae_users e) (AList.update u (if is_close then t = 2 else t = 1) m))
         else ?R (as_now a) p j))"
    using set_deploy_auth_rows [OF assms] by blast
  define t where "t = (case ae_num e v of None \<Rightarrow> 0 | Some t \<Rightarrow> t)"
  let ?k = "acl_written t" and ?acc = "if is_close then t = 2 else t = 1"
  have rows: "?R (as_now a') p j = (if p = APPS \<and> j = ?k
      then Some (fst (ae_users e) (AList.update u ?acc m)) else ?R (as_now a) p j)" for p j
    using eff unfolding Let_def t_def [symmetric] acl_written_def [symmetric] by blast
  obtain w where w: "?R (as_now a) APPS ?k = Some w" "if w = [] then m = [] else snd (ae_users e) w = Some m"
    using eff unfolding Let_def t_def [symmetric] acl_written_def [symmetric] by (auto split: option.splits)
  have other: "FS_ACL_TYPE \<noteq> ?k" by (simp add: auth_rows acl_written_def)
  have mode: "deploy_mode e (as_now a') = deploy_mode e (as_now a)"
    using other by (simp add: deploy_mode_def rows)
  have check: "deploy_check e x s = (case deploy_mode e s of None \<Rightarrow> Undef
      | Some t' \<Rightarrow> if t' = 0 then Val True
        else (case ?R s APPS (acl_read t') of None \<Rightarrow> Undef
          | Some r \<Rightarrow> if r = [] then Val (t' = 2) else (case snd (ae_users e) r of
              None \<Rightarrow> Throw ''decode'' | Some l \<Rightarrow> Val (user_access (t' = 2) l x))))" for x s
    by (simp add: deploy_check_def deploy_mode_def acl_read_def Let_def split: option.split)
  show thesis
  proof (rule that [of t])
    show "deploy_mode e (src a) = Some t" by (simp add: deploy_mode_def v t_def)
    show "deploy_check e u s = Val (\<not> is_close)"
      if "?R s APPS ?k = ?R (as_now a') APPS ?k" "deploy_mode e s = Some t" "t = 1 \<or> t = 2" for s
      using that(3) that(1,2) by (elim disjE) (simp_all add: check rows acl_read_def acl_written_def
          users.enc_not_Nil users.dec_enc user_access_def update_conv)
    show "deploy_check e u s = Val False"
      if "?R s APPS ?k = ?R (as_now a') APPS ?k" "deploy_mode e s = Some 1" "t \<noteq> 1" "t \<noteq> 2" for s
      using that by (simp add: check rows acl_read_def acl_written_def users.enc_not_Nil users.dec_enc
          user_access_def update_conv)
    show "deploy_mode e (as_now a') = deploy_mode e (as_now a)" by (rule mode)
    show "deploy_check e x (as_now a') = deploy_check e x (as_now a)"
      if "deploy_mode e (as_now a) = Some t'" "acl_read t' \<noteq> ?k" for t' x
      using that by (simp add: check mode rows)
    show "deploy_check e x (as_now a') = deploy_check e x (as_now a)" if "x \<noteq> u" for x
    proof (cases "deploy_mode e (as_now a)")
      case (Some t')
      show ?thesis
      proof (cases "acl_read t' = ?k")
        case True
        then show ?thesis
          using Some w that by (auto simp: check mode rows users.enc_not_Nil users.dec_enc user_access_def
              update_conv split: if_splits)
      qed (use Some in \<open>simp add: check mode rows\<close>)
    qed (simp add: check mode)
    show "ok a'" by (rule a')
  qed
qed

section \<open>Who can change what\<close>

lemma same_gas [simp]: "same a (b\<lparr>as_gas := g\<rparr>) = same a b"
  by (simp add: same_def ok_def src_def cong: option.case_cong)

lemma not_admin_same:
  assumes "ok a" and "ae_unhex e sender \<noteq> ae_unhex e (contract_admin e (src a) c)"
  shows "same a (snd (set_method_auth e c func u is_close sender a))"
    and "same a (snd (set_method_auth_type e c func ty sender a))"
proof -
  let ?p = "auth_table c"
  obtain r a1 where 1: "get_method_auth_type e ?p func a = (r, a1)" "same a a1"
    by (rule method_typeE [OF assms(1), of ?p func]) auto
  obtain a2 where 2: "get_contract_admin e ?p a1 = (contract_admin e (src a) c, a2)" "same a1 a2"
    using same_rowsD(1) [OF 1(2)]
    by (rule_tac adminE [OF same_rowsD(5) [OF 1(2)], of ?p]) (simp add: contract_admin_def)
  have "same a a2" by (rule same_trans [OF 1(2) 2(2)])
  then show "same a (snd (set_method_auth e c func u is_close sender a))"
    using 1(2) same_refl [OF assms(1)] assms(2)
    by (auto simp: set_method_auth_def Let_def 1(1) 2(1) split: eval.split)
  obtain a3 where 3: "get_contract_admin e ?p a = (contract_admin e (src a) c, a3)" "same a a3"
    by (rule adminE [OF assms(1), of ?p]) (simp add: contract_admin_def)
  then show "same a (snd (set_method_auth_type e c func ty sender a))"
    using same_refl [OF assms(1)] assms(2)
    by (auto simp: set_method_auth_type_def Let_def)
qed

lemma unauthorised_same:
  assumes "ok a" and "sender \<noteq> ae_committee e"
    and "\<And>c. changed_contract call = Some c \<Longrightarrow>
      ae_unhex e sender \<noteq> ae_unhex e (contract_admin e (src a) c)"
  shows "same a (snd (auth_run e call sender a))"
proof (cases call)
  case (GetAdmin c)
  obtain v a1 where "get_contract_admin e (auth_table c) a = (v, a1)" "same a a1"
    by (rule adminE [OF assms(1), of "auth_table c"]) auto
  then show ?thesis by (simp add: GetAdmin get_admin_def)
next
  case DeployType
  obtain r a1 where "get_deploy_auth_type e a = (r, a1)" "same a a1"
    by (rule deploy_typeE [OF assms(1)]) auto
  then show ?thesis by (simp add: DeployType get_deploy_type_def split: eval.split)
qed (use assms(3) not_admin_same [OF assms(1)] check_method(2) [OF assms(1)]
    check_deploy(2) [OF assms(1)] same_refl [OF assms(1)] assms(2)
    in \<open>simp_all add: reset_admin_def set_deploy_type_def set_deploy_auth_def snd_map_prod\<close>)

end

section \<open>The interpretation\<close>

definition mem_auth_env :: "mem auth_env" where
  "mem_auth_env = \<lparr>ae_ops = mem_ops, ae_hex = bytes_text, ae_unhex = text_bytes,
     ae_committee = ''10001'', ae_num_str = u256_str, ae_num = Some \<circ> u256_num,
     ae_types = (count_enc, count_dec), ae_methods = (count_enc, count_dec),
     ae_users = (count_enc, count_dec)\<rparr>"

interpretation mem_auth: auth mem_auth_env "\<lambda>_. True"
  by (auto simp: auth_def auth_axioms_def mem_auth_env_def counted.dec_enc u256_text.of_to_str
      mem.table_storage_axioms counted.text_codec_axioms)

section \<open>Properties\<close>

text \<open>The state of the next block, whose checks read what this block has written.\<close>

definition next_block :: "'s \<Rightarrow> 's auth_state" where
  "next_block s = \<lparr>as_last = Some s, as_now = s, as_gas = create_precompiled_gas\<rparr>"

lemma next_block_simps [simp]: "src (next_block s) = s" "as_now (next_block s) = s"
  by (simp_all add: next_block_def src_def)

text \<open>C23: Opening or closing a method for an account takes effect with the next block.  The entry goes
  to the list of the mode \<open>t\<close> the method had at the end of the last block, and decides whenever the mode
  is \<open>t\<close> and that list has not been changed since: the account is then allowed exactly if it was opened.
  So if the mode has not been switched in the current block, the next block's check follows the call; if
  it has, the check for the account is what it would be without the call, although the answer was 0.
  Nothing else changes: not the checks of other contracts, and not those of other accounts or methods
  that have a list.\<close>
theorem method_auth_takes_effect:
  assumes "auth e I" and "I (as_now a)" and "I (src a)"
    and "set_method_auth e c func account is_close sender a = (CodeAns 0, a')"
  shows "let t = method_mode e (src a) c func; now = method_mode e (as_now a) c func;
      check = (\<lambda>c f u s. fst (check_method_auth e c f u (next_block s)))
    in (t = 1 \<or> t = 2)
    \<and> (\<forall>s. I s \<and> st_open (ae_ops e) s (auth_table c) \<and> method_mode e s c func = t
        \<and> row (ae_ops e) s (auth_table c) (list_row t) = row (ae_ops e) (as_now a') (auth_table c) (list_row t)
        \<longrightarrow> check c func account s = Val (\<not> is_close))
    \<and> check c func account (as_now a') = (if now = t then Val (\<not> is_close) else check c func account (as_now a))
    \<and> (\<forall>c' f u. c' \<noteq> c \<or> (listed e (as_now a) c f \<and> (f, u) \<noteq> (func, account)) \<longrightarrow>
        check c' f u (as_now a') = check c' f u (as_now a))"
proof -
  note env = assms(1)
  have ok: "auth.ok I a" using assms(2,3) by (simp add: auth.ok_def [OF env])
  have next_check: "fst (check_method_auth e c f u (next_block s)) = method_check e c f u s" if "I s" for c f u s
    using that by (simp add: auth.check_method(1) [OF env] auth.ok_def [OF env])
  obtain t m where "auth.changed e I c func account is_close a a' t m"
    using auth.set_method_auth_changed [OF env ok assms(4)] by blast
  then have I': "I (as_now a')" by (rule auth.changedD(4) [OF env])
  note eff = auth.method_auth_effect [OF env ok assms(4)]
  have "method_check e c func account (as_now a') =
      (if method_mode e (as_now a) c func = method_mode e (src a) c func then Val (\<not> is_close)
       else method_check e c func account (as_now a))"
    using eff(2) [of "as_now a'"] eff(3-5) by simp
  then show ?thesis
    unfolding Let_def using eff(1,2,6) assms(2) I' by (simp add: next_check)
qed

text \<open>A store with one contract, whose methods 1 and 2 are in white list mode with an empty list.\<close>

definition auth_mem :: mem where
  "auth_mem = mem_empty(
     mem_sys := [auth_table ''c'' \<mapsto> ''value'', APPS \<mapsto> ''value''],
     auth_table ''c'' := [ADMIN_FIELD \<mapsto> bytes_text [7],
       METHOD_AUTH_TYPE \<mapsto> count_enc ([([1], 1), ([2], 1)] :: type_map),
       METHOD_AUTH_WHITE \<mapsto> [], METHOD_AUTH_BLACK \<mapsto> []],
     APPS := [FS_ACL_TYPE \<mapsto> u256_str 0, FS_ACL_WHITE \<mapsto> [], FS_ACL_BLACK \<mapsto> []])"

definition auth_start :: "mem auth_state" where
  "auth_start = \<lparr>as_last = None, as_now = auth_mem, as_gas = create_precompiled_gas\<rparr>"

lemma auth_table_names [simp]:
  "auth_table ''c'' \<noteq> mem_sys" "APPS \<noteq> mem_sys" "auth_table ''c'' \<noteq> APPS"
  "mem_sys \<noteq> auth_table ''c''" "mem_sys \<noteq> APPS" "APPS \<noteq> auth_table ''c''"
  by (simp_all add: auth_table_def mem_sys_def APPS_def)

lemma auth_mem_rows [simp]:
  "auth_mem mem_sys (auth_table ''c'') = Some ''value''" "auth_mem mem_sys APPS = Some ''value''"
  "auth_mem (auth_table ''c'') ADMIN_FIELD = Some (bytes_text [7])"
  "auth_mem (auth_table ''c'') METHOD_AUTH_TYPE = Some (count_enc ([([1], 1), ([2], 1)] :: type_map))"
  "auth_mem (auth_table ''c'') METHOD_AUTH_WHITE = Some []"
  "auth_mem APPS FS_ACL_TYPE = Some (u256_str 0)" "auth_mem APPS FS_ACL_WHITE = Some []"
  by (simp_all add: auth_mem_def auth_rows)

lemma auth_env_simps [simp]:
  "ae_ops mem_auth_env = mem_ops" "ae_unhex mem_auth_env (bytes_text x) = x"
  "ae_committee mem_auth_env = ''10001''" "ae_num mem_auth_env (u256_str n) = Some n"
  "ae_num_str mem_auth_env n = u256_str n"
  "snd (ae_types mem_auth_env) = count_dec" "snd (ae_methods mem_auth_env) = count_dec"
  "fst (ae_methods mem_auth_env) = count_enc" "fst (ae_users mem_auth_env) = count_enc"
  "snd (ae_users mem_auth_env) = count_dec"
  by (simp_all add: mem_auth_env_def counted.dec_enc u256_text.of_to_str)

lemma auth_start_simps [simp]:
  "as_now auth_start = auth_mem" "as_last auth_start = None" "src auth_start = auth_mem"
  by (simp_all add: auth_start_def src_def)

lemma open_start:
  "\<exists>a'. set_method_auth mem_auth_env ''c'' [1] [9] False (bytes_text [7]) auth_start
     = (CodeAns 0, a')"
  by (simp add: set_method_auth_def get_method_auth_type_def last_open_def last_get_def
      get_contract_admin_def write_method_access_def now_get_def counted.enc_not_Nil counted.dec_enc Let_def)

theorem method_auth_takes_effect_witness:
  "\<exists>a'. set_method_auth mem_auth_env ''c'' [1] [9] False (bytes_text [7]) auth_start
      = (CodeAns 0, a')
    \<and> fst (check_method_auth mem_auth_env ''c'' [1] [9] (next_block (as_now a'))) = Val True"
proof -
  obtain a' where run: "set_method_auth mem_auth_env ''c'' [1] [9] False (bytes_text [7])
      auth_start = (CodeAns 0, a')"
    using open_start by blast
  have "fst (check_method_auth mem_auth_env ''c'' [1] [9] (next_block (as_now a'))) = Val True"
    using method_auth_takes_effect [OF mem_auth.auth_axioms _ _ run] by (simp add: Let_def)
  then show ?thesis using run by blast
qed

text \<open>The white list of a method without entries denies everyone only as long as the whole row
  is empty: once any other method of the contract gets an entry, the method is open to every
  account, although its mode is still the white list.\<close>
theorem white_list_opened_by_other_method:
  assumes "auth e I" and "I (as_now a)" and "I (src a)"
    and "set_method_auth e c func account is_close sender a = (CodeAns 0, a')"
    and "row (ae_ops e) (src a) (auth_table c) METHOD_AUTH_TYPE =
      row (ae_ops e) (as_now a) (auth_table c) METHOD_AUTH_TYPE"
    and "method_type_of e (row (ae_ops e) (as_now a) (auth_table c) METHOD_AUTH_TYPE) func = 1"
    and "method_type_of e (row (ae_ops e) (as_now a) (auth_table c) METHOD_AUTH_TYPE) f = 1"
    and "row (ae_ops e) (as_now a) (auth_table c) METHOD_AUTH_WHITE = Some []" and "f \<noteq> func"
  shows "fst (check_method_auth e c f u (next_block (as_now a))) = Val False
    \<and> fst (check_method_auth e c f u (next_block (as_now a'))) = Val True"
proof -
  note env = assms(1)
  have ok: "auth.ok I a" using assms(2,3) by (simp add: auth.ok_def [OF env])
  obtain t m where "auth.changed e I c func account is_close a a' t m"
    using auth.set_method_auth_changed [OF env ok assms(4)] by blast
  then have "I (as_now a')" by (rule auth.changedD(4) [OF env])
  then show ?thesis
    using auth.method_auth_leak [OF env ok assms(4-9)] assms(2)
    by (simp add: auth.check_method(1) [OF env] auth.ok_def [OF env])
qed

theorem white_list_opened_by_other_method_witness:
  "\<exists>a'. set_method_auth mem_auth_env ''c'' [1] [9] False (bytes_text [7]) auth_start
      = (CodeAns 0, a')
    \<and> fst (check_method_auth mem_auth_env ''c'' [2] [8] (next_block auth_mem)) = Val False
    \<and> fst (check_method_auth mem_auth_env ''c'' [2] [8] (next_block (as_now a'))) = Val True"
proof -
  obtain a' where run: "set_method_auth mem_auth_env ''c'' [1] [9] False (bytes_text [7])
      auth_start = (CodeAns 0, a')"
    using open_start by blast
  show ?thesis
    using white_list_opened_by_other_method [OF mem_auth.auth_axioms _ _ run, of "[2]" "[8]"] run
    by (simp add: method_type_of_def row_def counted.enc_not_Nil counted.dec_enc)
qed

text \<open>C24: Opening or closing deployment for an account.  The entry goes to the list of the mode \<open>t\<close> of the
  last block.  Whenever the mode is \<open>t\<close>, white or black list, and that list has not been changed since, the
  account may deploy exactly if it was opened; in a white list that was written while the mode was
  neither, it is forbidden, also if it was opened.  If the mode was switched in the current block to one
  that reads the other list, the next block's check is what it would be without the call, although the
  answer was 0.  The checks of other accounts never change.\<close>
theorem deploy_auth_takes_effect:
  assumes "auth e I" and "I (as_now a)" and "I (src a)"
    and "set_deploy_auth e u is_close sender a = (CodeAns 0, a1)"
  shows "let check = (\<lambda>u s. fst (check_deploy_auth e u (next_block s)))
    in \<exists>t. deploy_mode e (src a) = Some t
    \<and> (\<forall>s. I s \<and> row (ae_ops e) s APPS (acl_written t) = row (ae_ops e) (as_now a1) APPS (acl_written t) \<longrightarrow>
        (deploy_mode e s = Some t \<and> (t = 1 \<or> t = 2) \<longrightarrow> check u s = Val (\<not> is_close))
        \<and> (deploy_mode e s = Some 1 \<and> t \<noteq> 1 \<and> t \<noteq> 2 \<longrightarrow> check u s = Val False))
    \<and> (deploy_mode e (as_now a) = Some t \<and> (t = 1 \<or> t = 2) \<longrightarrow> check u (as_now a1) = Val (\<not> is_close))
    \<and> (\<forall>t'. deploy_mode e (as_now a) = Some t' \<and> acl_read t' \<noteq> acl_written t \<longrightarrow>
        check u (as_now a1) = check u (as_now a))
    \<and> (\<forall>x. x \<noteq> u \<longrightarrow> check x (as_now a1) = check x (as_now a))"
proof -
  note env = assms(1)
  have ok: "auth.ok I a" using assms(2,3) by (simp add: auth.ok_def [OF env])
  have next_check: "fst (check_deploy_auth e x (next_block s)) = deploy_check e x s" if "I s" for x s
    using that by (simp add: auth.check_deploy(1) [OF env] auth.ok_def [OF env])
  show ?thesis
  proof (rule auth.deploy_auth_effect [OF env ok assms(4)])
    fix t
    assume t: "deploy_mode e (src a) = Some t"
      and same: "\<And>s. row (ae_ops e) s APPS (acl_written t) = row (ae_ops e) (as_now a1) APPS (acl_written t) \<Longrightarrow>
        deploy_mode e s = Some t \<Longrightarrow> t = 1 \<or> t = 2 \<Longrightarrow> deploy_check e u s = Val (\<not> is_close)"
      and early: "\<And>s. row (ae_ops e) s APPS (acl_written t) = row (ae_ops e) (as_now a1) APPS (acl_written t) \<Longrightarrow>
        deploy_mode e s = Some 1 \<Longrightarrow> t \<noteq> 1 \<Longrightarrow> t \<noteq> 2 \<Longrightarrow> deploy_check e u s = Val False"
      and mode: "deploy_mode e (as_now a1) = deploy_mode e (as_now a)"
      and switched: "\<And>t' x. deploy_mode e (as_now a) = Some t' \<Longrightarrow> acl_read t' \<noteq> acl_written t \<Longrightarrow>
        deploy_check e x (as_now a1) = deploy_check e x (as_now a)"
      and others: "\<And>x. x \<noteq> u \<Longrightarrow> deploy_check e x (as_now a1) = deploy_check e x (as_now a)"
      and "auth.ok I a1"
    then have "I (as_now a1)" by (simp add: auth.ok_def [OF env])
    then show ?thesis
      unfolding Let_def
      using t same early switched others same [of "as_now a1"] mode assms(2)
      by (intro exI [of _ t]) (simp add: next_check)
  qed
qed

text \<open>Opened before the committee chooses the white list; and closed in the block in which the committee
  switches from the white to the black list, which leaves the account allowed.\<close>

definition white_mem :: mem where
  "white_mem = auth_mem(APPS := (auth_mem APPS)(FS_ACL_TYPE \<mapsto> u256_str 1))"

definition switched_start :: "mem auth_state" where
  "switched_start = \<lparr>as_last = Some white_mem,
     as_now = white_mem(APPS := (white_mem APPS)(FS_ACL_TYPE \<mapsto> u256_str 2)), as_gas = create_precompiled_gas\<rparr>"

lemma acl_rows_distinct: "FS_ACL_WHITE \<noteq> FS_ACL_TYPE" by (simp add: auth_rows)

theorem deploy_auth_takes_effect_witness:
  "\<exists>a1 a2. set_deploy_auth mem_auth_env [9] False ''10001'' auth_start = (CodeAns 0, a1)
    \<and> set_deploy_type mem_auth_env 1 ''10001'' a1 = (CodeAns 0, a2)
    \<and> fst (check_deploy_auth mem_auth_env [9] (next_block (as_now a2))) = Val False
    \<and> (\<exists>a3. set_deploy_auth mem_auth_env [9] True ''10001'' switched_start = (CodeAns 0, a3)
        \<and> fst (check_deploy_auth mem_auth_env [9] (next_block (as_now a3))) = Val True)"
proof -
  let ?w = "as_now auth_start APPS FS_ACL_WHITE"
  obtain a1 where 1: "set_deploy_auth mem_auth_env [9] False ''10001'' auth_start = (CodeAns 0, a1)"
      "as_now a1 mem_sys APPS \<noteq> None"
    by (simp add: set_deploy_auth_def get_deploy_auth_type_def last_open_def last_get_def now_get_def
        now_set_def Let_def)
  obtain a2 where 2: "set_deploy_type mem_auth_env 1 ''10001'' a1 = (CodeAns 0, a2)"
      "as_now a2 = (as_now a1)(APPS := (as_now a1 APPS)(FS_ACL_TYPE \<mapsto> u256_str 1))"
    using 1(2) by (simp add: set_deploy_type_def now_set_def charge_def)
  have mode: "deploy_mode mem_auth_env auth_mem = Some 0" by (simp add: deploy_mode_def row_def)
  have mode2: "deploy_mode mem_auth_env (as_now a2) = Some 1"
    using 1(2) by (simp add: deploy_mode_def row_def 2(2))
  have list: "row mem_ops (as_now a2) APPS FS_ACL_WHITE = row mem_ops (as_now a1) APPS FS_ACL_WHITE"
    using 1(2) by (simp add: row_def 2(2) auth_rows)
  have "fst (check_deploy_auth mem_auth_env [9] (next_block (as_now a2))) = Val False"
    using deploy_auth_takes_effect [OF mem_auth.auth_axioms _ _ 1(1)] mode mode2 list
    by (auto simp: Let_def acl_written_def)
  note opened = this
  obtain a3 where 3: "set_deploy_auth mem_auth_env [9] True ''10001'' switched_start = (CodeAns 0, a3)"
    by (simp add: set_deploy_auth_def get_deploy_auth_type_def last_open_def last_get_def now_get_def
        now_set_def Let_def switched_start_def white_mem_def acl_rows_distinct)
  have m3: "deploy_mode mem_auth_env (src switched_start) = Some 1"
      "deploy_mode mem_auth_env (as_now switched_start) = Some 2"
    by (simp_all add: deploy_mode_def row_def switched_start_def white_mem_def src_def)
  have "fst (check_deploy_auth mem_auth_env [9] (next_block (as_now a3)))
      = fst (check_deploy_auth mem_auth_env [9] (next_block (as_now switched_start)))"
    using deploy_auth_takes_effect [OF mem_auth.auth_axioms _ _ 3] m3
    by (auto simp: Let_def acl_written_def acl_read_def auth_rows)
  also have "\<dots> = Val True"
    by (simp add: mem_auth.check_deploy(1) mem_auth.ok_def deploy_check_def row_def switched_start_def
        white_mem_def auth_mem_def auth_rows)
  finally show ?thesis using 1(1) 2(1) 3 opened by blast
qed

text \<open>C22: No call of anyone but the committee or the contract's administrator changes a row or a
  table; the administrator of the contract is the one the check reads.\<close>
theorem only_authorised_changes:
  assumes "auth e I" and "I (as_now a)" and "I (src a)" and "sender \<noteq> ae_committee e"
    and "\<And>c. changed_contract call = Some c \<Longrightarrow>
      ae_unhex e sender \<noteq> ae_unhex e (contract_admin e (src a) c)"
    and "auth_run e call sender a = (ans, a')"
  shows "same_rows e (as_now a) (as_now a')"
proof -
  have ok: "auth.ok I a" using assms(2,3) by (simp add: auth.ok_def [OF assms(1)])
  have "auth.same e I a (snd (auth_run e call sender a))"
    by (rule auth.unauthorised_same [OF assms(1) ok assms(4)]) (rule assms(5))
  then show ?thesis using assms(6) by (simp add: auth.same_def [OF assms(1)])
qed

theorem only_authorised_changes_witness:
  "same_rows mem_auth_env auth_mem (as_now (snd (auth_run mem_auth_env (OpenMethodAuth ''c'' [1] [9])
     (bytes_text [6]) auth_start)))"
proof -
  obtain ans a' where run: "auth_run mem_auth_env (OpenMethodAuth ''c'' [1] [9])
      (bytes_text [6]) auth_start = (ans, a')"
    by (metis surj_pair)
  have "bytes_text [6] \<noteq> ''10001''" by (simp add: bytes_text_def)
  then show ?thesis
    using only_authorised_changes [OF mem_auth.auth_axioms _ _ _ _ run] run
    by (simp add: contract_admin_def row_def)
qed

end
