(* ===== verification/FileSystem.thy ===== *)
theory FileSystem imports ContractAuth Utilities "HOL-Library.Char_ord" "HOL-Library.List_Lexorder" begin

text \<open>
  The directory tree of contracts and tables: \<open>recursiveBuildDir\<close>
  (\<open>src/precompiled/Utilities.cpp\<close>), \<open>TransactionExecutive::buildBfsPath\<close>
  (\<open>src/executive/TransactionExecutive.cpp\<close>) and \<open>FileSystemPrecompiled\<close>
  (\<open>src/precompiled/FileSystemPrecompiled.cpp\<close>).  A directory is a table with a row \<open>type\<close> and a row
  \<open>sub\<close>, the encoded map from names to types.  The two builders differ only in their last
  component, which is a contract for the latter, so one loop with a flag models both.
\<close>

type_synonym dir_map = "(string \<times> string) list"

record dir_codec =
  dc_enc :: "dir_map \<Rightarrow> string"
  dc_dec :: "string \<Rightarrow> dir_map option"

definition FS_KEY_NAME :: string where "FS_KEY_NAME = ''name''"
definition FS_KEY_TYPE :: string where "FS_KEY_TYPE = ''type''"
definition FS_KEY_SUB :: string where "FS_KEY_SUB = ''sub''"
definition FS_KEY_EXTRA :: string where "FS_KEY_EXTRA = ''extra''"
definition FS_TYPE_DIR :: string where "FS_TYPE_DIR = ''directory''"
definition FS_TYPE_CONTRACT :: string where "FS_TYPE_CONTRACT = ''contract''"
definition SYS_VALUE_FIELDS :: string where "SYS_VALUE_FIELDS = ''value''"

lemmas fs_keys = FS_KEY_TYPE_def FS_KEY_SUB_def FS_KEY_EXTRA_def FS_ACL_TYPE_def FS_ACL_WHITE_def
  FS_ACL_BLACK_def

section \<open>Building directories\<close>

text \<open>\<open>std::map::insert\<close> keeps an existing entry and the order of the keys.\<close>

definition map_insert :: "string \<Rightarrow> string \<Rightarrow> dir_map \<Rightarrow> dir_map" where
  "map_insert k v m = (if map_of m k = None then insort_key fst (k, v) m else m)"

definition child_path :: "string \<Rightarrow> string \<Rightarrow> string" where
  "child_path root dir = (if root \<noteq> ''/'' then root @ ''/'' else root) @ dir"

text \<open>The rows of a new directory.\<close>

definition init_dir :: "'s storage_ops \<Rightarrow> dir_codec \<Rightarrow> string \<Rightarrow> 's \<Rightarrow> 's" where
  "init_dir ops C path s =
     fold (\<lambda>(k, v) s. st_set ops s path k v)
       [(FS_KEY_TYPE, FS_TYPE_DIR), (FS_KEY_SUB, dc_enc C []), (FS_ACL_TYPE, ''0''),
        (FS_ACL_WHITE, []), (FS_ACL_BLACK, []), (FS_KEY_EXTRA, [])] s"

text \<open>Adding \<open>dir\<close> to the directory \<open>root\<close>, as contract or as new directory.\<close>

definition add_dir ::
    "'s storage_ops \<Rightarrow> dir_codec \<Rightarrow> bool \<Rightarrow> string \<Rightarrow> string \<Rightarrow> 's \<Rightarrow> bool eval \<times> 's" where
  "add_dir ops C contract dir root s =
     (case st_get ops s root FS_KEY_SUB of
        (None, s1) \<Rightarrow> (Undef, s1)
      | (Some v, s1) \<Rightarrow>
        (case dc_dec C v of
           None \<Rightarrow> (Throw ''decode'', s1)
         | Some m \<Rightarrow>
           (if contract
            then (Val True, st_set ops s1 root FS_KEY_SUB (dc_enc C (map_insert dir FS_TYPE_CONTRACT m)))
            else case st_create ops s1 (child_path root dir) SYS_VALUE_FIELDS of
              (False, s2) \<Rightarrow> (Undef, s2)
            | (True, s2) \<Rightarrow>
                (Val True, st_set ops (init_dir ops C (child_path root dir) s2) root FS_KEY_SUB
                   (dc_enc C (map_insert dir FS_TYPE_DIR m))))))"

fun build_dirs ::
    "'s storage_ops \<Rightarrow> dir_codec \<Rightarrow> bool \<Rightarrow> string list \<Rightarrow> string \<Rightarrow> 's \<Rightarrow> bool eval \<times> 's" where
  "build_dirs ops C contract [] root s = (Val True, s)"
| "build_dirs ops C contract (dir # dirs) root s =
     (if \<not> st_open ops s root then (Val False, s)
      else case st_get ops s root FS_KEY_TYPE of
        (None, s1) \<Rightarrow> (Val False, s1)
      | (Some _, s1) \<Rightarrow>
        (let path = child_path root dir; is_contract = contract \<and> dirs = [] in
         if \<not> is_contract \<and> st_open ops s1 path
         then (case st_get ops s1 path FS_KEY_TYPE of
                 (r, s2) \<Rightarrow> if r = Some FS_TYPE_DIR then build_dirs ops C contract dirs path s2
                           else (Val False, s2))
         else (case add_dir ops C is_contract dir root s1 of
                 (Val True, s2) \<Rightarrow> build_dirs ops C contract dirs path s2
               | r \<Rightarrow> r)))"

definition build_path ::
    "text_ops \<Rightarrow> 's storage_ops \<Rightarrow> dir_codec \<Rightarrow> bool \<Rightarrow> string \<Rightarrow> 's \<Rightarrow> bool eval \<times> 's" where
  "build_path T ops C contract p s =
     (if p = [] then (Val False, s)
      else case strip_path p of
        None \<Rightarrow> (Throw ''out_of_range'', s)
      | Some d \<Rightarrow> build_dirs ops C contract (tx_split T CHR ''/'' True d) ''/'' s)"

definition recursive_build_dir where
  "recursive_build_dir T ops C = build_path T ops C False"

definition build_bfs_path where
  "build_bfs_path T ops C = build_path T ops C True"

section \<open>The precompiled contract\<close>

definition CODE_FILE_INVALID_PATH :: int where "CODE_FILE_INVALID_PATH = -53005"
definition CODE_FILE_BUILD_DIR_FAILED :: int where "CODE_FILE_BUILD_DIR_FAILED = -53003"
definition CODE_FILE_ALREADY_EXIST :: int where "CODE_FILE_ALREADY_EXIST = -53002"
definition CODE_FILE_NOT_EXIST :: int where "CODE_FILE_NOT_EXIST = -53001"
definition USER_TABLE_PREFIX :: string where "USER_TABLE_PREFIX = ''/tables/''"
definition USER_APPS_PREFIX :: string where "USER_APPS_PREFIX = ''/apps/''"

datatype fs_answer = FsNothing | FsCode int | FsList dir_map

definition has_prefix :: "string \<Rightarrow> string \<Rightarrow> bool" where
  "has_prefix p s \<longleftrightarrow> take (length p) s = p"

definition make_dir ::
    "text_ops \<Rightarrow> 's storage_ops \<Rightarrow> dir_codec \<Rightarrow> string \<Rightarrow> precompiled_gas \<Rightarrow> 's
     \<Rightarrow> (fs_answer \<times> precompiled_gas) eval \<times> 's" where
  "make_dir T ops C path g s =
     (case check_path_valid T path of
        None \<Rightarrow> (Throw ''out_of_range'', s)
      | Some False \<Rightarrow> (Val (FsCode CODE_FILE_INVALID_PATH, g), s)
      | Some True \<Rightarrow>
        (if \<not> has_prefix USER_APPS_PREFIX path \<and> \<not> has_prefix USER_TABLE_PREFIX path
         then (Val (FsCode CODE_FILE_INVALID_PATH, g), s)
         else let g1 = append_operation OpOpenTable 1 g in
           if st_open ops s path then (Val (FsCode CODE_FILE_ALREADY_EXIST, g1), s)
           else case recursive_build_dir T ops C path s of
             (Val b, s1) \<Rightarrow>
               (Val (FsCode (if b then 0 else CODE_FILE_BUILD_DIR_FAILED), g1), s1)
           | (Throw m, s1) \<Rightarrow> (Throw m, s1)
           | (Undef, s1) \<Rightarrow> (Undef, s1)))"

text \<open>\<open>listDir\<close>: the answer is the list given to the JSON writer.\<close>

definition list_dir ::
    "text_ops \<Rightarrow> 's storage_ops \<Rightarrow> dir_codec \<Rightarrow> string \<Rightarrow> precompiled_gas \<Rightarrow> 's
     \<Rightarrow> (fs_answer \<times> precompiled_gas) eval \<times> 's" where
  "list_dir T ops C path g s =
     (case check_path_valid T path of
        None \<Rightarrow> (Throw ''out_of_range'', s)
      | Some False \<Rightarrow> (Val (FsCode CODE_FILE_INVALID_PATH, g), s)
      | Some True \<Rightarrow>
        (let g1 = append_operation OpOpenTable 1 g in
         if \<not> st_open ops s path then (Val (FsCode CODE_FILE_NOT_EXIST, g1), s)
         else case st_get ops s path FS_KEY_TYPE of
           (Some _, s1) \<Rightarrow>
             (case st_get ops s1 path FS_KEY_SUB of
                (None, s2) \<Rightarrow> (Undef, s2)
              | (Some v, s2) \<Rightarrow>
                  (case dc_dec C v of
                     None \<Rightarrow> (Throw ''decode'', s2)
                   | Some m \<Rightarrow> (Val (FsList m, g1), s2)))
         | (None, s1) \<Rightarrow>
             (case get_parent_dir_and_base_name T path of
                None \<Rightarrow> (Throw ''out_of_range'', s1)
              | Some (_, base) \<Rightarrow> (Val (FsList [(base, FS_TYPE_CONTRACT)], g1), s1))))"

datatype fs_call = FsListDir string | FsMakeDir string | FsUnknown

definition fs_dispatch ::
    "text_ops \<Rightarrow> 's storage_ops \<Rightarrow> dir_codec \<Rightarrow> (fs_answer \<Rightarrow> bytes) \<Rightarrow> nat \<Rightarrow> fs_call \<Rightarrow> 's
     \<Rightarrow> (bytes \<times> u64) eval \<times> 's" where
  "fs_dispatch T ops C enc n c s =
     (let g = create_precompiled_gas\<lparr>mem_used := of_nat n\<rparr> in
      case (case c of
              FsListDir p \<Rightarrow> list_dir T ops C p g s
            | FsMakeDir p \<Rightarrow> make_dir T ops C p g s
            | FsUnknown \<Rightarrow> (Val (FsNothing, g), s)) of
        (Val (ans, g1), s1) \<Rightarrow>
          (let out = (if ans = FsNothing then [] else enc ans)
           in (Val (out, cal_total_gas (update_mem_used (of_nat (length out)) g1)), s1))
      | (Throw m, s1) \<Rightarrow> (Throw m, s1)
      | (Undef, s1) \<Rightarrow> (Undef, s1))"

end
