(* ===== verification/FileSystemSpec.thy ===== *)
theory FileSystemSpec imports FileSystem begin

text \<open>
  Correctness of the directory tree: the two views of a directory, the listing in its parent and
  its own type row, stay consistent, building a path ends with a value, and when it succeeds every
  directory on the path exists and lists the next one.  \<open>walked\<close> says how far building gets and what it
  changes, \<open>good_path\<close> which paths are accepted; with them \<open>make_dir\<close> is described for every path.
\<close>

text \<open>The entry for \<open>d\<close> in the listing of the directory \<open>p\<close>.\<close>

definition dir_entry :: "'s storage_ops \<Rightarrow> dir_codec \<Rightarrow> 's \<Rightarrow> string \<Rightarrow> string \<Rightarrow> string option" where
  "dir_entry ops C s p d =
     (case row ops s p FS_KEY_SUB of
        None \<Rightarrow> None
      | Some r \<Rightarrow> (case dc_dec C r of None \<Rightarrow> None | Some m \<Rightarrow> map_of m d))"

definition is_dir :: "'s storage_ops \<Rightarrow> 's \<Rightarrow> string \<Rightarrow> bool" where
  "is_dir ops s p \<longleftrightarrow> row ops s p FS_KEY_TYPE \<noteq> None"

definition dir_name :: "string \<Rightarrow> bool" where
  "dir_name d \<longleftrightarrow> d \<noteq> [] \<and> CHR ''/'' \<notin> set d"

text \<open>The consistency of the tree.\<close>

definition tree_ok :: "'s storage_ops \<Rightarrow> dir_codec \<Rightarrow> 's \<Rightarrow> bool" where
  "tree_ok ops C s \<longleftrightarrow>
     (\<forall>p. is_dir ops s (CHR ''/'' # p) \<longrightarrow>
        row ops s (CHR ''/'' # p) FS_KEY_TYPE = Some FS_TYPE_DIR
      \<and> (\<exists>r m. row ops s (CHR ''/'' # p) FS_KEY_SUB = Some r \<and> dc_dec C r = Some m)
      \<and> (\<forall>d. dir_entry ops C s (CHR ''/'' # p) d = Some FS_TYPE_DIR \<longrightarrow>
           is_dir ops s (child_path (CHR ''/'' # p) d)))
   \<and> (\<forall>p d. dir_name d \<longrightarrow> is_dir ops s (child_path (CHR ''/'' # p) d) \<longrightarrow>
        is_dir ops s (CHR ''/'' # p) \<and> dir_entry ops C s (CHR ''/'' # p) d \<noteq> None)"

text \<open>All names below \<open>root\<close> are listed in their parents, and all but a final contract are
  directories.\<close>

fun path_present ::
    "'s storage_ops \<Rightarrow> dir_codec \<Rightarrow> bool \<Rightarrow> 's \<Rightarrow> string \<Rightarrow> string list \<Rightarrow> bool" where
  "path_present ops C c s root [] = True"
| "path_present ops C c s root (d # ds) =
     (is_dir ops s root \<and> dir_entry ops C s root d \<noteq> None
      \<and> (\<not> (c \<and> ds = []) \<longrightarrow> is_dir ops s (child_path root d))
      \<and> path_present ops C c s (child_path root d) ds)"

text \<open>The paths of the names below \<open>root\<close>, the tables that stop the building, and how far it
  gets.\<close>

fun below :: "string \<Rightarrow> string list \<Rightarrow> string list" where
  "below root [] = []"
| "below root (d # ds) = child_path root d # below (child_path root d) ds"

definition blocks :: "'s storage_ops \<Rightarrow> 's \<Rightarrow> string \<Rightarrow> bool" where
  "blocks ops s p \<longleftrightarrow> st_open ops s p \<and> \<not> is_dir ops s p"

definition reached :: "'s storage_ops \<Rightarrow> 's \<Rightarrow> string \<Rightarrow> string list \<Rightarrow> string set" where
  "reached ops s root ds = set (takeWhile (\<lambda>p. \<not> blocks ops s p) (below root ds))"

text \<open>The effect of building the directories \<open>ds\<close> below the directory \<open>root\<close>.\<close>

definition walked :: "'s storage_ops \<Rightarrow> string list \<Rightarrow> string \<Rightarrow> 's \<Rightarrow> bool \<Rightarrow> 's \<Rightarrow> bool" where
  "walked ops ds root s b s' \<longleftrightarrow>
     b = (\<forall>p \<in> set (below root ds). \<not> blocks ops s p)
   \<and> (\<forall>t. st_open ops s' t \<longleftrightarrow> st_open ops s t \<or> t \<in> reached ops s root ds)
   \<and> (\<forall>p \<in> insert root (reached ops s root ds). is_dir ops s' p)
   \<and> (\<forall>t k. t \<noteq> st_sys ops \<longrightarrow> t \<notin> insert root (reached ops s root ds) \<longrightarrow>
        row ops s' t k = row ops s t k)
   \<and> ((\<forall>p \<in> reached ops s root ds. is_dir ops s p) \<longrightarrow> (\<forall>t k. row ops s' t k = row ops s t k))"

lemma map_of_insert: "map_of (map_insert k v m) d =
    (if d = k \<and> map_of m k = None then Some v else map_of m d)"
proof (cases "map_of m k")
  case None
  then have "map_of (insort_key fst (k, v) m) d = (if d = k then Some v else map_of m d)"
    by (induction m) (auto split: if_splits)
  then show ?thesis using None by (simp add: map_insert_def)
qed (simp add: map_insert_def)

lemma child_path_longer: "d \<noteq> [] \<Longrightarrow> length p < length (child_path p d)"
  by (simp add: child_path_def)

lemma below_longer: "\<forall>d \<in> set ds. d \<noteq> [] \<Longrightarrow> p \<in> set (below root ds) \<Longrightarrow> length root < length p"
proof (induction ds arbitrary: root)
  case (Cons d ds)
  then show ?case using child_path_longer [of d root] by fastforce
qed simp

lemma child_path_root: "\<exists>q. child_path (CHR ''/'' # p) d = CHR ''/'' # q"
  by (simp add: child_path_def)

lemma below_root: "p \<in> set (below (CHR ''/'' # r) ds) \<Longrightarrow> \<exists>q. p = CHR ''/'' # q"
proof (induction ds arbitrary: r)
  case (Cons d ds)
  then show ?case using child_path_root [of r d] by auto
qed simp

lemma reached_Cons:
  "reached ops s root (d # ds) = (if blocks ops s (child_path root d) then {}
     else insert (child_path root d) (reached ops s (child_path root d) ds))"
  by (auto simp: reached_def)

lemma reached_below: "reached ops s root ds \<subseteq> set (below root ds)"
  by (auto simp: reached_def dest: set_takeWhileD)

lemma reached_cong:
  assumes "\<forall>p \<in> set (below root ds). blocks ops s p = blocks ops s' p"
  shows "reached ops s root ds = reached ops s' root ds"
  using assms by (simp add: reached_def cong: takeWhile_cong)

lemma append_name_inj:
  assumes "CHR ''/'' \<notin> set d" "CHR ''/'' \<notin> set d'" and "a @ ''/'' @ d = a' @ ''/'' @ d'"
  shows "a = a' \<and> d = d'"
proof -
  have tw: "takeWhile (\<lambda>c. c \<noteq> CHR ''/'') (rev y @ CHR ''/'' # x) = rev y"
    if "CHR ''/'' \<notin> set y" for x y :: string
  proof -
    have "\<And>c. c \<in> set (rev y) \<Longrightarrow> c \<noteq> CHR ''/''" using that by (metis set_rev)
    from takeWhile_append2 [of "rev y", OF this] show ?thesis by simp
  qed
  have "rev d @ CHR ''/'' # rev a = rev (a @ ''/'' @ d)" by (simp only: rev_append) simp
  also have "\<dots> = rev (a' @ ''/'' @ d')" by (simp only: assms(3))
  also have "\<dots> = rev d' @ CHR ''/'' # rev a'" by (simp only: rev_append) simp
  finally have e: "rev d @ CHR ''/'' # rev a = rev d' @ CHR ''/'' # rev a'" .
  have "rev d = rev d'" using tw [OF assms(1), of "rev a"] tw [OF assms(2), of "rev a'"] unfolding e by metis
  then show ?thesis using e by (metis append_same_eq list.inject rev_rev_ident same_append_eq)
qed

lemma child_path_inj:
  assumes "dir_name d" "dir_name d'"
    and "child_path (CHR ''/'' # p) d = child_path (CHR ''/'' # p') d'"
  shows "p = p' \<and> d = d'"
proof -
  define pre where "pre q = (if q = [] then [] else CHR ''/'' # q)" for q :: string
  have "child_path (CHR ''/'' # q) x = pre q @ ''/'' @ x" for q x
    by (simp add: child_path_def pre_def)
  then have "pre p = pre p' \<and> d = d'"
    using assms append_name_inj [of d d' "pre p" "pre p'"] by (simp add: dir_name_def)
  then show ?thesis by (auto simp: pre_def split: if_splits)
qed

locale file_tree = table_storage ops inv + codec: text_codec "dc_enc C" "dc_dec C"
  for ops :: "'s storage_ops" and inv and C :: dir_codec
begin

lemma slash_not_sys: "CHR ''/'' # p \<noteq> st_sys ops"
  by (rule path_not_sys)

text \<open>Reading changes neither rows nor open tables.\<close>

definition alike :: "'s \<Rightarrow> 's \<Rightarrow> bool" where
  "alike s s' \<longleftrightarrow> inv s' \<and> (\<forall>t k. row ops s' t k = row ops s t k) \<and> (\<forall>t. st_open ops s' t = st_open ops s t)"

lemma alike_get: "inv s \<Longrightarrow> alike s (snd (st_get ops s t k))"
  by (simp add: alike_def get_inv get_row get_open)

lemma alike_tree: "alike s s' \<Longrightarrow> tree_ok ops C s' = tree_ok ops C s"
  by (simp add: alike_def tree_ok_def is_dir_def dir_entry_def)

lemma getE:
  assumes "inv s"
  obtains s' where "st_get ops s t k = (row ops s t k, s')" "alike s s'"
  using alike_get [OF assms, of t k] by (metis get_Some_row prod.collapse)

text \<open>The rows after making a new directory.\<close>

lemma init_dir_rows:
  assumes "inv s" and "st_open ops s (CHR ''/'' # p)"
  shows "inv (init_dir ops C (CHR ''/'' # p) s)"
    "st_open ops (init_dir ops C (CHR ''/'' # p) s) t = st_open ops s t"
    "t \<noteq> CHR ''/'' # p \<Longrightarrow> row ops (init_dir ops C (CHR ''/'' # p) s) t k = row ops s t k"
    "row ops (init_dir ops C (CHR ''/'' # p) s) (CHR ''/'' # p) FS_KEY_TYPE = Some FS_TYPE_DIR"
    "row ops (init_dir ops C (CHR ''/'' # p) s) (CHR ''/'' # p) FS_KEY_SUB = Some (dc_enc C [])"
  using assms
  by (simp_all add: init_dir_def set_inv set_open set_row slash_not_sys fs_keys)

text \<open>What adding one name to a directory does to the rows.\<close>

definition added :: "bool \<Rightarrow> string \<Rightarrow> string \<Rightarrow> dir_map \<Rightarrow> 's \<Rightarrow> 's \<Rightarrow> bool" where
  "added c dir root m s s' \<longleftrightarrow> inv s'
     \<and> (\<exists>r. row ops s root FS_KEY_SUB = Some r \<and> dc_dec C r = Some m)
     \<and> row ops s' root FS_KEY_SUB =
         Some (dc_enc C (map_insert dir (if c then FS_TYPE_CONTRACT else FS_TYPE_DIR) m))
     \<and> (\<not> c \<longrightarrow> row ops s' (child_path root dir) FS_KEY_TYPE = Some FS_TYPE_DIR
            \<and> row ops s' (child_path root dir) FS_KEY_SUB = Some (dc_enc C [])
            \<and> \<not> is_dir ops s (child_path root dir))
     \<and> (\<forall>t k. t \<noteq> st_sys ops \<longrightarrow> (t, k) \<noteq> (root, FS_KEY_SUB) \<longrightarrow> (c \<or> t \<noteq> child_path root dir) \<longrightarrow>
          row ops s' t k = row ops s t k)
     \<and> (\<forall>t. st_open ops s' t = (st_open ops s t \<or> (\<not> c \<and> t = child_path root dir)))"

lemma addedD:
  assumes "added c dir root m s s'"
  shows "inv s'" "\<exists>r. row ops s root FS_KEY_SUB = Some r \<and> dc_dec C r = Some m"
    "row ops s' root FS_KEY_SUB =
       Some (dc_enc C (map_insert dir (if c then FS_TYPE_CONTRACT else FS_TYPE_DIR) m))"
    "\<not> c \<Longrightarrow> row ops s' (child_path root dir) FS_KEY_TYPE = Some FS_TYPE_DIR"
    "\<not> c \<Longrightarrow> row ops s' (child_path root dir) FS_KEY_SUB = Some (dc_enc C [])"
    "\<not> c \<Longrightarrow> \<not> is_dir ops s (child_path root dir)"
    "t \<noteq> st_sys ops \<Longrightarrow> (t, k) \<noteq> (root, FS_KEY_SUB) \<Longrightarrow> c \<or> t \<noteq> child_path root dir \<Longrightarrow>
       row ops s' t k = row ops s t k"
    "st_open ops s' t = (st_open ops s t \<or> (\<not> c \<and> t = child_path root dir))"
  using assms unfolding added_def by blast+

lemma add_dir_added:
  assumes "inv s" and op: "st_open ops s (CHR ''/'' # r)" and d: "dir \<noteq> []"
    and sub: "row ops s (CHR ''/'' # r) FS_KEY_SUB = Some v" "dc_dec C v = Some m"
    and new: "\<not> c \<Longrightarrow> \<not> st_open ops s (child_path (CHR ''/'' # r) dir)"
  shows "\<exists>s'. add_dir ops C c dir (CHR ''/'' # r) s = (Val True, s')
    \<and> added c dir (CHR ''/'' # r) m s s'"
proof -
  let ?root = "CHR ''/'' # r"
  obtain q where q: "child_path ?root dir = CHR ''/'' # q" using child_path_root by blast
  have neq: "child_path ?root dir \<noteq> ?root" using child_path_longer [OF d, of ?root] by auto
  obtain s1 where g: "st_get ops s ?root FS_KEY_SUB = (Some v, s1)" and al: "alike s s1"
    using getE [OF assms(1), of ?root FS_KEY_SUB] sub(1) by metis
  have s1: "inv s1" "\<And>t k. row ops s1 t k = row ops s t k" "\<And>t. st_open ops s1 t = st_open ops s t"
    using al by (simp_all add: alike_def)
  show ?thesis
  proof (cases c)
    case True
    then show ?thesis
      using sub op by (simp add: add_dir_def g added_def set_inv set_row set_open s1 slash_not_sys)
  next
    case False
    have closed: "\<not> st_open ops s1 (child_path ?root dir)" using new [OF False] s1(3) by simp
    obtain s2 where cr: "st_create ops s1 (child_path ?root dir) SYS_VALUE_FIELDS = (True, s2)"
      using create_ok [OF s1(1) closed] by (metis prod.collapse)
    have s2: "inv s2" "\<And>t. st_open ops s2 t = (t = child_path ?root dir \<or> st_open ops s t)"
        "\<And>t k. t \<noteq> st_sys ops \<Longrightarrow> row ops s2 t k = row ops s t k"
      using create_inv [OF s1(1), of "child_path ?root dir" SYS_VALUE_FIELDS]
        create_open [OF s1(1) closed, of SYS_VALUE_FIELDS]
        create_row [OF s1(1) closed, of _ SYS_VALUE_FIELDS] by (simp_all add: cr s1)
    let ?s3 = "init_dir ops C (CHR ''/'' # q) s2"
    have open2: "st_open ops s2 (CHR ''/'' # q)" using s2(2) q by simp
    note s3 = init_dir_rows [OF s2(1) open2]
    have root3: "st_open ops ?s3 ?root" using s3(2) s2(2) op by simp
    have not_dir: "\<not> is_dir ops s (child_path ?root dir)"
      using closed_row [OF assms(1) new [OF False]] by (simp add: is_dir_def)
    let ?m = "dc_enc C (map_insert dir FS_TYPE_DIR m)"
    let ?s4 = "st_set ops ?s3 ?root FS_KEY_SUB ?m"
    have run: "add_dir ops C c dir ?root s = (Val True, ?s4)"
      using False sub(2) by (simp add: add_dir_def g cr [unfolded q] q)
    have rows: "row ops ?s4 t k =
        (if t = ?root \<and> k = FS_KEY_SUB then Some ?m else row ops ?s3 t k)" for t k
      by (rule set_row [OF s3(1) root3 slash_not_sys])
    have opens: "st_open ops ?s4 t = (st_open ops s t \<or> t = child_path ?root dir)" for t
      using set_open [OF s3(1) slash_not_sys, of r FS_KEY_SUB ?m t] s3(2) s2(2) by auto
    have old: "row ops ?s4 t k = row ops s t k"
      if "t \<noteq> st_sys ops" "(t, k) \<noteq> (?root, FS_KEY_SUB)" "t \<noteq> child_path ?root dir" for t k
      using that s3(3) [of t k] s2(3) [of t k] rows [of t k] q by auto
    have new_rows: "row ops ?s4 (child_path ?root dir) FS_KEY_TYPE = Some FS_TYPE_DIR"
        "row ops ?s4 (child_path ?root dir) FS_KEY_SUB = Some (dc_enc C [])"
      using s3(4,5) neq unfolding q rows by simp_all
    have "added c dir ?root m s ?s4"
      unfolding added_def
    proof (intro conjI)
      show "inv ?s4" by (rule set_inv [OF s3(1)])
      show "\<exists>r'. row ops s ?root FS_KEY_SUB = Some r' \<and> dc_dec C r' = Some m" using sub by blast
      show "row ops ?s4 ?root FS_KEY_SUB =
          Some (dc_enc C (map_insert dir (if c then FS_TYPE_CONTRACT else FS_TYPE_DIR) m))"
        using rows False by simp
    qed (use False new_rows not_dir old opens in \<open>simp_all\<close>)
    then show ?thesis using run by blast
  qed
qed

text \<open>The abstract view of the step.\<close>

lemma added_view:
  assumes ad: "added c dir (CHR ''/'' # r) m s s'"
  shows "is_dir ops s' (CHR ''/'' # p) \<longleftrightarrow> is_dir ops s (CHR ''/'' # p)
      \<or> (\<not> c \<and> CHR ''/'' # p = child_path (CHR ''/'' # r) dir)"
    and "dir_entry ops C s' (CHR ''/'' # p) d =
      (if p = r then map_of (map_insert dir (if c then FS_TYPE_CONTRACT else FS_TYPE_DIR) m) d
       else if \<not> c \<and> CHR ''/'' # p = child_path (CHR ''/'' # r) dir then None
       else dir_entry ops C s (CHR ''/'' # p) d)"
    and "dir_entry ops C s (CHR ''/'' # r) d = map_of m d"
proof -
  note D = addedD [OF ad]
  have key: "FS_KEY_TYPE \<noteq> FS_KEY_SUB" by (simp add: fs_keys)
  show "is_dir ops s' (CHR ''/'' # p) \<longleftrightarrow> is_dir ops s (CHR ''/'' # p)
      \<or> (\<not> c \<and> CHR ''/'' # p = child_path (CHR ''/'' # r) dir)"
  proof (cases "\<not> c \<and> CHR ''/'' # p = child_path (CHR ''/'' # r) dir")
    case True
    then have "row ops s' (CHR ''/'' # p) FS_KEY_TYPE = Some FS_TYPE_DIR" using D(4) by simp
    then show ?thesis using True by (simp add: is_dir_def)
  next
    case False
    then have "row ops s' (CHR ''/'' # p) FS_KEY_TYPE = row ops s (CHR ''/'' # p) FS_KEY_TYPE"
      using D(7) [of "CHR ''/'' # p" FS_KEY_TYPE] slash_not_sys key by blast
    then show ?thesis using False by (auto simp: is_dir_def)
  qed
  show "dir_entry ops C s' (CHR ''/'' # p) d =
      (if p = r then map_of (map_insert dir (if c then FS_TYPE_CONTRACT else FS_TYPE_DIR) m) d
       else if \<not> c \<and> CHR ''/'' # p = child_path (CHR ''/'' # r) dir then None
       else dir_entry ops C s (CHR ''/'' # p) d)"
    using D(3,5) D(7) [of "CHR ''/'' # p" FS_KEY_SUB] slash_not_sys
    by (auto simp: dir_entry_def codec.dec_enc)
  show "dir_entry ops C s (CHR ''/'' # r) d = map_of m d"
    using D(2) by (auto simp: dir_entry_def)
qed

lemma tree_okD:
  assumes "tree_ok ops C s"
  shows "is_dir ops s (CHR ''/'' # p) \<Longrightarrow> row ops s (CHR ''/'' # p) FS_KEY_TYPE = Some FS_TYPE_DIR"
    "is_dir ops s (CHR ''/'' # p) \<Longrightarrow>
       \<exists>r m. row ops s (CHR ''/'' # p) FS_KEY_SUB = Some r \<and> dc_dec C r = Some m"
    "is_dir ops s (CHR ''/'' # p) \<Longrightarrow> dir_entry ops C s (CHR ''/'' # p) d = Some FS_TYPE_DIR \<Longrightarrow>
       is_dir ops s (child_path (CHR ''/'' # p) d)"
    "dir_name d \<Longrightarrow> is_dir ops s (child_path (CHR ''/'' # p) d) \<Longrightarrow> is_dir ops s (CHR ''/'' # p)"
    "dir_name d \<Longrightarrow> is_dir ops s (child_path (CHR ''/'' # p) d) \<Longrightarrow>
       dir_entry ops C s (CHR ''/'' # p) d \<noteq> None"
  using assms unfolding tree_ok_def by blast+

lemma added_tree:
  assumes ad: "added c dir (CHR ''/'' # r) m s s'" and ok: "tree_ok ops C s"
    and root: "is_dir ops s (CHR ''/'' # r)" and dir: "dir_name dir"
  shows "tree_ok ops C s'"
proof -
  let ?path = "child_path (CHR ''/'' # r) dir"
  note D = addedD [OF ad] and V = added_view [OF ad] and T = tree_okD [OF ok]
  have mono: "is_dir ops s p \<Longrightarrow> is_dir ops s' p" if "p = CHR ''/'' # q" for p q
    using V(1) [of q] that by simp
  have neq: "?path \<noteq> CHR ''/'' # r"
    using child_path_longer [of dir "CHR ''/'' # r"] dir by (auto simp: dir_name_def)
  show ?thesis
    unfolding tree_ok_def
  proof (intro conjI allI impI)
    fix p
    assume "is_dir ops s' (CHR ''/'' # p)"
    then consider (old) "is_dir ops s (CHR ''/'' # p)" "c \<or> CHR ''/'' # p \<noteq> ?path"
      | (new) "\<not> c" "CHR ''/'' # p = ?path" using V(1) by blast
    note cases = this
    show "row ops s' (CHR ''/'' # p) FS_KEY_TYPE = Some FS_TYPE_DIR"
      using cases
    proof cases
      case old
      then show ?thesis
        using T(1) D(7) [of "CHR ''/'' # p" FS_KEY_TYPE] slash_not_sys by (simp add: fs_keys)
    next
      case new
      then show ?thesis using D(4) by simp
    qed
    show "\<exists>r m. row ops s' (CHR ''/'' # p) FS_KEY_SUB = Some r \<and> dc_dec C r = Some m"
      using cases
    proof cases
      case old
      then show ?thesis
        using T(2) D(3) D(7) [of "CHR ''/'' # p" FS_KEY_SUB] slash_not_sys
        by (cases "p = r") (auto simp: codec.dec_enc)
    next
      case new
      then show ?thesis using D(5) by (simp add: codec.dec_enc)
    qed
    fix d
    assume e: "dir_entry ops C s' (CHR ''/'' # p) d = Some FS_TYPE_DIR"
    obtain q where q: "child_path (CHR ''/'' # p) d = CHR ''/'' # q" using child_path_root by blast
    show "is_dir ops s' (child_path (CHR ''/'' # p) d)"
    proof (cases "p = r \<and> d = dir \<and> map_of m dir = None")
      case True
      then have "\<not> c"
        using e V(2) [of p d] by (auto simp: map_of_insert FS_TYPE_DIR_def FS_TYPE_CONTRACT_def split: if_splits)
      then show ?thesis using True V(1) [of q] q by simp
    next
      case False
      then have "dir_entry ops C s (CHR ''/'' # p) d = Some FS_TYPE_DIR \<and> (c \<or> CHR ''/'' # p \<noteq> ?path)"
        using e V(2) [of p d] V(3) [of d] neq by (auto simp: map_of_insert split: if_splits)
      then have "is_dir ops s (child_path (CHR ''/'' # p) d)"
        using T(3) cases by blast
      then show ?thesis using mono q by blast
    qed
  next
    fix p d
    assume d: "dir_name d" and ch: "is_dir ops s' (child_path (CHR ''/'' # p) d)"
    obtain q where q: "child_path (CHR ''/'' # p) d = CHR ''/'' # q" using child_path_root by blast
    have "(is_dir ops s (CHR ''/'' # p) \<and> dir_entry ops C s (CHR ''/'' # p) d \<noteq> None)
        \<or> (\<not> c \<and> p = r \<and> d = dir)"
      using ch V(1) [of q] T(4,5) [OF d, of p] child_path_inj [OF d dir, of p r] unfolding q by metis
    then show "is_dir ops s' (CHR ''/'' # p)" "dir_entry ops C s' (CHR ''/'' # p) d \<noteq> None"
      using V(1) [of p] V(2) [of p d] V(3) [of d] root D(6)
      by (cases "p = r"; cases "d = dir"; cases "map_of m dir";
          clarsimp simp: map_of_insert; fastforce)+
  qed
qed

text \<open>Nothing in the tree is lost.\<close>

definition tree_grows :: "'s \<Rightarrow> 's \<Rightarrow> bool" where
  "tree_grows s s' \<longleftrightarrow> (\<forall>p. is_dir ops s (CHR ''/'' # p) \<longrightarrow> is_dir ops s' (CHR ''/'' # p))
     \<and> (\<forall>p d x. is_dir ops s (CHR ''/'' # p) \<longrightarrow> dir_entry ops C s (CHR ''/'' # p) d = Some x \<longrightarrow>
          dir_entry ops C s' (CHR ''/'' # p) d = Some x)"

lemma tree_grows_trans: "tree_grows s t \<Longrightarrow> tree_grows t u \<Longrightarrow> tree_grows s u"
  unfolding tree_grows_def by blast

lemma alike_grows: "alike s s' \<Longrightarrow> tree_grows s s'"
  by (simp add: alike_def tree_grows_def is_dir_def dir_entry_def)

lemma added_grows:
  assumes ad: "added c dir (CHR ''/'' # r) m s s'"
  shows "tree_grows s s'"
  unfolding tree_grows_def
proof (intro conjI allI impI)
  fix p d x
  assume "is_dir ops s (CHR ''/'' # p)" and e: "dir_entry ops C s (CHR ''/'' # p) d = Some x"
  then have "c \<or> CHR ''/'' # p \<noteq> child_path (CHR ''/'' # r) dir" using addedD(6) [OF ad] by auto
  then show "dir_entry ops C s' (CHR ''/'' # p) d = Some x"
    using added_view(2) [OF ad, of p d] added_view(3) [OF ad, of d] e
    by (cases "p = r") (auto simp: map_of_insert)
qed (use added_view(1) [OF ad] in blast)

text \<open>What building leaves behind.\<close>

definition built :: "bool \<Rightarrow> string list \<Rightarrow> string \<Rightarrow> 's \<Rightarrow> bool \<times> 's \<Rightarrow> bool" where
  "built c ds root s r \<longleftrightarrow> inv (snd r) \<and> tree_ok ops C (snd r) \<and> tree_grows s (snd r)
     \<and> (fst r \<longrightarrow> path_present ops C c (snd r) root ds)"

lemma build_dirs_built:
  assumes "inv s" and "tree_ok ops C s" and "\<forall>d \<in> set ds. dir_name d"
  shows "\<exists>b s'. build_dirs ops C c ds (CHR ''/'' # r) s = (Val b, s') \<and> built c ds (CHR ''/'' # r) s (b, s')"
  using assms
proof (induction ds arbitrary: r s)
  case Nil
  then show ?case by (auto simp: built_def tree_grows_def)
next
  case (Cons d ds)
  let ?root = "CHR ''/'' # r" and ?c = "c \<and> ds = []"
  obtain q where q: "child_path ?root d = CHR ''/'' # q" using child_path_root by blast
  obtain s1 where g: "st_get ops s ?root FS_KEY_TYPE = (row ops s ?root FS_KEY_TYPE, s1)"
      and al: "alike s s1" by (rule getE [OF Cons.prems(1)])
  have s1: "inv s1" "tree_ok ops C s1" "tree_grows s s1" "is_dir ops s1 p = is_dir ops s p"
      "st_open ops s1 p = st_open ops s p" for p
    using al alike_tree [OF al] alike_grows [OF al] Cons.prems(2) by (auto simp: alike_def is_dir_def)
  have stop: "built c (d # ds) ?root s (False, t)" if "inv t" "tree_ok ops C t" "tree_grows s t" for t
    using that by (simp add: built_def)
  have go_on: "\<exists>b s'. build_dirs ops C c ds (CHR ''/'' # q) t = (Val b, s')
      \<and> built c (d # ds) ?root s (b, s')"
    if t: "inv t" "tree_ok ops C t" "tree_grows s t" "is_dir ops t ?root"
      "dir_entry ops C t ?root d \<noteq> None" "\<not> ?c \<longrightarrow> is_dir ops t (CHR ''/'' # q)" for t
  proof -
    obtain b s' where b: "build_dirs ops C c ds (CHR ''/'' # q) t = (Val b, s')"
        "built c ds (CHR ''/'' # q) t (b, s')"
      using Cons.IH [OF t(1,2), of q] Cons.prems(3) by auto
    then have "tree_grows s s'" using tree_grows_trans t(3) by (auto simp: built_def)
    then have "built c (d # ds) ?root s (b, s')"
      using b(2) t(4-6) unfolding built_def tree_grows_def q fst_conv snd_conv path_present.simps by blast
    then show ?thesis using b(1) by blast
  qed
  show ?case
  proof (cases "st_open ops s ?root \<and> is_dir ops s ?root")
    case False
    then have "\<exists>t. build_dirs ops C c (d # ds) ?root s = (Val False, t) \<and> (t = s \<or> t = s1)"
      by (auto simp: g is_dir_def)
    then show ?thesis
      using stop [of s] stop [of s1] s1(1-3) Cons.prems(1,2) by (auto simp: tree_grows_def)
  next
    case True
    then obtain ty where ty: "row ops s ?root FS_KEY_TYPE = Some ty" by (auto simp: is_dir_def)
    show ?thesis
    proof (cases "\<not> ?c \<and> st_open ops s1 (child_path ?root d)")
      case there: True
      obtain s2 where g2: "st_get ops s1 (CHR ''/'' # q) FS_KEY_TYPE = (row ops s1 (CHR ''/'' # q) FS_KEY_TYPE, s2)"
          and al2: "alike s1 s2" by (rule getE [OF s1(1)])
      have s2: "inv s2" "tree_ok ops C s2" "tree_grows s s2" "is_dir ops s2 p = is_dir ops s p" for p
        using al2 alike_tree [OF al2] alike_grows [OF al2] s1 tree_grows_trans
        by (auto simp: alike_def is_dir_def)
      have run: "build_dirs ops C c (d # ds) ?root s =
          (if row ops s1 (CHR ''/'' # q) FS_KEY_TYPE = Some FS_TYPE_DIR
           then build_dirs ops C c ds (CHR ''/'' # q) s2 else (Val False, s2))"
        using True there ty by (simp add: g g2 q Let_def)
      show ?thesis
      proof (cases "row ops s1 (CHR ''/'' # q) FS_KEY_TYPE = Some FS_TYPE_DIR")
        case isdir: True
        then have "is_dir ops s1 (CHR ''/'' # q)" by (simp add: is_dir_def)
        then have "is_dir ops s2 (CHR ''/'' # q)" by (simp only: s1(4) s2(4))
        then show ?thesis
          using go_on [OF s2(1-3)] tree_okD(4,5) [OF s2(2), of d r] Cons.prems(3) run isdir q by simp
      next
        case False
        then show ?thesis using run stop [OF s2(1-3)] by auto
      qed
    next
      case False
      obtain v m where sub: "row ops s1 ?root FS_KEY_SUB = Some v" "dc_dec C v = Some m"
        using tree_okD(2) [OF s1(2), of r] True s1(4) by auto
      obtain s2 where a: "add_dir ops C ?c d ?root s1 = (Val True, s2)" "added ?c d ?root m s1 s2"
        using add_dir_added [OF s1(1) _ _ sub, of d ?c] True False s1(5) Cons.prems(3)
        by (auto simp: dir_name_def)
      have root1: "is_dir ops s1 ?root" using True s1(4) by simp
      have s2: "tree_ok ops C s2" "tree_grows s s2" "is_dir ops s2 ?root"
        using added_tree [OF a(2) s1(2) root1] Cons.prems(3) added_view(1) [OF a(2), of r] root1
          tree_grows_trans [OF s1(3) added_grows [OF a(2)]] by auto
      have "dir_entry ops C s2 ?root d \<noteq> None"
        using added_view(2) [OF a(2), of r d] by (auto simp: map_of_insert)
      moreover have "\<not> ?c \<longrightarrow> is_dir ops s2 (CHR ''/'' # q)"
        using added_view(1) [OF a(2), of q] q by simp
      moreover have "build_dirs ops C c (d # ds) ?root s = build_dirs ops C c ds (CHR ''/'' # q) s2"
        using True False ty a(1) by (auto simp: g q Let_def)
      ultimately show ?thesis using go_on [OF addedD(1) [OF a(2)] s2] by simp
    qed
  qed
qed

text \<open>One round of the loop at a directory: it stops at a table that is no directory, goes on below
  a directory without a change, and makes one where there is nothing.\<close>

lemma build_dirs_round:
  assumes "inv s" and "tree_ok ops C s" and root: "is_dir ops s (CHR ''/'' # r)" and d: "dir_name d"
  defines "path \<equiv> child_path (CHR ''/'' # r) d"
  shows "\<exists>s2. build_dirs ops C False (d # ds) (CHR ''/'' # r) s =
      (if blocks ops s path then (Val False, s2) else build_dirs ops C False ds path s2)
    \<and> (blocks ops s path \<longrightarrow> alike s s2)
    \<and> (\<not> blocks ops s path \<longrightarrow> inv s2 \<and> tree_ok ops C s2 \<and> is_dir ops s2 path
        \<and> (\<forall>t. st_open ops s2 t \<longleftrightarrow> st_open ops s t \<or> t = path)
        \<and> (\<forall>t k. t \<noteq> st_sys ops \<longrightarrow> t \<notin> {CHR ''/'' # r, path} \<longrightarrow> row ops s2 t k = row ops s t k)
        \<and> (is_dir ops s path \<longrightarrow> (\<forall>t k. row ops s2 t k = row ops s t k)))"
proof -
  let ?root = "CHR ''/'' # r"
  obtain q where q: "path = CHR ''/'' # q" using child_path_root unfolding path_def by blast
  obtain s1 where g: "st_get ops s ?root FS_KEY_TYPE = (row ops s ?root FS_KEY_TYPE, s1)"
      and al: "alike s s1" by (rule getE [OF assms(1)])
  have s1: "inv s1" "tree_ok ops C s1" "is_dir ops s1 p = is_dir ops s p"
      "st_open ops s1 p = st_open ops s p" "row ops s1 p k = row ops s p k" for p k
    using al alike_tree [OF al] assms(2) by (auto simp: alike_def is_dir_def)
  obtain ty where ty: "row ops s ?root FS_KEY_TYPE = Some ty" using root by (auto simp: is_dir_def)
  have op: "st_open ops s ?root" using closed_row [OF assms(1)] root by (force simp: is_dir_def)
  show ?thesis
  proof (cases "st_open ops s path")
    case True
    obtain s2 where g2: "st_get ops s1 path FS_KEY_TYPE = (row ops s1 path FS_KEY_TYPE, s2)"
        and al2: "alike s1 s2" by (rule getE [OF s1(1)])
    have al12: "alike s s2" using al al2 by (simp add: alike_def)
    have "row ops s path FS_KEY_TYPE = Some FS_TYPE_DIR \<longleftrightarrow> \<not> blocks ops s path"
      using True tree_okD(1) [OF assms(2), of q] q by (auto simp: blocks_def is_dir_def)
    then have "build_dirs ops C False (d # ds) ?root s =
        (if blocks ops s path then (Val False, s2) else build_dirs ops C False ds path s2)"
      using True op ty by (simp add: g g2 [unfolded s1(5)] s1(4) Let_def flip: path_def)
    moreover have "\<not> blocks ops s path \<longrightarrow> is_dir ops s2 path"
      using al12 True by (simp add: blocks_def is_dir_def alike_def)
    ultimately show ?thesis
      using al12 alike_tree [OF al12] assms(2) True by (auto simp: alike_def)
  next
    case False
    obtain v m where sub: "row ops s1 ?root FS_KEY_SUB = Some v" "dc_dec C v = Some m"
      using tree_okD(2) [OF s1(2), of r] root s1(3) by auto
    obtain s2 where a: "add_dir ops C False d ?root s1 = (Val True, s2)" "added False d ?root m s1 s2"
      using add_dir_added [OF s1(1) _ _ sub, of d False] op False d s1(4)
      by (auto simp: dir_name_def path_def)
    have nb: "\<not> blocks ops s path" and nd: "\<not> is_dir ops s path"
      using False closed_row [OF assms(1) False] by (simp_all add: blocks_def is_dir_def)
    have "build_dirs ops C False (d # ds) ?root s = build_dirs ops C False ds path s2"
      using False op ty a(1) by (simp add: g s1(4) Let_def flip: path_def)
    moreover have "tree_ok ops C s2" "is_dir ops s2 path"
      using added_tree [OF a(2) s1(2) _ d] root s1(3) addedD(4) [OF a(2)]
      by (auto simp: is_dir_def path_def)
    moreover have "st_open ops s2 t \<longleftrightarrow> st_open ops s t \<or> t = path" for t
      using addedD(8) [OF a(2), of t] s1(4) by (simp add: path_def)
    moreover have "row ops s2 t k = row ops s t k" if "t \<noteq> st_sys ops" "t \<notin> {?root, path}" for t k
      using addedD(7) [OF a(2), of t k] that s1(5) by (simp add: path_def)
    ultimately show ?thesis using nb nd addedD(1) [OF a(2)] by auto
  qed
qed

lemma build_dirs_walked:
  assumes "inv s" and "tree_ok ops C s" and "is_dir ops s (CHR ''/'' # r)" and "\<forall>d \<in> set ds. dir_name d"
    and "build_dirs ops C False ds (CHR ''/'' # r) s = (Val b, s')"
  shows "walked ops ds (CHR ''/'' # r) s b s'"
  using assms
proof (induction ds arbitrary: r s)
  case Nil
  then show ?case by (simp add: walked_def reached_def)
next
  case (Cons d ds)
  let ?root = "CHR ''/'' # r" and ?path = "child_path (CHR ''/'' # r) d"
  obtain q where q: "?path = CHR ''/'' # q" using child_path_root by blast
  have d: "dir_name d" using Cons.prems(4) by simp
  obtain s2 where run: "build_dirs ops C False (d # ds) ?root s =
        (if blocks ops s ?path then (Val False, s2) else build_dirs ops C False ds ?path s2)"
      and stop: "blocks ops s ?path \<longrightarrow> alike s s2"
      and go: "\<not> blocks ops s ?path \<longrightarrow> inv s2 \<and> tree_ok ops C s2 \<and> is_dir ops s2 ?path
        \<and> (\<forall>t. st_open ops s2 t \<longleftrightarrow> st_open ops s t \<or> t = ?path)
        \<and> (\<forall>t k. t \<noteq> st_sys ops \<longrightarrow> t \<notin> {?root, ?path} \<longrightarrow> row ops s2 t k = row ops s t k)
        \<and> (is_dir ops s ?path \<longrightarrow> (\<forall>t k. row ops s2 t k = row ops s t k))"
    using build_dirs_round [OF Cons.prems(1-3) d, of ds] by blast
  show ?case
  proof (cases "blocks ops s ?path")
    case True
    then have "b = False" "alike s s'" using run stop Cons.prems(5) by auto
    then show ?thesis using True Cons.prems(3) by (simp add: walked_def alike_def reached_Cons is_dir_def)
  next
    case False
    note s2 = go [rule_format, OF False]
    have names: "\<forall>x \<in> set ds. x \<noteq> []" using Cons.prems(4) by (simp add: dir_name_def)
    have far: "row ops s2 t k = row ops s t k \<and> st_open ops s2 t = st_open ops s t"
      if t: "t \<in> set (below ?path ds)" for t k
    proof -
      have "length ?path < length t" using below_longer [OF names t] .
      moreover have "length ?root < length ?path" using child_path_longer [of d ?root] d by (simp add: dir_name_def)
      moreover have "t \<noteq> st_sys ops" using below_root [of t q ds] t q slash_not_sys by auto
      ultimately show ?thesis using s2 by auto
    qed
    then have same: "blocks ops s2 t = blocks ops s t" "is_dir ops s2 t = is_dir ops s t"
      if "t \<in> set (below ?path ds)" for t
      using that by (simp_all add: blocks_def is_dir_def)
    have re: "reached ops s2 ?path ds = reached ops s ?path ds"
      using same(1) by (intro reached_cong) blast
    have w: "walked ops ds ?path s2 b s'"
      using Cons.IH [of s2 q] s2 Cons.prems(4,5) run False q by simp
    have "(\<forall>t k. row ops s' t k = row ops s t k)"
      if "\<forall>p \<in> reached ops s ?root (d # ds). is_dir ops s p"
      using that w s2 same(2) reached_below [of ops s ?path ds] False
      by (auto simp: walked_def reached_Cons re)
    moreover have "is_dir ops s' ?root"
    proof -
      have "length ?root < length ?path" using child_path_longer [of d ?root] d by (simp add: dir_name_def)
      then have "?root \<notin> insert ?path (reached ops s2 ?path ds)"
        using below_longer [OF names, of ?root ?path] reached_below [of ops s2 ?path ds] by auto
      then have "row ops s' ?root FS_KEY_TYPE = row ops s2 ?root FS_KEY_TYPE"
        using w slash_not_sys unfolding walked_def by blast
      moreover have "is_dir ops s2 ?root" using tree_okD(4) [of s2 d r] s2 d by blast
      ultimately show ?thesis by (simp add: is_dir_def)
    qed
    ultimately show ?thesis
      using w s2 False same(1) by (simp add: walked_def reached_Cons re)
  qed
qed

end

section \<open>Properties\<close>

definition count_dirs :: dir_codec where
  "count_dirs = \<lparr>dc_enc = count_enc, dc_dec = count_dec\<rparr>"

interpretation mem_tree: file_tree mem_ops "\<lambda>_. True" count_dirs
  by unfold_locales (simp_all add: count_dirs_def counted.dec_enc counted.enc_not_Nil)

lemma build_path_built:
  assumes "text_lib T" and "file_tree ops I C" and "I s" and "tree_ok ops C s"
    and "ns \<noteq> []" and "list_all path_name_ok ns"
  shows "\<exists>b s'. build_path T ops C c (CHR ''/'' # tx_join T CHR ''/'' ns) s = (Val b, s')
    \<and> I s' \<and> tree_ok ops C s'
    \<and> (\<forall>p. is_dir ops s (CHR ''/'' # p) \<longrightarrow> is_dir ops s' (CHR ''/'' # p))
    \<and> (\<forall>p d x. is_dir ops s (CHR ''/'' # p) \<longrightarrow> dir_entry ops C s (CHR ''/'' # p) d = Some x \<longrightarrow>
          dir_entry ops C s' (CHR ''/'' # p) d = Some x)
    \<and> (b \<longrightarrow> path_present ops C c s' ''/'' ns)"
proof -
  note T = assms(1) and F = assms(2)
  have "\<forall>d \<in> set ns. dir_name d"
    using text_lib.names_no_slash [OF T assms(6)] by (metis dir_name_def)
  from file_tree.build_dirs_built [OF F assms(3,4) this, of c "[]"]
  obtain b s' where b: "build_dirs ops C c ns ''/'' s = (Val b, s')"
      "file_tree.built ops I C c ns ''/'' s (b, s')" by blast
  moreover have "build_path T ops C c (CHR ''/'' # tx_join T CHR ''/'' ns) s =
      build_dirs ops C c ns ''/'' s"
    using text_lib.strip_path_of [OF T assms(5,6)] text_lib.split_path_of [OF T assms(5,6)]
    by (simp add: build_path_def text_lib.path_of_def [OF T])
  ultimately show ?thesis
    by (auto simp: file_tree.built_def [OF F] file_tree.tree_grows_def [OF F])
qed

text \<open>C29: Building the directories of a valid path, with or without a contract at its end, never
  raises and never touches an absent row.  It keeps the tree consistent (a name listed as
  directory is a directory, every directory is listed in its parent), loses nothing, and when
  it succeeds all names of the path are present and listed.\<close>
theorem build_path_keeps_tree:
  assumes "text_lib T" and "file_tree ops I C" and "I s" and "tree_ok ops C s"
    and "ns \<noteq> []" and "list_all path_name_ok ns"
  shows "\<exists>b s'. build_path T ops C c (CHR ''/'' # tx_join T CHR ''/'' ns) s = (Val b, s')
    \<and> I s' \<and> tree_ok ops C s'
    \<and> (\<forall>p. is_dir ops s (CHR ''/'' # p) \<longrightarrow> is_dir ops s' (CHR ''/'' # p))
    \<and> (\<forall>p d x. is_dir ops s (CHR ''/'' # p) \<longrightarrow> dir_entry ops C s (CHR ''/'' # p) d = Some x \<longrightarrow>
          dir_entry ops C s' (CHR ''/'' # p) d = Some x)
    \<and> (b \<longrightarrow> path_present ops C c s' ''/'' ns)"
  by (rule build_path_built [OF assms])

definition root_mem :: mem where
  "root_mem = mem_empty(mem_sys := [''/'' \<mapsto> SYS_VALUE_FIELDS],
     ''/'' := [FS_KEY_TYPE \<mapsto> FS_TYPE_DIR, FS_KEY_SUB \<mapsto> count_enc ([] :: dir_map)])"

lemma root_mem_ok: "tree_ok mem_ops count_dirs root_mem"
proof -
  have row: "row mem_ops root_mem (CHR ''/'' # p) k =
      (if p = [] then (if k = FS_KEY_TYPE then Some FS_TYPE_DIR
         else if k = FS_KEY_SUB then Some (count_enc ([] :: dir_map)) else None) else None)" for p k
    by (simp add: row_def root_mem_def mem_empty_def mem_sys_def fs_keys)
  have "\<not> is_dir mem_ops root_mem (child_path (CHR ''/'' # p) d)" if d: "dir_name d" for p d
  proof -
    obtain q where q: "child_path (CHR ''/'' # p) d = CHR ''/'' # q" using child_path_root by blast
    then have "q \<noteq> []" using d by (auto simp: child_path_def dir_name_def split: if_splits)
    then show ?thesis by (simp add: is_dir_def q row)
  qed
  then show ?thesis
    by (auto simp: tree_ok_def) (auto simp: is_dir_def dir_entry_def row count_dirs_def
      counted.dec_enc fs_keys split: if_splits)
qed

theorem build_path_keeps_tree_witness:
  "\<exists>b s'. build_path std_text mem_ops count_dirs True ''/apps/a'' root_mem = (Val b, s')
    \<and> tree_ok mem_ops count_dirs s' \<and> is_dir mem_ops s' ''/''"
proof -
  have "is_dir mem_ops root_mem ''/''"
    by (simp add: is_dir_def row_def root_mem_def mem_sys_def fs_keys)
  moreover have "CHR ''/'' # tx_join std_text CHR ''/'' [''apps'', ''a''] = ''/apps/a''"
    by (simp add: std_text_def)
  moreover have "list_all path_name_ok [''apps'', ''a'']"
    by (simp add: path_name_ok_def path_char_ok_def is_alnum_def)
  moreover note build_path_keeps_tree [OF std.text_lib_axioms mem_tree.file_tree_axioms TrueI
      root_mem_ok, of "[''apps'', ''a'']" True]
  ultimately show ?thesis by fastforce
qed

section \<open>Making and listing a directory\<close>

lemmas fs_codes = CODE_FILE_INVALID_PATH_def CODE_FILE_ALREADY_EXIST_def CODE_FILE_BUILD_DIR_FAILED_def
  USER_APPS_PREFIX_def USER_TABLE_PREFIX_def

lemma path_present_last:
  assumes "path_present ops C False s root ds" and "ds \<noteq> []"
  shows "is_dir ops s (foldl child_path root ds)
    \<and> is_dir ops s (foldl child_path root (butlast ds))
    \<and> dir_entry ops C s (foldl child_path root (butlast ds)) (last ds) \<noteq> None"
  using assms
proof (induction ds arbitrary: root)
  case (Cons d ds)
  then show ?case by (cases "ds = []") auto
qed simp

context text_lib begin

lemma join_snoc: "ss \<noteq> [] \<Longrightarrow> tx_join T c (ss @ [s]) = tx_join T c ss @ c # s"
proof (induction ss)
  case (Cons a ss)
  then show ?case by (cases ss) (auto simp: join_one join_Cons)
qed simp

lemma check_parent:
  assumes "ss \<noteq> []" and "list_all path_name_ok ss" and "check_path_valid T (path_of ss) = Some True"
  shows "check_path_valid T (path_of (butlast ss)) = Some True"
proof (cases "butlast ss = []")
  case True
  then show ?thesis by (simp add: check_path_valid_def path_of_def join_Nil FS_PATH_MAX_LENGTH_def)
next
  case False
  have "path_of ss = path_of (butlast ss) @ CHR ''/'' # last ss"
    using join_snoc [OF False, of "CHR ''/''" "last ss"] assms(1) by (simp add: path_of_def)
  moreover have "list_all path_name_ok (butlast ss)"
    using assms(2) by (auto dest: in_set_butlastD simp: list_all_iff)
  ultimately show ?thesis
    using assms check_path_of [OF False] check_path_of [OF assms(1,2)] by auto
qed

lemma foldl_child_path:
  assumes "[] \<notin> set ds"
  shows "foldl child_path ''/'' ds = path_of ds"
  using assms
proof (induction ds rule: rev_induct)
  case Nil
  then show ?case by (simp add: path_of_def join_Nil)
next
  case (snoc d ds)
  have "tx_join T CHR ''/'' ds \<noteq> []" if "ds \<noteq> []"
    using that snoc.prems by (cases ds rule: list.exhaust; cases "tl ds") (auto simp: join_one join_Cons)
  then show ?case
    using snoc by (cases "ds = []") (auto simp: path_of_def join_Nil join_one join_snoc child_path_def)
qed

end

lemma list_dir_of_dir:
  assumes "text_lib T" and "file_tree ops I C" and "I s" and "tree_ok ops C s"
    and "check_path_valid T (CHR ''/'' # p) = Some True" and "is_dir ops s (CHR ''/'' # p)"
  shows "\<exists>m g'. fst (list_dir T ops C (CHR ''/'' # p) g s) = Val (FsList m, g')
    \<and> map_of m = dir_entry ops C s (CHR ''/'' # p)"
proof -
  note F = assms(2)
  obtain v m where m: "row ops s (CHR ''/'' # p) FS_KEY_SUB = Some v" "dc_dec C v = Some m"
    using file_tree.tree_okD(2) [OF F assms(4,6)] by blast
  have "st_open ops s (CHR ''/'' # p)"
    using table_storage.closed_row [of ops I] F assms(3,6) by (force simp: is_dir_def file_tree_def)
  moreover obtain s1 where g: "st_get ops s (CHR ''/'' # p) FS_KEY_TYPE = (row ops s (CHR ''/'' # p) FS_KEY_TYPE, s1)"
      "file_tree.alike ops I s s1" using file_tree.getE [OF F assms(3)] by metis
  moreover have "I s1" "row ops s1 (CHR ''/'' # p) FS_KEY_SUB = Some v"
    using g(2) m(1) by (simp_all add: file_tree.alike_def [OF F])
  moreover obtain s2 where "st_get ops s1 (CHR ''/'' # p) FS_KEY_SUB = (Some v, s2)"
    using file_tree.getE [OF F \<open>I s1\<close>, of "CHR ''/'' # p" FS_KEY_SUB] calculation(5) by metis
  ultimately show ?thesis
    using assms(5,6) m by (auto simp: list_dir_def Let_def is_dir_def dir_entry_def fun_eq_iff)
qed

text \<open>What a path must look like: at most 56 characters below \<open>/apps/\<close> or \<open>/tables/\<close>, and one to six
  names of letters, digits and underscores, none starting with an underscore, between its slashes
  (one slash at the end does not count).\<close>

definition well_named :: "string \<Rightarrow> bool" where
  "well_named n \<longleftrightarrow> n \<noteq> [] \<and> hd n \<noteq> CHR ''_'' \<and>
     set n \<subseteq> set ''abcdefghijklmnopqrstuvwxyzABCDEFGHIJKLMNOPQRSTUVWXYZ0123456789_''"

definition path_names :: "text_ops \<Rightarrow> string \<Rightarrow> string list" where
  "path_names T p = tx_split T CHR ''/'' True
     (let d = tl p in if d \<noteq> [] \<and> last d = CHR ''/'' then butlast d else d)"

definition good_path :: "text_ops \<Rightarrow> string \<Rightarrow> bool" where
  "good_path T p \<longleftrightarrow> length p \<le> 56 \<and> (\<exists>x. p = ''/apps/'' @ x \<or> p = ''/tables/'' @ x)
     \<and> length (path_names T p) \<in> {1..6} \<and> (\<forall>n \<in> set (path_names T p). well_named n)"

lemma path_chars: "map of_char ''abcdefghijklmnopqrstuvwxyzABCDEFGHIJKLMNOPQRSTUVWXYZ0123456789_'' =
    [97..<123] @ [65..<91] @ [48..<58] @ [95 :: nat]"
  by code_simp

lemma path_char_in: "path_char_ok c \<longleftrightarrow>
    c \<in> set ''abcdefghijklmnopqrstuvwxyzABCDEFGHIJKLMNOPQRSTUVWXYZ0123456789_''" (is "_ \<longleftrightarrow> c \<in> set ?cs")
proof -
  have us: "c = CHR ''_'' \<longleftrightarrow> of_char c = (95 :: nat)"
    using of_char_eq_iff [of c "CHR ''_''", where 'a = nat] by simp
  have "c \<in> set ?cs \<longleftrightarrow> (of_char c :: nat) \<in> of_char ` set ?cs"
    by (simp only: inj_image_mem_iff [OF inj_of_char])
  also have "\<dots> \<longleftrightarrow> (of_char c :: nat) \<in> set ([97..<123] @ [65..<91] @ [48..<58] @ [95])"
    by (simp only: path_chars flip: set_map)
  also have "\<dots> \<longleftrightarrow> path_char_ok c"
    unfolding path_char_ok_def is_alnum_def Let_def us set_append set_upt Un_iff atLeastLessThan_iff
      list.set insert_iff empty_iff by auto
  finally show ?thesis by (simp only:)
qed

lemma path_name_well: "path_name_ok n \<longleftrightarrow> well_named n"
  by (auto simp: path_name_ok_def well_named_def list_all_iff path_char_in simp del: list.set)

lemma has_prefix_iff: "has_prefix a p \<longleftrightarrow> (\<exists>x. p = a @ x)"
  by (auto simp: has_prefix_def) (metis append_take_drop_id)

lemma below_root_names:
  assumes "p = ''/apps/'' @ x \<or> p = ''/tables/'' @ x"
  shows "\<exists>d. p \<noteq> [] \<and> p \<noteq> ''/'' \<and> strip_path p = Some d \<and> path_names T p = tx_split T CHR ''/'' True d"
  using assms by (auto simp: strip_path_def path_names_def Let_def)

lemma check_path_total: "check_path_valid T p \<noteq> None"
  by (auto simp: check_path_valid_def strip_path_def Let_def split: list.splits if_splits)

lemma check_good:
  "check_path_valid T p = Some True \<and> (has_prefix ''/apps/'' p \<or> has_prefix ''/tables/'' p)
     \<longleftrightarrow> good_path T p"
proof (cases "\<exists>x. p = ''/apps/'' @ x \<or> p = ''/tables/'' @ x")
  case True
  then obtain x where x: "p = ''/apps/'' @ x \<or> p = ''/tables/'' @ x" by blast
  have "list_all path_name_ok l \<longleftrightarrow> (\<forall>n \<in> set l. well_named n)" for l
    by (simp add: list_all_iff path_name_well)
  moreover obtain d where d: "p \<noteq> []" "p \<noteq> ''/''" "strip_path p = Some d"
      "path_names T p = tx_split T CHR ''/'' True d" using below_root_names [OF x] by blast
  moreover have "length l \<in> {1..6} \<longleftrightarrow> \<not> 6 < length l \<and> l \<noteq> []" for l :: "string list"
    by (cases l) auto
  ultimately show ?thesis
    using True unfolding good_path_def has_prefix_iff check_path_valid_def FS_PATH_MAX_LENGTH_def
      FS_PATH_MAX_LEVEL_def by (simp add: Let_def) blast
qed (auto simp: good_path_def has_prefix_iff)

lemma good_build:
  assumes "good_path T p"
  shows "build_path T ops C False p s = build_dirs ops C False (path_names T p) ''/'' s"
proof -
  obtain x where "p = ''/apps/'' @ x \<or> p = ''/tables/'' @ x" using assms unfolding good_path_def by blast
  then show ?thesis
    using below_root_names [of p x T] by (auto simp: build_path_def)
qed

lemma build_dirs_no_root:
  assumes "file_tree ops I C" and "I s" and "\<not> is_dir ops s ''/''" and "ds \<noteq> []"
  shows "\<exists>s'. build_dirs ops C False ds ''/'' s = (Val False, s') \<and> file_tree.alike ops I s s'"
proof -
  obtain s1 where "st_get ops s ''/'' FS_KEY_TYPE = (row ops s ''/'' FS_KEY_TYPE, s1)"
      "file_tree.alike ops I s s1" using file_tree.getE [OF assms(1,2)] by metis
  moreover have "file_tree.alike ops I s s" using assms(2) by (simp add: file_tree.alike_def [OF assms(1)])
  ultimately show ?thesis using assms(3,4) by (cases ds) (auto simp: is_dir_def)
qed

lemma last_below: "ds \<noteq> [] \<Longrightarrow> foldl child_path root ds \<in> set (below root ds)"
proof (induction ds arbitrary: root)
  case (Cons d ds)
  then show ?case by (cases ds) auto
qed simp

text \<open>The canonical path of the names lists, and so does its parent, after a successful building.\<close>

lemma listed_after:
  assumes T: "path_lib T" and F: "file_tree ops I C" and t: "I t" "tree_ok ops C t"
    and good: "good_path T p"
    and dirs: "\<forall>a \<in> set (below ''/'' (path_names T p)). is_dir ops t a"
  defines "ns \<equiv> path_names T p"
  shows "\<exists>m g1. fst (list_dir T ops C (CHR ''/'' # tx_join T CHR ''/'' ns) g t) = Val (FsList m, g1)"
    and "\<exists>m g1. fst (list_dir T ops C (CHR ''/'' # tx_join T CHR ''/'' (butlast ns)) g t) =
      Val (FsList m, g1) \<and> map_of m (last ns) \<noteq> None"
proof -
  have L: "text_lib T" using T by (rule path_lib.axioms)
  have ok: "list_all path_name_ok ns" "ns \<noteq> []" "length ns \<le> 6" "length p \<le> 56"
    using good by (auto simp: good_path_def ns_def list_all_iff path_name_well)
  have no: "[] \<notin> set ns" "\<forall>d \<in> set ns. CHR ''/'' \<notin> set d"
    using text_lib.names_no_slash [OF L ok(1)] by auto
  have po: "text_lib.path_of T xs = CHR ''/'' # tx_join T CHR ''/'' xs" for xs
    by (simp add: text_lib.path_of_def [OF L])
  obtain x where x: "p = ''/apps/'' @ x \<or> p = ''/tables/'' @ x" using good unfolding good_path_def by blast
  define d where "d = (let d = tl p in if d \<noteq> [] \<and> last d = CHR ''/'' then butlast d else d)"
  have "length d < length p" using x by (auto simp: d_def Let_def)
  then have "length (text_lib.path_of T ns) \<le> 56"
    using path_lib.join_split [OF T, of "CHR ''/''" True d] ok(4)
    by (simp add: po ns_def path_names_def d_def)
  then have valid: "check_path_valid T (text_lib.path_of T ns) = Some True"
    using text_lib.check_path_of [OF L ok(2,1)] ok(3) by (simp add: FS_PATH_MAX_LENGTH_def FS_PATH_MAX_LEVEL_def)
  have dir: "is_dir ops t (text_lib.path_of T ns)"
    using dirs last_below [OF ok(2), of "''/''"] text_lib.foldl_child_path [OF L no(1)] by (auto simp: ns_def)
  have "foldl child_path ''/'' (butlast ns @ [last ns]) = text_lib.path_of T ns"
    using text_lib.foldl_child_path [OF L no(1)] ok(2) by simp
  moreover have "foldl child_path ''/'' (butlast ns) = text_lib.path_of T (butlast ns)"
    using text_lib.foldl_child_path [OF L, of "butlast ns"] no(1) in_set_butlastD by metis
  ultimately have "child_path (text_lib.path_of T (butlast ns)) (last ns) = text_lib.path_of T ns"
    by simp
  then have parent: "is_dir ops t (text_lib.path_of T (butlast ns))"
      "dir_entry ops C t (text_lib.path_of T (butlast ns)) (last ns) \<noteq> None"
    using file_tree.tree_okD(4,5) [OF F t(2), of "last ns"] dir no ok(2)
    by (metis dir_name_def last_in_set po)+
  show "\<exists>m g1. fst (list_dir T ops C (CHR ''/'' # tx_join T CHR ''/'' ns) g t) = Val (FsList m, g1)"
    using list_dir_of_dir [OF L F t, of "tx_join T CHR ''/'' ns" g] valid dir unfolding po by blast
  show "\<exists>m g1. fst (list_dir T ops C (CHR ''/'' # tx_join T CHR ''/'' (butlast ns)) g t) =
      Val (FsList m, g1) \<and> map_of m (last ns) \<noteq> None"
    using list_dir_of_dir [OF L F t, of "tx_join T CHR ''/'' (butlast ns)" g] parent
      text_lib.check_parent [OF L ok(2,1) valid] unfolding po by metis
qed

text \<open>Building the names of a good path: the answer, what it changes, and the lists after success.\<close>

definition dir_walk :: "'s storage_ops \<Rightarrow> 's \<Rightarrow> string list \<Rightarrow> string set" where
  "dir_walk ops s ds = (if is_dir ops s ''/'' then reached ops s ''/'' ds else {})"

lemma build_good_path:
  assumes T: "path_lib T" and F: "file_tree ops I C" and s: "I s" "tree_ok ops C s" and good: "good_path T p"
  defines "ns \<equiv> path_names T p"
  shows "\<exists>b t. build_path T ops C False p s = (Val b, t) \<and> I t \<and> tree_ok ops C t
    \<and> b = (is_dir ops s ''/'' \<and> (\<forall>a \<in> set (below ''/'' ns). st_open ops s a \<longrightarrow> is_dir ops s a))
    \<and> (\<forall>a. st_open ops t a \<longleftrightarrow> st_open ops s a \<or> a \<in> dir_walk ops s ns)
    \<and> (\<forall>a \<in> dir_walk ops s ns. is_dir ops t a)
    \<and> (\<forall>a k. a \<noteq> st_sys ops \<longrightarrow> a \<notin> insert ''/'' (dir_walk ops s ns) \<longrightarrow> row ops t a k = row ops s a k)
    \<and> ((\<forall>a \<in> dir_walk ops s ns. is_dir ops s a) \<longrightarrow> (\<forall>a k. row ops t a k = row ops s a k))
    \<and> (\<forall>q. is_dir ops s (CHR ''/'' # q) \<longrightarrow> is_dir ops t (CHR ''/'' # q))
    \<and> (\<forall>q d x. is_dir ops s (CHR ''/'' # q) \<longrightarrow> dir_entry ops C s (CHR ''/'' # q) d = Some x \<longrightarrow>
          dir_entry ops C t (CHR ''/'' # q) d = Some x)
    \<and> (b \<longrightarrow> dir_walk ops s ns = set (below ''/'' ns))"
proof -
  have ok: "list_all path_name_ok ns" "ns \<noteq> []"
    using good by (auto simp: good_path_def ns_def list_all_iff path_name_well)
  have names: "\<forall>d \<in> set ns. dir_name d"
    using text_lib.names_no_slash [OF path_lib.axioms(1) [OF T] ok(1)] by (metis dir_name_def)
  obtain b t where b: "build_dirs ops C False ns ''/'' s = (Val b, t)"
      "file_tree.built ops I C False ns ''/'' s (b, t)"
    using file_tree.build_dirs_built [OF F s names, of False "[]"] by blast
  have run: "build_path T ops C False p s = (Val b, t)" using b(1) by (simp add: good_build [OF good] ns_def)
  have grows: "I t" "tree_ok ops C t" "file_tree.tree_grows ops C s t"
    using b(2) by (simp_all add: file_tree.built_def [OF F])
  show ?thesis
  proof (cases "is_dir ops s ''/''")
    case True
    then have "walked ops ns ''/'' s b t" using file_tree.build_dirs_walked [OF F s _ names b(1)] by simp
    moreover have "b \<Longrightarrow> reached ops s ''/'' ns = set (below ''/'' ns)"
      using calculation by (simp add: walked_def reached_def takeWhile_eq_all_conv [THEN iffD2])
    ultimately show ?thesis
      using True run grows
      by (auto simp: dir_walk_def walked_def blocks_def file_tree.tree_grows_def [OF F])
  next
    case False
    then have "\<not> b" "file_tree.alike ops I s t"
      using build_dirs_no_root [OF F s(1) False ok(2)] b(1) by auto
    then show ?thesis
      using False run grows
      by (auto simp: dir_walk_def file_tree.alike_def [OF F] file_tree.tree_grows_def [OF F])
  qed
qed

text \<open>C40: Making a directory in a consistent tree, for every path string, answers a status and raises
  nothing.  Each
  status is given exactly when its condition holds: -53005 for a path that is too long, not below
  \<open>/apps/\<close> or \<open>/tables/\<close>, or not made of one to six well-formed names; else -53002 where a table of
  this very spelling is open; else 0 when the root is a directory and every open table on the way is
  one; else -53003.  The first two leave the state as it is.  The last two keep the tree
  consistent and lose no directory or entry of it; they change at most the root and the tables of
  the path up to the first one that is no directory, all of which are directories afterwards, and
  change no row and open no table when these were there already, so -53003 below existing
  directories changes nothing.  After success the canonical spelling of the path lists as a
  directory, and the list of its parent has the last name.\<close>
theorem make_dir_then_list:
  assumes "path_lib T" and "file_tree ops I C" and "I s" and "tree_ok ops C s"
    and "make_dir T ops C p g s = (r, s')"
    and "ns = path_names T p" and "walk = dir_walk ops s ns"
  shows "\<exists>code g'. r = Val (FsCode code, g')
    \<and> code = (if \<not> good_path T p then -53005
              else if st_open ops s p then -53002
              else if is_dir ops s ''/'' \<and> (\<forall>a \<in> set (below ''/'' ns). st_open ops s a \<longrightarrow> is_dir ops s a)
              then 0 else -53003)
    \<and> (code \<in> {-53005, -53002} \<longrightarrow> s' = s)
    \<and> (code \<in> {0, -53003} \<longrightarrow> I s' \<and> tree_ok ops C s'
      \<and> (\<forall>q. is_dir ops s (CHR ''/'' # q) \<longrightarrow> is_dir ops s' (CHR ''/'' # q))
      \<and> (\<forall>q d x. is_dir ops s (CHR ''/'' # q) \<longrightarrow> dir_entry ops C s (CHR ''/'' # q) d = Some x \<longrightarrow>
            dir_entry ops C s' (CHR ''/'' # q) d = Some x)
      \<and> (\<forall>a. st_open ops s' a \<longleftrightarrow> st_open ops s a \<or> a \<in> walk) \<and> (\<forall>a \<in> walk. is_dir ops s' a)
      \<and> (\<forall>a k. a \<noteq> st_sys ops \<longrightarrow> a \<notin> insert ''/'' walk \<longrightarrow> row ops s' a k = row ops s a k)
      \<and> ((\<forall>a \<in> walk. is_dir ops s a) \<longrightarrow>
           (\<forall>a k. row ops s' a k = row ops s a k) \<and> (\<forall>a. st_open ops s' a = st_open ops s a)))
    \<and> (code = 0 \<longrightarrow>
        (\<exists>m g1. fst (list_dir T ops C (CHR ''/'' # tx_join T CHR ''/'' ns) g s') = Val (FsList m, g1))
      \<and> (\<exists>m g1. fst (list_dir T ops C (CHR ''/'' # tx_join T CHR ''/'' (butlast ns)) g s') =
            Val (FsList m, g1) \<and> map_of m (last ns) \<noteq> None))"
proof (cases "good_path T p")
  case False
  then have "r = Val (FsCode (-53005), g) \<and> s' = s"
    using assms(5) check_good [of T p] check_path_total [of T p]
    by (auto simp: make_dir_def fs_codes split: option.splits bool.splits if_splits)
  then show ?thesis using False by simp
next
  case good: True
  then have valid: "check_path_valid T p = Some True" "has_prefix ''/apps/'' p \<or> has_prefix ''/tables/'' p"
    using check_good [of T p] by blast+
  show ?thesis
  proof (cases "st_open ops s p")
    case True
    then have "r = Val (FsCode (-53002), append_operation OpOpenTable 1 g) \<and> s' = s"
      using assms(5) valid by (auto simp: make_dir_def fs_codes Let_def)
    then show ?thesis using good True by simp
  next
    case False
    from build_good_path [OF assms(1-4) good]
    obtain b t where B: "build_path T ops C False p s = (Val b, t)" "I t" "tree_ok ops C t"
        "b = (is_dir ops s ''/'' \<and> (\<forall>a \<in> set (below ''/'' ns). st_open ops s a \<longrightarrow> is_dir ops s a))"
        "\<forall>a. st_open ops t a \<longleftrightarrow> st_open ops s a \<or> a \<in> walk" "\<forall>a \<in> walk. is_dir ops t a"
        "\<forall>a k. a \<noteq> st_sys ops \<longrightarrow> a \<notin> insert ''/'' walk \<longrightarrow> row ops t a k = row ops s a k"
        "(\<forall>a \<in> walk. is_dir ops s a) \<longrightarrow> (\<forall>a k. row ops t a k = row ops s a k)"
        "\<forall>q. is_dir ops s (CHR ''/'' # q) \<longrightarrow> is_dir ops t (CHR ''/'' # q)"
        "\<forall>q d x. is_dir ops s (CHR ''/'' # q) \<longrightarrow> dir_entry ops C s (CHR ''/'' # q) d = Some x \<longrightarrow>
           dir_entry ops C t (CHR ''/'' # q) d = Some x"
        "b \<longrightarrow> walk = set (below ''/'' ns)"
      unfolding assms(6,7) by (elim exE conjE) blast
    have run: "r = Val (FsCode (if b then 0 else -53003), append_operation OpOpenTable 1 g)" "s' = t"
      using assms(5) valid False B(1) by (auto simp: make_dir_def fs_codes Let_def recursive_build_dir_def)
    have shut: "is_dir ops s a \<Longrightarrow> st_open ops s a" for a
      using table_storage.closed_row [of ops I] assms(2,3) by (force simp: is_dir_def file_tree_def)
    have "b \<Longrightarrow> \<forall>a \<in> set (below ''/'' ns). is_dir ops t a" using B(6,11) by simp
    then have "(\<exists>m g1. fst (list_dir T ops C (CHR ''/'' # tx_join T CHR ''/'' ns) g t) = Val (FsList m, g1))
      \<and> (\<exists>m g1. fst (list_dir T ops C (CHR ''/'' # tx_join T CHR ''/'' (butlast ns)) g t) =
            Val (FsList m, g1) \<and> map_of m (last ns) \<noteq> None)" if b
      using listed_after [OF assms(1,2) B(2,3) good] that assms(6) by blast
    then have lists: "b \<longrightarrow> (\<exists>m g1. fst (list_dir T ops C (CHR ''/'' # tx_join T CHR ''/'' ns) g t) = Val (FsList m, g1))
      \<and> (\<exists>m g1. fst (list_dir T ops C (CHR ''/'' # tx_join T CHR ''/'' (butlast ns)) g t) =
            Val (FsList m, g1) \<and> map_of m (last ns) \<noteq> None)" by blast
    have same: "(\<forall>a \<in> walk. is_dir ops s a) \<longrightarrow>
        (\<forall>a k. row ops t a k = row ops s a k) \<and> (\<forall>a. st_open ops t a = st_open ops s a)"
      using B(5,8) shut by blast
    show ?thesis
      unfolding run(2)
    proof (rule exI, rule exI, intro conjI)
      show "r = Val (FsCode (if b then 0 else -53003), append_operation OpOpenTable 1 g)" by (rule run(1))
      show "(if b then 0 else -53003) = (if \<not> good_path T p then -53005 else if st_open ops s p then -53002
          else if is_dir ops s ''/'' \<and> (\<forall>a \<in> set (below ''/'' ns). st_open ops s a \<longrightarrow> is_dir ops s a)
          then 0 else -53003 :: int)"
        using good False B(4) by simp
    next
      show "(if b then 0 else -53003 :: int) \<in> {-53005, -53002} \<longrightarrow> t = s" by simp
    qed ((rule impI, intro conjI B same), use lists in auto)
  qed
qed

theorem make_dir_then_list_witness:
  "(\<exists>g' s'. make_dir std_text mem_ops count_dirs ''/apps/a/'' create_precompiled_gas root_mem =
        (Val (FsCode 0, g'), s') \<and> tree_ok mem_ops count_dirs s' \<and> is_dir mem_ops s' ''/apps/a''
      \<and> (\<exists>m g1. fst (list_dir std_text mem_ops count_dirs ''/apps'' create_precompiled_gas s') =
           Val (FsList m, g1) \<and> map_of m ''a'' \<noteq> None))
    \<and> (\<exists>g'. make_dir std_text mem_ops count_dirs ''/apps/_a'' create_precompiled_gas root_mem =
        (Val (FsCode (-53005), g'), root_mem))"
proof -
  have ops: "is_dir mem_ops root_mem ''/''"
    by (auto simp: is_dir_def row_def root_mem_def mem_sys_def fs_keys mem_empty_def)
  have "\<not> blocks mem_ops root_mem ''/apps''" "\<not> blocks mem_ops root_mem ''/apps/a''"
    by (simp_all add: blocks_def row_def root_mem_def mem_sys_def fs_keys mem_empty_def)
  moreover have "child_path ''/'' ''apps'' = ''/apps''" "child_path ''/apps'' ''a'' = ''/apps/a''"
    by (simp_all add: child_path_def)
  ultimately have way: "dir_walk mem_ops root_mem [''apps'', ''a''] = {''/apps'', ''/apps/a''}"
    by (auto simp: dir_walk_def ops reached_def)
  have names: "path_names std_text ''/apps/a/'' = [''apps'', ''a'']"
      "path_names std_text ''/apps/_a'' = [''apps'', ''_a'']"
    by (simp_all add: path_names_def std_text_def split_with.simps)
  have good: "good_path std_text ''/apps/a/''" "\<not> good_path std_text ''/apps/_a''"
    by (auto simp: good_path_def names well_named_def)
  let ?g = create_precompiled_gas
  obtain r1 s1 r2 s2 where run: "make_dir std_text mem_ops count_dirs ''/apps/a/'' ?g root_mem = (r1, s1)"
      "make_dir std_text mem_ops count_dirs ''/apps/_a'' ?g root_mem = (r2, s2)"
    by (metis surj_pair)
  note made = make_dir_then_list [OF std_path.path_lib_axioms mem_tree.file_tree_axioms TrueI
      root_mem_ok _ refl refl]
  have free: "\<not> st_open mem_ops root_mem ''/apps/a/''"
      "\<forall>a \<in> set (below ''/'' [''apps'', ''a'']). st_open mem_ops root_mem a \<longrightarrow> is_dir mem_ops root_mem a"
    by (simp_all add: child_path_def root_mem_def mem_sys_def mem_empty_def)
  have zero: "(if \<not> good_path std_text ''/apps/a/'' then -53005
      else if st_open mem_ops root_mem ''/apps/a/'' then -53002
      else if is_dir mem_ops root_mem ''/'' \<and> (\<forall>a \<in> set (below ''/'' [''apps'', ''a'']).
          st_open mem_ops root_mem a \<longrightarrow> is_dir mem_ops root_mem a)
      then 0 else -53003) = (0 :: int)"
    by (rule trans [OF if_not_P trans [OF if_not_P if_P]]) (use good(1) ops free in blast)+
  from made [OF run(1), unfolded names(1) zero] obtain code g1 where 1: "r1 = Val (FsCode code, g1)"
      "code = 0" "code \<in> {0, -53003} \<longrightarrow> tree_ok mem_ops count_dirs s1
        \<and> (\<forall>a \<in> dir_walk mem_ops root_mem [''apps'', ''a'']. is_dir mem_ops s1 a)"
      "code = 0 \<longrightarrow> (\<exists>m g1. fst (list_dir std_text mem_ops count_dirs
          (CHR ''/'' # tx_join std_text CHR ''/'' (butlast [''apps'', ''a''])) ?g s1) =
           Val (FsList m, g1) \<and> map_of m (last [''apps'', ''a'']) \<noteq> None)"
    by (elim exE conjE) (rule that; (assumption | blast))
  from made [OF run(2)] obtain g2 where 2: "r2 = Val (FsCode (-53005), g2)" "s2 = root_mem"
    using good(2) by (elim exE conjE) (simp only: simp_thms if_True if_False insert_iff; blast)
  have e: "CHR ''/'' # tx_join std_text CHR ''/'' (butlast [''apps'', ''a'']) = ''/apps''"
      "last [''apps'', ''a''] = ''a''" by (simp_all add: std_text_def)
  have "tree_ok mem_ops count_dirs s1 \<and> is_dir mem_ops s1 ''/apps/a''"
    using 1(3) unfolding way 1(2) by blast
  moreover have "\<exists>m g1. fst (list_dir std_text mem_ops count_dirs ''/apps'' ?g s1) = Val (FsList m, g1)
      \<and> map_of m ''a'' \<noteq> None" by (rule mp [OF 1(4) [unfolded e] 1(2)])
  moreover have "make_dir std_text mem_ops count_dirs ''/apps/a/'' ?g root_mem = (Val (FsCode 0, g1), s1)"
      "make_dir std_text mem_ops count_dirs ''/apps/_a'' ?g root_mem = (Val (FsCode (-53005), g2), root_mem)"
    using run 1(1,2) 2 by (simp_all only:)
  ultimately show ?thesis by blast
qed

end
