(* ===== verification/Host.thy ===== *)
theory Host imports SyncStorage ExecMessages Codec Gas begin

text \<open>
  The host side of a virtual machine: \<open>HostContext\<close> (\<open>src/vm/HostContext.h\<close> and \<open>.cpp\<close>) and the
  function tables of \<open>src/vm/EVMHostInterface.cpp\<close>.  The virtual machines themselves are
  external; a run of one is a tree of calls to the host (\<open>vm\<close>), each with a continuation for
  its answer, ending in the \<open>evmc_result\<close> the executive gets.

  The state is the key-locked storage of theory \<open>SyncStorage\<close>.  A refused lock raises the
  dead lock error.  An exception that leaves a function declared \<open>noexcept\<close> calls
  \<open>std::terminate\<close>, the outcome \<open>Terminated\<close>; \<open>Undefined\<close> is undefined behaviour, such as
  dereferencing a null pointer.
\<close>

section \<open>Outcomes\<close>

datatype tx_status =
    StNone | StUnknown | StOutOfGasLimit | StNotEnoughCash | StBadInstruction | StBadJumpDestination
  | StOutOfGas | StOutOfStack | StStackUnderflow | StContractAddressAlreadyUsed | StPrecompiledError
  | StRevertInstruction | StPermissionDenied | StCallAddressError | StGasOverflow
  | StContractFrozen | StAccountFrozen | StWASMValidationFailure | StWASMArgumentOutOfRange
  | StWASMUnreachableInstruction | StWASMTrap

text \<open>\<open>OutOfGas\<close> says whether the exception carries the status code, \<open>StatusException\<close> is one of
  the exceptions that \<open>toTransactionStatus\<close> names.\<close>

datatype exn =
    PermissionDenied
  | PrecompiledError "string option"
  | OutOfGas bool
  | BcosError int string
  | InternalVMError
  | StatusException tx_status
  | StdException string

datatype 'a outcome = Done 'a | Thrown exn | Terminated | ExitProcess | Undefined

definition DEAD_LOCK :: int where "DEAD_LOCK = -80000 + 9"

definition dead_lock :: exn where
  "dead_lock = BcosError DEAD_LOCK ''Dead lock detected, revert transaction''"

text \<open>The status codes of EVMC the executive distinguishes; \<open>EVMC_OTHER\<close> says whether the code
  is at most \<open>EVMC_INTERNAL_ERROR\<close>.\<close>

datatype evmc_status =
    EVMC_SUCCESS | EVMC_FAILURE | EVMC_REVERT | EVMC_OUT_OF_GAS | EVMC_INVALID_INSTRUCTION
  | EVMC_UNDEFINED_INSTRUCTION | EVMC_STACK_OVERFLOW | EVMC_STACK_UNDERFLOW
  | EVMC_BAD_JUMP_DESTINATION | EVMC_INVALID_MEMORY_ACCESS | EVMC_STATIC_MODE_VIOLATION
  | EVMC_CONTRACT_VALIDATION_FAILURE | EVMC_ARGUMENT_OUT_OF_RANGE
  | EVMC_WASM_UNREACHABLE_INSTRUCTION | EVMC_INTERNAL_ERROR | EVMC_OTHER bool

record evm_result =
  er_status :: evmc_status
  er_gas :: int
  er_output :: bytes
  er_create_address :: bytes

datatype msg_kind = EVMC_CALL | EVMC_DELEGATECALL | EVMC_CALLCODE | EVMC_CREATE | EVMC_CREATE2

record evm_message =
  ms_kind :: msg_kind
  ms_destination :: string
  ms_input :: bytes
  ms_gas :: int
  ms_salt :: u256

section \<open>The environment\<close>

text \<open>
  \<^item> \<open>he_precompiled\<close>: the precompiled contracts of the executive, by address;
  \<^item> \<open>he_builtin\<close>, \<open>he_evm\<close>: \<open>m_builtInPrecompiled\<close> and \<open>m_evmPrecompiled\<close> (price and code, whose
    result \<open>None\<close> is a failed assertion or a read outside the input);
  \<^item> \<open>he_external\<close>: what the scheduler answers to a call of another contract, with the storage
    as the other executives leave it;
  \<^item> \<open>he_status\<close>, \<open>he_as_evmc\<close>: the numbers of \<open>TransactionStatus\<close> and the cast of such a number
    to \<open>evmc_status_code\<close>; \<open>he_unhex\<close>: \<open>boost::algorithm::unhex\<close>, \<open>None\<close> when it throws;
  \<^item> \<open>he_address\<close>: the address of the running contract;
  \<^item> \<open>he_number\<close>, \<open>he_timestamp\<close>, \<open>he_block_hash\<close>: those of the block context.
\<close>

record 's host_env =
  he_ops :: "'s storage_ops"
  he_response :: "'s scheduler"
  he_precompiled :: "string \<Rightarrow> (bytes \<Rightarrow> string \<Rightarrow> string \<Rightarrow> 's sync_storage
                       \<Rightarrow> (exn + bytes \<times> int) \<times> 's sync_storage) option"
  he_builtin :: "string \<Rightarrow> bool"
  he_evm :: "string \<Rightarrow> ((bytes \<Rightarrow> int) \<times> (bytes \<Rightarrow> (bool \<times> bytes) option)) option"
  he_external :: "call_parameters \<Rightarrow> 's \<Rightarrow> call_parameters \<times> 's"
  he_status :: "tx_status \<Rightarrow> int"
  he_as_evmc :: "int \<Rightarrow> evmc_status"
  he_hash :: "bytes \<Rightarrow> bytes"
  he_unhex :: "string \<Rightarrow> bytes option"
  he_wasm :: bool
  he_address :: string
  he_number :: int
  he_timestamp :: int
  he_block_hash :: bytes

record host =
  hc_params :: call_parameters
  hc_table :: string
  hc_refunds :: u256
  hc_responses :: "call_parameters list"

definition new_host :: "call_parameters \<Rightarrow> string \<Rightarrow> host" where
  "new_host p table = \<lparr>hc_params = p, hc_table = table, hc_refunds = 0, hc_responses = []\<rparr>"

section \<open>Rows of the contract's table\<close>

definition ACCOUNT_CODE_HASH :: string where "ACCOUNT_CODE_HASH = ''codeHash''"
definition ACCOUNT_CODE :: string where "ACCOUNT_CODE = ''code''"
definition ACCOUNT_ABI :: string where "ACCOUNT_ABI = ''abi''"

lemmas account_keys = ACCOUNT_CODE_HASH_def ACCOUNT_CODE_def ACCOUNT_ABI_def

definition get_row ::
    "'s host_env \<Rightarrow> string \<Rightarrow> string \<Rightarrow> 's sync_storage \<Rightarrow> string option outcome \<times> 's sync_storage" where
  "get_row E t k s =
     (case sync_get_row (he_ops E) (he_response E) t k s of
        (None, s1) \<Rightarrow> (Thrown dead_lock, s1)
      | (Some v, s1) \<Rightarrow> (Done v, s1))"

definition set_row ::
    "'s host_env \<Rightarrow> string \<Rightarrow> string \<Rightarrow> string \<Rightarrow> 's sync_storage \<Rightarrow> unit outcome \<times> 's sync_storage" where
  "set_row E t k v s =
     (case sync_set_row (he_ops E) (he_response E) t k (Some v) s of
        (False, s1) \<Rightarrow> (Thrown dead_lock, s1)
      | (True, s1) \<Rightarrow> (Done (), s1))"

text \<open>Sequencing of effects that may fail.\<close>

definition andthen :: "'a outcome \<times> 's \<Rightarrow> ('a \<Rightarrow> 's \<Rightarrow> 'b outcome \<times> 's) \<Rightarrow> 'b outcome \<times> 's" where
  "andthen r f =
     (case r of
        (Done x, s) \<Rightarrow> f x s
      | (Thrown e, s) \<Rightarrow> (Thrown e, s)
      | (Terminated, s) \<Rightarrow> (Terminated, s)
      | (ExitProcess, s) \<Rightarrow> (ExitProcess, s)
      | (Undefined, s) \<Rightarrow> (Undefined, s))"

text \<open>A function declared \<open>noexcept\<close>.\<close>

definition no_except :: "'a outcome \<times> 's \<Rightarrow> 'a outcome \<times> 's" where
  "no_except r = (case r of (Thrown e, s) \<Rightarrow> (Terminated, s) | _ \<Rightarrow> r)"

text \<open>\<open>HostContext::get\<close> and \<open>set\<close>.\<close>

definition host_get ::
    "'s host_env \<Rightarrow> string \<Rightarrow> string \<Rightarrow> 's sync_storage \<Rightarrow> string outcome \<times> 's sync_storage" where
  "host_get E table k s =
     andthen (get_row E table k s)
       (\<lambda>v s1. (Done (case v of Some x \<Rightarrow> x | None \<Rightarrow> []), s1))"

definition host_set ::
    "'s host_env \<Rightarrow> string \<Rightarrow> string \<Rightarrow> string \<Rightarrow> 's sync_storage \<Rightarrow> unit outcome \<times> 's sync_storage" where
  "host_set E table k v s = set_row E table k v s"

text \<open>\<open>toEvmC(u256)\<close> and \<open>fromBigEndian<u256>\<close>.\<close>

primrec be_bytes :: "nat \<Rightarrow> u256 \<Rightarrow> bytes" where
  "be_bytes 0 n = []"
| "be_bytes (Suc k) n = be_bytes k (drop_bit 8 n) @ [ucast n]"

definition from_be :: "bytes \<Rightarrow> u256" where
  "from_be bs = foldl (\<lambda>a b. Bit_Operations.or (push_bit 8 a) (ucast b)) 0 bs"

definition slot_key :: "u256 \<Rightarrow> string" where
  "slot_key n = bytes_text (be_bytes 32 n)"

definition host_store ::
    "'s host_env \<Rightarrow> string \<Rightarrow> u256 \<Rightarrow> 's sync_storage \<Rightarrow> u256 outcome \<times> 's sync_storage" where
  "host_store E table n s =
     andthen (get_row E table (slot_key n) s)
       (\<lambda>v s1. (Done (case v of Some x \<Rightarrow> from_be (text_bytes x) | None \<Rightarrow> 0), s1))"

definition host_set_store ::
    "'s host_env \<Rightarrow> string \<Rightarrow> u256 \<Rightarrow> u256 \<Rightarrow> 's sync_storage \<Rightarrow> unit outcome \<times> 's sync_storage" where
  "host_set_store E table n v s = set_row E table (slot_key n) (bytes_text (be_bytes 32 v)) s"

text \<open>\<open>setCode\<close> says whether the table is there, \<open>code\<close> reads an absent row as empty.\<close>

definition set_code ::
    "'s host_env \<Rightarrow> string \<Rightarrow> bytes \<Rightarrow> 's sync_storage \<Rightarrow> bool outcome \<times> 's sync_storage" where
  "set_code E table code s =
     (if sync_open_table (he_ops E) table s
      then andthen (set_row E table ACCOUNT_CODE_HASH (bytes_text (he_hash E code)) s)
             (\<lambda>_ s1. andthen (set_row E table ACCOUNT_CODE (bytes_text code) s1)
               (\<lambda>_ s2. (Done True, s2)))
      else (Done False, s))"

definition set_code_and_abi ::
    "'s host_env \<Rightarrow> string \<Rightarrow> bytes \<Rightarrow> string \<Rightarrow> 's sync_storage \<Rightarrow> unit outcome \<times> 's sync_storage" where
  "set_code_and_abi E table code abi s =
     andthen (set_code E table code s)
       (\<lambda>ok s1. if ok then set_row E table ACCOUNT_ABI abi s1 else (Done (), s1))"

definition host_code ::
    "'s host_env \<Rightarrow> string \<Rightarrow> 's sync_storage \<Rightarrow> bytes outcome \<times> 's sync_storage" where
  "host_code E table s =
     andthen (get_row E table ACCOUNT_CODE s)
       (\<lambda>v s1. (Done (case v of Some x \<Rightarrow> text_bytes x | None \<Rightarrow> []), s1))"

definition host_log :: "'s host_env \<Rightarrow> bytes list \<Rightarrow> bytes \<Rightarrow> host \<Rightarrow> host" where
  "host_log E topics dat h =
     h\<lparr>hc_params := (hc_params h)\<lparr>cp_logEntries := cp_logEntries (hc_params h) @
         [\<lparr>le_address = he_address E, le_topics = topics, le_data = dat\<rparr>]\<rparr>\<rparr>"

section \<open>Calls of other contracts\<close>

text \<open>\<open>TransactionExecutive::execPrecompiled\<close>: anything thrown but a \<open>PrecompiledError\<close> becomes
  one without a message; an unknown address gives a null pointer.\<close>

definition exec_precompiled ::
    "'s host_env \<Rightarrow> string \<Rightarrow> bytes \<Rightarrow> string \<Rightarrow> string \<Rightarrow> 's sync_storage
     \<Rightarrow> (exn + (bytes \<times> int) option) \<times> 's sync_storage" where
  "exec_precompiled E address param origin sender s =
     (case he_precompiled E address of
        None \<Rightarrow> (Inr None, s)
      | Some p \<Rightarrow>
          (case p param origin sender s of
             (Inr r, s1) \<Rightarrow> (Inr (Some r), s1)
           | (Inl (PrecompiledError m), s1) \<Rightarrow> (Inl (PrecompiledError m), s1)
           | (Inl _, s1) \<Rightarrow> (Inl (PrecompiledError None), s1)))"

text \<open>The prefixes of \<open>isBuiltInPrecompiled\<close> and \<open>isEthereumPrecompiled\<close> are the text of a stream
  into which nothing but manipulators was written, so they are empty.\<close>

definition stream_prefix :: "nat \<Rightarrow> string" where
  "stream_prefix width = []"

definition is_builtin :: "'s host_env \<Rightarrow> string \<Rightarrow> bool" where
  "is_builtin E a \<longleftrightarrow> take (length (stream_prefix 36)) a = stream_prefix 36 \<and> he_builtin E a"

definition is_ethereum :: "'s host_env \<Rightarrow> string \<Rightarrow> bool" where
  "is_ethereum E a \<longleftrightarrow> take (length (stream_prefix 39)) a = stream_prefix 39 \<and> he_evm E a \<noteq> None"

definition zero_result :: evm_result where
  "zero_result = \<lparr>er_status = EVMC_SUCCESS, er_gas = 0, er_output = [],
     er_create_address = replicate 20 0\<rparr>"

text \<open>\<open>callBuiltInPrecompiled\<close> after the contract has run, with its gas and its status; a result
  without status \<open>None\<close> is not looked at further.\<close>

definition builtin_result ::
    "'s host_env \<Rightarrow> call_parameters \<Rightarrow> int \<Rightarrow> tx_status \<Rightarrow> bytes \<Rightarrow> host \<Rightarrow> evm_result \<times> host" where
  "builtin_result E request gas code out h =
     (let results = (new_call_parameters CP_FINISHED)\<lparr>cp_gas := gas\<rparr> in
      if code \<noteq> StNone
      then (zero_result\<lparr>er_status := EVMC_INTERNAL_ERROR\<rparr>,
            h\<lparr>hc_responses := hc_responses h @
                [results\<lparr>cp_type := CP_REVERT, cp_status := he_status E code\<rparr>]\<rparr>)
      else if cp_gas request - gas < 0
      then (zero_result\<lparr>er_status := EVMC_OUT_OF_GAS\<rparr>, h)
      else (zero_result\<lparr>er_gas := cp_gas request - gas, er_output := out\<rparr>,
            h\<lparr>hc_responses := hc_responses h @
                [results\<lparr>cp_status := he_status E StNone, cp_data := out\<rparr>]\<rparr>))"

definition call_builtin ::
    "'s host_env \<Rightarrow> call_parameters \<Rightarrow> bool \<Rightarrow> host \<Rightarrow> 's sync_storage
     \<Rightarrow> (evm_result \<times> host) outcome \<times> 's sync_storage" where
  "call_builtin E request evm h s =
     (if evm then
        (case he_evm E (receiveAddress request) of
           None \<Rightarrow> (Thrown (StdException ''map::at''), s)
         | Some (price, run) \<Rightarrow>
             (case run (cp_data request) of
                None \<Rightarrow> (Undefined, s)
              | Some (ok, out) \<Rightarrow>
                  (Done (builtin_result E request (price (cp_data request))
                     (if ok then StNone else StRevertInstruction) out h), s)))
      else
        (case exec_precompiled E (receiveAddress request) (cp_data request) (cp_origin request)
                (senderAddress request) s of
           (Inr None, s1) \<Rightarrow> (Undefined, s1)
         | (Inr (Some (out, gas)), s1) \<Rightarrow> (Done (builtin_result E request gas StNone out h), s1)
         | (Inl (PrecompiledError _), s1) \<Rightarrow>
             (Done (builtin_result E request 0 StPrecompiledError [] h), s1)
         | (Inl _, s1) \<Rightarrow> (Done (builtin_result E request 0 StUnknown [] h), s1)))"

text \<open>\<open>TransactionExecutive::externalCall\<close>: the coroutine switches to the scheduler and back.\<close>

definition external_call ::
    "'s host_env \<Rightarrow> call_parameters \<Rightarrow> 's sync_storage \<Rightarrow> call_parameters \<times> 's sync_storage" where
  "external_call E p s =
     (let (own, s1) = export_key_locks s;
          (out, st) = he_external E (p\<lparr>cp_keyLocks := own\<rparr>) (sy_store s1)
      in (out, import_exists_key_locks (cp_keyLocks out) (s1\<lparr>sy_store := st\<rparr>)))"

text \<open>The request built from the message; \<open>None\<close> is the exception for the unsupported opcodes.
  \<open>ms_destination\<close> is already the text of the address.\<close>

definition build_request :: "'s host_env \<Rightarrow> evm_message \<Rightarrow> host \<Rightarrow> call_parameters option" where
  "build_request E msg h =
     (let r = (new_call_parameters CP_MESSAGE)
           \<lparr>senderAddress := he_address E, cp_origin := cp_origin (hc_params h), cp_status := 0\<rparr>
      in case ms_kind msg of
        EVMC_CREATE2 \<Rightarrow> Some (r\<lparr>cp_createSalt := Some (ms_salt msg), cp_gas := ms_gas msg\<rparr>)
      | EVMC_CALL \<Rightarrow> Some (r\<lparr>receiveAddress := ms_destination msg, codeAddress := ms_destination msg,
                             cp_data := ms_input msg, cp_gas := ms_gas msg\<rparr>)
      | EVMC_DELEGATECALL \<Rightarrow> None
      | EVMC_CALLCODE \<Rightarrow> None
      | EVMC_CREATE \<Rightarrow> Some (r\<lparr>cp_data := ms_input msg, cp_create := True, cp_gas := ms_gas msg\<rparr>))"

definition external_request ::
    "'s host_env \<Rightarrow> evm_message \<Rightarrow> host \<Rightarrow> 's sync_storage
     \<Rightarrow> (evm_result \<times> host) outcome \<times> 's sync_storage" where
  "external_request E msg h s =
     (case build_request E msg h of
        None \<Rightarrow> (Thrown (BcosError (-1) ''Unsupported opcode EVM_DELEGATECALL or EVM_CALLCODE''), s)
      | Some r \<Rightarrow>
          (if is_builtin E (receiveAddress r) then call_builtin E r False h s
           else if is_ethereum E (receiveAddress r) \<and> \<not> he_wasm E then call_builtin E r True h s
           else
             (let (resp, s1) = external_call E (r\<lparr>cp_staticCall := cp_staticCall (hc_params h)\<rparr>) s in
              case he_unhex E (cp_newEVMContractAddress resp) of
                None \<Rightarrow> (Thrown (StdException ''non_hex_input''), s1)
              | Some a \<Rightarrow>
                  (Done (\<lparr>er_status = he_as_evmc E (cp_status resp), er_gas = cp_gas resp,
                          er_output = cp_data resp, er_create_address = a\<rparr>,
                         h\<lparr>hc_responses := hc_responses h @ [resp]\<rparr>), s1))))"

section \<open>The function tables\<close>

datatype storage_status = STORAGE_UNCHANGED | STORAGE_MODIFIED | STORAGE_ADDED | STORAGE_DELETED

definition sstoreRefundGas :: u256 where "sstoreRefundGas = 15000"

definition evm_set_storage ::
    "'s host_env \<Rightarrow> u256 \<Rightarrow> u256 \<Rightarrow> host \<Rightarrow> 's sync_storage
     \<Rightarrow> (storage_status \<times> host) outcome \<times> 's sync_storage" where
  "evm_set_storage E n v h s =
     andthen (host_store E (hc_table h) n s) (\<lambda>old s1.
       if v = old then (Done (STORAGE_UNCHANGED, h), s1)
       else
         (let (status, h1) =
            (if old = 0 then (STORAGE_ADDED, h)
             else if v = 0 then (STORAGE_DELETED, h\<lparr>hc_refunds := hc_refunds h + sstoreRefundGas\<rparr>)
             else (STORAGE_MODIFIED, h))
          in andthen (host_set_store E (hc_table h) n v s1) (\<lambda>_ s2. (Done (status, h1), s2))))"

definition evm_get_storage ::
    "'s host_env \<Rightarrow> u256 \<Rightarrow> host \<Rightarrow> 's sync_storage \<Rightarrow> u256 outcome \<times> 's sync_storage" where
  "evm_get_storage E n h s = host_store E (hc_table h) n s"

text \<open>\<open>copyCode\<close> and \<open>wasmCopyCode\<close>: the buffer of the machine becomes the code.\<close>

definition copy_code ::
    "'s host_env \<Rightarrow> bytes \<Rightarrow> host \<Rightarrow> 's sync_storage \<Rightarrow> nat outcome \<times> 's sync_storage" where
  "copy_code E buffer h s =
     andthen (set_code E (hc_table h) buffer s) (\<lambda>_ s1. (Done (length buffer), s1))"

definition evm_call ::
    "'s host_env \<Rightarrow> evm_message \<Rightarrow> host \<Rightarrow> 's sync_storage
     \<Rightarrow> (evm_result \<times> host) outcome \<times> 's sync_storage" where
  "evm_call E msg h s =
     no_except (if ms_gas msg < 0 then (Thrown (StatusException StGasOverflow), s)
                else external_request E msg h s)"

text \<open>The table for wasm.  \<open>get\<close> gives -1 when the value does not fit, else its size; the buffer
  has the value then.\<close>

definition wasm_get ::
    "'s host_env \<Rightarrow> string \<Rightarrow> nat \<Rightarrow> host \<Rightarrow> 's sync_storage
     \<Rightarrow> (int \<times> string) outcome \<times> 's sync_storage" where
  "wasm_get E k room h s =
     andthen (host_get E (hc_table h) k s)
       (\<lambda>v s1. (Done (if length v > room then (-1, []) else (int (length v), v)), s1))"

definition wasm_set ::
    "'s host_env \<Rightarrow> string \<Rightarrow> string \<Rightarrow> host \<Rightarrow> 's sync_storage
     \<Rightarrow> (storage_status \<times> host) outcome \<times> 's sync_storage" where
  "wasm_set E k v h s =
     andthen (host_get E (hc_table h) k s) (\<lambda>old s1.
       if v = old then (Done (STORAGE_UNCHANGED, h), s1)
       else
         (let (status, h1) =
            (if length old = 0 then (STORAGE_ADDED, h)
             else if length v = 0
             then (STORAGE_DELETED, h\<lparr>hc_refunds := hc_refunds h + sstoreRefundGas\<rparr>)
             else (STORAGE_MODIFIED, h))
          in andthen (host_set E (hc_table h) k v s1) (\<lambda>_ s2. (Done (status, h1), s2))))"

text \<open>
  The functions that only read.  \<open>fromEvmC\<close> of an address is its 20 bytes; \<open>toEvmC\<close> copies 20 bytes of
  a text, whatever its length: \<open>None\<close> is a read past its end.
\<close>

definition to_evmc_address :: "string \<Rightarrow> bytes option" where
  "to_evmc_address a = (if length a < 20 then None else Some (take 20 (text_bytes a)))"

definition block_gas_limit :: int where "block_gas_limit = 3000000000"

record tx_context =
  tc_origin :: bytes
  tc_number :: int
  tc_timestamp :: int
  tc_gas_limit :: int
  tc_gas_price :: bytes
  tc_coinbase :: bytes
  tc_difficulty :: bytes
  tc_chain_id :: bytes

definition get_tx_context :: "'s host_env \<Rightarrow> host \<Rightarrow> tx_context option" where
  "get_tx_context E h = map_option (\<lambda>origin.
     \<lparr>tc_origin = origin, tc_number = he_number E, tc_timestamp = he_timestamp E,
      tc_gas_limit = block_gas_limit, tc_gas_price = replicate 32 0, tc_coinbase = replicate 20 0,
      tc_difficulty = replicate 32 0, tc_chain_id = replicate 32 0\<rparr>)
     (to_evmc_address (cp_origin (hc_params h)))"

definition get_block_hash :: "'s host_env \<Rightarrow> int \<Rightarrow> bytes" where
  "get_block_hash E number = he_block_hash E"

definition host_exists :: "string \<Rightarrow> bool" where "host_exists a = True"
definition get_balance :: "bytes \<Rightarrow> bytes" where "get_balance a = replicate 32 0"
definition code_size_at :: "string \<Rightarrow> nat" where "code_size_at a = 1"
definition code_hash_at :: "string \<Rightarrow> bytes" where "code_hash_at a = replicate 32 0"

text \<open>The assets, which are not implemented: nothing is kept, and what is asked is empty.\<close>

definition register_asset :: "string \<Rightarrow> string \<Rightarrow> bool \<Rightarrow> u64 \<Rightarrow> string \<Rightarrow> bool" where
  "register_asset name issuer fungible supply description = True"
definition issue_fungible_asset :: "string \<Rightarrow> string \<Rightarrow> u64 \<Rightarrow> bool" where
  "issue_fungible_asset to name amount = True"
definition issue_not_fungible_asset :: "string \<Rightarrow> string \<Rightarrow> string \<Rightarrow> u64" where
  "issue_not_fungible_asset to name uri = 0"
definition transfer_asset :: "string \<Rightarrow> string \<Rightarrow> u64 \<Rightarrow> bool \<Rightarrow> bool" where
  "transfer_asset to name amount fromSelf = True"
definition asset_balance :: "string \<Rightarrow> string \<Rightarrow> u64" where
  "asset_balance account name = 0"
definition not_fungible_asset_info :: "string \<Rightarrow> string \<Rightarrow> u64 \<Rightarrow> string" where
  "not_fungible_asset_info owner name number = []"
definition not_fungible_asset_ids :: "string \<Rightarrow> string \<Rightarrow> u64 list" where
  "not_fungible_asset_ids account name = []"

text \<open>The wrappers that copy into the machine's buffer: -1 when it is too small.  The length of the
  buffer is an \<open>int32_t\<close> read as a \<open>size_t\<close>.\<close>

definition buffer_size :: "int \<Rightarrow> nat" where "buffer_size n = nat (n mod 2 ^ 64)"

definition get_not_fungible_asset_ids :: "string \<Rightarrow> string \<Rightarrow> int \<Rightarrow> int \<times> u64 list" where
  "get_not_fungible_asset_ids account name room =
     (let tokens = not_fungible_asset_ids account name in
      if length tokens > buffer_size room div 8 then (-1, []) else (int (8 * length tokens), tokens))"

definition get_not_fungible_asset_info :: "string \<Rightarrow> string \<Rightarrow> u64 \<Rightarrow> int \<Rightarrow> int \<times> string" where
  "get_not_fungible_asset_info owner name number room =
     (let info = not_fungible_asset_info owner name number in
      if length info > buffer_size room then (-1, []) else (int (length info), info))"

datatype host_query =
    QExists string | QBalance bytes | QCodeSize string | QCodeHash string | QSelfdestruct
  | QTxContext | QBlockHash int
  | QRegisterAsset string string bool u64 string | QIssueFungible string string u64
  | QIssueNotFungible string string string | QTransferAsset string string u64 bool
  | QAssetBalance string string | QAssetInfo string string u64 int | QAssetIds string string int

datatype host_answer =
    AnUnit | AnBool bool | AnSize nat | AnHash bytes | AnContext tx_context | AnU64 u64
  | AnText int string | AnIds int "u64 list"

fun answer_query :: "'s host_env \<Rightarrow> host \<Rightarrow> host_query \<Rightarrow> host_answer option" where
  "answer_query E h (QExists a) = Some (AnBool (host_exists a))"
| "answer_query E h (QBalance a) = Some (AnHash (get_balance a))"
| "answer_query E h (QCodeSize a) = Some (AnSize (code_size_at a))"
| "answer_query E h (QCodeHash a) = Some (AnHash (code_hash_at a))"
| "answer_query E h QSelfdestruct = Some AnUnit"
| "answer_query E h QTxContext = map_option AnContext (get_tx_context E h)"
| "answer_query E h (QBlockHash n) = Some (AnHash (get_block_hash E n))"
| "answer_query E h (QRegisterAsset n a f t d) = Some (AnBool (register_asset n a f t d))"
| "answer_query E h (QIssueFungible a n m) = Some (AnBool (issue_fungible_asset a n m))"
| "answer_query E h (QIssueNotFungible a n u) = Some (AnU64 (issue_not_fungible_asset a n u))"
| "answer_query E h (QTransferAsset a n m f) = Some (AnBool (transfer_asset a n m f))"
| "answer_query E h (QAssetBalance a n) = Some (AnU64 (asset_balance a n))"
| "answer_query E h (QAssetInfo a n i room) =
     Some (case get_not_fungible_asset_info a n i room of (l, t) \<Rightarrow> AnText l t)"
| "answer_query E h (QAssetIds a n room) =
     Some (case get_not_fungible_asset_ids a n room of (l, ts) \<Rightarrow> AnIds l ts)"

section \<open>Running a machine\<close>

datatype vm =
    VmReturn evm_result
  | VmGetStorage u256 "u256 \<Rightarrow> vm"
  | VmSetStorage u256 u256 "storage_status \<Rightarrow> vm"
  | VmCopyCode bytes "nat \<Rightarrow> vm"
  | VmLog "bytes list" bytes vm
  | VmQuery host_query "host_answer \<Rightarrow> vm"
  | VmCall evm_message "evm_result \<Rightarrow> vm"
  | VmGet string nat "int \<times> string \<Rightarrow> vm"
  | VmSet string string "storage_status \<Rightarrow> vm"

text \<open>The host context is part of the state, so that its logs are there when an exception ends the
  run.\<close>

definition with_host :: "host \<Rightarrow> ('a \<times> host) outcome \<times> 's \<Rightarrow> 'a outcome \<times> host \<times> 's" where
  "with_host h r =
     (case r of
        (Done (x, h1), s) \<Rightarrow> (Done x, h1, s)
      | (Thrown e, s) \<Rightarrow> (Thrown e, h, s)
      | (Terminated, s) \<Rightarrow> (Terminated, h, s)
      | (ExitProcess, s) \<Rightarrow> (ExitProcess, h, s)
      | (Undefined, s) \<Rightarrow> (Undefined, h, s))"

definition keep_host :: "host \<Rightarrow> 'a outcome \<times> 's \<Rightarrow> 'a outcome \<times> host \<times> 's" where
  "keep_host h r = (fst r, h, snd r)"

primrec run_vm ::
    "'s host_env \<Rightarrow> vm \<Rightarrow> host \<times> 's sync_storage \<Rightarrow> evm_result outcome \<times> host \<times> 's sync_storage" where
  "run_vm E (VmReturn r) = (\<lambda>(h, s). (Done r, h, s))"
| "run_vm E (VmGetStorage n k) = (\<lambda>(h, s).
     andthen (keep_host h (evm_get_storage E n h s)) (\<lambda>v. run_vm E (k v)))"
| "run_vm E (VmSetStorage n v k) = (\<lambda>(h, s).
     andthen (with_host h (evm_set_storage E n v h s)) (\<lambda>st. run_vm E (k st)))"
| "run_vm E (VmCopyCode b k) = (\<lambda>(h, s).
     andthen (keep_host h (copy_code E b h s)) (\<lambda>n. run_vm E (k n)))"
| "run_vm E (VmLog ts d k) = (\<lambda>(h, s). run_vm E k (host_log E ts d h, s))"
| "run_vm E (VmQuery q k) = (\<lambda>(h, s).
     (case answer_query E h q of None \<Rightarrow> (Undefined, h, s) | Some a \<Rightarrow> run_vm E (k a) (h, s)))"
| "run_vm E (VmCall m k) = (\<lambda>(h, s).
     andthen (with_host h (evm_call E m h s)) (\<lambda>r. run_vm E (k r)))"
| "run_vm E (VmGet key n k) = (\<lambda>(h, s).
     andthen (keep_host h (wasm_get E key n h s)) (\<lambda>r. run_vm E (k r)))"
| "run_vm E (VmSet key v k) = (\<lambda>(h, s).
     andthen (with_host h (wasm_set E key v h s)) (\<lambda>st. run_vm E (k st)))"

end
