(* ===== verification/Executive.thy ===== *)
theory Executive imports Host ContractAuth FileSystem begin

text \<open>
  \<open>TransactionExecutive\<close> (\<open>src/executive/TransactionExecutive.h\<close> and \<open>.cpp\<close>): the life of one call
  from \<open>start\<close> to its answer.  \<open>execute\<close> prepares a creation or a call (permission check, table of
  the contract, directory entry), \<open>go\<close> runs the virtual machine and maps its result, and
  \<open>go_catch\<close> is the list of exception handlers.  \<open>revert\<close> asks the storage to undo the changes
  of this executive's recorder.

  External code is a parameter of the environment: the virtual machines (\<open>xe_machine\<close>), the
  storage's rollback, the SCALE decoder of a wasm creation, the gas injector and the encoder of
  error texts.  Key locks are requested for the rows read and written here; the permission
  checks and the directory builder read the storage below the wrapper, that is, their lock
  requests are taken as granted.
\<close>

section \<open>Environment\<close>

record vm_message =
  vm_create :: bool
  vm_static :: bool
  vm_gas :: int
  vm_destination :: string
  vm_sender :: string
  vm_input :: bytes

record 's exec_env =
  xe_host :: "'s host_env"
  xe_auth :: "'s auth_env"
  xe_last :: "'s option"
  xe_text :: text_ops
  xe_dirs :: dir_codec
  xe_rollback :: "'s \<Rightarrow> 's"
  xe_create_error :: "string \<Rightarrow> 's \<Rightarrow> string option"
  xe_auth_check :: bool
  xe_error_output :: "string \<Rightarrow> bytes"
  xe_what :: "exn \<Rightarrow> string"
  xe_decode :: "bytes \<Rightarrow> (bytes \<times> bytes \<times> string) option"
  xe_inject :: "bytes \<Rightarrow> bytes option"
  xe_machine :: "bool \<Rightarrow> bytes \<Rightarrow> vm_message \<Rightarrow> vm"
  xe_success :: int

abbreviation xe_wasm :: "'s exec_env \<Rightarrow> bool" where
  "xe_wasm E \<equiv> he_wasm (xe_host E)"

abbreviation xe_status :: "'s exec_env \<Rightarrow> tx_status \<Rightarrow> int" where
  "xe_status E \<equiv> he_status (xe_host E)"

definition CONTRACT_SUFFIX :: string where "CONTRACT_SUFFIX = ''_accessAuth''"
definition STORAGE_VALUE :: string where "STORAGE_VALUE = ''value''"
definition maxCodeSize :: nat where "maxCodeSize = 0x40000"
definition createDataGas :: nat where "createDataGas = 20"
definition exceptionalFailedCodeDeposit :: bool where "exceptionalFailedCodeDeposit = True"

section \<open>Helpers\<close>

text \<open>\<open>getContractTableName\<close>; \<open>setw(36) << 1\<close> is 35 zeros and a one.\<close>

definition contract_table :: "'s exec_env \<Rightarrow> string \<Rightarrow> string" where
  "contract_table E a =
     (let lower = map lower_char a;
          address = (if take 1 a = ''/'' then drop 1 lower else lower)
      in if xe_auth_check E \<and> take 36 a = replicate 35 (CHR ''0'') @ ''1''
         then ''/sys/'' @ address else ''/apps/'' @ address)"

definition has_wasm_preamble :: "bytes \<Rightarrow> bool" where
  "has_wasm_preamble code \<longleftrightarrow> length code \<ge> 8 \<and> code ! 0 = 0 \<and> code ! 1 = 97 \<and> code ! 2 = 115
     \<and> code ! 3 = 109"

fun to_transaction_status :: "exn \<Rightarrow> tx_status" where
  "to_transaction_status (OutOfGas _) = StOutOfGas"
| "to_transaction_status (PrecompiledError _) = StPrecompiledError"
| "to_transaction_status PermissionDenied = StPermissionDenied"
| "to_transaction_status (StatusException s) = s"
| "to_transaction_status _ = StUnknown"

definition revert :: "'s exec_env \<Rightarrow> 's sync_storage \<Rightarrow> 's sync_storage" where
  "revert E s = s\<lparr>sy_store := xe_rollback E (sy_store s)\<rparr>"

definition reverted :: "'s exec_env \<Rightarrow> tx_status \<Rightarrow> call_parameters \<Rightarrow> call_parameters" where
  "reverted E st p = p\<lparr>cp_type := CP_REVERT, cp_status := xe_status E st\<rparr>"

definition of_eval :: "'a eval \<Rightarrow> 'a outcome" where
  "of_eval r = (case r of Val x \<Rightarrow> Done x | Throw m \<Rightarrow> Thrown (StdException m) | Undef \<Rightarrow> Undefined)"

definition check_auth ::
    "'s exec_env \<Rightarrow> call_parameters \<Rightarrow> bool \<Rightarrow> 's sync_storage \<Rightarrow> bool outcome \<times> 's sync_storage" where
  "check_auth E p create s =
     (if cp_staticCall p then (Done True, s)
      else
        (let a = \<lparr>as_last = xe_last E, as_now = sy_store s, as_gas = create_precompiled_gas\<rparr>;
             account = ae_unhex (xe_auth E) (cp_origin p);
             (r, a1) = (if create then check_deploy_auth (xe_auth E) account a
                        else check_method_auth (xe_auth E) (codeAddress p) (take 4 (cp_data p)) account a)
         in (of_eval r, s\<lparr>sy_store := as_now a1\<rparr>)))"

definition create_table ::
    "'s exec_env \<Rightarrow> string \<Rightarrow> 's sync_storage \<Rightarrow> bool outcome \<times> 's sync_storage" where
  "create_table E t s =
     (case xe_create_error E t (sy_store s) of
        Some m \<Rightarrow> (Thrown (StdException m), s)
      | None \<Rightarrow> (let (ok, s1) = sync_create_table (he_ops (xe_host E)) t STORAGE_VALUE s in (Done ok, s1)))"

text \<open>\<open>creatAuthTable\<close>.\<close>

definition write_auth_rows ::
    "'s exec_env \<Rightarrow> string \<Rightarrow> string \<Rightarrow> 's sync_storage \<Rightarrow> unit outcome \<times> 's sync_storage" where
  "write_auth_rows E t admin s =
     andthen (set_row (xe_host E) t ADMIN_FIELD admin s) (\<lambda>_ s1.
     andthen (set_row (xe_host E) t METHOD_AUTH_TYPE [] s1) (\<lambda>_ s2.
     andthen (set_row (xe_host E) t METHOD_AUTH_WHITE [] s2) (\<lambda>_ s3.
     set_row (xe_host E) t METHOD_AUTH_BLACK [] s3)))"

definition creat_auth_table ::
    "'s exec_env \<Rightarrow> string \<Rightarrow> string \<Rightarrow> string \<Rightarrow> 's sync_storage \<Rightarrow> unit outcome \<times> 's sync_storage" where
  "creat_auth_table E table origin sender s =
     (if take 5 table = ''/sys/'' \<or> take 5 (contract_table E sender) = ''/sys/'' then (Done (), s)
      else
        andthen (if sender \<noteq> origin
                 then andthen (get_row (xe_host E) (contract_table E sender @ CONTRACT_SUFFIX) ADMIN_FIELD s)
                        (\<lambda>v s1. case v of None \<Rightarrow> (Undefined, s1) | Some x \<Rightarrow> (Done x, s1))
                 else (Done sender, s)) (\<lambda>admin s1.
        andthen (create_table E (table @ CONTRACT_SUFFIX) s1) (\<lambda>ok s2.
        if ok then write_auth_rows E (table @ CONTRACT_SUFFIX) admin s2 else (Done (), s2))))"

section \<open>Precompiled contracts\<close>

definition is_precompiled :: "'s exec_env \<Rightarrow> string \<Rightarrow> bool" where
  "is_precompiled E a \<longleftrightarrow> he_precompiled (xe_host E) a \<noteq> None"

definition call_precompiled ::
    "'s exec_env \<Rightarrow> call_parameters \<Rightarrow> 's sync_storage \<Rightarrow> call_parameters outcome \<times> 's sync_storage" where
  "call_precompiled E p s =
     (let p = p\<lparr>cp_type := CP_FINISHED\<rparr> in
      case exec_precompiled (xe_host E) (codeAddress p) (cp_data p) (cp_origin p) (senderAddress p) s of
        (Inr None, s1) \<Rightarrow> (Undefined, s1)
      | (Inr (Some (out, gas)), s1) \<Rightarrow>
          (if cp_gas p < gas then (Done (reverted E StOutOfGas p), s1)
           else (Done (p\<lparr>cp_gas := cp_gas p - gas, cp_status := xe_status E StNone, cp_data := out\<rparr>), s1))
      | (Inl (PrecompiledError m), s1) \<Rightarrow>
          (Done (reverted E StPrecompiledError (p\<lparr>cp_data := xe_error_output E (case m of Some t \<Rightarrow> t
             | None \<Rightarrow> ''error occurs in precompiled, but error_info is empty'')\<rparr>)), revert E s1)
      | (Inl (StdException m), s1) \<Rightarrow>
          (Done (reverted E StUnknown (p\<lparr>cp_data := xe_error_output E m\<rparr>)), revert E s1)
      | (Inl e, s1) \<Rightarrow>
          (Done (reverted E (to_transaction_status e) (p\<lparr>cp_data := xe_error_output E (xe_what E e)\<rparr>)),
           revert E s1))"

section \<open>Preparing a call or a creation\<close>

text \<open>Either the answer is there, or a machine is to be run, with the parameters and the ABI of a
  wasm contract.\<close>

datatype prepared = Answer call_parameters | Enter host "(bytes \<times> string) option"

definition prepare_call ::
    "'s exec_env \<Rightarrow> call_parameters \<Rightarrow> 's sync_storage \<Rightarrow> prepared outcome \<times> 's sync_storage" where
  "prepare_call E p s =
     (if is_precompiled E (codeAddress p)
      then andthen (call_precompiled E p s) (\<lambda>r s1. (Done (Answer r), s1))
      else
        andthen (if xe_auth_check E \<and> \<not> xe_wasm E then check_auth E p False s else (Done True, s))
          (\<lambda>ok s1.
             if ok then (Done (Enter (new_host p (contract_table E (codeAddress p))) None), s1)
             else (Done (Answer ((reverted E StPermissionDenied p)
                     \<lparr>cp_message := ''Call permission denied''\<rparr>)), revert E s1)))"

text \<open>The wasm part of \<open>create\<close>: the code after injection of the meter, parameters and ABI;
  \<open>None\<close> when the code is refused.\<close>

definition wasm_code :: "'s exec_env \<Rightarrow> bytes \<Rightarrow> (bytes \<times> bytes \<times> string) option outcome" where
  "wasm_code E input =
     (case xe_decode E input of
        None \<Rightarrow> Thrown (StdException ''decode'')
      | Some (code, params, abi) \<Rightarrow>
          (if \<not> has_wasm_preamble code then Done None
           else case xe_inject E code of
             None \<Rightarrow> Done None
           | Some code' \<Rightarrow> Done (Some (code', params, abi))))"

text \<open>The body of the \<open>try\<close> block: the table of the contract and its access table.\<close>

definition make_tables ::
    "'s exec_env \<Rightarrow> call_parameters \<Rightarrow> 's sync_storage \<Rightarrow> unit outcome \<times> 's sync_storage" where
  "make_tables E p s =
     andthen (create_table E (contract_table E (codeAddress p)) s) (\<lambda>_ s1.
     if xe_auth_check E
     then creat_auth_table E (contract_table E (codeAddress p)) (cp_origin p) (senderAddress p) s1
     else (Done (), s1))"

text \<open>\<open>create\<close> after the wasm part.\<close>

definition prepare_tables ::
    "'s exec_env \<Rightarrow> (bytes \<times> string) option \<Rightarrow> call_parameters \<Rightarrow> 's sync_storage
     \<Rightarrow> prepared outcome \<times> 's sync_storage" where
  "prepare_tables E extra p s =
     (let table = contract_table E (codeAddress p) in
      case make_tables E p s of
        (Thrown e, s1) \<Rightarrow>
          (Done (Answer ((reverted E StContractAddressAlreadyUsed p)\<lparr>cp_message := xe_what E e\<rparr>)),
           revert E s1)
      | (Done _, s1) \<Rightarrow>
          (if xe_wasm E then
             (case build_bfs_path (xe_text E) (he_ops (xe_host E)) (xe_dirs E) table (sy_store s1) of
                (b, st) \<Rightarrow>
                  andthen (of_eval b, s1\<lparr>sy_store := st\<rparr>) (\<lambda>ok s2.
                  if ok then (Done (Enter (new_host p table) extra), s2)
                  else (Done (Answer ((reverted E StRevertInstruction p)
                          \<lparr>cp_message := ''Error occurs in build BFS dir''\<rparr>)), revert E s2)))
           else (Done (Enter (new_host p table) None), s1))
      | (Terminated, s1) \<Rightarrow> (Terminated, s1)
      | (ExitProcess, s1) \<Rightarrow> (ExitProcess, s1)
      | (Undefined, s1) \<Rightarrow> (Undefined, s1))"

definition prepare_checked ::
    "'s exec_env \<Rightarrow> (bytes \<times> string) option \<Rightarrow> call_parameters \<Rightarrow> 's sync_storage
     \<Rightarrow> prepared outcome \<times> 's sync_storage" where
  "prepare_checked E extra p s =
     andthen (if xe_auth_check E then check_auth E p True s else (Done True, s)) (\<lambda>ok s1.
     if ok then prepare_tables E extra p s1
     else (Done (Answer ((reverted E StPermissionDenied p)
             \<lparr>cp_message := ''Create permission denied''\<rparr>)), revert E s1))"

definition prepare_create ::
    "'s exec_env \<Rightarrow> call_parameters \<Rightarrow> 's sync_storage \<Rightarrow> prepared outcome \<times> 's sync_storage" where
  "prepare_create E p s =
     (if xe_wasm E then
        andthen (wasm_code E (cp_data p), s) (\<lambda>r s1.
        case r of
          None \<Rightarrow> (Done (Answer ((reverted E StWASMValidationFailure p)
                    \<lparr>cp_message := ''wasm bytecode invalid or use unsupported opcode''\<rparr>)), revert E s1)
        | Some (code, params, abi) \<Rightarrow> prepare_checked E (Some (params, abi)) (p\<lparr>cp_data := code\<rparr>) s1)
      else prepare_checked E None p s)"

section \<open>The result of a machine\<close>

definition parse_evmc_result ::
    "'s exec_env \<Rightarrow> call_parameters \<Rightarrow> evm_result \<Rightarrow> 's sync_storage
     \<Rightarrow> call_parameters outcome \<times> 's sync_storage" where
  "parse_evmc_result E p r s =
     (let p = p\<lparr>cp_type := CP_REVERT\<rparr>;
          fail = (\<lambda>st. (Done (reverted E st p), revert E s));
          fail_gas = (\<lambda>st. (Done (reverted E st (p\<lparr>cp_gas := er_gas r\<rparr>)), revert E s))
      in case er_status r of
        EVMC_SUCCESS \<Rightarrow>
          (let p1 = p\<lparr>cp_type := CP_FINISHED, cp_status := xe_success E, cp_gas := er_gas r\<rparr>
           in (Done (if cp_create p1 then p1 else p1\<lparr>cp_data := er_output r\<rparr>), s))
      | EVMC_REVERT \<Rightarrow>
          (Done (reverted E StRevertInstruction (p\<lparr>cp_gas := er_gas r, cp_data := er_output r\<rparr>)), revert E s)
      | EVMC_OUT_OF_GAS \<Rightarrow> fail_gas StOutOfGas
      | EVMC_FAILURE \<Rightarrow> fail_gas StWASMTrap
      | EVMC_INVALID_INSTRUCTION \<Rightarrow> fail StBadInstruction
      | EVMC_UNDEFINED_INSTRUCTION \<Rightarrow> fail StBadInstruction
      | EVMC_BAD_JUMP_DESTINATION \<Rightarrow> fail StBadJumpDestination
      | EVMC_STACK_OVERFLOW \<Rightarrow> fail StOutOfStack
      | EVMC_STACK_UNDERFLOW \<Rightarrow> fail StStackUnderflow
      | EVMC_INVALID_MEMORY_ACCESS \<Rightarrow> fail StStackUnderflow
      | EVMC_STATIC_MODE_VIOLATION \<Rightarrow> fail StUnknown
      | EVMC_CONTRACT_VALIDATION_FAILURE \<Rightarrow> fail StWASMValidationFailure
      | EVMC_ARGUMENT_OUT_OF_RANGE \<Rightarrow> fail StWASMArgumentOutOfRange
      | EVMC_WASM_UNREACHABLE_INSTRUCTION \<Rightarrow> fail StWASMUnreachableInstruction
      | EVMC_INTERNAL_ERROR \<Rightarrow> (Thrown InternalVMError, revert E s)
      | EVMC_OTHER internal \<Rightarrow>
          (if internal then (Thrown InternalVMError, revert E s) else (Thrown (OutOfGas False), revert E s)))"

text \<open>The handlers of \<open>go\<close>.  \<open>taken\<close> is what \<open>takeCallParameters\<close> gives: nothing when the
  parameters were taken before the exception, and the handler dereferences the null pointer.
  The handler of \<open>OutOfGas\<close> also dereferences the status code of the exception.\<close>

definition go_catch ::
    "'s exec_env \<Rightarrow> exn \<Rightarrow> call_parameters option \<Rightarrow> 's sync_storage
     \<Rightarrow> call_parameters outcome \<times> 's sync_storage" where
  "go_catch E e taken s =
     (case e of
        PermissionDenied \<Rightarrow>
          (case taken of None \<Rightarrow> (Undefined, s)
           | Some p \<Rightarrow> (Done (reverted E StPermissionDenied p), revert E s))
      | PrecompiledError _ \<Rightarrow>
          (case taken of None \<Rightarrow> (Undefined, s)
           | Some p \<Rightarrow> (Done (reverted E StPrecompiledError p), revert E s))
      | OutOfGas has_code \<Rightarrow>
          (case taken of None \<Rightarrow> (Undefined, s)
           | Some p \<Rightarrow> (if has_code then Done (reverted E StOutOfGas p) else Undefined, revert E s))
      | BcosError code m \<Rightarrow>
          (case taken of None \<Rightarrow> (Undefined, s)
           | Some p \<Rightarrow> (Done ((reverted E StRevertInstruction p)\<lparr>cp_message := m\<rparr>), revert E s))
      | InternalVMError \<Rightarrow> (case taken of None \<Rightarrow> (Undefined, s) | Some p \<Rightarrow> (ExitProcess, s))
      | StatusException _ \<Rightarrow> (ExitProcess, s)
      | StdException _ \<Rightarrow> (ExitProcess, s))"

definition handle ::
    "'s exec_env \<Rightarrow> call_parameters option \<Rightarrow> call_parameters outcome \<times> 's sync_storage
     \<Rightarrow> call_parameters outcome \<times> 's sync_storage" where
  "handle E taken r = (case r of (Thrown e, s) \<Rightarrow> go_catch E e taken s | _ \<Rightarrow> r)"

section \<open>Running a machine\<close>

text \<open>\<open>getEVMCMessage\<close>.  In the wasm branch the destination has the pointer of \<open>myAddress\<close> and the
  size of \<open>codeAddress\<close>.\<close>

definition evmc_message_of ::
    "'s exec_env \<Rightarrow> call_parameters \<Rightarrow> (bytes \<times> string) option \<Rightarrow> vm_message outcome" where
  "evmc_message_of E p extra =
     (let m = \<lparr>vm_create = cp_create p, vm_static = cp_staticCall p, vm_gas = cp_gas p,
               vm_destination = he_address (xe_host E), vm_sender = senderAddress p,
               vm_input = cp_data p\<rparr>
      in if xe_wasm E then
           (let input = (if cp_create p then (case extra of Some (params, _) \<Rightarrow> Some params | None \<Rightarrow> None)
                         else Some (cp_data p))
            in if length (codeAddress p) \<le> length (he_address (xe_host E)) \<and> input \<noteq> None
               then Done (m\<lparr>vm_destination := take (length (codeAddress p)) (he_address (xe_host E)),
                            vm_input := the input\<rparr>)
               else Undefined)
         else if he_unhex (xe_host E) (he_address (xe_host E)) = None
                 \<or> he_unhex (xe_host E) (senderAddress p) = None
         then Thrown (StdException ''non_hex_input'') else Done m)"

text \<open>Building the message and running the machine, up to \<open>takeCallParameters\<close>.\<close>

definition run_machine ::
    "'s exec_env \<Rightarrow> bool \<Rightarrow> bytes \<Rightarrow> (bytes \<times> string) option \<Rightarrow> host \<times> 's sync_storage
     \<Rightarrow> evm_result outcome \<times> host \<times> 's sync_storage" where
  "run_machine E hera code extra hs =
     andthen (evmc_message_of E (hc_params (fst hs)) extra, hs)
       (\<lambda>m. run_vm (xe_host E) (xe_machine E hera code m))"

definition clear_logs :: "call_parameters \<Rightarrow> call_parameters" where
  "clear_logs p = (if cp_origin p \<noteq> senderAddress p then p\<lparr>cp_logEntries := []\<rparr> else p)"

text \<open>The end of a creation: size and gas of the code, then storing it.\<close>

definition deposit_code ::
    "'s exec_env \<Rightarrow> string \<Rightarrow> (bytes \<times> string) option \<Rightarrow> bytes \<Rightarrow> call_parameters \<Rightarrow> 's sync_storage
     \<Rightarrow> call_parameters outcome \<times> 's sync_storage" where
  "deposit_code E table extra out p s =
     (if cp_status p \<noteq> xe_status E StNone
      then (Done (p\<lparr>cp_type := CP_REVERT, cp_create := False\<rparr>), s)
      else if length out > maxCodeSize
      then (Done ((reverted E StOutOfGas p)\<lparr>cp_message := ''Code is too large: '' @
              dec_of_nat (length out) @ '' limit: '' @ dec_of_nat maxCodeSize\<rparr>), s)
      else if int (length out * createDataGas) > cp_gas p \<and> exceptionalFailedCodeDeposit
      then (Done ((reverted E StOutOfGas p)\<lparr>cp_message := ''exceptionalFailedCodeDeposit''\<rparr>), s)
      else if \<not> xe_wasm E \<and> out = []
      then (Done ((reverted E StUnknown p)
              \<lparr>cp_message := ''Create contract with empty code, wrong code input.'',
               cp_create := False, cp_data := []\<rparr>), revert E s)
      else
        andthen
          (if xe_wasm E
           then (case extra of None \<Rightarrow> (Undefined, s)
                 | Some (_, abi) \<Rightarrow> set_code_and_abi (xe_host E) table out abi s)
           else andthen (set_code (xe_host E) table out s) (\<lambda>_ s1. (Done (), s1)))
          (\<lambda>_ s1. (Done (p\<lparr>cp_gas := cp_gas p - int (length out * createDataGas),
                          cp_newEVMContractAddress := codeAddress p, cp_create := False,
                          cp_data := []\<rparr>), s1)))"

definition go_create ::
    "'s exec_env \<Rightarrow> host \<Rightarrow> (bytes \<times> string) option \<Rightarrow> 's sync_storage
     \<Rightarrow> call_parameters outcome \<times> 's sync_storage" where
  "go_create E h extra s =
     (case run_machine E (xe_wasm E) (cp_data (hc_params h)) extra (h, s) of
        (Done r, h1, s1) \<Rightarrow>
          handle E None
            (andthen (parse_evmc_result E (clear_logs (hc_params h1)) r s1)
               (deposit_code E (hc_table h1) extra (er_output r)))
      | (Thrown e, h1, s1) \<Rightarrow> go_catch E e (Some (hc_params h1)) s1
      | (Terminated, h1, s1) \<Rightarrow> (Terminated, s1)
      | (ExitProcess, h1, s1) \<Rightarrow> (ExitProcess, s1)
      | (Undefined, h1, s1) \<Rightarrow> (Undefined, s1))"

definition go_call ::
    "'s exec_env \<Rightarrow> host \<Rightarrow> 's sync_storage \<Rightarrow> call_parameters outcome \<times> 's sync_storage" where
  "go_call E h s =
     handle E (Some (hc_params h))
       (andthen (host_code (xe_host E) (hc_table h) s) (\<lambda>code s0.
        if code = []
        then (Done ((reverted E StCallAddressError (hc_params h))
                \<lparr>cp_message := ''Error contract address.''\<rparr>), s0)
        else
          (case run_machine E (has_wasm_preamble code) code None (h, s0) of
             (Done r, h1, s1) \<Rightarrow>
               handle E None (andthen (parse_evmc_result E (hc_params h1) r s1)
                 (\<lambda>p s2. (Done (clear_logs p), s2)))
           | (Thrown e, h1, s1) \<Rightarrow> go_catch E e (Some (hc_params h1)) s1
           | (Terminated, h1, s1) \<Rightarrow> (Terminated, s1)
           | (ExitProcess, h1, s1) \<Rightarrow> (ExitProcess, s1)
           | (Undefined, h1, s1) \<Rightarrow> (Undefined, s1))))"

section \<open>The whole call\<close>

definition execute ::
    "'s exec_env \<Rightarrow> call_parameters \<Rightarrow> 's sync_storage \<Rightarrow> call_parameters outcome \<times> 's sync_storage" where
  "execute E p s =
     andthen (if cp_create p then prepare_create E p s else prepare_call E p s) (\<lambda>r s1.
     case r of
       Answer q \<Rightarrow> (Done q, s1)
     | Enter h extra \<Rightarrow> if cp_create (hc_params h) then go_create E h extra s1 else go_call E h s1)"

text \<open>\<open>start\<close>: the body of the coroutine.\<close>

definition exec_start ::
    "'s exec_env \<Rightarrow> call_parameters \<Rightarrow> 's \<Rightarrow> call_parameters outcome \<times> 's sync_storage" where
  "exec_start E p st =
     (let s = \<lparr>sy_store = st, sy_exists = [], sy_my = []\<rparr>;
          s0 = (if cp_keyLocks p \<noteq> [] then import_exists_key_locks (cp_keyLocks p) s else s)
      in andthen (execute E p s0) (\<lambda>r s1. (Done (r\<lparr>cp_keyLocks := []\<rparr>), s1)))"

end
