(* ===== verification/HostSpec.thy ===== *)
theory HostSpec imports Host begin

text \<open>
  Correctness of the host functions: storage slots behave like an array of 256-bit words, a call
  with an opcode the host does not support ends the process, and the rows that hold the code of a
  contract are not protected from the contract.  The locale \<open>host_rows\<close> is a contract's table on any
  storage that keeps \<open>table_storage\<close>, without locks of other transactions.
\<close>

section \<open>Words as bytes\<close>

lemma foldl_be_bytes:
  "foldl (\<lambda>a b. Bit_Operations.or (push_bit 8 a) (ucast b)) 0 (be_bytes k n) = take_bit (8 * k) n"
proof (induction k arbitrary: n)
  case 0
  then show ?case by simp
next
  case (Suc k)
  have "Bit_Operations.or (push_bit 8 (take_bit (8 * k) (drop_bit 8 n))) (ucast (ucast n :: u8)) =
      take_bit (8 * Suc k) n"
    by (rule bit_word_eqI) (auto simp: bit_simps not_le less_diff_conv2 add.commute)
  then show ?case using Suc by simp
qed

lemma from_be_bytes [simp]: "from_be (be_bytes 32 n) = n"
  unfolding from_be_def foldl_be_bytes by (simp add: take_bit_word_eq_self)

lemma slot_key_inj [simp]: "slot_key m = slot_key n \<longleftrightarrow> m = n"
  by (metis from_be_bytes slot_key_def text_bytes_text)

lemma length_be_bytes [simp]: "length (be_bytes k n) = k"
  by (induction k arbitrary: n) auto

lemma length_slot_key [simp]: "length (slot_key n) = 32"
  by (simp add: slot_key_def bytes_text_def)

lemma slot_key_not_account [simp]:
  "slot_key n \<noteq> ACCOUNT_CODE" "slot_key n \<noteq> ACCOUNT_CODE_HASH" "slot_key n \<noteq> ACCOUNT_ABI"
proof -
  have "length (slot_key n) = 32" by simp
  then show "slot_key n \<noteq> ACCOUNT_CODE" "slot_key n \<noteq> ACCOUNT_CODE_HASH" "slot_key n \<noteq> ACCOUNT_ABI"
    by (auto simp: account_keys simp del: length_slot_key)
qed

section \<open>The table of a contract\<close>

lemma with_host_simps [simp]:
  "with_host h (Done (x, h1), s) = (Done x, h1, s)" "with_host h (Thrown e, s) = (Thrown e, h, s)"
  "keep_host h (r, s) = (r, h, s)"
  by (simp_all add: with_host_def keep_host_def)

lemma andthen_simps [simp]:
  "andthen (Done x, s) f = f x s" "andthen (Thrown e, s) f = (Thrown e, s)"
  "andthen (Terminated, s) f = (Terminated, s)" "andthen (ExitProcess, s) f = (ExitProcess, s)"
  "andthen (Undefined, s) f = (Undefined, s)"
  by (simp_all add: andthen_def)

locale host_rows = table_storage "he_ops E" inv for E :: "'s host_env" and inv
begin

definition free :: "string \<Rightarrow> 's sync_storage \<Rightarrow> bool" where
  "free t s \<longleftrightarrow> inv (sy_store s) \<and> sy_exists s = [] \<and> st_open (he_ops E) (sy_store s) t
     \<and> t \<noteq> st_sys (he_ops E)"

definition cell :: "'s sync_storage \<Rightarrow> string \<Rightarrow> string \<Rightarrow> string option" where
  "cell s t k = row (he_ops E) (sy_store s) t k"

lemma get_row_free:
  assumes "free t s"
  obtains s' where "get_row E t k s = (Done (cell s t k), s')" "free t s'"
    "\<And>t k. cell s' t k = cell s t k"
  using assms
  by (auto simp: get_row_def sync_get_row_free free_def cell_def row_def get_inv get_open
      get_row [unfolded row_def])

lemma set_row_free:
  assumes "free t s"
  obtains s' where "set_row E t k v s = (Done (), s')" "free t s'"
    "\<And>t' k'. cell s' t' k' = (if t' = t \<and> k' = k then Some v else cell s t' k')"
  using assms
  by (auto simp: set_row_def sync_set_row_free free_def cell_def set_inv set_open set_row)

definition slot :: "'s sync_storage \<Rightarrow> string \<Rightarrow> u256 \<Rightarrow> u256" where
  "slot s t n = (case cell s t (slot_key n) of Some x \<Rightarrow> from_be (text_bytes x) | None \<Rightarrow> 0)"

lemma host_store_free:
  assumes "free t s"
  obtains s' where "host_store E t n s = (Done (slot s t n), s')" "free t s'"
    "\<And>t k. cell s' t k = cell s t k"
proof (rule get_row_free [OF assms, of "slot_key n"])
  fix s1
  assume "get_row E t (slot_key n) s = (Done (cell s t (slot_key n)), s1)" "free t s1"
    "\<And>t k. cell s1 t k = cell s t k"
  then show thesis using that [of s1] by (simp add: host_store_def slot_def)
qed

lemma set_storage_free:
  assumes "free (hc_table h) s" and "hc_table h = t"
  obtains status h' s' where "evm_set_storage E n v h s = (Done (status, h'), s')" "free t s'"
    "hc_table h' = t"
    "\<And>t' k'. cell s' t' k' =
       (if t' = t \<and> k' = slot_key n \<and> v \<noteq> slot s t n then Some (bytes_text (be_bytes 32 v))
        else cell s t' k')"
    "status = (if v = slot s t n then STORAGE_UNCHANGED else if slot s t n = 0 then STORAGE_ADDED
               else if v = 0 then STORAGE_DELETED else STORAGE_MODIFIED)"
    "hc_refunds h' = hc_refunds h + (if status = STORAGE_DELETED then 15000 else 0)"
proof -
  obtain s1 where s1: "host_store E t n s = (Done (slot s t n), s1)" "free t s1"
      "\<And>t k. cell s1 t k = cell s t k"
    using host_store_free [of t s n] assms by metis
  obtain s2 where s2: "set_row E t (slot_key n) (bytes_text (be_bytes 32 v)) s1 = (Done (), s2)"
      "free t s2" "\<And>t' k'. cell s2 t' k' =
         (if t' = t \<and> k' = slot_key n then Some (bytes_text (be_bytes 32 v)) else cell s1 t' k')"
    using set_row_free [OF s1(2)] by metis
  show thesis
  proof (cases "v = slot s t n")
    case True
    then show thesis
      using that [of STORAGE_UNCHANGED h s1] s1 assms(2) by (simp add: evm_set_storage_def)
  next
    case False
    let ?st = "if slot s t n = 0 then STORAGE_ADDED else if v = 0 then STORAGE_DELETED else STORAGE_MODIFIED"
    let ?h = "if ?st = STORAGE_DELETED then h\<lparr>hc_refunds := hc_refunds h + 15000\<rparr> else h"
    have "evm_set_storage E n v h s = (Done (?st, ?h), s2)"
      using False s1(1) s2(1) assms(2)
      by (simp add: evm_set_storage_def host_set_store_def sstoreRefundGas_def)
    then show thesis
      using that [of ?st ?h s2] s1(3) s2(2,3) assms(2) False by (simp split: if_splits)
  qed
qed

lemma slot_set:
  assumes "\<And>t' k'. cell s' t' k' =
       (if t' = t \<and> k' = slot_key n \<and> v \<noteq> slot s t n then Some (bytes_text (be_bytes 32 v))
        else cell s t' k')"
  shows "slot s' t m = (if m = n then v else slot s t m)"
  by (auto simp: slot_def assms split: option.split)

lemma set_code_free:
  assumes "free t s"
  obtains s' where "set_code E t c s = (Done True, s')" "free t s'"
    "\<And>t' k'. cell s' t' k' =
       (if t' = t \<and> k' = ACCOUNT_CODE then Some (bytes_text c)
        else if t' = t \<and> k' = ACCOUNT_CODE_HASH then Some (bytes_text (he_hash E c)) else cell s t' k')"
proof -
  obtain s1 where s1: "set_row E t ACCOUNT_CODE_HASH (bytes_text (he_hash E c)) s = (Done (), s1)"
      "free t s1" "\<And>t' k'. cell s1 t' k' =
         (if t' = t \<and> k' = ACCOUNT_CODE_HASH then Some (bytes_text (he_hash E c)) else cell s t' k')"
    using set_row_free [OF assms] by metis
  obtain s2 where s2: "set_row E t ACCOUNT_CODE (bytes_text c) s1 = (Done (), s2)"
      "free t s2" "\<And>t' k'. cell s2 t' k' =
         (if t' = t \<and> k' = ACCOUNT_CODE then Some (bytes_text c) else cell s1 t' k')"
    using set_row_free [OF s1(2)] by metis
  have "sync_open_table (he_ops E) t s" using assms by (simp add: sync_open_table_def free_def)
  then have "set_code E t c s = (Done True, s2)" using s1(1) s2(1) by (simp add: set_code_def)
  then show thesis using that [of s2] s2(2,3) s1(3) by simp
qed

lemma host_code_free: "free t s \<Longrightarrow> fst (host_code E t s) =
    Done (case cell s t ACCOUNT_CODE of Some x \<Rightarrow> text_bytes x | None \<Rightarrow> [])"
  by (rule get_row_free [of t s ACCOUNT_CODE]) (simp_all add: host_code_def)

end

definition plain_env :: "mem host_env" where
  "plain_env = \<lparr>he_ops = mem_ops, he_response = \<lambda>s k own. Revert s, he_precompiled = \<lambda>_. None,
     he_builtin = \<lambda>_. False, he_evm = \<lambda>_. None, he_external = \<lambda>p s. (p, s), he_status = \<lambda>_. 0,
     he_as_evmc = \<lambda>_. EVMC_SUCCESS, he_hash = id, he_unhex = \<lambda>_. Some [], he_wasm = False,
     he_address = ''c'', he_number = 7, he_timestamp = 1000, he_block_hash = replicate 32 0\<rparr>"

interpretation plain: host_rows plain_env "\<lambda>_. True"
  unfolding host_rows_def by (simp add: plain_env_def mem.table_storage_axioms)

section \<open>Properties\<close>

text \<open>The storage of a contract is an array of words: after \<open>SSTORE\<close> of \<open>v\<close> at \<open>n\<close>, \<open>SLOAD\<close>
  gives \<open>v\<close> at \<open>n\<close> and the old word elsewhere, the status and the refund are those of the
  transition, and no other table and no code row has changed.\<close>
theorem storage_slots:
  assumes "table_storage (he_ops E) I" and "I (sy_store s)" and "sy_exists s = []"
    and "st_open (he_ops E) (sy_store s) (hc_table h)" and "hc_table h \<noteq> st_sys (he_ops E)"
    and "\<And>m. fst (evm_get_storage E m h s) = Done (old m)"
  shows "\<exists>status h' s'. evm_set_storage E n v h s = (Done (status, h'), s')
    \<and> (\<forall>m. fst (evm_get_storage E m h' s') = Done (if m = n then v else old m))
    \<and> status = (if v = old n then STORAGE_UNCHANGED else if old n = 0 then STORAGE_ADDED
                else if v = 0 then STORAGE_DELETED else STORAGE_MODIFIED)
    \<and> hc_refunds h' = hc_refunds h + (if status = STORAGE_DELETED then 15000 else 0)
    \<and> (\<forall>t k. t \<noteq> hc_table h \<or> k \<in> {ACCOUNT_CODE, ACCOUNT_CODE_HASH, ACCOUNT_ABI} \<longrightarrow>
         row (he_ops E) (sy_store s') t k = row (he_ops E) (sy_store s) t k)"
proof -
  have H: "host_rows E I" by (simp add: host_rows_def assms(1))
  have get: "fst (evm_get_storage E m h' s') = Done (host_rows.slot E s' (hc_table h') m)"
    if "host_rows.free E I (hc_table h') s'" for h' s' m
    using host_rows.host_store_free [OF H that, of m] by (force simp: evm_get_storage_def)
  have fr: "host_rows.free E I (hc_table h) s" using assms(2-5) by (simp add: host_rows.free_def [OF H])
  have old: "host_rows.slot E s (hc_table h) = old"
    using assms(6) get [OF fr] by (metis ext outcome.inject(1))
  obtain status h' s' where r: "evm_set_storage E n v h s = (Done (status, h'), s')"
      "host_rows.free E I (hc_table h) s'" "hc_table h' = hc_table h"
      "\<And>t' k'. host_rows.cell E s' t' k' =
         (if t' = hc_table h \<and> k' = slot_key n \<and> v \<noteq> host_rows.slot E s (hc_table h) n
          then Some (bytes_text (be_bytes 32 v)) else host_rows.cell E s t' k')"
      "status = (if v = host_rows.slot E s (hc_table h) n then STORAGE_UNCHANGED
          else if host_rows.slot E s (hc_table h) n = 0 then STORAGE_ADDED
          else if v = 0 then STORAGE_DELETED else STORAGE_MODIFIED)"
      "hc_refunds h' = hc_refunds h + (if status = STORAGE_DELETED then 15000 else 0)"
    by (rule host_rows.set_storage_free [OF H fr refl, of n v]) blast
  have "fst (evm_get_storage E m h' s') = Done (if m = n then v else old m)" for m
    using get [of h' s' m] r(2,3) host_rows.slot_set [OF H r(4), of m] old by simp
  moreover have "row (he_ops E) (sy_store s') t k = row (he_ops E) (sy_store s) t k"
    if "t \<noteq> hc_table h \<or> k \<in> {ACCOUNT_CODE, ACCOUNT_CODE_HASH, ACCOUNT_ABI}" for t k
    using r(4) [of t k] that slot_key_not_account [of n] unfolding host_rows.cell_def [OF H] by auto
  ultimately show ?thesis using r(1,5,6) old by metis
qed

definition plain_state :: "mem sync_storage" where
  "plain_state = \<lparr>sy_store = mem_empty(mem_sys := [''/apps/c'' \<mapsto> ''value'']),
     sy_exists = [], sy_my = []\<rparr>"

lemma plain_state_ok [simp]:
  "sy_exists plain_state = []" "sy_store plain_state mem_sys ''/apps/c'' = Some ''value''"
  "he_ops plain_env = mem_ops" "''/apps/c'' \<noteq> mem_sys"
  "sy_store plain_state ''/apps/c'' k = None"
  by (simp_all add: plain_state_def plain_env_def mem_sys_def mem_empty_def)

theorem storage_slots_witness:
  "\<exists>h' s'. evm_set_storage plain_env 1 7 (new_host (new_call_parameters CP_MESSAGE) ''/apps/c'') plain_state =
      (Done (STORAGE_ADDED, h'), s')
    \<and> fst (evm_get_storage plain_env 1 h' s') = Done 7 \<and> fst (evm_get_storage plain_env 2 h' s') = Done 0"
proof -
  let ?h = "new_host (new_call_parameters CP_MESSAGE) ''/apps/c''"
  have "fst (evm_get_storage plain_env m ?h plain_state) = Done 0" for m
    by (simp add: evm_get_storage_def host_store_def get_row_def sync_get_row_free new_host_def
        plain_state_def plain_env_def mem_empty_def mem_sys_def)
  from storage_slots [OF plain.table_storage_axioms, of plain_state ?h "\<lambda>_. 0" 1 7, OF _ _ _ _ this]
  show ?thesis by (auto simp: new_host_def)
qed

text \<open>The code of a contract is not protected from its own run.  \<open>EXTCODECOPY\<close>, which should
  fill the buffer of the machine with code, makes the buffer the code of the running contract,
  and a wasm contract that writes the storage key \<open>code\<close> replaces its code.\<close>
theorem contract_code_not_protected:
  assumes "table_storage (he_ops E) I" and "I (sy_store s)" and "sy_exists s = []"
    and "st_open (he_ops E) (sy_store s) (hc_table h)" and "hc_table h \<noteq> st_sys (he_ops E)"
  shows "(\<exists>s'. run_vm E (VmCopyCode b k) (h, s) = run_vm E (k (length b)) (h, s')
      \<and> fst (host_code E (hc_table h) s') = Done b)
    \<and> (\<exists>status h' s'. run_vm E (VmSet ''code'' (bytes_text b) k') (h, s) = run_vm E (k' status) (h', s')
      \<and> fst (host_code E (hc_table h') s') = Done b)"
proof -
  have H: "host_rows E I" by (simp add: host_rows_def assms(1))
  have fr: "host_rows.free E I (hc_table h) s" using assms(2-5) by (simp add: host_rows.free_def [OF H])
  let ?cell = "host_rows.cell E"
  have one: "\<exists>s'. run_vm E (VmCopyCode b k) (h, s) = run_vm E (k (length b)) (h, s')
      \<and> fst (host_code E (hc_table h) s') = Done b"
    by (rule host_rows.set_code_free [OF H fr, of b])
       (auto simp: copy_code_def host_rows.host_code_free [OF H])
  obtain s1 where s1: "get_row E (hc_table h) ''code'' s = (Done (?cell s (hc_table h) ''code''), s1)"
      "host_rows.free E I (hc_table h) s1" "\<And>t k. ?cell s1 t k = ?cell s t k"
    by (rule host_rows.get_row_free [OF H fr, of "''code''"]) blast
  obtain s2 where s2: "set_row E (hc_table h) ''code'' (bytes_text b) s1 = (Done (), s2)"
      "host_rows.free E I (hc_table h) s2" "?cell s2 (hc_table h) ''code'' = Some (bytes_text b)"
    by (rule host_rows.set_row_free [OF H s1(2), of "''code''" "bytes_text b"]) (auto simp: ACCOUNT_CODE_def)
  define old where "old = (case ?cell s (hc_table h) ''code'' of Some x \<Rightarrow> x | None \<Rightarrow> [])"
  have get: "host_get E (hc_table h) ''code'' s = (Done old, s1)" using s1(1) by (simp add: host_get_def old_def)
  have code: "fst (host_code E (hc_table h) s1) = Done (text_bytes old)"
    "fst (host_code E (hc_table h) s2) = Done b"
    using host_rows.host_code_free [OF H s1(2)] host_rows.host_code_free [OF H s2(2)] s1(3) s2(3)
    by (auto simp: old_def ACCOUNT_CODE_def split: option.split) (simp add: text_bytes_def)
  have "\<exists>status h'. wasm_set E ''code'' (bytes_text b) h s = (Done (status, h'), s2)
      \<and> hc_table h' = hc_table h" if "bytes_text b \<noteq> old"
    using that by (simp add: wasm_set_def get host_set_def s2(1) Let_def)
  then have "\<exists>status h'. run_vm E (VmSet ''code'' (bytes_text b) k') (h, s) = run_vm E (k' status) (h', s2)
      \<and> hc_table h' = hc_table h" if "bytes_text b \<noteq> old"
    using that by fastforce
  moreover have "\<exists>status. run_vm E (VmSet ''code'' (bytes_text b) k') (h, s) = run_vm E (k' status) (h, s1)"
    if "bytes_text b = old" using that by (auto simp: wasm_set_def get)
  ultimately have "\<exists>status h' s'. run_vm E (VmSet ''code'' (bytes_text b) k') (h, s) = run_vm E (k' status) (h', s')
      \<and> fst (host_code E (hc_table h') s') = Done b"
    using code by (metis text_bytes_text)
  then show ?thesis using one by blast
qed

theorem contract_code_not_protected_witness:
  "\<exists>s'. run_vm plain_env (VmCopyCode [1, 2, 3] (\<lambda>n. VmReturn zero_result))
      (new_host (new_call_parameters CP_MESSAGE) ''/apps/c'', plain_state) =
      (Done zero_result, new_host (new_call_parameters CP_MESSAGE) ''/apps/c'', s')
    \<and> fst (host_code plain_env ''/apps/c'' s') = Done [1, 2, 3]"
  using contract_code_not_protected [OF plain.table_storage_axioms, of plain_state
      "new_host (new_call_parameters CP_MESSAGE) ''/apps/c''" "[1, 2, 3]" "\<lambda>n. VmReturn zero_result"]
  by (auto simp: new_host_def)

text \<open>A call from a contract never raises an exception: negative gas and the opcodes
  \<open>DELEGATECALL\<close> and \<open>CALLCODE\<close> end the process, as the function is \<open>noexcept\<close>.  A \<open>CREATE2\<close>
  is sent as a request without code and without the creation flag.\<close>
theorem evm_call_errors:
  "evm_call E m h s =
     (if ms_gas m < 0 \<or> ms_kind m \<in> {EVMC_DELEGATECALL, EVMC_CALLCODE} then (Terminated, s)
      else no_except (external_request E m h s))
   \<and> (\<forall>e. fst (evm_call E m h s) \<noteq> Thrown e)
   \<and> (case ms_kind m of
        EVMC_CREATE2 \<Rightarrow> \<exists>r. build_request E m h = Some r \<and> \<not> cp_create r \<and> cp_data r = []
      | EVMC_CREATE \<Rightarrow> \<exists>r. build_request E m h = Some r \<and> cp_create r \<and> cp_data r = ms_input m
      | _ \<Rightarrow> True)"
proof (intro conjI allI)
  have none: "build_request E m h = None \<longleftrightarrow> ms_kind m \<in> {EVMC_DELEGATECALL, EVMC_CALLCODE}"
    by (cases "ms_kind m") (simp_all add: build_request_def)
  show "evm_call E m h s =
     (if ms_gas m < 0 \<or> ms_kind m \<in> {EVMC_DELEGATECALL, EVMC_CALLCODE} then (Terminated, s)
      else no_except (external_request E m h s))"
  proof (cases "build_request E m h = None")
    case True
    then show ?thesis using none by (simp add: evm_call_def external_request_def no_except_def)
  next
    case False
    then show ?thesis unfolding none evm_call_def by (simp add: no_except_def)
  qed
next
  have "fst (no_except r) \<noteq> Thrown e" for r :: "'x outcome \<times> 'y" and e
    by (cases r; cases "fst r") (auto simp: no_except_def)
  then show "fst (evm_call E m h s) \<noteq> Thrown e" for e by (simp only: evm_call_def)
next
  show "case ms_kind m of
        EVMC_CREATE2 \<Rightarrow> \<exists>r. build_request E m h = Some r \<and> \<not> cp_create r \<and> cp_data r = []
      | EVMC_CREATE \<Rightarrow> \<exists>r. build_request E m h = Some r \<and> cp_create r \<and> cp_data r = ms_input m
      | _ \<Rightarrow> True"
    by (cases "ms_kind m") (simp_all add: build_request_def new_call_parameters_def)
qed

text \<open>The origin that a machine sees is the first half of the hexadecimal text of the sender: two senders
  that agree on their first ten bytes have the same one, and it is not the address itself.\<close>

theorem tx_origin_is_half_the_text:
  assumes "cp_origin (hc_params h) = take 20 a @ b" and "cp_origin (hc_params h') = take 20 a @ c"
    and "20 \<le> length a"
  shows "get_tx_context E h = get_tx_context E h' \<and> get_tx_context E h \<noteq> None
    \<and> tc_origin (the (get_tx_context E h)) = text_bytes (take 20 a)"
  using assms by (simp add: get_tx_context_def to_evmc_address_def text_bytes_def take_map)

theorem tx_origin_is_half_the_text_witness:
  "get_tx_context plain_env \<lparr>hc_params = (new_call_parameters CP_MESSAGE)\<lparr>cp_origin := replicate 20 CHR ''a'' @ ''0001''\<rparr>,
       hc_table = [], hc_refunds = 0, hc_responses = []\<rparr>
   = get_tx_context plain_env \<lparr>hc_params = (new_call_parameters CP_MESSAGE)\<lparr>cp_origin := replicate 20 CHR ''a'' @ ''0002''\<rparr>,
       hc_table = [], hc_refunds = 0, hc_responses = []\<rparr>"
  by (rule conjunct1 [OF tx_origin_is_half_the_text [of _ "replicate 20 CHR ''a''" "''0001''" _ "''0002''"]])
    (simp_all add: new_call_parameters_def)

end
