(* ===== verification/RollbackSpec.thy ===== *)
theory RollbackSpec imports ExecutiveSpec begin

text \<open>
  What a reverted call leaves in the storage.  The locale \<open>executive\<close> fixes \<open>base\<close>, the rows as
  they are without the writes of this executive (the state its recorder rolls back to), and
  \<open>foreign\<close>, the way in which the others may change them; \<open>journal_ops\<close> is a storage with a copy of
  its base that provides all of it.
\<close>

section \<open>The contract of the recorder\<close>

type_synonym rows = "string \<Rightarrow> string \<Rightarrow> string option"

locale recorded = table_storage ops inv
  for ops :: "'s storage_ops" and inv +
  fixes base :: "'s \<Rightarrow> rows" and rollback :: "'s \<Rightarrow> 's"
  assumes rollback_inv: "inv s \<Longrightarrow> inv (rollback s)"
    and rollback_row: "inv s \<Longrightarrow> row ops (rollback s) t k = base s t k"
    and rollback_base: "inv s \<Longrightarrow> base (rollback s) = base s"
    and get_base: "inv s \<Longrightarrow> base (snd (st_get ops s t k)) = base s"
    and set_base: "inv s \<Longrightarrow> base (st_set ops s t k v) = base s"
    and create_base: "inv s \<Longrightarrow> base (snd (st_create ops s t f)) = base s"
begin

definition clean :: "'s \<Rightarrow> bool" where
  "clean s \<longleftrightarrow> (\<forall>t k. row ops s t k = base s t k)"

lemma rollback_clean: "inv s \<Longrightarrow> clean (rollback s)"
  by (simp add: clean_def rollback_row rollback_base)

lemma get_clean: "inv s \<Longrightarrow> clean s \<Longrightarrow> clean (snd (st_get ops s t k))"
  by (simp add: clean_def get_row get_base)

end

definition journal_ops :: "'s storage_ops \<Rightarrow> ('s \<times> 's) storage_ops" where
  "journal_ops ops = \<lparr>
     st_open = (\<lambda>(a, b) t. st_open ops a t),
     st_create = (\<lambda>(a, b) t f. let (r, a') = st_create ops a t f in (r, a', b)),
     st_get = (\<lambda>(a, b) t k. let (r, a') = st_get ops a t k in (r, a', b)),
     st_set = (\<lambda>(a, b) t k v. (st_set ops a t k v, b)),
     st_del = (\<lambda>(a, b) t k. (st_del ops a t k, b)),
     st_sys = st_sys ops\<rparr>"

lemma journal_simps [simp]:
  "st_open (journal_ops ops) (a, b) t = st_open ops a t"
  "st_create (journal_ops ops) (a, b) t f = (fst (st_create ops a t f), snd (st_create ops a t f), b)"
  "st_get (journal_ops ops) (a, b) t k = (fst (st_get ops a t k), snd (st_get ops a t k), b)"
  "st_set (journal_ops ops) (a, b) t k v = (st_set ops a t k v, b)"
  "st_del (journal_ops ops) (a, b) t k = (st_del ops a t k, b)"
  "st_sys (journal_ops ops) = st_sys ops"
  "row (journal_ops ops) (a, b) t k = row ops a t k"
  by (simp_all add: journal_ops_def row_def case_prod_unfold Let_def)

definition journal_base :: "'s storage_ops \<Rightarrow> 's \<times> 's \<Rightarrow> rows" where
  "journal_base ops s = row ops (snd s)"

definition journal_rollback :: "'s \<times> 's \<Rightarrow> 's \<times> 's" where
  "journal_rollback s = (snd s, snd s)"

locale snapshot = table_storage ops inv for ops :: "'s storage_ops" and inv

sublocale snapshot \<subseteq> journal: recorded "journal_ops ops" "\<lambda>s. inv (fst s) \<and> inv (snd s)"
  "journal_base ops" journal_rollback
proof
  show "hd (st_sys (journal_ops ops)) \<noteq> CHR ''/''" "st_sys (journal_ops ops) \<noteq> []"
    using sys_name by simp_all
qed (auto simp: journal_base_def journal_rollback_def get_inv get_row get_open set_inv set_row set_open
    del_inv del_row del_open create_inv create_ok create_open create_row closed_row)

interpretation mem_journal: snapshot mem_ops "\<lambda>_. True" ..

section \<open>The contract of the executive\<close>

lemma snd_no_except: "snd (no_except r) = snd r"
  by (cases r; cases "fst r") (auto simp: no_except_def)

locale executive = recorded "he_ops (xe_host E)" inv base "xe_rollback E"
  for E :: "'s exec_env" and inv and base :: "'s \<Rightarrow> rows" +
  fixes foreign :: "rows \<Rightarrow> rows \<Rightarrow> bool"
  assumes foreign_refl: "foreign r r"
    and foreign_trans: "foreign r r' \<Longrightarrow> foreign r' r'' \<Longrightarrow> foreign r r''"
    and auth_ops: "ae_ops (xe_auth E) = he_ops (xe_host E)"
    and response_ok: "inv s \<Longrightarrow> case he_response (xe_host E) s k own of
        Revert st \<Rightarrow> inv st \<and> foreign (base s) (base st) \<and> (clean s \<longrightarrow> clean st)
      | Granted st ks \<Rightarrow> inv st \<and> foreign (base s) (base st) \<and> (clean s \<longrightarrow> clean st)"
    and external_ok: "inv s \<Longrightarrow> inv (snd (he_external (xe_host E) p s))
      \<and> foreign (base s) (base (snd (he_external (xe_host E) p s)))"
    and precompiled_ok: "he_precompiled (xe_host E) a = Some f \<Longrightarrow> inv (sy_store w) \<Longrightarrow>
      inv (sy_store (snd (f x y z w)))
      \<and> foreign (base (sy_store w)) (base (sy_store (snd (f x y z w))))"
begin

definition moves :: "'s \<Rightarrow> 's \<Rightarrow> bool" where
  "moves s s' \<longleftrightarrow> (inv s \<longrightarrow> inv s' \<and> foreign (base s) (base s'))"

definition reads :: "'s \<Rightarrow> 's \<Rightarrow> bool" where
  "reads s s' \<longleftrightarrow> (inv s \<longrightarrow> inv s' \<and> foreign (base s) (base s') \<and> (clean s \<longrightarrow> clean s'))"

lemma moves_refl [simp]: "moves s s" and reads_refl [simp]: "reads s s"
  by (simp_all add: moves_def reads_def foreign_refl)

lemma moves_trans: "moves s s' \<Longrightarrow> moves s' s'' \<Longrightarrow> moves s s''"
  using foreign_trans unfolding moves_def by blast

lemma reads_trans: "reads s s' \<Longrightarrow> reads s' s'' \<Longrightarrow> reads s s''"
  using foreign_trans unfolding reads_def by blast

lemma reads_moves: "reads s s' \<Longrightarrow> moves s s'"
  by (simp add: moves_def reads_def)

lemma moves_get [simp]: "reads s (snd (st_get (he_ops (xe_host E)) s t k))"
  by (simp add: reads_def get_inv get_base foreign_refl get_clean)

lemma moves_set [simp]: "moves s (st_set (he_ops (xe_host E)) s t k v)"
  by (simp add: moves_def set_inv set_base foreign_refl)

lemma moves_create [simp]: "moves s (snd (st_create (he_ops (xe_host E)) s t f))"
  by (simp add: moves_def create_inv create_base foreign_refl)

lemma moves_revert [simp]: "moves (sy_store s) (sy_store (revert E s))"
  by (simp add: revert_def moves_def rollback_inv rollback_base foreign_refl)

lemma clean_revert: "inv (sy_store s) \<Longrightarrow> clean (sy_store (revert E s))"
  by (simp add: revert_def rollback_clean)

text \<open>On states of the wrapper.\<close>

abbreviation moved :: "'s sync_storage \<Rightarrow> 's sync_storage \<Rightarrow> bool" where
  "moved s s' \<equiv> moves (sy_store s) (sy_store s')"

abbreviation read :: "'s sync_storage \<Rightarrow> 's sync_storage \<Rightarrow> bool" where
  "read s s' \<equiv> reads (sy_store s) (sy_store s')"

lemma moved_andthen:
  assumes "moved s (snd r)" and "\<And>x t. r = (Done x, t) \<Longrightarrow> moved t (snd (f x t))"
  shows "moved s (snd (andthen r f))"
  using assms moves_trans by (cases r; cases "fst r") (auto simp: andthen_def)

lemma read_andthen:
  assumes "read s (snd r)" and "\<And>x t. r = (Done x, t) \<Longrightarrow> read t (snd (f x t))"
  shows "read s (snd (andthen r f))"
  using assms reads_trans by (cases r; cases "fst r") (auto simp: andthen_def)

lemma read_lock: "read s (snd (acquire_key_lock (he_response (xe_host E)) k s))"
proof -
  let ?r = "he_response (xe_host E) (sy_store s) k (sy_my s)"
  have "reads (sy_store s) (case ?r of Revert st \<Rightarrow> st | Granted st ks \<Rightarrow> st)"
    using response_ok [of "sy_store s" k "sy_my s"] by (auto simp: reads_def split: lock_response.splits)
  then show ?thesis
    by (auto simp: acquire_key_lock_def external_acquire_key_locks_def export_key_locks_def
        import_exists_key_locks_def split: lock_response.splits)
qed

lemma read_get_row: "read s (snd (get_row (xe_host E) t k s))"
proof -
  obtain ok s1 where l: "acquire_key_lock (he_response (xe_host E)) k s = (ok, s1)" by (metis surj_pair)
  have "read s s1" using read_lock [of s k] by (simp add: l)
  moreover have "sy_store (snd (get_row (xe_host E) t k s)) =
      (if ok then snd (st_get (he_ops (xe_host E)) (sy_store s1) t k) else sy_store s1)"
    by (cases ok) (simp_all add: get_row_def sync_get_row_def l case_prod_unfold Let_def)
  ultimately show ?thesis using reads_trans moves_get by (cases ok) auto
qed

lemma moved_set_row: "moved s (snd (set_row (xe_host E) t k v s))"
proof -
  obtain ok s1 where l: "acquire_key_lock (he_response (xe_host E)) k s = (ok, s1)" by (metis surj_pair)
  have "moved s s1" using reads_moves [OF read_lock [of s k]] by (simp add: l)
  moreover have "sy_store (snd (set_row (xe_host E) t k v s)) =
      (if ok then st_set (he_ops (xe_host E)) (sy_store s1) t k v else sy_store s1)"
    by (cases ok) (simp_all add: set_row_def sync_set_row_def l)
  ultimately show ?thesis using moves_trans moves_set by (cases ok) auto
qed

lemma moved_get_row: "moved s (snd (get_row (xe_host E) t k s))"
  by (rule reads_moves [OF read_get_row])

text \<open>The host functions.\<close>

lemma moved_set_code: "moved s (snd (set_code (xe_host E) t c s))"
  unfolding set_code_def by (auto intro!: moved_andthen moved_set_row)

lemma moved_set_code_and_abi: "moved s (snd (set_code_and_abi (xe_host E) t c a s))"
  unfolding set_code_and_abi_def by (auto intro!: moved_andthen moved_set_code moved_set_row)

lemma moved_host_store: "moved s (snd (host_store (xe_host E) t n s))"
  unfolding host_store_def by (auto intro!: moved_andthen moved_get_row)

lemma moved_host_get: "moved s (snd (host_get (xe_host E) t k s))"
  unfolding host_get_def by (auto intro!: moved_andthen moved_get_row)

lemma read_host_code: "read s (snd (host_code (xe_host E) t s))"
  unfolding host_code_def by (auto intro!: read_andthen read_get_row)

lemma moved_set_storage: "moved s (snd (evm_set_storage (xe_host E) n v h s))"
  unfolding evm_set_storage_def host_set_store_def Let_def case_prod_unfold
  by (auto intro!: moved_andthen moved_host_store moved_set_row)

lemma moved_wasm_set: "moved s (snd (wasm_set (xe_host E) k v h s))"
  unfolding wasm_set_def host_set_def Let_def case_prod_unfold
  by (auto intro!: moved_andthen moved_host_get moved_set_row)

lemma moved_wasm_get: "moved s (snd (wasm_get (xe_host E) k n h s))"
  unfolding wasm_get_def by (auto intro!: moved_andthen moved_host_get)

lemma moved_copy_code: "moved s (snd (copy_code (xe_host E) b h s))"
  unfolding copy_code_def by (auto intro!: moved_andthen moved_set_code)

lemma moved_exec_precompiled: "moved s (snd (exec_precompiled (xe_host E) a b c d s))"
proof (cases "he_precompiled (xe_host E) a")
  case None
  then show ?thesis by (simp add: exec_precompiled_def)
next
  case (Some f)
  have "moved s (snd (f b c d s))" using precompiled_ok [OF Some] by (auto simp: moves_def)
  then show ?thesis
    using Some by (auto simp: exec_precompiled_def split: prod.splits sum.splits exn.splits)
qed

lemma moved_call_builtin: "moved s (snd (call_builtin (xe_host E) r evm h s))"
proof (cases evm)
  case True
  then show ?thesis by (auto simp: call_builtin_def split: option.splits prod.splits)
next
  case False
  then show ?thesis
    using moved_exec_precompiled [of s "receiveAddress r" "cp_data r" "cp_origin r" "senderAddress r"]
    by (auto simp: call_builtin_def split: option.splits prod.splits sum.splits exn.splits)
qed

lemma moved_external_call: "moved s (snd (external_call (xe_host E) p s))"
  using external_ok
  by (auto simp: external_call_def export_key_locks_def import_exists_key_locks_def moves_def
      case_prod_unfold Let_def)

lemma moved_evm_call: "moved s (snd (evm_call (xe_host E) m h s))"
proof -
  have "moved s (snd (external_request (xe_host E) m h s))"
    using moved_call_builtin moved_external_call
    by (auto simp: external_request_def case_prod_unfold Let_def split: option.splits)
  then show ?thesis by (simp add: evm_call_def snd_no_except)
qed

lemma andthen_pair:
  assumes "moved s (snd (snd r))" and "\<And>x t. r = (Done x, t) \<Longrightarrow> moved (snd t) (snd (snd (f x t)))"
  shows "moved s (snd (snd (andthen r f)))"
  using assms moves_trans by (cases r; cases "fst r") (auto simp: andthen_def)

lemma snd_with_host [simp]: "snd (snd (with_host h r)) = snd r" "snd (snd (keep_host h r')) = snd r'"
  by (cases r; cases "fst r"; auto simp: with_host_def split: prod.splits)
     (simp add: keep_host_def)

lemma moved_run_vm: "moved (snd hs) (snd (snd (run_vm (xe_host E) m hs)))"
proof (induction m arbitrary: hs)
  case (VmReturn r)
  then show ?case by (simp add: case_prod_unfold)
next
  case (VmGetStorage n k)
  have "moved (snd hs) (snd (evm_get_storage (xe_host E) n h (snd hs)))" for h
    by (simp add: evm_get_storage_def moved_host_store)
  then show ?case using VmGetStorage by (auto simp: case_prod_unfold intro!: andthen_pair)
next
  case (VmSetStorage n v k)
  then show ?case using moved_set_storage by (auto simp: case_prod_unfold intro!: andthen_pair)
next
  case (VmCopyCode b k)
  then show ?case using moved_copy_code by (auto simp: case_prod_unfold intro!: andthen_pair)
next
  case (VmLog ts d k)
  show ?case using VmLog [of "(host_log (xe_host E) ts d (fst hs), snd hs)"] by (simp add: case_prod_unfold)
next
  case (VmQuery q k)
  then show ?case by (simp add: case_prod_unfold split: option.split)
next
  case (VmCall x k)
  then show ?case using moved_evm_call by (auto simp: case_prod_unfold intro!: andthen_pair)
next
  case (VmGet key n k)
  then show ?case using moved_wasm_get by (auto simp: case_prod_unfold intro!: andthen_pair)
next
  case (VmSet key v k)
  then show ?case using moved_wasm_set by (auto simp: case_prod_unfold intro!: andthen_pair)
qed

lemma moved_run_machine: "moved (snd hs) (snd (snd (run_machine E w c extra hs)))"
  unfolding run_machine_def by (auto intro!: andthen_pair moved_run_vm)

text \<open>The permission checks only read.\<close>

lemma reads_last_get: "reads (as_now a) (as_now (snd (last_get (xe_auth E) t k a)))"
  by (auto simp: last_get_def auth_ops case_prod_unfold Let_def split: option.splits)

lemma reads_method_type: "reads (as_now a) (as_now (snd (get_method_auth_type (xe_auth E) p f a)))"
  using reads_last_get [of a p METHOD_AUTH_TYPE]
  by (auto simp: get_method_auth_type_def split: prod.splits option.splits)

lemma reads_check_method: "reads (as_now a) (as_now (snd (check_method_auth (xe_auth E) c f u a)))"
proof -
  obtain r a1 where g: "get_method_auth_type (xe_auth E) (auth_table c) f a = (r, a1)" by (metis surj_pair)
  have 1: "reads (as_now a) (as_now a1)" using reads_method_type [of a "auth_table c" f] by (simp add: g)
  have "reads (as_now a) (as_now a2)" if "last_get (xe_auth E) t k a1 = (v, a2)" for t k v a2
    using reads_last_get [of a1 t k] reads_trans [OF 1] by (simp add: that)
  then show ?thesis using 1
    by (auto simp: check_method_auth_def Let_def g split: eval.splits prod.splits option.splits)
qed

lemma reads_check_deploy: "reads (as_now a) (as_now (snd (check_deploy_auth (xe_auth E) u a)))"
proof -
  obtain r a1 where g: "get_deploy_auth_type (xe_auth E) a = (r, a1)" by (metis surj_pair)
  have 1: "reads (as_now a) (as_now a1)"
    using reads_last_get [of a APPS FS_ACL_TYPE] g
    by (auto simp: get_deploy_auth_type_def split: prod.splits option.splits if_splits)
  have "reads (as_now a) (as_now a2)" if "last_get (xe_auth E) t k a1 = (v, a2)" for t k v a2
    using reads_last_get [of a1 t k] reads_trans [OF 1] by (simp add: that)
  then show ?thesis using 1
    by (auto simp: check_deploy_auth_def Let_def g split: eval.splits prod.splits option.splits)
qed

lemma read_check_auth: "read s (snd (check_auth E p c s))"
  using reads_check_method [of "\<lparr>as_last = xe_last E, as_now = sy_store s, as_gas = create_precompiled_gas\<rparr>"]
    reads_check_deploy [of "\<lparr>as_last = xe_last E, as_now = sy_store s, as_gas = create_precompiled_gas\<rparr>"]
  by (auto simp: check_auth_def Let_def case_prod_unfold)

text \<open>Tables and directories.\<close>

lemma moved_create_table: "moved s (snd (create_table E t s))"
  by (auto simp: create_table_def sync_create_table_def case_prod_unfold Let_def split: option.splits)

lemma moved_write_auth_rows: "moved s (snd (write_auth_rows E t a s))"
  unfolding write_auth_rows_def by (auto intro!: moved_andthen moved_set_row)

lemma moved_creat_auth_table: "moved s (snd (creat_auth_table E t x y s))"
  unfolding creat_auth_table_def
  by (auto intro!: moved_andthen moved_get_row moved_create_table moved_write_auth_rows
      split: option.splits)

lemma moved_make_tables: "moved s (snd (make_tables E p s))"
  unfolding make_tables_def
  by (auto intro!: moved_andthen moved_create_table moved_creat_auth_table)

lemma moves_init_dir: "moves s (init_dir (he_ops (xe_host E)) C p s)"
  unfolding init_dir_def using moves_set moves_trans by (simp, metis)

lemma moves_add_dir: "moves s (snd (add_dir (he_ops (xe_host E)) C c d r s))"
proof -
  let ?ops = "he_ops (xe_host E)"
  obtain v s1 where g: "st_get ?ops s r FS_KEY_SUB = (v, s1)" by (metis surj_pair)
  have 1: "moves s s1" using reads_moves [OF moves_get [of s r FS_KEY_SUB]] by (simp add: g)
  obtain b s2 where cr: "st_create ?ops s1 (child_path r d) SYS_VALUE_FIELDS = (b, s2)" by (metis surj_pair)
  have 2: "moves s s2" using moves_trans [OF 1] moves_create [of s1 "child_path r d" SYS_VALUE_FIELDS]
    by (simp add: cr)
  have 3: "moves s (st_set ?ops (init_dir ?ops C q s2) t k x)" for q t k x
    by (rule moves_trans [OF moves_trans [OF 2 moves_init_dir] moves_set])
  have 4: "moves s (st_set ?ops s1 t k x)" for t k x by (rule moves_trans [OF 1 moves_set])
  show ?thesis using 1 2 3 4
    by (auto simp: add_dir_def g cr split: option.splits bool.splits)
qed

lemma moves_build_dirs: "moves s (snd (build_dirs (he_ops (xe_host E)) C c ds r s))"
proof (induction ds arbitrary: r s)
  case Nil
  then show ?case by simp
next
  case (Cons d ds)
  let ?ops = "he_ops (xe_host E)" and ?c = "c \<and> ds = []"
  obtain v s1 where g: "st_get ?ops s r FS_KEY_TYPE = (v, s1)" by (metis surj_pair)
  have 1: "moves s s1" using reads_moves [OF moves_get [of s r FS_KEY_TYPE]] by (simp add: g)
  obtain v2 s2 where g2: "st_get ?ops s1 (child_path r d) FS_KEY_TYPE = (v2, s2)" by (metis surj_pair)
  have 2: "moves s s2"
    using reads_moves [OF moves_get [of s1 "child_path r d" FS_KEY_TYPE]] moves_trans [OF 1] by (simp add: g2)
  obtain b s3 where a: "add_dir ?ops C ?c d r s1 = (b, s3)" by (metis surj_pair)
  have 3: "moves s s3" using moves_add_dir [of s1 C ?c d r] moves_trans [OF 1] by (simp add: a)
  have "moves s (snd (build_dirs ?ops C c ds q s2))" "moves s (snd (build_dirs ?ops C c ds q s3))" for q
    using Cons.IH moves_trans 2 3 by metis+
  then show ?case using 1 2 3
    by (auto simp: g g2 a Let_def split: option.splits eval.splits bool.splits)
qed

lemma moves_build_bfs_path: "moves s (snd (build_bfs_path T (he_ops (xe_host E)) C p s))"
  using moves_build_dirs by (auto simp: build_bfs_path_def build_path_def split: option.splits)

lemma moved_parse: "moved s (snd (parse_evmc_result E p r s))"
  by (cases "er_status r") (auto simp: parse_evmc_result_def Let_def)

lemma moved_go_catch: "moved s (snd (go_catch E e taken s))"
  by (cases e; cases taken) (auto simp: go_catch_def)

lemma moved_handle: "moved s (snd r) \<Longrightarrow> moved s (snd (handle E taken r))"
  using moved_go_catch moves_trans by (cases r; cases "fst r") (auto simp: handle_def)

lemma moved_deposit: "moved s (snd (deposit_code E t x out p s))"
  unfolding deposit_code_def
  by (auto intro!: moved_andthen moved_set_code moved_set_code_and_abi split: option.splits)

section \<open>The state after a reverted call\<close>

lemma clean_after_revert:
  "moved s t \<Longrightarrow> inv (sy_store s) \<Longrightarrow> clean (sy_store (revert E t))"
  by (simp add: moves_def clean_revert)

lemma moved_then_revert: "moved s t \<Longrightarrow> moved s (revert E t)"
  using moves_trans moves_revert by blast

lemma moved_call_precompiled: "moved s (snd (call_precompiled E p s))"
proof -
  obtain r s1 where x: "exec_precompiled (xe_host E) (codeAddress p) (cp_data p) (cp_origin p)
      (senderAddress p) s = (r, s1)" by (metis surj_pair)
  have 1: "moved s s1" "moved s (revert E s1)"
    using moved_exec_precompiled [of s "codeAddress p" "cp_data p" "cp_origin p" "senderAddress p"]
    by (simp_all add: x moved_then_revert)
  then show ?thesis
    by (cases r) (auto simp: call_precompiled_def Let_def x split: exn.splits option.splits)
qed

lemma call_precompiled_clean:
  assumes "inv (sy_store s)" and "call_precompiled E p s = (Done q, s')" and "cp_type q = CP_REVERT"
  shows "clean (sy_store s') \<or> cp_status q = xe_status E StOutOfGas"
proof -
  obtain r s1 where x: "exec_precompiled (xe_host E) (codeAddress p) (cp_data p) (cp_origin p)
      (senderAddress p) s = (r, s1)" by (metis surj_pair)
  have 1: "clean (sy_store (revert E s1))"
    using moved_exec_precompiled [of s "codeAddress p" "cp_data p" "cp_origin p" "senderAddress p"] assms(1)
    by (auto simp: x intro: clean_after_revert)
  then show ?thesis
    using assms(2,3)
    by (cases r) (auto simp: call_precompiled_def Let_def x reverted_def split: exn.splits option.splits if_splits)
qed

lemma prepare_call_moved: "moved s (snd (prepare_call E p s))"
  unfolding prepare_call_def
  by (auto intro!: moved_andthen moved_call_precompiled reads_moves [OF read_check_auth])

lemma prepare_call_enter:
  assumes "prepare_call E p s = (Done (Enter h x), s')"
  shows "hc_params h = p" "read s s'"
proof -
  show "hc_params h = p" using assms by (auto simp: prepare_call_def andthen_Done new_host_def split: if_splits)
  have "read s t" if "check_auth E p c s = (r, t)" for c r t using read_check_auth [of s p c] by (simp add: that)
  then show "read s s'" using assms by (auto simp: prepare_call_def andthen_Done split: if_splits)
qed

lemma prepare_call_clean:
  assumes "inv (sy_store s)" and "prepare_call E p s = (Done (Answer q), s')" and "cp_type q = CP_REVERT"
  shows "clean (sy_store s') \<or> cp_status q = xe_status E StOutOfGas \<and> is_precompiled E (codeAddress p)"
proof (cases "is_precompiled E (codeAddress p)")
  case True
  then show ?thesis
    using assms call_precompiled_clean by (auto simp: prepare_call_def andthen_Done)
next
  case False
  have "clean (sy_store (revert E t))" if "check_auth E p c s = (r, t)" for c r t
    using read_check_auth [of s p c] assms(1) by (auto simp: that intro: clean_after_revert reads_moves)
  moreover have "clean (sy_store (revert E s))" using assms(1) by (rule clean_revert)
  ultimately show ?thesis
    using assms(2) False by (auto simp: prepare_call_def andthen_Done split: if_splits)
qed

lemma prepare_tables_moved: "moved s (snd (prepare_tables E x p s))"
proof -
  obtain r s1 where m: "make_tables E p s = (r, s1)" by (metis surj_pair)
  obtain b st where b: "build_bfs_path (xe_text E) (he_ops (xe_host E)) (xe_dirs E)
      (contract_table E (codeAddress p)) (sy_store s1) = (b, st)" by (metis surj_pair)
  have 1: "moved s s1" using moved_make_tables [of s p] by (simp add: m)
  have 2: "moves (sy_store s) st"
    using moves_build_bfs_path [of "sy_store s1" "xe_text E" "xe_dirs E"] moves_trans [OF 1] b by (metis snd_conv)
  have "moves (sy_store s) (xe_rollback E st)"
    using moved_then_revert [of s "s1\<lparr>sy_store := st\<rparr>"] 2 by (simp add: revert_def)
  then show ?thesis
    using 1 2 moved_then_revert [OF 1]
    by (cases r; cases b) (auto simp: prepare_tables_def Let_def m b of_eval_def revert_def)
qed

lemma prepare_tables_clean:
  assumes "inv (sy_store s)" and "prepare_tables E x p s = (Done (Answer q), s')"
  shows "clean (sy_store s')"
proof -
  obtain r s1 where m: "make_tables E p s = (r, s1)" by (metis surj_pair)
  obtain b st where b: "build_bfs_path (xe_text E) (he_ops (xe_host E)) (xe_dirs E)
      (contract_table E (codeAddress p)) (sy_store s1) = (b, st)" by (metis surj_pair)
  have 1: "moved s s1" using moved_make_tables [of s p] by (simp add: m)
  have 2: "moved s (s1\<lparr>sy_store := st\<rparr>)"
    using moves_build_bfs_path [of "sy_store s1" "xe_text E" "xe_dirs E"] moves_trans [OF 1] b
    by (metis snd_conv sync_storage.select_convs(1) sync_storage.surjective sync_storage.update_convs(1))
  show ?thesis
    using assms clean_after_revert [OF 1] clean_after_revert [OF 2]
    by (cases r; cases b) (auto simp: prepare_tables_def Let_def m b of_eval_def split: if_splits)
qed

lemma prepare_create_moved: "moved s (snd (prepare_create E p s))"
proof -
  have checked: "moved s (snd (prepare_checked E x p s))" for x p
    unfolding prepare_checked_def
    by (auto intro!: moved_andthen reads_moves [OF read_check_auth] prepare_tables_moved)
  show ?thesis
    unfolding prepare_create_def
    by (auto intro!: moved_andthen checked split: option.splits simp: andthen_Done)
qed

lemma prepare_create_clean:
  assumes "inv (sy_store s)" and "prepare_create E p s = (Done (Answer q), s')"
  shows "clean (sy_store s')"
proof -
  have auth: "inv (sy_store t)" if "check_auth E p c s = (r, t)" for c r t p
    using reads_moves [OF read_check_auth [of s p c]] assms(1) by (simp add: that moves_def)
  have checked: "clean (sy_store s')" if "prepare_checked E x p s = (Done (Answer q), s')" for x p
    using that assms(1)
    by (auto simp: prepare_checked_def andthen_Done split: if_splits
        intro: prepare_tables_clean clean_revert dest: auth)
  then show ?thesis
    using assms clean_revert
    by (auto simp: prepare_create_def andthen_Done split: if_splits option.splits)
qed

lemma prepare_create_enter:
  assumes "prepare_create E p s = (Done (Enter h x), s')"
  shows "cp_create (hc_params h) = cp_create p"
proof -
  have "hc_params h = p" if "prepare_tables E y p s = (Done (Enter h x), s')" for y p s
    using that by (auto simp: prepare_tables_def Let_def andthen_Done new_host_def
        split: if_splits prod.splits outcome.splits)
  then have "hc_params h = p" if "prepare_checked E y p s = (Done (Enter h x), s')" for y p s
    using that by (auto simp: prepare_checked_def andthen_Done split: if_splits)
  then show ?thesis
    using assms by (fastforce simp: prepare_create_def andthen_Done split: if_splits option.splits)
qed

lemma go_catch_clean:
  "inv (sy_store s) \<Longrightarrow> go_catch E e taken s = (Done q, s') \<Longrightarrow> clean (sy_store s')"
  using clean_revert by (cases e; cases taken) (auto simp: go_catch_def)

lemma handle_None_Done: "handle E None r = (Done q, s') \<longleftrightarrow> r = (Done q, s')"
proof -
  have "go_catch E e None s \<noteq> (Done q, s')" for e s by (cases e) (simp_all add: go_catch_def)
  then show ?thesis by (cases r; cases "fst r") (auto simp: handle_def)
qed

lemma parse_clean:
  assumes "inv (sy_store s)" and "parse_evmc_result E p r s = (Done q, s')"
  shows "cp_type q = CP_FINISHED \<or> clean (sy_store s')"
  using assms clean_revert [of s]
  by (cases "er_status r") (auto simp: parse_evmc_result_def Let_def reverted_def split: if_splits)

lemma deposit_clean:
  assumes "inv (sy_store s)" and "deposit_code E t x out p s = (Done q, s')"
    and "answer_ok E p" and "cp_type p = CP_FINISHED \<or> clean (sy_store s)" and "cp_type q = CP_REVERT"
  shows "clean (sy_store s') \<or> cp_status q = xe_status E StOutOfGas"
  using assms clean_revert [of s]
  by (auto simp: deposit_code_def andthen_Done reverted_def answer_ok_def split: if_splits)

lemma machine_inv:
  assumes "inv (sy_store s)" and "run_machine E k c x (h, s) = (r, h1, s1)"
  shows "inv (sy_store s1)"
  using moved_run_machine [of "(h, s)" k c x] assms by (simp add: moves_def)

lemma go_create_clean:
  assumes "inv (sy_store s)" and "numbers_ok E" and "go_create E h x s = (Done q, s')"
    and "cp_type q = CP_REVERT"
  shows "clean (sy_store s') \<or> cp_status q = xe_status E StOutOfGas"
proof -
  obtain r h1 s1 where run: "run_machine E (xe_wasm E) (cp_data (hc_params h)) x (h, s) = (r, h1, s1)"
    by (metis surj_pair)
  note inv1 = machine_inv [OF assms(1) run]
  show ?thesis
  proof (cases r)
    case (Done res)
    then obtain p s2 where p: "parse_evmc_result E (clear_logs (hc_params h1)) res s1 = (Done p, s2)"
        "deposit_code E (hc_table h1) x (er_output res) p s2 = (Done q, s')"
      using assms(3) run by (auto simp: go_create_def handle_None_Done andthen_Done)
    have "inv (sy_store s2)"
      using moved_parse [of s1 "clear_logs (hc_params h1)" res] inv1 by (simp add: p(1) moves_def)
    then show ?thesis
      using deposit_clean [OF _ p(2) parse_ok [OF assms(2) p(1)] parse_clean [OF inv1 p(1)] assms(4)] by blast
  next
    case (Thrown e)
    then show ?thesis using assms(3) run go_catch_clean [OF inv1] by (auto simp: go_create_def)
  qed (use assms(3) run in \<open>auto simp: go_create_def\<close>)
qed

lemma go_call_clean:
  assumes "inv (sy_store s)" and "clean (sy_store s)" and "go_call E h s = (Done q, s')"
    and "cp_type q = CP_REVERT"
  shows "clean (sy_store s')"
proof -
  obtain c s0 where code: "host_code (xe_host E) (hc_table h) s = (c, s0)" by (metis surj_pair)
  have s0: "inv (sy_store s0)" "clean (sy_store s0)"
    using read_host_code [of s "hc_table h"] assms(1,2) by (simp_all add: code reads_def)
  show ?thesis
  proof (cases c)
    case (Done bs)
    show ?thesis
    proof (cases "bs = []")
      case True
      then show ?thesis using assms(3) s0(2) Done by (auto simp: go_call_def code handle_def)
    next
      case False
      obtain r h1 s1 where run: "run_machine E (has_wasm_preamble bs) bs None (h, s0) = (r, h1, s1)"
        by (metis surj_pair)
      note inv1 = machine_inv [OF s0(1) run]
      have no_throw: "go_catch E e taken t \<noteq> (Thrown e', t')" for e taken t e' t'
        by (cases e; cases taken) (auto simp: go_catch_def)
      show ?thesis
      proof (cases r)
        case (Done res)
        let ?inner = "andthen (parse_evmc_result E (hc_params h1) res s1) (\<lambda>p s2. (Done (clear_logs p), s2))"
        have "handle E None ?inner \<noteq> (Thrown e, t)" for e t
          using no_throw by (cases ?inner; cases "fst ?inner") (auto simp: handle_def)
        then have "handle E None ?inner = (Done q, s')"
          using assms(3) run Done False \<open>c = Done bs\<close>
          by (auto simp: go_call_def code handle_def [of E "Some (hc_params h)"] split: prod.splits outcome.splits)
        then obtain p where p: "parse_evmc_result E (hc_params h1) res s1 = (Done p, s')" "q = clear_logs p"
          by (auto simp: handle_None_Done andthen_Done)
        then show ?thesis using parse_clean [OF inv1 p(1)] assms(4) by (auto simp: clear_logs_def split: if_splits)
      next
        case (Thrown e)
        then have "handle E (Some (hc_params h)) (go_catch E e (Some (hc_params h1)) s1) = (Done q, s')"
          using assms(3) run False \<open>c = Done bs\<close> by (simp add: go_call_def code)
        then have "go_catch E e (Some (hc_params h1)) s1 = (Done q, s')"
          using no_throw by (auto simp: handle_def split: prod.splits outcome.splits)
        then show ?thesis using go_catch_clean [OF inv1] by blast
      qed (use assms(3) run False \<open>c = Done bs\<close> in \<open>auto simp: go_call_def code handle_def\<close>)
    qed
  next
    case (Thrown e)
    then show ?thesis using assms(3) go_catch_clean [OF s0(1)] by (auto simp: go_call_def code handle_def)
  qed (use assms(3) in \<open>auto simp: go_call_def code handle_def\<close>)
qed

lemma execute_clean:
  assumes "inv (sy_store s)" and "clean (sy_store s)" and "numbers_ok E"
    and "execute E p s = (Done q, s')" and "cp_type q = CP_REVERT"
  shows "clean (sy_store s')
    \<or> cp_status q = xe_status E StOutOfGas \<and> (cp_create p \<or> is_precompiled E (codeAddress p))"
proof -
  obtain r s1 where pre: "(if cp_create p then prepare_create E p s else prepare_call E p s) = (Done r, s1)"
      "(case r of Answer q \<Rightarrow> (Done q, s1)
       | Enter h x \<Rightarrow> if cp_create (hc_params h) then go_create E h x s1 else go_call E h s1) = (Done q, s')"
    using assms(4) by (auto simp: execute_def andthen_Done)
  have inv1: "inv (sy_store s1)"
    using prepare_create_moved [of s p] prepare_call_moved [of s p] pre(1) assms(1)
    by (auto simp: moves_def split: if_splits)
  show ?thesis
  proof (cases r)
    case (Answer q')
    then show ?thesis
      using pre assms(1,5) prepare_create_clean [of s p] prepare_call_clean [of s p] by (auto split: if_splits)
  next
    case (Enter h x)
    show ?thesis
    proof (cases "cp_create p")
      case True
      then show ?thesis
        using pre Enter prepare_create_enter [of p s h x s1] go_create_clean [OF inv1 assms(3)] assms(5) by auto
    next
      case False
      then have "hc_params h = p" "read s s1" using prepare_call_enter pre(1) Enter by auto
      then show ?thesis
        using pre(2) Enter False go_call_clean [OF inv1] assms(1,2,5) by (auto simp: reads_def)
    qed
  qed
qed

lemma execute_moved: "moved s (snd (execute E p s))"
proof -
  have create: "moved s (snd (go_create E h x s))" for h x s
  proof -
    obtain r h1 s1 where run: "run_machine E (xe_wasm E) (cp_data (hc_params h)) x (h, s) = (r, h1, s1)"
      by (metis surj_pair)
    have m: "moved s s1" using moved_run_machine [of "(h, s)"] run by (metis snd_conv)
    have "moved s1 (snd (handle E None (andthen (parse_evmc_result E p res s1) f)))"
      if "\<And>p t. moved t (snd (f p t))" for p res f
      by (intro moved_handle moved_andthen moved_parse that)
    then show ?thesis
      using moved_go_catch [of s1] moves_trans [OF m] moved_deposit m
      by (cases r) (auto simp: go_create_def run)
  qed
  have call: "moved s (snd (go_call E h s))" for h s
    unfolding go_call_def
  proof (intro moved_handle moved_andthen)
    show "moved s (snd (host_code (xe_host E) (hc_table h) s))" by (rule reads_moves [OF read_host_code])
    fix c t
    obtain r h1 s1 where run: "run_machine E (has_wasm_preamble c) c None (h, t) = (r, h1, s1)"
      by (metis surj_pair)
    have m: "moved t s1" using moved_run_machine [of "(h, t)"] run by (metis snd_conv)
    have "moved s1 (snd (handle E None (andthen (parse_evmc_result E (hc_params h1) res s1)
        (\<lambda>p s2. (Done (clear_logs p), s2)))))" for res
      by (intro moved_handle moved_andthen moved_parse) simp
    then show "moved t (snd (if c = []
        then (Done ((reverted E StCallAddressError (hc_params h))\<lparr>cp_message := ''Error contract address.''\<rparr>), t)
        else (case run_machine E (has_wasm_preamble c) c None (h, t) of
             (Done r, h1, s1) \<Rightarrow>
               handle E None (andthen (parse_evmc_result E (hc_params h1) r s1)
                 (\<lambda>p s2. (Done (clear_logs p), s2)))
           | (Thrown e, h1, s1) \<Rightarrow> go_catch E e (Some (hc_params h1)) s1
           | (Terminated, h1, s1) \<Rightarrow> (Terminated, s1)
           | (ExitProcess, h1, s1) \<Rightarrow> (ExitProcess, s1)
           | (Undefined, h1, s1) \<Rightarrow> (Undefined, s1))))"
      using moved_go_catch [of s1] moves_trans [OF m] m by (cases r) (auto simp: run)
  qed
  show ?thesis
    unfolding execute_def
    by (intro moved_andthen) (auto simp: prepare_create_moved prepare_call_moved create call split: prepared.splits)
qed

end

end
