(* ===== verification/ExecutiveProps.thy ===== *)
theory ExecutiveProps imports RollbackSpec begin

text \<open>
  The properties of the executive over \<open>ExecutiveSpec\<close> and \<open>RollbackSpec\<close>, with their instances
  on the store of maps and its base copy.
\<close>

section \<open>The concrete environment\<close>

type_synonym jmem = "mem \<times> mem"

definition jmem_host :: "jmem host_env" where
  "jmem_host = \<lparr>he_ops = journal_ops mem_ops, he_response = \<lambda>s k own. Revert s,
     he_precompiled = \<lambda>a. None, he_builtin = \<lambda>_. False,
     he_evm = \<lambda>_. None, he_external = \<lambda>p s. (p, s),
     he_status = \<lambda>st. if st = StNone then 0 else if st = StOutOfGas then 12 else 1,
     he_as_evmc = \<lambda>_. EVMC_SUCCESS, he_hash = id, he_unhex = \<lambda>_. Some [], he_wasm = False,
     he_address = ''c'', he_number = 7, he_timestamp = 1000, he_block_hash = replicate 32 0\<rparr>"

definition jmem_auth :: "jmem auth_env" where
  "jmem_auth = \<lparr>ae_ops = journal_ops mem_ops, ae_hex = bytes_text, ae_unhex = text_bytes,
     ae_committee = ''10001'', ae_num_str = u256_str, ae_num = \<lambda>_. None,
     ae_types = (count_enc, count_dec), ae_methods = (count_enc, count_dec),
     ae_users = (count_enc, count_dec)\<rparr>"

definition jmem_env :: "(bool \<Rightarrow> bytes \<Rightarrow> vm_message \<Rightarrow> vm) \<Rightarrow> jmem exec_env" where
  "jmem_env machine = \<lparr>xe_host = jmem_host, xe_auth = jmem_auth, xe_last = None, xe_text = std_text,
     xe_dirs = \<lparr>dc_enc = count_enc, dc_dec = count_dec\<rparr>, xe_rollback = journal_rollback, xe_create_error = \<lambda>t s. None,
     xe_auth_check = False, xe_error_output = \<lambda>_. [], xe_what = \<lambda>_. [], xe_decode = \<lambda>_. None,
     xe_inject = \<lambda>_. None, xe_machine = machine, xe_success = 0\<rparr>"

lemma jmem_env_simps [simp]:
  "xe_host (jmem_env m) = jmem_host" "he_ops jmem_host = journal_ops mem_ops"
  "xe_rollback (jmem_env m) = journal_rollback" "xe_auth (jmem_env m) = jmem_auth"
  "xe_auth_check (jmem_env m) = False" "he_wasm jmem_host = False"
  "he_unhex jmem_host a = Some []" "xe_create_error (jmem_env m) t s = None"
  "xe_machine (jmem_env m) = m" "he_status jmem_host StNone = 0" "xe_success (jmem_env m) = 0"
  "he_precompiled jmem_host a = None" "he_hash jmem_host = id" "he_status jmem_host StOutOfGas = 12"
  by (simp_all add: jmem_env_def jmem_host_def)

interpretation jmem: executive "jmem_env m" "\<lambda>s. True" "journal_base mem_ops" "(=)" for m
proof (intro executive.intro executive_axioms.intro)
  show "recorded (he_ops (xe_host (jmem_env m))) (\<lambda>s. True) (journal_base mem_ops) (xe_rollback (jmem_env m))"
    using mem_journal.journal.recorded_axioms by simp
qed (auto simp: jmem_host_def jmem_auth_def)

lemma jmem_numbers: "numbers_ok (jmem_env m)"
  by (auto simp: numbers_ok_def jmem_env_def jmem_host_def split: if_splits)

definition jmem_state :: "jmem sync_storage" where
  "jmem_state = \<lparr>sy_store = (mem_empty, mem_empty), sy_exists = [], sy_my = []\<rparr>"

definition creation :: call_parameters where
  "creation = (new_call_parameters CP_MESSAGE)
     \<lparr>codeAddress := ''a'', cp_create := True, cp_gas := 100, cp_data := [1]\<rparr>"

text \<open>A machine that deploys one byte of code and has the given gas left.\<close>

definition deployer :: "int \<Rightarrow> bool \<Rightarrow> bytes \<Rightarrow> vm_message \<Rightarrow> vm" where
  "deployer gas hera code msg = VmReturn (zero_result\<lparr>er_gas := gas, er_output := [7]\<rparr>)"

section \<open>Creating a contract\<close>

text \<open>A creation on the EVM without permission checks, for a machine that returns at once: the
  table, then the end of the creation.\<close>

lemma creation_runs:
  assumes "cp_create p" and "\<not> xe_wasm E" and "\<not> xe_auth_check E"
    and "xe_create_error E (contract_table E (codeAddress p)) (sy_store s) = None"
    and "he_unhex (xe_host E) (he_address (xe_host E)) \<noteq> None"
    and "he_unhex (xe_host E) (senderAddress p) \<noteq> None"
    and "\<And>msg. xe_machine E False (cp_data p) msg = VmReturn r"
  shows "execute E p s =
     (let t = contract_table E (codeAddress p);
          s1 = snd (sync_create_table (he_ops (xe_host E)) t STORAGE_VALUE s)
      in handle E None (andthen (parse_evmc_result E (clear_logs p) r s1)
           (deposit_code E t None (er_output r))))"
  using assms
  by (auto simp: execute_def prepare_create_def prepare_checked_def prepare_tables_def make_tables_def
      create_table_def Let_def go_create_def run_machine_def evmc_message_of_def new_host_def case_prod_unfold)

lemma jmem_creation_runs:
  "execute (jmem_env (\<lambda>hera code msg. VmReturn r)) creation jmem_state =
     (let E = jmem_env (\<lambda>hera code msg. VmReturn r); t = contract_table E (codeAddress creation);
          s1 = snd (sync_create_table (journal_ops mem_ops) t STORAGE_VALUE jmem_state)
      in handle E None (andthen (parse_evmc_result E (clear_logs creation) r s1)
           (deposit_code E t None (er_output r))))"
  using creation_runs [of creation "jmem_env (\<lambda>hera code msg. VmReturn r)" jmem_state r]
  by (simp add: creation_def Let_def)

text \<open>Rows that no other transaction has locked are written at once, whatever else is locked.\<close>

context host_rows begin

lemma set_row_unlocked:
  assumes "inv (sy_store s)" and "st_open (he_ops E) (sy_store s) t" and "t \<noteq> st_sys (he_ops E)"
    and "k \<notin> set (sy_exists s)"
  obtains s' where "set_row E t k v s = (Done (), s')" "inv (sy_store s')"
    "st_open (he_ops E) (sy_store s') t" "sy_exists s' = sy_exists s"
    "\<And>t' k'. cell s' t' k' = (if t' = t \<and> k' = k then Some v else cell s t' k')"
  using assms
  by (auto simp: set_row_def sync_set_row_def acquire_key_lock_def cell_def set_inv set_open set_row)

lemma set_code_unlocked:
  assumes "inv (sy_store s)" and "st_open (he_ops E) (sy_store s) t" and "t \<noteq> st_sys (he_ops E)"
    and "ACCOUNT_CODE_HASH \<notin> set (sy_exists s)" and "ACCOUNT_CODE \<notin> set (sy_exists s)"
  obtains s' where "set_code E t c s = (Done True, s')" "inv (sy_store s')"
    "st_open (he_ops E) (sy_store s') t" "sy_exists s' = sy_exists s"
    "\<And>t' k'. cell s' t' k' =
       (if t' = t \<and> k' = ACCOUNT_CODE then Some (bytes_text c)
        else if t' = t \<and> k' = ACCOUNT_CODE_HASH then Some (bytes_text (he_hash E c)) else cell s t' k')"
proof -
  obtain s1 where s1: "set_row E t ACCOUNT_CODE_HASH (bytes_text (he_hash E c)) s = (Done (), s1)"
      "inv (sy_store s1)" "st_open (he_ops E) (sy_store s1) t" "sy_exists s1 = sy_exists s"
      "\<And>t' k'. cell s1 t' k' = (if t' = t \<and> k' = ACCOUNT_CODE_HASH then Some (bytes_text (he_hash E c)) else cell s t' k')"
    by (rule set_row_unlocked [OF assms(1-4), of "bytes_text (he_hash E c)"]) blast
  have k: "ACCOUNT_CODE \<notin> set (sy_exists s1)" using assms(5) s1(4) by simp
  obtain s2 where s2: "set_row E t ACCOUNT_CODE (bytes_text c) s1 = (Done (), s2)"
      "inv (sy_store s2)" "st_open (he_ops E) (sy_store s2) t" "sy_exists s2 = sy_exists s1"
      "\<And>t' k'. cell s2 t' k' = (if t' = t \<and> k' = ACCOUNT_CODE then Some (bytes_text c) else cell s1 t' k')"
    by (rule set_row_unlocked [OF s1(2,3) assms(3) k, of "bytes_text c"]) blast
  have "set_code E t c s = (Done True, s2)"
    using s1(1) s2(1) assms(2) by (simp add: set_code_def sync_open_table_def)
  then show thesis using that [of s2] s2(2-5) s1(4,5) by simp
qed

end

text \<open>The machine leaves the host context as it is, but for the log entries and the refunds.\<close>

definition same_contract :: "host \<Rightarrow> host \<Rightarrow> bool" where
  "same_contract h h1 \<longleftrightarrow> hc_table h1 = hc_table h
     \<and> codeAddress (hc_params h1) = codeAddress (hc_params h) \<and> cp_create (hc_params h1) = cp_create (hc_params h)"

lemma same_contract_refl [simp]: "same_contract h h"
  by (simp add: same_contract_def)

lemma same_contract_trans: "same_contract h h1 \<Longrightarrow> same_contract h1 h2 \<Longrightarrow> same_contract h h2"
  by (simp add: same_contract_def)

lemma andthen_same:
  assumes "andthen r f = (y, h2, s2)" and "same_contract h (fst (snd r))"
    and "\<And>x h1 s1 y h2 s2. f x (h1, s1) = (y, h2, s2) \<Longrightarrow> same_contract h1 h2"
  shows "same_contract h h2"
proof -
  obtain x h1 s1 where r: "r = (x, h1, s1)" by (metis surj_pair)
  then show ?thesis
    using assms by (cases x) (auto intro: same_contract_trans)
qed

lemma same_contract_host:
  "same_contract h (fst (snd (keep_host h q)))"
  "same_contract h (fst (snd (with_host h (evm_set_storage H n v h s))))"
  "same_contract h (fst (snd (with_host h (wasm_set H k w h s))))"
  "same_contract h (fst (snd (with_host h (evm_call H m h s))))"
proof -
  have w: "same_contract h (fst (snd (with_host h r)))"
    if "\<And>x h1 t. r = (Done (x, h1), t) \<Longrightarrow> same_contract h h1" for r :: "('x \<times> host) outcome \<times> 'y"
    using that by (cases r; cases "fst r") (auto simp: with_host_def)
  show "same_contract h (fst (snd (keep_host h q)))" by (simp add: keep_host_def)
  show "same_contract h (fst (snd (with_host h (evm_set_storage H n v h s))))"
    by (rule w) (auto simp: evm_set_storage_def andthen_Done same_contract_def Let_def split: if_splits)
  show "same_contract h (fst (snd (with_host h (wasm_set H k w h s))))"
    by (rule w) (auto simp: wasm_set_def andthen_Done same_contract_def Let_def split: if_splits)
  show "same_contract h (fst (snd (with_host h (evm_call H m h s))))"
    by (rule w) (auto simp: evm_call_def no_except_def external_request_def call_builtin_def builtin_result_def same_contract_def
        Let_def case_prod_unfold split: if_splits option.splits outcome.splits prod.splits sum.splits exn.splits)
qed

lemma run_vm_same: "run_vm H m (h, s) = (r, h1, s1) \<Longrightarrow> same_contract h h1"
proof (induction m arbitrary: h s r h1 s1)
  case (VmLog ts d k)
  then have "same_contract (host_log H ts d h) h1" by simp
  then show ?case by (simp add: same_contract_def host_log_def)
next
  case (VmQuery q k)
  then show ?case using VmQuery.IH [OF rangeI] by (auto split: option.splits)
qed (auto elim!: andthen_same intro: same_contract_host, (metis rangeI)+)

lemma run_machine_same: "run_machine E w c x (h, s) = (r, h1, s1) \<Longrightarrow> same_contract h h1"
  unfolding run_machine_def by (cases "evmc_message_of E (hc_params h) x") (auto intro: run_vm_same)

text \<open>What \<open>create\<close> hands to the machine when all checks pass.\<close>

lemma prepare_create_host:
  assumes "prepare_create E p s = (Done (Enter h x), s0)"
  shows "hc_table h = contract_table E (codeAddress p)" "codeAddress (hc_params h) = codeAddress p"
    "cp_create (hc_params h) = cp_create p"
    "xe_wasm E \<Longrightarrow> \<exists>code params abi. xe_decode E (cp_data p) = Some (code, params, abi) \<and> x = Some (params, abi)"
proof -
  have tables: "h = new_host q (contract_table E (codeAddress q)) \<and> (xe_wasm E \<longrightarrow> x = y)"
    if "prepare_checked E y q t = (Done (Enter h x), s0)" for y q t
    using that by (auto simp: prepare_checked_def prepare_tables_def Let_def andthen_Done
        split: if_splits prod.splits outcome.splits)
  have "\<exists>y q t. prepare_checked E y q t = (Done (Enter h x), s0) \<and> codeAddress q = codeAddress p
      \<and> cp_create q = cp_create p
      \<and> (xe_wasm E \<longrightarrow> (\<exists>code params abi. xe_decode E (cp_data p) = Some (code, params, abi) \<and> y = Some (params, abi)))"
    using assms
    by (fastforce simp: prepare_create_def wasm_code_def andthen_Done split: if_splits option.splits)
  then obtain y q t where q: "prepare_checked E y q t = (Done (Enter h x), s0)" "codeAddress q = codeAddress p"
      "cp_create q = cp_create p"
      "xe_wasm E \<Longrightarrow> \<exists>code params abi. xe_decode E (cp_data p) = Some (code, params, abi) \<and> y = Some (params, abi)"
    by blast
  show "hc_table h = contract_table E (codeAddress p)" "codeAddress (hc_params h) = codeAddress p"
    "cp_create (hc_params h) = cp_create p"
    using tables [OF q(1)] q(2,3) by (simp_all add: new_host_def)
  show "\<exists>code params abi. xe_decode E (cp_data p) = Some (code, params, abi) \<and> x = Some (params, abi)"
    if "xe_wasm E" using tables [OF q(1)] q(4) that by auto
qed

text \<open>Storing the code at the end of a creation.\<close>

lemma deposit_code_stores:
  assumes T: "table_storage (he_ops (xe_host E)) I" and inv1: "I (sy_store s1)"
    and sys: "t \<noteq> st_sys (he_ops (xe_host E))"
    and free: "{ACCOUNT_CODE_HASH, ACCOUNT_CODE, ACCOUNT_ABI} \<inter> set (sy_exists s1) = {}"
    and abi: "xe_wasm E \<Longrightarrow> \<exists>params ab. x = Some (params, ab) \<and> ab' = Some ab"
    and deposit: "deposit_code E t x out p1 s1 = andthen
        (if xe_wasm E then (case x of None \<Rightarrow> (Undefined, s1) | Some (_, abi) \<Rightarrow> set_code_and_abi (xe_host E) t out abi s1)
         else andthen (set_code (xe_host E) t out s1) (\<lambda>_ s1. (Done (), s1)))
        (\<lambda>_ s1. (Done q, s1))"
  shows "\<exists>s'. deposit_code E t x out p1 s1 = (Done q, s') \<and>
    (if st_open (he_ops (xe_host E)) (sy_store s1) t
     then \<forall>t' k. row (he_ops (xe_host E)) (sy_store s') t' k =
       (if t' = t \<and> k = ACCOUNT_CODE then Some (bytes_text out)
        else if t' = t \<and> k = ACCOUNT_CODE_HASH then Some (bytes_text (he_hash (xe_host E) out))
        else if t' = t \<and> k = ACCOUNT_ABI \<and> xe_wasm E then ab'
        else row (he_ops (xe_host E)) (sy_store s1) t' k)
     else s' = s1)"
proof (cases "st_open (he_ops (xe_host E)) (sy_store s1) t")
  case False
  then have no: "set_code (xe_host E) t out s1 = (Done False, s1)"
    by (simp add: set_code_def sync_open_table_def)
  show ?thesis
    using abi False by (cases "xe_wasm E") (auto simp: deposit set_code_and_abi_def no)
next
  case True
  have H: "host_rows (xe_host E) I" by (simp add: host_rows_def T)
  obtain s2 where s2: "set_code (xe_host E) t out s1 = (Done True, s2)" "I (sy_store s2)"
      "st_open (he_ops (xe_host E)) (sy_store s2) t" "sy_exists s2 = sy_exists s1"
      "\<And>t' k'. host_rows.cell (xe_host E) s2 t' k' =
        (if t' = t \<and> k' = ACCOUNT_CODE then Some (bytes_text out)
         else if t' = t \<and> k' = ACCOUNT_CODE_HASH then Some (bytes_text (he_hash (xe_host E) out))
         else host_rows.cell (xe_host E) s1 t' k')"
    by (rule host_rows.set_code_unlocked [OF H inv1 True sys, of out]) (use free in auto)
  note rows2 = s2(5) [unfolded host_rows.cell_def [OF H]]
  show ?thesis
  proof (cases "xe_wasm E")
    case False
    then show ?thesis using True s2(1) rows2 by (simp add: deposit)
  next
    case wasm: True
    obtain params ab where x: "x = Some (params, ab)" "ab' = Some ab" using abi [OF wasm] by blast
    obtain s3 where s3: "set_row (xe_host E) t ACCOUNT_ABI ab s2 = (Done (), s3)"
        "\<And>t' k'. host_rows.cell (xe_host E) s3 t' k' =
          (if t' = t \<and> k' = ACCOUNT_ABI then Some ab else host_rows.cell (xe_host E) s2 t' k')"
      by (rule host_rows.set_row_unlocked [OF H s2(2,3) sys, of ACCOUNT_ABI ab]) (use free s2(4) in auto)
    note rows3 = s3(2) [unfolded host_rows.cell_def [OF H]]
    have "deposit_code E t x out p1 s1 = (Done q, s3)"
      unfolding deposit using wasm by (simp add: x(1) set_code_and_abi_def s2(1) s3(1))
    then show ?thesis using True wasm rows2 rows3 x(2) by (auto simp: account_keys)
  qed
qed

section \<open>Properties\<close>

text \<open>C19: An answer is either finished with status \<open>None\<close> or reverted with another status; no other
  combination leaves the executive, whatever the machine and the environment do.\<close>
theorem answers_well_typed:
  assumes "numbers_ok E" and "exec_start E p st = (Done q, s')"
  shows "cp_type q \<in> {CP_FINISHED, CP_REVERT}
    \<and> (cp_type q = CP_FINISHED \<longleftrightarrow> cp_status q = xe_status E StNone) \<and> cp_keyLocks q = []"
proof -
  obtain q' s where q': "execute E p s = (Done q', s')" "q = q'\<lparr>cp_keyLocks := []\<rparr>"
    using assms(2) by (auto simp: exec_start_def andthen_Done Let_def)
  then obtain r s1 where r: "(if cp_create p then prepare_create E p s else prepare_call E p s) = (Done r, s1)"
      "(case r of Answer q \<Rightarrow> (Done q, s1)
       | Enter h x \<Rightarrow> if cp_create (hc_params h) then go_create E h x s1 else go_call E h s1) = (Done q', s')"
    by (auto simp: execute_def andthen_Done)
  have "answer_ok E q'"
  proof (cases r)
    case (Answer a)
    then show ?thesis using r prepare_ok [OF assms(1)] by (auto split: if_splits)
  next
    case (Enter h x)
    then show ?thesis using r(2) go_ok [OF assms(1)] by (auto split: if_splits)
  qed
  then show ?thesis using q'(2) by (auto simp: answer_ok_def)
qed

theorem answers_well_typed_witness:
  "\<exists>q s'. exec_start (jmem_env (deployer 10)) creation (mem_empty, mem_empty) = (Done q, s')
    \<and> cp_type q = CP_REVERT \<and> cp_status q \<noteq> 0"
proof -
  let ?E = "jmem_env (\<lambda>hera code msg. VmReturn (zero_result\<lparr>er_gas := 10, er_output := [7]\<rparr>))"
  have "deployer 10 = (\<lambda>hera code msg. VmReturn (zero_result\<lparr>er_gas := 10, er_output := [7]\<rparr>))"
    by (intro ext) (simp add: deployer_def)
  then have E: "jmem_env (deployer 10) = ?E" by simp
  have "\<exists>q s'. execute ?E creation jmem_state = (Done q, s') \<and> cp_type q = CP_REVERT"
    using jmem_creation_runs [of "zero_result\<lparr>er_gas := 10, er_output := [7]\<rparr>"]
    by (simp add: Let_def parse_evmc_result_def zero_result_def deposit_code_def reverted_def
        handle_def maxCodeSize_def createDataGas_def exceptionalFailedCodeDeposit_def creation_def clear_logs_def
        new_call_parameters_def)
  then obtain q s' where run: "exec_start ?E creation (mem_empty, mem_empty) = (Done q, s')" "cp_type q = CP_REVERT"
    by (auto simp: exec_start_def Let_def creation_def new_call_parameters_def jmem_state_def)
  then show ?thesis
    using answers_well_typed [OF jmem_numbers run(1)] by (auto simp: E)
qed

text \<open>C9: A reverted call leaves nothing of its own in the storage: every row is as it is without
  the writes of this executive.  The exceptions are answers \<open>OutOfGas\<close> of a creation or of a
  precompiled contract, where the code returns without a rollback.\<close>
theorem reverted_call_leaves_nothing:
  assumes "executive E I base foreign" and "numbers_ok E" and "I (sy_store s)"
    and "\<forall>t k. row (he_ops (xe_host E)) (sy_store s) t k = base (sy_store s) t k"
    and "execute E p s = (Done q, s')"
  shows "foreign (base (sy_store s)) (base (sy_store s')) \<and>
    (cp_type q = CP_REVERT \<longrightarrow>
       (\<forall>t k. row (he_ops (xe_host E)) (sy_store s') t k = base (sy_store s') t k)
     \<or> cp_status q = xe_status E StOutOfGas \<and> (cp_create p \<or> is_precompiled E (codeAddress p)))"
proof -
  have R: "recorded (he_ops (xe_host E)) I base (xe_rollback E)"
    using assms(1) by (rule executive.axioms)
  have "recorded.clean (he_ops (xe_host E)) base (sy_store s)"
    using assms(4) by (simp add: recorded.clean_def [OF R])
  from executive.execute_clean [OF assms(1,3) this assms(2,5)]
  have "cp_type q = CP_REVERT \<longrightarrow> recorded.clean (he_ops (xe_host E)) base (sy_store s')
      \<or> cp_status q = xe_status E StOutOfGas \<and> (cp_create p \<or> is_precompiled E (codeAddress p))"
    by blast
  moreover have "foreign (base (sy_store s)) (base (sy_store s'))"
    using executive.execute_moved [OF assms(1), of s p] assms(3,5)
    by (simp add: executive.moves_def [OF assms(1)])
  ultimately show ?thesis by (simp add: recorded.clean_def [OF R])
qed

theorem reverted_call_leaves_nothing_witness:
  "\<exists>q s'. execute (jmem_env (\<lambda>hera code msg. VmReturn (zero_result\<lparr>er_status := EVMC_REVERT\<rparr>)))
      creation jmem_state = (Done q, s')
    \<and> cp_type q = CP_REVERT \<and> (\<forall>t k. row mem_ops (fst (sy_store s')) t k = row mem_ops mem_empty t k)"
proof -
  let ?E = "jmem_env (\<lambda>hera code msg. VmReturn (zero_result\<lparr>er_status := EVMC_REVERT\<rparr>))"
  obtain q s' where run: "execute ?E creation jmem_state = (Done q, s')"
      "cp_type q = CP_REVERT" "cp_status q = 1"
    using jmem_creation_runs [of "zero_result\<lparr>er_status := EVMC_REVERT\<rparr>"]
    by (auto simp: Let_def parse_evmc_result_def zero_result_def deposit_code_def reverted_def
        handle_def jmem_host_def)
  have "\<forall>t k. row (he_ops (xe_host ?E)) (sy_store jmem_state) t k = journal_base mem_ops (sy_store jmem_state) t k"
    by (simp add: jmem_state_def journal_base_def)
  from reverted_call_leaves_nothing [OF jmem.executive_axioms jmem_numbers TrueI this run(1)]
  have "journal_base mem_ops (sy_store jmem_state) = journal_base mem_ops (sy_store s')"
    "\<forall>t k. row (journal_ops mem_ops) (sy_store s') t k = journal_base mem_ops (sy_store s') t k"
    using run(2,3) by simp_all
  then have "\<forall>t k. row mem_ops (fst (sy_store s')) t k = row mem_ops mem_empty t k"
    by (cases "sy_store s'") (simp add: journal_base_def jmem_state_def fun_eq_iff)
  then show ?thesis using run by blast
qed

text \<open>C25: The end of a creation, on the EVM and for wasm, with permission checks or without.  Let the checks
  pass and the tables be made, and let the machine, after any calls into the host, return with success,
  while no other transaction holds the lock of one of the rows with the code, its hash and the ABI.  If
  the code is longer than 256 KiB or its deposit of 20 gas per byte exceeds the gas left, the answer is
  reverted with \<open>OutOfGas\<close>, but nothing is rolled back: the storage, new tables included, is as the
  machine left it.  Empty code on the EVM is reverted and rolled back.  Otherwise the call finishes with
  the new address and the gas less the deposit; if the contract's table is still there, its rows get
  exactly the code, its hash and (for wasm) the ABI that was sent, and no other row changes.\<close>
theorem creation_deposits_code:
  assumes "executive E I base foreign" and "numbers_ok E" and "I (sy_store s)" and "cp_create p"
    and "prepare_create E p s = (Done (Enter h x), s0)"
    and "run_machine E (xe_wasm E) (cp_data (hc_params h)) x (h, s0) = (Done r, h1, s1)"
    and "er_status r = EVMC_SUCCESS"
    and "{ACCOUNT_CODE_HASH, ACCOUNT_CODE, ACCOUNT_ABI} \<inter> set (sy_exists s1) = {}"
  shows "\<exists>q s'. execute E p s = (Done q, s') \<and>
    (let out = er_output r; cost = int (length out) * 20; t = contract_table E (codeAddress p);
         rows = (\<lambda>w. row (he_ops (xe_host E)) (sy_store w))
     in if 262144 < length out \<or> er_gas r < cost
        then cp_type q = CP_REVERT \<and> cp_status q = xe_status E StOutOfGas \<and> s' = s1
        else if out = [] \<and> \<not> xe_wasm E
        then cp_type q = CP_REVERT \<and> cp_status q = xe_status E StUnknown \<and> s' = revert E s1
        else cp_type q = CP_FINISHED \<and> cp_gas q = er_gas r - cost \<and> \<not> cp_create q \<and> cp_data q = []
          \<and> cp_newEVMContractAddress q = codeAddress p
          \<and> (if st_open (he_ops (xe_host E)) (sy_store s1) t
             then \<forall>t' k. rows s' t' k =
               (if t' = t \<and> k = ACCOUNT_CODE then Some (bytes_text out)
                else if t' = t \<and> k = ACCOUNT_CODE_HASH then Some (bytes_text (he_hash (xe_host E) out))
                else if t' = t \<and> k = ACCOUNT_ABI \<and> xe_wasm E
                then map_option (snd \<circ> snd) (xe_decode E (cp_data p))
                else rows s1 t' k)
             else s' = s1))"
proof -
  let ?ops = "he_ops (xe_host E)" and ?out = "er_output r" and ?t = "contract_table E (codeAddress p)"
  define p1 where "p1 = (clear_logs (hc_params h1))\<lparr>cp_type := CP_FINISHED, cp_status := xe_success E, cp_gas := er_gas r\<rparr>"
  define q where "q = p1\<lparr>cp_gas := er_gas r - int (length ?out * createDataGas),
    cp_newEVMContractAddress := codeAddress p, cp_create := False, cp_data := []\<rparr>"
  note host = prepare_create_host [OF assms(5)]
  have h1: "hc_table h1 = ?t" "codeAddress (hc_params h1) = codeAddress p" "cp_create (hc_params h1)"
    using run_machine_same [OF assms(6)] host(1-3) assms(4) by (simp_all add: same_contract_def)
  have p1: "cp_status p1 = xe_status E StNone" "cp_gas p1 = er_gas r" "codeAddress p1 = codeAddress p" "cp_type p1 = CP_FINISHED"
    using assms(2) h1(2) by (simp_all add: p1_def numbers_ok_def clear_logs_def)
  have run: "execute E p s = handle E None (deposit_code E ?t x ?out p1 s1)"
    using assms(4-7) host(3) h1
    by (simp add: execute_def go_create_def parse_evmc_result_def p1_def clear_logs_def)
  note dep = deposit_code_def maxCodeSize_def createDataGas_def exceptionalFailedCodeDeposit_def handle_def reverted_def
  consider (gas) "262144 < length ?out \<or> er_gas r < int (length ?out) * 20"
    | (empty) "\<not> (262144 < length ?out \<or> er_gas r < int (length ?out) * 20)" "?out = []" "\<not> xe_wasm E"
    | (ok) "\<not> (262144 < length ?out \<or> er_gas r < int (length ?out) * 20)" "\<not> (?out = [] \<and> \<not> xe_wasm E)"
    by blast
  then show ?thesis
  proof cases
    case gas
    then show ?thesis using p1 by (cases "262144 < length ?out") (simp_all add: run dep Let_def)
  next
    case empty
    then show ?thesis using p1 by (simp add: run dep Let_def)
  next
    case ok
    then have deposit: "deposit_code E ?t x ?out p1 s1 = andthen
        (if xe_wasm E then (case x of None \<Rightarrow> (Undefined, s1) | Some (_, abi) \<Rightarrow> set_code_and_abi (xe_host E) ?t ?out abi s1)
         else andthen (set_code (xe_host E) ?t ?out s1) (\<lambda>_ s1. (Done (), s1)))
        (\<lambda>_ s1. (Done q, s1))"
      using p1 by (auto simp: deposit_code_def maxCodeSize_def createDataGas_def q_def)
    have fin: "cp_type q = CP_FINISHED \<and> cp_gas q = er_gas r - int (length ?out) * 20 \<and> \<not> cp_create q
        \<and> cp_data q = [] \<and> cp_newEVMContractAddress q = codeAddress p"
      using p1(4) by (simp add: q_def createDataGas_def)
    have T: "table_storage ?ops I"
      using assms(1) by (simp add: executive_def recorded_def)
    have inv1: "I (sy_store s1)"
    proof -
      have "I (sy_store s0)"
        using executive.prepare_create_moved [OF assms(1), of s p] assms(3,5)
        by (simp add: executive.moves_def [OF assms(1)])
      then show ?thesis by (rule executive.machine_inv [OF assms(1) _ assms(6)])
    qed
    have sys: "?t \<noteq> st_sys ?ops"
      using table_storage.path_not_sys [OF T] by (simp add: contract_table_def Let_def)
    have abi: "\<exists>params ab. x = Some (params, ab) \<and> map_option (snd \<circ> snd) (xe_decode E (cp_data p)) = Some ab"
      if "xe_wasm E" using host(4) [OF that] by auto
    obtain s' where s': "deposit_code E ?t x ?out p1 s1 = (Done q, s')"
        "if st_open ?ops (sy_store s1) ?t
         then \<forall>t' k. row ?ops (sy_store s') t' k =
           (if t' = ?t \<and> k = ACCOUNT_CODE then Some (bytes_text ?out)
            else if t' = ?t \<and> k = ACCOUNT_CODE_HASH then Some (bytes_text (he_hash (xe_host E) ?out))
            else if t' = ?t \<and> k = ACCOUNT_ABI \<and> xe_wasm E then map_option (snd \<circ> snd) (xe_decode E (cp_data p))
            else row ?ops (sy_store s1) t' k)
         else s' = s1"
      using deposit_code_stores [OF T inv1 sys assms(8) abi deposit] by blast
    have "execute E p s = (Done q, s')" by (simp add: run handle_def s'(1))
    then show ?thesis
      using s'(2) fin
      by (intro exI [of _ q] exI [of _ s']) (simp only: Let_def ok if_False simp_thms)
  qed
qed

text \<open>A constructor that writes a slot and returns one byte of code, with gas for it and without.\<close>

definition storing_deployer :: "int \<Rightarrow> bool \<Rightarrow> bytes \<Rightarrow> vm_message \<Rightarrow> vm" where
  "storing_deployer gas hera code msg =
     VmSetStorage 1 2 (\<lambda>_. VmReturn (zero_result\<lparr>er_gas := gas, er_output := [7]\<rparr>))"

interpretation jmem_rows: host_rows jmem_host "\<lambda>_. True"
  using jmem.table_storage_axioms by (simp add: host_rows_def)

lemma storing_creation:
  "\<exists>s0 h1 s1. prepare_create (jmem_env (storing_deployer g)) creation jmem_state
      = (Done (Enter (new_host creation ''/apps/a'') None), s0)
    \<and> run_machine (jmem_env (storing_deployer g)) False [1] None (new_host creation ''/apps/a'', s0)
      = (Done (zero_result\<lparr>er_gas := g, er_output := [7]\<rparr>), h1, s1)
    \<and> sy_exists s1 = [] \<and> st_open (journal_ops mem_ops) (sy_store s1) ''/apps/a''"
proof -
  let ?h = "new_host creation ''/apps/a''"
  have t: "contract_table (jmem_env (storing_deployer g)) ''a'' = ''/apps/a''"
    by (simp add: contract_table_def Let_def lower_char_def)
  define s0 where "s0 = snd (sync_create_table (journal_ops mem_ops) ''/apps/a'' STORAGE_VALUE jmem_state)"
  have prep: "prepare_create (jmem_env (storing_deployer g)) creation jmem_state = (Done (Enter ?h None), s0)"
    by (simp add: prepare_create_def prepare_checked_def prepare_tables_def make_tables_def create_table_def
        Let_def creation_def t s0_def case_prod_unfold)
  have free: "jmem_rows.free (hc_table ?h) s0"
    by (simp add: jmem_rows.free_def s0_def sync_create_table_def jmem_state_def mem_empty_def mem_sys_def new_host_def
        case_prod_unfold Let_def)
  obtain st h1 s1 where s1: "evm_set_storage jmem_host 1 2 ?h s0 = (Done (st, h1), s1)" "jmem_rows.free ''/apps/a'' s1"
    by (rule jmem_rows.set_storage_free [OF free, of "''/apps/a''" 1 2]) (simp_all add: new_host_def)
  have "run_machine (jmem_env (storing_deployer g)) False [1] None (?h, s0)
      = (Done (zero_result\<lparr>er_gas := g, er_output := [7]\<rparr>), h1, s1)"
    by (simp add: run_machine_def evmc_message_of_def Let_def storing_deployer_def s1(1))
  then show ?thesis using prep s1(2) by (auto simp: jmem_rows.free_def)
qed

theorem creation_deposits_code_witness:
  "(\<exists>q s'. execute (jmem_env (storing_deployer 30)) creation jmem_state = (Done q, s')
      \<and> cp_type q = CP_FINISHED \<and> cp_gas q = 10
      \<and> row mem_ops (fst (sy_store s')) ''/apps/a'' ACCOUNT_CODE = Some (bytes_text [7]))
   \<and> (\<exists>q s'. execute (jmem_env (storing_deployer 10)) creation jmem_state = (Done q, s')
      \<and> cp_type q = CP_REVERT \<and> st_open mem_ops (fst (sy_store s')) ''/apps/a'')"
proof -
  let ?E = "\<lambda>g. jmem_env (storing_deployer g)" and ?r = "\<lambda>g. zero_result\<lparr>er_gas := g, er_output := [7]\<rparr>"
  have t: "contract_table (?E g) (codeAddress creation) = ''/apps/a''" for g
    by (simp add: creation_def contract_table_def Let_def lower_char_def)
  have side: "cp_create creation" "cp_data (hc_params (new_host creation ''/apps/a'')) = [1]"
    by (simp_all add: creation_def new_host_def)
  have J: "row (journal_ops mem_ops) w = row mem_ops (fst w)"
      "st_open (journal_ops mem_ops) w u = st_open mem_ops (fst w) u" for w :: jmem and u
    by (cases w; simp add: fun_eq_iff)+
  have run: "\<exists>q s' s1. execute (?E g) creation jmem_state = (Done q, s') \<and> st_open mem_ops (fst (sy_store s1)) ''/apps/a'' \<and>
      (if g < 20 then cp_type q = CP_REVERT \<and> s' = s1
       else cp_type q = CP_FINISHED \<and> cp_gas q = g - 20
         \<and> row mem_ops (fst (sy_store s')) ''/apps/a'' ACCOUNT_CODE = Some (bytes_text [7]))" for g
  proof -
    obtain s0 h1 s1 where s: "prepare_create (?E g) creation jmem_state = (Done (Enter (new_host creation ''/apps/a'') None), s0)"
        "run_machine (?E g) (xe_wasm (?E g)) (cp_data (hc_params (new_host creation ''/apps/a''))) None
           (new_host creation ''/apps/a'', s0) = (Done (?r g), h1, s1)"
        "sy_exists s1 = []" "st_open (journal_ops mem_ops) (sy_store s1) ''/apps/a''"
      using storing_creation [of g] side(2) by auto
    have "er_status (?r g) = EVMC_SUCCESS" "{ACCOUNT_CODE_HASH, ACCOUNT_CODE, ACCOUNT_ABI} \<inter> set (sy_exists s1) = {}"
      using s(3) by (simp_all add: zero_result_def)
    from creation_deposits_code [OF jmem.executive_axioms jmem_numbers TrueI side(1) s(1,2) this]
    obtain q s' where q: "execute (?E g) creation jmem_state = (Done q, s')"
        "if g < 20 then cp_type q = CP_REVERT \<and> s' = s1
         else cp_type q = CP_FINISHED \<and> cp_gas q = g - 20
           \<and> (\<forall>t' k. row mem_ops (fst (sy_store s')) t' k = (if t' = ''/apps/a'' \<and> k = ACCOUNT_CODE
                then Some (bytes_text [7]) else row mem_ops (fst (sy_store s')) t' k))"
      using s(4) by (cases "g < 20") (auto simp: Let_def t J zero_result_def)
    then show ?thesis using s(4) by (intro exI [of _ q] exI [of _ s'] exI [of _ s1]) (auto simp: J split: if_splits)
  qed
  show ?thesis using run [of 30] run [of 10] by auto
qed

text \<open>When the machine ends with an internal error, or with a status the executive does not
  know, the handlers dereference the parameters that were already taken: neither the intended
  exit nor an \<open>OutOfGas\<close> answer is reached.  This holds for creations and for calls.\<close>
theorem machine_error_undefined:
  assumes "er_status r = EVMC_INTERNAL_ERROR \<or> er_status r = EVMC_OTHER b"
    and "run_machine E k code x (h, s) = (Done r, h1, s1)"
    and "if cp_create (hc_params h) then k = xe_wasm E \<and> code = cp_data (hc_params h) \<and> s0 = s
         else host_code (xe_host E) (hc_table h) s0 = (Done code, s) \<and> code \<noteq> [] \<and> x = None
           \<and> k = has_wasm_preamble code"
  shows "(if cp_create (hc_params h) then go_create E h x s0 else go_call E h s0) = (Undefined, revert E s1)"
proof -
  have "handle E None (andthen (parse_evmc_result E p r s1) f) = (Undefined, revert E s1)" for p f
    using assms(1) by (auto simp: parse_evmc_result_def Let_def handle_def go_catch_def)
  then show ?thesis
    using assms(2,3) by (auto simp: go_create_def go_call_def handle_def [of E "Some (hc_params h)"])
qed

theorem machine_error_undefined_witness:
  "fst (go_create (jmem_env (\<lambda>hera code msg. VmReturn (zero_result\<lparr>er_status := EVMC_INTERNAL_ERROR\<rparr>)))
     (new_host creation ''/apps/a'') None jmem_state) = Undefined"
proof -
  let ?E = "jmem_env (\<lambda>hera code msg. VmReturn (zero_result\<lparr>er_status := EVMC_INTERNAL_ERROR\<rparr>))"
  have "run_machine ?E False [1] None (new_host creation ''/apps/a'', jmem_state) =
      (Done (zero_result\<lparr>er_status := EVMC_INTERNAL_ERROR\<rparr>), new_host creation ''/apps/a'', jmem_state)"
    by (simp add: run_machine_def evmc_message_of_def new_host_def Let_def)
  from machine_error_undefined [OF _ this, of False jmem_state]
  show ?thesis by (simp add: new_host_def creation_def)
qed

end
