(* ===== verification/StateChain.thy ===== *)
theory StateChain imports Prelude begin

text \<open>
  The chain of uncommitted block states of \<open>src/executor/TransactionExecutor.cpp\<close>:
  \<open>nextBlockHeader\<close>, \<open>getHash\<close>, \<open>prepare\<close>, \<open>commit\<close>, \<open>rollback\<close>, \<open>reset\<close> and
  \<open>removeCommittedState\<close>.  A state storage keeps the rows written in its block and reads the
  others from its predecessor; storages are shared, so they live in a heap and the list
  \<open>m_stateStorages\<close> holds their identities.  The cached storage is kept as its content; the
  transactional backend is a parameter.

  \<open>ChNull\<close> is the callback without error, \<open>ChError\<close> one with its error code.
\<close>

section \<open>State\<close>

type_synonym row_key = "string \<times> string"
type_synonym content = "row_key \<Rightarrow> string option"
type_synonym delta = "row_key \<rightharpoonup> string option"

datatype prev_ref = PrevCached | PrevBackend | PrevState nat

record layer =
  ly_rows :: delta
  ly_prev :: prev_ref
  ly_readonly :: bool

record block_context =
  bc_number :: int
  bc_storage :: nat
  bc_last :: "nat option"

record 'b chain =
  ch_states :: "(int \<times> nat) list"
  ch_heap :: "nat \<Rightarrow> layer option"
  ch_fresh :: nat
  ch_cached :: "content option"
  ch_backend :: 'b
  ch_last :: "nat option"
  ch_context :: "block_context option"
  ch_committed :: int

text \<open>The transactional storage; the flag of an operation says that it succeeded.\<close>

record 'b backend =
  be_prepare :: "int \<Rightarrow> delta \<Rightarrow> 'b \<Rightarrow> bool \<times> 'b"
  be_commit :: "int \<Rightarrow> 'b \<Rightarrow> bool \<times> 'b"
  be_rollback :: "int \<Rightarrow> 'b \<Rightarrow> bool \<times> 'b"
  be_read :: "'b \<Rightarrow> content"

datatype chain_answer = ChNull | ChError int

definition INVALID_BLOCKNUMBER :: int where "INVALID_BLOCKNUMBER = -80000 + 1"
definition GETHASH_ERROR :: int where "GETHASH_ERROR = -80000 + 2"
definition EXECUTE_ERROR :: int where "EXECUTE_ERROR = -80000 + 4"
definition PREPARE_ERROR :: int where "PREPARE_ERROR = -80000 + 5"
definition COMMIT_ERROR :: int where "COMMIT_ERROR = -80000 + 6"
definition ROLLBACK_ERROR :: int where "ROLLBACK_ERROR = -80000 + 7"

definition new_chain :: "content option \<Rightarrow> 'b \<Rightarrow> 'b chain" where
  "new_chain c b = \<lparr>ch_states = [], ch_heap = Map.empty, ch_fresh = 0, ch_cached = c, ch_backend = b,
     ch_last = None, ch_context = None, ch_committed = 1\<rparr>"

section \<open>Reading\<close>

definition overlay :: "delta \<Rightarrow> content \<Rightarrow> content" where
  "overlay d c = (\<lambda>k. case d k of Some v \<Rightarrow> v | None \<Rightarrow> c k)"

definition base_ref :: "'b chain \<Rightarrow> prev_ref" where
  "base_ref x = (if ch_cached x \<noteq> None then PrevCached else PrevBackend)"

text \<open>The rows a state storage shows.  A predecessor is always older, so the recursion goes down.\<close>

function view :: "'b backend \<Rightarrow> 'b chain \<Rightarrow> nat \<Rightarrow> content" where
  "view B x i k =
     (case ch_heap x i of
        None \<Rightarrow> None
      | Some l \<Rightarrow>
          (case ly_rows l k of
             Some v \<Rightarrow> v
           | None \<Rightarrow>
               (case ly_prev l of
                  PrevCached \<Rightarrow> (case ch_cached x of Some c \<Rightarrow> c k | None \<Rightarrow> None)
                | PrevBackend \<Rightarrow> be_read B (ch_backend x) k
                | PrevState j \<Rightarrow> if j < i then view B x j k else None)))"
  by pat_completeness auto
termination by (relation "measure (\<lambda>(B, x, i, k). i)") auto

declare view.simps [simp del]

section \<open>Operations\<close>

definition set_layer :: "(layer \<Rightarrow> layer) \<Rightarrow> nat \<Rightarrow> 'b chain \<Rightarrow> 'b chain" where
  "set_layer f i x = x\<lparr>ch_heap := (ch_heap x)(i := map_option f (ch_heap x i))\<rparr>"

definition add_block :: "int \<Rightarrow> prev_ref \<Rightarrow> nat option \<Rightarrow> 'b chain \<Rightarrow> 'b chain" where
  "add_block n prev last_storage x =
     x\<lparr>ch_heap := (ch_heap x)(ch_fresh x \<mapsto>
          \<lparr>ly_rows = Map.empty, ly_prev = prev, ly_readonly = False\<rparr>),
       ch_fresh := ch_fresh x + 1,
       ch_states := ch_states x @ [(n, ch_fresh x)],
       ch_context := Some \<lparr>bc_number = n, bc_storage = ch_fresh x, bc_last = last_storage\<rparr>\<rparr>"

definition next_block_header :: "int \<Rightarrow> 'b chain \<Rightarrow> chain_answer \<times> 'b chain" where
  "next_block_header n x =
     (if ch_states x = [] then (ChNull, add_block n (base_ref x) (ch_last x) x)
      else
        (let (m, j) = last (ch_states x) in
         if n - m \<noteq> 1 then (ChError EXECUTE_ERROR, x)
         else (ChNull, add_block n (PrevState j) (Some j) (set_layer (\<lambda>l. l\<lparr>ly_readonly := True\<rparr>) j x))))"

text \<open>A row written by a transaction of the current block.\<close>

definition write_row :: "row_key \<Rightarrow> string option \<Rightarrow> 'b chain \<Rightarrow> 'b chain" where
  "write_row k v x =
     (case ch_context x of
        None \<Rightarrow> x
      | Some c \<Rightarrow>
          set_layer (\<lambda>l. if ly_readonly l then l else l\<lparr>ly_rows := (ly_rows l)(k \<mapsto> v)\<rparr>) (bc_storage c) x)"

definition get_hash :: "(delta \<Rightarrow> bytes) \<Rightarrow> int \<Rightarrow> 'b chain \<Rightarrow> chain_answer \<times> bytes" where
  "get_hash H n x =
     (if ch_states x = [] then (ChError GETHASH_ERROR, [])
      else if fst (last (ch_states x)) \<noteq> n then (ChError GETHASH_ERROR, [])
      else (case ch_heap x (snd (last (ch_states x))) of
              None \<Rightarrow> (ChError GETHASH_ERROR, [])
            | Some l \<Rightarrow> (ChNull, H (ly_rows l))))"

definition rows_of :: "'b chain \<Rightarrow> nat \<Rightarrow> delta" where
  "rows_of x i = (case ch_heap x i of Some l \<Rightarrow> ly_rows l | None \<Rightarrow> Map.empty)"

definition chain_prepare :: "'b backend \<Rightarrow> int \<Rightarrow> 'b chain \<Rightarrow> chain_answer \<times> 'b chain" where
  "chain_prepare B n x =
     (case ch_states x of
        [] \<Rightarrow> (ChError (-1), x)
      | (m, i) # _ \<Rightarrow>
          (if m \<noteq> n then (ChError PREPARE_ERROR, x)
           else (let (ok, b) = be_prepare B n (rows_of x i) (ch_backend x); x1 = x\<lparr>ch_backend := b\<rparr>
                 in (if ok then ChNull else ChError PREPARE_ERROR, x1))))"

definition remove_committed_state :: "'b chain \<Rightarrow> 'b chain" where
  "remove_committed_state x =
     (case ch_states x of
        [] \<Rightarrow> x
      | (m, i) # rest \<Rightarrow>
          (let x1 = (case ch_cached x of
                       Some c \<Rightarrow> x\<lparr>ch_cached := Some (overlay (rows_of x i) c)\<rparr>
                     | None \<Rightarrow> x);
               x2 = x1\<lparr>ch_last := Some (snd (last (ch_states x))), ch_states := rest\<rparr>
           in case rest of
             [] \<Rightarrow> x2
           | (m', j) # _ \<Rightarrow> set_layer (\<lambda>l. l\<lparr>ly_prev := base_ref x\<rparr>) j x2))"

definition chain_commit :: "'b backend \<Rightarrow> int \<Rightarrow> 'b chain \<Rightarrow> chain_answer \<times> 'b chain" where
  "chain_commit B n x =
     (case ch_states x of
        [] \<Rightarrow> (ChError INVALID_BLOCKNUMBER, x)
      | (m, i) # _ \<Rightarrow>
          (if m \<noteq> n then (ChError INVALID_BLOCKNUMBER, x)
           else (let (ok, b) = be_commit B n (ch_backend x); x1 = x\<lparr>ch_backend := b\<rparr>
                 in if ok then (ChNull, remove_committed_state (x1\<lparr>ch_committed := n\<rparr>))
                    else (ChError COMMIT_ERROR, x1))))"

definition chain_rollback :: "'b backend \<Rightarrow> int \<Rightarrow> 'b chain \<Rightarrow> chain_answer \<times> 'b chain" where
  "chain_rollback B n x =
     (case ch_states x of
        [] \<Rightarrow> (ChError (-1), x)
      | (m, i) # _ \<Rightarrow>
          (if m \<noteq> n then (ChError ROLLBACK_ERROR, x)
           else (let (ok, b) = be_rollback B n (ch_backend x); x1 = x\<lparr>ch_backend := b\<rparr>
                 in (if ok then ChNull else ChError (-1), x1))))"

definition chain_reset :: "'b chain \<Rightarrow> chain_answer \<times> 'b chain" where
  "chain_reset x = (ChNull, x\<lparr>ch_states := []\<rparr>)"

section \<open>Runs\<close>

datatype chain_op =
    OpHeader int | OpWrite row_key "string option" | OpPrepare int | OpCommit int | OpRollback int
  | OpReset

fun chain_run :: "'b backend \<Rightarrow> chain_op \<Rightarrow> 'b chain \<Rightarrow> 'b chain" where
  "chain_run B (OpHeader n) x = snd (next_block_header n x)"
| "chain_run B (OpWrite k v) x = write_row k v x"
| "chain_run B (OpPrepare n) x = snd (chain_prepare B n x)"
| "chain_run B (OpCommit n) x = snd (chain_commit B n x)"
| "chain_run B (OpRollback n) x = snd (chain_rollback B n x)"
| "chain_run B OpReset x = snd (chain_reset x)"

inductive chain_reach :: "'b backend \<Rightarrow> 'b chain \<Rightarrow> 'b chain \<Rightarrow> bool" for B x0 where
  start: "chain_reach B x0 x0"
| step: "chain_reach B x0 x \<Longrightarrow> chain_reach B x0 (chain_run B op x)"

end
