(* ===== verification/StateChainSpec.thy ===== *)
theory StateChainSpec imports StateChain begin

text \<open>
  Correctness of the chain of block states: the invariant of the chain, and that preparing and
  committing a block changes the rows no later block sees.  The locale \<open>transactional\<close> is the
  documented behaviour of the two-phase storage; \<open>pair_backend\<close> is its instance.
\<close>

section \<open>The invariant\<close>

text \<open>\<open>linked h p bs\<close>: the first storage of \<open>bs\<close> has the predecessor \<open>p\<close>, each other one the one before
  it, numbers are consecutive, and all but the last are read-only.\<close>

fun linked :: "(nat \<Rightarrow> layer option) \<Rightarrow> prev_ref \<Rightarrow> (int \<times> nat) list \<Rightarrow> bool" where
  "linked h p [] = True"
| "linked h p ((n, i) # bs) =
     ((\<exists>l. h i = Some l \<and> ly_prev l = p
        \<and> (case bs of [] \<Rightarrow> True | (m, j) # _ \<Rightarrow> m = n + 1 \<and> i < j \<and> ly_readonly l))
      \<and> linked h (PrevState i) bs)"

definition chain_ok :: "'b chain \<Rightarrow> bool" where
  "chain_ok x \<longleftrightarrow> linked (ch_heap x) (base_ref x) (ch_states x)
     \<and> (\<forall>i. ch_heap x i \<noteq> None \<longrightarrow> i < ch_fresh x)
     \<and> (ch_states x \<noteq> [] \<longrightarrow> (\<exists>c. ch_context x = Some c
          \<and> (bc_number c, bc_storage c) = last (ch_states x)))"

lemma linked_heap: "linked h p bs \<Longrightarrow> (n, i) \<in> set bs \<Longrightarrow> h i \<noteq> None"
  by (induction h p bs rule: linked.induct) auto

lemma linked_distinct: "linked h p bs \<Longrightarrow> sorted_wrt (<) (map snd bs)"
proof (induction h p bs rule: linked.induct)
  case (2 h p n i bs)
  then have IH: "sorted_wrt (<) (map snd bs)" by simp
  show ?case
  proof (cases bs)
    case Nil
    then show ?thesis by simp
  next
    case (Cons b bs')
    obtain m j where b: "b = (m, j)" by (cases b)
    then have "i < j" using 2 Cons by auto
    then show ?thesis using IH Cons b by (auto intro: less_trans)
  qed
qed simp

lemma linked_cong:
  assumes "linked h p bs" and "\<And>i. i \<in> snd ` set bs \<Longrightarrow>
    \<exists>l l'. h i = Some l \<and> h' i = Some l' \<and> ly_prev l' = ly_prev l \<and> (ly_readonly l \<longrightarrow> ly_readonly l')"
  shows "linked h' p bs"
  using assms
proof (induction h p bs rule: linked.induct)
  case (2 h p n i bs)
  obtain l l' where l: "h i = Some l" "h' i = Some l'" "ly_prev l' = ly_prev l"
      "ly_readonly l \<longrightarrow> ly_readonly l'" using 2(3) by force
  have "linked h' (PrevState i) bs" by (rule 2(1)) (use 2 in auto)
  then show ?case using 2(2) l by (auto split: list.splits)
qed simp

lemma linked_snoc:
  assumes "linked h p bs" and "\<forall>k \<in> snd ` set bs. k < i"
    and "bs \<noteq> [] \<Longrightarrow> n = fst (last bs) + 1 \<and> (\<exists>l. h (snd (last bs)) = Some l \<and> ly_readonly l)"
    and "\<exists>l. h i = Some l \<and> ly_prev l = (if bs = [] then p else PrevState (snd (last bs)))"
  shows "linked h p (bs @ [(n, i)])"
  using assms
proof (induction h p bs rule: linked.induct)
  case (2 h p m j bs)
  show ?case
  proof (cases bs)
    case Nil
    then show ?thesis using 2 by auto
  next
    case (Cons b bs')
    have "linked h (PrevState j) (bs @ [(n, i)])"
      by (rule 2(1)) (use 2 Cons in auto)
    then show ?thesis using 2(2) Cons by (auto split: list.splits prod.splits)
  qed
qed simp

lemma header_ok:
  assumes "chain_ok x"
  shows "chain_ok (snd (next_block_header n x))"
proof (cases "ch_states x = []")
  case True
  then show ?thesis
    using assms by (auto simp: next_block_header_def chain_ok_def add_block_def base_ref_def)
next
  case False
  obtain m j where last: "last (ch_states x) = (m, j)" by (cases "last (ch_states x)")
  show ?thesis
  proof (cases "n - m = 1")
    case no: False
    then show ?thesis using assms False last by (simp add: next_block_header_def)
  next
    case True
    have mem: "(m, j) \<in> set (ch_states x)" using last_in_set [OF False] last by simp
    define x1 where "x1 = set_layer (\<lambda>l. l\<lparr>ly_readonly := True\<rparr>) j x"
    have L: "linked (ch_heap x) (base_ref x) (ch_states x)" and F: "\<forall>i. ch_heap x i \<noteq> None \<longrightarrow> i < ch_fresh x"
      using assms by (simp_all add: chain_ok_def)
    let ?h = "(ch_heap x1)(ch_fresh x \<mapsto> \<lparr>ly_rows = Map.empty, ly_prev = PrevState j, ly_readonly = False\<rparr>)"
    have ids: "k < ch_fresh x" if "k \<in> snd ` set (ch_states x)" for k
      using that linked_heap [OF L] F by force
    obtain l where l: "ch_heap x j = Some l" using linked_heap [OF L mem] by blast
    have lt: "j < ch_fresh x" using F l by simp
    have "linked ?h (base_ref x) (ch_states x)"
    proof (rule linked_cong [OF L])
      fix i
      assume i: "i \<in> snd ` set (ch_states x)"
      then obtain k where "ch_heap x i = Some k" using linked_heap [OF L] by force
      then show "\<exists>l l'. ch_heap x i = Some l \<and> ?h i = Some l' \<and> ly_prev l' = ly_prev l
          \<and> (ly_readonly l \<longrightarrow> ly_readonly l')"
        using ids [OF i] by (auto simp: x1_def set_layer_def)
    qed
    then have "linked ?h (base_ref x) (ch_states x @ [(n, ch_fresh x)])"
      by (rule linked_snoc) (use ids lt last True l False in \<open>auto simp: x1_def set_layer_def\<close>)
    moreover have "snd (next_block_header n x) = add_block n (PrevState j) (Some j) x1"
      using False True last by (simp add: next_block_header_def x1_def)
    moreover have "i < ch_fresh x" if "ch_heap x1 i \<noteq> None" for i
      using that F by (auto simp: x1_def set_layer_def split: if_splits)
    ultimately show ?thesis
      by (auto simp: chain_ok_def add_block_def base_ref_def x1_def set_layer_def less_Suc_eq)
  qed
qed

lemma set_layer_ok:
  assumes "chain_ok x" and "\<And>l. ly_prev (f l) = ly_prev l" and "\<And>l. ly_readonly l \<Longrightarrow> ly_readonly (f l)"
  shows "chain_ok (set_layer f i x)"
proof -
  have L: "linked (ch_heap x) (base_ref x) (ch_states x)" using assms(1) by (simp add: chain_ok_def)
  have "linked (ch_heap (set_layer f i x)) (base_ref x) (ch_states x)"
  proof (rule linked_cong [OF L])
    fix k
    assume "k \<in> snd ` set (ch_states x)"
    then obtain l where "ch_heap x k = Some l" using linked_heap [OF L] by force
    then show "\<exists>l l'. ch_heap x k = Some l \<and> ch_heap (set_layer f i x) k = Some l' \<and> ly_prev l' = ly_prev l
          \<and> (ly_readonly l \<longrightarrow> ly_readonly l')"
      using assms(2,3) by (auto simp: set_layer_def)
  qed
  then show ?thesis using assms(1) by (auto simp: chain_ok_def set_layer_def base_ref_def split: if_splits)
qed

lemma remove_ok:
  assumes "chain_ok x"
  shows "chain_ok (remove_committed_state x)"
proof (cases "ch_states x")
  case Nil
  then show ?thesis using assms by (simp add: remove_committed_state_def)
next
  case (Cons b rest)
  obtain m i where b: "b = (m, i)" by (cases b)
  have L: "linked (ch_heap x) (PrevState i) rest" using assms Cons b by (simp add: chain_ok_def)
  show ?thesis
  proof (cases rest)
    case Nil
    then show ?thesis
      using assms Cons b
      by (auto simp: remove_committed_state_def chain_ok_def base_ref_def split: option.splits)
  next
    case (Cons c rest')
    obtain m' j where c: "c = (m', j)" by (cases c)
    obtain l where l: "ch_heap x j = Some l" "linked (ch_heap x) (PrevState j) rest'"
        "case rest' of [] \<Rightarrow> True | (m, k) # _ \<Rightarrow> m = m' + 1 \<and> j < k \<and> ly_readonly l"
      using L Cons c by auto
    let ?h = "(ch_heap x)(j \<mapsto> l\<lparr>ly_prev := base_ref x\<rparr>)"
    have "j \<notin> snd ` set rest'" using linked_distinct [OF L] Cons c by auto
    then have "linked ?h (PrevState j) rest'"
      by (intro linked_cong [OF l(2)]) (use linked_heap [OF l(2)] in force)
    then have "linked ?h (base_ref x) rest" using l(3) Cons c by (auto split: list.splits)
    moreover have "ch_states (remove_committed_state x) = rest" "ch_heap (remove_committed_state x) = ?h"
      "base_ref (remove_committed_state x) = base_ref x" "ch_fresh (remove_committed_state x) = ch_fresh x"
      "ch_context (remove_committed_state x) = ch_context x"
      using \<open>ch_states x = b # rest\<close> b Cons c l(1)
      by (auto simp: remove_committed_state_def set_layer_def base_ref_def Let_def split: option.splits)
    moreover have "last (ch_states x) = last rest" using \<open>ch_states x = b # rest\<close> Cons by simp
    ultimately show ?thesis
      using assms l(1) \<open>ch_states x = b # rest\<close> by (auto simp: chain_ok_def)
  qed
qed

lemma backend_ok: "chain_ok x \<Longrightarrow> chain_ok (x\<lparr>ch_backend := b\<rparr>)"
  "chain_ok x \<Longrightarrow> chain_ok (x\<lparr>ch_committed := n\<rparr>)"
  by (simp_all add: chain_ok_def base_ref_def)

lemma run_ok: "chain_ok x \<Longrightarrow> chain_ok (chain_run B op x)"
proof (cases op)
  case (OpWrite k v)
  then show "chain_ok x \<Longrightarrow> chain_ok (chain_run B op x)"
    by (auto simp: write_row_def split: option.splits intro!: set_layer_ok)
next
  case (OpCommit n)
  then show "chain_ok x \<Longrightarrow> chain_ok (chain_run B op x)"
    by (auto simp: chain_commit_def Let_def split: list.splits prod.splits intro!: remove_ok backend_ok)
next
  case OpReset
  then show "chain_ok x \<Longrightarrow> chain_ok (chain_run B op x)"
    by (auto simp: chain_reset_def chain_ok_def)
qed (auto simp: header_ok chain_prepare_def chain_rollback_def Let_def backend_ok
      split: list.splits prod.splits)

lemma reach_ok: "chain_reach B (new_chain c b) x \<Longrightarrow> chain_ok x"
proof (induction rule: chain_reach.induct)
  case start
  then show ?case by (simp add: chain_ok_def new_chain_def)
qed (rule run_ok)


section \<open>Links and closed blocks\<close>

lemma linked_nth:
  "linked h p bs \<Longrightarrow> Suc k < length bs \<Longrightarrow>
     fst (bs ! Suc k) = fst (bs ! k) + 1 \<and> (\<exists>l. h (snd (bs ! k)) = Some l \<and> ly_readonly l)
       \<and> (\<exists>l. h (snd (bs ! Suc k)) = Some l \<and> ly_prev l = PrevState (snd (bs ! k)))"
proof (induction h p bs arbitrary: k rule: linked.induct)
  case (2 h p n i bs)
  show ?case
  proof (cases k)
    case 0
    obtain m j bs' where "bs = (m, j) # bs'" using 2(3) by (cases bs) auto
    then show ?thesis using 2(2) 0 by auto
  next
    case (Suc k')
    then show ?thesis using 2 by auto
  qed
qed simp

lemma linked_first: "linked h p bs \<Longrightarrow> bs \<noteq> [] \<Longrightarrow> \<exists>l. h (snd (hd bs)) = Some l \<and> ly_prev l = p"
  by (cases "(h, p, bs)" rule: linked.cases) auto

lemma rows_set_layer:
  "rows_of (set_layer f i x) j = (if j = i then (case ch_heap x i of Some l \<Rightarrow> ly_rows (f l) | None \<Rightarrow> Map.empty)
     else rows_of x j)"
  by (simp add: rows_of_def set_layer_def split: option.split)

lemma rows_set_prev:
  "(\<And>l. ly_rows (f l) = ly_rows l) \<Longrightarrow> rows_of (set_layer f i x) j = rows_of x j"
  by (simp add: rows_of_def set_layer_def split: option.split)

lemma rows_fields:
  "rows_of (x\<lparr>ch_backend := b\<rparr>) j = rows_of x j" "rows_of (x\<lparr>ch_cached := c\<rparr>) j = rows_of x j"
  "rows_of (x\<lparr>ch_states := bs\<rparr>) j = rows_of x j" "rows_of (x\<lparr>ch_last := t\<rparr>) j = rows_of x j"
  "rows_of (x\<lparr>ch_committed := n\<rparr>) j = rows_of x j"
  by (simp_all add: rows_of_def)

lemma rows_remove: "rows_of (remove_committed_state x) j = rows_of x j"
  by (simp add: remove_committed_state_def Let_def rows_fields rows_set_prev split: list.split option.split)

lemma rows_add: "j \<noteq> ch_fresh x \<Longrightarrow> rows_of (add_block n p t x) j = rows_of x j"
  by (simp add: rows_of_def add_block_def)

lemma rows_header:
  "j \<noteq> ch_fresh x \<Longrightarrow> rows_of (snd (next_block_header n x)) j = rows_of x j"
proof -
  assume j: "j \<noteq> ch_fresh x"
  have "rows_of (add_block n p t (set_layer (\<lambda>l. l\<lparr>ly_readonly := True\<rparr>) i x)) j = rows_of x j" for p t i
    using j by (subst rows_add) (simp_all add: set_layer_def rows_of_def split: option.split)
  then show ?thesis using j by (simp add: next_block_header_def rows_add split: prod.split)
qed

lemma rows_write:
  assumes "ch_heap x j = Some l" and "ly_readonly l"
  shows "rows_of (write_row k v x) j = rows_of x j"
  using assms by (auto simp: write_row_def rows_of_def set_layer_def split: option.split)

lemma closed_rows:
  assumes "ch_heap x j = Some l" and "ly_readonly l" and "j < ch_fresh x"
  shows "rows_of (chain_run B op x) j = rows_of x j"
  using assms
  by (cases op)
    (auto simp: rows_header rows_write chain_prepare_def chain_commit_def chain_rollback_def
       chain_reset_def rows_remove rows_fields Let_def split: list.split prod.split)

section \<open>The two-phase storage\<close>

locale transactional =
  fixes B :: "'b backend" and prepared :: "int \<Rightarrow> 'b \<Rightarrow> delta option"
  assumes prepare_law: "be_prepare B n d b = (ok, b') \<Longrightarrow>
      be_read B b' = be_read B b \<and> (ok \<longrightarrow> prepared n b' = Some d)"
    and commit_law: "be_commit B n b = (ok, b') \<Longrightarrow>
      be_read B b' = (if ok then (case prepared n b of Some d \<Rightarrow> overlay d (be_read B b) | None \<Rightarrow> be_read B b)
        else be_read B b)"
    and rollback_law: "be_rollback B n b = (ok, b') \<Longrightarrow> be_read B b' = be_read B b"
begin

lemma two_phases:
  assumes "be_prepare B n d b = (True, b1)" and "be_commit B n b1 = (True, b2)"
  shows "be_read B b2 = overlay d (be_read B b)"
  using prepare_law [OF assms(1)] commit_law [OF assms(2)] by simp

end

text \<open>A storage that keeps its rows and at most one prepared block, and can be told to fail.\<close>

record store =
  sr_rows :: content
  sr_pending :: "(int \<times> delta) option"
  sr_down :: bool

definition pair_backend :: "store backend" where
  "pair_backend = \<lparr>
     be_prepare = (\<lambda>n d b. if sr_down b then (False, b) else (True, b\<lparr>sr_pending := Some (n, d)\<rparr>)),
     be_commit = (\<lambda>n b. case sr_pending b of
         Some (m, d) \<Rightarrow> if m = n \<and> \<not> sr_down b
           then (True, b\<lparr>sr_rows := overlay d (sr_rows b), sr_pending := None\<rparr>) else (False, b)
       | None \<Rightarrow> (False, b)),
     be_rollback = (\<lambda>n b. (True, b\<lparr>sr_pending := None\<rparr>)),
     be_read = sr_rows\<rparr>"

definition pair_prepared :: "int \<Rightarrow> store \<Rightarrow> delta option" where
  "pair_prepared n b = (case sr_pending b of Some (m, d) \<Rightarrow> if m = n then Some d else None | None \<Rightarrow> None)"

interpretation pair_store: transactional pair_backend pair_prepared
  by unfold_locales
    (auto simp: pair_backend_def pair_prepared_def split: if_splits option.splits prod.splits)

section \<open>Views\<close>

definition base_view :: "'b backend \<Rightarrow> 'b chain \<Rightarrow> prev_ref \<Rightarrow> content" where
  "base_view B x p = (case p of
       PrevCached \<Rightarrow> (case ch_cached x of Some c \<Rightarrow> c | None \<Rightarrow> (\<lambda>k. None))
     | PrevBackend \<Rightarrow> be_read B (ch_backend x)
     | PrevState j \<Rightarrow> view B x j)"

definition older :: "prev_ref \<Rightarrow> nat \<Rightarrow> bool" where
  "older p i = (case p of PrevState j \<Rightarrow> j < i | _ \<Rightarrow> True)"

lemma view_layer:
  assumes "ch_heap x i = Some l" and "older (ly_prev l) i"
  shows "view B x i = overlay (ly_rows l) (base_view B x (ly_prev l))"
  using assms
  by (auto simp: view.simps [of B x i] overlay_def base_view_def older_def fun_eq_iff
      split: option.split prev_ref.splits)

lemma views_agree:
  assumes "linked (ch_heap x) p bs" and "linked (ch_heap z) q bs"
    and "\<And>j. rows_of z j = rows_of x j" and "base_view B z q = base_view B x p"
    and "bs \<noteq> [] \<Longrightarrow> older p (snd (hd bs)) \<and> older q (snd (hd bs))"
  shows "\<forall>(m, j) \<in> set bs. view B z j = view B x j"
  using assms
proof (induction bs arbitrary: p q)
  case (Cons b bs)
  obtain m i where b: "b = (m, i)" by (cases b)
  obtain l where l: "ch_heap x i = Some l" "ly_prev l = p" "linked (ch_heap x) (PrevState i) bs"
    using Cons.prems(1) b by auto
  obtain l' where l': "ch_heap z i = Some l'" "ly_prev l' = q" "linked (ch_heap z) (PrevState i) bs"
    using Cons.prems(2) b by auto
  have "ly_rows l' = ly_rows l" using Cons.prems(3) [of i] l l' by (simp add: rows_of_def)
  then have eq: "view B z i = view B x i"
    using view_layer [OF l(1)] view_layer [OF l'(1)] l(2) l'(2) Cons.prems(4,5) b by simp
  have "\<forall>(m, j) \<in> set bs. view B z j = view B x j"
  proof (rule Cons.IH [OF l(3) l'(3) Cons.prems(3)])
    show "base_view B z (PrevState i) = base_view B x (PrevState i)"
      using eq by (simp add: base_view_def)
    show "bs \<noteq> [] \<Longrightarrow> older (PrevState i) (snd (hd bs)) \<and> older (PrevState i) (snd (hd bs))"
      using Cons.prems(1) b by (cases bs) (auto simp: older_def)
  qed
  then show ?case using eq b by simp
qed simp

lemma base_older: "older (base_ref x) i"
  by (simp add: base_ref_def older_def)

lemma view_first:
  assumes "linked (ch_heap x) (base_ref x) ((n, i) # rest)"
  shows "view B x i = overlay (rows_of x i) (base_view B x (base_ref x))"
proof -
  obtain l where "ch_heap x i = Some l" "ly_prev l = base_ref x" using assms by auto
  then show ?thesis using view_layer [of x i l B] base_older [of x i] by (simp add: rows_of_def)
qed


section \<open>Commit\<close>

lemma remove_view:
  assumes "chain_ok x" and "ch_states x = (n, i) # rest"
    and "ch_cached y = ch_cached x" and "ch_heap y = ch_heap x" and "ch_states y = ch_states x"
    and "ch_fresh y = ch_fresh x" and "ch_context y = ch_context x"
    and "ch_cached x = None \<Longrightarrow>
      be_read B (ch_backend y) = overlay (rows_of x i) (be_read B (ch_backend x))"
  shows "\<forall>(m, j) \<in> set rest. view B (remove_committed_state y) j = view B x j"
proof (rule views_agree)
  let ?z = "remove_committed_state y"
  have ok: "chain_ok y" using assms by (simp add: chain_ok_def base_ref_def)
  have states: "ch_states ?z = rest"
    using assms(2,5)
    by (simp add: remove_committed_state_def set_layer_def Let_def split: list.split option.split prod.split)
  have L: "linked (ch_heap x) (base_ref x) ((n, i) # rest)"
    using assms(1,2) by (simp add: chain_ok_def)
  show "linked (ch_heap x) (PrevState i) rest" using L by simp
  show "linked (ch_heap ?z) (base_ref ?z) rest"
    using remove_ok [OF ok] states by (simp add: chain_ok_def)
  have rows: "rows_of y j = rows_of x j" for j using assms(4) by (simp add: rows_of_def)
  then show "rows_of ?z j = rows_of x j" for j by (simp add: rows_remove)
  have cached: "ch_cached ?z = map_option (overlay (rows_of x i)) (ch_cached x)"
    and backend: "ch_backend ?z = ch_backend y"
    using assms(2,3,5) rows
    by (auto simp: remove_committed_state_def set_layer_def Let_def split: list.split option.split prod.split)
  show "base_view B ?z (base_ref ?z) = base_view B x (PrevState i)"
    using view_first [OF L, of B] assms(8) cached backend
    by (cases "ch_cached x") (simp_all add: base_view_def base_ref_def)
  show "rest \<noteq> [] \<Longrightarrow> older (PrevState i) (snd (hd rest)) \<and> older (base_ref ?z) (snd (hd rest))"
    using L base_older [of ?z] by (cases rest) (auto simp: older_def)
qed

lemma prepare_cases:
  assumes "chain_prepare B n x = (ChNull, y)"
  obtains i rest b where "ch_states x = (n, i) # rest" "y = x\<lparr>ch_backend := b\<rparr>"
    "be_prepare B n (rows_of x i) (ch_backend x) = (True, b)"
  using assms
  by (auto simp: chain_prepare_def Let_def split: list.splits prod.splits if_splits)

lemma commit_cases:
  assumes "chain_commit B n y = (ChNull, z)"
  obtains i rest b where "ch_states y = (n, i) # rest"
    "z = remove_committed_state (y\<lparr>ch_backend := b, ch_committed := n\<rparr>)"
    "be_commit B n (ch_backend y) = (True, b)"
  using assms
  by (auto simp: chain_commit_def Let_def split: list.splits prod.splits if_splits)

lemma remove_fields:
  "ch_states (remove_committed_state x) = tl (ch_states x)"
  "ch_backend (remove_committed_state x) = ch_backend x"
  "ch_committed (remove_committed_state x) = ch_committed x"
  "ch_states x = (n, i) # rest \<Longrightarrow>
     ch_cached (remove_committed_state x) = map_option (overlay (rows_of x i)) (ch_cached x)"
  "ch_states x \<noteq> [] \<Longrightarrow> ch_last (remove_committed_state x) = Some (snd (last (ch_states x)))"
  by (auto simp: remove_committed_state_def set_layer_def Let_def split: list.splits option.split prod.split)

section \<open>Properties\<close>

text \<open>C15: in every state the executor can reach by headers, row writes, prepare, commit, rollback
  and reset, the uncommitted blocks have consecutive numbers, the storage of the first reads from
  the cached storage, or from the backend where there is none, every other one reads from the
  storage of the block before it, and no operation changes the rows of a block that is not the
  last one.\<close>
theorem block_states_linked:
  assumes "chain_reach B (new_chain c b) x"
  shows "(\<forall>k. Suc k < length (ch_states x) \<longrightarrow>
           fst (ch_states x ! Suc k) = fst (ch_states x ! k) + 1
           \<and> (\<exists>l. ch_heap x (snd (ch_states x ! Suc k)) = Some l
                 \<and> ly_prev l = PrevState (snd (ch_states x ! k)))
           \<and> rows_of (chain_run B op x) (snd (ch_states x ! k)) = rows_of x (snd (ch_states x ! k)))
    \<and> (ch_states x \<noteq> [] \<longrightarrow> (\<exists>l. ch_heap x (snd (hd (ch_states x))) = Some l
           \<and> ly_prev l = (if ch_cached x = None then PrevBackend else PrevCached)))"
proof -
  have ok: "chain_ok x" using reach_ok [OF assms] .
  then have L: "linked (ch_heap x) (base_ref x) (ch_states x)" by (simp add: chain_ok_def)
  have "rows_of (chain_run B op x) (snd (ch_states x ! k)) = rows_of x (snd (ch_states x ! k))"
    if k: "Suc k < length (ch_states x)" for k
  proof -
    obtain l where l: "ch_heap x (snd (ch_states x ! k)) = Some l" "ly_readonly l"
      using linked_nth [OF L k] by blast
    then show ?thesis using ok by (auto intro!: closed_rows simp: chain_ok_def)
  qed
  then show ?thesis using linked_nth [OF L] linked_first [OF L] by (auto simp: base_ref_def)
qed

text \<open>C7: preparing and committing a block on a two-phase storage removes that block alone, moves
  its rows into the backend and, where there is one, into the cached storage, and every block that
  remains reads what it read before.\<close>
theorem commit_keeps_views:
  assumes "transactional B prepared" and "chain_reach B (new_chain c b) x"
    and "chain_prepare B n x = (ChNull, y)" and "chain_commit B n y = (ChNull, z)"
  shows "\<exists>i. ch_states x = (n, i) # ch_states z
    \<and> be_read B (ch_backend z) = overlay (rows_of x i) (be_read B (ch_backend x))
    \<and> ch_cached z = map_option (overlay (rows_of x i)) (ch_cached x)
    \<and> ch_committed z = n
    \<and> (\<forall>(m, j) \<in> set (ch_states z). view B z j = view B x j)"
proof -
  obtain i rest b1 where p: "ch_states x = (n, i) # rest" "y = x\<lparr>ch_backend := b1\<rparr>"
      "be_prepare B n (rows_of x i) (ch_backend x) = (True, b1)"
    by (rule prepare_cases [OF assms(3)])
  obtain b2 where q: "z = remove_committed_state (x\<lparr>ch_backend := b2, ch_committed := n\<rparr>)"
      "be_commit B n b1 = (True, b2)"
    by (rule commit_cases [OF assms(4)]) (use p(2) in auto)
  have read: "be_read B b2 = overlay (rows_of x i) (be_read B (ch_backend x))"
    by (rule transactional.two_phases [OF assms(1) p(3) q(2)])
  have "\<forall>(m, j) \<in> set rest. view B z j = view B x j"
    unfolding q(1) by (rule remove_view [OF reach_ok [OF assms(2)] p(1)]) (simp_all add: read)
  moreover have "rows_of (x\<lparr>ch_backend := b2, ch_committed := n\<rparr>) i = rows_of x i"
    by (simp add: rows_of_def)
  ultimately show ?thesis
    using p(1) q(1) read remove_fields(4) [of "x\<lparr>ch_backend := b2, ch_committed := n\<rparr>" n i rest]
    by (auto simp: remove_fields(1-3))
qed


text \<open>\<open>reset\<close> does not clear the storage the next block takes for its last state.  When a block was
  committed with a later one pending, and \<open>reset\<close> then discards the pending one, the next header
  starts from the committed rows, and yet its context reads the last state from a discarded
  storage, which shows the discarded rows over them.\<close>
theorem reset_keeps_last_state:
  assumes "chain_reach B (new_chain c b) x"
    and "chain_commit B n x = (ChNull, y)" and "ch_states y \<noteq> []"
    and "next_block_header (n + 1) (snd (chain_reset y)) = (a, z)"
  shows "\<exists>t d. a = ChNull \<and> ch_context z = Some \<lparr>bc_number = n + 1, bc_storage = t, bc_last = Some d\<rparr>
    \<and> d = snd (last (ch_states y)) \<and> ch_states z = [(n + 1, t)] \<and> t \<noteq> d
    \<and> view B z t = (case ch_cached y of Some r \<Rightarrow> r | None \<Rightarrow> be_read B (ch_backend y))
    \<and> rows_of z d = rows_of y d"
proof -
  obtain i rest e where q: "ch_states x = (n, i) # rest"
      "y = remove_committed_state (x\<lparr>ch_backend := e, ch_committed := n\<rparr>)"
    by (rule commit_cases [OF assms(2)])
  let ?d = "snd (last (ch_states y))"
  have "ch_states y = rest" using q by (simp add: remove_fields(1))
  then have last: "ch_last y = Some ?d" using q assms(3) by (simp add: remove_fields(5))
  have ok: "chain_ok y"
    unfolding q(2) using reach_ok [OF assms(1)] by (intro remove_ok) (simp add: chain_ok_def base_ref_def)
  then have "linked (ch_heap y) (base_ref y) (ch_states y)" by (simp add: chain_ok_def)
  then have "ch_heap y ?d \<noteq> None"
    using linked_heap [where n = "fst (last (ch_states y))"] last_in_set [OF assms(3)] by fastforce
  then have fresh: "?d \<noteq> ch_fresh y" using ok by (auto simp: chain_ok_def)
  have z: "a = ChNull" "z = add_block (n + 1) (base_ref y) (Some ?d) (y\<lparr>ch_states := []\<rparr>)"
    using assms(4) last by (auto simp: chain_reset_def next_block_header_def base_ref_def)
  have "view B z (ch_fresh y) = overlay Map.empty (base_view B z (base_ref y))"
    using view_layer [of z "ch_fresh y" _ B] base_older [of y] z(2) by (simp add: add_block_def)
  moreover have "base_view B z (base_ref y)
      = (case ch_cached y of Some r \<Rightarrow> r | None \<Rightarrow> be_read B (ch_backend y))"
    by (auto simp: z(2) add_block_def base_view_def base_ref_def split: option.split)
  moreover have "rows_of z ?d = rows_of y ?d" using fresh by (simp add: z(2) rows_of_def add_block_def)
  ultimately show ?thesis
    using z fresh by (intro exI [of _ "ch_fresh y"] exI [of _ ?d]) (auto simp: add_block_def overlay_def)
qed

section \<open>Witnesses\<close>

text \<open>Two blocks on an empty store; the second one changes the row the first one wrote.\<close>

definition example_store :: store where
  "example_store = \<lparr>sr_rows = (\<lambda>k. None), sr_pending = None, sr_down = False\<rparr>"

definition example_chain :: "store chain" where
  "example_chain = fold (chain_run pair_backend)
     [OpHeader 1, OpWrite (''t'', ''k'') (Some ''a''), OpHeader 2, OpWrite (''t'', ''k'') (Some ''b'')]
     (new_chain (Some (\<lambda>k. None)) example_store)"

lemma example_reach: "chain_reach pair_backend (new_chain (Some (\<lambda>k. None)) example_store) example_chain"
  unfolding example_chain_def by (simp only: fold.simps o_apply id_apply) (intro chain_reach.intros)

lemmas example_simps = example_chain_def example_store_def new_chain_def next_block_header_def add_block_def
  base_ref_def write_row_def set_layer_def rows_of_def chain_prepare_def chain_commit_def
  remove_committed_state_def pair_backend_def Let_def

lemma example_states: "ch_states example_chain = [(1, 0), (2, 1)]"
  by (simp add: example_simps)

lemma example_prepare: "fst (chain_prepare pair_backend 1 example_chain) = ChNull"
  by (simp add: example_simps)

lemma example_prepared:
  "snd (chain_prepare pair_backend 1 example_chain)
     = chain_run pair_backend (OpPrepare 1) example_chain" by simp

lemma example_commit:
  "fst (chain_commit pair_backend 1 (snd (chain_prepare pair_backend 1 example_chain))) = ChNull"
  by (simp add: example_simps)

lemma example_left:
  "ch_states (snd (chain_commit pair_backend 1 (snd (chain_prepare pair_backend 1 example_chain)))) = [(2, 1)]"
  by (simp add: example_simps)

theorem block_states_linked_witness:
  "ch_states example_chain = [(1, 0), (2, 1)]
   \<and> (\<exists>l. ch_heap example_chain 1 = Some l \<and> ly_prev l = PrevState 0)
   \<and> rows_of (chain_run pair_backend (OpWrite (''t'', ''k'') None) example_chain) 0 = rows_of example_chain 0"
  using block_states_linked [OF example_reach, of "OpWrite (''t'', ''k'') None"]
  by (auto simp: example_states)

theorem commit_keeps_views_witness:
  "\<exists>y z. chain_prepare pair_backend 1 example_chain = (ChNull, y)
     \<and> chain_commit pair_backend 1 y = (ChNull, z) \<and> ch_states z = [(2, 1)]
     \<and> view pair_backend z 1 = view pair_backend example_chain 1"
proof -
  obtain y where y: "chain_prepare pair_backend 1 example_chain = (ChNull, y)"
    using example_prepare by (metis prod.collapse)
  obtain z where z: "chain_commit pair_backend 1 y = (ChNull, z)" "ch_states z = [(2, 1)]"
    using example_commit example_left y by (metis prod.collapse snd_conv)
  show ?thesis
    using commit_keeps_views [OF pair_store.transactional_axioms example_reach y z(1)] y z by auto
qed

theorem reset_keeps_last_state_witness:
  "\<exists>y z. chain_commit pair_backend 1 (chain_run pair_backend (OpPrepare 1) example_chain) = (ChNull, y)
     \<and> next_block_header 2 (snd (chain_reset y)) = (ChNull, z)
     \<and> ch_states z = [(2, 2)] \<and> map_option bc_last (ch_context z) = Some (Some 1)"
proof -
  let ?x = "chain_run pair_backend (OpPrepare 1) example_chain"
  obtain y where y: "chain_commit pair_backend 1 ?x = (ChNull, y)" "ch_states y = [(2, 1)]"
    using example_commit example_left by (metis example_prepared prod.collapse)
  obtain a z where z: "next_block_header (1 + 1) (snd (chain_reset y)) = (a, z)" by fastforce
  have "ch_fresh y = 2" using y(1) by (auto simp: example_simps)
  then have "ch_states z = [(2, 2)]"
    using z by (auto simp: next_block_header_def chain_reset_def add_block_def)
  then show ?thesis
    using reset_keeps_last_state [OF chain_reach.step [OF example_reach] y(1) _ z] y z by auto
qed

end
