(* ===== verification/Consensus.thy ===== *)
theory Consensus imports Storage Gas Codec begin

text \<open>
  The consensus members (\<open>src/precompiled/ConsensusPrecompiled.cpp\<close>): one row of the table
  \<open>SYS_CONSENSUS\<close> holds the list of nodes, and the contract adds sealers and observers, removes
  nodes and sets weights.  The archive behind \<open>getObject\<close>, \<open>setObject\<close> and \<open>decodeConsensusList\<close>,
  the names \<open>SYS_CONSENSUS\<close>, \<open>CONSENSUS_SEALER\<close> and \<open>CONSENSUS_OBSERVER\<close>, the text of a block
  number and the ABI codec belong to other repositories and are parameters.
\<close>

section \<open>Data\<close>

record consensus_node =
  cn_nodeID :: string
  cn_weight :: u256
  cn_type :: string
  cn_enableNumber :: string

record consensus_env =
  cs_table :: string
  cs_sealer :: string
  cs_observer :: string
  cs_enc :: "consensus_node list \<Rightarrow> string"
  cs_dec :: "string \<Rightarrow> consensus_node list option"
  cs_dec_list :: "string \<Rightarrow> consensus_node list option"
  cs_number_text :: "int \<Rightarrow> string"
  cs_number :: int

definition CODE_INVALID_NODE_ID :: int where "CODE_INVALID_NODE_ID = -51100"
definition CODE_LAST_SEALER :: int where "CODE_LAST_SEALER = -51101"
definition CODE_INVALID_WEIGHT :: int where "CODE_INVALID_WEIGHT = -51102"
definition CODE_NODE_NOT_EXIST :: int where "CODE_NODE_NOT_EXIST = -51103"

lemmas consensus_codes = CODE_INVALID_NODE_ID_def CODE_LAST_SEALER_def CODE_INVALID_WEIGHT_def
  CODE_NODE_NOT_EXIST_def

definition CONSENSUS_KEY :: string where "CONSENSUS_KEY = ''key''"
definition NODE_ID_LENGTH :: nat where "NODE_ID_LENGTH = 128"

section \<open>The list of nodes\<close>

text \<open>Changing, or erasing, the element \<open>find_if\<close> returns.\<close>

fun change_first :: "string \<Rightarrow> (consensus_node \<Rightarrow> consensus_node) \<Rightarrow> consensus_node list
     \<Rightarrow> consensus_node list option" where
  "change_first i f [] = None"
| "change_first i f (x # xs) =
     (if cn_nodeID x = i then Some (f x # xs) else map_option (Cons x) (change_first i f xs))"

fun erase_first :: "string \<Rightarrow> consensus_node list \<Rightarrow> consensus_node list" where
  "erase_first i [] = []"
| "erase_first i (x # xs) = (if cn_nodeID x = i then xs else x # erase_first i xs)"

definition sealer_count :: "consensus_env \<Rightarrow> consensus_node list \<Rightarrow> nat" where
  "sealer_count E xs = length (filter (\<lambda>x. cn_type x = cs_sealer E) xs)"

text \<open>The block from which a change counts.\<close>

definition enable_number :: "consensus_env \<Rightarrow> string" where
  "enable_number E = cs_number_text E (cs_number E + 1)"

definition read_nodes :: "'s storage_ops \<Rightarrow> consensus_env \<Rightarrow> (string \<Rightarrow> consensus_node list option)
     \<Rightarrow> 's \<Rightarrow> consensus_node list eval \<times> 's" where
  "read_nodes ops E dec s =
     (case st_get ops s (cs_table E) CONSENSUS_KEY of
        (None, s1) \<Rightarrow> (Val [], s1)
      | (Some v, s1) \<Rightarrow> ((case dec v of None \<Rightarrow> Throw ''archive'' | Some xs \<Rightarrow> Val xs), s1))"

definition write_nodes :: "'s storage_ops \<Rightarrow> consensus_env \<Rightarrow> consensus_node list \<Rightarrow> 's \<Rightarrow> 's" where
  "write_nodes ops E xs s = st_set ops s (cs_table E) CONSENSUS_KEY (cs_enc E xs)"

section \<open>Operations\<close>

definition add_sealer ::
    "'s storage_ops \<Rightarrow> consensus_env \<Rightarrow> string \<Rightarrow> u256 \<Rightarrow> 's \<Rightarrow> int eval \<times> 's" where
  "add_sealer ops E node weight s =
     (let i = map lower_char node in
      if length i \<noteq> NODE_ID_LENGTH then (Val CODE_INVALID_NODE_ID, s)
      else if weight = 0 then (Val CODE_INVALID_WEIGHT, s)
      else case read_nodes ops E (cs_dec E) s of
        (Val xs, s1) \<Rightarrow>
          (let xs1 = (case change_first i (\<lambda>x. x\<lparr>cn_weight := weight, cn_type := cs_sealer E,
                              cn_enableNumber := enable_number E\<rparr>) xs of
                        Some ys \<Rightarrow> ys
                      | None \<Rightarrow> xs @ [\<lparr>cn_nodeID = i, cn_weight = weight, cn_type = cs_sealer E,
                                     cn_enableNumber = enable_number E\<rparr>])
           in (Val 0, write_nodes ops E xs1 s1))
      | (Throw m, s1) \<Rightarrow> (Throw m, s1)
      | (Undef, s1) \<Rightarrow> (Undef, s1))"

definition add_observer ::
    "'s storage_ops \<Rightarrow> consensus_env \<Rightarrow> string \<Rightarrow> 's \<Rightarrow> int eval \<times> 's" where
  "add_observer ops E node s =
     (let i = map lower_char node in
      if length i \<noteq> NODE_ID_LENGTH then (Val CODE_INVALID_NODE_ID, s)
      else case read_nodes ops E (cs_dec E) s of
        (Val xs, s1) \<Rightarrow>
          (let xs1 = (case change_first i (\<lambda>x. x\<lparr>cn_weight := 0, cn_type := cs_observer E,
                              cn_enableNumber := enable_number E\<rparr>) xs of
                        Some ys \<Rightarrow> ys
                      | None \<Rightarrow> xs @ [\<lparr>cn_nodeID = i, cn_weight = 0, cn_type = cs_observer E,
                                     cn_enableNumber = enable_number E\<rparr>])
           in if sealer_count E xs1 = 0 then (Val CODE_LAST_SEALER, s1)
              else (Val 0, write_nodes ops E xs1 s1))
      | (Throw m, s1) \<Rightarrow> (Throw m, s1)
      | (Undef, s1) \<Rightarrow> (Undef, s1))"

definition remove_node ::
    "'s storage_ops \<Rightarrow> consensus_env \<Rightarrow> string \<Rightarrow> 's \<Rightarrow> int eval \<times> 's" where
  "remove_node ops E node s =
     (let i = map lower_char node in
      if length i \<noteq> NODE_ID_LENGTH then (Val CODE_INVALID_NODE_ID, s)
      else case read_nodes ops E (cs_dec E) s of
        (Val xs, s1) \<Rightarrow>
          (let xs1 = erase_first i xs
           in if sealer_count E xs1 = 0 then (Val CODE_LAST_SEALER, s1)
              else (Val 0, write_nodes ops E xs1 s1))
      | (Throw m, s1) \<Rightarrow> (Throw m, s1)
      | (Undef, s1) \<Rightarrow> (Undef, s1))"

definition set_weight ::
    "'s storage_ops \<Rightarrow> consensus_env \<Rightarrow> string \<Rightarrow> u256 \<Rightarrow> 's \<Rightarrow> int eval \<times> 's" where
  "set_weight ops E node weight s =
     (let i = map lower_char node in
      if length i \<noteq> NODE_ID_LENGTH then (Val CODE_INVALID_NODE_ID, s)
      else if weight = 0 then (Val CODE_INVALID_WEIGHT, s)
      else case read_nodes ops E (cs_dec_list E) s of
        (Val xs, s1) \<Rightarrow>
          (case change_first i (\<lambda>x. x\<lparr>cn_weight := weight, cn_enableNumber := enable_number E\<rparr>) xs of
             None \<Rightarrow> (Val CODE_NODE_NOT_EXIST, s1)
           | Some ys \<Rightarrow> (Val 0, write_nodes ops E ys s1))
      | (Throw m, s1) \<Rightarrow> (Throw m, s1)
      | (Undef, s1) \<Rightarrow> (Undef, s1))"

text \<open>\<open>showConsensusTable\<close> creates the table and reads its row; what it logs is left out.\<close>

definition show_consensus_table ::
    "'s storage_ops \<Rightarrow> consensus_env \<Rightarrow> 's \<Rightarrow> unit eval \<times> 's" where
  "show_consensus_table ops E s =
     (let s1 = (if st_open ops s (cs_table E) then s else snd (st_create ops s (cs_table E) ''value''))
      in case read_nodes ops E (cs_dec E) s1 of
           (Val _, s2) \<Rightarrow> (Val (), s2)
         | (Throw m, s2) \<Rightarrow> (Throw m, s2)
         | (Undef, s2) \<Rightarrow> (Undef, s2))"

datatype consensus_call =
    AddSealer string u256
  | AddObserver string
  | RemoveNode string
  | SetWeight string u256
  | UndefinedFunction

fun consensus_body :: "'s storage_ops \<Rightarrow> consensus_env \<Rightarrow> consensus_call \<Rightarrow> 's \<Rightarrow> int eval \<times> 's" where
  "consensus_body ops E (AddSealer i w) s = add_sealer ops E i w s"
| "consensus_body ops E (AddObserver i) s = add_observer ops E i s"
| "consensus_body ops E (RemoveNode i) s = remove_node ops E i s"
| "consensus_body ops E (SetWeight i w) s = set_weight ops E i w s"
| "consensus_body ops E UndefinedFunction s = (Val 0, s)"

definition consensus_run :: "'s storage_ops \<Rightarrow> consensus_env \<Rightarrow> consensus_call \<Rightarrow> 's \<Rightarrow> int eval \<times> 's" where
  "consensus_run ops E c s =
     (case show_consensus_table ops E s of
        (Val _, s1) \<Rightarrow> consensus_body ops E c s1
      | (Throw m, s1) \<Rightarrow> (Throw m, s1)
      | (Undef, s1) \<Rightarrow> (Undef, s1))"

text \<open>The answer of a call: the encoded code and the gas.\<close>

definition consensus_dispatch ::
    "'s storage_ops \<Rightarrow> consensus_env \<Rightarrow> (int \<Rightarrow> bytes) \<Rightarrow> consensus_call \<Rightarrow> 's \<Rightarrow> (bytes \<times> u64) eval \<times> 's" where
  "consensus_dispatch ops E code_out c s =
     (case consensus_run ops E c s of
        (Val r, s1) \<Rightarrow>
          (let out = code_out r
           in (Val (out, cal_total_gas (update_mem_used (of_nat (length out)) create_precompiled_gas)), s1))
      | (Throw m, s1) \<Rightarrow> (Throw m, s1)
      | (Undef, s1) \<Rightarrow> (Undef, s1))"

section \<open>Specification\<close>

text \<open>A roster maps a node to its weight, its type and the block from which the entry counts.\<close>

type_synonym roster = "string \<rightharpoonup> u256 \<times> string \<times> string"

definition has_sealer :: "consensus_env \<Rightarrow> roster \<Rightarrow> bool" where
  "has_sealer E r \<longleftrightarrow> (\<exists>i w n. r i = Some (w, cs_sealer E, n))"

definition roster_add_observer :: "consensus_env \<Rightarrow> string \<Rightarrow> roster \<Rightarrow> int \<times> roster" where
  "roster_add_observer E i r =
     (let r1 = r(i \<mapsto> (0, cs_observer E, enable_number E))
      in if has_sealer E r1 then (0, r1) else (CODE_LAST_SEALER, r))"

definition roster_remove :: "consensus_env \<Rightarrow> string \<Rightarrow> roster \<Rightarrow> int \<times> roster" where
  "roster_remove E i r =
     (if has_sealer E (r(i := None)) then (0, r(i := None)) else (CODE_LAST_SEALER, r))"

fun roster_call :: "consensus_env \<Rightarrow> consensus_call \<Rightarrow> roster \<Rightarrow> int \<times> roster" where
  "roster_call E (AddSealer node w) r =
     (let i = map lower_char node in
      if length i \<noteq> 128 then (CODE_INVALID_NODE_ID, r)
      else if w = 0 then (CODE_INVALID_WEIGHT, r)
      else (0, r(i \<mapsto> (w, cs_sealer E, enable_number E))))"
| "roster_call E (AddObserver node) r =
     (let i = map lower_char node in
      if length i \<noteq> 128 then (CODE_INVALID_NODE_ID, r) else roster_add_observer E i r)"
| "roster_call E (RemoveNode node) r =
     (let i = map lower_char node in
      if length i \<noteq> 128 then (CODE_INVALID_NODE_ID, r) else roster_remove E i r)"
| "roster_call E (SetWeight node w) r =
     (let i = map lower_char node in
      if length i \<noteq> 128 then (CODE_INVALID_NODE_ID, r)
      else if w = 0 then (CODE_INVALID_WEIGHT, r)
      else case r i of
        None \<Rightarrow> (CODE_NODE_NOT_EXIST, r)
      | Some (_, t, _) \<Rightarrow> (0, r(i \<mapsto> (w, t, enable_number E))))"
| "roster_call E UndefinedFunction r = (0, r)"

text \<open>The roster of a list and of a storage.\<close>

definition node_entry :: "consensus_node \<Rightarrow> string \<times> u256 \<times> string \<times> string" where
  "node_entry x = (cn_nodeID x, cn_weight x, cn_type x, cn_enableNumber x)"

definition roster_of :: "consensus_node list \<Rightarrow> roster" where
  "roster_of xs = map_of (map node_entry xs)"

definition stored_nodes :: "'s storage_ops \<Rightarrow> consensus_env \<Rightarrow> 's \<Rightarrow> consensus_node list option" where
  "stored_nodes ops E s =
     (case row ops s (cs_table E) CONSENSUS_KEY of None \<Rightarrow> Some [] | Some v \<Rightarrow> cs_dec E v)"

definition stored_roster :: "'s storage_ops \<Rightarrow> consensus_env \<Rightarrow> 's \<Rightarrow> roster" where
  "stored_roster ops E s = (case stored_nodes ops E s of None \<Rightarrow> Map.empty | Some xs \<Rightarrow> roster_of xs)"

definition nodes_ok :: "'s storage_ops \<Rightarrow> consensus_env \<Rightarrow> 's \<Rightarrow> bool" where
  "nodes_ok ops E s \<longleftrightarrow> (\<exists>xs. stored_nodes ops E s = Some xs \<and> distinct (map cn_nodeID xs))"

end
