(* ===== verification/ConsensusSpec.thy ===== *)
theory ConsensusSpec imports Consensus begin

text \<open>
  Correctness of the consensus members: the stored list implements a roster, the map from a node
  to its entry, and no sequence of calls removes the last sealer.  The locale \<open>consensus_store\<close>
  joins the storage contract with the laws of the archive.
\<close>

section \<open>Lists and rosters\<close>

lemma roster_of_simps [simp]:
  "roster_of [] = Map.empty"
  "roster_of (x # xs) = (roster_of xs)(cn_nodeID x \<mapsto> (cn_weight x, cn_type x, cn_enableNumber x))"
  by (simp_all add: roster_of_def node_entry_def)

lemma roster_of_None: "roster_of xs i = None \<longleftrightarrow> i \<notin> cn_nodeID ` set xs"
  by (induction xs) auto

lemma roster_of_snoc:
  "i \<notin> cn_nodeID ` set xs \<Longrightarrow> cn_nodeID x = i \<Longrightarrow>
     roster_of (xs @ [x]) = (roster_of xs)(i \<mapsto> (cn_weight x, cn_type x, cn_enableNumber x))"
  by (induction xs) (auto simp: fun_upd_twist)

lemma change_first_None: "change_first i f xs = None \<longleftrightarrow> i \<notin> cn_nodeID ` set xs"
  by (induction xs) auto

lemma change_first_ids:
  "change_first i f xs = Some ys \<Longrightarrow> (\<And>x. cn_nodeID (f x) = cn_nodeID x) \<Longrightarrow>
     map cn_nodeID ys = map cn_nodeID xs"
  by (induction xs arbitrary: ys) (auto split: if_splits)

lemma change_first_roster:
  "change_first i f xs = Some ys \<Longrightarrow> distinct (map cn_nodeID xs) \<Longrightarrow>
     (\<And>x. cn_nodeID (f x) = cn_nodeID x) \<Longrightarrow>
     \<exists>x \<in> set xs. cn_nodeID x = i \<and> roster_of xs i = Some (cn_weight x, cn_type x, cn_enableNumber x)
       \<and> roster_of ys = (roster_of xs)(i \<mapsto> (cn_weight (f x), cn_type (f x), cn_enableNumber (f x)))"
proof (induction xs arbitrary: ys)
  case (Cons a xs)
  show ?case
  proof (cases "cn_nodeID a = i")
    case True
    then show ?thesis using Cons.prems by auto
  next
    case False
    then obtain zs where z: "change_first i f xs = Some zs" "ys = a # zs" using Cons.prems(1) by auto
    obtain x where x: "x \<in> set xs" "cn_nodeID x = i"
        "roster_of xs i = Some (cn_weight x, cn_type x, cn_enableNumber x)"
        "roster_of zs = (roster_of xs)(i \<mapsto> (cn_weight (f x), cn_type (f x), cn_enableNumber (f x)))"
      using Cons.IH [OF z(1) _ Cons.prems(3)] Cons.prems(2) by fastforce
    then show ?thesis using False z(2) by (intro bexI [of _ x]) (auto simp: fun_upd_twist)
  qed
qed simp

lemma set_erase_first: "distinct (map cn_nodeID xs) \<Longrightarrow>
    set (erase_first i xs) = {x \<in> set xs. cn_nodeID x \<noteq> i}"
  by (induction xs) (auto simp: rev_image_eqI)

lemma erase_first_ids: "distinct (map cn_nodeID xs) \<Longrightarrow> distinct (map cn_nodeID (erase_first i xs))"
  by (induction xs) (auto simp: set_erase_first)

lemma erase_first_roster:
  "distinct (map cn_nodeID xs) \<Longrightarrow> roster_of (erase_first i xs) = (roster_of xs)(i := None)"
proof (induction xs)
  case (Cons a xs)
  then have "a \<in> set xs \<longrightarrow> False" by auto
  then show ?case using Cons roster_of_None [of xs i] by (auto simp: fun_upd_twist fun_upd_idem)
qed simp

lemma sealer_count_roster:
  "distinct (map cn_nodeID xs) \<Longrightarrow> sealer_count E xs = 0 \<longleftrightarrow> \<not> has_sealer E (roster_of xs)"
proof (induction xs)
  case Nil
  then show ?case by (simp add: sealer_count_def has_sealer_def)
next
  case (Cons a xs)
  then have n: "roster_of xs (cn_nodeID a) = None" by (simp add: roster_of_None)
  have e: "has_sealer E (roster_of (a # xs)) \<longleftrightarrow> cn_type a = cs_sealer E \<or> has_sealer E (roster_of xs)"
  proof
    assume "has_sealer E (roster_of (a # xs))"
    then show "cn_type a = cs_sealer E \<or> has_sealer E (roster_of xs)"
      by (fastforce simp: has_sealer_def split: if_splits)
  next
    assume "cn_type a = cs_sealer E \<or> has_sealer E (roster_of xs)"
    then show "has_sealer E (roster_of (a # xs))"
    proof
      assume "has_sealer E (roster_of xs)"
      then obtain j w m where "roster_of xs j = Some (w, cs_sealer E, m)" by (auto simp: has_sealer_def)
      then show ?thesis using n by (auto simp: has_sealer_def intro!: exI [of _ j])
    qed (auto simp: has_sealer_def intro!: exI [of _ "cn_nodeID a"])
  qed
  have "sealer_count E xs = 0 \<longleftrightarrow> \<not> has_sealer E (roster_of xs)" using Cons by simp
  then show ?case unfolding e by (simp add: sealer_count_def)
qed

section \<open>The storage\<close>

locale consensus_store = table_storage ops inv
  for ops :: "'s storage_ops" and inv +
  fixes E :: consensus_env
  assumes dec_enc: "cs_dec E (cs_enc E xs) = Some xs"
    and same_archive: "cs_dec_list E = cs_dec E"
    and roles: "cs_sealer E \<noteq> cs_observer E"
    and not_sys: "cs_table E \<noteq> st_sys ops"
begin

definition good :: "'s \<Rightarrow> bool" where
  "good s \<longleftrightarrow> inv s \<and> st_open ops s (cs_table E) \<and> nodes_ok ops E s"

text \<open>Reading changes neither rows nor open tables.\<close>

definition alike :: "'s \<Rightarrow> 's \<Rightarrow> bool" where
  "alike s s' \<longleftrightarrow> inv s' \<and> (\<forall>t k. row ops s' t k = row ops s t k) \<and> (\<forall>t. st_open ops s' t = st_open ops s t)"

definition others_kept :: "'s \<Rightarrow> 's \<Rightarrow> bool" where
  "others_kept s s' \<longleftrightarrow> (\<forall>t k. t \<noteq> cs_table E \<longrightarrow> t \<noteq> st_sys ops \<longrightarrow> row ops s' t k = row ops s t k)"

lemma read_good:
  assumes "inv s" and "nodes_ok ops E s"
  obtains xs s' where "read_nodes ops E (cs_dec E) s = (Val xs, s')" "alike s s'"
    "stored_nodes ops E s = Some xs" "distinct (map cn_nodeID xs)"
proof -
  obtain e s' where g: "st_get ops s (cs_table E) CONSENSUS_KEY = (e, s')" by fastforce
  have "alike s s'"
    unfolding alike_def using get_inv [OF assms(1)] get_row [OF assms(1)] get_open [OF assms(1)] g
    by (metis snd_conv)
  moreover obtain xs where "stored_nodes ops E s = Some xs" "distinct (map cn_nodeID xs)"
    using assms(2) by (auto simp: nodes_ok_def)
  moreover from this have "read_nodes ops E (cs_dec E) s = (Val xs, s')"
    using g get_Some_row [OF g] by (auto simp: read_nodes_def stored_nodes_def split: option.splits)
  ultimately show ?thesis using that by blast
qed

lemma good_read:
  assumes "good s"
  obtains xs s' where "read_nodes ops E (cs_dec E) s = (Val xs, s')" "alike s s'"
    "stored_nodes ops E s = Some xs" "distinct (map cn_nodeID xs)"
  using read_good [of s] assms by (auto simp: good_def)

lemma write_good:
  assumes "inv s" and "st_open ops s (cs_table E)" and "distinct (map cn_nodeID xs)"
  shows "good (write_nodes ops E xs s)" "stored_roster ops E (write_nodes ops E xs s) = roster_of xs"
    "others_kept s (write_nodes ops E xs s)"
  using assms
  by (simp_all add: good_def write_nodes_def set_inv set_open set_row not_sys nodes_ok_def
      stored_nodes_def stored_roster_def others_kept_def dec_enc)

lemma stored_same: "alike s s' \<Longrightarrow> stored_nodes ops E s' = stored_nodes ops E s"
  by (simp add: stored_nodes_def alike_def)

lemma good_same:
  assumes "good s" "alike s s'"
  shows "good s'" "stored_roster ops E s' = stored_roster ops E s" "others_kept s s'"
  using assms stored_same [OF assms(2)]
  by (auto simp: good_def nodes_ok_def stored_roster_def others_kept_def alike_def)

lemma show_good:
  assumes "inv s" and "nodes_ok ops E s"
  obtains s' where "show_consensus_table ops E s = (Val (), s')" "good s'"
    "stored_roster ops E s' = stored_roster ops E s" "others_kept s s'"
proof -
  let ?s1 = "if st_open ops s (cs_table E) then s else snd (st_create ops s (cs_table E) ''value'')"
  have 1: "inv ?s1" "st_open ops ?s1 (cs_table E)" "\<And>t k. t \<noteq> st_sys ops \<Longrightarrow> row ops ?s1 t k = row ops s t k"
    using assms(1) create_inv create_open create_row by auto
  have st: "stored_nodes ops E ?s1 = stored_nodes ops E s" using 1(3) [OF not_sys] by (simp add: stored_nodes_def)
  then have ok: "nodes_ok ops E ?s1" using assms(2) by (simp add: nodes_ok_def)
  obtain xs s' where r: "read_nodes ops E (cs_dec E) ?s1 = (Val xs, s')" "alike ?s1 s'"
    by (rule read_good [OF 1(1) ok])
  have g: "good ?s1" using 1 ok by (simp add: good_def)
  have "show_consensus_table ops E s = (Val (), s')" using r(1) by (simp add: show_consensus_table_def Let_def)
  moreover have "stored_roster ops E s' = stored_roster ops E s"
    using good_same(2) [OF g r(2)] st by (simp add: stored_roster_def)
  moreover have "others_kept s s'" using r(2) 1(3) by (simp add: others_kept_def alike_def)
  ultimately show ?thesis using that good_same(1) [OF g r(2)] by blast
qed


section \<open>The operations implement the roster\<close>

text \<open>An answer, its new state, and the roster they stand for.\<close>

definition implements :: "'s \<Rightarrow> int eval \<times> 's \<Rightarrow> int \<times> roster \<Rightarrow> bool" where
  "implements s out spec \<longleftrightarrow> (\<exists>s'. out = (Val (fst spec), s') \<and> good s'
     \<and> stored_roster ops E s' = snd spec \<and> others_kept s s')"

lemma implements_keep: "good s \<Longrightarrow> implements s (Val c, s) (c, stored_roster ops E s)"
  by (simp add: implements_def others_kept_def)

lemma implements_write:
  assumes "good s" and "alike s s1" and "distinct (map cn_nodeID xs)" and "roster_of xs = r"
  shows "implements s (Val c, write_nodes ops E xs s1) (c, r)"
proof -
  have "inv s1" "st_open ops s1 (cs_table E)" using assms(1,2) by (simp_all add: good_def alike_def)
  note w = write_good [OF this assms(3)]
  have "others_kept s (write_nodes ops E xs s1)" using w(3) assms(2) by (simp add: others_kept_def alike_def)
  then show ?thesis using w assms(4) by (simp add: implements_def)
qed

lemma implements_read:
  assumes "good s" and "alike s s1"
  shows "implements s (Val c, s1) (c, stored_roster ops E s)"
  using good_same [OF assms] by (simp add: implements_def)

lemma put_node:
  assumes "distinct (map cn_nodeID xs)"
    and "\<And>x. cn_nodeID (f x) = cn_nodeID x" and "\<And>x. (cn_weight (f x), cn_type (f x), cn_enableNumber (f x)) = v"
    and "cn_nodeID new = i" and "(cn_weight new, cn_type new, cn_enableNumber new) = v"
  shows "distinct (map cn_nodeID (case change_first i f xs of Some ys \<Rightarrow> ys | None \<Rightarrow> xs @ [new]))
    \<and> roster_of (case change_first i f xs of Some ys \<Rightarrow> ys | None \<Rightarrow> xs @ [new]) = (roster_of xs)(i \<mapsto> v)"
proof (cases "change_first i f xs")
  case None
  then have "i \<notin> cn_nodeID ` set xs" by (simp add: change_first_None)
  then show ?thesis using None assms roster_of_snoc [of i xs new] by auto
next
  case (Some ys)
  then show ?thesis
    using change_first_ids [OF Some assms(2)] change_first_roster [OF Some assms(1,2)] assms(1,3) by auto
qed

lemma stored_roster_nodes: "stored_nodes ops E s = Some xs \<Longrightarrow> stored_roster ops E s = roster_of xs"
  by (simp add: stored_roster_def)

lemma add_sealer_implements:
  assumes "good s"
  shows "implements s (add_sealer ops E i w s) (roster_call E (AddSealer i w) (stored_roster ops E s))"
proof -
  obtain xs s1 where r: "read_nodes ops E (cs_dec E) s = (Val xs, s1)" "alike s s1"
      "stored_nodes ops E s = Some xs" "distinct (map cn_nodeID xs)"
    by (rule good_read [OF assms])
  let ?i = "map lower_char i" and ?v = "(w, cs_sealer E, enable_number E)"
  note p = put_node [OF r(4), where v = ?v and i = ?i and
    new = "\<lparr>cn_nodeID = ?i, cn_weight = w, cn_type = cs_sealer E, cn_enableNumber = enable_number E\<rparr>"
    and f = "\<lambda>x. x\<lparr>cn_weight := w, cn_type := cs_sealer E, cn_enableNumber := enable_number E\<rparr>"]
  show ?thesis
    using assms r(1) p implements_keep [OF assms] stored_roster_nodes [OF r(3)]
      implements_write [OF assms r(2)]
    by (simp add: add_sealer_def Let_def NODE_ID_LENGTH_def)
qed

lemma add_observer_implements:
  assumes "good s"
  shows "implements s (add_observer ops E i s) (roster_call E (AddObserver i) (stored_roster ops E s))"
proof -
  obtain xs s1 where r: "read_nodes ops E (cs_dec E) s = (Val xs, s1)" "alike s s1"
      "stored_nodes ops E s = Some xs" "distinct (map cn_nodeID xs)"
    by (rule good_read [OF assms])
  let ?i = "map lower_char i" and ?v = "(0, cs_observer E, enable_number E)"
  note p = put_node [OF r(4), where v = ?v and i = ?i and
    new = "\<lparr>cn_nodeID = ?i, cn_weight = 0, cn_type = cs_observer E, cn_enableNumber = enable_number E\<rparr>"
    and f = "\<lambda>x. x\<lparr>cn_weight := 0, cn_type := cs_observer E, cn_enableNumber := enable_number E\<rparr>"]
  show ?thesis
    using assms r(1) p implements_keep [OF assms] stored_roster_nodes [OF r(3)]
      implements_write [OF assms r(2)] implements_read [OF assms r(2)]
    by (simp add: add_observer_def Let_def NODE_ID_LENGTH_def roster_add_observer_def sealer_count_roster)
qed

lemma remove_node_implements:
  assumes "good s"
  shows "implements s (remove_node ops E i s) (roster_call E (RemoveNode i) (stored_roster ops E s))"
proof -
  obtain xs s1 where r: "read_nodes ops E (cs_dec E) s = (Val xs, s1)" "alike s s1"
      "stored_nodes ops E s = Some xs" "distinct (map cn_nodeID xs)"
    by (rule good_read [OF assms])
  show ?thesis
    using assms r(1) erase_first_ids [OF r(4)] erase_first_roster [OF r(4)] implements_keep [OF assms]
      stored_roster_nodes [OF r(3)] implements_write [OF assms r(2)] implements_read [OF assms r(2)]
    by (simp add: remove_node_def Let_def NODE_ID_LENGTH_def roster_remove_def sealer_count_roster)
qed

lemma set_weight_implements:
  assumes "good s"
  shows "implements s (set_weight ops E i w s) (roster_call E (SetWeight i w) (stored_roster ops E s))"
proof -
  obtain xs s1 where r: "read_nodes ops E (cs_dec E) s = (Val xs, s1)" "alike s s1"
      "stored_nodes ops E s = Some xs" "distinct (map cn_nodeID xs)"
    by (rule good_read [OF assms])
  let ?i = "map lower_char i"
  let ?f = "\<lambda>x. x\<lparr>cn_weight := w, cn_enableNumber := enable_number E\<rparr>"
  show ?thesis
  proof (cases "change_first ?i ?f xs")
    case None
    then have "roster_of xs ?i = None" by (simp add: change_first_None roster_of_None)
    then show ?thesis
      using assms r(1) None implements_keep [OF assms] stored_roster_nodes [OF r(3)]
        implements_read [OF assms r(2)]
      by (simp add: set_weight_def Let_def NODE_ID_LENGTH_def same_archive)
  next
    case (Some ys)
    obtain w0 t n0 where x: "roster_of xs ?i = Some (w0, t, n0)"
        "roster_of ys = (roster_of xs)(?i \<mapsto> (w, t, enable_number E))"
      using change_first_roster [OF Some r(4)] by auto
    have "distinct (map cn_nodeID ys)" using change_first_ids [OF Some] r(4) by simp
    then show ?thesis
      using assms r(1) Some implements_keep [OF assms] stored_roster_nodes [OF r(3)] x
        implements_write [OF assms r(2)]
      by (simp add: set_weight_def Let_def NODE_ID_LENGTH_def same_archive)
  qed
qed

lemma run_implements:
  assumes "inv s" and "nodes_ok ops E s"
  shows "implements s (consensus_run ops E c s) (roster_call E c (stored_roster ops E s))"
proof -
  obtain s1 where s1: "show_consensus_table ops E s = (Val (), s1)" "good s1"
      "stored_roster ops E s1 = stored_roster ops E s" "others_kept s s1"
    by (rule show_good [OF assms])
  have "implements s1 (consensus_body ops E c s1) (roster_call E c (stored_roster ops E s1))"
    using add_sealer_implements [OF s1(2)] add_observer_implements [OF s1(2)] remove_node_implements [OF s1(2)]
      set_weight_implements [OF s1(2)] implements_keep [OF s1(2)]
    by (cases c) (simp_all del: roster_call.simps(1-4))
  then show ?thesis using s1 by (auto simp: implements_def consensus_run_def others_kept_def)
qed

end


section \<open>The last sealer\<close>

definition sealers_ok :: "consensus_env \<Rightarrow> roster \<Rightarrow> bool" where
  "sealers_ok E r \<longleftrightarrow> has_sealer E r \<and> (\<forall>i w n. r i = Some (w, cs_sealer E, n) \<longrightarrow> w \<noteq> 0)"

lemma has_sealer_new: "has_sealer E (r(i \<mapsto> (w, cs_sealer E, n)))"
  by (auto simp: has_sealer_def)

lemma roster_call_sealers:
  assumes "sealers_ok E r" and "cs_sealer E \<noteq> cs_observer E"
  shows "sealers_ok E (snd (roster_call E c r))"
proof (cases c)
  case (SetWeight node w)
  let ?i = "map lower_char node"
  show ?thesis
  proof (cases "r ?i")
    case None
    then show ?thesis using assms SetWeight by (simp add: Let_def)
  next
    case (Some v)
    obtain w0 t n where v: "v = (w0, t, n)" by (cases v)
    obtain j u m where j: "r j = Some (u, cs_sealer E, m)" using assms by (auto simp: sealers_ok_def has_sealer_def)
    have "has_sealer E (r(?i \<mapsto> (w, t, enable_number E)))"
      using j Some v by (cases "j = ?i") (auto simp: has_sealer_def intro: exI [of _ j])
    then show ?thesis using assms SetWeight Some v by (auto simp: sealers_ok_def Let_def)
  qed
qed (use assms in \<open>auto simp: sealers_ok_def Let_def roster_add_observer_def roster_remove_def has_sealer_new\<close>)

definition consensus_calls :: "'s storage_ops \<Rightarrow> consensus_env \<Rightarrow> consensus_call list \<Rightarrow> 's \<Rightarrow> 's" where
  "consensus_calls ops E cs s = fold (\<lambda>c s. snd (consensus_run ops E c s)) cs s"

context consensus_store
begin

lemma implementsD:
  assumes "inv s" and "nodes_ok ops E s"
  obtains s' where "consensus_run ops E c s = (Val (fst (roster_call E c (stored_roster ops E s))), s')"
    "inv s'" "nodes_ok ops E s'" "stored_roster ops E s' = snd (roster_call E c (stored_roster ops E s))"
    "others_kept s s'"
  using run_implements [OF assms, of c] by (auto simp: implements_def good_def)

lemma calls_sealers:
  "inv s \<Longrightarrow> nodes_ok ops E s \<Longrightarrow> sealers_ok E (stored_roster ops E s) \<Longrightarrow>
     sealers_ok E (stored_roster ops E (consensus_calls ops E cs s))"
proof (induction cs arbitrary: s)
  case (Cons c cs)
  obtain s' where s': "consensus_run ops E c s = (Val (fst (roster_call E c (stored_roster ops E s))), s')"
      "inv s'" "nodes_ok ops E s'" "stored_roster ops E s' = snd (roster_call E c (stored_roster ops E s))"
    by (rule implementsD [OF Cons.prems(1,2)])
  have "sealers_ok E (stored_roster ops E s')"
    using roster_call_sealers [OF Cons.prems(3) roles] s'(4) by simp
  then show ?case using Cons.IH [OF s'(2,3)] s'(1) by (simp add: consensus_calls_def)
qed (simp add: consensus_calls_def)

end

section \<open>The interpretation\<close>

type_synonym node_code = "(string \<times> nat \<times> string \<times> string) list"

definition node_enc :: "consensus_node list \<Rightarrow> string" where
  "node_enc xs =
     count_enc (map (\<lambda>x. (cn_nodeID x, unat (cn_weight x), cn_type x, cn_enableNumber x)) xs :: node_code)"

definition node_dec :: "string \<Rightarrow> consensus_node list option" where
  "node_dec v = map_option (map (\<lambda>(i, w, t, n). \<lparr>cn_nodeID = i, cn_weight = of_nat w, cn_type = t,
     cn_enableNumber = n\<rparr>)) (count_dec v :: node_code option)"

definition mem_consensus :: consensus_env where
  "mem_consensus = \<lparr>cs_table = ''s_consensus'', cs_sealer = ''consensus_sealer'',
     cs_observer = ''consensus_observer'', cs_enc = node_enc, cs_dec = node_dec, cs_dec_list = node_dec,
     cs_number_text = (\<lambda>n. dec_of_nat (nat n)), cs_number = 7\<rparr>"

lemma node_dec_enc: "node_dec (node_enc xs) = Some xs"
  by (simp add: node_dec_def node_enc_def counted.dec_enc comp_def map_idI)

interpretation mem_nodes: consensus_store mem_ops "\<lambda>_. True" mem_consensus
  by unfold_locales (simp_all add: mem_consensus_def node_dec_enc mem_sys_def)

section \<open>Properties\<close>

text \<open>C17: every call of the consensus contract answers and changes the stored list as the
  specification on rosters says, for each function and each error code; node names are read in
  lower case, no name is listed twice, and no other table changes.\<close>
theorem consensus_refines_roster:
  assumes "consensus_store ops I E" and "I s" and "nodes_ok ops E s"
  shows "\<exists>s'. consensus_run ops E c s = (Val (fst (roster_call E c (stored_roster ops E s))), s')
    \<and> stored_roster ops E s' = snd (roster_call E c (stored_roster ops E s))
    \<and> I s' \<and> nodes_ok ops E s'
    \<and> (\<forall>t k. t \<noteq> cs_table E \<longrightarrow> t \<noteq> st_sys ops \<longrightarrow> row ops s' t k = row ops s t k)"
proof -
  obtain s' where "consensus_run ops E c s = (Val (fst (roster_call E c (stored_roster ops E s))), s')"
    "I s'" "nodes_ok ops E s'" "stored_roster ops E s' = snd (roster_call E c (stored_roster ops E s))"
    "consensus_store.others_kept ops E s s'"
    by (rule consensus_store.implementsD [OF assms])
  then show ?thesis by (auto simp: consensus_store.others_kept_def [OF assms(1)])
qed

text \<open>C16: the chain never loses its last sealer: from a list with a sealer, all of whose sealers
  have a weight, every sequence of calls of the consensus contract, with any arguments, leaves a
  list with a sealer, all of whose sealers have a weight.\<close>
theorem last_sealer_stays:
  assumes "consensus_store ops I E" and "I s" and "nodes_ok ops E s"
    and "sealers_ok E (stored_roster ops E s)"
  shows "sealers_ok E (stored_roster ops E (fold (\<lambda>c s. snd (consensus_run ops E c s)) calls s))"
  using consensus_store.calls_sealers [OF assms, of calls] by (simp add: consensus_calls_def)

section \<open>Witnesses\<close>

definition node_a :: string where "node_a = replicate 128 CHR ''a''"

definition one_sealer :: mem where
  "one_sealer = mem_empty(mem_sys := [''s_consensus'' \<mapsto> ''value''], ''s_consensus'' := [''key'' \<mapsto>
     node_enc [\<lparr>cn_nodeID = node_a, cn_weight = 1, cn_type = ''consensus_sealer'', cn_enableNumber = ''0''\<rparr>]])"

lemma one_sealer_facts:
  "stored_nodes mem_ops mem_consensus one_sealer =
     Some [\<lparr>cn_nodeID = node_a, cn_weight = 1, cn_type = ''consensus_sealer'', cn_enableNumber = ''0''\<rparr>]"
  "nodes_ok mem_ops mem_consensus one_sealer"
  "stored_roster mem_ops mem_consensus one_sealer = [node_a \<mapsto> (1, ''consensus_sealer'', ''0'')]"
  by (simp_all add: stored_nodes_def nodes_ok_def stored_roster_def row_def one_sealer_def mem_consensus_def
      mem_sys_def CONSENSUS_KEY_def node_dec_enc)

lemma one_sealer_ok: "sealers_ok mem_consensus (stored_roster mem_ops mem_consensus one_sealer)"
  unfolding one_sealer_facts(3) by (auto simp: sealers_ok_def has_sealer_def mem_consensus_def split: if_splits)

lemma lower_node_a: "map lower_char node_a = node_a"
  by (simp add: node_a_def lower_char_def)

theorem consensus_refines_roster_witness:
  "\<exists>s'. consensus_run mem_ops mem_consensus (RemoveNode node_a) one_sealer = (Val CODE_LAST_SEALER, s')
     \<and> stored_roster mem_ops mem_consensus s' = [node_a \<mapsto> (1, ''consensus_sealer'', ''0'')]"
proof -
  have "roster_call mem_consensus (RemoveNode node_a) (stored_roster mem_ops mem_consensus one_sealer)
      = (CODE_LAST_SEALER, stored_roster mem_ops mem_consensus one_sealer)"
    by (simp add: lower_node_a one_sealer_facts roster_remove_def has_sealer_def) (simp add: node_a_def)
  then show ?thesis
    using consensus_refines_roster [OF mem_nodes.consensus_store_axioms TrueI one_sealer_facts(2), of "RemoveNode node_a"]
    by (auto simp: one_sealer_facts(3))
qed

theorem last_sealer_stays_witness:
  "sealers_ok mem_consensus (stored_roster mem_ops mem_consensus
     (fold (\<lambda>c s. snd (consensus_run mem_ops mem_consensus c s))
       [AddObserver node_a, RemoveNode node_a] one_sealer))"
  by (rule last_sealer_stays [OF mem_nodes.consensus_store_axioms TrueI one_sealer_facts(2) one_sealer_ok])

end
