(* ===== verification/SystemConfig.thy ===== *)
theory SystemConfig imports Storage Gas Codec begin

text \<open>
  The system configuration (\<open>src/precompiled/SystemConfigPrecompiled.cpp\<close>): a table from keys to
  a value and the block from which it counts.  Parameters of the model, a record: the name of the
  table and of the three keys and the archive of \<open>SystemConfigEntry\<close> (bcos-framework),
  \<open>boost::lexical_cast<int64_t>\<close>, and the number of the current block.
\<close>

section \<open>Data\<close>

record sysconfig_env =
  sc_table :: string
  sc_gas_key :: string
  sc_leader_key :: string
  sc_count_key :: string
  sc_enc :: "string \<times> int \<Rightarrow> string"
  sc_dec :: "string \<Rightarrow> (string \<times> int) option"
  sc_parse :: "string \<Rightarrow> int option"
  sc_number :: int

definition TX_COUNT_LIMIT_MIN :: int where "TX_COUNT_LIMIT_MIN = 1"
definition TX_GAS_LIMIT_MIN :: int where "TX_GAS_LIMIT_MIN = 100000"
definition CODE_INVALID_CONFIGURATION_VALUES :: int where "CODE_INVALID_CONFIGURATION_VALUES = -51300"

datatype sysconfig_call = SetValueByKey string string | GetValueByKey string | SysUnknown

datatype sysconfig_answer = ScNothing | ScCode int | ScPair string u256

section \<open>Operations\<close>

text \<open>The comparisons the constructor puts into \<open>m_sysValueCmp\<close>; \<open>at\<close> throws on another key.\<close>

definition sys_value_cmp :: "sysconfig_env \<Rightarrow> string \<Rightarrow> (int \<Rightarrow> bool) option" where
  "sys_value_cmp E k =
     (if k = sc_gas_key E then Some (\<lambda>v. v > TX_GAS_LIMIT_MIN)
      else if k = sc_leader_key E then Some (\<lambda>v. v \<ge> 1)
      else if k = sc_count_key E then Some (\<lambda>v. v \<ge> TX_COUNT_LIMIT_MIN)
      else None)"

definition check_value_valid :: "sysconfig_env \<Rightarrow> string \<Rightarrow> string \<Rightarrow> bool" where
  "check_value_valid E key val =
     (if val = [] then False
      else case sc_parse E val of
        None \<Rightarrow> False
      | Some n \<Rightarrow> (case sys_value_cmp E key of None \<Rightarrow> False | Some cmp \<Rightarrow> cmp n))"

definition get_sys_config_by_key ::
    "'s storage_ops \<Rightarrow> sysconfig_env \<Rightarrow> string \<Rightarrow> 's \<Rightarrow> (string \<times> int) eval \<times> 's" where
  "get_sys_config_by_key ops E key s =
     (if \<not> st_open ops s (sc_table E) then (Undef, s)
      else case st_get ops s (sc_table E) key of
        (None, s1) \<Rightarrow> (Val ([], -1), s1)
      | (Some v, s1) \<Rightarrow> (Val (case sc_dec E v of None \<Rightarrow> ([], -1) | Some p \<Rightarrow> p), s1))"

definition set_value_by_key ::
    "'s storage_ops \<Rightarrow> sysconfig_env \<Rightarrow> string \<Rightarrow> string \<Rightarrow> 's \<Rightarrow> int eval \<times> 's" where
  "set_value_by_key ops E key val s =
     (let k = map lower_char key in
      if \<not> check_value_valid E k val then (Val CODE_INVALID_CONFIGURATION_VALUES, s)
      else if \<not> st_open ops s (sc_table E) then (Undef, s)
      else (Val 0, st_set ops s (sc_table E) k (sc_enc E (val, sc_number E + 1))))"

text \<open>\<open>call\<close> without the gas; an unsigned 256-bit number is made from the block number.\<close>

fun sysconfig_run ::
    "'s storage_ops \<Rightarrow> sysconfig_env \<Rightarrow> sysconfig_call \<Rightarrow> 's \<Rightarrow> sysconfig_answer eval \<times> 's" where
  "sysconfig_run ops E (SetValueByKey key val) s =
     (case set_value_by_key ops E key val s of
        (Val c, s1) \<Rightarrow> (Val (ScCode c), s1)
      | (Throw m, s1) \<Rightarrow> (Throw m, s1)
      | (Undef, s1) \<Rightarrow> (Undef, s1))"
| "sysconfig_run ops E (GetValueByKey key) s =
     (case get_sys_config_by_key ops E (map lower_char key) s of
        (Val (v, n), s1) \<Rightarrow> (Val (ScPair v (of_int n)), s1)
      | (Throw m, s1) \<Rightarrow> (Throw m, s1)
      | (Undef, s1) \<Rightarrow> (Undef, s1))"
| "sysconfig_run ops E SysUnknown s = (Val ScNothing, s)"

text \<open>\<open>call\<close>: a refused value returns before the gas is set, which leaves the gas zero.\<close>

definition sysconfig_dispatch ::
    "'s storage_ops \<Rightarrow> sysconfig_env \<Rightarrow> (sysconfig_answer \<Rightarrow> bytes) \<Rightarrow> sysconfig_call \<Rightarrow> 's
     \<Rightarrow> (bytes \<times> u64) eval \<times> 's" where
  "sysconfig_dispatch ops E enc c s =
     (case sysconfig_run ops E c s of
        (Val a, s1) \<Rightarrow>
          (let out = (if a = ScNothing then [] else enc a)
           in (Val (out, if a = ScCode CODE_INVALID_CONFIGURATION_VALUES then 0
                         else cal_total_gas (update_mem_used (of_nat (length out)) create_precompiled_gas)), s1))
      | (Throw m, s1) \<Rightarrow> (Throw m, s1)
      | (Undef, s1) \<Rightarrow> (Undef, s1))"

section \<open>Lemmas\<close>

lemma sysconfig_consts: "TX_COUNT_LIMIT_MIN = 1" "TX_GAS_LIMIT_MIN = 100000"
  by (simp_all add: TX_COUNT_LIMIT_MIN_def TX_GAS_LIMIT_MIN_def)

locale sysconfig_store = table_storage ops inv
  for ops :: "'s storage_ops" and inv +
  fixes E :: sysconfig_env
  assumes dec_enc: "sc_dec E (sc_enc E p) = Some p"
    and not_sys: "sc_table E \<noteq> st_sys ops"
begin

lemma get_answer:
  assumes "inv s" and "st_open ops s (sc_table E)"
  shows "fst (sysconfig_run ops E (GetValueByKey key) s) =
    Val (case row ops s (sc_table E) (map lower_char key) of
           None \<Rightarrow> ScPair [] (-1)
         | Some v \<Rightarrow> (case sc_dec E v of None \<Rightarrow> ScPair [] (-1) | Some (x, n) \<Rightarrow> ScPair x (of_int n)))"
  using assms
  by (auto simp: get_sys_config_by_key_def row_def split: option.split prod.split)

lemma set_then_get:
  assumes "inv s" and "st_open ops s (sc_table E)" and "check_value_valid E (map lower_char key) val"
  shows "\<exists>s'. sysconfig_run ops E (SetValueByKey key val) s = (Val (ScCode 0), s') \<and> inv s'
    \<and> (\<forall>key'. fst (sysconfig_run ops E (GetValueByKey key') s') =
        (if map lower_char key' = map lower_char key then Val (ScPair val (of_int (sc_number E + 1)))
         else fst (sysconfig_run ops E (GetValueByKey key') s)))"
proof -
  let ?s = "st_set ops s (sc_table E) (map lower_char key) (sc_enc E (val, sc_number E + 1))"
  have run: "sysconfig_run ops E (SetValueByKey key val) s = (Val (ScCode 0), ?s)"
    using assms by (simp add: set_value_by_key_def Let_def)
  have inv: "inv ?s" and op: "st_open ops ?s (sc_table E)"
    using assms not_sys by (simp_all add: set_inv set_open)
  have "fst (sysconfig_run ops E (GetValueByKey key') ?s) =
      (if map lower_char key' = map lower_char key then Val (ScPair val (of_int (sc_number E + 1)))
       else fst (sysconfig_run ops E (GetValueByKey key') s))" for key'
    unfolding get_answer [OF inv op] get_answer [OF assms(1,2)] set_row [OF assms(1,2) not_sys]
    by (simp add: dec_enc)
  then show ?thesis using run inv by blast
qed

end

section \<open>The interpretation\<close>

type_synonym value_code = "string \<times> int"

definition mem_config :: sysconfig_env where
  "mem_config = \<lparr>sc_table = ''s_config'', sc_gas_key = ''tx_gas_limit'',
     sc_leader_key = ''consensus_leader_period'', sc_count_key = ''tx_count_limit'',
     sc_enc = (count_enc :: value_code \<Rightarrow> string), sc_dec = count_dec,
     sc_parse = (\<lambda>v. Some (int (nat_of_dec v))), sc_number = 7\<rparr>"

interpretation mem_values: sysconfig_store mem_ops "\<lambda>_. True" mem_config
  by unfold_locales (simp_all add: mem_config_def mem_sys_def counted.dec_enc)

section \<open>Properties\<close>

text \<open>C38: the system configuration accepts a value exactly for its three keys, in any case, with a
  number above 100000 for the gas limit and of at least one for the others; an accepted value is
  read back with the number of the next block, every other key keeps its answer, and a refused
  one changes nothing.\<close>
theorem system_config_set_get:
  assumes "sysconfig_store ops I E" and "I s" and "st_open ops s (sc_table E)"
    and "distinct [sc_gas_key E, sc_leader_key E, sc_count_key E]"
  shows "let k = map lower_char key in
    (if val \<noteq> [] \<and> (\<exists>n. sc_parse E val = Some n
          \<and> (k = sc_gas_key E \<and> n > 100000 \<or> k \<in> {sc_leader_key E, sc_count_key E} \<and> n \<ge> 1))
     then \<exists>s'. sysconfig_run ops E (SetValueByKey key val) s = (Val (ScCode 0), s') \<and> I s'
       \<and> (\<forall>key'. fst (sysconfig_run ops E (GetValueByKey key') s') =
            (if map lower_char key' = k then Val (ScPair val (of_int (sc_number E + 1)))
             else fst (sysconfig_run ops E (GetValueByKey key') s)))
     else sysconfig_run ops E (SetValueByKey key val) s = (Val (ScCode (-51300)), s))"
proof -
  let ?k = "map lower_char key"
  have valid: "check_value_valid E ?k val \<longleftrightarrow> val \<noteq> [] \<and> (\<exists>n. sc_parse E val = Some n
      \<and> (?k = sc_gas_key E \<and> n > 100000 \<or> ?k \<in> {sc_leader_key E, sc_count_key E} \<and> n \<ge> 1))"
    using assms(4) by (auto simp: check_value_valid_def sys_value_cmp_def sysconfig_consts split: option.split)
  show ?thesis
  proof (cases "check_value_valid E ?k val")
    case True
    then show ?thesis
      using sysconfig_store.set_then_get [OF assms(1-3) True] valid
      by (simp del: sysconfig_run.simps add: Let_def)
  next
    case False
    then have "sysconfig_run ops E (SetValueByKey key val) s = (Val (ScCode (-51300)), s)"
      by (simp add: set_value_by_key_def CODE_INVALID_CONFIGURATION_VALUES_def)
    then show ?thesis using False valid by (simp del: sysconfig_run.simps add: Let_def)
  qed
qed

definition config_mem :: mem where
  "config_mem = mem_empty(mem_sys := [''s_config'' \<mapsto> ''value''])"

theorem system_config_set_get_witness:
  "\<exists>s'. sysconfig_run mem_ops mem_config (SetValueByKey ''Tx_Count_Limit'' ''9'') config_mem = (Val (ScCode 0), s')
     \<and> fst (sysconfig_run mem_ops mem_config (GetValueByKey ''tx_count_limit'') s') = Val (ScPair ''9'' 8)"
proof -
  define K L :: string where K: "K = ''Tx_Count_Limit''" and L: "L = ''tx_count_limit''"
  let ?c = "sc_count_key mem_config"
  have k: "map lower_char K = ?c" "map lower_char L = ?c"
    unfolding K L mem_config_def sysconfig_env.simps by code_simp+
  have o: "st_open mem_ops config_mem (sc_table mem_config)"
    by (simp add: config_mem_def mem_config_def mem_empty_def)
  have p: "sc_parse mem_config ''9'' = Some 9" by (simp add: mem_config_def nat_of_dec_def)
  have e: "distinct [sc_gas_key mem_config, sc_leader_key mem_config, sc_count_key mem_config]"
    by (simp add: mem_config_def)
  have n: "sc_number mem_config = 7" by (simp add: mem_config_def)
  obtain s' where s': "sysconfig_run mem_ops mem_config (SetValueByKey K ''9'') config_mem = (Val (ScCode 0), s')"
      "\<forall>key'. fst (sysconfig_run mem_ops mem_config (GetValueByKey key') s') =
        (if map lower_char key' = ?c then Val (ScPair ''9'' (of_int (sc_number mem_config + 1)))
         else fst (sysconfig_run mem_ops mem_config (GetValueByKey key') config_mem))"
    using system_config_set_get [OF mem_values.sysconfig_store_axioms TrueI o e, of K "''9''"]
    by (auto simp del: sysconfig_run.simps simp: k p Let_def)
  then have "fst (sysconfig_run mem_ops mem_config (GetValueByKey L) s') = Val (ScPair ''9'' 8)"
    by (simp del: sysconfig_run.simps add: k n)
  then show ?thesis using s'(1) unfolding K L by blast
qed

end
