(* ===== verification/Tables.thy ===== *)
theory Tables imports FileSystem begin

text \<open>
  User tables: \<open>KVTableFactoryPrecompiled\<close> and \<open>TableFactoryPrecompiled\<close> of
  \<open>src/precompiled\<close>, the conditions of \<open>Utilities.cpp\<close> they use, and the listing of a new table in
  its directory.  Parameters of the model: the storage with its query for primary keys, the text
  algorithms, the codecs of directories and entries, and the size an entry reports.

  An answer is a value given to the ABI encoder.
\<close>

section \<open>Data\<close>

type_synonym entry_tuple = "(string \<times> string) list"
type_synonym condition_tuple = "(string \<times> string \<times> u8) list"
type_synonym key_condition = "(comparator \<times> string) list"

record 's tables_env =
  te_ops :: "'s storage_ops"
  te_text :: text_ops
  te_dirs :: dir_codec
  te_enc :: "entry_tuple \<Rightarrow> string"
  te_dec :: "string \<Rightarrow> entry_tuple option"
  te_keys :: "string \<Rightarrow> key_condition \<Rightarrow> 's \<Rightarrow> string list \<times> 's"
  te_size :: "string \<Rightarrow> u64"

datatype table_answer =
    TaNothing
  | TaCode int
  | TaNumber u256
  | TaEntry bool entry_tuple
  | TaEntries "entry_tuple list"
  | TaEmptyTuple
  | TaFields string string

type_synonym 's table_result = "(table_answer \<times> precompiled_gas) eval \<times> 's"

definition CODE_TABLE_NAME_ALREADY_EXIST :: int where "CODE_TABLE_NAME_ALREADY_EXIST = -50001"
definition CODE_TABLE_CREATE_ERROR :: int where "CODE_TABLE_CREATE_ERROR = -50104"
definition CODE_TABLE_KEY_VALUE_LENGTH_OVERFLOW :: int where
  "CODE_TABLE_KEY_VALUE_LENGTH_OVERFLOW = -50005"
definition CODE_INSERT_KEY_EXIST :: int where "CODE_INSERT_KEY_EXIST = -51506"
definition CODE_UPDATE_KEY_NOT_EXIST :: int where "CODE_UPDATE_KEY_NOT_EXIST = -51507"
definition USER_TABLE_KEY_VALUE_MAX_LENGTH :: nat where "USER_TABLE_KEY_VALUE_MAX_LENGTH = 255"
definition USER_TABLE_FIELD_VALUE_MAX_LENGTH :: nat where
  "USER_TABLE_FIELD_VALUE_MAX_LENGTH = 16 * 1024 * 1024 - 1"

text \<open>The two parts of \<open>"values,key"\<close> at its last comma; without one both are the whole text.\<close>

definition key_part :: "string \<Rightarrow> string" where
  "key_part v = rev (takeWhile (\<lambda>c. c \<noteq> CHR '','') (rev v))"

definition value_part :: "string \<Rightarrow> string" where
  "value_part v = (if CHR '','' \<in> set v then rev (tl (dropWhile (\<lambda>c. c \<noteq> CHR '','') (rev v))) else v)"

section \<open>Creating a table\<close>

text \<open>Both factories: build the directories, create the table, note its fields in the list of
  tables, and put it into the content of its directory.  The key-value factory writes this content
  back to the row \<open>FS_KEY_SUB\<close>, the other one to a row with the name of the table.\<close>

definition list_in_parent ::
    "'s tables_env \<Rightarrow> bool \<Rightarrow> string \<Rightarrow> string \<Rightarrow> 's \<Rightarrow> int eval \<times> 's" where
  "list_in_parent E kv parent base s =
     (if \<not> st_open (te_ops E) s parent then (Undef, s)
      else case st_get (te_ops E) s parent FS_KEY_SUB of
        (None, s1) \<Rightarrow> (Undef, s1)
      | (Some v, s1) \<Rightarrow>
          (case dc_dec (te_dirs E) v of
             None \<Rightarrow> (Throw ''decode'', s1)
           | Some m \<Rightarrow>
               (Val 0, st_set (te_ops E) s1 parent (if kv then FS_KEY_SUB else base)
                  (dc_enc (te_dirs E) (map_insert base FS_TYPE_CONTRACT m)))))"

definition create_in_dir ::
    "'s tables_env \<Rightarrow> bool \<Rightarrow> string \<Rightarrow> string \<Rightarrow> string \<Rightarrow> 's \<Rightarrow> int eval \<times> 's" where
  "create_in_dir E kv t k v s =
     (case get_parent_dir_and_base_name (te_text E) t of
        None \<Rightarrow> (Throw ''out_of_range'', s)
      | Some (parent, base) \<Rightarrow>
        (case recursive_build_dir (te_text E) (te_ops E) (te_dirs E) parent s of
           (Throw m, s1) \<Rightarrow> (Throw m, s1)
         | (Undef, s1) \<Rightarrow> (Undef, s1)
         | (Val False, s1) \<Rightarrow> (Val CODE_FILE_BUILD_DIR_FAILED, s1)
         | (Val True, s1) \<Rightarrow>
             (let (ret, s2) = st_create (te_ops E) s1 t v; sys = st_sys (te_ops E) in
              if \<not> st_open (te_ops E) s2 sys then (Undef, s2)
              else case st_get (te_ops E) s2 sys t of
                (None, s3) \<Rightarrow> (Val CODE_TABLE_CREATE_ERROR, s3)
              | (Some _, s3) \<Rightarrow>
                  (if \<not> ret then (Val CODE_TABLE_CREATE_ERROR, s3)
                   else list_in_parent E kv parent base (st_set (te_ops E) s3 sys t (v @ '','' @ k))))))"

text \<open>The gas of \<open>createTable\<close>: \<open>CreateTable\<close> is charged once the fields are noted.\<close>

definition created_gas :: "int \<Rightarrow> precompiled_gas \<Rightarrow> precompiled_gas" where
  "created_gas c g = (if c = 0 then append_operation OpCreateTable 1 g else g)"

definition kv_create ::
    "'s tables_env \<Rightarrow> string \<Rightarrow> string \<Rightarrow> string \<Rightarrow> precompiled_gas \<Rightarrow> 's \<Rightarrow> 's table_result" where
  "kv_create E name k v g s =
     (if name = [] then (Throw ''PrecompiledError'', s)
      else case check_create_table_param (te_text E) name k v of
        Inl _ \<Rightarrow> (Throw ''PrecompiledError'', s)
      | Inr (k1, v1) \<Rightarrow>
        (let t = get_table_name name; g1 = append_operation OpOpenTable 1 g in
         if st_open (te_ops E) s t then (Val (TaCode CODE_TABLE_NAME_ALREADY_EXIST, g1), s)
         else case create_in_dir E True t k1 v1 s of
           (Val c, s1) \<Rightarrow> (Val (TaCode c, created_gas c g1), s1)
         | (Throw m, s1) \<Rightarrow> (Throw m, s1)
         | (Undef, s1) \<Rightarrow> (Undef, s1)))"

definition tf_create ::
    "'s tables_env \<Rightarrow> string \<Rightarrow> string \<Rightarrow> string \<Rightarrow> precompiled_gas \<Rightarrow> 's \<Rightarrow> 's table_result" where
  "tf_create E name k v g s =
     (case check_create_table_param (te_text E) name k v of
        Inl _ \<Rightarrow> (Throw ''PrecompiledError'', s)
      | Inr (k1, v1) \<Rightarrow>
        (let t = get_table_name name in
         if st_open (te_ops E) s t then (Val (TaCode CODE_TABLE_NAME_ALREADY_EXIST, g), s)
         else case create_in_dir E False t k1 v1 s of
           (Val c, s1) \<Rightarrow> (Val (TaCode c, created_gas c g), s1)
         | (Throw m, s1) \<Rightarrow> (Throw m, s1)
         | (Undef, s1) \<Rightarrow> (Undef, s1)))"

section \<open>The key-value factory\<close>

definition kv_get :: "'s tables_env \<Rightarrow> string \<Rightarrow> string \<Rightarrow> precompiled_gas \<Rightarrow> 's \<Rightarrow> 's table_result" where
  "kv_get E name key g s =
     (let t = get_table_name name in
      if \<not> st_open (te_ops E) s t then (Throw ''PrecompiledError'', s)
      else let g1 = append_operation OpSelect 1 g in
        case st_get (te_ops E) s t key of
          (None, s1) \<Rightarrow> (Val (TaEntry False [], g1), s1)
        | (Some v, s1) \<Rightarrow>
            (case te_dec E v of
               None \<Rightarrow> (Throw ''archive'', s1)
             | Some e \<Rightarrow> (Val (TaEntry True e, update_mem_used (te_size E v) g1), s1)))"

definition kv_set ::
    "'s tables_env \<Rightarrow> string \<Rightarrow> string \<Rightarrow> entry_tuple \<Rightarrow> precompiled_gas \<Rightarrow> 's \<Rightarrow> 's table_result" where
  "kv_set E name key e g s =
     (let t = get_table_name name in
      if \<not> st_open (te_ops E) s t then (Throw ''PrecompiledError'', s)
      else if length key > USER_TABLE_KEY_VALUE_MAX_LENGTH then (Throw ''PrecompiledError'', s)
      else if list_ex (\<lambda>(_, x). length x > USER_TABLE_FIELD_VALUE_MAX_LENGTH) e
        then (Throw ''PrecompiledError'', s)
      else (Val (TaNumber 1, append_operation OpInsert 1 (g\<lparr>mem_used := te_size E (te_enc E e)\<rparr>)),
            st_set (te_ops E) s t key (te_enc E e)))"

definition kv_desc :: "'s tables_env \<Rightarrow> string \<Rightarrow> precompiled_gas \<Rightarrow> 's \<Rightarrow> 's table_result" where
  "kv_desc E name g s =
     (let t = get_table_name name; g1 = append_operation OpOpenTable 1 g in
      if \<not> st_open (te_ops E) s (st_sys (te_ops E)) then (Undef, s)
      else case st_get (te_ops E) s (st_sys (te_ops E)) t of
        (None, s1) \<Rightarrow> (Val (TaFields [] [], g1), s1)
      | (Some v, s1) \<Rightarrow>
          (if st_open (te_ops E) s t then (Val (TaFields (key_part v) (value_part v), g1), s1)
           else (Val (TaFields [] [], g1), s1)))"

section \<open>Conditions\<close>

text \<open>The cast of the \<open>uint8\<close> of a condition; another number is no enumerator.\<close>

definition comparator_of :: "u8 \<Rightarrow> comparator option" where
  "comparator_of w =
     (if w = 0 then Some CmpEQ else if w = 1 then Some CmpNE else if w = 2 then Some CmpGT
      else if w = 3 then Some CmpGE else if w = 4 then Some CmpLT else if w = 5 then Some CmpLE
      else None)"

definition transfer_key_cond :: "comparator option \<Rightarrow> string \<Rightarrow> key_condition \<Rightarrow> key_condition" where
  "transfer_key_cond c v kc = (case c of None \<Rightarrow> kc | Some CmpEQ \<Rightarrow> kc | Some c \<Rightarrow> kc @ [(c, v)])"

record condition_ctx =
  cc_entry :: condition_tuple
  cc_key :: key_condition
  cc_eq :: "string list"
  cc_flag :: bool

definition add_cond :: "string \<Rightarrow> string \<times> string \<times> u8 \<Rightarrow> condition_ctx \<Rightarrow> condition_ctx" where
  "add_cond keyField c x =
     (let (k, v, w) = c; x1 = x\<lparr>cc_entry := cc_entry x @ [c]\<rparr> in
      if k \<noteq> keyField then x1
      else if comparator_of w = Some CmpEQ then x1\<lparr>cc_flag := True, cc_eq := cc_eq x @ [v]\<rparr>
      else x1\<lparr>cc_flag := True, cc_key := transfer_key_cond (comparator_of w) v (cc_key x)\<rparr>)"

definition build_condition_ctx :: "condition_tuple \<Rightarrow> string \<Rightarrow> condition_ctx" where
  "build_condition_ctx cs keyField =
     fold (add_cond keyField) cs \<lparr>cc_entry = [], cc_key = [], cc_eq = [], cc_flag = False\<rparr>"

text \<open>\<open>Condition::filter\<close>: the body is commented out, it returns \<open>true\<close> for every entry.\<close>

definition condition_filter :: "condition_tuple \<Rightarrow> string option \<Rightarrow> bool" where
  "condition_filter cs e = True"

text \<open>The keys of a \<open>std::set\<close>, in their order.\<close>

definition key_set :: "string list \<Rightarrow> string list \<Rightarrow> string list" where
  "key_set ks eqs = sort (remdups (ks @ eqs))"

section \<open>The table factory\<close>

definition get_table_field :: "'s tables_env \<Rightarrow> string \<Rightarrow> 's \<Rightarrow> (string \<times> string) eval \<times> 's" where
  "get_table_field E t s =
     (if \<not> st_open (te_ops E) s (st_sys (te_ops E)) then (Undef, s)
      else case st_get (te_ops E) s (st_sys (te_ops E)) t of
        (None, s1) \<Rightarrow> (Throw ''PrecompiledError'', s1)
      | (Some v, s1) \<Rightarrow>
          (if st_open (te_ops E) s t then (Val (key_part v, value_part v), s1)
           else (Throw ''PrecompiledError'', s1)))"

text \<open>The loops over the keys: reading, replacing and deleting the rows that pass the filter.\<close>

fun select_rows ::
    "'s tables_env \<Rightarrow> string \<Rightarrow> condition_tuple \<Rightarrow> string list \<Rightarrow> 's \<Rightarrow> entry_tuple list eval \<times> 's" where
  "select_rows E t cs [] s = (Val [], s)"
| "select_rows E t cs (k # ks) s =
     (case st_get (te_ops E) s t k of (e, s1) \<Rightarrow>
        if \<not> condition_filter cs e then select_rows E t cs ks s1
        else case e of
          None \<Rightarrow> (Undef, s1)
        | Some v \<Rightarrow>
            (case te_dec E v of
               None \<Rightarrow> (Throw ''archive'', s1)
             | Some x \<Rightarrow>
                 (case select_rows E t cs ks s1 of
                    (Val xs, s2) \<Rightarrow> (Val (x # xs), s2)
                  | r \<Rightarrow> r)))"

fun update_rows ::
    "'s tables_env \<Rightarrow> string \<Rightarrow> condition_tuple \<Rightarrow> string \<Rightarrow> string list \<Rightarrow> 's \<Rightarrow> nat \<times> 's" where
  "update_rows E t cs v [] s = (0, s)"
| "update_rows E t cs v (k # ks) s =
     (let (e, s1) = st_get (te_ops E) s t k;
          (n, s2) = update_rows E t cs v ks
            (if condition_filter cs e then st_set (te_ops E) s1 t k v else s1)
      in (if condition_filter cs e then n + 1 else n, s2))"

fun remove_rows ::
    "'s tables_env \<Rightarrow> string \<Rightarrow> condition_tuple \<Rightarrow> string list \<Rightarrow> 's \<Rightarrow> 's" where
  "remove_rows E t cs [] s = s"
| "remove_rows E t cs (k # ks) s =
     (let (e, s1) = st_get (te_ops E) s t k
      in remove_rows E t cs ks (if condition_filter cs e then st_del (te_ops E) s1 t k else s1))"

text \<open>The first key the loop over the equal keys does not find.\<close>

fun missing_key :: "'s storage_ops \<Rightarrow> string \<Rightarrow> string list \<Rightarrow> 's \<Rightarrow> bool \<times> 's" where
  "missing_key ops t [] s = (False, s)"
| "missing_key ops t (k # ks) s =
     (case st_get ops s t k of (None, s1) \<Rightarrow> (True, s1) | (Some _, s1) \<Rightarrow> missing_key ops t ks s1)"

definition tf_select ::
    "'s tables_env \<Rightarrow> string \<Rightarrow> condition_tuple \<Rightarrow> precompiled_gas \<Rightarrow> 's \<Rightarrow> 's table_result" where
  "tf_select E name cs g s =
     (let t = get_table_name name in
      case get_table_field E t s of
        (Throw m, s1) \<Rightarrow> (Throw m, s1)
      | (Undef, s1) \<Rightarrow> (Undef, s1)
      | (Val (keyField, _), s1) \<Rightarrow>
          (let x = build_condition_ctx cs keyField in
           if \<not> cc_flag x then (Val (TaEmptyTuple, g), s1)
           else let (ks, s2) = te_keys E t (cc_key x) s1 in
             case select_rows E t (cc_entry x) (key_set ks (cc_eq x)) s2 of
               (Val es, s3) \<Rightarrow>
                 (Val (TaEntries es, append_operation OpSelect (of_nat (length es))
                    (update_mem_used (of_nat (length es)) g)), s3)
             | (Throw m, s3) \<Rightarrow> (Throw m, s3)
             | (Undef, s3) \<Rightarrow> (Undef, s3)))"

text \<open>\<open>insert\<close>: the key is the last field with the name of the key field.  An empty key is
  reported, but the function goes on and the report is overwritten.\<close>

definition key_of_entry :: "string \<Rightarrow> entry_tuple \<Rightarrow> string" where
  "key_of_entry keyField e = fold (\<lambda>(f, v) k. if f = keyField then v else k) e []"

definition tf_insert ::
    "'s tables_env \<Rightarrow> string \<Rightarrow> entry_tuple \<Rightarrow> precompiled_gas \<Rightarrow> 's \<Rightarrow> 's table_result" where
  "tf_insert E name e g s =
     (let t = get_table_name name in
      case get_table_field E t s of
        (Throw m, s1) \<Rightarrow> (Throw m, s1)
      | (Undef, s1) \<Rightarrow> (Undef, s1)
      | (Val (keyField, _), s1) \<Rightarrow>
          (if list_ex (\<lambda>(_, x). length x > USER_TABLE_FIELD_VALUE_MAX_LENGTH) e
           then (Throw ''PrecompiledError'', s1)
           else let key = key_of_entry keyField e in
             case st_get (te_ops E) s1 t key of
               (Some _, s2) \<Rightarrow> (Val (TaCode CODE_INSERT_KEY_EXIST, g), s2)
             | (None, s2) \<Rightarrow>
                 (Val (TaNumber 1, update_mem_used (te_size E (te_enc E e)) (append_operation OpInsert 1 g)),
                  st_set (te_ops E) s2 t key (te_enc E e))))"

definition tf_update ::
    "'s tables_env \<Rightarrow> string \<Rightarrow> entry_tuple \<Rightarrow> condition_tuple \<Rightarrow> precompiled_gas \<Rightarrow> 's \<Rightarrow> 's table_result" where
  "tf_update E name e cs g s =
     (let t = get_table_name name in
      case get_table_field E t s of
        (Throw m, s1) \<Rightarrow> (Throw m, s1)
      | (Undef, s1) \<Rightarrow> (Undef, s1)
      | (Val (keyField, _), s1) \<Rightarrow>
          (let x = build_condition_ctx cs keyField in
           if \<not> cc_flag x then (Val (TaEmptyTuple, g), s1)
           else case missing_key (te_ops E) t (cc_eq x) s1 of
             (True, s2) \<Rightarrow> (Val (TaCode CODE_UPDATE_KEY_NOT_EXIST, g), s2)
           | (False, s2) \<Rightarrow>
               (let (ks, s3) = te_keys E t (cc_key x) s2;
                    v = te_enc E e;
                    (n, s4) = update_rows E t (cc_entry x) v (key_set ks (cc_eq x)) s3
                in (Val (TaNumber (of_nat n),
                      append_operation OpUpdate (of_nat n) (g\<lparr>mem_used := te_size E v\<rparr>)), s4))))"

definition tf_remove ::
    "'s tables_env \<Rightarrow> string \<Rightarrow> condition_tuple \<Rightarrow> precompiled_gas \<Rightarrow> 's \<Rightarrow> 's table_result" where
  "tf_remove E name cs g s =
     (let t = get_table_name name in
      case get_table_field E t s of
        (Throw m, s1) \<Rightarrow> (Throw m, s1)
      | (Undef, s1) \<Rightarrow> (Undef, s1)
      | (Val (keyField, _), s1) \<Rightarrow>
          (let x = build_condition_ctx cs keyField in
           if \<not> cc_flag x then (Val (TaEmptyTuple, g), s1)
           else let (ks, s2) = te_keys E t (cc_key x) s1
             in (Val (TaNumber 1, append_operation OpRemove 1 g),
                 remove_rows E t (cc_entry x) (key_set ks (cc_eq x)) s2)))"

definition tf_desc :: "'s tables_env \<Rightarrow> string \<Rightarrow> precompiled_gas \<Rightarrow> 's \<Rightarrow> 's table_result" where
  "tf_desc E name g s =
     (case get_table_field E (get_table_name name) s of
        (Throw m, s1) \<Rightarrow> (Throw m, s1)
      | (Undef, s1) \<Rightarrow> (Undef, s1)
      | (Val (k, v), s1) \<Rightarrow> (Val (TaFields k v, append_operation OpOpenTable 1 g), s1))"

section \<open>Dispatch\<close>

datatype kv_call =
    KvCreate string string string | KvSet string string entry_tuple | KvGet string string
  | KvDesc string | KvUnknown

fun kv_run :: "'s tables_env \<Rightarrow> kv_call \<Rightarrow> precompiled_gas \<Rightarrow> 's \<Rightarrow> 's table_result" where
  "kv_run E (KvCreate n k v) g s = kv_create E n k v g s"
| "kv_run E (KvSet n k e) g s = kv_set E n k e g s"
| "kv_run E (KvGet n k) g s = kv_get E n k g s"
| "kv_run E (KvDesc n) g s = kv_desc E n g s"
| "kv_run E KvUnknown g s = (Val (TaNothing, g), s)"

datatype tf_call =
    TfCreate string string string | TfSelect string condition_tuple | TfInsert string entry_tuple
  | TfUpdate string entry_tuple condition_tuple | TfRemove string condition_tuple | TfDesc string | TfUnknown

fun tf_run :: "'s tables_env \<Rightarrow> tf_call \<Rightarrow> precompiled_gas \<Rightarrow> 's \<Rightarrow> 's table_result" where
  "tf_run E (TfCreate n k v) g s = tf_create E n k v g s"
| "tf_run E (TfSelect n cs) g s = tf_select E n cs g s"
| "tf_run E (TfInsert n e) g s = tf_insert E n e g s"
| "tf_run E (TfUpdate n e cs) g s = tf_update E n e cs g s"
| "tf_run E (TfRemove n cs) g s = tf_remove E n cs g s"
| "tf_run E (TfDesc n) g s = tf_desc E n g s"
| "tf_run E TfUnknown g s = (Val (TaNothing, g), s)"

text \<open>The end of \<open>call\<close>: the answer is encoded and the gas computed from its size.\<close>

definition table_finish ::
    "(table_answer \<Rightarrow> bytes) \<Rightarrow> 's table_result \<Rightarrow> (bytes \<times> u64) eval \<times> 's" where
  "table_finish enc r =
     (case r of
        (Val (a, g), s) \<Rightarrow>
          (let out = (if a = TaNothing then [] else enc a)
           in (Val (out, cal_total_gas (update_mem_used (of_nat (length out)) g)), s))
      | (Throw m, s) \<Rightarrow> (Throw m, s)
      | (Undef, s) \<Rightarrow> (Undef, s))"

definition kv_dispatch where
  "kv_dispatch E enc n c s =
     table_finish enc (kv_run E c (create_precompiled_gas\<lparr>mem_used := of_nat n\<rparr>) s)"

definition tf_dispatch where
  "tf_dispatch E enc n c s =
     table_finish enc (tf_run E c (create_precompiled_gas\<lparr>mem_used := of_nat n\<rparr>) s)"

end
