(* ===== verification/TablesSpec.thy ===== *)
theory TablesSpec imports Tables FileSystemSpec begin

text \<open>
  Correctness of the user tables: creating a table in an existing directory, writing and reading
  entries, and which rows the conditions of the table factory touch.  The locale \<open>user_tables\<close>
  adds to the storage contract what it leaves open, the list of tables, and the query for keys.
\<close>

section \<open>Existing directories\<close>

context file_tree
begin

lemma alike_present: "alike s s' \<Longrightarrow> path_present ops C c s' root ds = path_present ops C c s root ds"
  by (induction ds arbitrary: root) (simp_all add: alike_def is_dir_def dir_entry_def)

lemma alike_trans: "alike s t \<Longrightarrow> alike t u \<Longrightarrow> alike s u"
  by (simp add: alike_def)

lemma dir_is_open: "inv s \<Longrightarrow> is_dir ops s p \<Longrightarrow> st_open ops s p"
  using closed_row by (force simp: is_dir_def)

text \<open>Building directories that are there only reads.\<close>

lemma build_existing:
  assumes "inv s" and "tree_ok ops C s" and "path_present ops C False s (CHR ''/'' # r) ds"
  shows "\<exists>s'. build_dirs ops C False ds (CHR ''/'' # r) s = (Val True, s') \<and> alike s s'"
  using assms
proof (induction ds arbitrary: r s)
  case Nil
  then show ?case by (auto simp: alike_def)
next
  case (Cons d ds)
  obtain q where q: "child_path (CHR ''/'' # r) d = CHR ''/'' # q" using child_path_root by blast
  have dirs: "is_dir ops s (CHR ''/'' # r)" "is_dir ops s (CHR ''/'' # q)"
    "path_present ops C False s (CHR ''/'' # q) ds" using Cons.prems(3) q by auto
  obtain s1 where g: "st_get ops s (CHR ''/'' # r) FS_KEY_TYPE = (Some FS_TYPE_DIR, s1)" and a1: "alike s s1"
    using getE [OF Cons.prems(1)] tree_okD(1) [OF Cons.prems(2) dirs(1)] by metis
  have i1: "inv s1" "\<And>t k. row ops s1 t k = row ops s t k" "\<And>t. st_open ops s1 t = st_open ops s t"
    using a1 by (simp_all add: alike_def)
  obtain s2 where g2: "st_get ops s1 (CHR ''/'' # q) FS_KEY_TYPE = (Some FS_TYPE_DIR, s2)" and a2: "alike s1 s2"
    using getE [OF i1(1)] tree_okD(1) [OF Cons.prems(2) dirs(2)] i1(2) by metis
  have a: "alike s s2" using alike_trans [OF a1 a2] .
  then have "inv s2" "tree_ok ops C s2" "path_present ops C False s2 (CHR ''/'' # q) ds"
    using alike_tree [OF a] alike_present [OF a] Cons.prems(2) dirs(3) by (simp_all add: alike_def)
  then obtain s' where s': "build_dirs ops C False ds (CHR ''/'' # q) s2 = (Val True, s')" "alike s2 s'"
    using Cons.IH by blast
  have "build_dirs ops C False (d # ds) (CHR ''/'' # r) s = (Val True, s')"
    using s'(1) dir_is_open [OF Cons.prems(1) dirs(1)] dir_is_open [OF Cons.prems(1) dirs(2)]
    by (simp add: g g2 q i1(3) Let_def)
  then show ?case using alike_trans [OF a s'(2)] by blast
qed

end

section \<open>The interface\<close>

text \<open>What a condition on the key accepts, in the order of strings.\<close>

fun key_test :: "comparator \<Rightarrow> string \<Rightarrow> string \<Rightarrow> bool" where
  "key_test CmpEQ v k = (k = v)"
| "key_test CmpNE v k = (k \<noteq> v)"
| "key_test CmpGT v k = (k > v)"
| "key_test CmpGE v k = (k \<ge> v)"
| "key_test CmpLT v k = (k < v)"
| "key_test CmpLE v k = (k \<le> v)"

definition key_matches :: "key_condition \<Rightarrow> string \<Rightarrow> bool" where
  "key_matches kc k \<longleftrightarrow> (\<forall>(c, v) \<in> set kc. key_test c v k)"

locale user_tables = file_tree "te_ops E" inv "te_dirs E" + lib: text_lib "te_text E"
  for E :: "'s tables_env" and inv +
  assumes dec_enc: "te_dec E (te_enc E e) = Some e"
    and sys_open: "inv s \<Longrightarrow> st_open (te_ops E) s (st_sys (te_ops E))"
    and create_sys: "inv s \<Longrightarrow> \<not> st_open (te_ops E) s t \<Longrightarrow>
      row (te_ops E) (snd (st_create (te_ops E) s t f)) (st_sys (te_ops E)) t = Some f"
    and sys_row: "inv s \<Longrightarrow> row (te_ops E) s (st_sys (te_ops E)) t \<noteq> None \<Longrightarrow>
      row (te_ops E) (st_set (te_ops E) s (st_sys (te_ops E)) t v) t' k' =
        (if t' = st_sys (te_ops E) \<and> k' = t then Some v else row (te_ops E) s t' k')"
    and sys_keeps_open: "inv s \<Longrightarrow> row (te_ops E) s (st_sys (te_ops E)) t \<noteq> None \<Longrightarrow>
      st_open (te_ops E) (st_set (te_ops E) s (st_sys (te_ops E)) t v) t' = st_open (te_ops E) s t'"
    and keys_read: "inv s \<Longrightarrow> alike s (snd (te_keys E t kc s))"
    and keys_match: "inv s \<Longrightarrow>
      set (fst (te_keys E t kc s)) = {k. row (te_ops E) s t k \<noteq> None \<and> key_matches kc k}"
begin

abbreviation ops where "ops \<equiv> te_ops E"
abbreviation C where "C \<equiv> te_dirs E"
abbreviation T where "T \<equiv> te_text E"

section \<open>Creating\<close>

lemma list_in_parent_ok:
  assumes "inv s" and "is_dir ops s (CHR ''/'' # p)" and "row ops s (CHR ''/'' # p) FS_KEY_SUB = Some v"
    and "dc_dec C v = Some m"
  shows "\<exists>s'. list_in_parent E kv (CHR ''/'' # p) base s = (Val 0, s') \<and> inv s'
    \<and> (\<forall>t. st_open ops s' t = st_open ops s t)
    \<and> (\<forall>t k. row ops s' t k = (if t = CHR ''/'' # p \<and> k = (if kv then FS_KEY_SUB else base)
          then Some (dc_enc C (map_insert base FS_TYPE_CONTRACT m)) else row ops s t k))"
proof -
  obtain s1 where g: "st_get ops s (CHR ''/'' # p) FS_KEY_SUB = (Some v, s1)" and a: "alike s s1"
    using getE [OF assms(1)] assms(3) by metis
  have i: "inv s1" "st_open ops s1 (CHR ''/'' # p)"
    using a dir_is_open [OF assms(1,2)] by (simp_all add: alike_def)
  have "list_in_parent E kv (CHR ''/'' # p) base s = (Val 0, st_set ops s1 (CHR ''/'' # p)
      (if kv then FS_KEY_SUB else base) (dc_enc C (map_insert base FS_TYPE_CONTRACT m)))"
    using dir_is_open [OF assms(1,2)] g assms(4) by (simp add: list_in_parent_def)
  then show ?thesis
    using set_inv [OF i(1)] set_row [OF i slash_not_sys] set_open [OF i(1) slash_not_sys] a
    by (simp add: alike_def)
qed

text \<open>What creating a table leaves: the table is open, its fields are noted, the directory has the
  new content in one row, and nothing else changes.\<close>

definition created :: "bool \<Rightarrow> string list \<Rightarrow> string \<Rightarrow> string \<Rightarrow> 's \<Rightarrow> 's \<Rightarrow> bool" where
  "created kv ns k v s s' \<longleftrightarrow> inv s'
     \<and> (\<forall>t. st_open ops s' t = (t = lib.path_of ns \<or> st_open ops s t))
     \<and> row ops s' (st_sys ops) (lib.path_of ns) = Some (v @ '','' @ k)
     \<and> (\<exists>r m. row ops s (lib.path_of (butlast ns)) FS_KEY_SUB = Some r \<and> dc_dec C r = Some m
          \<and> (\<forall>t j. t \<noteq> st_sys ops \<longrightarrow> row ops s' t j =
               (if t = lib.path_of (butlast ns) \<and> j = (if kv then FS_KEY_SUB else last ns)
                then Some (dc_enc C (map_insert (last ns) FS_TYPE_CONTRACT m)) else row ops s t j)))"

lemma create_in_dir_ok:
  assumes "inv s" and "tree_ok ops C s" and "length ns \<ge> 2" and "list_all path_name_ok ns"
    and "path_present ops C False s ''/'' (butlast ns)" and "\<not> st_open ops s (lib.path_of ns)"
  shows "\<exists>s'. create_in_dir E kv (lib.path_of ns) k v s = (Val 0, s') \<and> created kv ns k v s s'"
proof -
  let ?sys = "st_sys ops" and ?t = "lib.path_of ns" and ?p = "lib.path_of (butlast ns)"
  have ne: "ns \<noteq> []" "butlast ns \<noteq> []" using assms(3) by (auto simp: butlast_conv_take)
  have pn: "list_all path_name_ok (butlast ns)" using assms(4) by (auto dest: in_set_butlastD simp: list_all_iff)
  have no: "[] \<notin> set (butlast ns)" using lib.names_no_slash [OF pn] by blast
  obtain q where q: "?p = CHR ''/'' # q" by (simp add: lib.path_of_def)
  have pd: "is_dir ops s ?p"
    using path_present_last [OF assms(5) ne(2)] lib.foldl_child_path [OF no] by simp
  obtain s1 where "build_dirs ops C False (butlast ns) ''/'' s = (Val True, s1)" and a1: "alike s s1"
    using build_existing [OF assms(1,2,5)] by blast
  then have b: "recursive_build_dir T ops C ?p s = (Val True, s1)"
    using lib.strip_path_of [OF ne(2) pn] lib.split_path_of [OF ne(2) pn]
    by (simp add: recursive_build_dir_def build_path_def) (simp add: lib.path_of_def)
  have s1: "inv s1" "\<And>t k. row ops s1 t k = row ops s t k" "\<And>t. st_open ops s1 t = st_open ops s t"
    using a1 by (simp_all add: alike_def)
  have cl: "\<not> st_open ops s1 ?t" using assms(6) s1(3) by simp
  obtain s2 where c: "st_create ops s1 ?t v = (True, s2)" using create_ok [OF s1(1) cl] by (metis prod.collapse)
  have s2: "inv s2" "\<And>t. st_open ops s2 t = (t = ?t \<or> st_open ops s t)"
      "\<And>t k. t \<noteq> ?sys \<Longrightarrow> row ops s2 t k = row ops s t k" "row ops s2 ?sys ?t = Some v"
    using create_inv [OF s1(1), of ?t v] create_open [OF s1(1) cl, of v] create_row [OF s1(1) cl, of _ v]
      create_sys [OF s1(1) cl, of v] by (simp_all add: c s1)
  obtain s3 where g: "st_get ops s2 ?sys ?t = (Some v, s3)" and a3: "alike s2 s3"
    using getE [OF s2(1)] s2(4) by metis
  have s3: "inv s3" "row ops s3 ?sys ?t \<noteq> None" using a3 s2(4) by (simp_all add: alike_def)
  let ?s4 = "st_set ops s3 ?sys ?t (v @ '','' @ k)"
  have s4: "inv ?s4" "\<And>t. st_open ops ?s4 t = (t = ?t \<or> st_open ops s t)"
      "\<And>t j. t \<noteq> ?sys \<Longrightarrow> row ops ?s4 t j = row ops s t j" "row ops ?s4 ?sys ?t = Some (v @ '','' @ k)"
    using set_inv [OF s3(1)] sys_keeps_open [OF s3] sys_row [OF s3] a3 s2
    by (simp_all add: alike_def)
  have pq: "?p \<noteq> ?sys" using slash_not_sys q by simp
  obtain r m where rm: "row ops s ?p FS_KEY_SUB = Some r" "dc_dec C r = Some m"
    using tree_okD(2) [OF assms(2), of q] pd q by auto
  have pd4: "is_dir ops ?s4 ?p" using pd s4(3) [OF pq] by (simp add: is_dir_def)
  obtain s5 where s5: "list_in_parent E kv ?p (last ns) ?s4 = (Val 0, s5)" "inv s5"
      "\<forall>t. st_open ops s5 t = st_open ops ?s4 t"
      "\<forall>t j. row ops s5 t j = (if t = ?p \<and> j = (if kv then FS_KEY_SUB else last ns)
          then Some (dc_enc C (map_insert (last ns) FS_TYPE_CONTRACT m)) else row ops ?s4 t j)"
    using list_in_parent_ok [of ?s4 q r m kv "last ns"] s4(1) pd4 rm s4(3) [OF pq] q by auto
  have "create_in_dir E kv ?t k v s = (Val 0, s5)"
    using b c g s5(1) sys_open [OF s2(1)]
    by (simp add: create_in_dir_def lib.parent_of_path [OF ne(1) assms(4)] Let_def)
  moreover have "created kv ns k v s s5"
    unfolding created_def using s5(2-4) s4(2-4) rm pq by auto
  ultimately show ?thesis by blast
qed


lemma key_part_of: "CHR '','' \<notin> set k \<Longrightarrow> key_part (v @ '','' @ k) = k"
proof -
  assume "CHR '','' \<notin> set k"
  then have "takeWhile (\<lambda>c. c \<noteq> CHR '','') (rev k) = rev k" by (auto simp: takeWhile_eq_all_conv)
  then have "rev (takeWhile (\<lambda>c. c \<noteq> CHR '','') (rev k)) = k" by (simp only: rev_rev_ident)
  then show ?thesis by (simp add: key_part_def takeWhile_tail)
qed

lemma value_part_of: "CHR '','' \<notin> set k \<Longrightarrow> value_part (v @ '','' @ k) = v"
proof -
  assume k: "CHR '','' \<notin> set k"
  have "dropWhile (\<lambda>c. c \<noteq> CHR '','') (rev (v @ '','' @ k)) = CHR '','' # rev v"
    using k by (simp add: dropWhile_append)
  then show ?thesis by (simp add: value_part_def)
qed

lemma field_read:
  assumes "inv s" and "row ops s (st_sys ops) t = Some v" and "st_open ops s t"
  obtains s' where "get_table_field E t s = (Val (key_part v, value_part v), s')" "alike s s'"
proof -
  obtain s' where "st_get ops s (st_sys ops) t = (Some v, s')" "alike s s'"
    using getE [OF assms(1), of "st_sys ops" t] assms(2) by metis
  then show ?thesis using that sys_open [OF assms(1)] assms(3) by (simp add: get_table_field_def)
qed

lemma fields_noted:
  assumes "inv s" and "row ops s (st_sys ops) (get_table_name name) = Some (v @ '','' @ k)"
    and "st_open ops s (get_table_name name)" and "CHR '','' \<notin> set k"
  shows "fst (kv_desc E name g s) = Val (TaFields k v, append_operation OpOpenTable 1 g)"
    "fst (tf_desc E name g s) = Val (TaFields k v, append_operation OpOpenTable 1 g)"
proof -
  obtain s' where g: "st_get ops s (st_sys ops) (get_table_name name) = (Some (v @ '','' @ k), s')"
    using getE [OF assms(1), of "st_sys ops" "get_table_name name"] assms(2) by metis
  then show "fst (kv_desc E name g s) = Val (TaFields k v, append_operation OpOpenTable 1 g)"
    "fst (tf_desc E name g s) = Val (TaFields k v, append_operation OpOpenTable 1 g)"
    using sys_open [OF assms(1)] assms(3)
    by (simp_all add: kv_desc_def tf_desc_def get_table_field_def key_part_of [OF assms(4), of v, simplified]
        value_part_of [OF assms(4), of v, simplified])
qed

section \<open>Loops over keys\<close>

lemma update_rows_all:
  assumes "inv s" and "st_open ops s t" and "t \<noteq> st_sys ops" and "distinct ks"
  shows "\<exists>s'. update_rows E t cs v ks s = (length ks, s') \<and> inv s'
    \<and> (\<forall>t'. st_open ops s' t' = st_open ops s t')
    \<and> (\<forall>t' k. row ops s' t' k = (if t' = t \<and> k \<in> set ks then Some v else row ops s t' k))"
  using assms
proof (induction ks arbitrary: s)
  case (Cons k ks)
  obtain s1 where g: "st_get ops s t k = (row ops s t k, s1)" and a: "alike s s1"
    by (rule getE [OF Cons.prems(1)])
  have s1: "inv s1" "st_open ops s1 t" using a Cons.prems(2) by (simp_all add: alike_def)
  let ?s2 = "st_set ops s1 t k v"
  have s2: "inv ?s2" "st_open ops ?s2 t" using s1 Cons.prems(3) by (simp_all add: set_inv set_open)
  obtain s' where s': "update_rows E t cs v ks ?s2 = (length ks, s')" "inv s'"
      "\<forall>t'. st_open ops s' t' = st_open ops ?s2 t'"
      "\<forall>t' k. row ops s' t' k = (if t' = t \<and> k \<in> set ks then Some v else row ops ?s2 t' k)"
    using Cons.IH [OF s2 Cons.prems(3)] Cons.prems(4) by auto
  have "update_rows E t cs v (k # ks) s = (length (k # ks), s')"
    using s'(1) by (simp add: g condition_filter_def)
  then show ?case
    using s'(2-4) set_row [OF s1 Cons.prems(3)] set_open [OF s1(1) Cons.prems(3)] a
    by (auto simp: alike_def)
qed simp

lemma remove_rows_all:
  assumes "inv s" and "st_open ops s t" and "t \<noteq> st_sys ops"
  shows "inv (remove_rows E t cs ks s)
    \<and> (\<forall>t'. st_open ops (remove_rows E t cs ks s) t' = st_open ops s t')
    \<and> (\<forall>t' k. row ops (remove_rows E t cs ks s) t' k =
        (if t' = t \<and> k \<in> set ks then None else row ops s t' k))"
  using assms
proof (induction ks arbitrary: s)
  case (Cons k ks)
  obtain s1 where g: "st_get ops s t k = (row ops s t k, s1)" and a: "alike s s1"
    by (rule getE [OF Cons.prems(1)])
  have s1: "inv s1" "st_open ops s1 t" using a Cons.prems(2) by (simp_all add: alike_def)
  have s2: "inv (st_del ops s1 t k)" "st_open ops (st_del ops s1 t k) t"
    using s1 Cons.prems(3) by (simp_all add: del_inv del_open)
  show ?case
    using Cons.IH [OF s2 Cons.prems(3)] del_row [OF s1 Cons.prems(3)] del_open [OF s1(1) Cons.prems(3)] a
    by (auto simp: g condition_filter_def alike_def)
qed simp

lemma select_rows_all:
  assumes "inv s" and "\<forall>k \<in> set ks. \<exists>e. row ops s t k = Some (te_enc E e)"
  shows "\<exists>s'. select_rows E t cs ks s = (Val (map (\<lambda>k. the (te_dec E (the (row ops s t k)))) ks), s') \<and> alike s s'"
  using assms
proof (induction ks arbitrary: s)
  case (Cons k ks)
  obtain s1 where g: "st_get ops s t k = (row ops s t k, s1)" and a: "alike s s1"
    by (rule getE [OF Cons.prems(1)])
  obtain e where e: "row ops s t k = Some (te_enc E e)" using Cons.prems(2) by auto
  have rows: "row ops s1 t j = row ops s t j" for j using a by (simp add: alike_def)
  have "inv s1" "\<forall>k \<in> set ks. \<exists>e. row ops s1 t k = Some (te_enc E e)"
    using a Cons.prems(2) by (simp_all add: alike_def)
  then obtain s' where "select_rows E t cs ks s1 =
      (Val (map (\<lambda>k. the (te_dec E (the (row ops s t k)))) ks), s')" "alike s1 s'"
    using Cons.IH [of s1] rows by auto
  then show ?case using alike_trans [OF a] by (auto simp: g e condition_filter_def dec_enc)
qed (simp add: alike_def)

lemma missing_key_none:
  "inv s \<Longrightarrow> \<forall>k \<in> set ks. row ops s t k \<noteq> None \<Longrightarrow> \<exists>s'. missing_key ops t ks s = (False, s') \<and> alike s s'"
proof (induction ks arbitrary: s)
  case (Cons k ks)
  obtain s1 where g: "st_get ops s t k = (row ops s t k, s1)" and a: "alike s s1"
    by (rule getE [OF Cons.prems(1)])
  obtain v where "row ops s t k = Some v" using Cons.prems(2) by auto
  moreover have "inv s1" "\<forall>k \<in> set ks. row ops s1 t k \<noteq> None" using a Cons.prems(2) by (simp_all add: alike_def)
  then obtain s' where "missing_key ops t ks s1 = (False, s')" "alike s1 s'" using Cons.IH by blast
  ultimately show ?case using g alike_trans [OF a] by auto
qed (simp add: alike_def)

lemma keys_of:
  assumes "inv s"
  obtains ks s' where "te_keys E t kc s = (ks, s')" "alike s s'"
    "set ks = {k. row ops s t k \<noteq> None \<and> key_matches kc k}"
  using keys_read [OF assms, of t kc] keys_match [OF assms, of t kc] that
  by (cases "te_keys E t kc s") simp

end

lemma set_key_set: "set (key_set ks eqs) = set ks \<union> set eqs" "distinct (key_set ks eqs)"
  by (simp_all add: key_set_def)


context user_tables
begin

text \<open>The keys a list of conditions reaches: those with a row that the tests on the key other than
  equality accept, and the keys of the equalities.\<close>

definition reached :: "'s \<Rightarrow> string \<Rightarrow> condition_ctx \<Rightarrow> string set" where
  "reached s t x = {k. row ops s t k \<noteq> None \<and> key_matches (cc_key x) k} \<union> set (cc_eq x)"

lemma remove_reached:
  assumes "inv s" and "row ops s (st_sys ops) t = Some f" and "st_open ops s t" and "t \<noteq> st_sys ops"
    and "t = get_table_name name" and "cc_flag (build_condition_ctx cs (key_part f))"
  shows "\<exists>s'. tf_remove E name cs g s = (Val (TaNumber 1, append_operation OpRemove 1 g), s') \<and> inv s'
    \<and> (\<forall>t' k. row ops s' t' k = (if t' = t \<and> k \<in> reached s t (build_condition_ctx cs (key_part f))
          then None else row ops s t' k))"
proof -
  let ?x = "build_condition_ctx cs (key_part f)"
  obtain s1 where f: "get_table_field E t s = (Val (key_part f, value_part f), s1)" and a1: "alike s s1"
    by (rule field_read [OF assms(1-3)])
  have i1: "inv s1" using a1 by (simp add: alike_def)
  obtain ks s2 where k: "te_keys E t (cc_key ?x) s1 = (ks, s2)" "alike s1 s2"
      "set ks = {k. row ops s1 t k \<noteq> None \<and> key_matches (cc_key ?x) k}"
    by (rule keys_of [OF i1])
  have a2: "alike s s2" using alike_trans [OF a1 k(2)] .
  have i2: "inv s2" "st_open ops s2 t" using a2 assms(3) by (simp_all add: alike_def)
  have "tf_remove E name cs g s = (Val (TaNumber 1, append_operation OpRemove 1 g),
      remove_rows E t (cc_entry ?x) (key_set ks (cc_eq ?x)) s2)"
    using f k(1) assms(5,6) by (simp add: tf_remove_def Let_def)
  moreover have "set (key_set ks (cc_eq ?x)) = reached s t ?x"
    using a1 k(3) by (simp add: set_key_set reached_def alike_def)
  ultimately show ?thesis
    using remove_rows_all [OF i2 assms(4), of "cc_entry ?x" "key_set ks (cc_eq ?x)"] a2
    by (simp add: alike_def)
qed

lemma update_reached:
  assumes "inv s" and "row ops s (st_sys ops) t = Some f" and "st_open ops s t" and "t \<noteq> st_sys ops"
    and "t = get_table_name name" and "cc_flag (build_condition_ctx cs (key_part f))"
    and "\<forall>k \<in> set (cc_eq (build_condition_ctx cs (key_part f))). row ops s t k \<noteq> None"
  shows "\<exists>s' g' n. tf_update E name e cs g s = (Val (TaNumber (of_nat n), g'), s') \<and> inv s'
    \<and> n = card (reached s t (build_condition_ctx cs (key_part f)))
    \<and> (\<forall>t' k. row ops s' t' k = (if t' = t \<and> k \<in> reached s t (build_condition_ctx cs (key_part f))
          then Some (te_enc E e) else row ops s t' k))"
proof -
  let ?x = "build_condition_ctx cs (key_part f)"
  obtain s1 where f: "get_table_field E t s = (Val (key_part f, value_part f), s1)" and a1: "alike s s1"
    by (rule field_read [OF assms(1-3)])
  have i1: "inv s1" "\<forall>k \<in> set (cc_eq ?x). row ops s1 t k \<noteq> None" using a1 assms(7) by (simp_all add: alike_def)
  obtain s2 where m: "missing_key ops t (cc_eq ?x) s1 = (False, s2)" and a2: "alike s1 s2"
    using missing_key_none [OF i1] by blast
  have i2: "inv s2" using a2 by (simp add: alike_def)
  obtain ks s3 where k: "te_keys E t (cc_key ?x) s2 = (ks, s3)" "alike s2 s3"
      "set ks = {k. row ops s2 t k \<noteq> None \<and> key_matches (cc_key ?x) k}"
    by (rule keys_of [OF i2])
  have a: "alike s s3" using alike_trans [OF alike_trans [OF a1 a2] k(2)] .
  have i3: "inv s3" "st_open ops s3 t" using a assms(3) by (simp_all add: alike_def)
  let ?ks = "key_set ks (cc_eq ?x)"
  have keys: "set ?ks = reached s t ?x"
    using alike_trans [OF a1 a2] k(3) by (simp add: set_key_set reached_def alike_def)
  obtain s' where u: "update_rows E t (cc_entry ?x) (te_enc E e) ?ks s3 = (length ?ks, s')" "inv s'"
      "\<forall>t' k. row ops s' t' k = (if t' = t \<and> k \<in> set ?ks then Some (te_enc E e) else row ops s3 t' k)"
    using update_rows_all [OF i3 assms(4) set_key_set(2)] by blast
  have "length ?ks = card (reached s t ?x)"
    using distinct_card [OF set_key_set(2), of ks "cc_eq ?x"] keys by simp
  moreover have "tf_update E name e cs g s = (Val (TaNumber (of_nat (length ?ks)),
      append_operation OpUpdate (of_nat (length ?ks)) (g\<lparr>mem_used := te_size E (te_enc E e)\<rparr>)), s')"
    using f m k(1) u(1) assms(5,6) by (simp add: tf_update_def Let_def)
  ultimately show ?thesis using u(2,3) keys a by (simp add: alike_def)
qed

lemma select_reached:
  assumes "inv s" and "row ops s (st_sys ops) t = Some f" and "st_open ops s t"
    and "t = get_table_name name" and "cc_flag (build_condition_ctx cs (key_part f))"
    and "\<forall>k \<in> reached s t (build_condition_ctx cs (key_part f)). \<exists>e. row ops s t k = Some (te_enc E e)"
  shows "\<exists>s' g' ks. tf_select E name cs g s =
      (Val (TaEntries (map (\<lambda>k. the (te_dec E (the (row ops s t k)))) ks), g'), s')
    \<and> sorted ks \<and> distinct ks \<and> set ks = reached s t (build_condition_ctx cs (key_part f)) \<and> alike s s'"
proof -
  let ?x = "build_condition_ctx cs (key_part f)"
  obtain s1 where f: "get_table_field E t s = (Val (key_part f, value_part f), s1)" and a1: "alike s s1"
    by (rule field_read [OF assms(1-3)])
  have i1: "inv s1" using a1 by (simp add: alike_def)
  obtain ks s2 where k: "te_keys E t (cc_key ?x) s1 = (ks, s2)" "alike s1 s2"
      "set ks = {k. row ops s1 t k \<noteq> None \<and> key_matches (cc_key ?x) k}"
    by (rule keys_of [OF i1])
  have a2: "alike s s2" using alike_trans [OF a1 k(2)] .
  let ?ks = "key_set ks (cc_eq ?x)"
  have keys: "set ?ks = reached s t ?x" using a1 k(3) by (simp add: set_key_set reached_def alike_def)
  have rows: "row ops s2 t k = row ops s t k" for k using a2 by (simp add: alike_def)
  have "inv s2" "\<forall>k \<in> set ?ks. \<exists>e. row ops s2 t k = Some (te_enc E e)"
    using a2 assms(6) keys rows by (auto simp: alike_def)
  from select_rows_all [OF this, of "cc_entry ?x"] obtain s3 where
    r: "select_rows E t (cc_entry ?x) ?ks s2 =
      (Val (map (\<lambda>k. the (te_dec E (the (row ops s t k)))) ?ks), s3)" "alike s2 s3"
    by (auto simp: rows)
  have "tf_select E name cs g s = (Val (TaEntries (map (\<lambda>k. the (te_dec E (the (row ops s t k)))) ?ks),
      append_operation OpSelect (of_nat (length ?ks)) (update_mem_used (of_nat (length ?ks)) g)), s3)"
    using f k(1) r(1) assms(4,5) by (simp add: tf_select_def Let_def)
  moreover have "sorted ?ks" by (simp add: key_set_def)
  ultimately show ?thesis using keys set_key_set(2) alike_trans [OF a2 r(2)] by blast
qed

end


section \<open>The conditions of a call\<close>

text \<open>The values the key field is compared to for equality, and the other tests on the key.\<close>

definition equal_keys :: "string \<Rightarrow> condition_tuple \<Rightarrow> string set" where
  "equal_keys f cs = {v. (f, v, 0) \<in> set cs}"

definition passes :: "string \<Rightarrow> condition_tuple \<Rightarrow> string \<Rightarrow> bool" where
  "passes f cs k \<longleftrightarrow> (\<forall>(g, v, w) \<in> set cs. g = f \<longrightarrow> w \<noteq> 0 \<longrightarrow>
     (case comparator_of w of None \<Rightarrow> True | Some c \<Rightarrow> key_test c v k))"

lemma comparator_EQ: "comparator_of w = Some CmpEQ \<longleftrightarrow> w = 0"
  by (simp add: comparator_of_def)

lemma transfer_matches:
  "w \<noteq> 0 \<Longrightarrow> key_matches (transfer_key_cond (comparator_of w) v kc) k \<longleftrightarrow>
     key_matches kc k \<and> (case comparator_of w of None \<Rightarrow> True | Some c \<Rightarrow> key_test c v k)"
  using comparator_EQ [of w]
  by (auto simp: transfer_key_cond_def key_matches_def split: option.split comparator.split)

lemma add_cond_fields:
  "cc_eq (add_cond f (g, v, w) x) = cc_eq x @ (if g = f \<and> w = 0 then [v] else [])"
  "cc_key (add_cond f (g, v, w) x) =
     (if g = f \<and> w \<noteq> 0 then transfer_key_cond (comparator_of w) v (cc_key x) else cc_key x)"
  "cc_flag (add_cond f (g, v, w) x) \<longleftrightarrow> g = f \<or> cc_flag x"
  by (simp_all add: add_cond_def comparator_EQ Let_def)

lemma fold_eq: "set (cc_eq (fold (add_cond f) cs x)) = set (cc_eq x) \<union> equal_keys f cs"
  by (induction cs arbitrary: x) (auto simp: equal_keys_def add_cond_fields)

lemma fold_key:
  "key_matches (cc_key (fold (add_cond f) cs x)) k \<longleftrightarrow> key_matches (cc_key x) k \<and> passes f cs k"
proof (induction cs arbitrary: x)
  case (Cons c cs)
  obtain g v w where c: "c = (g, v, w)" by (cases c)
  show ?case using Cons.IH by (auto simp: c add_cond_fields passes_def transfer_matches)
qed (simp add: passes_def)

lemma fold_flag: "cc_flag (fold (add_cond f) cs x) \<longleftrightarrow> cc_flag x \<or> f \<in> fst ` set cs"
  by (induction cs arbitrary: x) (auto simp: add_cond_fields)

lemma ctx_of:
  "set (cc_eq (build_condition_ctx cs f)) = equal_keys f cs"
  "key_matches (cc_key (build_condition_ctx cs f)) k \<longleftrightarrow> passes f cs k"
  "cc_flag (build_condition_ctx cs f) \<longleftrightarrow> f \<in> fst ` set cs"
  unfolding build_condition_ctx_def fold_eq fold_key fold_flag by (simp_all add: key_matches_def)

section \<open>The interpretation\<close>

definition mem_finite :: "mem \<Rightarrow> bool" where
  "mem_finite m \<longleftrightarrow> (\<forall>t. finite (dom (m t)))"

definition mem_tables :: "mem tables_env" where
  "mem_tables = \<lparr>te_ops = mem_ops, te_text = std_text, te_dirs = count_dirs,
     te_enc = (count_enc :: entry_tuple \<Rightarrow> string), te_dec = count_dec,
     te_keys = (\<lambda>t kc m. (sorted_list_of_set {k. row mem_ops m t k \<noteq> None \<and> key_matches kc k}, m)),
     te_size = (\<lambda>v. of_nat (length v))\<rparr>"

lemma mem_tables_simps [simp]:
  "te_ops mem_tables = mem_ops" "te_text mem_tables = std_text" "te_dirs mem_tables = count_dirs"
  "te_enc mem_tables = count_enc" "te_dec mem_tables = count_dec"
  "te_keys mem_tables t kc m = (sorted_list_of_set {k. row mem_ops m t k \<noteq> None \<and> key_matches kc k}, m)"
  by (simp_all add: mem_tables_def)

interpretation mem_fin: file_tree mem_ops mem_finite count_dirs
  by unfold_locales
    (auto simp: mem_finite_def count_dirs_def counted.dec_enc counted.enc_not_Nil mem_sys_def row_def
      split: if_splits)

lemma mem_keys_finite: "mem_finite m \<Longrightarrow> finite {k. row mem_ops m t k \<noteq> None \<and> key_matches kc k}"
  by (rule finite_subset [of _ "dom (m t)"]) (auto simp: mem_finite_def row_def split: if_splits)

interpretation mem_user: user_tables mem_tables mem_finite
proof (intro user_tables.intro user_tables_axioms.intro)
  show "file_tree (te_ops mem_tables) mem_finite (te_dirs mem_tables)"
    using mem_fin.file_tree_axioms by simp
  show "text_lib (te_text mem_tables)" using std.text_lib_axioms by simp
qed (use mem_keys_finite in \<open>auto simp: mem_fin.alike_def counted.dec_enc row_def mem_sys_def split: if_splits\<close>)


section \<open>Properties\<close>

lemma table_name_path: "\<exists>q. get_table_name name = CHR ''/'' # q"
  by (simp add: get_table_name_def)

context user_tables
begin

lemma table_not_sys: "get_table_name name \<noteq> st_sys ops"
  using table_name_path [of name] slash_not_sys by metis

lemma kv_get_answer:
  "inv s \<Longrightarrow> fst (kv_get E name key g s) =
     (if \<not> st_open ops s (get_table_name name) then Throw ''PrecompiledError''
      else case row ops s (get_table_name name) key of
        None \<Rightarrow> Val (TaEntry False [], append_operation OpSelect 1 g)
      | Some v \<Rightarrow> (case te_dec E v of None \<Rightarrow> Throw ''archive''
          | Some e \<Rightarrow> Val (TaEntry True e, update_mem_used (te_size E v) (append_operation OpSelect 1 g))))"
  by (cases "st_get ops s (get_table_name name) key")
    (auto simp: kv_get_def row_def Let_def split: option.split)

lemma kv_set_get:
  assumes "inv s" and "st_open ops s (get_table_name name)" and "length key \<le> 255"
    and "\<forall>(f, x) \<in> set e. length x \<le> 16777215"
  shows "\<exists>s' g1. kv_set E name key e g s = (Val (TaNumber 1, g1), s') \<and> inv s'
    \<and> (\<forall>name' key'. fst (kv_get E name' key' g' s') =
        (if get_table_name name' = get_table_name name \<and> key' = key
         then Val (TaEntry True e, update_mem_used (te_size E (te_enc E e)) (append_operation OpSelect 1 g'))
         else fst (kv_get E name' key' g' s)))"
proof -
  let ?s = "st_set ops s (get_table_name name) key (te_enc E e)"
  have "\<not> list_ex (\<lambda>(_, x). length x > USER_TABLE_FIELD_VALUE_MAX_LENGTH) e"
    using assms(4) by (auto simp: list_ex_iff USER_TABLE_FIELD_VALUE_MAX_LENGTH_def)
  then have run: "\<exists>g1. kv_set E name key e g s = (Val (TaNumber 1, g1), ?s)"
    using assms(2,3) by (simp add: kv_set_def Let_def USER_TABLE_KEY_VALUE_MAX_LENGTH_def)
  have i: "inv ?s" using assms(1) by (rule set_inv)
  have "fst (kv_get E name' key' g' ?s) =
      (if get_table_name name' = get_table_name name \<and> key' = key
       then Val (TaEntry True e, update_mem_used (te_size E (te_enc E e)) (append_operation OpSelect 1 g'))
       else fst (kv_get E name' key' g' s))" for name' key'
    unfolding kv_get_answer [OF i] kv_get_answer [OF assms(1)]
      set_row [OF assms(1,2) table_not_sys] set_open [OF assms(1) table_not_sys]
    using assms(2) by (simp add: dec_enc)
  then show ?thesis using run i by blast
qed

lemma create_both:
  assumes "inv s" and "tree_ok ops C s" and "get_table_name name = lib.path_of ns" and "length ns \<ge> 2"
    and "list_all path_name_ok ns" and "path_present ops C False s ''/'' (butlast ns)"
    and "\<not> st_open ops s (lib.path_of ns)" and "name \<noteq> []"
    and "check_create_table_param T name k v = Inr (k1, v1)"
  shows "\<exists>s' g1. (if kv then kv_create E name k v g s else tf_create E name k v g s) = (Val (TaCode 0, g1), s')
    \<and> created kv ns k1 v1 s s'"
proof -
  obtain s' where "create_in_dir E kv (lib.path_of ns) k1 v1 s = (Val 0, s')" "created kv ns k1 v1 s s'"
    using create_in_dir_ok [OF assms(1,2,4,5,6,7)] by blast
  then show ?thesis using assms(3,7-9) by (cases kv) (auto simp: kv_create_def tf_create_def Let_def)
qed

lemma created_listing:
  assumes "created kv ns k v s s'" and "lib.path_of (butlast ns) \<noteq> st_sys ops"
  shows "kv \<Longrightarrow> dir_entry ops C s' (lib.path_of (butlast ns)) d =
      (if d = last ns \<and> dir_entry ops C s (lib.path_of (butlast ns)) d = None then Some FS_TYPE_CONTRACT
       else dir_entry ops C s (lib.path_of (butlast ns)) d)"
    "\<not> kv \<Longrightarrow> last ns \<noteq> FS_KEY_SUB \<Longrightarrow>
      dir_entry ops C s' (lib.path_of (butlast ns)) d = dir_entry ops C s (lib.path_of (butlast ns)) d"
  using assms by (auto simp: created_def dir_entry_def codec.dec_enc map_of_insert)

end

text \<open>C36: creating a table in a directory that exists succeeds in both factories: the table is open,
  its description gives the normalised fields, and the directory tree keeps its names.  The
  key-value factory adds the table to the listing of its directory; the table factory does not,
  since it writes the new listing to a row with the name of the table.\<close>
theorem created_tables_listed:
  assumes "user_tables E I" and "I s" and "tree_ok (te_ops E) (te_dirs E) s"
    and "get_table_name name = CHR ''/'' # tx_join (te_text E) CHR ''/'' ns" and "length ns \<ge> 2"
    and "list_all path_name_ok ns" and "path_present (te_ops E) (te_dirs E) False s ''/'' (butlast ns)"
    and "\<not> st_open (te_ops E) s (get_table_name name)" and "name \<noteq> []"
    and "check_create_table_param (te_text E) name k v = Inr (k1, v1)" and "CHR '','' \<notin> set k1"
  shows "let p = CHR ''/'' # tx_join (te_text E) CHR ''/'' (butlast ns);
             listing = (\<lambda>s. dir_entry (te_ops E) (te_dirs E) s p)
    in (\<exists>s' g1 g2. kv_create E name k v g s = (Val (TaCode 0, g1), s') \<and> I s'
          \<and> st_open (te_ops E) s' (get_table_name name)
          \<and> fst (kv_desc E name g s') = Val (TaFields k1 v1, g2)
          \<and> listing s' = (listing s)(last ns := (case listing s (last ns) of
                None \<Rightarrow> Some FS_TYPE_CONTRACT | Some x \<Rightarrow> Some x)))
     \<and> (\<exists>s' g1 g2. tf_create E name k v g s = (Val (TaCode 0, g1), s') \<and> I s'
          \<and> st_open (te_ops E) s' (get_table_name name)
          \<and> fst (tf_desc E name g s') = Val (TaFields k1 v1, g2)
          \<and> (last ns \<noteq> ''sub'' \<longrightarrow> listing s' = listing s))"
proof -
  note U = assms(1)
  have lib: "text_lib (te_text E)" using U by (simp add: user_tables_def)
  have F: "file_tree (te_ops E) I (te_dirs E)" using U by (simp add: user_tables_def)
  have po: "text_lib.path_of (te_text E) xs = CHR ''/'' # tx_join (te_text E) CHR ''/'' xs" for xs
    by (simp add: text_lib.path_of_def [OF lib])
  have sys: "CHR ''/'' # q \<noteq> st_sys (te_ops E)" for q using file_tree.slash_not_sys [OF F] .
  have "\<exists>s' g1. (if kv then kv_create E name k v g s else tf_create E name k v g s) = (Val (TaCode 0, g1), s')
      \<and> user_tables.created E I kv ns k1 v1 s s'" for kv
    by (rule user_tables.create_both [OF U]) (use assms in \<open>simp_all add: po\<close>)
  from this [of True] this [of False] obtain s1 g1 s2 g2 where
    1: "kv_create E name k v g s = (Val (TaCode 0, g1), s1)" "user_tables.created E I True ns k1 v1 s s1"
    and 2: "tf_create E name k v g s = (Val (TaCode 0, g2), s2)" "user_tables.created E I False ns k1 v1 s s2"
    by auto
  have facts: "I t \<and> st_open (te_ops E) t (get_table_name name)
      \<and> fst (kv_desc E name g t) = Val (TaFields k1 v1, append_operation OpOpenTable 1 g)
      \<and> fst (tf_desc E name g t) = Val (TaFields k1 v1, append_operation OpOpenTable 1 g)"
    if "user_tables.created E I kv ns k1 v1 s t" for kv t
  proof -
    have t: "I t" "row (te_ops E) t (st_sys (te_ops E)) (get_table_name name) = Some (v1 @ '','' @ k1)"
      "st_open (te_ops E) t (get_table_name name)"
      using that by (simp_all add: user_tables.created_def [OF U] po assms(4))
    then show ?thesis using user_tables.fields_noted [OF U t assms(11)] by blast
  qed
  show ?thesis
    unfolding Let_def
    using 1(1) 2(1) facts [OF 1(2)] facts [OF 2(2)]
      user_tables.created_listing(1) [OF U 1(2)] user_tables.created_listing(2) [OF U 2(2)] sys
    by (auto simp: po fun_eq_iff FS_KEY_SUB_def split: option.split)
qed

text \<open>C35: an entry set in a table is what \<open>get\<close> returns, whatever name of the table is used; every
  other key of every table keeps its answer.  A key over 255 or a value over 16777215 characters,
  or a table that does not exist, is refused with nothing changed.\<close>
theorem kv_set_then_get:
  assumes "user_tables E I" and "I s"
  shows "if st_open (te_ops E) s (get_table_name name) \<and> length key \<le> 255
           \<and> (\<forall>(f, x) \<in> set e. length x \<le> 16777215)
    then \<exists>s' g1. kv_set E name key e g s = (Val (TaNumber 1, g1), s') \<and> I s'
      \<and> (\<forall>name' key'. fst (kv_get E name' key' g' s') =
          (if get_table_name name' = get_table_name name \<and> key' = key
           then Val (TaEntry True e, update_mem_used (te_size E (te_enc E e)) (append_operation OpSelect 1 g'))
           else fst (kv_get E name' key' g' s)))
    else kv_set E name key e g s = (Throw ''PrecompiledError'', s)"
  using user_tables.kv_set_get [OF assms, of name key e g g']
  by (auto simp: kv_set_def Let_def list_ex_iff USER_TABLE_KEY_VALUE_MAX_LENGTH_def
      USER_TABLE_FIELD_VALUE_MAX_LENGTH_def)

text \<open>C37: which rows the conditions of \<open>remove\<close> and \<open>update\<close> reach: every row whose key passes the
  inequality tests on the key field, and the keys of the equalities on it.  Conditions on other
  fields are ignored, and an equality does not exclude the other rows: with no other test on the
  key, \<open>remove\<close> empties the table.\<close>
theorem conditions_reach_rows:
  assumes "user_tables E I" and "I s" and "t = get_table_name name" and "st_open (te_ops E) s t"
    and "row (te_ops E) s (st_sys (te_ops E)) t = Some f" and "key_part f \<in> fst ` set cs"
  shows "let hit = {k. row (te_ops E) s t k \<noteq> None \<and> passes (key_part f) cs k} \<union> equal_keys (key_part f) cs
    in (\<exists>s' g1. tf_remove E name cs g s = (Val (TaNumber 1, g1), s') \<and> I s'
          \<and> (\<forall>t' k. row (te_ops E) s' t' k =
               (if t' = t \<and> k \<in> hit then None else row (te_ops E) s t' k)))
     \<and> ((\<forall>k \<in> equal_keys (key_part f) cs. row (te_ops E) s t k \<noteq> None) \<longrightarrow>
        (\<exists>s' g1. tf_update E name e cs g s = (Val (TaNumber (of_nat (card hit)), g1), s') \<and> I s'
          \<and> (\<forall>t' k. row (te_ops E) s' t' k =
               (if t' = t \<and> k \<in> hit then Some (te_enc E e) else row (te_ops E) s t' k))))"
proof -
  note U = assms(1)
  let ?x = "build_condition_ctx cs (key_part f)"
  let ?hit = "{k. row (te_ops E) s t k \<noteq> None \<and> passes (key_part f) cs k} \<union> equal_keys (key_part f) cs"
  have hit: "user_tables.reached E s t ?x = ?hit"
    by (simp add: user_tables.reached_def [OF U] ctx_of)
  have flag: "cc_flag ?x" using assms(6) by (simp add: ctx_of)
  have ns: "t \<noteq> st_sys (te_ops E)" using user_tables.table_not_sys [OF U] assms(3) by simp
  note R = user_tables.remove_reached [OF U assms(2,5,4) ns assms(3) flag, of g, unfolded hit]
  note P = user_tables.update_reached [OF U assms(2,5,4) ns assms(3) flag, of e g, unfolded hit ctx_of(1)]
  show ?thesis unfolding Let_def using R P by blast
qed

section \<open>Witnesses\<close>

text \<open>A storage with the directory \<open>/tables\<close>.\<close>

definition tables_mem :: mem where
  "tables_mem = snd (build_path std_text mem_ops count_dirs False ''/tables'' root_mem)"

lemma tables_path: "CHR ''/'' # tx_join std_text CHR ''/'' [''tables''] = ''/tables''"
  "CHR ''/'' # tx_join std_text CHR ''/'' [''tables'', ''t1''] = ''/tables/t1''"
  by (simp_all add: std_text_def)

lemma tables_names: "list_all path_name_ok [''tables'']" "list_all path_name_ok [''tables'', ''t1'']"
  by (simp_all add: path_name_ok_def path_char_ok_def is_alnum_def)

lemma tables_run:
  "fst (build_path std_text mem_ops count_dirs False ''/tables'' root_mem) = Val True"
  "tables_mem mem_sys ''/tables/t1'' = None"
proof -
  have "tx_split std_text CHR ''/'' True ''tables'' = [''tables'']"
    using std.split_path_of [OF _ tables_names(1)] by (simp add: std_text_def)
  then show "fst (build_path std_text mem_ops count_dirs False ''/tables'' root_mem) = Val True"
    "tables_mem mem_sys ''/tables/t1'' = None"
    by (simp_all add: tables_mem_def build_path_def strip_path_def add_dir_def child_path_def root_mem_def
        mem_sys_def fs_keys count_dirs_def counted.dec_enc mem_empty_def init_dir_def Let_def)
qed

lemma tables_built: "build_path std_text mem_ops count_dirs False ''/tables'' root_mem = (Val True, tables_mem)"
  using tables_run(1) by (simp add: tables_mem_def prod_eq_iff)

lemma root_mem_finite: "mem_finite root_mem"
  by (auto simp: mem_finite_def root_mem_def mem_empty_def)

lemma tables_mem_ok:
  "mem_finite tables_mem" "tree_ok mem_ops count_dirs tables_mem"
  "path_present mem_ops count_dirs False tables_mem ''/'' [''tables'']"
proof -
  obtain b m where "build_path std_text mem_ops count_dirs False ''/tables'' root_mem = (Val b, m)"
    and m: "mem_finite m" "tree_ok mem_ops count_dirs m"
      "b \<longrightarrow> path_present mem_ops count_dirs False m ''/'' [''tables'']"
    using build_path_built [OF std.text_lib_axioms mem_fin.file_tree_axioms root_mem_finite root_mem_ok
        _ tables_names(1), of False] tables_path(1) by (metis list.distinct(1))
  then have "b" "m = tables_mem" using tables_built by simp_all
  with m show "mem_finite tables_mem" "tree_ok mem_ops count_dirs tables_mem"
    "path_present mem_ops count_dirs False tables_mem ''/'' [''tables'']" by simp_all
qed

text \<open>A store with one table of two rows.\<close>

definition rows_mem :: mem where
  "rows_mem = mem_empty(mem_sys := [''/tables/t1'' \<mapsto> ''name,id''],
     ''/tables/t1'' := [''a'' \<mapsto> count_enc [(''name'', ''x'')], ''b'' \<mapsto> count_enc [(''name'', ''y'')]])"

lemma rows_mem_facts:
  "mem_finite rows_mem" "st_open mem_ops rows_mem (get_table_name ''t1'')"
  "row mem_ops rows_mem mem_sys (get_table_name ''t1'') = Some ''name,id''"
  "key_part ''name,id'' = ''id''" "row mem_ops rows_mem (get_table_name ''t1'') ''b'' \<noteq> None"
  by (auto simp: mem_finite_def rows_mem_def mem_empty_def get_table_name_def row_def key_part_def mem_sys_def)

theorem created_tables_listed_witness:
  "\<exists>s1 s2 g1 g2. kv_create mem_tables ''t1'' ''id'' ''name'' create_precompiled_gas tables_mem = (Val (TaCode 0, g1), s1)
     \<and> dir_entry mem_ops count_dirs s1 ''/tables'' ''t1'' \<noteq> None
     \<and> tf_create mem_tables ''t1'' ''id'' ''name'' create_precompiled_gas tables_mem = (Val (TaCode 0, g2), s2)
     \<and> dir_entry mem_ops count_dirs s2 ''/tables'' ''t1'' = dir_entry mem_ops count_dirs tables_mem ''/tables'' ''t1''"
proof -
  have n: "get_table_name ''t1'' = ''/tables/t1''" by (simp add: get_table_name_def)
  have c: "check_create_table_param std_text ''t1'' ''id'' ''name'' = Inr (''id'', ''name'')" by code_simp
  have o: "\<not> st_open mem_ops tables_mem ''/tables/t1''"
    using tables_run(2) by (simp add: mem_sys_def)
  show ?thesis
    using created_tables_listed [where I = mem_finite, OF mem_user.user_tables_axioms tables_mem_ok(1), of "''t1''" "[''tables'', ''t1'']"
        "''id''" "''name''" "''id''" "''name''" create_precompiled_gas] tables_mem_ok(2,3) tables_names(2) n c o
    by (simp add: tables_path Let_def) (auto split: option.splits)
qed

theorem kv_set_then_get_witness:
  "\<exists>s' g1. kv_set mem_tables ''t1'' ''a'' [(''name'', ''z'')] create_precompiled_gas rows_mem = (Val (TaNumber 1, g1), s')
     \<and> fst (kv_get mem_tables ''/t1'' ''b'' create_precompiled_gas s') = fst (kv_get mem_tables ''/t1'' ''b'' create_precompiled_gas rows_mem)"
proof -
  obtain s' g1 where "kv_set mem_tables ''t1'' ''a'' [(''name'', ''z'')] create_precompiled_gas rows_mem = (Val (TaNumber 1, g1), s')"
    and k: "\<forall>name' key'. fst (kv_get mem_tables name' key' create_precompiled_gas s') =
          (if get_table_name name' = get_table_name ''t1'' \<and> key' = ''a''
           then Val (TaEntry True [(''name'', ''z'')], update_mem_used (te_size mem_tables
             (te_enc mem_tables [(''name'', ''z'')])) (append_operation OpSelect 1 create_precompiled_gas))
           else fst (kv_get mem_tables name' key' create_precompiled_gas rows_mem))"
    using kv_set_then_get [where I = mem_finite, OF mem_user.user_tables_axioms rows_mem_facts(1), of "''t1''" "''a''" "[(''name'', ''z'')]" create_precompiled_gas create_precompiled_gas]
      rows_mem_facts(2) by auto
  then show ?thesis using spec [OF spec [OF k, of "''/t1''"], of "''b''"] by auto
qed

text \<open>Removing the row with the key \<open>a\<close> removes the row with the key \<open>b\<close> too.\<close>

theorem conditions_reach_rows_witness:
  "\<exists>s' g1. tf_remove mem_tables ''t1'' [(''id'', ''a'', 0), (''name'', ''none'', 0)] create_precompiled_gas rows_mem = (Val (TaNumber 1, g1), s')
     \<and> row mem_ops s' (get_table_name ''t1'') ''b'' = None"
proof -
  have f: "key_part ''name,id'' \<in> fst ` set [(''id'', ''a'', 0), (''name'', ''none'', 0 :: u8)]"
    by (simp add: rows_mem_facts)
  have p: "passes ''id'' [(''id'', ''a'', 0), (''name'', ''none'', 0)] ''b''" by (simp add: passes_def)
  have o: "st_open (te_ops mem_tables) rows_mem (get_table_name ''t1'')"
    "row (te_ops mem_tables) rows_mem (st_sys (te_ops mem_tables)) (get_table_name ''t1'') = Some ''name,id''"
    using rows_mem_facts by simp_all
  obtain s' g1 where "tf_remove mem_tables ''t1'' [(''id'', ''a'', 0), (''name'', ''none'', 0)] create_precompiled_gas rows_mem = (Val (TaNumber 1, g1), s')"
    and r: "\<forall>t' k. row mem_ops s' t' k = (if t' = get_table_name ''t1'' \<and> k \<in> {k. row mem_ops rows_mem (get_table_name ''t1'') k \<noteq> None
          \<and> passes ''id'' [(''id'', ''a'', 0), (''name'', ''none'', 0)] k} \<union> equal_keys ''id'' [(''id'', ''a'', 0), (''name'', ''none'', 0)]
        then None else row mem_ops rows_mem t' k)"
    using conditions_reach_rows [where I = mem_finite, OF mem_user.user_tables_axioms rows_mem_facts(1) refl o f, where g = create_precompiled_gas]
    unfolding Let_def mem_tables_simps rows_mem_facts(4) by blast
  then show ?thesis using spec [OF spec [OF r, of "get_table_name ''t1''"], of "''b''"] rows_mem_facts(5) p by auto
qed

end
