(* ===== verification/NameService.thy ===== *)
theory NameService imports FileSystem begin

text \<open>
  The name service (\<open>src/precompiled/CNSPrecompiled.cpp\<close>) and the status of a contract it looks at
  (\<open>getContractStatus\<close> of \<open>Utilities.cpp\<close>): a table from a name to the map of its versions, each with
  an address and an ABI.  Parameters: the storage, \<open>boost::trim\<close>, the SCALE codec of the map, the test
  for the zero hash, and the encoder of the answers, which turns the text of an address back into an
  address where the virtual machine is not WASM.
\<close>

section \<open>Data\<close>

type_synonym cns_map = "(string \<times> string \<times> string) list"

record 's cns_env =
  ns_ops :: "'s storage_ops"
  ns_trim :: "string \<Rightarrow> string"
  ns_enc :: "cns_map \<Rightarrow> string"
  ns_dec :: "string \<Rightarrow> cns_map option"
  ns_zero_hash :: "string \<Rightarrow> bool"

datatype contract_status = Available | Frozen | AddressNonExistent | NotContractAddress

definition SYS_CNS :: string where "SYS_CNS = ''s_cns''"
definition CNS_VERSION_MAX_LENGTH :: nat where "CNS_VERSION_MAX_LENGTH = 128"
definition CNS_CONTRACT_NAME_MAX_LENGTH :: nat where "CNS_CONTRACT_NAME_MAX_LENGTH = 128"
definition CODE_ADDRESS_OR_VERSION_ERROR :: int where "CODE_ADDRESS_OR_VERSION_ERROR = -51202"
definition CODE_VERSION_LENGTH_OVERFLOW :: int where "CODE_VERSION_LENGTH_OVERFLOW = -51201"
definition CODE_ADDRESS_AND_VERSION_EXIST :: int where "CODE_ADDRESS_AND_VERSION_EXIST = -51200"
definition ABI_MAX_LENGTH :: nat where "ABI_MAX_LENGTH = 16 * 1024 * 1024 - 1"

text \<open>The answers given to the encoder; the list of \<open>selectByName\<close> becomes JSON text.\<close>

datatype cns_answer =
    CnNothing
  | CnCode int
  | CnInfos "(string \<times> string \<times> string \<times> string) list"
  | CnAddressAbi string string
  | CnAddress string
  | CnNotFound

type_synonym 's cns_result = "(cns_answer \<times> precompiled_gas) eval \<times> 's"

section \<open>Operations\<close>

definition get_contract_status :: "'s cns_env \<Rightarrow> string \<Rightarrow> 's \<Rightarrow> contract_status \<times> 's" where
  "get_contract_status E t s =
     (if \<not> st_open (ns_ops E) s t then (AddressNonExistent, s)
      else case st_get (ns_ops E) s t ''codeHash'' of
        (None, s1) \<Rightarrow> (Available, s1)
      | (Some h, s1) \<Rightarrow>
          (if ns_zero_hash E h then (NotContractAddress, s1)
           else case st_get (ns_ops E) s1 t ''frozen'' of
             (f, s2) \<Rightarrow> ((if f = Some ''true'' then Frozen else Available), s2)))"

text \<open>\<open>checkCNSParam\<close> on the trimmed name and version; the status of the contract is only logged.\<close>

definition check_cns_param ::
    "'s cns_env \<Rightarrow> string \<Rightarrow> string \<Rightarrow> string \<Rightarrow> string \<Rightarrow> 's \<Rightarrow> int eval \<times> 's" where
  "check_cns_param E address name version abi s =
     (let (_, s1) = get_contract_status E (USER_APPS_PREFIX @ address) s in
      if length version > CNS_VERSION_MAX_LENGTH then (Val CODE_VERSION_LENGTH_OVERFLOW, s1)
      else if CHR '','' \<in> set version \<or> CHR '','' \<in> set name then (Val CODE_ADDRESS_OR_VERSION_ERROR, s1)
      else if length name > CNS_CONTRACT_NAME_MAX_LENGTH then (Throw ''PrecompiledError'', s1)
      else if length abi > ABI_MAX_LENGTH then (Throw ''PrecompiledError'', s1)
      else (Val 0, s1))"

text \<open>\<open>openTable(SYS_CNS)\<close>, created when it is missing; without a table the result is dereferenced.\<close>

definition open_cns :: "'s cns_env \<Rightarrow> 's \<Rightarrow> bool \<times> 's" where
  "open_cns E s =
     (if st_open (ns_ops E) s SYS_CNS then (True, s) else st_create (ns_ops E) s SYS_CNS SYS_VALUE_FIELDS)"

text \<open>The map of a name: the row decoded, \<open>None\<close> where there is no row.\<close>

definition read_cns :: "'s cns_env \<Rightarrow> string \<Rightarrow> 's \<Rightarrow> cns_map option eval \<times> 's" where
  "read_cns E name s =
     (case open_cns E s of
        (False, s1) \<Rightarrow> (Undef, s1)
      | (True, s1) \<Rightarrow>
          (case st_get (ns_ops E) s1 SYS_CNS name of
             (None, s2) \<Rightarrow> (Val None, s2)
           | (Some v, s2) \<Rightarrow>
               ((case ns_dec E v of None \<Rightarrow> Throw ''decode'' | Some m \<Rightarrow> Val (Some m)), s2)))"

text \<open>\<open>std::map::insert\<close> of a version that is not in the map.\<close>

definition add_version :: "string \<Rightarrow> string \<Rightarrow> string \<Rightarrow> cns_map \<Rightarrow> cns_map" where
  "add_version version address abi m = insort_key fst (version, address, abi) m"

definition cns_insert ::
    "'s cns_env \<Rightarrow> string \<Rightarrow> string \<Rightarrow> string \<Rightarrow> string \<Rightarrow> precompiled_gas \<Rightarrow> 's \<Rightarrow> 's cns_result" where
  "cns_insert E contractName contractVersion address abi g s =
     (let name = ns_trim E contractName; version = ns_trim E contractVersion in
      case check_cns_param E address name version abi s of
        (Throw m, s1) \<Rightarrow> (Throw m, s1)
      | (Undef, s1) \<Rightarrow> (Undef, s1)
      | (Val c, s1) \<Rightarrow>
          (if c < 0 then (Val (CnCode CODE_VERSION_LENGTH_OVERFLOW, g), s1)
           else let g1 = append_operation OpOpenTable 1 g in
             case read_cns E name s1 of
               (Throw m, s2) \<Rightarrow> (Throw m, s2)
             | (Undef, s2) \<Rightarrow> (Undef, s2)
             | (Val r, s2) \<Rightarrow>
                 (let m = (case r of None \<Rightarrow> [] | Some m \<Rightarrow> m) in
                  if map_of m version \<noteq> None
                  then (Val (CnCode CODE_ADDRESS_AND_VERSION_EXIST, append_operation OpSelect 1 g1), s2)
                  else (Val (CnCode 0, append_operation OpInsert 1 (update_mem_used 1 g1)),
                        st_set (ns_ops E) s2 SYS_CNS name (ns_enc E (add_version version address abi m))))))"

definition cns_select_by_name ::
    "'s cns_env \<Rightarrow> string \<Rightarrow> precompiled_gas \<Rightarrow> 's \<Rightarrow> 's cns_result" where
  "cns_select_by_name E name g s =
     (let g1 = append_operation OpOpenTable 1 g in
      case read_cns E name s of
        (Throw m, s1) \<Rightarrow> (Throw m, s1)
      | (Undef, s1) \<Rightarrow> (Undef, s1)
      | (Val None, s1) \<Rightarrow> (Val (CnInfos [], g1), s1)
      | (Val (Some m), s1) \<Rightarrow>
          (Val (CnInfos (map (\<lambda>(v, a, b). (name, v, a, b)) m),
                append_operation OpSelect (of_nat (length m)) g1), s1))"

text \<open>The look-up of \<open>selectByNameAndVersion\<close> and \<open>getContractAddress\<close>; \<open>out\<close> builds the answer.\<close>

definition cns_find ::
    "'s cns_env \<Rightarrow> (string \<times> string \<Rightarrow> cns_answer) \<Rightarrow> string \<Rightarrow> string \<Rightarrow> precompiled_gas \<Rightarrow> 's
     \<Rightarrow> 's cns_result" where
  "cns_find E out contractName contractVersion g s =
     (let name = ns_trim E contractName; version = ns_trim E contractVersion;
          g1 = append_operation OpOpenTable 1 g in
      case read_cns E name s of
        (Throw m, s1) \<Rightarrow> (Throw m, s1)
      | (Undef, s1) \<Rightarrow> (Undef, s1)
      | (Val None, s1) \<Rightarrow> (Val (CnNotFound, g1), s1)
      | (Val (Some m), s1) \<Rightarrow>
          (case map_of m version of
             None \<Rightarrow> (Val (CnNotFound, g1), s1)
           | Some p \<Rightarrow> (Val (out p, append_operation OpSelect (of_nat (length m)) g1), s1)))"

definition cns_select_by_name_and_version where
  "cns_select_by_name_and_version E = cns_find E (\<lambda>(address, abi). CnAddressAbi address abi)"

definition cns_get_contract_address where
  "cns_get_contract_address E = cns_find E (\<lambda>(address, abi). CnAddress address)"

section \<open>Dispatch\<close>

datatype cns_call =
    CnsInsert string string string string
  | CnsSelectByName string
  | CnsSelectByNameAndVersion string string
  | CnsGetContractAddress string string
  | CnsUnknown

fun cns_run :: "'s cns_env \<Rightarrow> cns_call \<Rightarrow> precompiled_gas \<Rightarrow> 's \<Rightarrow> 's cns_result" where
  "cns_run E (CnsInsert n v a b) g s = cns_insert E n v a b g s"
| "cns_run E (CnsSelectByName n) g s = cns_select_by_name E n g s"
| "cns_run E (CnsSelectByNameAndVersion n v) g s = cns_select_by_name_and_version E n v g s"
| "cns_run E (CnsGetContractAddress n v) g s = cns_get_contract_address E n v g s"
| "cns_run E CnsUnknown g s = (Val (CnNothing, g), s)"

definition cns_dispatch ::
    "'s cns_env \<Rightarrow> (cns_answer \<Rightarrow> bytes) \<Rightarrow> nat \<Rightarrow> cns_call \<Rightarrow> 's \<Rightarrow> (bytes \<times> u64) eval \<times> 's" where
  "cns_dispatch E enc n c s =
     (case cns_run E c (create_precompiled_gas\<lparr>mem_used := of_nat n\<rparr>) s of
        (Val (a, g), s1) \<Rightarrow>
          (let out = (if a = CnNothing then [] else enc a)
           in (Val (out, cal_total_gas (update_mem_used (of_nat (length out)) g)), s1))
      | (Throw m, s1) \<Rightarrow> (Throw m, s1)
      | (Undef, s1) \<Rightarrow> (Undef, s1))"

section \<open>What is registered\<close>

definition registered :: "'s cns_env \<Rightarrow> 's \<Rightarrow> string \<Rightarrow> string \<Rightarrow> (string \<times> string) option" where
  "registered E s name version =
     (case row (ns_ops E) s SYS_CNS name of
        None \<Rightarrow> None
      | Some v \<Rightarrow> (case ns_dec E v of None \<Rightarrow> None | Some m \<Rightarrow> map_of m version))"

definition rows_decode :: "'s cns_env \<Rightarrow> 's \<Rightarrow> bool" where
  "rows_decode E s \<longleftrightarrow> (\<forall>name v. row (ns_ops E) s SYS_CNS name = Some v \<longrightarrow> ns_dec E v \<noteq> None)"

lemma map_of_add_version:
  "map_of m v = None \<Longrightarrow> map_of (add_version v a b m) v' = (if v' = v then Some (a, b) else map_of m v')"
proof -
  assume "map_of m v = None"
  then have "map_of (insort_key fst (v, a, b) m) v' = (if v' = v then Some (a, b) else map_of m v')"
    by (induction m) (auto split: if_splits)
  then show ?thesis by (simp add: add_version_def)
qed

locale name_store = table_storage "ns_ops E" inv for E :: "'s cns_env" and inv +
  assumes dec_enc: "ns_dec E (ns_enc E m) = Some m"
    and not_sys: "SYS_CNS \<noteq> st_sys (ns_ops E)"
begin

abbreviation ops where "ops \<equiv> ns_ops E"

text \<open>States with the same names; reading, and creating the table, keep them.\<close>

definition same_names :: "'s \<Rightarrow> 's \<Rightarrow> bool" where
  "same_names s s' \<longleftrightarrow> inv s' \<and> (\<forall>name. row ops s' SYS_CNS name = row ops s SYS_CNS name)
     \<and> (st_open ops s SYS_CNS \<longrightarrow> st_open ops s' SYS_CNS)"

lemma same_refl: "inv s \<Longrightarrow> same_names s s"
  by (simp add: same_names_def)

lemma same_trans: "same_names s t \<Longrightarrow> same_names t u \<Longrightarrow> same_names s u"
  by (simp add: same_names_def)

lemma same_get: "inv s \<Longrightarrow> st_get ops s t k = (e, s') \<Longrightarrow> same_names s s'"
  using get_inv [of s t k] get_row [of s t k] get_open [of s t k] by (simp add: same_names_def)

lemma same_registered: "same_names s s' \<Longrightarrow> registered E s' = registered E s"
  by (simp add: same_names_def registered_def fun_eq_iff)

lemma same_decode: "same_names s s' \<Longrightarrow> rows_decode E s' = rows_decode E s"
  by (simp add: same_names_def rows_decode_def)

lemma same_keeps:
  assumes "same_names s s'" and "rows_decode E s"
  shows "inv s' \<and> rows_decode E s'
    \<and> (\<forall>n v p. registered E s n v = Some p \<longrightarrow> registered E s' n v = Some p)"
proof -
  have "inv s'" using assms(1) by (simp add: same_names_def)
  then show ?thesis using same_registered [OF assms(1)] same_decode [OF assms(1)] assms(2) by simp
qed

lemma status_same: "inv s \<Longrightarrow> same_names s (snd (get_contract_status E t s))"
proof -
  assume i: "inv s"
  obtain h s1 where h: "st_get ops s t ''codeHash'' = (h, s1)" by fastforce
  obtain f s2 where f: "st_get ops s1 t ''frozen'' = (f, s2)" by fastforce
  have 1: "same_names s s1" using same_get [OF i h] .
  then have "same_names s s2" using same_get [OF _ f] same_trans by (auto simp: same_names_def)
  with 1 i h f show ?thesis by (simp add: get_contract_status_def same_refl split: option.split)
qed

lemma check_same:
  assumes "inv s"
  obtains r s' where "check_cns_param E a n v b s = (r, s')" "same_names s s'"
    "r = (if length v > 128 then Val (-51201) else if CHR '','' \<in> set v \<or> CHR '','' \<in> set n then Val (-51202)
          else if length n > 128 \<or> length b > 16777215 then Throw ''PrecompiledError'' else Val 0)"
proof -
  obtain st s' where g: "get_contract_status E (USER_APPS_PREFIX @ a) s = (st, s')" by fastforce
  then have "same_names s s'" using status_same [OF assms] by (metis snd_conv)
  then show ?thesis
    by (intro that [of _ s'])
      (simp_all add: check_cns_param_def g CNS_VERSION_MAX_LENGTH_def CNS_CONTRACT_NAME_MAX_LENGTH_def
        ABI_MAX_LENGTH_def CODE_VERSION_LENGTH_OVERFLOW_def CODE_ADDRESS_OR_VERSION_ERROR_def)
qed

lemma read_same:
  assumes "inv s" and "rows_decode E s"
  obtains r s' where "read_cns E n s = (Val r, s')" "same_names s s'" "st_open ops s' SYS_CNS"
    "\<forall>v. registered E s n v = map_of (case r of None \<Rightarrow> [] | Some m \<Rightarrow> m) v"
proof -
  obtain s1 where o: "open_cns E s = (True, s1)" "same_names s s1" "st_open ops s1 SYS_CNS"
  proof (cases "st_open ops s SYS_CNS")
    case True
    then show ?thesis using that [of s] assms(1) by (simp add: open_cns_def same_refl)
  next
    case False
    obtain s1 where c: "st_create ops s SYS_CNS SYS_VALUE_FIELDS = (True, s1)"
      using create_ok [OF assms(1) False] by (metis prod.collapse)
    have "inv s1" "\<And>k. row ops s1 SYS_CNS k = row ops s SYS_CNS k" "st_open ops s1 SYS_CNS"
      using create_inv [OF assms(1), of SYS_CNS SYS_VALUE_FIELDS]
        create_row [OF assms(1) False not_sys, of SYS_VALUE_FIELDS]
        create_open [OF assms(1) False, of SYS_VALUE_FIELDS] by (simp_all add: c)
    then show ?thesis using that [of s1] c False by (simp add: open_cns_def same_names_def)
  qed
  obtain e s2 where g: "st_get ops s1 SYS_CNS n = (e, s2)" by fastforce
  have i1: "inv s1" using o(2) by (simp add: same_names_def)
  have e: "e = row ops s SYS_CNS n" using get_Some_row [OF g] o(2) by (simp add: same_names_def)
  have s2: "same_names s s2" "st_open ops s2 SYS_CNS"
    using same_trans [OF o(2) same_get [OF i1 g]] same_get [OF i1 g] o(3) by (simp_all add: same_names_def)
  show ?thesis
  proof (cases e)
    case None
    then show ?thesis
      using that [of None s2] s2 o(1) g e by (simp add: read_cns_def registered_def)
  next
    case (Some v)
    then obtain m where "ns_dec E v = Some m" using assms(2) e by (auto simp: rows_decode_def)
    then show ?thesis
      using that [of "Some m" s2] s2 o(1) g Some e [symmetric] by (simp add: read_cns_def registered_def)
  qed
qed


lemma insert_outcome:
  fixes n v :: string
  assumes "inv s" and "rows_decode E s"
  defines "n' \<equiv> ns_trim E n" and "v' \<equiv> ns_trim E v"
  shows "\<exists>r s'. cns_insert E n v a b g s = (r, s') \<and> inv s' \<and> rows_decode E s'
    \<and> (if length v' > 128 \<or> CHR '','' \<in> set v' \<or> CHR '','' \<in> set n'
       then r = Val (CnCode (-51201), g) \<and> registered E s' = registered E s
       else if length n' > 128 \<or> length b > 16777215
       then r = Throw ''PrecompiledError'' \<and> registered E s' = registered E s
       else if registered E s n' v' \<noteq> None
       then (\<exists>g1. r = Val (CnCode (-51200), g1)) \<and> registered E s' = registered E s
       else (\<exists>g1. r = Val (CnCode 0, g1))
         \<and> registered E s' = (registered E s)(n' := (registered E s n')(v' \<mapsto> (a, b))))"
proof -
  obtain r1 s1 where c: "check_cns_param E a n' v' b s = (r1, s1)" "same_names s s1"
    "r1 = (if length v' > 128 then Val (-51201) else if CHR '','' \<in> set v' \<or> CHR '','' \<in> set n' then Val (-51202)
          else if length n' > 128 \<or> length b > 16777215 then Throw ''PrecompiledError'' else Val 0)"
    by (rule check_same [OF assms(1)])
  have 1: "inv s1" "rows_decode E s1" "registered E s1 = registered E s"
    using c(2) same_decode [OF c(2)] same_registered [OF c(2)] assms(2) by (simp_all add: same_names_def)
  have run: "cns_insert E n v a b g s = (case (r1, s1) of (Throw m, s1) \<Rightarrow> (Throw m, s1) | (Undef, s1) \<Rightarrow> (Undef, s1)
      | (Val c, s1) \<Rightarrow> (if c < 0 then (Val (CnCode CODE_VERSION_LENGTH_OVERFLOW, g), s1)
           else let g1 = append_operation OpOpenTable 1 g in
             case read_cns E n' s1 of
               (Throw m, s2) \<Rightarrow> (Throw m, s2)
             | (Undef, s2) \<Rightarrow> (Undef, s2)
             | (Val r, s2) \<Rightarrow>
                 (let m = (case r of None \<Rightarrow> [] | Some m \<Rightarrow> m) in
                  if map_of m v' \<noteq> None
                  then (Val (CnCode CODE_ADDRESS_AND_VERSION_EXIST, append_operation OpSelect 1 g1), s2)
                  else (Val (CnCode 0, append_operation OpInsert 1 (update_mem_used 1 g1)),
                        st_set ops s2 SYS_CNS n' (ns_enc E (add_version v' a b m))))))"
    by (simp add: cns_insert_def c(1) n'_def [symmetric] v'_def [symmetric])
  show ?thesis
  proof (cases "r1 = Val 0")
    case False
    then show ?thesis
      using 1 c(3) by (auto simp: run CODE_VERSION_LENGTH_OVERFLOW_def split: if_splits)
  next
    case True
    have ok: "\<not> (length v' > 128 \<or> CHR '','' \<in> set v' \<or> CHR '','' \<in> set n')"
        "\<not> (length n' > 128 \<or> length b > 16777215)" using True c(3) by (auto split: if_splits)
    obtain r s2 where rd: "read_cns E n' s1 = (Val r, s2)" "same_names s1 s2" "st_open ops s2 SYS_CNS"
        "\<forall>v. registered E s1 n' v = map_of (case r of None \<Rightarrow> [] | Some m \<Rightarrow> m) v"
      by (rule read_same [OF 1(1,2)])
    let ?m = "case r of None \<Rightarrow> [] | Some m \<Rightarrow> m"
    have 2: "inv s2" "rows_decode E s2" "registered E s2 = registered E s"
      using rd(2) same_decode [OF rd(2)] same_registered [OF rd(2)] 1 by (simp_all add: same_names_def)
    show ?thesis
    proof (cases "map_of ?m v' = None")
      case False
      then show ?thesis
        using 2 1(3) ok rd(1,4) True by (simp add: run Let_def CODE_ADDRESS_AND_VERSION_EXIST_def)
    next
      case none: True
      let ?s = "st_set ops s2 SYS_CNS n' (ns_enc E (add_version v' a b ?m))"
      have row: "row ops ?s SYS_CNS k = (if k = n' then Some (ns_enc E (add_version v' a b ?m)) else row ops s2 SYS_CNS k)" for k
        using set_row [OF 2(1) rd(3) not_sys] by simp
      have reg: "registered E ?s = (registered E s)(n' := (registered E s n')(v' \<mapsto> (a, b)))"
      proof (intro ext)
        fix x y
        have "registered E ?s x y =
            (if x = n' then map_of (add_version v' a b ?m) y else registered E s2 x y)"
          by (simp add: registered_def row dec_enc)
        then show "registered E ?s x y = ((registered E s)(n' := (registered E s n')(v' \<mapsto> (a, b)))) x y"
          using map_of_add_version [OF none, of a b y] rd(4) [THEN spec, of y] 1(3) 2(3) by simp
      qed
      have "rows_decode E ?s" using 2(2) by (auto simp: rows_decode_def row dec_enc)
      then show ?thesis
        using set_inv [OF 2(1)] none ok rd(1,4) True 1(3) reg by (auto simp: run Let_def)
    qed
  qed
qed

text \<open>Every call keeps what is registered.\<close>

lemma find_answer:
  assumes "inv s" and "rows_decode E s"
  shows "\<exists>g1 s'. cns_find E out n v g s = (Val (case registered E s (ns_trim E n) (ns_trim E v) of
      None \<Rightarrow> CnNotFound | Some p \<Rightarrow> out p, g1), s') \<and> same_names s s'"
proof -
  obtain r s' where rd: "read_cns E (ns_trim E n) s = (Val r, s')" "same_names s s'" "st_open ops s' SYS_CNS"
      "\<forall>v. registered E s (ns_trim E n) v = map_of (case r of None \<Rightarrow> [] | Some m \<Rightarrow> m) v"
    by (rule read_same [OF assms])
  then show ?thesis by (cases r) (auto simp: cns_find_def Let_def split: option.split)
qed

lemma run_keeps:
  assumes "inv s" and "rows_decode E s"
  shows "inv (snd (cns_run E c g s)) \<and> rows_decode E (snd (cns_run E c g s))
    \<and> (\<forall>n v p. registered E s n v = Some p \<longrightarrow> registered E (snd (cns_run E c g s)) n v = Some p)"
proof (cases c)
  case (CnsInsert n v a b)
  let ?n = "ns_trim E n" and ?v = "ns_trim E v"
  obtain r s' where i: "cns_insert E n v a b g s = (r, s')" "inv s'" "rows_decode E s'"
    and "registered E s' = registered E s \<or> registered E s ?n ?v = None
      \<and> registered E s' = (registered E s)(?n := (registered E s ?n)(?v \<mapsto> (a, b)))"
    using insert_outcome [OF assms, of n v a b g] by (cases "registered E s ?n ?v") (fastforce split: if_splits)+
  then show ?thesis using CnsInsert by auto
next
  case (CnsSelectByName n)
  obtain r s' where rd: "read_cns E n s = (Val r, s')" "same_names s s'" "st_open ops s' SYS_CNS"
      "\<forall>v. registered E s n v = map_of (case r of None \<Rightarrow> [] | Some m \<Rightarrow> m) v"
    by (rule read_same [OF assms])
  then have "snd (cns_run E c g s) = s'"
    using CnsSelectByName by (cases r) (simp_all add: cns_select_by_name_def Let_def)
  then show ?thesis using same_keeps [OF rd(2) assms(2)] by simp
next
  case (CnsSelectByNameAndVersion n v)
  obtain s' where "snd (cns_run E c g s) = s'" "same_names s s'"
    using find_answer [OF assms] CnsSelectByNameAndVersion
    by (metis cns_run.simps(3) cns_select_by_name_and_version_def snd_conv)
  then show ?thesis using same_keeps [OF _ assms(2)] by simp
next
  case (CnsGetContractAddress n v)
  obtain s' where "snd (cns_run E c g s) = s'" "same_names s s'"
    using find_answer [OF assms] CnsGetContractAddress
    by (metis cns_run.simps(4) cns_get_contract_address_def snd_conv)
  then show ?thesis using same_keeps [OF _ assms(2)] by simp
qed (simp add: assms)

lemma runs_keep:
  "inv s \<Longrightarrow> rows_decode E s \<Longrightarrow> registered E s n v = Some p \<Longrightarrow>
     registered E (fold (\<lambda>(c, g) s. snd (cns_run E c g s)) calls s) n v = Some p
     \<and> inv (fold (\<lambda>(c, g) s. snd (cns_run E c g s)) calls s)
     \<and> rows_decode E (fold (\<lambda>(c, g) s. snd (cns_run E c g s)) calls s)"
proof (induction calls arbitrary: s)
  case (Cons x calls)
  obtain c g where x: "x = (c, g)" by (cases x)
  let ?s = "snd (cns_run E c g s)"
  have "inv ?s" "rows_decode E ?s" "registered E ?s n v = Some p"
    using run_keeps [OF Cons.prems(1,2), of c g] Cons.prems(3) by blast+
  from Cons.IH [OF this] show ?case by (simp only: x fold.simps o_apply prod.case)
qed simp

end

section \<open>The interpretation\<close>

definition mem_names :: "mem cns_env" where
  "mem_names = \<lparr>ns_ops = mem_ops, ns_trim = tx_trim std_text, ns_enc = (count_enc :: cns_map \<Rightarrow> string),
     ns_dec = count_dec, ns_zero_hash = (\<lambda>h. h = replicate 32 (CHR 0x00))\<rparr>"

interpretation mem_cns: name_store mem_names "\<lambda>_. True"
  by unfold_locales
    (auto simp: mem_names_def mem_ops_def mem_sys_def row_def counted.dec_enc SYS_CNS_def split: if_splits)

section \<open>Properties\<close>

text \<open>C34: registering a version of a name answers with success exactly when name and version, trimmed,
  are well-formed and the version is new, and then looking it up, under any spelling that trims to
  it, returns the address and the ABI, after any further calls: a registered version never changes.
  Every malformed name or version, also one with a comma, is answered with the same code -51201.\<close>
theorem registered_versions_stay:
  assumes "name_store E I" and "I s" and "rows_decode E s"
    and "cns_insert E n v a b g s = (r, s1)"
  shows "(if length (ns_trim E v) > 128 \<or> CHR '','' \<in> set (ns_trim E v) \<or> CHR '','' \<in> set (ns_trim E n)
       then r = Val (CnCode (-51201), g)
       else if length (ns_trim E n) > 128 \<or> length b > 16777215 then r = Throw ''PrecompiledError''
       else if registered E s (ns_trim E n) (ns_trim E v) \<noteq> None then \<exists>g1. r = Val (CnCode (-51200), g1)
       else (\<exists>g1. r = Val (CnCode 0, g1))
         \<and> (ns_trim E n' = ns_trim E n \<and> ns_trim E v' = ns_trim E v \<longrightarrow>
            (\<exists>g2. fst (cns_select_by_name_and_version E n' v' g'
               (fold (\<lambda>(c, g) s. snd (cns_run E c g s)) calls s1)) = Val (CnAddressAbi a b, g2))))"
proof -
  note N = assms(1)
  have out: "\<exists>r' s'. (r, s1) = (r', s') \<and> I s' \<and> rows_decode E s'
    \<and> (if length (ns_trim E v) > 128 \<or> CHR '','' \<in> set (ns_trim E v) \<or> CHR '','' \<in> set (ns_trim E n)
       then r' = Val (CnCode (-51201), g) \<and> registered E s' = registered E s
       else if length (ns_trim E n) > 128 \<or> length b > 16777215
       then r' = Throw ''PrecompiledError'' \<and> registered E s' = registered E s
       else if registered E s (ns_trim E n) (ns_trim E v) \<noteq> None
       then (\<exists>g1. r' = Val (CnCode (-51200), g1)) \<and> registered E s' = registered E s
       else (\<exists>g1. r' = Val (CnCode 0, g1))
         \<and> registered E s' = (registered E s)(ns_trim E n := (registered E s (ns_trim E n))(ns_trim E v \<mapsto> (a, b))))"
    using name_store.insert_outcome [OF N assms(2,3), of n v a b g] assms(4) by simp
  then have 1: "I s1" "rows_decode E s1" by auto
  have "\<exists>g2. fst (cns_select_by_name_and_version E n' v' g'
      (fold (\<lambda>(c, g) s. snd (cns_run E c g s)) calls s1)) = Val (CnAddressAbi a b, g2)"
    if "registered E s1 (ns_trim E n) (ns_trim E v) = Some (a, b)"
      "ns_trim E n' = ns_trim E n \<and> ns_trim E v' = ns_trim E v"
  proof -
    note reg = that(1) and spelled = that(2)
    let ?s = "fold (\<lambda>(c, g) s. snd (cns_run E c g s)) calls s1"
    have k: "registered E ?s (ns_trim E n) (ns_trim E v) = Some (a, b)" "I ?s" "rows_decode E ?s"
      using name_store.runs_keep [OF N 1 reg, of calls] by blast+
    obtain g2 s2 where "cns_find E (\<lambda>(address, abi). CnAddressAbi address abi) n' v' g' ?s =
        (Val (CnAddressAbi a b, g2), s2)"
      using name_store.find_answer [OF N k(2,3), of "\<lambda>(address, abi). CnAddressAbi address abi" n' v' g'] k(1) spelled
      by auto
    then show ?thesis unfolding cns_select_by_name_and_version_def by (metis fst_conv)
  qed
  then show ?thesis using out by auto
qed

theorem registered_versions_stay_witness:
  "\<exists>r s1 g2. cns_insert mem_names ''n'' ''1'' ''a'' ''b'' create_precompiled_gas mem_empty = (r, s1)
     \<and> fst (cns_select_by_name_and_version mem_names ''n'' ''1'' create_precompiled_gas
         (snd (cns_run mem_names (CnsInsert ''n'' ''1'' ''x'' ''y'') create_precompiled_gas s1))) = Val (CnAddressAbi ''a'' ''b'', g2)"
proof -
  have d: "rows_decode mem_names mem_empty" "registered mem_names mem_empty x y = None" for x y
    by (simp_all add: rows_decode_def registered_def row_def mem_names_def mem_empty_def)
  have t: "ns_trim mem_names ''n'' = ''n''" "ns_trim mem_names ''1'' = ''1''"
    by (simp_all add: mem_names_def std_text_def)
  obtain r s1 where i: "cns_insert mem_names ''n'' ''1'' ''a'' ''b'' create_precompiled_gas mem_empty = (r, s1)" by fastforce
  show ?thesis
    using registered_versions_stay [OF mem_cns.name_store_axioms TrueI d(1) i, of "''n''" "''1''" create_precompiled_gas
        "[(CnsInsert ''n'' ''1'' ''x'' ''y'', create_precompiled_gas)]"] i
    by (simp add: t d(2))
qed

end
