(* ===== verification/GasInjector.thy ===== *)
theory GasInjector imports Prelude begin

text \<open>
  The gas metering of WASM contracts: \<open>src/vm/gas_meter/Metric.cpp\<close> (prices) and
  \<open>src/vm/gas_meter/GasInjector.cpp\<close> (the pass that rewrites a module).  The parser, the
  printer and the opcode list \<open>opcode.def\<close> belong to the wabt library; the pass is modelled on
  the parsed module, with the classes of expressions the source casts to.

  \<^item> An \<open>opcode\<close> is its enumerator in \<open>opcode.def\<close>; the number \<open>GetCode()\<close> of each is the
    parameter \<open>gi_code\<close>, and the price table \<open>m_costTable\<close> is indexed by that number.
  \<^item> \<open>inject_exprs\<close> is \<open>InjectMeterExprList\<close>: the list is split at the insertion point; \<open>seg\<close>
    holds the expressions between the insertion point and the iterator, \<open>gas\<close> is \<open>gasCost\<close>.
    An \<open>InvalidInstruction\<close> is \<open>None\<close>.
  \<^item> \<open>inject_meter\<close> is \<open>InjectMeter\<close> on the parsed module.
\<close>

section \<open>Expressions\<close>

type_synonym opcode = string

datatype wasm_value = VI32 u32 | VI64 u64 | VF32 u32 | VF64 u64

text \<open>A block declaration has the number of its parameters and of its results; a signature of a
  function has their types.\<close>

datatype value_type = I32 | I64 | F32 | F64

type_synonym block_decl = "nat \<times> nat"
type_synonym func_sig = "value_type list \<times> value_type list"

datatype wasm_expr =
    BinaryExpr opcode
  | BlockExpr block_decl "wasm_expr list"
  | BrExpr nat
  | BrIfExpr nat
  | BrTableExpr "nat list" nat
  | CallExpr nat
  | CallIndirectExpr func_sig
  | CompareExpr opcode
  | ConstExpr wasm_value
  | ConvertExpr opcode
  | DropExpr
  | GlobalGetExpr nat
  | GlobalSetExpr nat
  | IfExpr block_decl "wasm_expr list" "wasm_expr list"
  | LoadExpr opcode nat
  | LocalGetExpr nat
  | LocalSetExpr nat
  | LocalTeeExpr nat
  | LoopExpr block_decl "wasm_expr list"
  | MemoryGrowExpr
  | MemorySizeExpr
  | NopExpr
  | ReturnExpr
  | SelectExpr
  | StoreExpr opcode nat
  | UnaryExpr opcode
  | UnreachableExpr
  | OtherExpr string

section \<open>Prices\<close>

text \<open>The assignments of \<open>GetInstructionTable\<close> in their order; the float group is compiled only
  with \<open>WASM_FLOAT_ENABLE\<close>, which the header leaves undefined.\<close>

definition instruction_prices :: "(opcode \<times> nat) list" where
  "instruction_prices =
    [(''LocalGet'', 3), (''LocalSet'', 3), (''LocalTee'', 3), (''GlobalGet'', 3), (''GlobalSet'', 3),
     (''I32Load'', 3), (''I32Load8S'', 3), (''I32Load8U'', 3), (''I32Load16S'', 3),
     (''I32Load16U'', 3), (''I64Load'', 3), (''I64Load8S'', 3), (''I64Load8U'', 3),
     (''I64Load16S'', 3), (''I64Load16U'', 3), (''I64Load32S'', 3), (''I64Load32U'', 3),
     (''I32Store'', 3), (''I32Store8'', 3), (''I32Store16'', 3), (''I64Store'', 3),
     (''I64Store8'', 3), (''I64Store16'', 3), (''I64Store32'', 3),
     (''MemorySize'', 3), (''MemoryGrow'', 5 * 64 * 1024),
     (''Unreachable'', 0), (''Nop'', 0), (''Block'', 0), (''Loop'', 0), (''If'', 0), (''Else'', 2),
     (''End'', 0), (''Br'', 2), (''BrIf'', 3), (''BrTable'', 2), (''Return'', 2),
     (''Call'', 3), (''CallIndirect'', 2), (''I32Const'', 0), (''I64Const'', 0),
     (''I32Clz'', 3), (''I32Ctz'', 6), (''I32Popcnt'', 3), (''I32Add'', 1), (''I32Sub'', 1),
     (''I32Mul'', 3), (''I32DivS'', 80), (''I32DivU'', 80), (''I32RemS'', 80), (''I32RemU'', 80),
     (''I32And'', 1), (''I32Or'', 1), (''I32Xor'', 1), (''I32Shl'', 2), (''I32ShrS'', 2),
     (''I32ShrU'', 2), (''I32Rotl'', 2), (''I32Rotr'', 2), (''I32Eqz'', 1), (''I32Eq'', 1),
     (''I32Ne'', 1), (''I32LtS'', 1), (''I32LtU'', 1), (''I32GtS'', 1), (''I32GtU'', 1),
     (''I32LeS'', 1), (''I32LeU'', 1), (''I32GeS'', 1), (''I32GeU'', 1),
     (''I64Clz'', 3), (''I64Ctz'', 6), (''I64Popcnt'', 3), (''I64Add'', 1), (''I64Sub'', 1),
     (''I64Mul'', 3), (''I64DivS'', 80), (''I64DivU'', 80), (''I64RemS'', 80), (''I64RemU'', 80),
     (''I64And'', 1), (''I64Or'', 1), (''I64Xor'', 1), (''I64Shl'', 2), (''I64ShrS'', 2),
     (''I64ShrU'', 2), (''I64Rotl'', 2), (''I64Rotr'', 2), (''I64Eqz'', 1), (''I64Eq'', 1),
     (''I64Ne'', 1), (''I64LtS'', 1), (''I64LtU'', 1), (''I64GtS'', 1), (''I64GtU'', 1),
     (''I64LeS'', 1), (''I64LeU'', 1), (''I64GeS'', 1), (''I64GeU'', 1),
     (''I32WrapI64'', 3), (''I64ExtendI32S'', 3), (''I64ExtendI32U'', 3),
     (''Drop'', 3), (''Select'', 3)]"

text \<open>The table by opcode number: every opcode of \<open>opcode.def\<close> first gets the greatest price,
  the numbers no opcode has stay at zero.\<close>

definition price_table :: "(opcode \<Rightarrow> nat) \<Rightarrow> opcode list \<Rightarrow> nat \<Rightarrow> nat" where
  "price_table code all_opcodes =
     fold (\<lambda>(name, p) t. t(code name := p)) instruction_prices
      (fold (\<lambda>name t. t(code name := 4294967295)) all_opcodes (\<lambda>_. 0))"

section \<open>The pass over one list of expressions\<close>

record gas_injector =
  gi_code :: "opcode \<Rightarrow> nat"
  gi_cost :: "nat \<Rightarrow> nat"

record imports_info =
  found_gas_function :: bool
  gas_func_index :: nat
  global_gas_index :: nat
  temp_var_index :: nat
  origin_size :: nat

definition price :: "gas_injector \<Rightarrow> opcode \<Rightarrow> nat" where
  "price J name = gi_cost J (gi_code J name)"

definition sub_and_check :: "imports_info \<Rightarrow> wasm_expr list" where
  "sub_and_check info =
     [BinaryExpr ''I64Sub'', GlobalSetExpr (global_gas_index info),
      GlobalGetExpr (global_gas_index info), ConstExpr (VI64 0), BinaryExpr ''I64LeS'',
      IfExpr (0, 0) [CallExpr (gas_func_index info)] []]"

definition use_gas :: "imports_info \<Rightarrow> nat \<Rightarrow> wasm_expr list" where
  "use_gas info gas =
     (if gas > 0
      then [GlobalGetExpr (global_gas_index info), ConstExpr (VI64 (of_nat gas))] @ sub_and_check info
      else [])"

definition is_float_opcode :: "nat \<Rightarrow> bool" where
  "is_float_opcode c \<longleftrightarrow>
     0x2A \<le> c \<and> c \<le> 0x2B \<or> 0x38 \<le> c \<and> c \<le> 0x39 \<or> 0x43 \<le> c \<and> c \<le> 0x44 \<or>
     0x5B \<le> c \<and> c \<le> 0x66 \<or> 0x8B \<le> c \<and> c \<le> 0xA6 \<or> 0xB2 \<le> c \<and> c \<le> 0xBF"

text \<open>What the switch does with one expression: reject it, keep it (rewritten) in the segment and
  add its price, end the segment with it, or enter the lists nested in it.\<close>

datatype scanned =
    Forbidden
  | Add wasm_expr nat
  | Close wasm_expr nat
  | InBlock block_decl "wasm_expr list"
  | InIf block_decl "wasm_expr list" "wasm_expr list"
  | InLoop block_decl "wasm_expr list"

definition scan_op :: "gas_injector \<Rightarrow> opcode \<Rightarrow> wasm_expr \<Rightarrow> scanned" where
  "scan_op J op e = (if is_float_opcode (gi_code J op) then Forbidden else Add e (price J op))"

definition scan_const :: "gas_injector \<Rightarrow> wasm_value \<Rightarrow> scanned" where
  "scan_const J v =
     (case v of VI32 _ \<Rightarrow> Add (ConstExpr v) (price J ''I32Const'')
      | VI64 _ \<Rightarrow> Add (ConstExpr v) (price J ''I64Const'')
      | _ \<Rightarrow> Forbidden)"

definition shift_call :: "imports_info \<Rightarrow> nat \<Rightarrow> nat" where
  "shift_call info i = (if origin_size info \<le> i \<and> \<not> found_gas_function info then i + 1 else i)"

text \<open>The cases of the switch from \<open>If\<close> on.\<close>

definition scan_rest :: "gas_injector \<Rightarrow> imports_info \<Rightarrow> wasm_expr \<Rightarrow> scanned" where
  "scan_rest J info e =
     (case e of
        IfExpr d t f \<Rightarrow> InIf d t f
      | LoadExpr op _ \<Rightarrow> Add e (price J op)
      | LocalGetExpr _ \<Rightarrow> Add e (price J ''LocalGet'')
      | LocalSetExpr _ \<Rightarrow> Add e (price J ''LocalSet'')
      | LocalTeeExpr _ \<Rightarrow> Add e (price J ''LocalTee'')
      | LoopExpr d b \<Rightarrow> InLoop d b
      | MemoryGrowExpr \<Rightarrow> Add e 0
      | MemorySizeExpr \<Rightarrow> Add e (price J ''MemorySize'')
      | NopExpr \<Rightarrow> Add e (price J ''Nop'')
      | ReturnExpr \<Rightarrow> Close e (price J ''Return'')
      | SelectExpr \<Rightarrow> Add e (price J ''Select'')
      | StoreExpr op _ \<Rightarrow> Add e (price J op)
      | UnaryExpr op \<Rightarrow> scan_op J op e
      | UnreachableExpr \<Rightarrow> Add e (price J ''Unreachable'')
      | _ \<Rightarrow> Forbidden)"

definition scan_expr :: "gas_injector \<Rightarrow> imports_info \<Rightarrow> wasm_expr \<Rightarrow> scanned" where
  "scan_expr J info e =
     (case e of
        BinaryExpr op \<Rightarrow> scan_op J op e
      | BlockExpr d b \<Rightarrow> InBlock d b
      | BrExpr _ \<Rightarrow> Close e (price J ''Br'')
      | BrIfExpr _ \<Rightarrow> Close e (price J ''BrIf'')
      | BrTableExpr _ _ \<Rightarrow> Close e (price J ''BrTable'')
      | CallExpr i \<Rightarrow> Close (CallExpr (shift_call info i)) (price J ''Call'')
      | CallIndirectExpr _ \<Rightarrow> Close e (price J ''CallIndirect'')
      | CompareExpr op \<Rightarrow> scan_op J op e
      | ConstExpr v \<Rightarrow> scan_const J v
      | ConvertExpr op \<Rightarrow> scan_op J op e
      | DropExpr \<Rightarrow> Add e (price J ''Drop'')
      | GlobalGetExpr i \<Rightarrow> Add (GlobalGetExpr (i + 1)) (price J ''GlobalGet'')
      | GlobalSetExpr i \<Rightarrow> Add (GlobalSetExpr (i + 1)) (price J ''GlobalSet'')
      | _ \<Rightarrow> scan_rest J info e)"

lemma scan_expr_nested:
  "scan_expr J info e = InBlock d b \<longleftrightarrow> e = BlockExpr d b"
  "scan_expr J info e = InIf d t f \<longleftrightarrow> e = IfExpr d t f"
  "scan_expr J info e = InLoop d b \<longleftrightarrow> e = LoopExpr d b"
  by (cases e; auto simp: scan_expr_def scan_rest_def scan_op_def scan_const_def
      split: wasm_value.splits)+

function inject_exprs ::
  "gas_injector \<Rightarrow> imports_info \<Rightarrow> wasm_expr list \<Rightarrow> nat \<Rightarrow> wasm_expr list \<Rightarrow> wasm_expr list option"
where
  "inject_exprs J info seg gas [] = Some (use_gas info gas @ seg)"
| "inject_exprs J info seg gas (e # es) =
     (case scan_expr J info e of
        Forbidden \<Rightarrow> None
      | Add e' c \<Rightarrow> inject_exprs J info (seg @ [e']) (gas + c) es
      | Close e' c \<Rightarrow>
          map_option (\<lambda>rest. use_gas info (gas + c) @ seg @ e' # rest) (inject_exprs J info [] 0 es)
      | InBlock d b \<Rightarrow>
          Option.bind (inject_exprs J info [] 0 b) (\<lambda>b'.
            map_option (\<lambda>rest. use_gas info gas @ seg @ BlockExpr d b' # rest)
              (inject_exprs J info [] 0 es))
      | InIf d t f \<Rightarrow>
          Option.bind (inject_exprs J info [] 0 t) (\<lambda>t'.
            Option.bind (if f = [] then Some [] else inject_exprs J info [] 0 f) (\<lambda>f'.
              map_option (\<lambda>rest. use_gas info (gas + (if f = [] then 0 else price J ''Else''))
                  @ seg @ IfExpr d t' f' # rest)
                (inject_exprs J info [] 0 es)))
      | InLoop d b \<Rightarrow>
          Option.bind (inject_exprs J info [] 0 b) (\<lambda>b'.
            map_option (\<lambda>rest. use_gas info gas @ seg @ LoopExpr d b' # rest)
              (inject_exprs J info [] 0 es)))"
  by pat_completeness auto
termination
  by (relation "measure (\<lambda>(J, info, seg, gas, es). size_list size es)")
     (auto simp: scan_expr_nested)

section \<open>The pass over a module\<close>

text \<open>The parts of \<open>wabt::Module\<close> the pass reads or writes.  \<open>md_funcs\<close> and \<open>md_globals\<close> begin
  with the imported ones, as in wabt; an imported function has no expressions.\<close>

datatype import_kind = FuncImport func_sig | GlobalImport value_type bool | MemoryImport | TableImport

record wasm_import =
  im_module :: string
  im_field :: string
  im_kind :: import_kind

record wasm_func =
  fn_sig :: func_sig
  fn_locals :: "value_type list"
  fn_exprs :: "wasm_expr list"

datatype external_kind = ExternFunc | ExternTable | ExternMemory | ExternGlobal

datatype type_entry = FuncEntry func_sig | OtherEntry

record page_limits =
  pl_initial :: nat
  pl_max :: nat
  pl_has_max :: bool

record wasm_module =
  md_types :: "type_entry list"
  md_imports :: "wasm_import list"
  md_funcs :: "wasm_func list"
  md_num_func_imports :: nat
  md_globals :: "wasm_value list"
  md_num_global_imports :: nat
  md_memories :: "page_limits list"
  md_exports :: "(external_kind \<times> nat) list"
  md_elems :: "(nat \<times> nat list) list"
  md_starts :: "nat list"

definition MODULE_NAME :: string where "MODULE_NAME = ''bcos''"
definition OUT_OF_GAS_NAME :: string where "OUT_OF_GAS_NAME = ''outOfGas''"
definition GLOBAL_GAS_NAME :: string where "GLOBAL_GAS_NAME = ''gas''"
definition WASM_MEMORY_PAGES_INIT :: nat where "WASM_MEMORY_PAGES_INIT = 16"
definition WASM_MEMORY_PAGES_MAX :: nat where "WASM_MEMORY_PAGES_MAX = 1024"

definition is_out_of_gas :: "wasm_import \<Rightarrow> bool" where
  "is_out_of_gas im \<longleftrightarrow> (case im_kind im of FuncImport _ \<Rightarrow> True | _ \<Rightarrow> False)
     \<and> im_module im = MODULE_NAME \<and> im_field im = OUT_OF_GAS_NAME"

text \<open>The loop over the imports keeps the last match.\<close>

definition find_gas_function :: "wasm_import list \<Rightarrow> nat option" where
  "find_gas_function ims =
     fold (\<lambda>(i, im) r. if is_out_of_gas im then Some i else r) (zip [0..<length ims] ims) None"

definition add_out_of_gas_type :: "wasm_module \<Rightarrow> wasm_module" where
  "add_out_of_gas_type M =
     (if FuncEntry ([], []) \<in> set (md_types M) then M
      else M\<lparr>md_types := md_types M @ [FuncEntry ([], [])]\<rparr>)"

definition import_out_of_gas :: "wasm_module \<Rightarrow> wasm_module" where
  "import_out_of_gas M =
     (let M1 = add_out_of_gas_type M; k = length (md_imports M)
      in M1\<lparr>md_funcs := \<lparr>fn_sig = ([], []), fn_locals = [], fn_exprs = []\<rparr> # md_funcs M1,
            md_num_func_imports := md_num_func_imports M1 + 1,
            md_imports := md_imports M1 @
              [\<lparr>im_module = MODULE_NAME, im_field = OUT_OF_GAS_NAME, im_kind = FuncImport ([], [])\<rparr>],
            md_exports := map (\<lambda>(kind, i). (kind, if kind = ExternFunc then i + 1 else i)) (md_exports M1),
            md_elems := map (\<lambda>(off, fs). (off, map (\<lambda>i. if k \<le> i then i + 1 else i) fs)) (md_elems M1)\<rparr>)"

definition import_gas_global :: "wasm_module \<Rightarrow> wasm_module" where
  "import_gas_global M =
     M\<lparr>md_globals := VI64 0 # md_globals M,
       md_num_global_imports := md_num_global_imports M + 1,
       md_imports := md_imports M @
         [\<lparr>im_module = MODULE_NAME, im_field = GLOBAL_GAS_NAME, im_kind = GlobalImport I64 True\<rparr>]\<rparr>"

text \<open>\<open>module.memories[0]\<close> is not guarded: without a memory the behaviour is undefined
  (\<open>None\<close>).\<close>

definition limit_memory :: "wasm_module \<Rightarrow> wasm_module option" where
  "limit_memory M =
     (case md_memories M of [] \<Rightarrow> None
      | p # ps \<Rightarrow> Some (M\<lparr>md_memories :=
          \<lparr>pl_initial = max (pl_initial p) WASM_MEMORY_PAGES_INIT,
           pl_max = WASM_MEMORY_PAGES_MAX, pl_has_max = True\<rparr> # ps\<rparr>))"

definition inject_func :: "gas_injector \<Rightarrow> imports_info \<Rightarrow> wasm_func \<Rightarrow> wasm_func option" where
  "inject_func J info f =
     (if fn_exprs f = [] then Some f
      else let tempVarIndex = length (fst (fn_sig f)) + length (fn_locals f);
               f1 = f\<lparr>fn_locals := fn_locals f @ [I32]\<rparr>
           in map_option (\<lambda>es. f1\<lparr>fn_exprs := es\<rparr>)
                (inject_exprs J (info\<lparr>temp_var_index := tempVarIndex\<rparr>) [] 0 (fn_exprs f)))"

fun inject_funcs :: "gas_injector \<Rightarrow> imports_info \<Rightarrow> wasm_func list \<Rightarrow> wasm_func list option" where
  "inject_funcs J info [] = Some []"
| "inject_funcs J info (f # fs) =
     Option.bind (inject_func J info f) (\<lambda>f'. map_option ((#) f') (inject_funcs J info fs))"

datatype inject_result = Success wasm_module | ForbiddenOpcode

text \<open>\<open>InjectMeter\<close> on a module that the parser accepts (\<open>InvalidFormat\<close> otherwise); the outer
  \<open>None\<close> is the undefined behaviour of a module without memory.\<close>

definition inject_meter :: "gas_injector \<Rightarrow> wasm_module \<Rightarrow> inject_result option" where
  "inject_meter J M =
     (let originImportSize = length (md_imports M);
          found = find_gas_function (md_imports M);
          outOfGasIndex = (case found of Some i \<Rightarrow> i | None \<Rightarrow> originImportSize);
          M1 = (if found = None then import_out_of_gas M else M)
      in map_option (\<lambda>M3.
           (let info = \<lparr>found_gas_function = (found \<noteq> None), gas_func_index = outOfGasIndex,
                        global_gas_index = 0, temp_var_index = 0, origin_size = originImportSize\<rparr>
            in case inject_funcs J info (md_funcs M3) of
                 None \<Rightarrow> ForbiddenOpcode
               | Some fs \<Rightarrow> Success (M3\<lparr>md_funcs := fs\<rparr>)))
           (limit_memory (import_gas_global M1)))"

end
