(* ===== verification/WasmRun.thy ===== *)
theory WasmRun imports GasInjector begin

text \<open>
  The meaning of the parsed modules of \<open>GasInjector\<close>: the standard execution of structured WASM
  code, with a count of the prices of the executed instructions.  It is the reference against
  which the gas pass is verified; it models no file of the repository.

  \<^item> What one numeric, memory or parametric instruction does to the operand stack and to the rest
    of the instance (memory, table sizes) is the parameter \<open>wm_prim\<close>; what an imported function
    does is \<open>wm_host\<close>.  Both may fail.  Control, locals, globals, constants and the two
    instructions of the inserted code are written out.
  \<^item> \<open>run\<close> and \<open>exec\<close> take fuel for the repetitions of loops and for calls of defined functions;
    \<open>None\<close> says that the fuel was not enough.  The last component counts the prices
    \<open>instr_cost\<close>.
\<close>

record 'e wasm_machine =
  wm_prim :: "wasm_expr \<Rightarrow> wasm_value list \<Rightarrow> 'e \<Rightarrow> (wasm_value list \<times> 'e) option"
  wm_host :: "string \<Rightarrow> string \<Rightarrow> wasm_value list \<Rightarrow> 'e \<Rightarrow> string + wasm_value list \<times> 'e"

record 'e wasm_state =
  ws_stack :: "wasm_value list"
  ws_locals :: "wasm_value list"
  ws_globals :: "wasm_value list"
  ws_env :: 'e

datatype signal = Normal | Branch nat | Returned | Aborted string

abbreviation trap :: signal where "trap \<equiv> Aborted ''trap''"

type_synonym 'e result = "signal \<times> 'e wasm_state \<times> nat"

section \<open>The index space of functions\<close>

text \<open>Imported functions come first, in the order of the imports; then the defined ones.\<close>

definition func_imports :: "wasm_module \<Rightarrow> wasm_import list" where
  "func_imports M = filter (\<lambda>im. case im_kind im of FuncImport _ \<Rightarrow> True | _ \<Rightarrow> False) (md_imports M)"

definition defined_funcs :: "wasm_module \<Rightarrow> wasm_func list" where
  "defined_funcs M = drop (md_num_func_imports M) (md_funcs M)"

datatype callee = Host string string func_sig | Defined wasm_func

definition func_at :: "wasm_module \<Rightarrow> nat \<Rightarrow> callee option" where
  "func_at M i =
     (let ims = func_imports M; k = length ims
      in if i < k
         then (case im_kind (ims ! i) of
                 FuncImport sg \<Rightarrow> Some (Host (im_module (ims ! i)) (im_field (ims ! i)) sg)
               | _ \<Rightarrow> None)
         else if i - k < length (defined_funcs M) then Some (Defined (defined_funcs M ! (i - k)))
         else None)"

definition callee_sig :: "callee \<Rightarrow> func_sig" where
  "callee_sig c = (case c of Host _ _ sg \<Rightarrow> sg | Defined f \<Rightarrow> fn_sig f)"

text \<open>The table, as the element segments initialise it; a later segment wins.\<close>

definition table_at :: "wasm_module \<Rightarrow> nat \<Rightarrow> nat option" where
  "table_at M i =
     fold (\<lambda>(off, fs) r. if off \<le> i \<and> i < off + length fs then Some (fs ! (i - off)) else r)
       (md_elems M) None"

section \<open>Instructions without control\<close>

fun zero_of :: "value_type \<Rightarrow> wasm_value" where
  "zero_of I32 = VI32 0" | "zero_of I64 = VI64 0" | "zero_of F32 = VF32 0" | "zero_of F64 = VF64 0"

definition simple :: "'e wasm_machine \<Rightarrow> wasm_expr \<Rightarrow> 'e wasm_state \<Rightarrow> signal \<times> 'e wasm_state" where
  "simple P e s =
     (case e of
        ConstExpr v \<Rightarrow> (Normal, s\<lparr>ws_stack := v # ws_stack s\<rparr>)
      | GlobalGetExpr i \<Rightarrow>
          if i < length (ws_globals s)
          then (Normal, s\<lparr>ws_stack := ws_globals s ! i # ws_stack s\<rparr>) else (trap, s)
      | GlobalSetExpr i \<Rightarrow>
          (case ws_stack s of v # vs \<Rightarrow>
             if i < length (ws_globals s)
             then (Normal, s\<lparr>ws_stack := vs, ws_globals := (ws_globals s)[i := v]\<rparr>) else (trap, s)
           | [] \<Rightarrow> (trap, s))
      | LocalGetExpr i \<Rightarrow>
          if i < length (ws_locals s)
          then (Normal, s\<lparr>ws_stack := ws_locals s ! i # ws_stack s\<rparr>) else (trap, s)
      | LocalSetExpr i \<Rightarrow>
          (case ws_stack s of v # vs \<Rightarrow>
             if i < length (ws_locals s)
             then (Normal, s\<lparr>ws_stack := vs, ws_locals := (ws_locals s)[i := v]\<rparr>) else (trap, s)
           | [] \<Rightarrow> (trap, s))
      | LocalTeeExpr i \<Rightarrow>
          (case ws_stack s of v # vs \<Rightarrow>
             if i < length (ws_locals s)
             then (Normal, s\<lparr>ws_locals := (ws_locals s)[i := v]\<rparr>) else (trap, s)
           | [] \<Rightarrow> (trap, s))
      | NopExpr \<Rightarrow> (Normal, s)
      | UnreachableExpr \<Rightarrow> (trap, s)
      | ReturnExpr \<Rightarrow> (Returned, s)
      | BrExpr k \<Rightarrow> (Branch k, s)
      | BrIfExpr k \<Rightarrow>
          (case ws_stack s of VI32 c # vs \<Rightarrow>
             (if c \<noteq> 0 then Branch k else Normal, s\<lparr>ws_stack := vs\<rparr>)
           | _ \<Rightarrow> (trap, s))
      | BrTableExpr ks d \<Rightarrow>
          (case ws_stack s of VI32 c # vs \<Rightarrow>
             (Branch (if unat c < length ks then ks ! unat c else d), s\<lparr>ws_stack := vs\<rparr>)
           | _ \<Rightarrow> (trap, s))
      | BinaryExpr op \<Rightarrow>
          if op = ''I64Sub'' then
            (case ws_stack s of VI64 b # VI64 a # vs \<Rightarrow> (Normal, s\<lparr>ws_stack := VI64 (a - b) # vs\<rparr>)
             | _ \<Rightarrow> (trap, s))
          else if op = ''I64LeS'' then
            (case ws_stack s of VI64 b # VI64 a # vs \<Rightarrow>
               (Normal, s\<lparr>ws_stack := VI32 (if sint a \<le> sint b then 1 else 0) # vs\<rparr>)
             | _ \<Rightarrow> (trap, s))
          else (case wm_prim P e (ws_stack s) (ws_env s) of
                  Some (vs, env) \<Rightarrow> (Normal, s\<lparr>ws_stack := vs, ws_env := env\<rparr>)
                | None \<Rightarrow> (trap, s))
      | _ \<Rightarrow> (case wm_prim P e (ws_stack s) (ws_env s) of
                  Some (vs, env) \<Rightarrow> (Normal, s\<lparr>ws_stack := vs, ws_env := env\<rparr>)
                | None \<Rightarrow> (trap, s)))"

section \<open>Structured control and calls\<close>

text \<open>Leaving a block: a branch to it keeps the results on top of the stack the block was entered
  with, less its parameters.\<close>

definition leave_block :: "nat \<Rightarrow> nat \<Rightarrow> wasm_value list \<Rightarrow> 'e result \<Rightarrow> 'e result" where
  "leave_block params results entry r =
     (case r of
        (Branch 0, s, c) \<Rightarrow>
          (Normal, s\<lparr>ws_stack := take results (ws_stack s) @ drop params entry\<rparr>, c)
      | (Branch (Suc k), s, c) \<Rightarrow> (Branch k, s, c)
      | _ \<Rightarrow> r)"

definition add_cost :: "nat \<Rightarrow> 'e result \<Rightarrow> 'e result" where
  "add_cost c r = (fst r, fst (snd r), c + snd (snd r))"

text \<open>Calling a defined function: its own locals and stack, then the results on the caller's.\<close>

definition enter_func :: "wasm_func \<Rightarrow> 'e wasm_state \<Rightarrow> 'e wasm_state" where
  "enter_func f s =
     s\<lparr>ws_stack := [],
       ws_locals := rev (take (length (fst (fn_sig f))) (ws_stack s)) @ map zero_of (fn_locals f)\<rparr>"

definition leave_func :: "wasm_func \<Rightarrow> 'e wasm_state \<Rightarrow> 'e result \<Rightarrow> 'e result" where
  "leave_func f s r =
     (case r of (sg, s1, c) \<Rightarrow>
        let s2 = s1\<lparr>ws_stack := take (length (snd (fn_sig f))) (ws_stack s1)
                      @ drop (length (fst (fn_sig f))) (ws_stack s),
                    ws_locals := ws_locals s\<rparr>
        in (case sg of Aborted m \<Rightarrow> (Aborted m, s2, c)
            | Branch (Suc k) \<Rightarrow> (trap, s2, c)
            | _ \<Rightarrow> (Normal, s2, c)))"

definition call_host ::
  "'e wasm_machine \<Rightarrow> string \<Rightarrow> string \<Rightarrow> func_sig \<Rightarrow> 'e wasm_state \<Rightarrow> signal \<times> 'e wasm_state" where
  "call_host P m f sg s =
     (let n = length (fst sg)
      in case wm_host P m f (rev (take n (ws_stack s))) (ws_env s) of
           Inl msg \<Rightarrow> (Aborted msg, s)
         | Inr (vs, env) \<Rightarrow>
             (Normal, s\<lparr>ws_stack := rev vs @ drop n (ws_stack s), ws_env := env\<rparr>))"

text \<open>The price of an instruction: what the pass is meant to charge when it is executed.\<close>

definition instr_cost :: "gas_injector \<Rightarrow> wasm_expr \<Rightarrow> nat" where
  "instr_cost J e =
     (case e of
        BinaryExpr op \<Rightarrow> price J op | CompareExpr op \<Rightarrow> price J op | ConvertExpr op \<Rightarrow> price J op
      | UnaryExpr op \<Rightarrow> price J op | LoadExpr op _ \<Rightarrow> price J op | StoreExpr op _ \<Rightarrow> price J op
      | ConstExpr v \<Rightarrow> (case v of VI32 _ \<Rightarrow> price J ''I32Const'' | VI64 _ \<Rightarrow> price J ''I64Const'' | _ \<Rightarrow> 0)
      | BrExpr _ \<Rightarrow> price J ''Br'' | BrIfExpr _ \<Rightarrow> price J ''BrIf''
      | BrTableExpr _ _ \<Rightarrow> price J ''BrTable'' | CallExpr _ \<Rightarrow> price J ''Call''
      | CallIndirectExpr _ \<Rightarrow> price J ''CallIndirect'' | DropExpr \<Rightarrow> price J ''Drop''
      | GlobalGetExpr _ \<Rightarrow> price J ''GlobalGet'' | GlobalSetExpr _ \<Rightarrow> price J ''GlobalSet''
      | LocalGetExpr _ \<Rightarrow> price J ''LocalGet'' | LocalSetExpr _ \<Rightarrow> price J ''LocalSet''
      | LocalTeeExpr _ \<Rightarrow> price J ''LocalTee'' | MemorySizeExpr \<Rightarrow> price J ''MemorySize''
      | NopExpr \<Rightarrow> price J ''Nop'' | ReturnExpr \<Rightarrow> price J ''Return'' | SelectExpr \<Rightarrow> price J ''Select''
      | UnreachableExpr \<Rightarrow> price J ''Unreachable''
      | IfExpr _ _ f \<Rightarrow> if f = [] then 0 else price J ''Else''
      | _ \<Rightarrow> 0)"

function (sequential)
  run :: "'e wasm_machine \<Rightarrow> gas_injector \<Rightarrow> wasm_module \<Rightarrow> nat \<Rightarrow> wasm_expr list \<Rightarrow> 'e wasm_state
            \<Rightarrow> 'e result option" and
  exec :: "'e wasm_machine \<Rightarrow> gas_injector \<Rightarrow> wasm_module \<Rightarrow> nat \<Rightarrow> wasm_expr \<Rightarrow> 'e wasm_state
            \<Rightarrow> 'e result option" and
  invoke :: "'e wasm_machine \<Rightarrow> gas_injector \<Rightarrow> wasm_module \<Rightarrow> nat \<Rightarrow> nat \<Rightarrow> 'e wasm_state
            \<Rightarrow> 'e result option"
where
  "run P J M n [] s = Some (Normal, s, 0)"
| "run P J M n (e # es) s =
     (case exec P J M n e s of
        None \<Rightarrow> None
      | Some (Normal, s1, c) \<Rightarrow> map_option (add_cost c) (run P J M n es s1)
      | Some r \<Rightarrow> Some r)"
| "exec P J M n (BlockExpr (p, q) b) s =
     map_option (leave_block p q (ws_stack s)) (run P J M n b s)"
| "exec P J M n (LoopExpr (p, q) b) s =
     (case run P J M n b s of
        None \<Rightarrow> None
      | Some (Branch 0, s1, c) \<Rightarrow>
          (case n of 0 \<Rightarrow> None
           | Suc m \<Rightarrow> map_option (add_cost c)
               (exec P J M m (LoopExpr (p, q) b)
                 (s1\<lparr>ws_stack := take p (ws_stack s1) @ drop p (ws_stack s)\<rparr>)))
      | Some r \<Rightarrow> Some (leave_block p q (ws_stack s) r))"
| "exec P J M n (IfExpr (p, q) t f) s =
     (case ws_stack s of
        VI32 x # vs \<Rightarrow>
          map_option (add_cost (instr_cost J (IfExpr (p, q) t f)) \<circ> leave_block p q vs)
            (if x \<noteq> 0 then run P J M n t (s\<lparr>ws_stack := vs\<rparr>)
             else run P J M n f (s\<lparr>ws_stack := vs\<rparr>))
      | _ \<Rightarrow> Some (trap, s, instr_cost J (IfExpr (p, q) t f)))"
| "exec P J M n (CallExpr i) s =
     map_option (add_cost (instr_cost J (CallExpr i))) (invoke P J M n i s)"
| "exec P J M n (CallIndirectExpr sg) s =
     map_option (add_cost (instr_cost J (CallIndirectExpr sg)))
      (case ws_stack s of
         VI32 x # vs \<Rightarrow>
           (case table_at M (unat x) of
              None \<Rightarrow> Some (trap, s, 0)
            | Some i \<Rightarrow>
                (if map_option callee_sig (func_at M i) = Some sg
                 then invoke P J M n i (s\<lparr>ws_stack := vs\<rparr>)
                 else Some (trap, s, 0)))
       | _ \<Rightarrow> Some (trap, s, 0))"
| "exec P J M n e s = (case simple P e s of (sg, s1) \<Rightarrow> Some (sg, s1, instr_cost J e))"
| "invoke P J M n i s =
     (case func_at M i of
        None \<Rightarrow> Some (trap, s, 0)
      | Some (Host m f sg) \<Rightarrow> (case call_host P m f sg s of (o', s1) \<Rightarrow> Some (o', s1, 0))
      | Some (Defined f) \<Rightarrow>
          (case n of 0 \<Rightarrow> None
           | Suc k \<Rightarrow> map_option (leave_func f s) (run P J M k (fn_exprs f) (enter_func f s))))"
  by pat_completeness auto
termination
  by (relation "inv_image (less_than <*lex*> less_than <*lex*> less_than)
       (\<lambda>x. case x of Inl (P, J, M, n, es, s) \<Rightarrow> (n, size_list size es, 0)
                     | Inr (Inl (P, J, M, n, e, s)) \<Rightarrow> (n, size e, 2)
                     | Inr (Inr (P, J, M, n, i, s)) \<Rightarrow> (n, 0, 1::nat))") auto

end
