(* ===== verification/GasMetering.thy ===== *)
theory GasMetering imports WasmRun begin

text \<open>
  What the gas pass produces, as a structural rewriting (\<open>rewrite_list\<close>, \<open>metered\<close>), and the
  simulation between a module and its metered form.
\<close>

section \<open>The rewriting the pass computes\<close>

text \<open>The expressions that end a segment.\<close>

definition closes :: "wasm_expr \<Rightarrow> bool" where
  "closes e = (case e of BlockExpr _ _ \<Rightarrow> True | LoopExpr _ _ \<Rightarrow> True | IfExpr _ _ _ \<Rightarrow> True
     | BrExpr _ \<Rightarrow> True | BrIfExpr _ \<Rightarrow> True | BrTableExpr _ _ \<Rightarrow> True | CallExpr _ \<Rightarrow> True
     | CallIndirectExpr _ \<Rightarrow> True | ReturnExpr \<Rightarrow> True | _ \<Rightarrow> False)"

text \<open>The price of the first segment of a list, with the expression that ends it.\<close>

fun seg_cost :: "gas_injector \<Rightarrow> wasm_expr list \<Rightarrow> nat" where
  "seg_cost J [] = 0"
| "seg_cost J (e # es) = instr_cost J e + (if closes e then 0 else seg_cost J es)"

fun rewrite_expr :: "gas_injector \<Rightarrow> imports_info \<Rightarrow> wasm_expr \<Rightarrow> wasm_expr"
and rewrite_list :: "gas_injector \<Rightarrow> imports_info \<Rightarrow> wasm_expr list \<Rightarrow> wasm_expr list" where
  "rewrite_expr J info (BlockExpr d b) =
     BlockExpr d (use_gas info (seg_cost J b) @ rewrite_list J info b)"
| "rewrite_expr J info (LoopExpr d b) =
     LoopExpr d (use_gas info (seg_cost J b) @ rewrite_list J info b)"
| "rewrite_expr J info (IfExpr d t f) =
     IfExpr d (use_gas info (seg_cost J t) @ rewrite_list J info t)
       (use_gas info (seg_cost J f) @ rewrite_list J info f)"
| "rewrite_expr J info (CallExpr i) = CallExpr (shift_call info i)"
| "rewrite_expr J info (GlobalGetExpr i) = GlobalGetExpr (i + 1)"
| "rewrite_expr J info (GlobalSetExpr i) = GlobalSetExpr (i + 1)"
| "rewrite_expr J info e = e"
| "rewrite_list J info [] = []"
| "rewrite_list J info (e # es) =
     rewrite_expr J info e #
       (if closes e then use_gas info (seg_cost J es) @ rewrite_list J info es
        else rewrite_list J info es)"

definition metered :: "gas_injector \<Rightarrow> imports_info \<Rightarrow> wasm_expr list \<Rightarrow> wasm_expr list" where
  "metered J info es = use_gas info (seg_cost J es) @ rewrite_list J info es"

lemma use_gas_0 [simp]: "use_gas info 0 = []"
  by (simp add: use_gas_def)

lemma metered_Nil [simp]: "metered J info [] = []"
  by (simp add: metered_def)

lemma rewrite_metered [simp]:
  "rewrite_expr J info (BlockExpr d b) = BlockExpr d (metered J info b)"
  "rewrite_expr J info (LoopExpr d b) = LoopExpr d (metered J info b)"
  "rewrite_expr J info (IfExpr d t f) = IfExpr d (metered J info t) (metered J info f)"
  "rewrite_list J info (e # es) =
     rewrite_expr J info e # (if closes e then metered J info es else rewrite_list J info es)"
  by (simp_all add: metered_def)

declare rewrite_expr.simps(1-3) [simp del] rewrite_list.simps(2) [simp del]

text \<open>Every expression the pass accepts, with what is nested in it.\<close>

fun accepted :: "gas_injector \<Rightarrow> wasm_expr \<Rightarrow> bool" where
  "accepted J (BlockExpr d b) \<longleftrightarrow> list_all (accepted J) b"
| "accepted J (LoopExpr d b) \<longleftrightarrow> list_all (accepted J) b"
| "accepted J (IfExpr d t f) \<longleftrightarrow> list_all (accepted J) t \<and> list_all (accepted J) f"
| "accepted J (BinaryExpr op) \<longleftrightarrow> \<not> is_float_opcode (gi_code J op)"
| "accepted J (CompareExpr op) \<longleftrightarrow> \<not> is_float_opcode (gi_code J op)"
| "accepted J (ConvertExpr op) \<longleftrightarrow> \<not> is_float_opcode (gi_code J op)"
| "accepted J (UnaryExpr op) \<longleftrightarrow> \<not> is_float_opcode (gi_code J op)"
| "accepted J (ConstExpr v) \<longleftrightarrow> (case v of VI32 _ \<Rightarrow> True | VI64 _ \<Rightarrow> True | _ \<Rightarrow> False)"
| "accepted J (OtherExpr _) \<longleftrightarrow> False"
| "accepted J _ \<longleftrightarrow> True"

lemma scan_expr_cases:
  "scan_expr J info e =
     (case e of
        BlockExpr d b \<Rightarrow> InBlock d b | LoopExpr d b \<Rightarrow> InLoop d b | IfExpr d t f \<Rightarrow> InIf d t f
      | _ \<Rightarrow> if \<not> accepted J e then Forbidden
             else if closes e then Close (rewrite_expr J info e) (instr_cost J e)
             else Add (rewrite_expr J info e) (instr_cost J e))"
  by (cases e) (simp_all add: scan_expr_def scan_rest_def scan_op_def scan_const_def closes_def
      instr_cost_def split: wasm_value.split)

lemma scan_elim:
  "scan_expr J info e = Forbidden \<Longrightarrow> \<not> accepted J e"
  "scan_expr J info e = Add e' c \<Longrightarrow>
     accepted J e \<and> \<not> closes e \<and> e' = rewrite_expr J info e \<and> c = instr_cost J e"
  "scan_expr J info e = Close e' c \<Longrightarrow>
     accepted J e \<and> closes e \<and> e' = rewrite_expr J info e \<and> c = instr_cost J e"
  by (cases e; auto simp: scan_expr_cases split: if_splits)+

text \<open>The loop with its insertion point computes the rewriting.\<close>

lemma inject_exprs_rewrite:
  "inject_exprs J info seg gas es =
     (if list_all (accepted J) es
      then Some (use_gas info (gas + seg_cost J es) @ seg @ rewrite_list J info es) else None)"
proof (induction J info seg gas es rule: inject_exprs.induct)
  case (1 J info seg gas)
  then show ?case by simp
next
  case (2 J info seg gas e es)
  show ?case
  proof (cases "scan_expr J info e")
    case Forbidden
    then show ?thesis using scan_elim(1) [OF Forbidden] by simp
  next
    case (Add e' c)
    then show ?thesis using scan_elim(2) [OF Add] 2(1) [OF Add] by (simp add: add.assoc)
  next
    case (Close e' c)
    then show ?thesis
      using scan_elim(3) [OF Close] 2(2) [OF Close] by (simp add: metered_def)
  next
    case (InBlock d b)
    then have e: "e = BlockExpr d b" by (simp add: scan_expr_nested)
    from 2(3) [OF InBlock] 2(4) [OF InBlock]
    show ?thesis by (auto simp: e scan_expr_cases closes_def instr_cost_def metered_def)
  next
    case (InIf d t f)
    then have e: "e = IfExpr d t f" by (simp add: scan_expr_nested)
    from 2(5) [OF InIf] 2(6) [OF InIf] 2(7) [OF InIf]
    show ?thesis
      by (cases "f = []") (auto simp: e scan_expr_cases closes_def instr_cost_def metered_def)
  next
    case (InLoop d b)
    then have e: "e = LoopExpr d b" by (simp add: scan_expr_nested)
    from 2(8) [OF InLoop] 2(9) [OF InLoop]
    show ?thesis by (auto simp: e scan_expr_cases closes_def instr_cost_def metered_def)
  qed
qed


section \<open>Gas words\<close>

text \<open>The gas counter is a signed 64-bit global.\<close>

definition gas_minus :: "u64 \<Rightarrow> nat \<Rightarrow> u64" where
  "gas_minus g k = g - of_nat k"

lemma sint_gas_minus:
  assumes "0 < sint g" and "k < 2 ^ 63"
  shows "sint (gas_minus g k) = sint g - int k"
proof -
  have b: "sint g < 2 ^ 63" using sint_lt [of g] by simp
  have k: "sint (of_nat k :: u64) = int k"
    using assms(2) by (simp add: signed_of_nat signed_take_bit_int_eq_self)
  show ?thesis
    unfolding gas_minus_def
    using assms b k by (simp add: sint_word_ariths signed_take_bit_int_eq_self)
qed

lemma gas_minus_0 [simp]: "gas_minus g 0 = g"
  by (simp add: gas_minus_def)

lemma gas_minus_add: "gas_minus (gas_minus g a) b = gas_minus g (a + b)"
  by (simp add: gas_minus_def)


section \<open>Corresponding states and modules\<close>

definition metered_state :: "u64 \<Rightarrow> 'e wasm_state \<Rightarrow> 'e wasm_state \<Rightarrow> bool" where
  "metered_state g s s' \<longleftrightarrow>
     ws_stack s' = ws_stack s \<and> ws_env s' = ws_env s \<and> ws_globals s' = VI64 g # ws_globals s
     \<and> (\<exists>ext. ws_locals s' = ws_locals s @ ext)"

text \<open>The price of a whole list, with everything nested in it.\<close>

fun total_cost :: "gas_injector \<Rightarrow> wasm_expr \<Rightarrow> nat"
and total_costs :: "gas_injector \<Rightarrow> wasm_expr list \<Rightarrow> nat" where
  "total_cost J (BlockExpr d b) = total_costs J b"
| "total_cost J (LoopExpr d b) = total_costs J b"
| "total_cost J (IfExpr d t f) = instr_cost J (IfExpr d t f) + total_costs J t + total_costs J f"
| "total_cost J e = instr_cost J e"
| "total_costs J [] = 0"
| "total_costs J (e # es) = total_cost J e + total_costs J es"

lemma instr_le_total: "instr_cost J e \<le> total_cost J e"
  by (cases e) (simp_all add: instr_cost_def)

lemma seg_le_total: "seg_cost J es \<le> total_costs J es"
proof (induction es)
  case Nil
  then show ?case by simp
next
  case (Cons e es)
  then show ?case using instr_le_total [of J e] by auto
qed

text \<open>The metered module \<open>M'\<close> of \<open>M\<close>: functions and table entries are found at their shifted
  index with metered bodies, and the function for the end of the gas is in place.\<close>

definition out_of_gas_aborts :: "'e wasm_machine \<Rightarrow> bool" where
  "out_of_gas_aborts P \<longleftrightarrow>
     (\<forall>args env. wm_host P MODULE_NAME OUT_OF_GAS_NAME args env = Inl OUT_OF_GAS_NAME)"

definition gas_linked :: "imports_info \<Rightarrow> wasm_module \<Rightarrow> bool" where
  "gas_linked info M' \<longleftrightarrow> global_gas_index info = 0
     \<and> func_at M' (gas_func_index info) = Some (Host MODULE_NAME OUT_OF_GAS_NAME ([], []))"

definition metered_module ::
  "gas_injector \<Rightarrow> imports_info \<Rightarrow> wasm_module \<Rightarrow> wasm_module \<Rightarrow> bool" where
  "metered_module J info M M' \<longleftrightarrow>
     gas_linked info M'
     \<and> (\<forall>i m f sg. func_at M i = Some (Host m f sg) \<longrightarrow>
          func_at M' (shift_call info i) = Some (Host m f sg))
     \<and> (\<forall>i f. func_at M i = Some (Defined f) \<longrightarrow>
          total_costs J (fn_exprs f) < 2 ^ 63
          \<and> (\<exists>f'. func_at M' (shift_call info i) = Some (Defined f')
              \<and> fn_sig f' = fn_sig f \<and> fn_exprs f' = metered J info (fn_exprs f)
              \<and> (\<exists>ext. fn_locals f' = fn_locals f @ ext)))
     \<and> (\<forall>x i. table_at M x = Some i \<longrightarrow> table_at M' x = Some (shift_call info i))"

text \<open>An execution that needs gas \<open>d\<close> and ends as \<open>(sg, s1)\<close>, against its metered form started
  with gas \<open>g\<close>.\<close>

definition matches ::
  "u64 \<Rightarrow> nat \<Rightarrow> signal \<Rightarrow> 'e wasm_state \<Rightarrow> 'e result option \<Rightarrow> bool" where
  "matches g d sg s1 r \<longleftrightarrow>
     (if int d < sint g
      then \<exists>s1' c. r = Some (sg, s1', c) \<and> metered_state (gas_minus g d) s1 s1'
      else \<exists>s1' c. r = Some (Aborted OUT_OF_GAS_NAME, s1', c))"

definition aborted :: "signal \<Rightarrow> bool" where
  "aborted sg \<longleftrightarrow> (case sg of Aborted _ \<Rightarrow> True | _ \<Rightarrow> False)"

lemma aborted_simps [simp]:
  "\<not> aborted Normal" "\<not> aborted (Branch k)" "\<not> aborted Returned" "aborted (Aborted m)"
  by (simp_all add: aborted_def)

lemma add_cost_simps [simp]:
  "add_cost c (sg, s, d) = (sg, s, c + d)"
  "map_option (add_cost a) (map_option (add_cost b) r) = map_option (add_cost (a + b)) r"
  by (simp add: add_cost_def) (cases r; simp add: add_cost_def)

lemma matches_add_cost [simp]: "matches g d sg s1 (map_option (add_cost c) r) = matches g d sg s1 r"
  by (cases r) (auto simp: matches_def add_cost_def)

lemma matches_Some:
  "metered_state g s1 s1' \<Longrightarrow> 0 < sint g \<Longrightarrow> matches g 0 sg s1 (Some (sg, s1', c))"
  by (simp add: matches_def)

lemma metered_state_stack:
  "metered_state g s s' \<Longrightarrow> metered_state g (s\<lparr>ws_stack := vs\<rparr>) (s'\<lparr>ws_stack := vs\<rparr>)"
  by (simp add: metered_state_def)

lemma metered_state_same: "metered_state g s s' \<Longrightarrow> ws_stack s' = ws_stack s"
  by (simp add: metered_state_def)

lemma sint_positive_small: "0 < sint (g::u64) \<Longrightarrow> int d < sint g \<Longrightarrow> d < 2 ^ 63"
  using sint_lt [of g] by simp

lemma matches_seq:
  assumes "matches g a Normal s1 r" and "0 < sint g"
    and "\<And>g1 s1' c. metered_state g1 s1 s1' \<Longrightarrow> 0 < sint g1 \<Longrightarrow> matches g1 b sg s2 (k s1')"
  shows "matches g (a + b) sg s2
    (case r of None \<Rightarrow> None
     | Some (Normal, s1', c) \<Rightarrow> map_option (add_cost c) (k s1')
     | Some r1 \<Rightarrow> Some r1)"
proof (cases "int a < sint g")
  case True
  then obtain s1' c where r: "r = Some (Normal, s1', c)"
      and st: "metered_state (gas_minus g a) s1 s1'"
    using assms(1) by (auto simp: matches_def)
  have g1: "sint (gas_minus g a) = sint g - int a"
    using sint_gas_minus assms(2) sint_positive_small [OF assms(2) True] by blast
  then have "matches (gas_minus g a) b sg s2 (k s1')" using assms(3) st True by simp
  then show ?thesis using g1 by (simp add: r matches_def gas_minus_add add_cost_def split: if_splits)
next
  case False
  with assms(1) show ?thesis by (auto simp: matches_def)
qed


section \<open>The inserted code\<close>

lemma run_use_gas:
  assumes st: "metered_state g s s'" and g: "0 < sint g" and k: "0 < k" "k < 2 ^ 63"
    and M': "gas_linked info M'" and P: "out_of_gas_aborts P"
  shows "if int k < sint g
         then \<exists>s'' c. metered_state (gas_minus g k) s s'' \<and>
                run P J M' n (use_gas info k @ es) s' = map_option (add_cost c) (run P J M' n es s'')
         else \<exists>s'' c. run P J M' n (use_gas info k @ es) s' = Some (Aborted OUT_OF_GAS_NAME, s'', c)"
proof -
  have gl: "ws_globals s' = VI64 g # ws_globals s" and gi: "global_gas_index info = 0"
    and fa: "func_at M' (gas_func_index info) = Some (Host MODULE_NAME OUT_OF_GAS_NAME ([], []))"
    using st M' by (simp_all add: metered_state_def gas_linked_def)
  have le: "sint (gas_minus g k) \<le> 0 \<longleftrightarrow> \<not> int k < sint g"
    using sint_gas_minus [OF g k(2)] by auto
  have host: "wm_host P MODULE_NAME OUT_OF_GAS_NAME args env = Inl OUT_OF_GAS_NAME" for args env
    using P by (simp add: out_of_gas_aborts_def)
  let ?s1 = "s'\<lparr>ws_globals := VI64 (gas_minus g k) # ws_globals s\<rparr>"
  show ?thesis
  proof (cases "int k < sint g")
    case True
    have "metered_state (gas_minus g k) s ?s1"
      using st by (simp add: metered_state_def)
    moreover have "\<exists>c. run P J M' n (use_gas info k @ es) s' = map_option (add_cost c) (run P J M' n es ?s1)"
      using True le k(1)
      by (auto simp: use_gas_def sub_and_check_def simple_def gl gi gas_minus_def [symmetric]
          leave_block_def)
    ultimately show ?thesis using True by auto
  next
    case False
    with le k(1) show ?thesis
      by (auto simp: use_gas_def sub_and_check_def simple_def gl gi gas_minus_def [symmetric]
          fa call_host_def host leave_block_def)
  qed
qed

lemma matches_metered:
  assumes body: "\<And>g s'. metered_state g s s' \<Longrightarrow> 0 < sint g \<Longrightarrow>
        matches g d sg s1 (run P J M' n (rewrite_list J info es) s')"
    and st: "metered_state g s s'" and g: "0 < sint g" and k: "seg_cost J es < 2 ^ 63"
    and M': "metered_module J info M M'" and P: "out_of_gas_aborts P"
  shows "matches g (seg_cost J es + d) sg s1 (run P J M' n (metered J info es) s')"
proof (cases "seg_cost J es = 0")
  case True
  then show ?thesis using body [OF st g] by (simp add: metered_def)
next
  case False
  let ?k = "seg_cost J es"
  have "gas_linked info M'" using M' by (simp add: metered_module_def)
  note r = run_use_gas [OF st g _ k this P, where n = n and J = J and es = "rewrite_list J info es"]
  show ?thesis
  proof (cases "int ?k < sint g")
    case True
    with False r obtain s'' c where st2: "metered_state (gas_minus g ?k) s s''"
      and run: "run P J M' n (metered J info es) s'
                  = map_option (add_cost c) (run P J M' n (rewrite_list J info es) s'')"
      by (auto simp: metered_def)
    have g2: "sint (gas_minus g ?k) = sint g - int ?k" using sint_gas_minus [OF g k] .
    then have "matches (gas_minus g ?k) d sg s1 (run P J M' n (rewrite_list J info es) s'')"
      using body [OF st2] True by simp
    then show ?thesis unfolding run using g2
      by (auto simp: matches_def gas_minus_add split: if_splits)
  next
    case False
    with r \<open>?k \<noteq> 0\<close> show ?thesis by (auto simp: metered_def matches_def)
  qed
qed

definition structured :: "wasm_expr \<Rightarrow> bool" where
  "structured e = (case e of BlockExpr _ _ \<Rightarrow> True | LoopExpr _ _ \<Rightarrow> True | IfExpr _ _ _ \<Rightarrow> True
     | CallExpr _ \<Rightarrow> True | CallIndirectExpr _ \<Rightarrow> True | _ \<Rightarrow> False)"

lemma exec_simple:
  "\<not> structured e \<Longrightarrow>
     exec P J M n e s = (case simple P e s of (sg, s1) \<Rightarrow> Some (sg, s1, instr_cost J e))"
  by (cases e) (simp_all add: structured_def)

lemma simple_sim:
  assumes "simple P e s = (sg, s1)" and "\<not> aborted sg" and "\<not> structured e" and "metered_state g s s'"
  shows "\<exists>s1'. simple P (rewrite_expr J info e) s' = (sg, s1') \<and> metered_state g s1 s1'"
proof -
  from assms(4) obtain ext where st: "ws_stack s' = ws_stack s" "ws_env s' = ws_env s"
    "ws_globals s' = VI64 g # ws_globals s" "ws_locals s' = ws_locals s @ ext"
    by (auto simp: metered_state_def)
  show ?thesis
    using assms(1-3) st
    by (cases e) (auto simp: simple_def structured_def metered_state_def nth_append list_update_append1
        split: if_splits list.splits wasm_value.splits option.splits)
qed


lemma leave_block_elim:
  assumes "leave_block p q entry r = (sg, s1, c)"
  obtains sg0 s0 where "r = (sg0, s0, c)"
proof -
  obtain sg0 s0 c0 where r: "r = (sg0, s0, c0)" by (cases r)
  with assms have "c0 = c"
    by (cases sg0) (auto simp: leave_block_def split: nat.splits)
  with r that show thesis by simp
qed

lemma matches_leave_block:
  assumes "matches g d sg s1 r" and "leave_block p q entry (sg, s1, c) = (sg2, s2, c2)"
    and "\<not> aborted sg"
  shows "matches g d sg2 s2 (map_option (leave_block p q entry) r)"
proof (cases "int d < sint g")
  case True
  then obtain s1' c' where r: "r = Some (sg, s1', c')" and st: "metered_state (gas_minus g d) s1 s1'"
    using assms(1) by (auto simp: matches_def)
  show ?thesis
  proof (cases sg)
    case (Branch k)
    then show ?thesis using True r assms(2) metered_state_stack [OF st] metered_state_same [OF st] st
      by (cases k) (auto simp: matches_def leave_block_def)
  qed (use True r assms(2,3) st in \<open>auto simp: matches_def leave_block_def\<close>)
next
  case False
  with assms(1) show ?thesis by (auto simp: matches_def leave_block_def)
qed

lemma matches_leave_func:
  assumes "matches g d sg s1 r" and "leave_func f s (sg, s1, c) = (sg2, s2, c2)"
    and "\<not> aborted sg2" and "fn_sig f' = fn_sig f" and "metered_state g s s'"
  shows "matches g d sg2 s2 (map_option (leave_func f' s') r)"
proof (cases "int d < sint g")
  case True
  then obtain s1' c' where r: "r = Some (sg, s1', c')" and st: "metered_state (gas_minus g d) s1 s1'"
    using assms(1) by (auto simp: matches_def)
  from assms(5) obtain ext where s': "ws_stack s' = ws_stack s" "ws_locals s' = ws_locals s @ ext"
    by (auto simp: metered_state_def)
  show ?thesis
    using True r st assms(2-4) s'
    by (auto simp: matches_def leave_func_def Let_def metered_state_def split: signal.splits nat.splits)
next
  case False
  with assms(1) show ?thesis by (auto simp: matches_def leave_func_def Let_def)
qed

lemma enter_func_metered:
  assumes "metered_state g s s'" and "fn_sig f' = fn_sig f" and "fn_locals f' = fn_locals f @ ext"
  shows "metered_state g (enter_func f s) (enter_func f' s')"
  using assms by (auto simp: metered_state_def enter_func_def)

lemma call_host_metered:
  assumes "call_host P m f sg s = (o', s1)" and "\<not> aborted o'" and "metered_state g s s'"
  shows "\<exists>s1'. call_host P m f sg s' = (o', s1') \<and> metered_state g s1 s1'"
  using assms by (auto simp: call_host_def Let_def metered_state_def split: sum.splits)

section \<open>The simulation\<close>

definition sim_list where
  "sim_list P J info M M' n es s \<longleftrightarrow>
     (\<forall>sg s1 c. run P J M n es s = Some (sg, s1, c) \<longrightarrow> \<not> aborted sg \<longrightarrow> total_costs J es < 2 ^ 63 \<longrightarrow>
        seg_cost J es \<le> c \<and> (\<forall>g s'. metered_state g s s' \<longrightarrow> 0 < sint g \<longrightarrow>
           matches g (c - seg_cost J es) sg s1 (run P J M' n (rewrite_list J info es) s')))"

definition sim_expr where
  "sim_expr P J info M M' n e s \<longleftrightarrow>
     (\<forall>sg s1 c. exec P J M n e s = Some (sg, s1, c) \<longrightarrow> \<not> aborted sg \<longrightarrow> total_cost J e < 2 ^ 63 \<longrightarrow>
        instr_cost J e \<le> c \<and> (\<forall>g s'. metered_state g s s' \<longrightarrow> 0 < sint g \<longrightarrow>
           matches g (c - instr_cost J e) sg s1 (exec P J M' n (rewrite_expr J info e) s')))"

definition sim_call where
  "sim_call P J info M M' n i s \<longleftrightarrow>
     (\<forall>sg s1 c. invoke P J M n i s = Some (sg, s1, c) \<longrightarrow> \<not> aborted sg \<longrightarrow>
        (\<forall>g s'. metered_state g s s' \<longrightarrow> 0 < sint g \<longrightarrow>
           matches g c sg s1 (invoke P J M' n (shift_call info i) s')))"

lemma sim_list_metered:
  assumes "sim_list P J info M M' n es s" and "metered_module J info M M'" and "out_of_gas_aborts P"
    and "run P J M n es s = Some (sg, s1, c)" and "\<not> aborted sg" and "total_costs J es < 2 ^ 63"
    and "metered_state g s s'" and "0 < sint g"
  shows "matches g c sg s1 (run P J M' n (metered J info es) s')"
proof -
  from assms have le: "seg_cost J es \<le> c"
    and m: "\<And>g s'. metered_state g s s' \<Longrightarrow> 0 < sint g \<Longrightarrow>
        matches g (c - seg_cost J es) sg s1 (run P J M' n (rewrite_list J info es) s')"
    unfolding sim_list_def by blast+
  have "seg_cost J es < 2 ^ 63" using seg_le_total [of J es] assms(6) by linarith
  from matches_metered [OF m assms(7,8) this assms(2,3)] le show ?thesis by simp
qed

lemma sim_simple:
  assumes "\<not> structured e"
  shows "sim_expr P J info M M' n e s"
  unfolding sim_expr_def
proof (intro allI impI)
  fix sg s1 c
  assume r: "exec P J M n e s = Some (sg, s1, c)" and sg: "\<not> aborted sg"
  then have e: "simple P e s = (sg, s1)" and c: "c = instr_cost J e"
    by (auto simp: exec_simple [OF assms] split: prod.splits)
  have ns: "\<not> structured (rewrite_expr J info e)"
    using assms by (cases e) (simp_all add: structured_def)
  show "instr_cost J e \<le> c \<and> (\<forall>g s'. metered_state g s s' \<longrightarrow> 0 < sint g \<longrightarrow>
      matches g (c - instr_cost J e) sg s1 (exec P J M' n (rewrite_expr J info e) s'))"
    using simple_sim [OF e sg assms, where info = info and J = J]
    by (fastforce simp: c exec_simple [OF ns] intro: matches_Some)
qed

lemma sim_list_Nil: "sim_list P J info M M' n [] s"
  by (auto simp: sim_list_def intro: matches_Some)

lemma sim_list_Cons:
  assumes e: "sim_expr P J info M M' n e s"
    and es: "\<And>s1 c. exec P J M n e s = Some (Normal, s1, c) \<Longrightarrow> sim_list P J info M M' n es s1"
    and M': "metered_module J info M M'" and P: "out_of_gas_aborts P"
  shows "sim_list P J info M M' n (e # es) s"
  unfolding sim_list_def
proof (intro allI impI)
  fix sg s1 c
  assume r: "run P J M n (e # es) s = Some (sg, s1, c)" and sg: "\<not> aborted sg"
    and small: "total_costs J (e # es) < 2 ^ 63"
  have sme: "total_cost J e < 2 ^ 63" and smes: "total_costs J es < 2 ^ 63" using small by auto
  from r obtain sg0 s0 c0 where r0: "exec P J M n e s = Some (sg0, s0, c0)"
    by (cases "exec P J M n e s") auto
  show "seg_cost J (e # es) \<le> c \<and> (\<forall>g s'. metered_state g s s' \<longrightarrow> 0 < sint g \<longrightarrow>
      matches g (c - seg_cost J (e # es)) sg s1 (run P J M' n (rewrite_list J info (e # es)) s'))"
  proof (cases "sg0 = Normal")
    case False
    then have eq: "sg0 = sg" "s0 = s1" "c0 = c" using r r0 by (auto split: signal.splits)
    have cl: "closes e"
    proof (rule ccontr)
      assume n: "\<not> closes e"
      then have ns: "\<not> structured e" by (cases e) (simp_all add: closes_def structured_def)
      then have "simple P e s = (sg, s1)" using r0 eq by (auto simp: exec_simple split: prod.splits)
      then have "sg = Normal \<or> aborted sg" using n
        by (cases e) (auto simp: simple_def closes_def split: if_splits list.splits wasm_value.splits option.splits)
      with False eq sg show False by simp
    qed
    have ie: "instr_cost J e \<le> c"
      and m: "metered_state g s s' \<Longrightarrow> 0 < sint g \<Longrightarrow>
        matches g (c - instr_cost J e) sg s1 (exec P J M' n (rewrite_expr J info e) s')" for g s'
      using e r0 sg sme unfolding sim_expr_def eq by blast+
    have "matches g (c - instr_cost J e) sg s1 (run P J M' n (rewrite_list J info (e # es)) s')"
      if "metered_state g s s'" "0 < sint g" for g s'
      using m [OF that] False eq sg by (auto simp: matches_def split: if_splits signal.splits)
    then show ?thesis using cl ie by simp
  next
    case True
    with r r0 obtain c1 where r1: "run P J M n es s0 = Some (sg, s1, c1)" and c: "c = c0 + c1"
      by auto
    have ie: "instr_cost J e \<le> c0"
      and m: "metered_state g s s' \<Longrightarrow> 0 < sint g \<Longrightarrow>
        matches g (c0 - instr_cost J e) Normal s0 (exec P J M' n (rewrite_expr J info e) s')" for g s'
      using e r0 True sme unfolding sim_expr_def by auto
    have ses: "sim_list P J info M M' n es s0" using es r0 True by simp
    have seg: "seg_cost J es \<le> c1"
      and m1: "metered_state g s0 s' \<Longrightarrow> 0 < sint g \<Longrightarrow>
        matches g (c1 - seg_cost J es) sg s1 (run P J M' n (rewrite_list J info es) s')" for g s'
      using ses r1 sg smes unfolding sim_list_def by blast+
    have m2: "metered_state g s0 s' \<Longrightarrow> 0 < sint g \<Longrightarrow>
        matches g c1 sg s1 (run P J M' n (metered J info es) s')" for g s'
      using sim_list_metered [OF ses M' P r1 sg smes] .
    show ?thesis
    proof (cases "closes e")
      case True
      have "matches g (c0 - instr_cost J e + c1) sg s1 (run P J M' n (rewrite_list J info (e # es)) s')"
        if "metered_state g s s'" "0 < sint g" for g s'
        using matches_seq [OF m [OF that] that(2) m2] True by simp
      moreover have "c0 - instr_cost J e + c1 = c - seg_cost J (e # es)" using True ie c by simp
      ultimately show ?thesis using True ie c by simp
    next
      case False
      have "matches g (c0 - instr_cost J e + (c1 - seg_cost J es)) sg s1
          (run P J M' n (rewrite_list J info (e # es)) s')"
        if "metered_state g s s'" "0 < sint g" for g s'
        using matches_seq [OF m [OF that] that(2) m1] False by simp
      moreover have "c0 - instr_cost J e + (c1 - seg_cost J es) = c - seg_cost J (e # es)"
        using False ie seg c by simp
      ultimately show ?thesis using False ie seg c by simp
    qed
  qed
qed


lemma sim_Block:
  assumes b: "sim_list P J info M M' n b s"
    and M': "metered_module J info M M'" and P: "out_of_gas_aborts P"
  shows "sim_expr P J info M M' n (BlockExpr (p, q) b) s"
  unfolding sim_expr_def
proof (intro allI impI)
  fix sg s1 c
  assume r: "exec P J M n (BlockExpr (p, q) b) s = Some (sg, s1, c)" and sg: "\<not> aborted sg"
    and small: "total_cost J (BlockExpr (p, q) b) < 2 ^ 63"
  from r obtain r' where r': "run P J M n b s = Some r'"
    and lv': "leave_block p q (ws_stack s) r' = (sg, s1, c)" by auto
  from leave_block_elim [OF lv'] obtain sg0 s0 where "r' = (sg0, s0, c)" .
  with r' lv' have r0: "run P J M n b s = Some (sg0, s0, c)"
    and lv: "leave_block p q (ws_stack s) (sg0, s0, c) = (sg, s1, c)" by auto
  have na: "\<not> aborted sg0" using lv sg by (cases sg0) (auto simp: leave_block_def)
  have "matches g c sg s1 (exec P J M' n (rewrite_expr J info (BlockExpr (p, q) b)) s')"
    if "metered_state g s s'" "0 < sint g" for g s'
    using matches_leave_block [OF sim_list_metered [OF b M' P r0 na _ that] lv na] small
      metered_state_same [OF that(1)] by simp
  then show "instr_cost J (BlockExpr (p, q) b) \<le> c \<and> (\<forall>g s'. metered_state g s s' \<longrightarrow> 0 < sint g \<longrightarrow>
      matches g (c - instr_cost J (BlockExpr (p, q) b)) sg s1
        (exec P J M' n (rewrite_expr J info (BlockExpr (p, q) b)) s'))"
    by (simp add: instr_cost_def)
qed

lemma sim_If:
  assumes t: "\<And>x vs. ws_stack s = VI32 x # vs \<Longrightarrow> x \<noteq> 0 \<Longrightarrow>
      sim_list P J info M M' n t (s\<lparr>ws_stack := vs\<rparr>)"
    and f: "\<And>x vs. ws_stack s = VI32 x # vs \<Longrightarrow> x = 0 \<Longrightarrow>
      sim_list P J info M M' n f (s\<lparr>ws_stack := vs\<rparr>)"
    and M': "metered_module J info M M'" and P: "out_of_gas_aborts P"
  shows "sim_expr P J info M M' n (IfExpr (p, q) t f) s"
  unfolding sim_expr_def
proof (intro allI impI)
  fix sg s1 c
  let ?e = "IfExpr (p, q) t f"
  assume r: "exec P J M n ?e s = Some (sg, s1, c)" and sg: "\<not> aborted sg"
    and small: "total_cost J ?e < 2 ^ 63"
  from r sg obtain x vs where stk: "ws_stack s = VI32 x # vs"
    by (auto split: list.splits wasm_value.splits)
  define b where "b = (if x \<noteq> 0 then t else f)"
  from r stk have "map_option (add_cost (instr_cost J ?e) \<circ> leave_block p q vs)
      (run P J M n b (s\<lparr>ws_stack := vs\<rparr>)) = Some (sg, s1, c)"
    by (simp add: b_def split: if_splits)
  then obtain r' where r': "run P J M n b (s\<lparr>ws_stack := vs\<rparr>) = Some r'"
    and "add_cost (instr_cost J ?e) (leave_block p q vs r') = (sg, s1, c)"
    by (auto simp: o_def)
  then obtain c0 where lv': "leave_block p q vs r' = (sg, s1, c0)" and c: "c = instr_cost J ?e + c0"
    by (cases "leave_block p q vs r'") auto
  from leave_block_elim [OF lv'] obtain sg0 s0 where "r' = (sg0, s0, c0)" .
  with r' lv' have r0: "run P J M n b (s\<lparr>ws_stack := vs\<rparr>) = Some (sg0, s0, c0)"
    and lv: "leave_block p q vs (sg0, s0, c0) = (sg, s1, c0)" by auto
  have na: "\<not> aborted sg0" using lv sg by (cases sg0) (auto simp: leave_block_def)
  have sb: "sim_list P J info M M' n b (s\<lparr>ws_stack := vs\<rparr>)" using t f stk by (simp add: b_def)
  have smb: "total_costs J b < 2 ^ 63" using small by (simp add: b_def)
  have "matches g c0 sg s1 (exec P J M' n (rewrite_expr J info ?e) s')"
    if st: "metered_state g s s'" and g: "0 < sint g" for g s'
  proof -
    have stk': "ws_stack s' = VI32 x # vs" using metered_state_same [OF st] stk by simp
    have "matches g c0 sg s1 (map_option (leave_block p q vs)
        (run P J M' n (metered J info b) (s'\<lparr>ws_stack := vs\<rparr>)))"
      using matches_leave_block
        [OF sim_list_metered [OF sb M' P r0 na smb metered_state_stack [OF st] g] lv na] .
    then have "matches g c0 sg s1 (map_option (add_cost k) (map_option (leave_block p q vs)
        (run P J M' n (metered J info b) (s'\<lparr>ws_stack := vs\<rparr>))))" for k by simp
    note m = this
    show ?thesis
    proof (cases "x = 0")
      case True
      with m [of "instr_cost J (IfExpr (p, q) (metered J info t) (metered J info f))"] show ?thesis
        by (simp add: stk' b_def option.map_comp)
    next
      case False
      with m [of "instr_cost J (IfExpr (p, q) (metered J info t) (metered J info f))"] show ?thesis
        by (simp add: stk' b_def option.map_comp)
    qed
  qed
  then show "instr_cost J ?e \<le> c \<and> (\<forall>g s'. metered_state g s s' \<longrightarrow> 0 < sint g \<longrightarrow>
      matches g (c - instr_cost J ?e) sg s1 (exec P J M' n (rewrite_expr J info ?e) s'))"
    by (simp add: c)
qed

lemma exec_loop_again:
  "run P J M (Suc m) b s = Some (Branch 0, s1, c) \<Longrightarrow>
     exec P J M (Suc m) (LoopExpr (p, q) b) s
       = map_option (add_cost c) (exec P J M m (LoopExpr (p, q) b)
           (s1\<lparr>ws_stack := take p (ws_stack s1) @ drop p (ws_stack s)\<rparr>))"
  by (subst exec.simps(2)) simp

lemma sim_Loop:
  assumes b: "sim_list P J info M M' n b s"
    and again: "\<And>m s1 c. run P J M n b s = Some (Branch 0, s1, c) \<Longrightarrow> n = Suc m \<Longrightarrow>
      sim_expr P J info M M' m (LoopExpr (p, q) b)
        (s1\<lparr>ws_stack := take p (ws_stack s1) @ drop p (ws_stack s)\<rparr>)"
    and M': "metered_module J info M M'" and P: "out_of_gas_aborts P"
  shows "sim_expr P J info M M' n (LoopExpr (p, q) b) s"
  unfolding sim_expr_def
proof (intro allI impI)
  fix sg s1 c
  let ?e = "LoopExpr (p, q) b"
  assume r: "exec P J M n ?e s = Some (sg, s1, c)" and sg: "\<not> aborted sg"
    and small: "total_cost J ?e < 2 ^ 63"
  from r obtain sg0 s0 c0 where r0: "run P J M n b s = Some (sg0, s0, c0)"
    by (cases "run P J M n b s") auto
  have smb: "total_costs J b < 2 ^ 63" using small by simp
  have cost: "instr_cost J ?e = 0" by (simp add: instr_cost_def)
  have "matches g c sg s1 (exec P J M' n (rewrite_expr J info ?e) s')"
    if st: "metered_state g s s'" and g: "0 < sint g" for g s'
  proof (cases "sg0 = Branch 0")
    case False
    then have lv: "leave_block p q (ws_stack s) (sg0, s0, c0) = (sg, s1, c)"
      using r r0 by (auto split: signal.splits nat.splits)
    then have c: "c0 = c" and na: "\<not> aborted sg0" using False sg
      by (cases sg0; auto simp: leave_block_def split: nat.splits)+
    have m: "matches g c sg0 s0 (run P J M' n (metered J info b) s')"
      using sim_list_metered [OF b M' P r0 na smb st g] c by simp
    have "matches g c sg s1 (map_option (leave_block p q (ws_stack s))
        (run P J M' n (metered J info b) s'))"
      using matches_leave_block [OF m] lv c na by simp
    then show ?thesis using m False metered_state_same [OF st]
      by (auto simp: matches_def split: if_splits signal.splits nat.splits)
  next
    case True
    with r r0 obtain m c1 where n: "n = Suc m"
      and r1: "exec P J M m ?e (s0\<lparr>ws_stack := take p (ws_stack s0) @ drop p (ws_stack s)\<rparr>)
          = Some (sg, s1, c1)" and c: "c = c0 + c1"
      by (auto split: nat.splits)
    have rr: "run P J M n b s = Some (Branch 0, s0, c0)" using r0 True by simp
    note ih = again [OF rr n, unfolded sim_expr_def, rule_format, OF r1 sg small]
    have m: "matches g c0 (Branch 0) s0 (run P J M' n (metered J info b) s')"
      using sim_list_metered [OF b M' P rr _ smb st g] by simp
    show ?thesis
    proof (cases "int c0 < sint g")
      case in1: True
      with m obtain s0' d where r': "run P J M' n (metered J info b) s' = Some (Branch 0, s0', d)"
        and st0: "metered_state (gas_minus g c0) s0 s0'"
        by (auto simp: matches_def)
      have g1: "sint (gas_minus g c0) = sint g - int c0"
        using sint_gas_minus [OF g] sint_positive_small [OF g in1] by simp
      have stk: "ws_stack s0' = ws_stack s0" using metered_state_same [OF st0] .
      have "matches (gas_minus g c0) c1 sg s1 (exec P J M' m (rewrite_expr J info ?e)
          (s0'\<lparr>ws_stack := take p (ws_stack s0) @ drop p (ws_stack s)\<rparr>))"
        using ih metered_state_stack [OF st0] in1 g1 cost by simp
      then have "matches (gas_minus g c0) c1 sg s1 (exec P J M' n (rewrite_expr J info ?e) s')"
        using r' [unfolded n, THEN exec_loop_again, of p q] n stk metered_state_same [OF st]
        by (simp only: rewrite_metered matches_add_cost)
      then show ?thesis using g1 by (simp add: matches_def gas_minus_add c split: if_splits)
    next
      case False
      with m show ?thesis by (auto simp: matches_def c leave_block_def)
    qed
  qed
  then show "instr_cost J ?e \<le> c \<and> (\<forall>g s'. metered_state g s s' \<longrightarrow> 0 < sint g \<longrightarrow>
      matches g (c - instr_cost J ?e) sg s1 (exec P J M' n (rewrite_expr J info ?e) s'))"
    by (simp add: cost)
qed


lemma sim_Call:
  assumes "sim_call P J info M M' n i s"
  shows "sim_expr P J info M M' n (CallExpr i) s"
  using assms unfolding sim_expr_def sim_call_def by fastforce

lemma sim_CallIndirect:
  assumes call: "\<And>x vs i. ws_stack s = VI32 x # vs \<Longrightarrow> table_at M (unat x) = Some i \<Longrightarrow>
      map_option callee_sig (func_at M i) = Some sig \<Longrightarrow> sim_call P J info M M' n i (s\<lparr>ws_stack := vs\<rparr>)"
    and M': "metered_module J info M M'"
  shows "sim_expr P J info M M' n (CallIndirectExpr sig) s"
  unfolding sim_expr_def
proof (intro allI impI)
  fix sg s1 c
  assume r: "exec P J M n (CallIndirectExpr sig) s = Some (sg, s1, c)" and sg: "\<not> aborted sg"
  then obtain x vs i c0 where stk: "ws_stack s = VI32 x # vs" and tb: "table_at M (unat x) = Some i"
    and si: "map_option callee_sig (func_at M i) = Some sig"
    and r0: "invoke P J M n i (s\<lparr>ws_stack := vs\<rparr>) = Some (sg, s1, c0)"
    and c: "c = instr_cost J (CallIndirectExpr sig) + c0"
    by (auto simp del: invoke.simps split: list.splits wasm_value.splits option.splits if_splits)
  have tb': "table_at M' (unat x) = Some (shift_call info i)"
    using M' tb unfolding metered_module_def by blast
  have si': "map_option callee_sig (func_at M' (shift_call info i)) = Some sig"
  proof (cases "func_at M i")
    case None
    with si show ?thesis by simp
  next
    case (Some f)
    then show ?thesis
    proof (cases f)
      case (Host m k sgn)
      then have "func_at M' (shift_call info i) = Some (Host m k sgn)"
        using M' Some unfolding metered_module_def by blast
      with si Some Host show ?thesis by simp
    next
      case (Defined g)
      then obtain g' where "func_at M' (shift_call info i) = Some (Defined g')" "fn_sig g' = fn_sig g"
        using M' Some unfolding metered_module_def by blast
      with si Some Defined show ?thesis by (simp add: callee_sig_def)
    qed
  qed
  have "matches g c0 sg s1 (exec P J M' n (rewrite_expr J info (CallIndirectExpr sig)) s')"
    if st: "metered_state g s s'" and g: "0 < sint g" for g s'
  proof -
    have "matches g c0 sg s1 (invoke P J M' n (shift_call info i) (s'\<lparr>ws_stack := vs\<rparr>))"
      using call [OF stk tb si, unfolded sim_call_def, rule_format, OF r0 sg metered_state_stack [OF st] g] .
    then show ?thesis
      using metered_state_same [OF st] stk tb' si' by (simp del: invoke.simps)
  qed
  then show "instr_cost J (CallIndirectExpr sig) \<le> c
      \<and> (\<forall>g s'. metered_state g s s' \<longrightarrow> 0 < sint g \<longrightarrow>
        matches g (c - instr_cost J (CallIndirectExpr sig)) sg s1
          (exec P J M' n (rewrite_expr J info (CallIndirectExpr sig)) s'))"
    by (simp only: c) simp
qed

lemma sim_invoke:
  assumes body: "\<And>f m. func_at M i = Some (Defined f) \<Longrightarrow> n = Suc m \<Longrightarrow>
      sim_list P J info M M' m (fn_exprs f) (enter_func f s)"
    and M': "metered_module J info M M'" and P: "out_of_gas_aborts P"
  shows "sim_call P J info M M' n i s"
  unfolding sim_call_def
proof (intro allI impI)
  fix sg s1 c and g :: u64 and s'
  assume r: "invoke P J M n i s = Some (sg, s1, c)" and sg: "\<not> aborted sg"
    and st: "metered_state g s s'" and g: "0 < sint g"
  show "matches g c sg s1 (invoke P J M' n (shift_call info i) s')"
  proof (cases "func_at M i")
    case None
    with r sg show ?thesis by auto
  next
    case (Some cl)
    show ?thesis
    proof (cases cl)
      case (Host m k sgn)
      then have M'i: "func_at M' (shift_call info i) = Some (Host m k sgn)"
        using M' Some unfolding metered_module_def by blast
      from r Some Host have h: "call_host P m k sgn s = (sg, s1)" and c: "c = 0"
        by (auto split: prod.splits)
      from call_host_metered [OF h sg st] M'i show ?thesis
        by (auto simp: c g matches_Some)
    next
      case (Defined f)
      with Some r obtain m where n: "n = Suc m"
        and r0: "map_option (leave_func f s) (run P J M m (fn_exprs f) (enter_func f s)) = Some (sg, s1, c)"
        by (auto split: nat.splits)
      then obtain sg0 s0 c0 where r1: "run P J M m (fn_exprs f) (enter_func f s) = Some (sg0, s0, c0)"
        and lv: "leave_func f s (sg0, s0, c0) = (sg, s1, c)" by auto
      have c: "c0 = c" and na: "\<not> aborted sg0" using lv sg
        by (cases sg0; auto simp: leave_func_def Let_def split: nat.splits)+
      from M' Some Defined obtain f' ext where small: "total_costs J (fn_exprs f) < 2 ^ 63"
        and f': "func_at M' (shift_call info i) = Some (Defined f')" "fn_sig f' = fn_sig f"
          "fn_exprs f' = metered J info (fn_exprs f)" "fn_locals f' = fn_locals f @ ext"
        unfolding metered_module_def by blast
      have sl: "sim_list P J info M M' m (fn_exprs f) (enter_func f s)"
        using body Some Defined n by simp
      have "matches g c sg0 s0 (run P J M' m (metered J info (fn_exprs f)) (enter_func f' s'))"
        using sim_list_metered [OF sl M' P r1 na small enter_func_metered [OF st f'(2,4)] g] c by simp
      from matches_leave_func [OF this lv [unfolded c] sg f'(2) st] show ?thesis
        using f' n by simp
    qed
  qed
qed

lemma metering_simulation:
  assumes M': "metered_module J info M M'" and P: "out_of_gas_aborts P"
  shows "sim_list P J info M M' n es s" and "sim_expr P J info M M' n e s"
    and "sim_call P J info M M' n i s"
  using assms
proof (induction P J M n es s and P J M n e s and P J M n i s rule: run_exec_invoke.induct)
  case (1 P J M n s)
  show ?case by (rule sim_list_Nil)
next
  case (2 P J M n e es s)
  show ?case by (rule sim_list_Cons) (use 2 in auto)
next
  case (3 P J M n p q b s)
  show ?case by (rule sim_Block) (use 3 in auto)
next
  case (4 P J M n p q b s)
  show ?case by (rule sim_Loop) (use 4 in auto)
next
  case (5 P J M n p q t f s)
  show ?case by (rule sim_If) (use 5 in auto)
next
  case (6 P J M n i s)
  show ?case by (rule sim_Call) (use 6 in auto)
next
  case (7 P J M n sg s)
  show ?case by (rule sim_CallIndirect) (use 7 in auto)
next
  case (9 P J M n i s)
  show ?case by (rule sim_invoke) (use 9 in auto)
qed (rule sim_simple, simp add: structured_def)+
end
