(* ===== verification/GasTermination.thy ===== *)
theory GasTermination imports GasMetering begin

text \<open>
  Metered code always stops: every repetition of a loop and every call has been charged at least
  one unit of gas, so fuel equal to the gas is enough.
\<close>

definition has_gas :: "u64 \<Rightarrow> 'e wasm_state \<Rightarrow> bool" where
  "has_gas g s \<longleftrightarrow> 0 < sint g \<and> (\<exists>gs. ws_globals s = VI64 g # gs)"

text \<open>The prices that make a program stop.\<close>

definition jumps_cost :: "gas_injector \<Rightarrow> bool" where
  "jumps_cost J \<longleftrightarrow> 0 < price J ''Br'' \<and> 0 < price J ''BrIf'' \<and> 0 < price J ''BrTable''
     \<and> 0 < price J ''Call'' \<and> 0 < price J ''CallIndirect''"

definition all_metered :: "gas_injector \<Rightarrow> imports_info \<Rightarrow> wasm_module \<Rightarrow> bool" where
  "all_metered J info M' \<longleftrightarrow> gas_linked info M'
     \<and> (\<forall>i f. func_at M' i = Some (Defined f) \<longrightarrow>
          (\<exists>es. fn_exprs f = metered J info es \<and> total_costs J es < 2 ^ 63))"

text \<open>The execution stops, and unless it is aborted some gas is left, never more than before; with
  a branch, less than \<open>bound\<close>.\<close>

definition stops :: "u64 \<Rightarrow> int \<Rightarrow> 'e result option \<Rightarrow> bool" where
  "stops g bound r \<longleftrightarrow>
     (\<exists>sg s1 c. r = Some (sg, s1, c) \<and>
        (aborted sg \<or> (\<exists>g1. has_gas g1 s1 \<and> sint g1 \<le> sint g
                          \<and> (\<forall>k. sg = Branch k \<longrightarrow> sint g1 < bound))))"

lemma stopsI:
  "r = Some (sg, s1, c) \<Longrightarrow> has_gas g1 s1 \<Longrightarrow> sint g1 \<le> sint g \<Longrightarrow>
     (\<And>k. sg = Branch k \<Longrightarrow> sint g1 < bound) \<Longrightarrow> stops g bound r"
  by (auto simp: stops_def)

lemma stops_abort: "r = Some (Aborted m, s1, c) \<Longrightarrow> stops g bound r"
  by (auto simp: stops_def)

lemma stops_add_cost [simp]: "stops g b (map_option (add_cost c) r) = stops g b r"
  by (cases r) (auto simp: stops_def)

lemma stops_mono: "stops g b r \<Longrightarrow> sint g \<le> sint g' \<Longrightarrow> b \<le> b' \<Longrightarrow> stops g' b' r"
  by (fastforce simp: stops_def)

lemma has_gas_stack [simp]:
  "has_gas g (s\<lparr>ws_stack := vs\<rparr>) = has_gas g s" "has_gas g (s\<lparr>ws_locals := ls\<rparr>) = has_gas g s"
  "has_gas g (s\<lparr>ws_env := en\<rparr>) = has_gas g s"
  by (simp_all add: has_gas_def)

lemma stops_leave_block:
  assumes "stops g b r"
  shows "stops g b (map_option (leave_block p q entry) r)"
proof -
  from assms obtain sg s1 c where r: "r = Some (sg, s1, c)"
    and d: "aborted sg \<or> (\<exists>g1. has_gas g1 s1 \<and> sint g1 \<le> sint g \<and> (\<forall>k. sg = Branch k \<longrightarrow> sint g1 < b))"
    by (auto simp: stops_def)
  show ?thesis
  proof (cases sg)
    case (Branch k)
    with r d show ?thesis by (cases k) (auto simp: stops_def leave_block_def)
  qed (use r d in \<open>auto simp: stops_def leave_block_def\<close>)
qed

lemma stops_metered:
  assumes body: "\<And>g s'. has_gas g s' \<Longrightarrow> sint g + int (seg_cost J es) \<le> int n \<Longrightarrow>
        stops g (sint g + int (seg_cost J es)) (run P J M' n (rewrite_list J info es) s')"
    and st: "has_gas g s'" and n: "sint g \<le> int n" and k: "total_costs J es < 2 ^ 63"
    and M': "gas_linked info M'" and P: "out_of_gas_aborts P"
  shows "stops g (sint g) (run P J M' n (metered J info es) s')"
proof (cases "seg_cost J es = 0")
  case True
  then show ?thesis using body [OF st] n by (simp add: metered_def)
next
  case False
  let ?k = "seg_cost J es"
  have k: "?k < 2 ^ 63" using seg_le_total [of J es] k by linarith
  from st obtain gs where gs: "ws_globals s' = VI64 g # gs" and g: "0 < sint g"
    by (auto simp: has_gas_def)
  have ms: "metered_state g (s'\<lparr>ws_globals := gs\<rparr>) s'" by (simp add: metered_state_def gs)
  note r = run_use_gas [OF ms g _ k M' P, where n = n and J = J and es = "rewrite_list J info es"]
  show ?thesis
  proof (cases "int ?k < sint g")
    case True
    with False r obtain s'' c where st2: "metered_state (gas_minus g ?k) (s'\<lparr>ws_globals := gs\<rparr>) s''"
      and run: "run P J M' n (metered J info es) s'
                  = map_option (add_cost c) (run P J M' n (rewrite_list J info es) s'')"
      by (auto simp: metered_def)
    have g2: "sint (gas_minus g ?k) = sint g - int ?k" using sint_gas_minus [OF g k] .
    with st2 True have "has_gas (gas_minus g ?k) s''" by (auto simp: has_gas_def metered_state_def)
    from body [OF this] n g2 show ?thesis unfolding run by (auto intro: stops_mono)
  next
    case False
    with r \<open>?k \<noteq> 0\<close> show ?thesis by (auto simp: metered_def intro: stops_abort)
  qed
qed

lemma stops_simple:
  assumes "\<not> structured e" and "jumps_cost J" and "has_gas g s'"
  shows "stops g (sint g + int (instr_cost J e)) (exec P J M' n (rewrite_expr J info e) s')"
proof -
  have ns: "\<not> structured (rewrite_expr J info e)" using assms(1) by (cases e) (simp_all add: structured_def)
  obtain sg s1 where r: "simple P (rewrite_expr J info e) s' = (sg, s1)" by force
  have x: "exec P J M' n (rewrite_expr J info e) s' = Some (sg, s1, instr_cost J (rewrite_expr J info e))"
    using r by (simp add: exec_simple [OF ns])
  from assms(3) obtain gs where gs: "ws_globals s' = VI64 g # gs" and g: "0 < sint g"
    by (auto simp: has_gas_def)
  have kept: "has_gas g s1" using r gs g assms(1)
    by (cases e) (auto simp: simple_def has_gas_def structured_def
        split: if_splits list.splits wasm_value.splits option.splits)
  have "0 < instr_cost J e" if "sg = Branch k" for k
    using r that assms(1,2)
    by (cases e) (auto simp: simple_def structured_def jumps_cost_def instr_cost_def
        split: if_splits list.splits wasm_value.splits option.splits)
  with kept show ?thesis by (intro stopsI [OF x]) auto
qed


section \<open>Everything stops\<close>

definition stop_list where
  "stop_list P J info M' n es \<longleftrightarrow> total_costs J es < 2 ^ 63 \<longrightarrow>
     (\<forall>g s'. has_gas g s' \<longrightarrow> sint g + int (seg_cost J es) \<le> int n \<longrightarrow>
        stops g (sint g + int (seg_cost J es)) (run P J M' n (rewrite_list J info es) s'))"

definition stop_expr where
  "stop_expr P J info M' n e \<longleftrightarrow> total_cost J e < 2 ^ 63 \<longrightarrow>
     (\<forall>g s'. has_gas g s' \<longrightarrow> sint g + int (instr_cost J e) \<le> int n \<longrightarrow>
        stops g (sint g + int (instr_cost J e)) (exec P J M' n (rewrite_expr J info e) s'))"

lemma stop_list_metered:
  assumes "stop_list P J info M' n es" and "gas_linked info M'" and "out_of_gas_aborts P"
    and "total_costs J es < 2 ^ 63" and "has_gas g s'" and "sint g \<le> int n"
  shows "stops g (sint g) (run P J M' n (metered J info es) s')"
  by (rule stops_metered) (use assms in \<open>auto simp: stop_list_def\<close>)

lemma leave_func_cases:
  "\<exists>s2. ws_globals s2 = ws_globals s1 \<and>
     (leave_func f s (sg, s1, c) = (Normal, s2, c) \<and> \<not> aborted sg
      \<or> (\<exists>x. leave_func f s (sg, s1, c) = (Aborted x, s2, c)))"
proof (cases sg)
  case (Branch k)
  then show ?thesis by (cases k) (auto simp: leave_func_def Let_def)
qed (auto simp: leave_func_def Let_def)

lemma stop_invoke:
  assumes M': "all_metered J info M'" and P: "out_of_gas_aborts P"
    and less: "\<And>m es. m < n \<Longrightarrow> stop_list P J info M' m es"
    and g: "has_gas g s'" and n: "sint g < int n"
  shows "stops g (sint g) (invoke P J M' n i s')"
proof (cases "func_at M' i")
  case None
  then show ?thesis by (auto intro: stops_abort)
next
  case (Some cl)
  show ?thesis
  proof (cases cl)
    case (Host m f sg)
    show ?thesis
    proof (cases "wm_host P m f (rev (take (length (fst sg)) (ws_stack s'))) (ws_env s')")
      case (Inl msg)
      with Some Host show ?thesis by (auto simp: call_host_def Let_def intro: stops_abort)
    next
      case (Inr r)
      with Some Host g show ?thesis
        by (cases r) (auto simp: call_host_def Let_def intro: stopsI)
    qed
  next
    case (Defined f)
    with M' Some obtain es where f: "fn_exprs f = metered J info es" "total_costs J es < 2 ^ 63"
      unfolding all_metered_def by blast
    from n g obtain m where m: "n = Suc m" by (cases n) (auto simp: has_gas_def)
    have st: "has_gas g (enter_func f s')" using g by (simp add: has_gas_def enter_func_def)
    have "stops g (sint g) (run P J M' m (fn_exprs f) (enter_func f s'))"
      unfolding f(1) using stop_list_metered [OF less _ P f(2) st] M' n m
      by (simp add: all_metered_def)
    then obtain sg s1 c where r: "run P J M' m (fn_exprs f) (enter_func f s') = Some (sg, s1, c)"
      and d: "aborted sg \<or> (\<exists>g1. has_gas g1 s1 \<and> sint g1 \<le> sint g)"
      by (auto simp: stops_def)
    from leave_func_cases [of s1 f s' sg c] obtain s2 where "ws_globals s2 = ws_globals s1"
      and lv: "leave_func f s' (sg, s1, c) = (Normal, s2, c) \<and> \<not> aborted sg
        \<or> (\<exists>x. leave_func f s' (sg, s1, c) = (Aborted x, s2, c))" by blast
    then have "(\<exists>g1. has_gas g1 s1 \<and> sint g1 \<le> sint g) \<Longrightarrow> \<exists>g1. has_gas g1 s2 \<and> sint g1 \<le> sint g"
      by (auto simp: has_gas_def)
    with Some Defined m r lv d show ?thesis by (auto intro: stops_abort stopsI)
  qed
qed

lemma exec_CallIndirect:
  "\<exists>c s0 i. ws_globals s0 = ws_globals s' \<and>
     (exec P J M' n (rewrite_expr J info (CallIndirectExpr sig)) s' = map_option (add_cost c) (invoke P J M' n i s0)
      \<or> exec P J M' n (rewrite_expr J info (CallIndirectExpr sig)) s' = Some (trap, s0, c))"
proof (cases "\<exists>x vs i. ws_stack s' = VI32 x # vs \<and> table_at M' (unat x) = Some i
      \<and> map_option callee_sig (func_at M' i) = Some sig")
  case True
  then obtain x vs i where *: "ws_stack s' = VI32 x # vs" "table_at M' (unat x) = Some i"
      "map_option callee_sig (func_at M' i) = Some sig" by blast
  then have "exec P J M' n (rewrite_expr J info (CallIndirectExpr sig)) s'
      = map_option (add_cost (instr_cost J (CallIndirectExpr sig))) (invoke P J M' n i (s'\<lparr>ws_stack := vs\<rparr>))"
    by (simp del: invoke.simps)
  moreover have "ws_globals (s'\<lparr>ws_stack := vs\<rparr>) = ws_globals s'" by simp
  ultimately show ?thesis by blast
next
  case False
  then have "\<exists>c. exec P J M' n (rewrite_expr J info (CallIndirectExpr sig)) s' = Some (trap, s', c)"
    by (auto simp del: invoke.simps split: list.split wasm_value.split option.split)
  then show ?thesis by blast
qed

lemma stop_list_Nil: "stop_list P J info M' n []"
  by (auto simp: stop_list_def intro: stopsI)

lemma stop_list_Cons:
  assumes gl: "gas_linked info M'" and P: "out_of_gas_aborts P"
    and e: "stop_expr P J info M' n e" and es: "stop_list P J info M' n es"
  shows "stop_list P J info M' n (e # es)"
  unfolding stop_list_def
proof (intro impI allI)
  fix g :: u64 and s' :: "'a wasm_state"
  let ?b = "sint g + int (seg_cost J (e # es))"
  assume small: "total_costs J (e # es) < 2 ^ 63" and g: "has_gas g s'" and n: "?b \<le> int n"
  have le: "instr_cost J e \<le> seg_cost J (e # es)" by simp
  have "stops g (sint g + int (instr_cost J e)) (exec P J M' n (rewrite_expr J info e) s')"
    using e small g n le unfolding stop_expr_def by auto
  then obtain sg s1 c where r: "exec P J M' n (rewrite_expr J info e) s' = Some (sg, s1, c)"
    and d: "aborted sg \<or> (\<exists>g1. has_gas g1 s1 \<and> sint g1 \<le> sint g
          \<and> (\<forall>k. sg = Branch k \<longrightarrow> sint g1 < sint g + int (instr_cost J e)))"
    by (auto simp: stops_def)
  show "stops g ?b (run P J M' n (rewrite_list J info (e # es)) s')"
  proof (cases "sg = Normal")
    case False
    with r have "run P J M' n (rewrite_list J info (e # es)) s' = Some (sg, s1, c)"
      by (auto split: signal.split)
    with d le show ?thesis unfolding stops_def by fastforce
  next
    case True
    with d obtain g1 where g1: "has_gas g1 s1" "sint g1 \<le> sint g" by auto
    have smes: "total_costs J es < 2 ^ 63" using small by simp
    show ?thesis
    proof (cases "closes e")
      case True
      have "stops g1 (sint g1) (run P J M' n (metered J info es) s1)"
        using stop_list_metered [OF es gl P smes g1(1)] n g1 by simp
      then show ?thesis using \<open>sg = Normal\<close> r True g1 by (auto intro: stops_mono)
    next
      case False
      have "stops g1 (sint g1 + int (seg_cost J es)) (run P J M' n (rewrite_list J info es) s1)"
        using es smes g1 n False unfolding stop_list_def by auto
      then show ?thesis using \<open>sg = Normal\<close> r False g1 by (auto intro: stops_mono)
    qed
  qed
qed

lemma stop_Block:
  assumes "gas_linked info M'" and "out_of_gas_aborts P" and "stop_list P J info M' n b"
  shows "stop_expr P J info M' n (BlockExpr (p, q) b)"
  using stop_list_metered [OF assms(3,1,2)]
  by (auto simp: stop_expr_def instr_cost_def intro!: stops_leave_block)

lemma stop_If:
  assumes gl: "gas_linked info M'" and P: "out_of_gas_aborts P"
    and t: "stop_list P J info M' n t" and f: "stop_list P J info M' n f"
  shows "stop_expr P J info M' n (IfExpr (p, q) t f)"
  unfolding stop_expr_def
proof (intro impI allI)
  fix g :: u64 and s' :: "'a wasm_state"
  let ?e = "IfExpr (p, q) t f"
  let ?c = "instr_cost J (IfExpr (p, q) (metered J info t) (metered J info f))"
  assume small: "total_cost J ?e < 2 ^ 63" and g: "has_gas g s'" and n: "sint g + int (instr_cost J ?e) \<le> int n"
  show "stops g (sint g + int (instr_cost J ?e)) (exec P J M' n (rewrite_expr J info ?e) s')"
  proof (cases "\<exists>x vs. ws_stack s' = VI32 x # vs")
    case False
    then have "exec P J M' n (rewrite_expr J info ?e) s' = Some (trap, s', ?c)"
      by (auto split: list.split wasm_value.split)
    then show ?thesis by (rule stops_abort)
  next
    case True
    then obtain x vs where stk: "ws_stack s' = VI32 x # vs" by blast
    have "stops g (sint g) (run P J M' n (metered J info b) (s'\<lparr>ws_stack := vs\<rparr>))"
      if "stop_list P J info M' n b" "total_costs J b < 2 ^ 63" for b
      using stop_list_metered [OF that(1) gl P that(2)] g n by simp
    then have "stops g (sint g) (map_option (add_cost ?c) (map_option (leave_block p q vs)
        (if x \<noteq> 0 then run P J M' n (metered J info t) (s'\<lparr>ws_stack := vs\<rparr>)
         else run P J M' n (metered J info f) (s'\<lparr>ws_stack := vs\<rparr>))))"
      using t f small by (simp add: stops_leave_block)
    then have "stops g (sint g) (exec P J M' n (rewrite_expr J info ?e) s')"
      by (simp add: stk option.map_comp del: stops_add_cost)
    then show ?thesis by (rule stops_mono) auto
  qed
qed

lemma stop_Loop:
  assumes gl: "gas_linked info M'" and P: "out_of_gas_aborts P" and b: "stop_list P J info M' n b"
    and again: "\<And>m. m < n \<Longrightarrow> stop_expr P J info M' m (LoopExpr (p, q) b)"
  shows "stop_expr P J info M' n (LoopExpr (p, q) b)"
  unfolding stop_expr_def
proof (intro impI allI)
  fix g :: u64 and s' :: "'a wasm_state"
  let ?e = "LoopExpr (p, q) b"
  assume small: "total_cost J ?e < 2 ^ 63" and g: "has_gas g s'" and n: "sint g + int (instr_cost J ?e) \<le> int n"
  have c0: "instr_cost J ?e = 0" by (simp add: instr_cost_def)
  have sb: "stops g (sint g) (run P J M' n (metered J info b) s')"
    using stop_list_metered [OF b gl P _ g] small n c0 by simp
  then obtain sg s1 c where r: "run P J M' n (metered J info b) s' = Some (sg, s1, c)"
    and d: "aborted sg \<or> (\<exists>g1. has_gas g1 s1 \<and> sint g1 \<le> sint g \<and> (\<forall>k. sg = Branch k \<longrightarrow> sint g1 < sint g))"
    by (auto simp: stops_def)
  show "stops g (sint g + int (instr_cost J ?e)) (exec P J M' n (rewrite_expr J info ?e) s')"
  proof (cases "sg = Branch 0")
    case False
    have "exec P J M' n (rewrite_expr J info ?e) s'
        = map_option (leave_block p q (ws_stack s')) (run P J M' n (metered J info b) s')"
      using r False by (subst rewrite_metered, subst exec.simps) (auto split: signal.split nat.split)
    with stops_leave_block [OF sb] show ?thesis using c0 by simp
  next
    case True
    with d obtain g1 where g1: "has_gas g1 s1" "sint g1 < sint g" by auto
    from n g1 c0 obtain m where m: "n = Suc m" by (cases n) (auto simp: has_gas_def)
    have rb: "run P J M' (Suc m) (metered J info b) s' = Some (Branch 0, s1, c)"
      using r True m by simp
    have "stops g1 (sint g1) (exec P J M' m (rewrite_expr J info ?e)
        (s1\<lparr>ws_stack := take p (ws_stack s1) @ drop p (ws_stack s')\<rparr>))"
      using again [of m, unfolded stop_expr_def] small g1 n m c0 by simp
    then have "stops g1 (sint g1) (exec P J M' n (rewrite_expr J info ?e) s')"
      using exec_loop_again [OF rb, of p q] by (simp only: m rewrite_metered stops_add_cost)
    then show ?thesis using g1 by (auto intro: stops_mono)
  qed
qed

lemma stop_step:
  assumes J: "jumps_cost J" and M': "all_metered J info M'" and P: "out_of_gas_aborts P"
    and less: "\<And>m es. m < n \<Longrightarrow> stop_list P J info M' m es"
      "\<And>m e. m < n \<Longrightarrow> stop_expr P J info M' m e"
  shows "stop_expr P J info M' n e" and "stop_list P J info M' n es"
proof -
  have gl: "gas_linked info M'" using M' by (simp add: all_metered_def)
  have simp_e: "stop_expr P J info M' n e" if "\<not> structured e" for e
    unfolding stop_expr_def by (intro impI allI stops_simple [OF that J])
  have call: "stop_expr P J info M' n e" if "0 < instr_cost J e"
    and "\<And>s'. \<exists>c s0 i. ws_globals s0 = ws_globals s' \<and>
        (exec P J M' n (rewrite_expr J info e) s' = map_option (add_cost c) (invoke P J M' n i s0)
         \<or> exec P J M' n (rewrite_expr J info e) s' = Some (trap, s0, c))" for e
    unfolding stop_expr_def
  proof (intro impI allI)
    fix g :: u64 and s' :: "'a wasm_state"
    assume g: "has_gas g s'" and n: "sint g + int (instr_cost J e) \<le> int n"
    from that(2) [of s'] obtain c s0 i where s0: "ws_globals s0 = ws_globals s'" and
      x: "exec P J M' n (rewrite_expr J info e) s' = map_option (add_cost c) (invoke P J M' n i s0)
         \<or> exec P J M' n (rewrite_expr J info e) s' = Some (trap, s0, c)" by blast
    have "has_gas g s0" using g s0 by (simp add: has_gas_def)
    from stop_invoke [OF M' P less(1) this] n that(1)
    have "stops g (sint g) (invoke P J M' n i s0)" by simp
    with x show "stops g (sint g + int (instr_cost J e)) (exec P J M' n (rewrite_expr J info e) s')"
      by (auto simp del: invoke.simps intro: stops_mono stops_abort)
  qed
  have list: "stop_list P J info M' n es" if "\<And>e. e \<in> set es \<Longrightarrow> stop_expr P J info M' n e" for es
    using that by (induction es) (simp add: stop_list_Nil, intro stop_list_Cons [OF gl P], auto)
  show e: "stop_expr P J info M' n e" for e
  proof (induction e rule: wasm_expr.induct)
    case (BlockExpr d b)
    then show ?case using list [of b] by (cases d) (simp add: stop_Block [OF gl P])
  next
    case (IfExpr d t f)
    then show ?case using list [of t] list [of f] by (cases d) (simp add: stop_If [OF gl P])
  next
    case (LoopExpr d b)
    then show ?case using list [of b] less(2) by (cases d) (simp add: stop_Loop [OF gl P])
  next
    case (CallExpr i)
    show ?case
    proof (rule call)
      show "0 < instr_cost J (CallExpr i)" using J by (simp add: jumps_cost_def instr_cost_def)
    qed auto
  next
    case (CallIndirectExpr sig)
    show ?case
    proof (rule call)
      show "0 < instr_cost J (CallIndirectExpr sig)" using J by (simp add: jumps_cost_def instr_cost_def)
    next
      fix s' :: "'a wasm_state"
      show "\<exists>c s0 i. ws_globals s0 = ws_globals s' \<and>
        (exec P J M' n (rewrite_expr J info (CallIndirectExpr sig)) s' = map_option (add_cost c) (invoke P J M' n i s0)
         \<or> exec P J M' n (rewrite_expr J info (CallIndirectExpr sig)) s' = Some (trap, s0, c))"
        by (rule exec_CallIndirect)
    qed
  qed (rule simp_e, simp add: structured_def)+
  show "stop_list P J info M' n es" using e by (rule list)
qed

end
