(* ===== verification/GasInjectorSpec.thy ===== *)
theory GasInjectorSpec imports GasTermination begin

text \<open>
  What \<open>inject_meter\<close> does to a whole module: the functions are found at their new index with
  metered bodies, so a metered call computes what the original computes and charges exactly the
  prices of the executed instructions, or ends with \<open>outOfGas\<close>; and it always ends.
\<close>

section \<open>The pass over the functions\<close>

lemma use_gas_temp [simp]: "use_gas (info\<lparr>temp_var_index := x\<rparr>) k = use_gas info k"
  by (simp add: use_gas_def sub_and_check_def)

lemma shift_call_temp [simp]: "shift_call (info\<lparr>temp_var_index := x\<rparr>) i = shift_call info i"
  by (simp add: shift_call_def)

lemma rewrite_temp [simp]:
  "rewrite_expr J (info\<lparr>temp_var_index := x\<rparr>) e = rewrite_expr J info e"
  "rewrite_list J (info\<lparr>temp_var_index := x\<rparr>) es = rewrite_list J info es"
  by (induction J info e and J info es rule: rewrite_expr_rewrite_list.induct)
     (simp_all add: metered_def)

lemma inject_func_Some:
  assumes "inject_func J info f = Some f'"
  shows "fn_sig f' = fn_sig f \<and> fn_exprs f' = metered J info (fn_exprs f)
    \<and> (\<exists>ext. fn_locals f' = fn_locals f @ ext)"
proof (cases "fn_exprs f = []")
  case True
  with assms show ?thesis by (auto simp: inject_func_def)
next
  case False
  with assms show ?thesis
    by (auto simp: inject_func_def Let_def inject_exprs_rewrite metered_def split: if_splits)
qed

lemma inject_funcs_Some:
  "inject_funcs J info fs = Some fs' \<Longrightarrow>
     list_all2 (\<lambda>f f'. fn_sig f' = fn_sig f \<and> fn_exprs f' = metered J info (fn_exprs f)
       \<and> (\<exists>ext. fn_locals f' = fn_locals f @ ext)) fs fs'"
proof (induction fs arbitrary: fs')
  case Nil
  then show ?case by simp
next
  case (Cons f fs)
  then obtain f' fs2 where "inject_func J info f = Some f'" "inject_funcs J info fs = Some fs2"
    "fs' = f' # fs2" by (auto simp: bind_eq_Some_conv)
  with Cons.IH [of fs2] inject_func_Some show ?case by simp
qed

section \<open>Modules the index arithmetic is right for\<close>

text \<open>The pass counts all imports where it means the imported functions; on a module that imports
  functions only the two numbers agree.\<close>

definition function_imports_only :: "wasm_module \<Rightarrow> bool" where
  "function_imports_only M \<longleftrightarrow>
     (\<forall>im \<in> set (md_imports M). case im_kind im of
        FuncImport sg \<Rightarrow> im_module im = MODULE_NAME \<and> im_field im = OUT_OF_GAS_NAME \<longrightarrow> sg = ([], [])
      | _ \<Rightarrow> False)
     \<and> md_num_func_imports M = length (md_imports M)"

definition prices_in_range :: "gas_injector \<Rightarrow> wasm_module \<Rightarrow> bool" where
  "prices_in_range J M \<longleftrightarrow> (\<forall>f \<in> set (md_funcs M). total_costs J (fn_exprs f) < 2 ^ 63)"

definition meter_info :: "wasm_module \<Rightarrow> imports_info" where
  "meter_info M =
     (let found = find_gas_function (md_imports M)
      in \<lparr>found_gas_function = (found \<noteq> None),
          gas_func_index = (case found of Some i \<Rightarrow> i | None \<Rightarrow> length (md_imports M)),
          global_gas_index = 0, temp_var_index = 0, origin_size = length (md_imports M)\<rparr>)"

lemma meter_info_simps [simp]:
  "found_gas_function (meter_info M) \<longleftrightarrow> find_gas_function (md_imports M) \<noteq> None"
  "gas_func_index (meter_info M) =
     (case find_gas_function (md_imports M) of Some i \<Rightarrow> i | None \<Rightarrow> length (md_imports M))"
  "global_gas_index (meter_info M) = 0"
  "origin_size (meter_info M) = length (md_imports M)"
  by (simp_all add: meter_info_def Let_def)

text \<open>The index of a function in the metered module.\<close>

definition new_index :: "wasm_module \<Rightarrow> nat \<Rightarrow> nat" where
  "new_index M i = shift_call (meter_info M) i"

lemma fold_last_match:
  "fold (\<lambda>(i, x) r. if p x then Some i else r) ixs r0 = Some j \<Longrightarrow>
     r0 = Some j \<or> (\<exists>x. (j, x) \<in> set ixs \<and> p x)"
proof (induction ixs arbitrary: r0)
  case Nil
  then show ?case by simp
next
  case (Cons a ixs)
  obtain i x where a: "a = (i, x)" by (cases a)
  from Cons.IH [of "if p x then Some i else r0"] Cons.prems show ?case
    by (auto simp: a split: if_splits)
qed

lemma find_gas_function_Some:
  assumes "find_gas_function ims = Some i"
  shows "i < length ims \<and> is_out_of_gas (ims ! i)"
  using fold_last_match [of is_out_of_gas "zip [0..<length ims] ims" None i] assms
  by (auto simp: find_gas_function_def set_zip)

lemma func_imports_only:
  "function_imports_only M \<Longrightarrow> func_imports M = md_imports M"
  unfolding func_imports_def function_imports_only_def
  by (rule filter_True) (auto split: import_kind.splits)

lemma table_at_map:
  "table_at (M\<lparr>md_elems := map (\<lambda>(off, fs). (off, map h fs)) (md_elems M)\<rparr>) x = map_option h (table_at M x)"
proof -
  have "fold (\<lambda>(off, fs) r. if off \<le> x \<and> x < off + length fs then Some (fs ! (x - off)) else r)
          (map (\<lambda>(off, fs). (off, map h fs)) els) (map_option h r)
      = map_option h (fold (\<lambda>(off, fs) r. if off \<le> x \<and> x < off + length fs then Some (fs ! (x - off)) else r) els r)"
    for els r
  proof (induction els arbitrary: r)
    case Nil
    then show ?case by simp
  next
    case (Cons el els)
    obtain off fs where el: "el = (off, fs)" by (cases el)
    show ?case
    proof (cases "off \<le> x \<and> x < off + length fs")
      case True
      then have "x - off < length fs" by auto
      with True show ?thesis using Cons.IH [of "Some (fs ! (x - off))"] by (simp add: el)
    next
      case False
      then show ?thesis using Cons.IH [of r] by (auto simp: el)
    qed
  qed
  from this [of "md_elems M" None] show ?thesis by (simp add: table_at_def)
qed


lemma inject_meter_Some:
  assumes "inject_meter J M = Some (Success M')"
  obtains M1 fs where
    "M1 = (if find_gas_function (md_imports M) = None then import_out_of_gas M else M)"
    and "inject_funcs J (meter_info M) (md_funcs M1) = Some fs"
    and "md_funcs M' = fs" and "md_num_func_imports M' = md_num_func_imports M1"
    and "func_imports M' = func_imports M1" and "md_elems M' = md_elems M1"
proof -
  define M1 where "M1 = (if find_gas_function (md_imports M) = None then import_out_of_gas M else M)"
  from assms obtain M3 fs where M3: "limit_memory (import_gas_global M1) = Some M3"
    and fs: "inject_funcs J (meter_info M) (md_funcs M3) = Some fs" and M': "M' = M3\<lparr>md_funcs := fs\<rparr>"
    by (auto simp: inject_meter_def Let_def M1_def meter_info_def split: option.splits)
  from M3 have eq: "md_funcs M3 = md_funcs M1" "md_num_func_imports M3 = md_num_func_imports M1"
    "md_elems M3 = md_elems M1"
    "md_imports M3 = md_imports M1 @ [\<lparr>im_module = MODULE_NAME, im_field = GLOBAL_GAS_NAME,
       im_kind = GlobalImport I64 True\<rparr>]"
    by (auto simp: limit_memory_def import_gas_global_def split: list.splits)
  then have "func_imports M' = func_imports M1" by (simp add: M' func_imports_def)
  with that [OF M1_def _ _ _ this] fs M' eq show thesis by simp
qed

lemma import_out_of_gas_fields:
  "md_funcs (import_out_of_gas M) = \<lparr>fn_sig = ([], []), fn_locals = [], fn_exprs = []\<rparr> # md_funcs M"
  "md_num_func_imports (import_out_of_gas M) = md_num_func_imports M + 1"
  "func_imports (import_out_of_gas M) = func_imports M @
     [\<lparr>im_module = MODULE_NAME, im_field = OUT_OF_GAS_NAME, im_kind = FuncImport ([], [])\<rparr>]"
  "md_elems (import_out_of_gas M) =
     map (\<lambda>(off, fs). (off, map (\<lambda>i. if length (md_imports M) \<le> i then i + 1 else i) fs)) (md_elems M)"
  by (simp_all add: import_out_of_gas_def add_out_of_gas_type_def Let_def func_imports_def)

text \<open>The functions of the metered module, host and defined, at their new index.\<close>

lemma inject_meter_functions:
  assumes inj: "inject_meter J M = Some (Success M')" and M: "function_imports_only M"
  shows "func_imports M' = md_imports M @ (if find_gas_function (md_imports M) = None
       then [\<lparr>im_module = MODULE_NAME, im_field = OUT_OF_GAS_NAME, im_kind = FuncImport ([], [])\<rparr>] else [])"
    and "list_all2 (\<lambda>f f'. fn_sig f' = fn_sig f \<and> fn_exprs f' = metered J (meter_info M) (fn_exprs f)
       \<and> (\<exists>ext. fn_locals f' = fn_locals f @ ext)) (defined_funcs M) (defined_funcs M')"
    and "table_at M' x = map_option (new_index M) (table_at M x)"
proof -
  obtain M1 fs where M1: "M1 = (if find_gas_function (md_imports M) = None then import_out_of_gas M else M)"
    and fs: "inject_funcs J (meter_info M) (md_funcs M1) = Some fs"
    and M': "md_funcs M' = fs" "md_num_func_imports M' = md_num_func_imports M1"
      "func_imports M' = func_imports M1" "md_elems M' = md_elems M1"
    using inject_meter_Some [OF inj] by blast
  show "func_imports M' = md_imports M @ (if find_gas_function (md_imports M) = None
       then [\<lparr>im_module = MODULE_NAME, im_field = OUT_OF_GAS_NAME, im_kind = FuncImport ([], [])\<rparr>] else [])"
    using M'(3) func_imports_only [OF M] by (simp add: M1 import_out_of_gas_fields)
  have "defined_funcs M1 = defined_funcs M"
    by (simp add: M1 defined_funcs_def import_out_of_gas_fields)
  moreover have "defined_funcs M' = drop (md_num_func_imports M1) fs"
    using M' by (simp add: defined_funcs_def)
  ultimately show "list_all2 (\<lambda>f f'. fn_sig f' = fn_sig f \<and> fn_exprs f' = metered J (meter_info M) (fn_exprs f)
       \<and> (\<exists>ext. fn_locals f' = fn_locals f @ ext)) (defined_funcs M) (defined_funcs M')"
    using list_all2_dropI [OF inject_funcs_Some [OF fs], of "md_num_func_imports M1"]
    by (simp add: defined_funcs_def)
  show "table_at M' x = map_option (new_index M) (table_at M x)"
  proof (cases "find_gas_function (md_imports M) = None")
    case True
    then have "new_index M = (\<lambda>i. if length (md_imports M) \<le> i then i + 1 else i)"
      by (auto simp: new_index_def shift_call_def)
    moreover have "table_at M' x = table_at (M\<lparr>md_elems := md_elems M'\<rparr>) x" by (simp add: table_at_def)
    ultimately show ?thesis
      using True table_at_map [where M = M and h = "new_index M" and x = x] M'(4) by (simp add: M1 import_out_of_gas_fields)
  next
    case False
    then have "new_index M = id" by (auto simp: new_index_def shift_call_def)
    moreover have "M1 = M" unfolding M1 using False by (rule if_not_P)
    ultimately show ?thesis using M'(4) by (simp add: table_at_def option.map_id)
  qed
qed

lemma func_at_import:
  "i < length (func_imports M) \<Longrightarrow> im_kind (func_imports M ! i) = FuncImport sg \<Longrightarrow>
     func_at M i = Some (Host (im_module (func_imports M ! i)) (im_field (func_imports M ! i)) sg)"
  by (simp add: func_at_def Let_def)

lemma func_at_DefinedD:
  "func_at M i = Some (Defined f) \<Longrightarrow>
     length (func_imports M) \<le> i \<and> i - length (func_imports M) < length (defined_funcs M)
     \<and> f = defined_funcs M ! (i - length (func_imports M))"
  by (auto simp: func_at_def Let_def split: if_splits import_kind.splits)

lemma func_at_HostD:
  "func_at M i = Some (Host m f sg) \<Longrightarrow> i < length (func_imports M)
     \<and> im_kind (func_imports M ! i) = FuncImport sg
     \<and> m = im_module (func_imports M ! i) \<and> f = im_field (func_imports M ! i)"
  by (auto simp: func_at_def Let_def split: if_splits import_kind.splits)

lemma inject_meter_linked:
  assumes inj: "inject_meter J M = Some (Success M')" and M: "function_imports_only M"
  shows "gas_linked (meter_info M) M'"
proof (cases "find_gas_function (md_imports M)")
  case None
  have "func_imports M' ! length (md_imports M)
      = \<lparr>im_module = MODULE_NAME, im_field = OUT_OF_GAS_NAME, im_kind = FuncImport ([], [])\<rparr>"
    and "length (md_imports M) < length (func_imports M')"
    using inject_meter_functions(1) [OF inj M] None by simp_all
  then show ?thesis
    using func_at_import [of "length (md_imports M)" M' "([], [])"] None
    by (simp add: gas_linked_def)
next
  case (Some i)
  with find_gas_function_Some [OF Some] have i: "i < length (md_imports M)"
    and im: "im_module (md_imports M ! i) = MODULE_NAME" "im_field (md_imports M ! i) = OUT_OF_GAS_NAME"
    by (auto simp: is_out_of_gas_def)
  have "md_imports M ! i \<in> set (md_imports M)" using i by simp
  then have "case im_kind (md_imports M ! i) of FuncImport sg \<Rightarrow> sg = ([], []) | _ \<Rightarrow> False"
    using M im unfolding function_imports_only_def by (force split: import_kind.splits)
  then have "im_kind (md_imports M ! i) = FuncImport ([], [])"
    by (simp split: import_kind.splits)
  moreover have "func_imports M' = md_imports M"
    using inject_meter_functions(1) [OF inj M] Some by simp
  ultimately show ?thesis using func_at_import [of i M' "([], [])"] i im Some
    by (simp add: gas_linked_def)
qed

lemma inject_meter_metered:
  assumes inj: "inject_meter J M = Some (Success M')" and M: "function_imports_only M"
    and J: "prices_in_range J M"
  shows "metered_module J (meter_info M) M M'" and "all_metered J (meter_info M) M'"
proof -
  let ?ims = "md_imports M"
  note fi = inject_meter_functions(1) [OF inj M]
  note df = inject_meter_functions(2) [OF inj M]
  have f0: "func_imports M = ?ims" using func_imports_only [OF M] .
  have range: "total_costs J (fn_exprs f) < 2 ^ 63" if "f \<in> set (defined_funcs M)" for f
    using that J set_drop_subset unfolding prices_in_range_def defined_funcs_def by fastforce
  have host: "func_at M' (shift_call (meter_info M) i) = Some (Host m f sg)"
    if h: "func_at M i = Some (Host m f sg)" for i m f sg
  proof -
    from func_at_HostD [OF h] have i: "i < length ?ims" by (simp add: f0)
    then have "shift_call (meter_info M) i = i" by (simp add: shift_call_def)
    moreover have "func_imports M' ! i = ?ims ! i" "i < length (func_imports M')"
      using fi i by (simp_all add: nth_append)
    ultimately show ?thesis
      using func_at_HostD [OF h] func_at_import [of i M' sg] by (simp add: f0)
  qed
  have def: "\<exists>f'. func_at M' (shift_call (meter_info M) i) = Some (Defined f')
      \<and> fn_sig f' = fn_sig f \<and> fn_exprs f' = metered J (meter_info M) (fn_exprs f)
      \<and> (\<exists>ext. fn_locals f' = fn_locals f @ ext)" if h: "func_at M i = Some (Defined f)" for i f
  proof -
    from func_at_DefinedD [OF h] have i: "length ?ims \<le> i" "i - length ?ims < length (defined_funcs M)"
      and f: "f = defined_funcs M ! (i - length ?ims)" by (simp_all add: f0)
    have "shift_call (meter_info M) i - length (func_imports M') = i - length ?ims"
      and "\<not> shift_call (meter_info M) i < length (func_imports M')"
      using fi i(1) by (auto simp: shift_call_def)
    moreover have "i - length ?ims < length (defined_funcs M')"
      using df i(2) list_all2_lengthD by force
    ultimately have "func_at M' (shift_call (meter_info M) i) = Some (Defined (defined_funcs M' ! (i - length ?ims)))"
      by (simp add: func_at_def Let_def)
    with list_all2_nthD [OF df i(2)] f show ?thesis by simp
  qed
  show "metered_module J (meter_info M) M M'"
    unfolding metered_module_def
  proof (intro conjI allI impI)
    show "gas_linked (meter_info M) M'" using inject_meter_linked [OF inj M] .
  next
    fix x i
    assume "table_at M x = Some i"
    then show "table_at M' x = Some (shift_call (meter_info M) i)"
      using inject_meter_functions(3) [OF inj M, of x] by (simp add: new_index_def)
  next
    fix i f
    assume "func_at M i = Some (Defined f)"
    from func_at_DefinedD [OF this] have "f \<in> set (defined_funcs M)" by simp
    then show "total_costs J (fn_exprs f) < 2 ^ 63" by (rule range)
  qed (use host def in blast)+
  show "all_metered J (meter_info M) M'"
    unfolding all_metered_def
  proof (intro conjI allI impI)
    show "gas_linked (meter_info M) M'" using inject_meter_linked [OF inj M] .
  next
    fix i f
    assume "func_at M' i = Some (Defined f)"
    from func_at_DefinedD [OF this] obtain k where k: "k < length (defined_funcs M')" "f = defined_funcs M' ! k"
      by blast
    with df have "fn_exprs f = metered J (meter_info M) (fn_exprs (defined_funcs M ! k))"
      and "k < length (defined_funcs M)" by (auto simp: list_all2_conv_all_nth)
    then show "\<exists>es. fn_exprs f = metered J (meter_info M) es \<and> total_costs J es < 2 ^ 63"
      using range nth_mem by blast
  qed
qed


section \<open>Prices\<close>

lemma fold_update_last:
  "fold (\<lambda>(name, p) t. t(code name := p)) ps t k =
     (case filter (\<lambda>(name, p). code name = k) ps of [] \<Rightarrow> t k | x # xs \<Rightarrow> snd (last (x # xs)))"
proof (induction ps arbitrary: t)
  case Nil
  then show ?case by simp
next
  case (Cons a ps)
  show ?case using Cons.IH [of "t(code (fst a) := snd a)"]
    by (cases a) (auto split: list.split)
qed

lemma price_listed:
  assumes J: "gi_cost J = price_table (gi_code J) ops" "inj_on (gi_code J) (fst ` set instruction_prices)"
    and f: "filter (\<lambda>(n, _). n = name) instruction_prices = [(name, p)]"
  shows "price J name = p"
proof -
  have "(name, p) \<in> set (filter (\<lambda>(n, _). n = name) instruction_prices)" by (simp add: f)
  then have "name \<in> fst ` set instruction_prices" by force
  then have "filter (\<lambda>(n, q). gi_code J n = gi_code J name) instruction_prices
      = filter (\<lambda>(n, _). n = name) instruction_prices"
    using J(2) by (intro filter_cong) (auto simp: inj_on_def)
  then show ?thesis
    by (simp add: price_def J(1) price_table_def fold_update_last f)
qed

lemma listed_prices:
  assumes "gi_cost J = price_table (gi_code J) ops" "inj_on (gi_code J) (fst ` set instruction_prices)"
  shows "price J ''Br'' = 2" "price J ''BrIf'' = 3" "price J ''BrTable'' = 2" "price J ''Call'' = 3"
    "price J ''CallIndirect'' = 2" "price J ''Return'' = 2" "price J ''I64Sub'' = 1"
    "price J ''I64Const'' = 0"
  by (rule price_listed [OF assms], simp add: instruction_prices_def)+

lemma listed_jumps_cost:
  assumes "gi_cost J = price_table (gi_code J) ops" "inj_on (gi_code J) (fst ` set instruction_prices)"
  shows "jumps_cost J"
  by (simp add: jumps_cost_def listed_prices [OF assms])

section \<open>Properties\<close>

lemma everything_stops:
  assumes "jumps_cost J" and "all_metered J info M'" and "out_of_gas_aborts P"
  shows "stop_expr P J info M' n e \<and> stop_list P J info M' n es"
proof (induction n arbitrary: e es rule: less_induct)
  case (less n)
  then show ?case using stop_step [OF assms] by blast
qed

lemma metered_invoke_stops:
  assumes "jumps_cost J" and "all_metered J info M'" and "out_of_gas_aborts P"
    and "has_gas g s'" and "sint g < int n"
  shows "stops g (sint g) (invoke P J M' n i s')"
  using stop_invoke [OF assms(2,3) _ assms(4,5)] everything_stops [OF assms(1-3)] by blast

text \<open>C28: The loop of the gas pass with its insertion point is a structural rewriting.  It rejects
  exactly the lists that contain, at any depth, a float constant, an instruction outside the
  supported set or a float operation of the four checked classes; from any other list it makes the
  one in which every straight segment is preceded by code that charges the whole segment, with call
  and global indices shifted.\<close>

theorem gas_pass_rewrites_segments:
  "inject_exprs J info [] 0 es =
     (if list_all (accepted J) es then Some (metered J info es) else None)"
  by (simp add: inject_exprs_rewrite metered_def)

text \<open>C10: Metering is exact.  Take a module that imports functions only and that the pass accepts, and
  a call of one of its functions that returns after executing instructions of total price \<open>c\<close>.
  With more gas than \<open>c\<close>, the same call in the metered module returns the same signal, operand
  stack, memory and globals, and the gas counter is smaller by exactly \<open>c\<close>; with \<open>c\<close> gas or less, it
  ends with \<open>outOfGas\<close>.\<close>

theorem metering_is_exact:
  assumes "inject_meter J M = Some (Success M')" and "function_imports_only M"
    and "prices_in_range J M" and "out_of_gas_aborts P"
    and "invoke P J M n i s = Some (sg, s1, c)" and "\<not> aborted sg"
    and "metered_state g s s'" and "0 < sint g"
  shows "if int c < sint g
         then \<exists>s1' c'. invoke P J M' n (new_index M i) s' = Some (sg, s1', c')
                \<and> metered_state (gas_minus g c) s1 s1'
         else \<exists>s1' c'. invoke P J M' n (new_index M i) s' = Some (Aborted OUT_OF_GAS_NAME, s1', c')"
  using metering_simulation(3) [OF inject_meter_metered(1) [OF assms(1-3)] assms(4)] assms(5-8)
  unfolding sim_call_def new_index_def matches_def by blast

text \<open>C11: Metered contracts stop.  Take a module that imports functions only (with the signature of
  \<open>outOfGas\<close>, if it imports that) and whose functions cost less than \<open>2 ^ 63\<close> each, and let
  \<open>GetInstructionTable\<close> give the prices, the opcodes it lists being distinct.  If the pass accepts the
  module and the host's \<open>outOfGas\<close> aborts, every call in the metered module that starts with positive
  gas in the first global ends, whatever the original code does, and fuel for as many loop repetitions
  and nested calls as there are units of gas is enough.  With a memory import a call need not end
  (\<open>memory_import_spins\<close>).\<close>

theorem metered_calls_end:
  assumes "inject_meter J M = Some (Success M')" and "function_imports_only M"
    and "prices_in_range J M" and "out_of_gas_aborts P"
    and "gi_cost J = price_table (gi_code J) ops"
    and "inj_on (gi_code J) (fst ` set instruction_prices)"
    and "ws_globals s = VI64 g # gs" and "0 < sint g"
  shows "\<exists>r. invoke P J M' (nat (sint g) + 1) i s = Some r"
  using metered_invoke_stops [OF listed_jumps_cost [OF assms(5,6)] inject_meter_metered(2) [OF assms(1-3)]
      assms(4), of g s "nat (sint g) + 1" i] assms(7,8)
  by (auto simp: has_gas_def stops_def)

section \<open>An example, and where the indices go wrong\<close>

text \<open>Names as numbers, for the examples.\<close>

fun name_number :: "string \<Rightarrow> nat" where
  "name_number [] = 0"
| "name_number (c # cs) = of_char c + 1 + 257 * name_number cs"

lemma name_number_inj: "name_number a = name_number b \<Longrightarrow> a = b"
proof (induction a arbitrary: b)
  case Nil
  then show ?case by (cases b) auto
next
  case (Cons c cs)
  then obtain d ds where b: "b = d # ds" by (cases b) auto
  have small: "(of_char x :: nat) + 1 < 257" for x :: char using nat_of_char_less_256 [of x] by simp
  from Cons.prems have eq: "of_char c + 1 + 257 * name_number cs = of_char d + 1 + 257 * name_number ds"
    by (simp add: b)
  then have "(of_char c + 1 + 257 * name_number cs) mod 257 = (of_char d + 1 + 257 * name_number ds) mod 257"
    by simp
  then have "(of_char c :: nat) = of_char d" using small [of c] small [of d] by simp
  with eq Cons.IH [of ds] show ?case by (simp add: b)
qed

definition named_injector :: gas_injector where
  "named_injector = (let code = (\<lambda>op. 1000 + name_number op)
     in \<lparr>gi_code = code, gi_cost = price_table code []\<rparr>)"

lemma named_injector_listed:
  "gi_cost named_injector = price_table (gi_code named_injector) []"
  "inj_on (gi_code named_injector) A"
  by (auto simp: named_injector_def Let_def inj_on_def dest: name_number_inj)

lemmas named_prices [simp] = listed_prices [OF named_injector_listed]

lemma named_not_float [simp]: "\<not> is_float_opcode (gi_code named_injector op)"
  by (simp add: named_injector_def is_float_opcode_def Let_def)

definition demo_import :: "import_kind \<Rightarrow> wasm_import" where
  "demo_import k = \<lparr>im_module = ''env'', im_field = ''log'', im_kind = k\<rparr>"

definition demo_func :: "value_type list \<Rightarrow> wasm_expr list \<Rightarrow> wasm_func" where
  "demo_func rs es = \<lparr>fn_sig = ([], rs), fn_locals = [], fn_exprs = es\<rparr>"

definition demo_module :: "import_kind list \<Rightarrow> wasm_func list \<Rightarrow> wasm_module" where
  "demo_module ks fs =
     \<lparr>md_types = [], md_imports = map demo_import ks,
      md_funcs = fs, md_num_func_imports = 1, md_globals = [], md_num_global_imports = 0,
      md_memories = [\<lparr>pl_initial = 1, pl_max = 0, pl_has_max = False\<rparr>], md_exports = [(ExternFunc, 1)],
      md_elems = [], md_starts = [1]\<rparr>"

definition demo_machine :: "unit wasm_machine" where
  "demo_machine = \<lparr>wm_prim = (\<lambda>_ _ _. None),
     wm_host = (\<lambda>m f args env. if m = MODULE_NAME \<and> f = OUT_OF_GAS_NAME then Inl OUT_OF_GAS_NAME
                                else Inr ([], env))\<rparr>"

definition demo_state :: "wasm_value list \<Rightarrow> unit wasm_state" where
  "demo_state gl = \<lparr>ws_stack = [], ws_locals = [], ws_globals = gl, ws_env = ()\<rparr>"

definition two_functions :: "wasm_func list" where
  "two_functions = [demo_func [] [], demo_func [I64] [CallExpr 2, ReturnExpr],
     demo_func [I64] [ConstExpr (VI64 5), ConstExpr (VI64 3), BinaryExpr ''I64Sub'']]"


abbreviation two_module :: wasm_module where
  "two_module \<equiv> demo_module [FuncImport ([], [])] two_functions"

lemma two_module_injects: "\<exists>M'. inject_meter named_injector two_module = Some (Success M')"
  by (simp add: inject_meter_def demo_module_def demo_import_def two_functions_def demo_func_def
      find_gas_function_def is_out_of_gas_def import_out_of_gas_def add_out_of_gas_type_def
      import_gas_global_def limit_memory_def inject_func_def inject_exprs_rewrite Let_def)

lemma two_module_hyps:
  "function_imports_only two_module" "prices_in_range named_injector two_module"
  "out_of_gas_aborts demo_machine"
  by (simp_all add: function_imports_only_def prices_in_range_def out_of_gas_aborts_def
      demo_machine_def demo_module_def demo_import_def demo_func_def two_functions_def
      MODULE_NAME_def instr_cost_def)

lemma two_module_call:
  "invoke demo_machine named_injector two_module 2 1 (demo_state [])
     = Some (Normal, (demo_state [])\<lparr>ws_stack := [VI64 2]\<rparr>, 6)"
  by (simp add: func_at_def func_imports_def defined_funcs_def demo_module_def demo_import_def
      demo_func_def two_functions_def enter_func_def leave_func_def demo_state_def simple_def
      instr_cost_def Let_def numeral_2_eq_2)

theorem metering_is_exact_witness:
  "\<exists>M' s1' c'. inject_meter named_injector two_module = Some (Success M')
     \<and> invoke demo_machine named_injector M' 2 (new_index two_module 1) (demo_state [VI64 10])
         = Some (Normal, s1', c')
     \<and> ws_stack s1' = [VI64 2] \<and> ws_globals s1' = [VI64 4]"
proof -
  obtain M' where M': "inject_meter named_injector two_module = Some (Success M')"
    using two_module_injects by blast
  have "metered_state 10 (demo_state []) (demo_state [VI64 10])"
    by (simp add: metered_state_def demo_state_def)
  from metering_is_exact [OF M' two_module_hyps two_module_call _ this] M'
  show ?thesis by (auto simp: metered_state_def demo_state_def gas_minus_def)
qed

text \<open>A function that loops for ever stops when it is metered.\<close>

abbreviation spin_module :: wasm_module where
  "spin_module \<equiv> demo_module [FuncImport ([], [])]
     [demo_func [] [], demo_func [] [LoopExpr (0, 0) [BrExpr 0]]]"

theorem metered_calls_end_witness:
  "\<exists>M' r. inject_meter named_injector spin_module = Some (Success M')
     \<and> invoke demo_machine named_injector M' 8 2 (demo_state [VI64 7]) = Some r"
proof -
  have "\<exists>M'. inject_meter named_injector spin_module = Some (Success M')"
    by (simp add: inject_meter_def demo_module_def demo_import_def demo_func_def
      find_gas_function_def is_out_of_gas_def import_out_of_gas_def add_out_of_gas_type_def
      import_gas_global_def limit_memory_def inject_func_def inject_exprs_rewrite Let_def)
  then obtain M' where M': "inject_meter named_injector spin_module = Some (Success M')" by blast
  have "function_imports_only spin_module" "prices_in_range named_injector spin_module"
    by (simp_all add: function_imports_only_def prices_in_range_def demo_module_def
        demo_import_def demo_func_def instr_cost_def)
  from metered_calls_end [OF M' this two_module_hyps(3) named_injector_listed, of "demo_state [VI64 7]" 7 "[]" 2]
  show ?thesis using M' by (auto simp: demo_state_def)
qed

text \<open>Without metering it does not: no fuel is enough.\<close>

lemma spin_does_not_stop: "run P J M n [LoopExpr (0, 0) [BrExpr 0]] s = None"
proof -
  have "exec P J M n (LoopExpr (0, 0) [BrExpr 0]) s = None" for s
    by (induction n arbitrary: s) (simp_all add: simple_def)
  then show ?thesis by simp
qed

text \<open>The pass counts every import as a function.  With a memory import besides one function import,
  the first defined function, number 1, counts as imported: a call of it is left at index 1, which
  after the pass is the new import \<open>outOfGas\<close>.  The start function is not renumbered in any case.\<close>

theorem call_misdirected_by_memory_import:
  "\<exists>M'. inject_meter named_injector
      (demo_module [FuncImport ([], []), MemoryImport]
        [demo_func [] [], demo_func [] [NopExpr], demo_func [] [CallExpr 1]]) = Some (Success M')
    \<and> func_at M' 1 = Some (Host MODULE_NAME OUT_OF_GAS_NAME ([], []))
    \<and> CallExpr 1 \<in> set (fn_exprs (defined_funcs M' ! 1))
    \<and> md_starts M' = [1]"
  by (simp add: inject_meter_def demo_module_def demo_import_def demo_func_def
      find_gas_function_def is_out_of_gas_def import_out_of_gas_def add_out_of_gas_type_def
      import_gas_global_def limit_memory_def inject_func_def inject_exprs_rewrite Let_def
      func_at_def func_imports_def defined_funcs_def metered_def shift_call_def
      MODULE_NAME_def)

text \<open>So \<open>metered_calls_end\<close> needs its condition on the imports.  With a memory import, the inserted code
  calls the first defined function in place of \<open>outOfGas\<close>, and a loop goes on when the gas is used up.\<close>

abbreviation spin_memory_module :: wasm_module where
  "spin_memory_module \<equiv> demo_module [FuncImport ([], []), MemoryImport]
     [demo_func [] [], demo_func [] [], demo_func [] [LoopExpr (0, 0) [BrExpr 0]]]"

lemma spin_body:
  assumes "func_at M' (gas_func_index info) = Some (Defined (demo_func [] []))" and "global_gas_index info = 0"
    and "ws_globals s = VI64 g # gs" and "ws_stack s = []"
  shows "run P J M' n (use_gas info 2 @ [BrExpr 0]) s = None \<or>
    (\<exists>s1 c. run P J M' n (use_gas info 2 @ [BrExpr 0]) s = Some (Branch 0, s1, c)
       \<and> ws_globals s1 = VI64 (g - 2) # gs)"
  using assms
  by (cases n) (auto simp: use_gas_def sub_and_check_def simple_def leave_block_def leave_func_def
      enter_func_def demo_func_def add_cost_def)

lemma spins_without_gas:
  assumes "func_at M' (gas_func_index info) = Some (Defined (demo_func [] []))" and "global_gas_index info = 0"
    and "ws_globals s = VI64 g # gs" and "ws_stack s = []"
  shows "exec P J M' n (LoopExpr (0, 0) (use_gas info 2 @ [BrExpr 0])) s = None"
  using assms(3,4)
proof (induction n arbitrary: s g)
  case 0
  then show ?case using spin_body [OF assms(1,2) 0, of P J 0] by auto
next
  case (Suc n)
  from spin_body [OF assms(1,2) Suc.prems, of P J "Suc n"] show ?case
  proof (elim disjE exE conjE)
    fix s1 c
    assume "run P J M' (Suc n) (use_gas info 2 @ [BrExpr 0]) s = Some (Branch 0, s1, c)"
      "ws_globals s1 = VI64 (g - 2) # gs"
    then show ?case using Suc.IH [of "s1\<lparr>ws_stack := []\<rparr>"] Suc.prems(2) by simp
  qed simp
qed

theorem memory_import_spins:
  "\<exists>M'. inject_meter named_injector spin_memory_module = Some (Success M')
     \<and> (\<forall>n g. invoke demo_machine named_injector M' n 3 (demo_state [VI64 g]) = None)"
proof -
  let ?info = "meter_info spin_memory_module"
  have "\<exists>M'. inject_meter named_injector spin_memory_module = Some (Success M')
    \<and> func_at M' 2 = Some (Defined (demo_func [] []))
    \<and> (\<exists>ext. func_at M' 3 = Some (Defined ((demo_func []
        [LoopExpr (0, 0) (use_gas ?info 2 @ [BrExpr 0])])\<lparr>fn_locals := ext\<rparr>)))"
    by (simp add: inject_meter_def demo_module_def demo_import_def demo_func_def
      find_gas_function_def is_out_of_gas_def import_out_of_gas_def add_out_of_gas_type_def
      import_gas_global_def limit_memory_def inject_func_def inject_exprs_rewrite Let_def
      func_at_def func_imports_def defined_funcs_def MODULE_NAME_def metered_def instr_cost_def meter_info_def
      numeral_2_eq_2)
  then obtain M' ext where M': "inject_meter named_injector spin_memory_module = Some (Success M')"
    and idle: "func_at M' 2 = Some (Defined (demo_func [] []))"
    and spin: "func_at M' 3 = Some (Defined ((demo_func []
        [LoopExpr (0, 0) (use_gas ?info 2 @ [BrExpr 0])])\<lparr>fn_locals := ext\<rparr>))"
    by blast
  have "gas_func_index ?info = 2"
    by (simp add: demo_module_def demo_import_def find_gas_function_def is_out_of_gas_def MODULE_NAME_def)
  note s = spins_without_gas [of M' ?info, unfolded this, OF idle meter_info_simps(3)]
  have "invoke demo_machine named_injector M' n 3 (demo_state [VI64 g]) = None" for n g
  proof (cases n)
    case (Suc k)
    let ?f = "(demo_func [] [LoopExpr (0, 0) (use_gas ?info 2 @ [BrExpr 0])])\<lparr>fn_locals := ext\<rparr>"
    have "exec demo_machine named_injector M' k (LoopExpr (0, 0) (use_gas ?info 2 @ [BrExpr 0]))
        (enter_func ?f (demo_state [VI64 g])) = None"
      by (rule s) (simp_all add: enter_func_def demo_state_def)
    then have "run demo_machine named_injector M' k [LoopExpr (0, 0) (use_gas ?info 2 @ [BrExpr 0])]
        (enter_func ?f (demo_state [VI64 g])) = None"
      by (simp only: run.simps option.case)
    moreover have "fn_exprs ?f = [LoopExpr (0, 0) (use_gas ?info 2 @ [BrExpr 0])]" by (simp add: demo_func_def)
    ultimately show ?thesis
      using Suc by (simp only: invoke.simps spin option.case callee.case nat.case option.map)
  qed (simp add: spin)
  then show ?thesis using M' by blast
qed

end
