(* ===== verification/ClockCache.thy ===== *)
theory ClockCache imports Prelude begin

unbundle bit_operations_syntax

text \<open>
  The cache of ABI descriptions, \<open>src/dag/ClockCache.h\<close> and \<open>src/dag/ClockCache.cpp\<close>: a shard of a
  CLOCK cache whose entries carry an atomic word of flags and a reference count.

  Threads interleave at the atomic operations of the source: \<open>find\<close> in the concurrent table, the
  compare-and-swap of \<open>ref\<close>, \<open>fetch_or\<close> and \<open>fetch_sub\<close> of \<open>unref\<close>, one iteration of the loop of
  \<open>evictFromCache\<close>, and the sections that run to their end under the mutex without touching the
  flags of entries that other threads can still reach.  A thread works on one handle at a time, as
  \<open>dagExecuteTransactionsForWasm\<close> does.
\<close>

section \<open>Entries and their flags\<close>

record 'v cache_item =
  ci_hash :: u64
  ci_value :: 'v
  ci_flags :: u32

definition in_cache :: "u32 \<Rightarrow> bool" where
  "in_cache fl \<longleftrightarrow> fl AND 1 \<noteq> 0"

definition ref_counts :: "u32 \<Rightarrow> u32" where
  "ref_counts fl = drop_bit 2 fl"

abbreviation in_cache_bit :: u32 where "in_cache_bit \<equiv> 1"
abbreviation usage_bit :: u32 where "usage_bit \<equiv> 2"
abbreviation one_ref :: u32 where "one_ref \<equiv> 4"

text \<open>The shard; entries are named by their position in \<open>m_list\<close>.  The table is keyed by
  \<open>uint32_t\<close>, so a hash is truncated.  \<open>cs_deleted\<close> logs the calls of \<open>m_deleter\<close>.\<close>

record 'v cache_shard =
  cs_list :: "'v cache_item list"
  cs_head :: nat
  cs_recycle :: "nat list"
  cs_capacity :: nat
  cs_usage :: nat
  cs_table :: "u32 \<Rightarrow> nat option"
  cs_deleted :: "'v list"

definition flags_of :: "nat \<Rightarrow> 'v cache_shard \<Rightarrow> u32" where
  "flags_of i s = ci_flags (cs_list s ! i)"

definition set_flags :: "nat \<Rightarrow> u32 \<Rightarrow> 'v cache_shard \<Rightarrow> 'v cache_shard" where
  "set_flags i fl s = s\<lparr>cs_list := (cs_list s)[i := (cs_list s ! i)\<lparr>ci_flags := fl\<rparr>]\<rparr>"

section \<open>Sections under the mutex\<close>

definition recycle_item :: "nat \<Rightarrow> 'v cache_shard \<Rightarrow> 'v cache_shard" where
  "recycle_item i s =
     s\<lparr>cs_deleted := cs_deleted s @ [ci_value (cs_list s ! i)],
       cs_recycle := cs_recycle s @ [i],
       cs_usage := cs_usage s - 1\<rparr>"

definition unset_in_cache :: "nat \<Rightarrow> 'v cache_shard \<Rightarrow> 'v cache_shard" where
  "unset_in_cache i s =
     (let fl = flags_of i s; s1 = set_flags i (fl AND NOT in_cache_bit) s
      in if in_cache fl \<and> ref_counts fl = 0 then recycle_item i s1 else s1)"

definition table_key :: "u64 \<Rightarrow> u32" where
  "table_key h = ucast h"

definition try_evict :: "nat \<Rightarrow> 'v cache_shard \<Rightarrow> bool \<times> 'v cache_shard" where
  "try_evict i s =
     (if flags_of i s = in_cache_bit
      then (True, recycle_item i
             ((set_flags i 0 s)\<lparr>cs_table := (cs_table s)(table_key (ci_hash (cs_list s ! i)) := None)\<rparr>))
      else (False, set_flags i (flags_of i s AND NOT usage_bit) s))"

text \<open>The slot for a new entry: the back of the recycle bin, or a new one at the end.\<close>

definition take_slot :: "'v cache_item \<Rightarrow> 'v cache_shard \<Rightarrow> nat \<times> 'v cache_shard" where
  "take_slot x s =
     (if cs_recycle s \<noteq> []
      then (last (cs_recycle s),
            s\<lparr>cs_list := (cs_list s)[last (cs_recycle s) := x], cs_recycle := butlast (cs_recycle s)\<rparr>)
      else (length (cs_list s), s\<lparr>cs_list := cs_list s @ [x]\<rparr>))"

definition insert_item :: "u64 \<Rightarrow> 'v \<Rightarrow> bool \<Rightarrow> 'v cache_shard \<Rightarrow> nat \<times> 'v cache_shard" where
  "insert_item h v holdReference s =
     (let x = \<lparr>ci_hash = h, ci_value = v,
               ci_flags = (if holdReference then in_cache_bit + one_ref else in_cache_bit)\<rparr>;
          (i, s1) = take_slot x s;
          s2 = (case cs_table s1 (table_key h) of
                  Some j \<Rightarrow> unset_in_cache j (s1\<lparr>cs_table := (cs_table s1)(table_key h := None)\<rparr>)
                | None \<Rightarrow> s1)
      in (i, s2\<lparr>cs_table := (cs_table s2)(table_key h := Some i), cs_usage := cs_usage s2 + 1\<rparr>))"

section \<open>Threads\<close>

text \<open>Where a thread stands: in \<open>lookup\<close> after \<open>find\<close> (\<open>Found\<close>) and after \<open>ref\<close> (\<open>Reffed\<close>); with a
  handle (\<open>Holding\<close>); in \<open>unref\<close> before \<open>fetch_sub\<close> (\<open>Dropping\<close>) and waiting for the mutex to recycle
  (\<open>LastRef\<close>); in \<open>insert\<close>, inside the loop of \<open>evictFromCache\<close> with \<open>newHead\<close> and
  \<open>is2ndIteration\<close>.\<close>

datatype 'v cache_pc =
    Idle
  | Found nat u64
  | Reffed nat u64
  | Holding nat u64
  | Dropping nat
  | LastRef nat
  | Evicting u64 'v bool nat bool

record 'v cache_sys =
  cy_shard :: "'v cache_shard"
  cy_pcs :: "'v cache_pc list"
  cy_lock :: "nat option"
  cy_inserted :: "(u64 \<times> 'v) list"

definition goto :: "nat \<Rightarrow> 'v cache_pc \<Rightarrow> 'v cache_sys \<Rightarrow> 'v cache_sys" where
  "goto t p y = y\<lparr>cy_pcs := (cy_pcs y)[t := p]\<rparr>"

definition next_slot :: "'v cache_shard \<Rightarrow> nat \<Rightarrow> nat" where
  "next_slot s newHead = (if newHead + 1 \<ge> length (cs_list s) then 0 else newHead + 1)"

text \<open>One iteration of the loop of \<open>evictFromCache\<close>; \<open>None\<close> when it gives up.\<close>

definition evict_once ::
  "nat \<Rightarrow> bool \<Rightarrow> 'v cache_shard \<Rightarrow> (nat \<times> bool) option \<times> 'v cache_shard" where
  "evict_once newHead is2nd s =
     (let (evicted, s1) = try_evict newHead s; h1 = next_slot s newHead
      in if evicted then (Some (h1, is2nd), s1)
         else if h1 = cs_head s then (if is2nd then (None, s1) else (Some (h1, True), s1))
         else (Some (h1, is2nd), s1))"

inductive cache_step :: "'v cache_sys \<Rightarrow> 'v cache_sys \<Rightarrow> bool" where
  start_insert: "t < length (cy_pcs y) \<Longrightarrow> cy_pcs y ! t = Idle \<Longrightarrow> cy_lock y = None \<Longrightarrow>
     cache_step y (goto t (Evicting h v hold (cs_head (cy_shard y)) False) (y\<lparr>cy_lock := Some t\<rparr>))"
| evict: "t < length (cy_pcs y) \<Longrightarrow> cy_pcs y ! t = Evicting h v hold k second \<Longrightarrow>
     cs_usage (cy_shard y) \<ge> cs_capacity (cy_shard y) \<Longrightarrow>
     evict_once k second (cy_shard y) = (Some (k', second'), s1) \<Longrightarrow>
     cache_step y (goto t (Evicting h v hold k' second') (y\<lparr>cy_shard := s1\<rparr>))"
| evict_fails: "t < length (cy_pcs y) \<Longrightarrow> cy_pcs y ! t = Evicting h v hold k second \<Longrightarrow>
     cs_usage (cy_shard y) \<ge> cs_capacity (cy_shard y) \<Longrightarrow>
     evict_once k second (cy_shard y) = (None, s1) \<Longrightarrow>
     cache_step y (goto t Idle (y\<lparr>cy_shard := s1, cy_lock := None\<rparr>))"
| do_insert: "t < length (cy_pcs y) \<Longrightarrow> cy_pcs y ! t = Evicting h v hold k second \<Longrightarrow>
     cs_usage (cy_shard y) < cs_capacity (cy_shard y) \<Longrightarrow>
     insert_item h v hold ((cy_shard y)\<lparr>cs_head := k\<rparr>) = (i, s1) \<Longrightarrow>
     cache_step y (goto t (if hold then Holding i h else Idle)
       (y\<lparr>cy_shard := s1, cy_lock := None, cy_inserted := cy_inserted y @ [(h, v)]\<rparr>))"
| find: "t < length (cy_pcs y) \<Longrightarrow> cy_pcs y ! t = Idle \<Longrightarrow>
     cs_table (cy_shard y) (table_key h) = Some i \<Longrightarrow> cache_step y (goto t (Found i h) y)"
| ref: "t < length (cy_pcs y) \<Longrightarrow> cy_pcs y ! t = Found i h \<Longrightarrow> fl = flags_of i (cy_shard y) \<Longrightarrow>
     in_cache fl \<Longrightarrow>
     cache_step y (goto t (Reffed i h) (y\<lparr>cy_shard := set_flags i (fl + one_ref) (cy_shard y)\<rparr>))"
| ref_fails: "t < length (cy_pcs y) \<Longrightarrow> cy_pcs y ! t = Found i h \<Longrightarrow>
     \<not> in_cache (flags_of i (cy_shard y)) \<Longrightarrow> cache_step y (goto t Idle y)"
| same_key: "t < length (cy_pcs y) \<Longrightarrow> cy_pcs y ! t = Reffed i h \<Longrightarrow>
     ci_hash (cs_list (cy_shard y) ! i) = h \<Longrightarrow> cache_step y (goto t (Holding i h) y)"
| other_key: "t < length (cy_pcs y) \<Longrightarrow> cy_pcs y ! t = Reffed i h \<Longrightarrow>
     ci_hash (cs_list (cy_shard y) ! i) \<noteq> h \<Longrightarrow> cache_step y (goto t (Dropping i) y)"
| release: "t < length (cy_pcs y) \<Longrightarrow> cy_pcs y ! t = Holding i h \<Longrightarrow>
     cache_step y (goto t (Dropping i)
       (y\<lparr>cy_shard := set_flags i (flags_of i (cy_shard y) OR usage_bit) (cy_shard y)\<rparr>))"
| drop_ref: "t < length (cy_pcs y) \<Longrightarrow> cy_pcs y ! t = Dropping i \<Longrightarrow> fl = flags_of i (cy_shard y) \<Longrightarrow>
     cache_step y (goto t (if ref_counts fl = 1 \<and> \<not> in_cache fl then LastRef i else Idle)
       (y\<lparr>cy_shard := set_flags i (fl - one_ref) (cy_shard y)\<rparr>))"
| recycle: "t < length (cy_pcs y) \<Longrightarrow> cy_pcs y ! t = LastRef i \<Longrightarrow> cy_lock y = None \<Longrightarrow>
     cache_step y (goto t Idle (y\<lparr>cy_shard := recycle_item i (cy_shard y)\<rparr>))"

definition empty_shard :: "nat \<Rightarrow> 'v cache_shard" where
  "empty_shard capacity = \<lparr>cs_list = [], cs_head = 0, cs_recycle = [], cs_capacity = capacity,
     cs_usage = 0, cs_table = (\<lambda>_. None), cs_deleted = []\<rparr>"

definition cache_init :: "nat \<Rightarrow> nat \<Rightarrow> 'v cache_sys" where
  "cache_init capacity threads =
     \<lparr>cy_shard = empty_shard capacity, cy_pcs = replicate threads Idle, cy_lock = None, cy_inserted = []\<rparr>"

inductive cache_reachable :: "nat \<Rightarrow> nat \<Rightarrow> 'v cache_sys \<Rightarrow> bool" for capacity threads where
  "cache_reachable capacity threads (cache_init capacity threads)"
| "cache_reachable capacity threads y \<Longrightarrow> cache_step y y' \<Longrightarrow> cache_reachable capacity threads y'"

text \<open>What the destructor deletes.\<close>

definition destroy_shard :: "'v cache_shard \<Rightarrow> 'v list" where
  "destroy_shard s = cs_deleted s
     @ map ci_value (filter (\<lambda>x. in_cache (ci_flags x) \<or> ref_counts (ci_flags x) > 0) (cs_list s))"

section \<open>The shards of the cache\<close>

definition shard_of :: "nat \<Rightarrow> u64 \<Rightarrow> nat" where
  "shard_of numShardBits h = unat (h AND (push_bit numShardBits 1 - 1))"

end
