(* ===== verification/ClockCacheSpec.thy ===== *)
theory ClockCacheSpec imports ClockCache begin

unbundle bit_operations_syntax

text \<open>
  The invariant of a shard of the cache, for any number of threads and any interleaving: every entry
  is in exactly one of the recycle bin, the hands of the last user, or use; the reference count is
  the number of threads that use the entry; values are deleted once and never while in use.
\<close>

section \<open>Flag arithmetic\<close>

definition refs_in :: "u32 \<Rightarrow> nat" where
  "refs_in fl = unat (ref_counts fl)"

lemma in_cache_odd: "in_cache fl \<longleftrightarrow> odd fl"
  by (simp add: in_cache_def and_one_eq mod2_eq_if)

lemma refs_in_div: "refs_in fl = unat fl div 4"
  by (simp add: refs_in_def ref_counts_def drop_bit_eq_div unat_div)

lemma ref_counts_eq:
  "ref_counts fl = 0 \<longleftrightarrow> refs_in fl = 0" "ref_counts fl = 1 \<longleftrightarrow> refs_in fl = 1"
  using word_unat_eq_iff [of "ref_counts fl" 0] word_unat_eq_iff [of "ref_counts fl" 1]
  by (simp_all add: refs_in_def)

lemma flags_or:
  "in_cache (fl OR usage_bit) = in_cache fl" "refs_in (fl OR usage_bit) = refs_in fl"
  by (simp_all add: in_cache_odd even_or_iff refs_in_def ref_counts_def drop_bit_or)

lemma drop_clear_bit: "k < 2 \<Longrightarrow> drop_bit 2 (fl AND NOT (push_bit k 1)) = drop_bit 2 (fl :: u32)"
  by (rule bit_eqI) (auto simp: bit_simps bit_1_iff dest: bit_imp_le_length)

lemma flags_clear_usage:
  "in_cache (fl AND NOT usage_bit) = in_cache fl" "refs_in (fl AND NOT usage_bit) = refs_in fl"
proof -
  show "in_cache (fl AND NOT usage_bit) = in_cache fl" by (simp add: in_cache_odd even_and_iff)
  from drop_clear_bit [of 1 fl] show "refs_in (fl AND NOT usage_bit) = refs_in fl" by (simp add: refs_in_def ref_counts_def)
qed

lemma flags_clear_in_cache:
  "\<not> in_cache (fl AND NOT in_cache_bit)" "refs_in (fl AND NOT in_cache_bit) = refs_in fl"
proof -
  show "\<not> in_cache (fl AND NOT in_cache_bit)" by (simp add: in_cache_odd even_and_iff)
  from drop_clear_bit [of 0 fl] show "refs_in (fl AND NOT in_cache_bit) = refs_in fl" by (simp add: refs_in_def ref_counts_def)
qed

lemma flags_add_ref:
  assumes "refs_in fl < 2 ^ 30 - 1"
  shows "in_cache (fl + one_ref) = in_cache fl" "refs_in (fl + one_ref) = refs_in fl + 1"
proof -
  have "unat fl + 4 < 2 ^ 32" using assms by (simp add: refs_in_div)
  then have "unat (fl + 4) = unat fl + 4" by (simp add: unat_add_lem [THEN iffD1])
  then show "refs_in (fl + one_ref) = refs_in fl + 1" by (simp add: refs_in_div)
  show "in_cache (fl + one_ref) = in_cache fl" by (simp add: in_cache_odd)
qed

lemma flags_sub_ref:
  assumes "0 < refs_in fl"
  shows "in_cache (fl - one_ref) = in_cache fl" "refs_in (fl - one_ref) = refs_in fl - 1"
proof -
  have "4 \<le> unat fl" using assms by (simp add: refs_in_div)
  then have "unat (fl - 4) = unat fl - 4" by (simp add: unat_sub word_le_nat_alt)
  then show "refs_in (fl - one_ref) = refs_in fl - 1" by (simp add: refs_in_div)
  show "in_cache (fl - one_ref) = in_cache fl" by (simp add: in_cache_odd)
qed

lemma flags_constants:
  "in_cache in_cache_bit" "refs_in in_cache_bit = 0" "in_cache (in_cache_bit + one_ref)"
  "refs_in (in_cache_bit + one_ref) = 1" "\<not> in_cache 0" "refs_in 0 = 0"
  by (simp_all add: in_cache_odd refs_in_div)

section \<open>Who uses an entry\<close>

definition uses :: "nat \<Rightarrow> 'v cache_pc \<Rightarrow> nat" where
  "uses i p = (case p of Reffed j _ \<Rightarrow> if j = i then 1 else 0
     | Holding j _ \<Rightarrow> if j = i then 1 else 0
     | Dropping j \<Rightarrow> if j = i then 1 else 0 | _ \<Rightarrow> 0)"

definition recycles :: "nat \<Rightarrow> 'v cache_pc \<Rightarrow> nat" where
  "recycles i p = (case p of LastRef j \<Rightarrow> if j = i then 1 else 0 | _ \<Rightarrow> 0)"

definition users :: "nat \<Rightarrow> 'v cache_pc list \<Rightarrow> nat" where
  "users i ps = sum_list (map (uses i) ps)"

definition recyclers :: "nat \<Rightarrow> 'v cache_pc list \<Rightarrow> nat" where
  "recyclers i ps = sum_list (map (recycles i) ps)"

lemma users_update:
  "t < length ps \<Longrightarrow> users i (ps[t := p]) + uses i (ps ! t) = users i ps + uses i p"
  by (simp add: users_def sum_list_map_update)

lemma recyclers_update:
  "t < length ps \<Longrightarrow> recyclers i (ps[t := p]) + recycles i (ps ! t) = recyclers i ps + recycles i p"
  by (simp add: recyclers_def sum_list_map_update)

lemma uses_le: "t < length ps \<Longrightarrow> uses i (ps ! t) \<le> users i ps"
  by (simp add: users_def sum_list_map_ge)

lemma users_le: "users i ps \<le> length ps"
  unfolding users_def
  by (induction ps) (auto simp: uses_def split: cache_pc.split)


section \<open>The invariant of a shard\<close>

text \<open>\<open>u i\<close> threads use entry \<open>i\<close> and \<open>r i\<close> are about to recycle it; \<open>x\<close> is a slot that is filled but
  not in the table yet.\<close>

definition live_values :: "'v cache_shard \<Rightarrow> 'v multiset" where
  "live_values s = image_mset (\<lambda>i. ci_value (cs_list s ! i))
     (mset_set ({..<length (cs_list s)} - set (cs_recycle s)))"

definition item_ok :: "'v cache_shard \<Rightarrow> (nat \<Rightarrow> nat) \<Rightarrow> (nat \<Rightarrow> nat) \<Rightarrow> nat option \<Rightarrow> nat \<Rightarrow> bool" where
  "item_ok s u r x i \<longleftrightarrow>
     (let fl = flags_of i s
      in refs_in fl = u i \<and> r i \<le> 1
         \<and> (in_cache fl \<longrightarrow> cs_table s (table_key (ci_hash (cs_list s ! i))) = Some i \<or> x = Some i)
         \<and> (i \<in> set (cs_recycle s) \<longleftrightarrow> \<not> in_cache fl \<and> u i = 0 \<and> r i = 0)
         \<and> (0 < r i \<longrightarrow> \<not> in_cache fl \<and> u i = 0))"

definition shard_inv ::
  "'v cache_shard \<Rightarrow> (nat \<Rightarrow> nat) \<Rightarrow> (nat \<Rightarrow> nat) \<Rightarrow> nat option \<Rightarrow> (u64 \<times> 'v) list \<Rightarrow> bool" where
  "shard_inv s u r x ins \<longleftrightarrow>
     (\<forall>i < length (cs_list s). item_ok s u r x i)
     \<and> (\<forall>k i. cs_table s k = Some i \<longrightarrow> i < length (cs_list s) \<and> in_cache (flags_of i s)
          \<and> table_key (ci_hash (cs_list s ! i)) = k \<and> x \<noteq> Some i)
     \<and> distinct (cs_recycle s) \<and> set (cs_recycle s) \<subseteq> {..<length (cs_list s)}
     \<and> cs_usage s + length (cs_recycle s) + (if x = None then 0 else 1) = length (cs_list s)
     \<and> mset (map snd ins) = mset (cs_deleted s) + live_values s
     \<and> (\<forall>i < length (cs_list s). i \<notin> set (cs_recycle s) \<longrightarrow>
          (ci_hash (cs_list s ! i), ci_value (cs_list s ! i)) \<in> set ins)"

lemma set_flags_simps [simp]:
  "length (cs_list (set_flags i fl s)) = length (cs_list s)"
  "cs_recycle (set_flags i fl s) = cs_recycle s" "cs_table (set_flags i fl s) = cs_table s"
  "cs_usage (set_flags i fl s) = cs_usage s" "cs_deleted (set_flags i fl s) = cs_deleted s"
  "cs_capacity (set_flags i fl s) = cs_capacity s" "cs_head (set_flags i fl s) = cs_head s"
  by (simp_all add: set_flags_def)

lemma update_field: "f x = f (xs ! i) \<Longrightarrow> f ((xs[i := x]) ! j) = f (xs ! j)"
  by (cases "j = i"; cases "i < length xs"; simp add: list_update_beyond)

lemma set_flags_fields [simp]:
  "ci_hash (cs_list (set_flags i fl s) ! j) = ci_hash (cs_list s ! j)"
  "ci_value (cs_list (set_flags i fl s) ! j) = ci_value (cs_list s ! j)"
  by (simp_all add: set_flags_def update_field)

lemma flags_of_set [simp]:
  "i < length (cs_list s) \<Longrightarrow> flags_of j (set_flags i fl s) = (if j = i then fl else flags_of j s)"
  by (simp add: set_flags_def flags_of_def nth_list_update)

lemma flags_of_update [simp]:
  "flags_of j (s\<lparr>cs_table := tb\<rparr>) = flags_of j s" "flags_of j (s\<lparr>cs_usage := n\<rparr>) = flags_of j s"
  "flags_of j (s\<lparr>cs_head := n\<rparr>) = flags_of j s"
  by (simp_all add: flags_of_def)

lemma live_values_update [simp]:
  "live_values (s\<lparr>cs_table := tb\<rparr>) = live_values s" "live_values (s\<lparr>cs_usage := n\<rparr>) = live_values s"
  "live_values (s\<lparr>cs_head := n\<rparr>) = live_values s"
  by (simp_all add: live_values_def)

lemma live_values_set_flags [simp]: "live_values (set_flags i fl s) = live_values s"
  by (simp add: live_values_def)

lemma recycle_item_simps [simp]:
  "cs_list (recycle_item i s) = cs_list s" "cs_table (recycle_item i s) = cs_table s"
  "cs_recycle (recycle_item i s) = cs_recycle s @ [i]" "cs_usage (recycle_item i s) = cs_usage s - 1"
  "cs_deleted (recycle_item i s) = cs_deleted s @ [ci_value (cs_list s ! i)]"
  "cs_capacity (recycle_item i s) = cs_capacity s" "cs_head (recycle_item i s) = cs_head s"
  "flags_of j (recycle_item i s) = flags_of j s"
  by (simp_all add: recycle_item_def flags_of_def)

lemma live_values_recycle:
  assumes "i < length (cs_list s)" and "i \<notin> set (cs_recycle s)"
  shows "live_values s = add_mset (ci_value (cs_list s ! i)) (live_values (recycle_item i s))"
proof -
  let ?B = "{..<length (cs_list s)} - set (cs_recycle s @ [i])"
  have eq: "{..<length (cs_list s)} - set (cs_recycle s) = insert i ?B"
  proof (rule set_eqI)
    fix j
    show "j \<in> {..<length (cs_list s)} - set (cs_recycle s) \<longleftrightarrow> j \<in> insert i ?B"
      using assms by (cases "j = i") simp_all
  qed
  have "mset_set (insert i ?B) = add_mset i (mset_set ?B)" by (rule mset_set.insert) simp_all
  then show ?thesis by (simp only: live_values_def recycle_item_simps eq image_mset_add_mset)
qed

lemmas flags_clear = flags_clear_usage [simplified] flags_clear_in_cache [simplified]

lemma item_okI:
  assumes "refs_in (flags_of i s) = u i" and "r i \<le> 1"
    and "in_cache (flags_of i s) \<Longrightarrow> cs_table s (table_key (ci_hash (cs_list s ! i))) = Some i \<or> x = Some i"
    and "i \<in> set (cs_recycle s) \<longleftrightarrow> \<not> in_cache (flags_of i s) \<and> u i = 0 \<and> r i = 0"
    and "0 < r i \<Longrightarrow> \<not> in_cache (flags_of i s) \<and> u i = 0"
  shows "item_ok s u r x i"
  using assms by (simp add: item_ok_def)

lemma item_okD:
  assumes "item_ok s u r x i"
  shows "refs_in (flags_of i s) = u i" "r i \<le> 1"
    "in_cache (flags_of i s) \<Longrightarrow> cs_table s (table_key (ci_hash (cs_list s ! i))) = Some i \<or> x = Some i"
    "i \<in> set (cs_recycle s) \<longleftrightarrow> \<not> in_cache (flags_of i s) \<and> u i = 0 \<and> r i = 0"
    "0 < r i \<Longrightarrow> \<not> in_cache (flags_of i s) \<and> u i = 0"
  using assms by (simp_all add: item_ok_def Let_def)

lemma shard_inv_item_ok: "shard_inv s u r x ins \<Longrightarrow> i < length (cs_list s) \<Longrightarrow> item_ok s u r x i"
  by (simp add: shard_inv_def)

lemmas shard_inv_item = item_okD [OF shard_inv_item_ok]

lemma shard_invD:
  assumes "shard_inv s u r x ins"
  shows "cs_table s k = Some i \<Longrightarrow> i < length (cs_list s) \<and> in_cache (flags_of i s)
          \<and> table_key (ci_hash (cs_list s ! i)) = k \<and> x \<noteq> Some i"
    and "distinct (cs_recycle s)" and "i \<in> set (cs_recycle s) \<Longrightarrow> i < length (cs_list s)"
    and "cs_usage s + length (cs_recycle s) + (if x = None then 0 else 1) = length (cs_list s)"
    and "mset (map snd ins) = mset (cs_deleted s) + live_values s"
    and "i < length (cs_list s) \<Longrightarrow> i \<notin> set (cs_recycle s) \<Longrightarrow>
          (ci_hash (cs_list s ! i), ci_value (cs_list s ! i)) \<in> set ins"
  using assms by (auto simp: shard_inv_def)

lemma shard_invI:
  assumes "\<And>i. i < length (cs_list s) \<Longrightarrow> item_ok s u r x i"
    and "\<And>k i. cs_table s k = Some i \<Longrightarrow> i < length (cs_list s) \<and> in_cache (flags_of i s)
          \<and> table_key (ci_hash (cs_list s ! i)) = k \<and> x \<noteq> Some i"
    and "distinct (cs_recycle s)" and "\<And>i. i \<in> set (cs_recycle s) \<Longrightarrow> i < length (cs_list s)"
    and "cs_usage s + length (cs_recycle s) + (if x = None then 0 else 1) = length (cs_list s)"
    and "mset (map snd ins) = mset (cs_deleted s) + live_values s"
    and "\<And>i. i < length (cs_list s) \<Longrightarrow> i \<notin> set (cs_recycle s) \<Longrightarrow>
          (ci_hash (cs_list s ! i), ci_value (cs_list s ! i)) \<in> set ins"
  shows "shard_inv s u r x ins"
  using assms by (auto simp: shard_inv_def)

text \<open>Flags change, entries and table stay.\<close>

lemma shard_inv_flags:
  assumes inv: "shard_inv s u r x ins" and i: "i < length (cs_list s)"
    and ok: "in_cache fl = in_cache (flags_of i s)" "refs_in fl = u' i" "r' i \<le> 1"
      "i \<in> set (cs_recycle s) \<longleftrightarrow> \<not> in_cache fl \<and> u' i = 0 \<and> r' i = 0"
      "0 < r' i \<Longrightarrow> \<not> in_cache fl \<and> u' i = 0"
    and other: "\<And>j. j \<noteq> i \<Longrightarrow> u' j = u j" "\<And>j. j \<noteq> i \<Longrightarrow> r' j = r j"
  shows "shard_inv (set_flags i fl s) u' r' x ins"
proof (rule shard_invI)
  fix j
  assume "j < length (cs_list (set_flags i fl s))"
  then have j: "j < length (cs_list s)" by simp
  note it = shard_inv_item [OF inv j]
  show "item_ok (set_flags i fl s) u' r' x j"
    by (rule item_okI) (use it i ok other [of j] in \<open>cases "j = i"; simp\<close>)+
next
  fix k j
  assume "cs_table (set_flags i fl s) k = Some j"
  with shard_invD(1) [OF inv, of k j] i ok(1)
  show "j < length (cs_list (set_flags i fl s)) \<and> in_cache (flags_of j (set_flags i fl s))
      \<and> table_key (ci_hash (cs_list (set_flags i fl s) ! j)) = k \<and> x \<noteq> Some j" by auto
qed (use shard_invD(2-6) [OF inv] in simp_all)

lemma shard_inv_ref:
  assumes "shard_inv s u r x ins" and "i < length (cs_list s)" and "in_cache (flags_of i s)"
    and "u i < 2 ^ 30 - 1"
  shows "shard_inv (set_flags i (flags_of i s + one_ref) s) (u(i := u i + 1)) r x ins"
proof -
  note it = shard_inv_item [OF assms(1,2)]
  have "refs_in (flags_of i s) < 2 ^ 30 - 1" using it(1) assms(4) by simp
  from flags_add_ref [OF this] it assms(3) show ?thesis
    by (intro shard_inv_flags [OF assms(1,2)]) auto
qed

lemma shard_inv_usage:
  assumes "shard_inv s u r x ins" and "i < length (cs_list s)"
  shows "shard_inv (set_flags i (flags_of i s OR usage_bit) s) u r x ins"
    and "shard_inv (set_flags i (flags_of i s AND NOT usage_bit) s) u r x ins"
  using shard_inv_item [OF assms]
  by (intro shard_inv_flags [OF assms]; simp add: flags_or flags_clear)+

lemma shard_inv_drop:
  assumes "shard_inv s u r x ins" and "i < length (cs_list s)" and "0 < u i"
  shows "shard_inv (set_flags i (flags_of i s - one_ref) s) (u(i := u i - 1))
    (if ref_counts (flags_of i s) = 1 \<and> \<not> in_cache (flags_of i s) then r(i := 1) else r) x ins"
proof -
  note it = shard_inv_item [OF assms(1,2)]
  have "0 < refs_in (flags_of i s)" using it(1) assms(3) by simp
  from flags_sub_ref [OF this] it assms(3) show ?thesis
    by (intro shard_inv_flags [OF assms(1,2)]) (auto simp: ref_counts_eq split: if_splits)
qed

lemma shard_inv_usage_pos:
  assumes inv: "shard_inv s u r x ins" and i: "i < length (cs_list s)" and nr: "i \<notin> set (cs_recycle s)"
    and x: "\<And>y. x = Some y \<Longrightarrow> y < length (cs_list s) \<and> y \<notin> set (cs_recycle s) \<and> y \<noteq> i"
  shows "0 < cs_usage s"
proof -
  let ?X = "insert i (set_option x)"
  have sub: "set (cs_recycle s) \<subseteq> {..<length (cs_list s)} - ?X"
    using shard_invD(3) [OF inv] nr x by (auto simp: elem_set)
  have "length (cs_recycle s) = card (set (cs_recycle s))"
    using shard_invD(2) [OF inv] by (simp add: distinct_card)
  also have "\<dots> \<le> card ({..<length (cs_list s)} - ?X)" using sub by (intro card_mono) auto
  also have "\<dots> = length (cs_list s) - card ?X"
    using i x by (subst card_Diff_subset) (auto split: option.splits)
  finally have le: "length (cs_recycle s) \<le> length (cs_list s) - card ?X" .
  show ?thesis
  proof (cases x)
    case None
    with le shard_invD(4) [OF inv] i show ?thesis by simp
  next
    case (Some y)
    with x have "y \<noteq> i" "y < length (cs_list s)" by auto
    with le shard_invD(4) [OF inv] i Some show ?thesis by simp
  qed
qed

text \<open>Recycling an entry nobody uses, with the recycler gone.\<close>

lemma shard_inv_recycle:
  assumes inv: "shard_inv s u r x ins" and i: "i < length (cs_list s)"
    and ri: "r i = 1" and us: "0 < cs_usage s"
  shows "shard_inv (recycle_item i s) u (r(i := 0)) x ins"
proof -
  note it = shard_inv_item [OF inv i]
  have nr: "i \<notin> set (cs_recycle s)" and nc: "\<not> in_cache (flags_of i s)" and ui: "u i = 0"
    using it(4,5) ri by auto
  have items: "item_ok (recycle_item i s) u (r(i := 0)) x j" if "j < length (cs_list s)" for j
    using shard_inv_item [OF inv that] by (intro item_okI; cases "j = i"; simp add: nc ui)
  show ?thesis
    by (rule shard_invI)
      (use items shard_invD [OF inv] live_values_recycle [OF i nr] nr i us in auto)
qed


text \<open>An entry leaves the table; it is recycled at once when nobody uses it.\<close>

lemma shard_inv_erase:
  fixes s :: "'v cache_shard"
  assumes inv: "shard_inv s u r x ins" and i: "i < length (cs_list s)"
    and tb: "cs_table s k = Some i" and fl: "\<not> in_cache fl" "refs_in fl = u i"
    and x: "\<And>y. x = Some y \<Longrightarrow> y < length (cs_list s) \<and> y \<notin> set (cs_recycle s)"
  defines "s1 \<equiv> (set_flags i fl s)\<lparr>cs_table := (cs_table s)(k := None)\<rparr>"
  shows "shard_inv (if u i = 0 then recycle_item i s1 else s1) u r x ins"
proof -
  note it = shard_inv_item [OF inv i]
  from shard_invD(1) [OF inv tb] have inc: "in_cache (flags_of i s)"
    and key: "table_key (ci_hash (cs_list s ! i)) = k" and xi: "x \<noteq> Some i" by auto
  have nr: "i \<notin> set (cs_recycle s)" and ri: "r i = 0" using it(2,4,5) inc by auto
  have us: "0 < cs_usage s" using shard_inv_usage_pos [OF inv i nr] x xi by auto
  have fo: "flags_of j s1 = (if j = i then fl else flags_of j s)" for j
    using i by (simp add: s1_def flags_of_def set_flags_def nth_list_update)
  have h: "ci_hash (cs_list s1 ! j) = ci_hash (cs_list s ! j)"
    "ci_value (cs_list s1 ! j) = ci_value (cs_list s ! j)" for j
    by (simp_all add: s1_def)
  have st: "length (cs_list s1) = length (cs_list s)" "cs_recycle s1 = cs_recycle s" "cs_usage s1 = cs_usage s"
    "cs_deleted s1 = cs_deleted s" "cs_table s1 = (cs_table s)(k := None)"
    by (simp_all add: s1_def)
  have lv: "live_values s1 = live_values s" by (simp add: live_values_def h st)
  have inj: "cs_table s (table_key (ci_hash (cs_list s ! j))) = Some j \<Longrightarrow> j \<noteq> i
      \<Longrightarrow> table_key (ci_hash (cs_list s ! j)) \<noteq> k" for j
    using tb by auto
  have items: "item_ok s1 u (if u i = 0 then r(i := 1) else r) x j" if "j < length (cs_list s)" for j
    using shard_inv_item [OF inv that] fl inj [of j] ri nr
    by (intro item_okI; cases "j = i"; auto simp: fo h st inc split: if_splits)
  have tab: "cs_table s1 k' = Some j \<Longrightarrow> j < length (cs_list s1) \<and> in_cache (flags_of j s1)
      \<and> table_key (ci_hash (cs_list s1 ! j)) = k' \<and> x \<noteq> Some j" for k' j
    using shard_invD(1) [OF inv, of k' j] key by (auto simp: st h fo split: if_splits)
  have inv1: "shard_inv s1 u (if u i = 0 then r(i := 1) else r) x ins"
    by (rule shard_invI) (use items tab shard_invD(2-6) [OF inv] in \<open>auto simp: st h lv\<close>)
  show ?thesis
  proof (cases "u i = 0")
    case True
    have "(r(i := 1))(i := 0) = r" using ri by auto
    with shard_inv_recycle [OF inv1, of i] i us True show ?thesis by (simp add: st)
  next
    case False
    with inv1 show ?thesis by simp
  qed
qed

lemma shard_inv_try_evict:
  assumes inv: "shard_inv s u r None ins" and i: "i < length (cs_list s)"
    and ev: "try_evict i s = (evicted, s1)"
  shows "shard_inv s1 u r None ins" and "length (cs_list s1) = length (cs_list s)"
    and "cs_usage s1 \<le> cs_usage s" and "cs_head s1 = cs_head s" and "cs_capacity s1 = cs_capacity s"
    and "u j > 0 \<Longrightarrow> ci_hash (cs_list s1 ! j) = ci_hash (cs_list s ! j)"
proof -
  note it = shard_inv_item [OF inv i]
  have "shard_inv s1 u r None ins"
  proof (cases "flags_of i s = in_cache_bit")
    case True
    then have fl: "in_cache (flags_of i s)" "refs_in (flags_of i s) = 0"
      by (simp_all add: flags_constants)
    then have u: "u i = 0" and tb: "cs_table s (table_key (ci_hash (cs_list s ! i))) = Some i"
      using it by auto
    from shard_inv_erase [OF inv i tb, of 0] u ev True show ?thesis
      by (simp add: try_evict_def flags_constants)
  next
    case False
    with ev shard_inv_usage(2) [OF inv i] show ?thesis by (simp add: try_evict_def)
  qed
  then show "shard_inv s1 u r None ins" .
qed (use ev in \<open>auto simp: try_evict_def split: if_splits\<close>)


lemma live_values_new:
  assumes R: "set R' \<subseteq> {..<length (cs_list s)}" and i: "i \<notin> {..<length (cs_list s)} - set (cs_recycle s)"
    and live: "{..<length xs} - set R' = insert i ({..<length (cs_list s)} - set (cs_recycle s))"
    and same: "\<And>j. j \<noteq> i \<Longrightarrow> j < length (cs_list s) \<Longrightarrow> xs ! j = cs_list s ! j"
  shows "image_mset (\<lambda>j. ci_value (xs ! j)) (mset_set ({..<length xs} - set R'))
    = add_mset (ci_value (xs ! i)) (live_values s)"
proof -
  let ?L = "{..<length (cs_list s)} - set (cs_recycle s)"
  have "mset_set (insert i ?L) = add_mset i (mset_set ?L)" using i by (intro mset_set.insert) auto
  moreover have "image_mset (\<lambda>j. ci_value (xs ! j)) (mset_set ?L) = live_values s"
    unfolding live_values_def
  proof (rule image_mset_cong)
    fix j
    assume "j \<in># mset_set ?L"
    then have j: "j \<in> ?L" by simp
    with i have "j \<noteq> i" "j < length (cs_list s)" by auto
    then show "ci_value (xs ! j) = ci_value (cs_list s ! j)" by (simp add: same)
  qed
  ultimately show ?thesis by (simp add: live)
qed

lemma shard_inv_take_slot:
  assumes inv: "shard_inv s u r None ins" and n: "\<And>j. length (cs_list s) \<le> j \<Longrightarrow> u j = 0 \<and> r j = 0"
    and new: "in_cache (ci_flags c)" and ts: "take_slot c s = (i, s1)"
  shows "shard_inv s1 (u(i := refs_in (ci_flags c))) r (Some i) (ins @ [(ci_hash c, ci_value c)])"
    and "i < length (cs_list s1)" and "cs_list s1 ! i = c" and "u i = 0" and "r i = 0"
    and "cs_table s1 = cs_table s" and "cs_usage s1 = cs_usage s" and "cs_capacity s1 = cs_capacity s"
    and "cs_head s1 = cs_head s" and "length (cs_list s) \<le> length (cs_list s1)"
    and "\<And>j. j \<noteq> i \<Longrightarrow> j < length (cs_list s) \<Longrightarrow> cs_list s1 ! j = cs_list s ! j"
proof -
  let ?R = "cs_recycle s"
  have "i < length (cs_list s1) \<and> cs_list s1 ! i = c \<and> u i = 0 \<and> r i = 0
      \<and> cs_table s1 = cs_table s \<and> cs_usage s1 = cs_usage s \<and> cs_capacity s1 = cs_capacity s
      \<and> cs_head s1 = cs_head s \<and> cs_deleted s1 = cs_deleted s \<and> (i < length (cs_list s) \<longrightarrow> \<not> in_cache (flags_of i s))
      \<and> length (cs_list s) \<le> length (cs_list s1) \<and> (\<forall>j < length (cs_list s1). j = i \<or> j < length (cs_list s))
      \<and> (\<forall>j. j \<noteq> i \<longrightarrow> j < length (cs_list s) \<longrightarrow> cs_list s1 ! j = cs_list s ! j)
      \<and> distinct (cs_recycle s1) \<and> set (cs_recycle s1) = set ?R - {i} \<and> i \<notin> {..<length (cs_list s)} - set ?R
      \<and> {..<length (cs_list s1)} - set (cs_recycle s1) = insert i ({..<length (cs_list s)} - set ?R)
      \<and> cs_usage s1 + length (cs_recycle s1) + 1 = length (cs_list s1)"
  proof (cases "?R = []")
    case True
    with ts have i: "i = length (cs_list s)" and s1: "s1 = s\<lparr>cs_list := cs_list s @ [c]\<rparr>"
      by (simp_all add: take_slot_def)
    have f: "cs_list s1 = cs_list s @ [c]" "cs_recycle s1 = []" "cs_table s1 = cs_table s"
      "cs_usage s1 = cs_usage s" "cs_capacity s1 = cs_capacity s" "cs_head s1 = cs_head s"
      "cs_deleted s1 = cs_deleted s" using True by (simp_all add: s1)
    have "{..<length (cs_list s1)} - set (cs_recycle s1) = insert i ({..<length (cs_list s)} - set ?R)"
      unfolding f(1,2) True i by (simp add: lessThan_Suc)
    moreover have "cs_usage s1 + length (cs_recycle s1) + 1 = length (cs_list s1)"
      using shard_invD(4) [OF inv] True by (simp add: f)
    moreover have "i < length (cs_list s1)" "cs_list s1 ! i = c" "length (cs_list s1) = Suc (length (cs_list s))"
      "\<forall>j. j \<noteq> i \<longrightarrow> j < length (cs_list s) \<longrightarrow> cs_list s1 ! j = cs_list s ! j"
      by (simp_all add: f i nth_append)
    moreover have "i \<notin> {..<length (cs_list s)} - set ?R" by (simp add: i)
    moreover have "distinct (cs_recycle s1)" "set (cs_recycle s1) = set ?R - {i}" by (simp_all add: f True)
    moreover have "u i = 0" "r i = 0" using n [of i] by (simp_all add: i)
    moreover have "i < length (cs_list s) \<longrightarrow> \<not> in_cache (flags_of i s)" by (simp add: i)
    moreover have "length (cs_list s) \<le> length (cs_list s1)" by (simp add: f)
    moreover have "\<forall>j < length (cs_list s1). j = i \<or> j < length (cs_list s)" by (simp add: f i less_Suc_eq disj_commute)
    ultimately show ?thesis using f(3-7) by (intro conjI) assumption+
  next
    case False
    with ts have i: "i = last ?R" and s1: "s1 = s\<lparr>cs_list := (cs_list s)[i := c], cs_recycle := butlast ?R\<rparr>"
      by (auto simp: take_slot_def)
    have R: "?R = butlast ?R @ [i]" using False i by simp
    have iR: "i \<in> set ?R" using False i by simp
    then have il: "i < length (cs_list s)" using shard_invD(3) [OF inv] by blast
    have d: "distinct (butlast ?R @ [i])" using shard_invD(2) [OF inv] by (subst (asm) R)
    have sR: "set ?R = insert i (set (butlast ?R))" by (subst R) simp
    have lR: "length ?R = Suc (length (butlast ?R))" by (subst R) simp
    have lv: "{..<length (cs_list s)} - set (butlast ?R) = insert i ({..<length (cs_list s)} - set ?R)"
    proof (rule set_eqI)
      fix j
      show "j \<in> {..<length (cs_list s)} - set (butlast ?R) \<longleftrightarrow> j \<in> insert i ({..<length (cs_list s)} - set ?R)"
        using il d by (cases "j = i") (simp_all add: sR)
    qed
    have ds: "set (butlast ?R) = set ?R - {i}" using d by (simp add: sR)
    have "cs_usage s + length ?R = length (cs_list s)" using shard_invD(4) [OF inv] by simp
    with lR have us: "cs_usage s + length (butlast ?R) + 1 = length (cs_list s)" by linarith
    have it: "\<not> in_cache (flags_of i s)" "u i = 0" "r i = 0" using shard_inv_item(4) [OF inv il] iR by auto
    have f: "cs_list s1 = (cs_list s)[i := c]" "cs_recycle s1 = butlast ?R" "cs_table s1 = cs_table s"
      "cs_usage s1 = cs_usage s" "cs_capacity s1 = cs_capacity s" "cs_head s1 = cs_head s"
      "cs_deleted s1 = cs_deleted s" by (simp_all add: s1)
    have g: "i < length (cs_list s1)" "cs_list s1 ! i = c" "length (cs_list s1) = length (cs_list s)"
      "\<forall>j. j \<noteq> i \<longrightarrow> j < length (cs_list s) \<longrightarrow> cs_list s1 ! j = cs_list s ! j"
      using il by (simp_all add: f)
    have "distinct (cs_recycle s1)" using d by (simp add: f)
    moreover have "i \<notin> {..<length (cs_list s)} - set ?R" using iR by simp
    moreover have "{..<length (cs_list s1)} - set (cs_recycle s1) = insert i ({..<length (cs_list s)} - set ?R)"
      unfolding f(2) g(3) by (rule lv)
    moreover have "cs_usage s1 + length (cs_recycle s1) + 1 = length (cs_list s1)"
      using us unfolding f(2,4) g(3) .
    moreover have "set (cs_recycle s1) = set ?R - {i}" unfolding f(2) by (rule ds)
    moreover have "i < length (cs_list s) \<longrightarrow> \<not> in_cache (flags_of i s)" using it by blast
    moreover have "length (cs_list s) \<le> length (cs_list s1)" using g(3) by simp
    moreover have "\<forall>j < length (cs_list s1). j = i \<or> j < length (cs_list s)" using g(3) by simp
    ultimately show ?thesis using g f(3-7) it by (intro conjI) assumption+
  qed
  then have a: "i < length (cs_list s1)" "cs_list s1 ! i = c" "u i = 0" "r i = 0"
      "cs_table s1 = cs_table s" "cs_usage s1 = cs_usage s" "cs_capacity s1 = cs_capacity s"
      "cs_head s1 = cs_head s" "cs_deleted s1 = cs_deleted s"
      "i < length (cs_list s) \<Longrightarrow> \<not> in_cache (flags_of i s)" "length (cs_list s) \<le> length (cs_list s1)"
      "\<And>j. j < length (cs_list s1) \<Longrightarrow> j = i \<or> j < length (cs_list s)"
      "\<And>j. j \<noteq> i \<Longrightarrow> j < length (cs_list s) \<Longrightarrow> cs_list s1 ! j = cs_list s ! j"
      "distinct (cs_recycle s1)" "set (cs_recycle s1) = set ?R - {i}"
      "i \<notin> {..<length (cs_list s)} - set ?R"
      "{..<length (cs_list s1)} - set (cs_recycle s1) = insert i ({..<length (cs_list s)} - set ?R)"
      "cs_usage s1 + length (cs_recycle s1) + 1 = length (cs_list s1)"
    by blast+
  have fo: "j \<noteq> i \<Longrightarrow> j < length (cs_list s) \<Longrightarrow> flags_of j s1 = flags_of j s" for j
    using a(13) by (simp add: flags_of_def)
  have foi: "flags_of i s1 = ci_flags c" by (simp add: flags_of_def a(2))
  have items: "item_ok s1 (u(i := refs_in (ci_flags c))) r (Some i) j" if "j < length (cs_list s1)" for j
  proof (cases "j = i")
    case True
    then show ?thesis using new a(4,15) by (intro item_okI) (auto simp: foi)
  next
    case False
    with a(12) that have j: "j < length (cs_list s)" by blast
    show ?thesis using shard_inv_item [OF inv j] False j a(15) fo a(13)
      by (intro item_okI) (auto simp: a(5))
  qed
  have tab: "cs_table s1 k = Some j \<Longrightarrow> j < length (cs_list s1) \<and> in_cache (flags_of j s1)
      \<and> table_key (ci_hash (cs_list s1 ! j)) = k \<and> Some i \<noteq> Some j" for k j
  proof -
    assume "cs_table s1 k = Some j"
    with shard_invD(1) [OF inv, of k j] have j: "j < length (cs_list s)" "in_cache (flags_of j s)"
      "table_key (ci_hash (cs_list s ! j)) = k" by (auto simp: a(5))
    then have "j \<noteq> i" using a(10) by blast
    with j fo [of j] a(13) [of j] a(11) show ?thesis by simp
  qed
  have "set (cs_recycle s1) \<subseteq> {..<length (cs_list s)}" using shard_invD(3) [OF inv] by (auto simp: a(15))
  from live_values_new [OF this a(16,17,13)]
  have "live_values s1 = add_mset (ci_value c) (live_values s)"
    by (simp add: live_values_def [of s1] a(2))
  then have vals: "mset (map snd (ins @ [(ci_hash c, ci_value c)])) = mset (cs_deleted s1) + live_values s1"
    using shard_invD(5) [OF inv] by (simp add: a(9))
  have ent: "(ci_hash (cs_list s1 ! j), ci_value (cs_list s1 ! j)) \<in> set (ins @ [(ci_hash c, ci_value c)])"
    if "j < length (cs_list s1)" "j \<notin> set (cs_recycle s1)" for j
  proof (cases "j = i")
    case True
    then show ?thesis by (simp add: a(2))
  next
    case False
    with a(12) that have j: "j < length (cs_list s)" by blast
    with False that(2) a(15) shard_invD(6) [OF inv, of j] show ?thesis by (simp add: a(13))
  qed
  have sub: "j < length (cs_list s1)" if "j \<in> set (cs_recycle s1)" for j
    using that a(11,15) shard_invD(3) [OF inv, of j] by auto
  show "shard_inv s1 (u(i := refs_in (ci_flags c))) r (Some i) (ins @ [(ci_hash c, ci_value c)])"
    using items tab a(14) sub a(18) vals ent by (intro shard_invI) auto
  show "i < length (cs_list s1)" "cs_list s1 ! i = c" "u i = 0" "r i = 0"
    "cs_table s1 = cs_table s" "cs_usage s1 = cs_usage s" "cs_capacity s1 = cs_capacity s"
    "cs_head s1 = cs_head s" "length (cs_list s) \<le> length (cs_list s1)"
    using a(1-8,11) .
  show "cs_list s1 ! j = cs_list s ! j" if "j \<noteq> i" "j < length (cs_list s)" for j
    using a(13) [OF that] .
qed


text \<open>The new slot enters the table.\<close>

lemma shard_inv_enter:
  assumes inv: "shard_inv s u r (Some i) ins" and i: "i < length (cs_list s)"
    and inc: "in_cache (flags_of i s)" and k: "table_key (ci_hash (cs_list s ! i)) = k"
    and free: "cs_table s k = None"
  shows "shard_inv (s\<lparr>cs_table := (cs_table s)(k := Some i), cs_usage := cs_usage s + 1\<rparr>) u r None ins"
proof -
  let ?s = "s\<lparr>cs_table := (cs_table s)(k := Some i), cs_usage := cs_usage s + 1\<rparr>"
  have fo: "flags_of j ?s = flags_of j s" for j by (simp add: flags_of_def)
  have lv: "live_values ?s = live_values s" by (simp add: live_values_def)
  have items: "item_ok ?s u r None j" if "j < length (cs_list s)" for j
  proof -
    note it = shard_inv_item [OF inv that]
    have "cs_table ?s (table_key (ci_hash (cs_list s ! j))) = Some j" if "in_cache (flags_of j s)"
    proof (cases "j = i")
      case True
      with k show ?thesis by simp
    next
      case False
      with it(3) [OF that] have t: "cs_table s (table_key (ci_hash (cs_list s ! j))) = Some j" by simp
      with free have "table_key (ci_hash (cs_list s ! j)) \<noteq> k" by (metis option.distinct(1))
      with t show ?thesis by simp
    qed
    then show ?thesis using it(1,2,4,5) by (intro item_okI) (simp_all add: fo)
  qed
  have tab: "cs_table ?s k' = Some j \<Longrightarrow> j < length (cs_list ?s) \<and> in_cache (flags_of j ?s)
      \<and> table_key (ci_hash (cs_list ?s ! j)) = k' \<and> None \<noteq> Some j" for k' j
  proof -
    assume h: "cs_table ?s k' = Some j"
    show ?thesis
    proof (cases "k' = k")
      case True
      with h have "j = i" by simp
      with i inc k True show ?thesis by (simp add: fo)
    next
      case False
      with h have "cs_table s k' = Some j" by simp
      from shard_invD(1) [OF inv this] show ?thesis by (simp add: fo)
    qed
  qed
  have us: "cs_usage ?s + length (cs_recycle ?s) + (if (None :: nat option) = None then 0 else 1)
      = length (cs_list ?s)" using shard_invD(4) [OF inv] by simp
  show ?thesis
  proof (rule shard_invI)
    show "mset (map snd ins) = mset (cs_deleted ?s) + live_values ?s"
      using shard_invD(5) [OF inv] by (simp add: lv)
  qed (use items tab us shard_invD(2,3,6) [OF inv] in simp_all)
qed

lemma shard_inv_insert:
  assumes inv: "shard_inv s u r None ins" and n: "\<And>j. length (cs_list s) \<le> j \<Longrightarrow> u j = 0 \<and> r j = 0"
    and ii: "insert_item h v hold s = (i, s')"
  shows "shard_inv s' (u(i := if hold then 1 else 0)) r None (ins @ [(h, v)])"
    and "i < length (cs_list s')" and "ci_hash (cs_list s' ! i) = h" and "u i = 0" and "r i = 0"
    and "cs_usage s' \<le> cs_usage s + 1" and "cs_capacity s' = cs_capacity s" and "cs_head s' = cs_head s"
    and "length (cs_list s) \<le> length (cs_list s')"
    and "\<And>j. u j > 0 \<Longrightarrow> j < length (cs_list s) \<Longrightarrow> ci_hash (cs_list s' ! j) = ci_hash (cs_list s ! j)"
proof -
  define c where "c = \<lparr>ci_hash = h, ci_value = v,
      ci_flags = (if hold then in_cache_bit + one_ref else in_cache_bit)\<rparr>"
  obtain i1 s1 where ts: "take_slot c s = (i1, s1)" by force
  define k where "k = table_key h"
  define s2 where "s2 = (case cs_table s1 k of
      Some j \<Rightarrow> unset_in_cache j (s1\<lparr>cs_table := (cs_table s1)(k := None)\<rparr>) | None \<Rightarrow> s1)"
  have "insert_item h v hold s = (i1, s2\<lparr>cs_table := (cs_table s2)(k := Some i1), cs_usage := cs_usage s2 + 1\<rparr>)"
    unfolding insert_item_def Let_def c_def [symmetric] k_def [symmetric] ts prod.case s2_def ..
  with ii have i1: "i1 = i"
    and s': "s' = s2\<lparr>cs_table := (cs_table s2)(k := Some i), cs_usage := cs_usage s2 + 1\<rparr>"
    by auto
  have inc: "in_cache (ci_flags c)" and rc: "refs_in (ci_flags c) = (if hold then 1 else 0)"
    by (simp_all add: c_def flags_constants [simplified])
  note t = shard_inv_take_slot [OF inv n inc ts [unfolded i1]]
  let ?u = "u(i := refs_in (ci_flags c))"
  have fi: "flags_of i s1 = ci_flags c" by (simp add: flags_of_def t(3))
  have hi: "ci_hash (cs_list s1 ! i) = h" by (simp add: t(3) c_def)
  have s2: "shard_inv s2 ?u r (Some i) (ins @ [(ci_hash c, ci_value c)]) \<and> cs_table s2 k = None
      \<and> length (cs_list s2) = length (cs_list s1) \<and> flags_of i s2 = ci_flags c
      \<and> (\<forall>j. ci_hash (cs_list s2 ! j) = ci_hash (cs_list s1 ! j)) \<and> cs_usage s2 \<le> cs_usage s1
      \<and> cs_capacity s2 = cs_capacity s1 \<and> cs_head s2 = cs_head s1"
  proof (cases "cs_table s1 k")
    case None
    with t(1) fi show ?thesis by (simp add: s2_def)
  next
    case (Some j)
    from shard_invD(1) [OF t(1) Some] have j: "j < length (cs_list s1)" "j \<noteq> i"
      and jc: "in_cache (flags_of j s1)" by auto
    let ?fl = "flags_of j s1 AND NOT in_cache_bit"
    let ?s = "(set_flags j ?fl s1)\<lparr>cs_table := (cs_table s1)(k := None)\<rparr>"
    have fl: "\<not> in_cache ?fl" "refs_in ?fl = ?u j"
      using shard_inv_item(1) [OF t(1) j(1)] by (simp_all add: flags_clear)
    have eq: "s2 = (if ?u j = 0 then recycle_item j ?s else ?s)"
    proof -
      have "set_flags j ?fl (s1\<lparr>cs_table := (cs_table s1)(k := None)\<rparr>) = ?s"
        by (simp add: set_flags_def)
      moreover have "ref_counts (flags_of j s1) = 0 \<longleftrightarrow> ?u j = 0"
        using shard_inv_item(1) [OF t(1) j(1)] by (simp add: ref_counts_eq)
      moreover have "flags_of j (s1\<lparr>cs_table := (cs_table s1)(k := None)\<rparr>) = flags_of j s1"
        by (simp add: flags_of_def)
      ultimately show ?thesis unfolding s2_def using Some jc by (simp only: option.case unset_in_cache_def Let_def simp_thms)
    qed
    have nr: "i \<notin> set (cs_recycle s1)"
      using shard_inv_item(4) [OF t(1) t(2)] inc fi by simp
    have "shard_inv (if ?u j = 0 then recycle_item j ?s else ?s) ?u r (Some i) (ins @ [(ci_hash c, ci_value c)])"
    proof (rule shard_inv_erase [OF t(1) j(1) Some fl])
      fix y
      assume "Some i = Some y"
      with t(2) nr show "y < length (cs_list s1) \<and> y \<notin> set (cs_recycle s1)" by simp
    qed
    moreover have "flags_of i ?s = ci_flags c"
      using j fi by (simp add: flags_of_def set_flags_def)
    ultimately show ?thesis unfolding eq by simp
  qed
  have "shard_inv s' ?u r None (ins @ [(ci_hash c, ci_value c)])"
    unfolding s' using s2 t(2) inc hi by (intro shard_inv_enter) (auto simp: k_def)
  moreover have "ci_hash c = h" "ci_value c = v" by (simp_all add: c_def)
  ultimately show "shard_inv s' (u(i := if hold then 1 else 0)) r None (ins @ [(h, v)])"
    by (simp only: rc)
  show "i < length (cs_list s')" "ci_hash (cs_list s' ! i) = h" "u i = 0" "r i = 0"
    "cs_usage s' \<le> cs_usage s + 1" "cs_capacity s' = cs_capacity s" "cs_head s' = cs_head s"
    "length (cs_list s) \<le> length (cs_list s')"
    using s2 t hi by (simp_all add: s')
  show "ci_hash (cs_list s' ! j) = ci_hash (cs_list s ! j)" if "u j > 0" "j < length (cs_list s)" for j
    using s2 t(11) [of j] t(4) that by (cases "j = i") (auto simp: s')
qed


lemma shard_inv_head [simp]: "shard_inv (s\<lparr>cs_head := k\<rparr>) u r x ins = shard_inv s u r x ins"
  by (simp add: shard_inv_def item_ok_def)

section \<open>The invariant of the system\<close>

text \<open>Where each thread stands agrees with the shard.\<close>

definition pc_ok :: "'v cache_sys \<Rightarrow> nat \<Rightarrow> bool" where
  "pc_ok y t \<longleftrightarrow>
     (let s = cy_shard y; n = length (cs_list s)
      in case cy_pcs y ! t of
           Idle \<Rightarrow> True
         | Found i _ \<Rightarrow> i < n
         | Reffed i _ \<Rightarrow> i < n
         | Holding i h \<Rightarrow> i < n \<and> ci_hash (cs_list s ! i) = h
         | Dropping i \<Rightarrow> i < n
         | LastRef i \<Rightarrow> i < n
         | Evicting _ _ _ k _ \<Rightarrow> cy_lock y = Some t \<and> (k < n \<or> n = 0 \<and> k = 0))"

definition cache_inv :: "'v cache_sys \<Rightarrow> bool" where
  "cache_inv y \<longleftrightarrow>
     shard_inv (cy_shard y) (\<lambda>i. users i (cy_pcs y)) (\<lambda>i. recyclers i (cy_pcs y)) None (cy_inserted y)
     \<and> (\<forall>t < length (cy_pcs y). pc_ok y t)
     \<and> cs_usage (cy_shard y) \<le> cs_capacity (cy_shard y) \<and> 0 < cs_capacity (cy_shard y)
     \<and> (cs_head (cy_shard y) < length (cs_list (cy_shard y))
        \<or> length (cs_list (cy_shard y)) = 0 \<and> cs_head (cy_shard y) = 0)
     \<and> length (cy_pcs y) < 2 ^ 30 - 1"

lemma users_goto:
  assumes "t < length ps"
  shows "(\<lambda>i. users i (ps[t := p])) = (\<lambda>i. users i ps - uses i (ps ! t) + uses i p)"
  using users_update [OF assms, of _ p] uses_le [OF assms] by (intro ext) (metis add_diff_cancel_right' add.commute le_add_diff_inverse2 diff_add_assoc2)

lemma recyclers_le: "t < length ps \<Longrightarrow> recycles i (ps ! t) \<le> recyclers i ps"
  by (simp add: recyclers_def sum_list_map_ge)

lemma recyclers_goto:
  assumes "t < length ps"
  shows "(\<lambda>i. recyclers i (ps[t := p])) = (\<lambda>i. recyclers i ps - recycles i (ps ! t) + recycles i p)"
  using recyclers_update [OF assms, of _ p] recyclers_le [OF assms] by (intro ext) (metis add_diff_cancel_right' add.commute le_add_diff_inverse2 diff_add_assoc2)

lemma users_beyond:
  assumes "cache_inv y" and "length (cs_list (cy_shard y)) \<le> j"
  shows "users j (cy_pcs y) = 0 \<and> recyclers j (cy_pcs y) = 0"
proof -
  have "uses j p = 0 \<and> recycles j p = 0" if "p \<in> set (cy_pcs y)" for p
  proof -
    from that obtain t where "t < length (cy_pcs y)" "cy_pcs y ! t = p" by (auto simp: in_set_conv_nth)
    with assms have "pc_ok y t" "cy_pcs y ! t = p" by (auto simp: cache_inv_def)
    with assms(2) show ?thesis
      by (cases p) (auto simp: pc_ok_def uses_def recycles_def)
  qed
  then show ?thesis by (simp add: users_def recyclers_def)
qed

text \<open>A step of thread \<open>t\<close> keeps the invariant when the shard does for the new counts, when the entries
  other threads hold keep their hash, and when the list does not shrink.\<close>

lemma cache_inv_goto:
  assumes inv: "cache_inv y" and t: "t < length (cy_pcs y)"
    and sh: "shard_inv s' (\<lambda>i. users i (cy_pcs y) - uses i (cy_pcs y ! t) + uses i p)
        (\<lambda>i. recyclers i (cy_pcs y) - recycles i (cy_pcs y ! t) + recycles i p) None ins'"
    and grow: "length (cs_list (cy_shard y)) \<le> length (cs_list s')"
    and keep: "\<And>j. users j (cy_pcs y) > 0 \<Longrightarrow> j < length (cs_list (cy_shard y)) \<Longrightarrow>
        ci_hash (cs_list s' ! j) = ci_hash (cs_list (cy_shard y) ! j)"
    and bound: "cs_usage s' \<le> cs_capacity s'" "cs_capacity s' = cs_capacity (cy_shard y)"
      "cs_head s' < length (cs_list s') \<or> length (cs_list s') = 0 \<and> cs_head s' = 0"
    and lock: "\<And>t'. t' \<noteq> t \<Longrightarrow> cy_lock y = Some t' \<Longrightarrow> lk = Some t' \<and> length (cs_list s') = length (cs_list (cy_shard y))"
    and pc: "pc_ok (goto t p (y\<lparr>cy_shard := s', cy_lock := lk, cy_inserted := ins'\<rparr>)) t"
  shows "cache_inv (goto t p (y\<lparr>cy_shard := s', cy_lock := lk, cy_inserted := ins'\<rparr>))"
proof -
  let ?y = "goto t p (y\<lparr>cy_shard := s', cy_lock := lk, cy_inserted := ins'\<rparr>)"
  have "pc_ok ?y t'" if t': "t' < length (cy_pcs y)" for t'
  proof (cases "t' = t")
    case True
    with pc show ?thesis by simp
  next
    case False
    have ok: "pc_ok y t'" using inv t' by (simp add: cache_inv_def)
    have same: "cy_pcs ?y ! t' = cy_pcs y ! t'" using False by (simp add: goto_def)
    show ?thesis
    proof (cases "cy_pcs y ! t'")
      case (Holding i h)
      have "0 < users i (cy_pcs y)" using uses_le [OF t', of i] Holding by (simp add: uses_def)
      with Holding ok same keep [of i] grow show ?thesis by (simp add: pc_ok_def goto_def Let_def)
    next
      case (Evicting h v hold k second)
      with ok False lock [of t'] same show ?thesis by (auto simp: pc_ok_def goto_def Let_def)
    qed (use ok same grow in \<open>auto simp: pc_ok_def goto_def Let_def\<close>)
  qed
  with inv t sh bound show ?thesis
    by (simp add: cache_inv_def users_goto [OF t] recyclers_goto [OF t]) (simp add: goto_def users_goto [OF t] recyclers_goto [OF t])
qed


lemma evict_once_facts:
  assumes inv: "shard_inv s u r None ins" and k: "k < length (cs_list s)"
    and ev: "evict_once k second s = (res, s1)"
  shows "shard_inv s1 u r None ins" "length (cs_list s1) = length (cs_list s)"
    "cs_usage s1 \<le> cs_usage s" "cs_head s1 = cs_head s" "cs_capacity s1 = cs_capacity s"
    "u j > 0 \<Longrightarrow> ci_hash (cs_list s1 ! j) = ci_hash (cs_list s ! j)"
    "res = Some (k', second') \<Longrightarrow> k' < length (cs_list s)"
proof -
  obtain evicted s2 where te: "try_evict k s = (evicted, s2)" by force
  with ev have s1: "s1 = s2" by (auto simp: evict_once_def Let_def split: if_splits)
  note f = shard_inv_try_evict [OF inv k te]
  show "shard_inv s1 u r None ins" "length (cs_list s1) = length (cs_list s)"
    "cs_usage s1 \<le> cs_usage s" "cs_head s1 = cs_head s" "cs_capacity s1 = cs_capacity s"
    "u j > 0 \<Longrightarrow> ci_hash (cs_list s1 ! j) = ci_hash (cs_list s ! j)"
    using f by (simp_all add: s1)
  have "next_slot s k < length (cs_list s)" using k by (auto simp: next_slot_def)
  with ev te show "res = Some (k', second') \<Longrightarrow> k' < length (cs_list s)"
    by (auto simp: evict_once_def Let_def split: if_splits)
qed

lemma cache_invD:
  assumes "cache_inv y"
  shows "shard_inv (cy_shard y) (\<lambda>i. users i (cy_pcs y)) (\<lambda>i. recyclers i (cy_pcs y)) None (cy_inserted y)"
    and "t < length (cy_pcs y) \<Longrightarrow> pc_ok y t"
    and "cs_usage (cy_shard y) \<le> cs_capacity (cy_shard y)" and "0 < cs_capacity (cy_shard y)"
    and "cs_head (cy_shard y) < length (cs_list (cy_shard y))
        \<or> length (cs_list (cy_shard y)) = 0 \<and> cs_head (cy_shard y) = 0"
    and "length (cy_pcs y) < 2 ^ 30 - 1"
  using assms by (simp_all add: cache_inv_def)

text \<open>Steps that only move a thread.\<close>

lemma cache_inv_move:
  assumes inv: "cache_inv y" and t: "t < length (cy_pcs y)"
    and u: "\<And>i. uses i p = uses i (cy_pcs y ! t)" "\<And>i. recycles i p = recycles i (cy_pcs y ! t)"
    and lock: "\<And>t'. t' \<noteq> t \<Longrightarrow> cy_lock y = Some t' \<Longrightarrow> lk = Some t'"
    and pc: "pc_ok (goto t p (y\<lparr>cy_lock := lk\<rparr>)) t"
  shows "cache_inv (goto t p (y\<lparr>cy_lock := lk\<rparr>))"
proof -
  have e: "users i (cy_pcs y) - uses i (cy_pcs y ! t) + uses i p = users i (cy_pcs y)"
    "recyclers i (cy_pcs y) - recycles i (cy_pcs y ! t) + recycles i p = recyclers i (cy_pcs y)" for i
    using uses_le [OF t, of i] recyclers_le [OF t, of i] by (simp_all add: u)
  have "cache_inv (goto t p (y\<lparr>cy_shard := cy_shard y, cy_lock := lk, cy_inserted := cy_inserted y\<rparr>))"
    by (rule cache_inv_goto [OF inv t])
      (use cache_invD [OF inv] lock pc in \<open>simp_all add: e\<close>)
  then show ?thesis by simp
qed

lemma evicting_slot:
  assumes inv: "cache_inv y" and t: "t < length (cy_pcs y)"
    and pc: "cy_pcs y ! t = Evicting h v hold k second"
  shows "cy_lock y = Some t"
    and "cs_usage (cy_shard y) \<ge> cs_capacity (cy_shard y) \<Longrightarrow> k < length (cs_list (cy_shard y))"
    and "k < length (cs_list (cy_shard y)) \<or> length (cs_list (cy_shard y)) = 0 \<and> k = 0"
  using cache_invD(2) [OF inv t] pc cache_invD(4) [OF inv] shard_invD(4) [OF cache_invD(1) [OF inv]]
  by (auto simp: pc_ok_def Let_def)

lemma cache_step_inv:
  assumes "cache_step y y'" and inv: "cache_inv y"
  shows "cache_inv y'"
  using assms(1)
proof cases
  case (start_insert t h v hold)
  show ?thesis unfolding start_insert(1)
    by (rule cache_inv_move [OF inv start_insert(2)])
      (use start_insert cache_invD(5) [OF inv] in \<open>auto simp: uses_def recycles_def pc_ok_def goto_def Let_def\<close>)
next
  case (find t h i)
  have "i < length (cs_list (cy_shard y))" using shard_invD(1) [OF cache_invD(1) [OF inv] find(4)] by simp
  then have "cache_inv (goto t (Found i h) (y\<lparr>cy_lock := cy_lock y\<rparr>))"
    by (intro cache_inv_move [OF inv find(2)])
      (use find in \<open>auto simp: uses_def recycles_def pc_ok_def goto_def Let_def\<close>)
  then show ?thesis using find(1) by simp
next
  case (ref_fails t i h)
  have "cache_inv (goto t Idle (y\<lparr>cy_lock := cy_lock y\<rparr>))"
    by (rule cache_inv_move [OF inv ref_fails(2)])
      (use ref_fails in \<open>auto simp: uses_def recycles_def pc_ok_def goto_def Let_def\<close>)
  then show ?thesis using ref_fails(1) by simp
next
  case (same_key t i h)
  have "cache_inv (goto t (Holding i h) (y\<lparr>cy_lock := cy_lock y\<rparr>))"
    by (rule cache_inv_move [OF inv same_key(2)])
      (use same_key cache_invD(2) [OF inv same_key(2)] in \<open>auto simp: uses_def recycles_def pc_ok_def goto_def Let_def\<close>)
  then show ?thesis using same_key(1) by simp
next
  case (other_key t i h)
  have "cache_inv (goto t (Dropping i) (y\<lparr>cy_lock := cy_lock y\<rparr>))"
    by (rule cache_inv_move [OF inv other_key(2)])
      (use other_key cache_invD(2) [OF inv other_key(2)] in \<open>auto simp: uses_def recycles_def pc_ok_def goto_def Let_def\<close>)
  then show ?thesis using other_key(1) by simp
next
  case (evict t h v hold k second k' second' s1)
  note sl = evicting_slot [OF inv evict(2,3)]
  note f = evict_once_facts [OF cache_invD(1) [OF inv] sl(2) [OF evict(4)] evict(5)]
  have "cache_inv (goto t (Evicting h v hold k' second') (y\<lparr>cy_shard := s1, cy_lock := cy_lock y, cy_inserted := cy_inserted y\<rparr>))"
    by (rule cache_inv_goto [OF inv evict(2)])
      (use f(1-6) f(7) [OF refl] sl evict cache_invD(3,5) [OF inv] in
        \<open>auto simp: uses_def recycles_def pc_ok_def goto_def Let_def intro: le_trans\<close>)
  then show ?thesis using evict(1) by simp
next
  case (evict_fails t h v hold k second s1)
  note sl = evicting_slot [OF inv evict_fails(2,3)]
  note f = evict_once_facts [OF cache_invD(1) [OF inv] sl(2) [OF evict_fails(4)] evict_fails(5)]
  have "cache_inv (goto t (Idle) (y\<lparr>cy_shard := s1, cy_lock := None, cy_inserted := cy_inserted y\<rparr>))"
    by (rule cache_inv_goto [OF inv evict_fails(2)])
      (use f(1-6) sl evict_fails cache_invD(3,5) [OF inv] in
        \<open>auto simp: uses_def recycles_def pc_ok_def goto_def Let_def intro: le_trans\<close>)
  then show ?thesis using evict_fails(1) by simp
next
  case (do_insert t h v hold k second i s1)
  note sl = evicting_slot [OF inv do_insert(2,3)]
  have "shard_inv ((cy_shard y)\<lparr>cs_head := k\<rparr>) (\<lambda>i. users i (cy_pcs y)) (\<lambda>i. recyclers i (cy_pcs y)) None
      (cy_inserted y)" using cache_invD(1) [OF inv] by simp
  from shard_inv_insert [OF this _ do_insert(5)] users_beyond [OF inv]
  have f: "shard_inv s1 ((\<lambda>i. users i (cy_pcs y))(i := if hold then 1 else 0)) (\<lambda>i. recyclers i (cy_pcs y)) None
        (cy_inserted y @ [(h, v)])"
      "i < length (cs_list s1)" "ci_hash (cs_list s1 ! i) = h" "users i (cy_pcs y) = 0"
      "cs_usage s1 \<le> cs_usage (cy_shard y) + 1" "cs_capacity s1 = cs_capacity (cy_shard y)" "cs_head s1 = k"
      "length (cs_list (cy_shard y)) \<le> length (cs_list s1)"
      "\<And>j. users j (cy_pcs y) > 0 \<Longrightarrow> j < length (cs_list (cy_shard y)) \<Longrightarrow>
         ci_hash (cs_list s1 ! j) = ci_hash (cs_list (cy_shard y) ! j)" by simp_all
  have eq: "(\<lambda>j. users j (cy_pcs y) - uses j (cy_pcs y ! t) + uses j (if hold then Holding i h else Idle))
      = (\<lambda>i. users i (cy_pcs y))(i := if hold then 1 else 0)"
    using f(4) do_insert(3) by (auto simp: uses_def)
  have req: "(\<lambda>j. recyclers j (cy_pcs y) - recycles j (cy_pcs y ! t) + recycles j (if hold then Holding i h else Idle))
      = (\<lambda>i. recyclers i (cy_pcs y))"
    using do_insert(3) by (auto simp: recycles_def)
  have k: "k < length (cs_list s1)" using sl(3) f(2,8) by auto
  have sh: "shard_inv s1
      (\<lambda>j. users j (cy_pcs y) - uses j (cy_pcs y ! t) + uses j (if hold then Holding i h else Idle))
      (\<lambda>j. recyclers j (cy_pcs y) - recycles j (cy_pcs y ! t) + recycles j (if hold then Holding i h else Idle))
      None (cy_inserted y @ [(h, v)])"
    unfolding eq req by (rule f(1))
  show ?thesis unfolding do_insert(1)
    by (rule cache_inv_goto [OF inv do_insert(2) sh f(8,9)])
      (use f(2,3,5-7) k sl(1) do_insert(2,4) in \<open>auto simp: pc_ok_def goto_def Let_def\<close>)
next
  case (ref t i h fl)
  have i: "i < length (cs_list (cy_shard y))" using cache_invD(2) [OF inv ref(2)] ref(3) by (simp add: pc_ok_def Let_def)
  have "users i (cy_pcs y) < 2 ^ 30 - 1" using users_le [of i "cy_pcs y"] cache_invD(6) [OF inv] by linarith
  from shard_inv_ref [OF cache_invD(1) [OF inv] i _ this] ref(4,5)
  have f: "shard_inv (set_flags i (fl + one_ref) (cy_shard y))
      ((\<lambda>i. users i (cy_pcs y))(i := users i (cy_pcs y) + 1)) (\<lambda>i. recyclers i (cy_pcs y)) None (cy_inserted y)"
    by simp
  have eq: "(\<lambda>j. users j (cy_pcs y) - uses j (cy_pcs y ! t) + uses j (Reffed i h))
      = (\<lambda>i. users i (cy_pcs y))(i := users i (cy_pcs y) + 1)"
    using ref(3) by (auto simp: uses_def)
  have req: "(\<lambda>j. recyclers j (cy_pcs y) - recycles j (cy_pcs y ! t) + recycles j (Reffed i h)) = (\<lambda>i. recyclers i (cy_pcs y))"
    using ref(3) by (auto simp: recycles_def)
  have sh: "shard_inv (set_flags i (fl + one_ref) (cy_shard y))
      (\<lambda>j. users j (cy_pcs y) - uses j (cy_pcs y ! t) + uses j (Reffed i h))
      (\<lambda>j. recyclers j (cy_pcs y) - recycles j (cy_pcs y ! t) + recycles j (Reffed i h)) None (cy_inserted y)"
    unfolding eq req by (rule f)
  have "cache_inv (goto t (Reffed i h) (y\<lparr>cy_shard := set_flags i (fl + one_ref) (cy_shard y), cy_lock := cy_lock y, cy_inserted := cy_inserted y\<rparr>))"
    by (rule cache_inv_goto [OF inv ref(2) sh])
      (use i ref(2,3) cache_invD(3,5) [OF inv] in \<open>auto simp: pc_ok_def goto_def Let_def\<close>)
  then show ?thesis using ref(1) by simp
next
  case (release t i h)
  have i: "i < length (cs_list (cy_shard y))" using cache_invD(2) [OF inv release(2)] release(3) by (simp add: pc_ok_def Let_def)
  have f: "shard_inv (set_flags i (flags_of i (cy_shard y) OR usage_bit) (cy_shard y))
      (\<lambda>i. users i (cy_pcs y)) (\<lambda>i. recyclers i (cy_pcs y)) None (cy_inserted y)"
    using shard_inv_usage(1) [OF cache_invD(1) [OF inv] i] .
  have eq: "(\<lambda>j. users j (cy_pcs y) - uses j (cy_pcs y ! t) + uses j (Dropping i)) = (\<lambda>i. users i (cy_pcs y))"
    using release(3) uses_le [OF release(2), of i] by (intro ext) (auto simp: uses_def)
  have req: "(\<lambda>j. recyclers j (cy_pcs y) - recycles j (cy_pcs y ! t) + recycles j (Dropping i)) = (\<lambda>i. recyclers i (cy_pcs y))"
    using release(3) by (auto simp: recycles_def)
  have sh: "shard_inv (set_flags i (flags_of i (cy_shard y) OR usage_bit) (cy_shard y))
      (\<lambda>j. users j (cy_pcs y) - uses j (cy_pcs y ! t) + uses j (Dropping i))
      (\<lambda>j. recyclers j (cy_pcs y) - recycles j (cy_pcs y ! t) + recycles j (Dropping i)) None (cy_inserted y)"
    unfolding eq req by (rule f)
  have "cache_inv (goto t (Dropping i) (y\<lparr>cy_shard := set_flags i (flags_of i (cy_shard y) OR usage_bit) (cy_shard y), cy_lock := cy_lock y, cy_inserted := cy_inserted y\<rparr>))"
    by (rule cache_inv_goto [OF inv release(2) sh])
      (use i release(2,3) cache_invD(3,5) [OF inv] in \<open>auto simp: pc_ok_def goto_def Let_def\<close>)
  then show ?thesis using release(1) by simp
next
  case (drop_ref t i fl)
  have i: "i < length (cs_list (cy_shard y))" using cache_invD(2) [OF inv drop_ref(2)] drop_ref(3) by (simp add: pc_ok_def Let_def)
  have u: "0 < users i (cy_pcs y)" using uses_le [OF drop_ref(2), of i] drop_ref(3) by (simp add: uses_def)
  let ?p = "if ref_counts fl = 1 \<and> \<not> in_cache fl then LastRef i else Idle"
  have r0: "recyclers i (cy_pcs y) = 0"
    using shard_inv_item(5) [OF cache_invD(1) [OF inv] i] u by auto
  from shard_inv_drop [OF cache_invD(1) [OF inv] i u] drop_ref(4)
  have f: "shard_inv (set_flags i (fl - one_ref) (cy_shard y))
      ((\<lambda>i. users i (cy_pcs y))(i := users i (cy_pcs y) - 1))
      (if ref_counts fl = 1 \<and> \<not> in_cache fl then (\<lambda>i. recyclers i (cy_pcs y))(i := 1) else (\<lambda>i. recyclers i (cy_pcs y)))
      None (cy_inserted y)" by simp
  have eq: "(\<lambda>j. users j (cy_pcs y) - uses j (cy_pcs y ! t) + uses j ?p)
      = (\<lambda>i. users i (cy_pcs y))(i := users i (cy_pcs y) - 1)"
    "(\<lambda>j. recyclers j (cy_pcs y) - recycles j (cy_pcs y ! t) + recycles j ?p)
      = (if ref_counts fl = 1 \<and> \<not> in_cache fl then (\<lambda>i. recyclers i (cy_pcs y))(i := 1) else (\<lambda>i. recyclers i (cy_pcs y)))"
    using drop_ref(3) r0 by (auto simp: uses_def recycles_def)
  have sh: "shard_inv (set_flags i (fl - one_ref) (cy_shard y))
      (\<lambda>j. users j (cy_pcs y) - uses j (cy_pcs y ! t) + uses j (?p))
      (\<lambda>j. recyclers j (cy_pcs y) - recycles j (cy_pcs y ! t) + recycles j (?p)) None (cy_inserted y)"
    unfolding eq  by (rule f)
  have "cache_inv (goto t (?p) (y\<lparr>cy_shard := set_flags i (fl - one_ref) (cy_shard y), cy_lock := cy_lock y, cy_inserted := cy_inserted y\<rparr>))"
    by (rule cache_inv_goto [OF inv drop_ref(2) sh])
      (use i drop_ref(2,3) cache_invD(3,5) [OF inv] in \<open>auto simp: pc_ok_def goto_def Let_def\<close>)
  then show ?thesis using drop_ref(1) by simp
next
  case (recycle t i)
  have i: "i < length (cs_list (cy_shard y))" using cache_invD(2) [OF inv recycle(2)] recycle(3) by (simp add: pc_ok_def Let_def)
  note it = shard_inv_item [OF cache_invD(1) [OF inv] i]
  have r: "recyclers i (cy_pcs y) = 1"
    using recyclers_le [OF recycle(2), of i] recycle(3) it(2) by (simp add: recycles_def)
  have us: "0 < cs_usage (cy_shard y)"
    using shard_inv_usage_pos [OF cache_invD(1) [OF inv] i] it(4) r by simp
  from shard_inv_recycle [OF cache_invD(1) [OF inv] i r us]
  have f: "shard_inv (recycle_item i (cy_shard y)) (\<lambda>i. users i (cy_pcs y))
      ((\<lambda>i. recyclers i (cy_pcs y))(i := 0)) None (cy_inserted y)" .
  have eq: "(\<lambda>j. recyclers j (cy_pcs y) - recycles j (cy_pcs y ! t) + recycles j Idle)
      = (\<lambda>i. recyclers i (cy_pcs y))(i := 0)"
    using recycle(3) r by (auto simp: recycles_def)
  have ueq: "(\<lambda>j. users j (cy_pcs y) - uses j (cy_pcs y ! t) + uses j Idle) = (\<lambda>i. users i (cy_pcs y))"
    using recycle(3) by (auto simp: uses_def)
  have sh: "shard_inv (recycle_item i (cy_shard y))
      (\<lambda>j. users j (cy_pcs y) - uses j (cy_pcs y ! t) + uses j (Idle))
      (\<lambda>j. recyclers j (cy_pcs y) - recycles j (cy_pcs y ! t) + recycles j (Idle)) None (cy_inserted y)"
    unfolding ueq eq by (rule f)
  have "cache_inv (goto t (Idle) (y\<lparr>cy_shard := recycle_item i (cy_shard y), cy_lock := cy_lock y, cy_inserted := cy_inserted y\<rparr>))"
    by (rule cache_inv_goto [OF inv recycle(2) sh])
      (use i recycle(2,3) cache_invD(3,5) [OF inv] in \<open>auto simp: pc_ok_def goto_def Let_def\<close>)
  then show ?thesis using recycle(1) by simp
qed


lemma cache_init_inv:
  assumes "0 < capacity" and "threads < 2 ^ 30 - 1"
  shows "cache_inv (cache_init capacity threads)"
  using assms
  by (auto simp: cache_inv_def cache_init_def empty_shard_def shard_inv_def pc_ok_def live_values_def)

lemma cache_reachable_inv:
  assumes "cache_reachable capacity threads y" and "0 < capacity" and "threads < 2 ^ 30 - 1"
  shows "cache_inv y"
  using assms by (induction rule: cache_reachable.induct) (auto intro: cache_init_inv cache_step_inv)

text \<open>What is behind a handle was inserted for the hash it was looked up with.\<close>

lemma holding_entry:
  assumes inv: "cache_inv y" and t: "t < length (cy_pcs y)" "cy_pcs y ! t = Holding i h"
  shows "i < length (cs_list (cy_shard y))" "i \<notin> set (cs_recycle (cy_shard y))"
    "(h, ci_value (cs_list (cy_shard y) ! i)) \<in> set (cy_inserted y)"
proof -
  note sh = cache_invD(1) [OF inv]
  have h: "ci_hash (cs_list (cy_shard y) ! i) = h"
    using cache_invD(2) [OF inv t(1)] t(2) by (simp add: pc_ok_def Let_def)
  show i: "i < length (cs_list (cy_shard y))"
    using cache_invD(2) [OF inv t(1)] t(2) by (simp add: pc_ok_def Let_def)
  have "0 < users i (cy_pcs y)" using uses_le [OF t(1), of i] t(2) by (simp add: uses_def)
  then show nr: "i \<notin> set (cs_recycle (cy_shard y))" using shard_inv_item(4) [OF sh i] by simp
  show "(h, ci_value (cs_list (cy_shard y) ! i)) \<in> set (cy_inserted y)"
    using shard_invD(6) [OF sh i nr] h by simp
qed

section \<open>Properties\<close>

text \<open>C14: A handle is always good.  Whatever the other threads look up, insert and evict, the entry behind
  a handle obtained for a hash still holds a value that was inserted for this very hash, and that
  value has not been deleted.\<close>

theorem cached_handles_valid:
  assumes "cache_reachable capacity threads y" and "0 < capacity" and "threads < 2 ^ 30 - 1"
    and "distinct (map snd (cy_inserted y))"
    and "t < length (cy_pcs y)" and "cy_pcs y ! t = Holding i h"
  shows "(h, ci_value (cs_list (cy_shard y) ! i)) \<in> set (cy_inserted y)
    \<and> ci_value (cs_list (cy_shard y) ! i) \<notin> set (cs_deleted (cy_shard y))"
proof -
  let ?s = "cy_shard y"
  have inv: "cache_inv y" using cache_reachable_inv [OF assms(1-3)] .
  note sh = cache_invD(1) [OF inv]
  note held = holding_entry [OF inv assms(5,6)]
  have "mset (map snd (cy_inserted y)) = mset (cs_deleted ?s) + live_values ?s"
    using shard_invD(5) [OF sh] .
  also have "live_values ?s = add_mset (ci_value (cs_list ?s ! i)) (live_values (recycle_item i ?s))"
    using live_values_recycle [OF held(1,2)] .
  finally have m: "mset (map snd (cy_inserted y))
      = mset (ci_value (cs_list ?s ! i) # cs_deleted ?s) + live_values (recycle_item i ?s)" by simp
  have "count (mset (map snd (cy_inserted y))) (ci_value (cs_list ?s ! i)) \<le> 1"
    using assms(4) by (simp only: distinct_count_atmost_1) (metis le_refl zero_le)
  with m have "count (mset (cs_deleted ?s)) (ci_value (cs_list ?s ! i)) = 0"
    by simp
  then have "ci_value (cs_list ?s ! i) \<notin> set (cs_deleted ?s)" by (simp add: count_mset_0_iff)
  with held(3) show ?thesis by simp
qed

text \<open>C33: The cache frees every value it accepted exactly once.  In every reachable state the number of
  entries in use is \<open>m_usage\<close> and at most the capacity, and when no thread is inside an operation or
  holds a handle, the values deleted so far and those the destructor deletes are together the
  inserted values.\<close>

theorem cached_values_freed_once:
  assumes "cache_reachable capacity threads y" and "0 < capacity" and "threads < 2 ^ 30 - 1"
  shows "cs_usage (cy_shard y) + length (cs_recycle (cy_shard y)) = length (cs_list (cy_shard y))
    \<and> cs_usage (cy_shard y) \<le> cs_capacity (cy_shard y)
    \<and> (set (cy_pcs y) \<subseteq> {Idle} \<longrightarrow> mset (destroy_shard (cy_shard y)) = mset (map snd (cy_inserted y)))"
proof (intro conjI impI)
  let ?s = "cy_shard y"
  have inv: "cache_inv y" using cache_reachable_inv [OF assms] .
  note sh = cache_invD(1) [OF inv]
  show "cs_usage ?s + length (cs_recycle ?s) = length (cs_list ?s)" using shard_invD(4) [OF sh] by simp
  show "cs_usage ?s \<le> cs_capacity ?s" using cache_invD(3) [OF inv] .
  assume idle: "set (cy_pcs y) \<subseteq> {Idle}"
  then have z: "users i (cy_pcs y) = 0" "recyclers i (cy_pcs y) = 0" for i
    by (auto simp: users_def recyclers_def uses_def recycles_def)
  let ?live = "\<lambda>c. in_cache (ci_flags c) \<or> ref_counts (ci_flags c) > 0"
  have live: "?live (cs_list ?s ! i) \<longleftrightarrow> i \<notin> set (cs_recycle ?s)" if "i < length (cs_list ?s)" for i
    using shard_inv_item(1,4) [OF sh that] z
    by (auto simp: flags_of_def ref_counts_eq word_gt_0)
  have f: "filter ?live (cs_list ?s) = map ((!) (cs_list ?s)) (filter (\<lambda>i. i \<notin> set (cs_recycle ?s)) [0..<length (cs_list ?s)])"
  proof -
    have "filter ?live (map ((!) (cs_list ?s)) [0..<length (cs_list ?s)])
        = map ((!) (cs_list ?s)) (filter (?live \<circ> (!) (cs_list ?s)) [0..<length (cs_list ?s)])"
      by (rule filter_map)
    also have "filter (?live \<circ> (!) (cs_list ?s)) [0..<length (cs_list ?s)]
        = filter (\<lambda>i. i \<notin> set (cs_recycle ?s)) [0..<length (cs_list ?s)]"
      using live by (intro filter_cong) auto
    finally show ?thesis by (simp add: map_nth)
  qed
  have "mset (filter (\<lambda>i. i \<notin> set (cs_recycle ?s)) [0..<length (cs_list ?s)])
      = mset_set ({..<length (cs_list ?s)} - set (cs_recycle ?s))"
  proof -
    have "set (filter (\<lambda>i. i \<notin> set (cs_recycle ?s)) [0..<length (cs_list ?s)])
        = {..<length (cs_list ?s)} - set (cs_recycle ?s)" by auto
    then show ?thesis by (metis distinct_filter distinct_upt mset_set_set)
  qed
  then have "mset (map ci_value (filter ?live (cs_list ?s))) = live_values ?s"
    unfolding f live_values_def by (simp add: multiset.map_comp o_def)
  then show "mset (destroy_shard ?s) = mset (map snd (cy_inserted y))"
    using shard_invD(5) [OF sh] by (simp add: destroy_shard_def)
qed


section \<open>Examples\<close>

text \<open>One insertion of a thread into a shard with room, in two steps.\<close>

lemma reach_insert:
  assumes "cache_reachable capacity threads y" and "t < length (cy_pcs y)" and "cy_pcs y ! t = Idle"
    and "cy_lock y = None" and "cs_usage (cy_shard y) < cs_capacity (cy_shard y)"
    and "insert_item h v hold (cy_shard y) = (i, s1)"
  shows "cache_reachable capacity threads
    (y\<lparr>cy_shard := s1, cy_lock := None, cy_inserted := cy_inserted y @ [(h, v)],
       cy_pcs := (cy_pcs y)[t := if hold then Holding i h else Idle]\<rparr>)"
proof -
  let ?y = "goto t (Evicting h v hold (cs_head (cy_shard y)) False) (y\<lparr>cy_lock := Some t\<rparr>)"
  have "cache_reachable capacity threads ?y"
    using assms(1) cache_step.start_insert [OF assms(2-4)] by (rule cache_reachable.intros(2))
  moreover have "cache_step ?y (goto t (if hold then Holding i h else Idle)
      (?y\<lparr>cy_shard := s1, cy_lock := None, cy_inserted := cy_inserted ?y @ [(h, v)]\<rparr>))"
    by (rule cache_step.do_insert [where k = "cs_head (cy_shard y)" and second = False]) (use assms in \<open>simp_all add: goto_def\<close>)
  ultimately have "cache_reachable capacity threads (goto t (if hold then Holding i h else Idle)
      (?y\<lparr>cy_shard := s1, cy_lock := None, cy_inserted := cy_inserted ?y @ [(h, v)]\<rparr>))"
    by (rule cache_reachable.intros(2))
  then show ?thesis by (simp add: goto_def)
qed

lemmas insert_simps = insert_item_def take_slot_def Let_def unset_in_cache_def flags_of_def
  set_flags_def table_key_def in_cache_def ref_counts_def

text \<open>Thread 0 inserts and keeps its handle; thread 1 replaces the entry.\<close>

definition shard_one :: "nat \<Rightarrow> u32 \<Rightarrow> string cache_shard" where
  "shard_one capacity fl = \<lparr>cs_list = [\<lparr>ci_hash = 7, ci_value = ''a'', ci_flags = fl\<rparr>], cs_head = 0,
     cs_recycle = [], cs_capacity = capacity, cs_usage = 1, cs_table = (\<lambda>_. None)(7 := Some 0), cs_deleted = []\<rparr>"

definition shard_two :: "string cache_shard" where
  "shard_two = \<lparr>cs_list = [\<lparr>ci_hash = 7, ci_value = ''a'', ci_flags = 4\<rparr>,
       \<lparr>ci_hash = 7, ci_value = ''b'', ci_flags = 1\<rparr>], cs_head = 0, cs_recycle = [], cs_capacity = 2,
     cs_usage = 2, cs_table = (\<lambda>_. None)(7 := Some 1), cs_deleted = []\<rparr>"

lemma insert_one:
  "insert_item 7 ''a'' hold (empty_shard capacity) = (0, shard_one capacity (if hold then 5 else 1))"
  by (simp add: insert_simps empty_shard_def shard_one_def)

lemma insert_two: "insert_item 7 ''b'' False (shard_one 2 5) = (1, shard_two)"
  by (simp add: insert_simps shard_one_def shard_two_def)

definition replaced :: "string cache_sys" where
  "replaced = \<lparr>cy_shard = shard_two, cy_pcs = [Holding 0 7, Idle], cy_lock = None,
     cy_inserted = [(7, ''a''), (7, ''b'')]\<rparr>"

lemma replaced_reachable: "cache_reachable 2 2 replaced"
proof -
  have "cache_reachable 2 2 (cache_init 2 2 :: string cache_sys)" by (rule cache_reachable.intros(1))
  from reach_insert [OF this, of 0 7 "''a''" True 0 "shard_one 2 5"]
  have "cache_reachable 2 2 \<lparr>cy_shard = shard_one 2 5, cy_pcs = [Holding 0 7, Idle], cy_lock = None,
      cy_inserted = [(7, ''a'')]\<rparr>"
    by (simp add: cache_init_def insert_one numeral_2_eq_2) (simp add: empty_shard_def)
  from reach_insert [OF this, of 1 7 "''b''" False 1 shard_two]
  show ?thesis by (simp add: insert_two replaced_def) (simp add: shard_one_def)
qed

theorem cached_handles_valid_witness:
  "cs_table (cy_shard replaced) 7 = Some 1 \<and> ''a'' \<notin> set (cs_deleted (cy_shard replaced))"
  using cached_handles_valid [OF replaced_reachable, of 0 0 7]
  by (simp add: replaced_def shard_two_def)

theorem cached_values_freed_once_witness:
  "\<exists>y. cache_reachable 1 1 y \<and> cy_inserted y = [(7, ''a'')]
     \<and> mset (destroy_shard (cy_shard y)) = {#''a''#}"
proof -
  let ?y = "\<lparr>cy_shard = shard_one 1 1, cy_pcs = [Idle], cy_lock = None, cy_inserted = [(7, ''a'')]\<rparr>"
  have "cache_reachable 1 1 (cache_init 1 1 :: string cache_sys)" by (rule cache_reachable.intros(1))
  from reach_insert [OF this, of 0 7 "''a''" False 0 "shard_one 1 1"]
  have r: "cache_reachable 1 1 ?y"
    by (simp add: cache_init_def insert_one) (simp add: empty_shard_def)
  from cached_values_freed_once [OF this] have "mset (destroy_shard (cy_shard ?y)) = {#''a''#}" by simp
  with r show ?thesis by (intro exI [of _ ?y]) simp
qed

text \<open>A table key is the lower half of a hash: two hashes with the same lower half displace each other.\<close>

lemma truncated_key: "table_key 7 = table_key (7 + 2 ^ 32)"
  by (simp add: table_key_def)

end
