(* ===== verification/FrontEnd.thy ===== *)
theory FrontEnd imports StateChainSpec ExecMessages begin

text \<open>
  The entry points of \<open>src/executor/TransactionExecutor.cpp\<close> that run one message: \<open>call\<close>,
  \<open>executeTransaction\<close>, \<open>asyncExecute\<close>, \<open>createExecutive\<close> and \<open>getCode\<close>, with the table of
  executives of \<open>src/executive/BlockContext.cpp\<close> and the coroutine of one executive (\<open>start\<close>,
  \<open>resume\<close> and \<open>dispatcher\<close> of \<open>src/executive/TransactionExecutive\<close>).

  The body of a coroutine is a \<open>prog\<close>: given the rows below its block, those of the previous
  block and the rows written in its own block, it runs up to its next switch and changes nothing
  but the rows of its own block.  It either hands a message to the scheduler and waits for the
  answer, or returns, or throws.  Which program a message starts is a parameter
  (\<open>fe_body\<close>; theory \<open>Executive\<close> holds the code between two switches).  The transaction pool, whose
  answers arrive through a callback of bcos-framework, and the default message of the external
  factory are parameters; the callbacks run at once, one request after the other.
\<close>

section \<open>The coroutine of an executive\<close>

datatype prog = Prog "content \<Rightarrow> content option \<Rightarrow> delta \<Rightarrow> event \<times> delta"
and event =
    Yielded call_parameters "call_parameters \<Rightarrow> prog"
  | Returned call_parameters
  | Raised

fun step_prog :: "prog \<Rightarrow> content \<Rightarrow> content option \<Rightarrow> delta \<Rightarrow> event \<times> delta" where
  "step_prog (Prog f) = f"

text \<open>\<open>m_pullMessage\<close>: waiting in a switch, or run to its end.\<close>

datatype exec_state = Waiting "call_parameters \<Rightarrow> prog" | Ended

record executive =
  ex_contract :: string
  ex_contextID :: int
  ex_seq :: int
  ex_state :: exec_state

type_synonym exec_id = "int \<times> int"

text \<open>What \<open>dispatcher\<close> returns for an event, and what is left of the coroutine; the body of
  \<open>start\<close> clears the key locks of its last message.\<close>

fun dispatched :: "event \<Rightarrow> call_parameters option \<times> exec_state" where
  "dispatched (Yielded q k) = (Some q, Waiting k)"
| "dispatched (Returned r) = (Some (r\<lparr>cp_keyLocks := []\<rparr>), Ended)"
| "dispatched Raised = (None, Ended)"

section \<open>Block contexts\<close>

record run_context =
  rc_number :: int
  rc_base :: content
  rc_last :: "content option"
  rc_rows :: delta
  rc_executives :: "exec_id \<rightharpoonup> executive"

text \<open>\<open>insertExecutive\<close> (\<open>None\<close>: it throws) and \<open>getExecutive\<close>.\<close>

definition insert_executive :: "exec_id \<Rightarrow> executive \<Rightarrow> run_context \<Rightarrow> run_context option" where
  "insert_executive i ex c =
     (case rc_executives c i of
        Some _ \<Rightarrow> None
      | None \<Rightarrow> Some (c\<lparr>rc_executives := (rc_executives c)(i \<mapsto> ex)\<rparr>))"

definition get_executive :: "exec_id \<Rightarrow> run_context \<Rightarrow> executive option" where
  "get_executive i c = rc_executives c i"

text \<open>An executive runs to its next switch: its program, its rows and its state.\<close>

definition run_executive ::
    "prog \<Rightarrow> exec_id \<Rightarrow> run_context \<Rightarrow> call_parameters option \<times> run_context" where
  "run_executive p i c =
     (let (ev, rows) = step_prog p (rc_base c) (rc_last c) (rc_rows c);
          (out, st) = dispatched ev
      in (out, c\<lparr>rc_rows := rows,
                 rc_executives := (rc_executives c)
                   (i := map_option (\<lambda>ex. ex\<lparr>ex_state := st\<rparr>) (rc_executives c i))\<rparr>))"

section \<open>One message\<close>

datatype fe_answer = FeError int | FeMessage execution_message | FeThrown | FeUndefined

datatype txpool_answer = TxError | TxNone | TxNull | TxFound string bytes

record fe_env =
  fe_default :: execution_message
  fe_txpool :: "bytes \<Rightarrow> txpool_answer"
  fe_body :: "int \<Rightarrow> call_parameters \<Rightarrow> prog"

definition CALL_ERROR :: int where "CALL_ERROR = -80000 + 3"

definition create_executive :: "string \<Rightarrow> exec_id \<Rightarrow> executive" where
  "create_executive contract i =
     \<lparr>ex_contract = contract, ex_contextID = fst i, ex_seq = snd i, ex_state = Ended\<rparr>"

definition executive_result :: "fe_env \<Rightarrow> executive \<Rightarrow> call_parameters \<Rightarrow> fe_answer" where
  "executive_result E ex q =
     FeMessage (to_execution_result_of (fe_default E) (ex_contextID ex) (ex_seq ex) q)"

text \<open>A new executive: \<open>insertExecutive\<close> stands before the try block, \<open>start\<close> in it.\<close>

definition start_executive ::
    "fe_env \<Rightarrow> exec_id \<Rightarrow> call_parameters \<Rightarrow> run_context \<Rightarrow> fe_answer \<times> run_context" where
  "start_executive E i p c =
     (let ex = create_executive (codeAddress p) i in
      case insert_executive i ex c of
        None \<Rightarrow> (FeThrown, c)
      | Some c1 \<Rightarrow>
          (case run_executive (fe_body E (rc_number c) p) i c1 of
             (Some q, c2) \<Rightarrow> (executive_result E ex q, c2)
           | (None, c2) \<Rightarrow> (FeError (-1), c2)))"

text \<open>\<open>setExchangeMessage\<close> and \<open>resume\<close>, which no handler guards; pulling a coroutine that has
  ended is undefined.\<close>

definition resume_executive ::
    "fe_env \<Rightarrow> exec_id \<Rightarrow> executive \<Rightarrow> call_parameters \<Rightarrow> run_context \<Rightarrow> fe_answer \<times> run_context" where
  "resume_executive E i ex p c =
     (case ex_state ex of
        Ended \<Rightarrow> (FeUndefined, c)
      | Waiting k \<Rightarrow>
          (case run_executive (k p) i c of
             (Some q, c1) \<Rightarrow> (executive_result E ex q, c1)
           | (None, c1) \<Rightarrow> (FeThrown, c1)))"

definition execute_hash ::
    "fe_env \<Rightarrow> execution_message \<Rightarrow> run_context \<Rightarrow> fe_answer \<times> run_context" where
  "execute_hash E m c =
     (case fe_txpool E (em_transactionHash m) of
        TxError \<Rightarrow> (FeError EXECUTE_ERROR, c)
      | TxNone \<Rightarrow> (FeError EXECUTE_ERROR, c)
      | TxNull \<Rightarrow> (FeError EXECUTE_ERROR, c)
      | TxFound sender input \<Rightarrow>
          start_executive E (em_contextID m, em_seq m) (create_call_parameters_tx m sender input) c)"

definition execute_message ::
    "fe_env \<Rightarrow> execution_message \<Rightarrow> bool \<Rightarrow> run_context \<Rightarrow> fe_answer \<times> run_context" where
  "execute_message E m static c =
     (case create_call_parameters m static of
        None \<Rightarrow> (FeThrown, c)
      | Some p \<Rightarrow>
          (case get_executive (em_contextID m, em_seq m) c of
             Some ex \<Rightarrow> resume_executive E (em_contextID m, em_seq m) ex p c
           | None \<Rightarrow> start_executive E (em_contextID m, em_seq m) p c))"

definition execute_key_lock ::
    "fe_env \<Rightarrow> execution_message \<Rightarrow> bool \<Rightarrow> run_context \<Rightarrow> fe_answer \<times> run_context" where
  "execute_key_lock E m static c =
     (case create_call_parameters m static of
        None \<Rightarrow> (FeThrown, c)
      | Some p \<Rightarrow>
          (case get_executive (em_contextID m, em_seq m) c of
             Some ex \<Rightarrow> resume_executive E (em_contextID m, em_seq m) ex p c
           | None \<Rightarrow> (FeError EXECUTE_ERROR, c)))"

definition async_execute ::
    "fe_env \<Rightarrow> execution_message \<Rightarrow> bool \<Rightarrow> run_context \<Rightarrow> fe_answer \<times> run_context" where
  "async_execute E m static c =
     (case em_type m of
        MSG_TXHASH \<Rightarrow> execute_hash E m c
      | MSG_MESSAGE \<Rightarrow> execute_message E m static c
      | MSG_REVERT \<Rightarrow> execute_message E m static c
      | MSG_FINISHED \<Rightarrow> execute_message E m static c
      | MSG_KEY_LOCK \<Rightarrow> execute_key_lock E m static c
      | MSG_SEND_BACK \<Rightarrow> (FeError EXECUTE_ERROR, c)
      | MSG_REVERT_KEY_LOCK \<Rightarrow> (FeError EXECUTE_ERROR, c))"

section \<open>The executor\<close>

text \<open>An entry of \<open>m_calledContext\<close>: a block context with a temporary storage of its own.\<close>

record call_state =
  cs_number :: int
  cs_rows :: delta
  cs_executives :: "exec_id \<rightharpoonup> executive"

record 'b front =
  fr_chain :: "'b chain"
  fr_executives :: "exec_id \<rightharpoonup> executive"
  fr_called :: "exec_id \<rightharpoonup> call_state"

definition new_front :: "content option \<Rightarrow> 'b \<Rightarrow> 'b front" where
  "new_front c b = \<lparr>fr_chain = new_chain c b, fr_executives = Map.empty, fr_called = Map.empty\<rparr>"

definition call_context :: "'b backend \<Rightarrow> 'b chain \<Rightarrow> call_state \<Rightarrow> run_context" where
  "call_context B x s =
     \<lparr>rc_number = cs_number s, rc_base = base_view B x (base_ref x), rc_last = None,
      rc_rows = cs_rows s, rc_executives = cs_executives s\<rparr>"

definition call_state_of :: "run_context \<Rightarrow> call_state" where
  "call_state_of c =
     \<lparr>cs_number = rc_number c, cs_rows = rc_rows c, cs_executives = rc_executives c\<rparr>"

definition message_id :: "execution_message \<Rightarrow> exec_id" where
  "message_id m = (em_contextID m, em_seq m)"

text \<open>The context of a call: a new one for a \<open>MESSAGE\<close>, the kept one for an answer of the
  scheduler.\<close>

definition find_call_state :: "execution_message \<Rightarrow> 'b front \<Rightarrow> call_state option" where
  "find_call_state m fr =
     (case em_type m of
        MSG_MESSAGE \<Rightarrow>
          (case fr_called fr (message_id m) of
             Some _ \<Rightarrow> None
           | None \<Rightarrow> Some \<lparr>cs_number = ch_committed (fr_chain fr), cs_rows = Map.empty,
                           cs_executives = Map.empty\<rparr>)
      | MSG_FINISHED \<Rightarrow> fr_called fr (message_id m)
      | MSG_REVERT \<Rightarrow> fr_called fr (message_id m)
      | _ \<Rightarrow> None)"

text \<open>The callback of \<open>call\<close>.\<close>

definition call_answer :: "fe_answer \<Rightarrow> 'b front \<Rightarrow> fe_answer \<times> 'b front" where
  "call_answer a fr =
     (case a of
        FeError _ \<Rightarrow> (FeError (-1), fr)
      | FeThrown \<Rightarrow> (FeThrown, fr)
      | FeUndefined \<Rightarrow> (FeUndefined, fr)
      | FeMessage r \<Rightarrow>
          (if em_type r = MSG_FINISHED \<or> em_type r = MSG_REVERT
           then (case fr_called fr (message_id r) of
                   None \<Rightarrow> (FeError CALL_ERROR, fr)
                 | Some _ \<Rightarrow> (FeMessage r, fr\<lparr>fr_called := (fr_called fr)(message_id r := None)\<rparr>))
           else (FeMessage r, fr)))"

definition call_request ::
    "'b backend \<Rightarrow> fe_env \<Rightarrow> execution_message \<Rightarrow> 'b front \<Rightarrow> fe_answer \<times> 'b front" where
  "call_request B E m fr =
     (case find_call_state m fr of
        None \<Rightarrow> (FeError CALL_ERROR, fr)
      | Some s \<Rightarrow>
          (let (a, c) = async_execute E m True (call_context B (fr_chain fr) s)
           in call_answer a (fr\<lparr>fr_called := (fr_called fr)(message_id m \<mapsto> call_state_of c)\<rparr>)))"

text \<open>The rows below a block and its own; a read-only storage keeps its rows.\<close>

definition block_run :: "'b backend \<Rightarrow> 'b front \<Rightarrow> block_context \<Rightarrow> run_context" where
  "block_run B fr b =
     \<lparr>rc_number = bc_number b,
      rc_base = (case ch_heap (fr_chain fr) (bc_storage b) of
                   Some l \<Rightarrow> base_view B (fr_chain fr) (ly_prev l) | None \<Rightarrow> (\<lambda>k. None)),
      rc_last = map_option (view B (fr_chain fr)) (bc_last b),
      rc_rows = rows_of (fr_chain fr) (bc_storage b),
      rc_executives = fr_executives fr\<rparr>"

definition store_rows :: "nat \<Rightarrow> delta \<Rightarrow> 'b chain \<Rightarrow> 'b chain" where
  "store_rows i d = set_layer (\<lambda>l. if ly_readonly l then l else l\<lparr>ly_rows := d\<rparr>) i"

definition execute_transaction ::
    "'b backend \<Rightarrow> fe_env \<Rightarrow> execution_message \<Rightarrow> 'b front \<Rightarrow> fe_answer \<times> 'b front" where
  "execute_transaction B E m fr =
     (case ch_context (fr_chain fr) of
        None \<Rightarrow> (FeError EXECUTE_ERROR, fr)
      | Some b \<Rightarrow>
          (let (a, c) = async_execute E m False (block_run B fr b)
           in (case a of FeError _ \<Rightarrow> FeError (-1) | _ \<Rightarrow> a,
               fr\<lparr>fr_chain := store_rows (bc_storage b) (rc_rows c) (fr_chain fr),
                  fr_executives := rc_executives c\<rparr>)))"

text \<open>The operations on block states; an accepted header brings a new block context, and the
  executives of the old one are gone.\<close>

definition chain_request :: "'b backend \<Rightarrow> chain_op \<Rightarrow> 'b front \<Rightarrow> 'b front" where
  "chain_request B op fr =
     fr\<lparr>fr_chain := chain_run B op (fr_chain fr),
        fr_executives := (case op of
            OpHeader n \<Rightarrow> if fst (next_block_header n (fr_chain fr)) = ChNull then Map.empty
                          else fr_executives fr
          | _ \<Rightarrow> fr_executives fr)\<rparr>"

section \<open>getCode\<close>

text \<open>\<open>getContractTableName\<close> of \<open>src/Common.h\<close>.\<close>

definition contract_table_name :: "string \<Rightarrow> string" where
  "contract_table_name a =
     ''/apps/'' @ (let lower = map lower_char a in if take 1 a = ''/'' then drop 1 lower else lower)"

text \<open>The read of the storage is a parameter: it fails, finds no row, or finds the code.\<close>

definition get_code :: "(string \<Rightarrow> string \<Rightarrow> bytes option option) \<Rightarrow> string \<Rightarrow> (int + bytes)" where
  "get_code read contract =
     (case read (contract_table_name contract) ''code'' of
        None \<Rightarrow> Inl (-1)
      | Some None \<Rightarrow> Inr []
      | Some (Some code) \<Rightarrow> Inr code)"

section \<open>Runs\<close>

datatype request =
    RqCall execution_message
  | RqExecute execution_message
  | RqChain chain_op

definition front_step ::
    "'b backend \<Rightarrow> fe_env \<Rightarrow> request \<Rightarrow> 'b front \<Rightarrow> fe_answer option \<times> 'b front" where
  "front_step B E r fr =
     (case r of
        RqCall m \<Rightarrow> (let (a, fr') = call_request B E m fr in (Some a, fr'))
      | RqExecute m \<Rightarrow> (let (a, fr') = execute_transaction B E m fr in (Some a, fr'))
      | RqChain op \<Rightarrow> (None, chain_request B op fr))"

fun front_run ::
    "'b backend \<Rightarrow> fe_env \<Rightarrow> request list \<Rightarrow> 'b front \<Rightarrow> fe_answer option list \<times> 'b front" where
  "front_run B E [] fr = ([], fr)"
| "front_run B E (r # rs) fr =
     (let (a, fr1) = front_step B E r fr; (as, fr2) = front_run B E rs fr1 in (a # as, fr2))"

inductive front_reach :: "'b backend \<Rightarrow> fe_env \<Rightarrow> 'b front \<Rightarrow> 'b front \<Rightarrow> bool" for B E f0 where
  start: "front_reach B E f0 f0"
| step: "front_reach B E f0 f \<Longrightarrow> front_reach B E f0 (snd (front_step B E r f))"

end
