(* ===== verification/FrontEndSpec.thy ===== *)
theory FrontEndSpec imports FrontEnd begin

text \<open>
  What the entry points promise.  A call is invisible to every other request; its programs run
  against the scheduler's answers exactly as they stand (\<open>talk\<close>); and the table of call
  contexts holds exactly the calls that still wait, plus those whose program threw.
\<close>

section \<open>Programs that hand out requests and return answers\<close>

inductive typed_prog :: "prog \<Rightarrow> bool" where
  "(\<And>c l d q k. fst (f c l d) = Yielded q k \<Longrightarrow> cp_type q \<in> {CP_MESSAGE, CP_KEY_LOCK})
   \<Longrightarrow> (\<And>c l d q k p. fst (f c l d) = Yielded q k \<Longrightarrow> typed_prog (k p))
   \<Longrightarrow> (\<And>c l d r. fst (f c l d) = Returned r \<Longrightarrow> cp_type r \<in> {CP_FINISHED, CP_REVERT})
   \<Longrightarrow> typed_prog (Prog f)"

lemma typed_step:
  assumes "typed_prog p"
  shows "fst (step_prog p c l d) = Yielded q k \<Longrightarrow> cp_type q \<in> {CP_MESSAGE, CP_KEY_LOCK} \<and> typed_prog (k a)"
    and "fst (step_prog p c l d) = Returned r \<Longrightarrow> cp_type r \<in> {CP_FINISHED, CP_REVERT}"
  using assms by (cases; auto)+

section \<open>The invariant\<close>

definition state_ok :: "exec_state \<Rightarrow> bool" where
  "state_ok st = (case st of Ended \<Rightarrow> True | Waiting k \<Rightarrow> (\<forall>p. typed_prog (k p)))"

definition executive_ok :: "exec_id \<Rightarrow> executive \<Rightarrow> bool" where
  "executive_ok i ex \<longleftrightarrow> (ex_contextID ex, ex_seq ex) = i"

definition called_ok :: "'b front \<Rightarrow> bool" where
  "called_ok fr \<longleftrightarrow> (\<forall>i s. fr_called fr i = Some s \<longrightarrow>
     (\<exists>ex. cs_executives s = [i \<mapsto> ex] \<and> executive_ok i ex))"

definition called_typed :: "'b front \<Rightarrow> bool" where
  "called_typed fr \<longleftrightarrow> (\<forall>i s ex. fr_called fr i = Some s \<longrightarrow> cs_executives s i = Some ex \<longrightarrow>
     state_ok (ex_state ex))"

lemma message_id_result [simp]:
  "message_id (to_execution_result_of m0 a b q) = (a, b)"
  by (simp add: message_id_def to_execution_result_of_def)

lemma type_result [simp]:
  "em_type (to_execution_result_of m0 a b q) = (case cp_type q of CP_MESSAGE \<Rightarrow> MSG_MESSAGE
     | CP_KEY_LOCK \<Rightarrow> MSG_KEY_LOCK | CP_FINISHED \<Rightarrow> MSG_FINISHED | CP_REVERT \<Rightarrow> MSG_REVERT)"
  by (simp add: to_execution_result_of_def result_header_simps split: call_type.split)

section \<open>A call step\<close>

text \<open>A message for a call starts its executive or resumes it; both run a program to its next
  switch.\<close>

definition call_after ::
    "fe_env \<Rightarrow> exec_id \<Rightarrow> fe_answer \<Rightarrow> event \<Rightarrow> fe_answer" where
  "call_after E i raised ev =
     (case ev of
        Yielded q k \<Rightarrow> FeMessage (to_execution_result_of (fe_default E) (fst i) (snd i) q)
      | Returned r \<Rightarrow> FeMessage (to_execution_result_of (fe_default E) (fst i) (snd i) (r\<lparr>cp_keyLocks := []\<rparr>))
      | Raised \<Rightarrow> raised)"

definition params_of :: "execution_message \<Rightarrow> call_parameters" where
  "params_of m = the (create_call_parameters m True)"

lemma params_some:
  "em_type m \<in> {MSG_MESSAGE, MSG_FINISHED, MSG_REVERT} \<Longrightarrow>
     create_call_parameters m static = Some (the (create_call_parameters m static))"
  by (auto simp: create_call_parameters_def call_type_of_def)

lemma start_run:
  assumes "rc_executives c i = None"
    and "step_prog (fe_body E (rc_number c) p) (rc_base c) (rc_last c) (rc_rows c) = (ev, rows)"
  shows "start_executive E i p c =
     (call_after E i (FeError (-1)) ev,
      c\<lparr>rc_rows := rows, rc_executives := (rc_executives c)(i \<mapsto>
          (create_executive (codeAddress p) i)\<lparr>ex_state := snd (dispatched ev)\<rparr>)\<rparr>)"
  using assms
  by (cases ev) (simp_all add: start_executive_def insert_executive_def run_executive_def
      call_after_def executive_result_def create_executive_def)

lemma resume_run:
  assumes "rc_executives c i = Some ex" and "ex_state ex = Waiting k" and "(ex_contextID ex, ex_seq ex) = i"
    and "step_prog (k p) (rc_base c) (rc_last c) (rc_rows c) = (ev, rows)"
  shows "resume_executive E i ex p c =
     (call_after E i FeThrown ev,
      c\<lparr>rc_rows := rows, rc_executives := (rc_executives c)(i \<mapsto> ex\<lparr>ex_state := snd (dispatched ev)\<rparr>)\<rparr>)"
  using assms
  by (cases ev) (auto simp: resume_executive_def run_executive_def call_after_def executive_result_def)

definition set_called :: "exec_id \<Rightarrow> call_state \<Rightarrow> 'b front \<Rightarrow> 'b front" where
  "set_called i s fr = fr\<lparr>fr_called := (fr_called fr)(i \<mapsto> s)\<rparr>"

definition drop_called :: "exec_id \<Rightarrow> 'b front \<Rightarrow> 'b front" where
  "drop_called i fr = fr\<lparr>fr_called := (fr_called fr)(i := None)\<rparr>"

abbreviation "committed_rows B fr \<equiv> base_view B (fr_chain fr) (base_ref (fr_chain fr))"

text \<open>The answer of a call after its program has stopped at \<open>ev\<close>.\<close>

lemma call_answer_event:
  assumes "fr_called fr i \<noteq> None" and "raised = FeError (-1) \<or> raised = FeThrown"
  shows "call_answer (call_after E i raised ev) fr =
     (call_after E i raised ev,
      if (case ev of Yielded q _ \<Rightarrow> cp_type q \<in> {CP_FINISHED, CP_REVERT}
           | Returned r \<Rightarrow> cp_type r \<in> {CP_FINISHED, CP_REVERT} | Raised \<Rightarrow> False)
      then drop_called i fr else fr)"
  using assms
  by (auto simp: call_answer_def call_after_def drop_called_def split: event.split call_type.splits)

lemma call_state_of_context [simp]: "call_state_of (call_context B x s) = s"
  by (simp add: call_state_of_def call_context_def)

lemma new_call_step:
  assumes "em_type m = MSG_MESSAGE" and "fr_called fr (message_id m) = None"
    and "step_prog (fe_body E (ch_committed (fr_chain fr)) (params_of m)) (committed_rows B fr) None Map.empty
         = (ev, rows)"
  shows "call_request B E m fr = call_answer (call_after E (message_id m) (FeError (-1)) ev)
     (set_called (message_id m)
        \<lparr>cs_number = ch_committed (fr_chain fr), cs_rows = rows, cs_executives = [message_id m \<mapsto>
           (create_executive (codeAddress (params_of m)) (message_id m))\<lparr>ex_state := snd (dispatched ev)\<rparr>]\<rparr> fr)"
proof -
  have p: "create_call_parameters m True = Some (params_of m)"
    using assms(1) params_some by (simp add: params_of_def)
  have i: "(em_contextID m, em_seq m) = message_id m" by (simp add: message_id_def)
  let ?s = "\<lparr>cs_number = ch_committed (fr_chain fr), cs_rows = Map.empty, cs_executives = Map.empty\<rparr>"
  have "start_executive E (message_id m) (params_of m) (call_context B (fr_chain fr) ?s) =
     (call_after E (message_id m) (FeError (-1)) ev,
      (call_context B (fr_chain fr) ?s)\<lparr>rc_rows := rows, rc_executives := [message_id m \<mapsto>
        (create_executive (codeAddress (params_of m)) (message_id m))\<lparr>ex_state := snd (dispatched ev)\<rparr>]\<rparr>)"
    using assms(3) by (subst start_run [where ev = ev and rows = rows]) (simp_all add: call_context_def)
  then show ?thesis
    using assms(1,2) p i
    by (simp add: call_request_def find_call_state_def async_execute_def execute_message_def
        get_executive_def call_context_def call_state_of_def set_called_def)
qed

lemma answered_call_step:
  assumes "em_type m \<in> {MSG_FINISHED, MSG_REVERT}" and "fr_called fr (message_id m) = Some s"
    and "cs_executives s = [message_id m \<mapsto> ex]" and "(ex_contextID ex, ex_seq ex) = message_id m"
    and "ex_state ex = Waiting k"
    and "step_prog (k (params_of m)) (committed_rows B fr) None (cs_rows s) = (ev, rows)"
  shows "call_request B E m fr = call_answer (call_after E (message_id m) FeThrown ev)
     (set_called (message_id m)
        \<lparr>cs_number = cs_number s, cs_rows = rows,
         cs_executives = [message_id m \<mapsto> ex\<lparr>ex_state := snd (dispatched ev)\<rparr>]\<rparr> fr)"
proof -
  have p: "create_call_parameters m True = Some (params_of m)"
    using assms(1) params_some [of m True] by (auto simp: params_of_def)
  have i: "(em_contextID m, em_seq m) = message_id m" by (simp add: message_id_def)
  have "resume_executive E (message_id m) ex (params_of m) (call_context B (fr_chain fr) s) =
     (call_after E (message_id m) FeThrown ev,
      (call_context B (fr_chain fr) s)\<lparr>rc_rows := rows, rc_executives := [message_id m \<mapsto>
        ex\<lparr>ex_state := snd (dispatched ev)\<rparr>]\<rparr>)"
    using assms(3-6)
    by (subst resume_run [where ev = ev and rows = rows and k = k]) (simp_all add: call_context_def)
  then show ?thesis
    using assms(1-3) p i
    by (auto simp: call_request_def find_call_state_def async_execute_def execute_message_def
        get_executive_def call_context_def call_state_of_def set_called_def)
qed

lemma dead_call_step:
  assumes "em_type m \<in> {MSG_FINISHED, MSG_REVERT}" and "fr_called fr (message_id m) = Some s"
    and "cs_executives s = [message_id m \<mapsto> ex]" and "ex_state ex = Ended"
  shows "call_request B E m fr = (FeUndefined, fr)"
proof -
  have p: "create_call_parameters m True = Some (params_of m)"
    using assms(1) params_some [of m True] by (auto simp: params_of_def)
  have i: "(em_contextID m, em_seq m) = message_id m" by (simp add: message_id_def)
  have q: "async_execute E m True (call_context B (fr_chain fr) s) = (FeUndefined, call_context B (fr_chain fr) s)"
    using assms p i
    by (auto simp: async_execute_def execute_message_def get_executive_def call_context_def
        resume_executive_def)
  have "fr\<lparr>fr_called := (fr_called fr)(message_id m \<mapsto> s)\<rparr> = fr"
    using assms(2) by (simp add: fun_upd_idem)
  moreover have "find_call_state m fr = Some s" using assms(1,2) by (auto simp: find_call_state_def)
  ultimately show ?thesis using q by (simp add: call_request_def call_answer_def)
qed

lemma refused_call_step:
  "find_call_state m fr = None \<Longrightarrow> call_request B E m fr = (FeError CALL_ERROR, fr)"
  by (simp add: call_request_def)

text \<open>The four ways a call request can go.\<close>

lemma call_cases:
  assumes "called_ok fr"
  obtains (refused) "call_request B E m fr = (FeError CALL_ERROR, fr)"
      "find_call_state m fr = None"
  | (new) ev rows s where "em_type m = MSG_MESSAGE" "fr_called fr (message_id m) = None"
      "step_prog (fe_body E (ch_committed (fr_chain fr)) (params_of m)) (committed_rows B fr) None Map.empty
         = (ev, rows)"
      "cs_executives s = [message_id m \<mapsto> (create_executive (codeAddress (params_of m)) (message_id m))
          \<lparr>ex_state := snd (dispatched ev)\<rparr>]"
      "call_request B E m fr =
         call_answer (call_after E (message_id m) (FeError (-1)) ev) (set_called (message_id m) s fr)"
  | (resumed) s ex k ev rows s' where "em_type m \<in> {MSG_FINISHED, MSG_REVERT}"
      "fr_called fr (message_id m) = Some s" "cs_executives s = [message_id m \<mapsto> ex]"
      "executive_ok (message_id m) ex" "ex_state ex = Waiting k"
      "step_prog (k (params_of m)) (committed_rows B fr) None (cs_rows s) = (ev, rows)"
      "cs_executives s' = [message_id m \<mapsto> ex\<lparr>ex_state := snd (dispatched ev)\<rparr>]"
      "call_request B E m fr =
         call_answer (call_after E (message_id m) FeThrown ev) (set_called (message_id m) s' fr)"
  | (dead) s ex where "em_type m \<in> {MSG_FINISHED, MSG_REVERT}"
      "fr_called fr (message_id m) = Some s" "cs_executives s = [message_id m \<mapsto> ex]"
      "ex_state ex = Ended" "call_request B E m fr = (FeUndefined, fr)"
proof (cases "find_call_state m fr")
  case None
  then show ?thesis using refused refused_call_step by blast
next
  case (Some s)
  show ?thesis
  proof (cases "em_type m = MSG_MESSAGE")
    case True
    with Some have n: "fr_called fr (message_id m) = None"
      by (simp add: find_call_state_def split: option.splits)
    obtain ev rows where e: "step_prog (fe_body E (ch_committed (fr_chain fr)) (params_of m))
        (committed_rows B fr) None Map.empty = (ev, rows)" by fastforce
    show ?thesis using new [OF True n e _ new_call_step [OF True n e]] by simp
  next
    case False
    with Some have t: "em_type m \<in> {MSG_FINISHED, MSG_REVERT}" and s: "fr_called fr (message_id m) = Some s"
      by (auto simp: find_call_state_def split: message_type.splits)
    then obtain ex where ex: "cs_executives s = [message_id m \<mapsto> ex]" "executive_ok (message_id m) ex"
      using assms unfolding called_ok_def by blast
    show ?thesis
    proof (cases "ex_state ex")
      case Ended
      with t s ex show ?thesis using dead dead_call_step by blast
    next
      case (Waiting k)
      obtain ev rows where e: "step_prog (k (params_of m)) (committed_rows B fr) None (cs_rows s) = (ev, rows)"
        by fastforce
      have i: "(ex_contextID ex, ex_seq ex) = message_id m" using ex(2) by (simp add: executive_ok_def)
      show ?thesis
        using resumed [OF t s ex Waiting e _ answered_call_step [OF t s ex(1) i Waiting e]] by simp
    qed
  qed
qed

section \<open>Every call request\<close>

definition keeps_others :: "exec_id \<Rightarrow> 'b front \<Rightarrow> 'b front \<Rightarrow> bool" where
  "keeps_others i fr fr' \<longleftrightarrow> fr_chain fr' = fr_chain fr \<and> fr_executives fr' = fr_executives fr
     \<and> (\<forall>j. j \<noteq> i \<longrightarrow> fr_called fr' j = fr_called fr j)"

lemma call_keeps_others:
  assumes "called_ok fr"
  shows "keeps_others (message_id m) fr (snd (call_request B E m fr))"
  using assms
  by (cases rule: call_cases [of fr B E m])
    (auto simp: keeps_others_def call_answer_event set_called_def drop_called_def)

lemma state_ok_dispatched:
  assumes "typed_prog p" and "step_prog p c l d = (ev, d')"
  shows "state_ok (snd (dispatched ev))"
  using assms typed_step [OF assms(1), of c l d] by (cases ev) (auto simp: state_ok_def)

lemma executive_ok_create [simp]: "executive_ok i (create_executive a i)"
  by (simp add: executive_ok_def create_executive_def)

lemma executive_ok_new [simp]: "executive_ok i ((create_executive a i)\<lparr>ex_state := st\<rparr>)"
  by (simp add: executive_ok_def create_executive_def)

lemma executive_ok_state [simp]: "executive_ok i (ex\<lparr>ex_state := st\<rparr>) = executive_ok i ex"
  by (simp add: executive_ok_def)

lemma called_ok_set:
  "called_ok fr \<Longrightarrow> cs_executives s = [i \<mapsto> ex] \<Longrightarrow> executive_ok i ex \<Longrightarrow> called_ok (set_called i s fr)"
  unfolding called_ok_def set_called_def by (simp del: split_paired_All split_paired_Ex) blast

lemma called_ok_drop: "called_ok fr \<Longrightarrow> called_ok (drop_called i fr)"
  unfolding called_ok_def drop_called_def by (simp del: split_paired_All split_paired_Ex)

lemma called_typed_set:
  "called_typed fr \<Longrightarrow> cs_executives s = [i \<mapsto> ex] \<Longrightarrow> state_ok (ex_state ex)
   \<Longrightarrow> called_typed (set_called i s fr)"
  unfolding called_typed_def set_called_def by (simp del: split_paired_All split_paired_Ex)

lemma called_typed_drop: "called_typed fr \<Longrightarrow> called_typed (drop_called i fr)"
  unfolding called_typed_def drop_called_def by (simp del: split_paired_All split_paired_Ex)

lemma called_present [simp]: "fr_called (set_called i s fr) i = Some s"
  by (simp add: set_called_def)

lemma call_keeps_ok:
  assumes ok: "called_ok fr"
  shows "called_ok (snd (call_request B E m fr))"
  using ok
proof (cases rule: call_cases [of fr B E m])
  case (new ev rows s)
  have "called_ok (set_called (message_id m) s fr)"
    by (rule called_ok_set [OF ok new(4)]) simp
  then show ?thesis using new(5) by (simp add: call_answer_event called_ok_drop)
next
  case (resumed s ex k ev rows s')
  have "called_ok (set_called (message_id m) s' fr)"
    using resumed(4) by (intro called_ok_set [OF ok resumed(7)]) simp
  then show ?thesis using resumed(8) by (simp add: call_answer_event called_ok_drop)
qed (use ok in simp_all)

lemma call_keeps_typed:
  assumes ok: "called_ok fr" and "called_typed fr" and typed: "\<And>n p. typed_prog (fe_body E n p)"
  shows "called_typed (snd (call_request B E m fr))"
  using ok
proof (cases rule: call_cases [of fr B E m])
  case refused
  then show ?thesis using assms(2) by simp
next
  case (new ev rows s)
  have "state_ok (snd (dispatched ev))"
    by (rule state_ok_dispatched [OF typed new(3)])
  then have "called_typed (set_called (message_id m) s fr)"
    by (intro called_typed_set [OF assms(2) new(4)]) simp
  then show ?thesis using new(5) by (simp add: call_answer_event called_typed_drop)
next
  case (resumed s ex k ev rows s')
  have "cs_executives s (message_id m) = Some ex" using resumed(3) by simp
  then have "state_ok (ex_state ex)"
    using assms(2) resumed(2) unfolding called_typed_def by blast
  then have "typed_prog (k (params_of m))" using resumed(5) by (simp add: state_ok_def)
  then have "state_ok (snd (dispatched ev))"
    using state_ok_dispatched resumed(6) by blast
  then have "called_typed (set_called (message_id m) s' fr)"
    by (intro called_typed_set [OF assms(2) resumed(7)]) simp
  then show ?thesis using resumed(8) by (simp add: call_answer_event called_typed_drop)
next
  case (dead s ex)
  then show ?thesis using assms(2) by simp
qed

lemma step_fields:
  "snd (front_step B E (RqCall m) fr) = snd (call_request B E m fr)"
  "fst (front_step B E (RqCall m) fr) = Some (fst (call_request B E m fr))"
  "fr_called (snd (front_step B E (RqExecute m) fr)) = fr_called fr"
  "fr_called (snd (front_step B E (RqChain op) fr)) = fr_called fr"
  by (simp_all add: front_step_def execute_transaction_def chain_request_def split: prod.split option.split)

lemma step_keeps_ok:
  assumes "called_ok fr"
  shows "called_ok (snd (front_step B E r fr))"
  using assms call_keeps_ok [OF assms] by (cases r) (simp_all add: called_ok_def step_fields)

lemma step_keeps_typed:
  assumes "called_ok fr" and "called_typed fr" and "\<And>n p. typed_prog (fe_body E n p)"
  shows "called_typed (snd (front_step B E r fr))"
  using assms(2) call_keeps_typed [OF assms] by (cases r) (simp_all add: called_typed_def step_fields)

lemma new_front_ok: "called_ok (new_front c b)" "called_typed (new_front c b)"
  by (simp_all add: new_front_def called_ok_def called_typed_def)

lemma front_reach_ok:
  assumes "front_reach B E (new_front c b) fr"
  shows "called_ok fr"
  using assms by induction (simp_all add: new_front_ok step_keeps_ok)

lemma front_reach_typed:
  assumes "front_reach B E (new_front c b) fr" and "\<And>n p. typed_prog (fe_body E n p)"
  shows "called_typed fr"
  using assms(1)
proof induction
  case start
  then show ?case by (simp add: new_front_ok)
next
  case (step f r)
  show ?case by (rule step_keeps_typed [OF front_reach_ok [OF step(1)] step(2) assms(2)])
qed

section \<open>Calls and the other requests\<close>

text \<open>Two executors that differ in the calls outside \<open>P\<close> only.\<close>

definition same_but_calls :: "exec_id set \<Rightarrow> 'b front \<Rightarrow> 'b front \<Rightarrow> bool" where
  "same_but_calls P f g \<longleftrightarrow> fr_chain g = fr_chain f \<and> fr_executives g = fr_executives f
     \<and> fr_called g |` P = fr_called f |` P"

lemma restrict_at: "m |` P = n |` P \<Longrightarrow> i \<in> P \<Longrightarrow> m i = n i"
  by (metis restrict_in)

lemma call_same:
  assumes f: "called_ok f" and g: "called_ok g" and "same_but_calls P f g" and "message_id m \<in> P"
  shows "fst (call_request B E m g) = fst (call_request B E m f)"
    and "same_but_calls P (snd (call_request B E m f)) (snd (call_request B E m g))"
proof -
  let ?i = "message_id m"
  have c: "fr_chain g = fr_chain f" "fr_called g ?i = fr_called f ?i"
    using assms(3,4) restrict_at by (auto simp: same_but_calls_def)
  have "fst (call_request B E m g) = fst (call_request B E m f)
    \<and> fr_called (snd (call_request B E m g)) ?i = fr_called (snd (call_request B E m f)) ?i"
    using f
  proof (cases rule: call_cases [of f B E m])
    case refused
    then have "find_call_state m g = None"
      using c by (auto simp: find_call_state_def split: message_type.splits option.splits)
    then show ?thesis using refused c by (simp add: refused_call_step)
  next
    case (new ev rows s)
    show ?thesis
      using new_call_step [of m g E B ev rows] new_call_step [of m f E B ev rows] new(1-3) c
      by (simp add: call_answer_event set_called_def drop_called_def)
  next
    case (resumed s ex k ev rows s')
    have i: "(ex_contextID ex, ex_seq ex) = ?i" using resumed(4) by (simp add: executive_ok_def)
    show ?thesis
      using answered_call_step [of m g s ex k B ev rows E] answered_call_step [of m f s ex k B ev rows E]
        resumed(1-3,5,6) c i
      by (simp add: call_answer_event set_called_def drop_called_def)
  next
    case (dead s ex)
    then show ?thesis using dead_call_step [of m g s ex B E] c by simp
  qed
  then show "fst (call_request B E m g) = fst (call_request B E m f)"
    and "same_but_calls P (snd (call_request B E m f)) (snd (call_request B E m g))"
    using call_keeps_others [OF f, of m B E] call_keeps_others [OF g, of m B E] assms(3)
    by (auto simp: same_but_calls_def keeps_others_def restrict_map_def fun_eq_iff) metis+
qed

definition concerns :: "exec_id set \<Rightarrow> request \<Rightarrow> bool" where
  "concerns P r = (case r of RqCall m \<Rightarrow> message_id m \<in> P | _ \<Rightarrow> True)"

lemma step_same:
  assumes f: "called_ok f" and g: "called_ok g" and s: "same_but_calls P f g" and "concerns P r"
  shows "fst (front_step B E r g) = fst (front_step B E r f)"
    and "same_but_calls P (snd (front_step B E r f)) (snd (front_step B E r g))"
proof -
  have "fst (front_step B E r g) = fst (front_step B E r f)
    \<and> same_but_calls P (snd (front_step B E r f)) (snd (front_step B E r g))"
  proof (cases r)
    case (RqCall m)
    then show ?thesis using call_same [OF f g s] assms(4) by (simp add: concerns_def step_fields)
  next
    case (RqExecute m)
    then show ?thesis using s
      by (auto simp: same_but_calls_def front_step_def execute_transaction_def block_run_def
          split: option.split prod.split)
  next
    case (RqChain op)
    then show ?thesis using s
      by (auto simp: same_but_calls_def front_step_def chain_request_def split: chain_op.split)
  qed
  then show "fst (front_step B E r g) = fst (front_step B E r f)"
    and "same_but_calls P (snd (front_step B E r f)) (snd (front_step B E r g))" by auto
qed

lemma step_dropped:
  assumes "called_ok f" and "same_but_calls P f g" and "\<not> concerns P r"
  shows "same_but_calls P (snd (front_step B E r f)) g"
proof -
  obtain m where m: "r = RqCall m" "message_id m \<notin> P"
    using assms(3) by (auto simp: concerns_def split: request.splits)
  show ?thesis
    using call_keeps_others [OF assms(1), of m B E] m assms(2)
    by (simp add: same_but_calls_def keeps_others_def step_fields restrict_map_def fun_eq_iff) metis
qed

lemma run_same:
  assumes "called_ok f" and "called_ok g" and "same_but_calls P f g"
  shows "fst (front_run B E (filter (concerns P) rs) g)
       = map snd (filter (\<lambda>(r, a). concerns P r) (zip rs (fst (front_run B E rs f))))
    \<and> same_but_calls P (snd (front_run B E rs f)) (snd (front_run B E (filter (concerns P) rs) g))"
  using assms
proof (induction rs arbitrary: f g)
  case Nil
  then show ?case by simp
next
  case (Cons r rs)
  have f': "called_ok (snd (front_step B E r f))" by (rule step_keeps_ok [OF Cons.prems(1)])
  show ?case
  proof (cases "concerns P r")
    case True
    note c = step_same [OF Cons.prems True, of B E]
    have "called_ok (snd (front_step B E r g))" by (rule step_keeps_ok [OF Cons.prems(2)])
    from Cons.IH [OF f' this c(2)] show ?thesis
      using True c(1) by (simp add: case_prod_beta Let_def)
  next
    case False
    from Cons.IH [OF f' Cons.prems(2) step_dropped [OF Cons.prems(1,3) False]] show ?thesis
      using False by (simp add: case_prod_beta Let_def)
  qed
qed

text \<open>C8: Read-only calls cannot be seen: leaving out, from any sequence of calls, transactions and
  block operations, the calls with some identifiers changes neither the answers of the remaining
  requests, nor the block states, nor the executives of the block, nor the contexts of the
  remaining calls.\<close>
theorem calls_do_not_interfere:
  "(let (as, f) = front_run B E rs (new_front c b);
        (bs, g) = front_run B E (filter (concerns P) rs) (new_front c b)
    in bs = map snd (filter (\<lambda>(r, a). concerns P r) (zip rs as))
       \<and> fr_chain g = fr_chain f \<and> fr_executives g = fr_executives f
       \<and> fr_called g |` P = fr_called f |` P)"
  using run_same [OF new_front_ok(1) new_front_ok(1), of P c b c b B E rs]
  by (simp add: same_but_calls_def case_prod_beta Let_def)

section \<open>The life of a call context\<close>

definition call_waits :: "exec_id \<Rightarrow> 'b front \<Rightarrow> bool" where
  "call_waits i fr = (case fr_called fr i of None \<Rightarrow> False
     | Some s \<Rightarrow> (case cs_executives s i of None \<Rightarrow> False
         | Some ex \<Rightarrow> (case ex_state ex of Waiting k \<Rightarrow> True | Ended \<Rightarrow> False)))"

definition call_failed :: "exec_id \<Rightarrow> 'b front \<Rightarrow> bool" where
  "call_failed i fr = (case fr_called fr i of None \<Rightarrow> False
     | Some s \<Rightarrow> (case cs_executives s i of None \<Rightarrow> False
         | Some ex \<Rightarrow> (case ex_state ex of Waiting k \<Rightarrow> False | Ended \<Rightarrow> True)))"

definition call_outcome :: "execution_message \<Rightarrow> 'b front \<Rightarrow> fe_answer \<Rightarrow> 'b front \<Rightarrow> bool" where
  "call_outcome m fr a fr' =
     (case a of
        FeMessage r \<Rightarrow> message_id r = message_id m
          \<and> (if em_type r \<in> {MSG_FINISHED, MSG_REVERT} then fr_called fr' (message_id m) = None
             else em_type r \<in> {MSG_MESSAGE, MSG_KEY_LOCK} \<and> call_waits (message_id m) fr')
      | FeError e \<Rightarrow> (if e = CALL_ERROR then fr' = fr
                    else em_type m = MSG_MESSAGE \<and> call_failed (message_id m) fr')
      | FeThrown \<Rightarrow> call_waits (message_id m) fr \<and> call_failed (message_id m) fr'
      | FeUndefined \<Rightarrow> call_failed (message_id m) fr \<and> fr' = fr)"

lemma call_waits_set:
  "cs_executives s = [i \<mapsto> ex] \<Longrightarrow> call_waits i (set_called i s fr) = (ex_state ex \<noteq> Ended)"
  "cs_executives s = [i \<mapsto> ex] \<Longrightarrow> call_failed i (set_called i s fr) = (ex_state ex = Ended)"
  by (auto simp: call_waits_def call_failed_def split: exec_state.splits)

lemma event_outcome:
  assumes raised: "raised = FeError (-1) \<and> em_type m = MSG_MESSAGE
      \<or> raised = FeThrown \<and> call_waits (message_id m) fr"
    and s: "cs_executives s = [message_id m \<mapsto> ex\<lparr>ex_state := snd (dispatched ev)\<rparr>]"
    and y: "\<And>q k. ev = Yielded q k \<Longrightarrow> cp_type q \<in> {CP_MESSAGE, CP_KEY_LOCK}"
    and r: "\<And>r. ev = Returned r \<Longrightarrow> cp_type r \<in> {CP_FINISHED, CP_REVERT}"
  shows "case call_answer (call_after E (message_id m) raised ev) (set_called (message_id m) s fr) of
    (a, fr') \<Rightarrow> call_outcome m fr a fr'"
proof -
  note answer = call_answer_event [of "set_called (message_id m) s fr" "message_id m" raised E ev]
  have "raised = FeError (-1) \<or> raised = FeThrown" using raised by blast
  note answer = answer [OF _ this, simplified]
  show ?thesis
  proof (cases ev)
    case (Yielded q k)
    then have "ex_state (ex\<lparr>ex_state := snd (dispatched ev)\<rparr>) \<noteq> Ended" by simp
    then have "call_waits (message_id m) (set_called (message_id m) s fr)"
      by (simp only: call_waits_set(1) [OF s])  simp
    with y [OF Yielded] Yielded show ?thesis
      unfolding answer by (auto simp: call_after_def call_outcome_def)
  next
    case (Returned r')
    with r [OF Returned] show ?thesis
      unfolding answer by (auto simp: call_after_def call_outcome_def drop_called_def)
  next
    case Raised
    then have "ex_state (ex\<lparr>ex_state := snd (dispatched ev)\<rparr>) = Ended" by simp
    then have "call_failed (message_id m) (set_called (message_id m) s fr)"
      by (simp only: call_waits_set(2) [OF s]) 
    with raised Raised show ?thesis
      unfolding answer by (auto simp: call_after_def call_outcome_def CALL_ERROR_def)
  qed
qed

text \<open>C13: The table of call contexts follows the calls: an answer \<open>FINISHED\<close> or \<open>REVERT\<close> frees the
  identifier, a request handed to the scheduler leaves an executive waiting for exactly that
  identifier, a refused call changes nothing, and a context whose executive has ended is left
  only by a program that threw; no call changes the block states or the other calls.\<close>
theorem call_contexts_tracked:
  assumes "front_reach B E (new_front c b) fr" and typed: "\<And>n p. typed_prog (fe_body E n p)"
    and "call_request B E m fr = (a, fr')"
  shows "call_outcome m fr a fr' \<and> keeps_others (message_id m) fr fr'"
proof -
  have ok: "called_ok fr" by (rule front_reach_ok [OF assms(1)])
  have ty: "called_typed fr" by (rule front_reach_typed [OF assms(1) typed])
  have "case call_request B E m fr of (a, fr') \<Rightarrow> call_outcome m fr a fr'"
    using ok
  proof (cases rule: call_cases [of fr B E m])
    case refused
    then show ?thesis by (simp add: call_outcome_def)
  next
    case (new ev rows s)
    have e: "fst (step_prog (fe_body E (ch_committed (fr_chain fr)) (params_of m))
        (committed_rows B fr) None Map.empty) = ev" using new(3) by simp
    show ?thesis
      unfolding new(5)
    proof (rule event_outcome [OF _ new(4)])
      show "cp_type q \<in> {CP_MESSAGE, CP_KEY_LOCK}" if "ev = Yielded q k" for q k
        using typed_step(1) [OF typed] e that by blast
      show "cp_type r \<in> {CP_FINISHED, CP_REVERT}" if "ev = Returned r" for r
        using typed_step(2) [OF typed] e that by blast
    qed (use new(1) in simp)
  next
    case (resumed s ex k ev rows s')
    have "cs_executives s (message_id m) = Some ex" using resumed(3) by simp
    then have "state_ok (ex_state ex)" using ty resumed(2) unfolding called_typed_def by blast
    then have k: "typed_prog (k (params_of m))" using resumed(5) by (simp add: state_ok_def)
    have "call_waits (message_id m) fr" using resumed(2,3,5) by (simp add: call_waits_def)
    moreover have e: "fst (step_prog (k (params_of m)) (committed_rows B fr) None (cs_rows s)) = ev"
      using resumed(6) by simp
    ultimately show ?thesis
      unfolding resumed(8)
    proof (intro event_outcome [OF _ resumed(7)])
      show "cp_type q \<in> {CP_MESSAGE, CP_KEY_LOCK}" if "ev = Yielded q k" for q k
        using typed_step(1) [OF k] e that by blast
      show "cp_type r \<in> {CP_FINISHED, CP_REVERT}" if "ev = Returned r" for r
        using typed_step(2) [OF k] e that by blast
    qed simp
  next
    case (dead s ex)
    then show ?thesis by (simp add: call_outcome_def call_failed_def)
  qed
  moreover have "keeps_others (message_id m) fr fr'"
    using call_keeps_others [OF ok, of m B E] assms(3) by simp
  ultimately show ?thesis using assms(3) by simp
qed

section \<open>A call runs its program\<close>

text \<open>The program by itself: run above the rows \<open>c\<close>, from its own rows \<open>d\<close>, against a list of
  answers.\<close>

fun talk :: "content \<Rightarrow> prog \<Rightarrow> delta \<Rightarrow> call_parameters list \<Rightarrow> event list" where
  "talk c p d [] = [fst (step_prog p c None d)]"
| "talk c p d (q # qs) =
     (case step_prog p c None d of
        (Yielded r k, d') \<Rightarrow> Yielded r k # talk c (k q) d' qs
      | (ev, d') \<Rightarrow> [ev])"

definition answers_to :: "exec_id \<Rightarrow> execution_message list \<Rightarrow> bool" where
  "answers_to i ms \<longleftrightarrow> list_all (\<lambda>r. message_id r = i \<and> em_type r \<in> {MSG_FINISHED, MSG_REVERT}) ms"

lemma answers_to_Cons:
  "answers_to i (r # rs) \<longleftrightarrow> message_id r = i \<and> em_type r \<in> {MSG_FINISHED, MSG_REVERT} \<and> answers_to i rs"
  by (simp add: answers_to_def)

lemma front_run_call:
  "fst (front_run B E (map RqCall (m # ms)) fr) = Some (fst (call_request B E m fr)) #
     fst (front_run B E (map RqCall ms) (snd (call_request B E m fr)))"
  by (simp add: front_step_def case_prod_beta Let_def)

lemma yielded_state:
  assumes "cp_type q \<in> {CP_MESSAGE, CP_KEY_LOCK}"
  shows "call_answer (call_after E i FeThrown (Yielded q k)) (set_called i s fr)
      = (call_after E i FeThrown (Yielded q k), set_called i s fr)"
    and "call_answer (call_after E i (FeError (-1)) (Yielded q k)) (set_called i s fr)
      = (call_after E i (FeError (-1)) (Yielded q k), set_called i s fr)"
  using assms by (auto simp: call_answer_event)

lemma resumed_conversation:
  assumes "answers_to i (r # rs)" and "fr_called fr i = Some s" and "cs_executives s = [i \<mapsto> ex]"
    and "executive_ok i ex" and "ex_state ex = Waiting k" and "typed_prog (k (params_of r))"
    and "length (talk (committed_rows B fr) (k (params_of r)) (cs_rows s) (map params_of rs))
         = Suc (length rs)"
  shows "fst (front_run B E (map RqCall (r # rs)) fr) = map Some (map (call_after E i FeThrown)
     (talk (committed_rows B fr) (k (params_of r)) (cs_rows s) (map params_of rs)))"
  using assms
proof (induction rs arbitrary: r fr s ex k)
  case Nil
  obtain ev rows where e: "step_prog (k (params_of r)) (committed_rows B fr) None (cs_rows s) = (ev, rows)"
    by fastforce
  have i: "message_id r = i" "em_type r \<in> {MSG_FINISHED, MSG_REVERT}"
    using Nil.prems(1) by (auto simp: answers_to_Cons)
  have "fst (call_request B E r fr) = call_after E i FeThrown ev"
    using answered_call_step [of r fr s ex k B ev rows E] i Nil.prems(2-5) e
    by (simp only: executive_ok_def) (simp add: call_answer_event)
  then show ?case
    unfolding front_run_call using e by simp
next
  case (Cons r2 rs)
  obtain ev rows where e: "step_prog (k (params_of r)) (committed_rows B fr) None (cs_rows s) = (ev, rows)"
    by fastforce
  have i: "message_id r = i" "em_type r \<in> {MSG_FINISHED, MSG_REVERT}" "answers_to i (r2 # rs)"
    using Cons.prems(1) by (auto simp: answers_to_Cons)
  obtain q k' where y: "ev = Yielded q k'"
    using Cons.prems(7) e by (cases ev) auto
  have q: "cp_type q \<in> {CP_MESSAGE, CP_KEY_LOCK}" and t: "typed_prog (k' (params_of r2))"
    using typed_step(1) [OF Cons.prems(6), of "committed_rows B fr" None "cs_rows s" q k'] e y by auto
  let ?s = "\<lparr>cs_number = cs_number s, cs_rows = rows, cs_executives = [i \<mapsto> ex\<lparr>ex_state := Waiting k'\<rparr>]\<rparr>"
  have step: "call_request B E r fr = (call_after E i FeThrown ev, set_called i ?s fr)"
    using answered_call_step [of r fr s ex k B ev rows E] i(1,2) Cons.prems(2-5) e y
    by (simp only: executive_ok_def) (simp add: yielded_state [OF q])
  have base: "committed_rows B (set_called i ?s fr) = committed_rows B fr" by (simp add: set_called_def)
  have len: "length (talk (committed_rows B (set_called i ?s fr)) (k' (params_of r2)) (cs_rows ?s)
      (map params_of rs)) = Suc (length rs)"
    using Cons.prems(7) e y base by simp
  have "fst (front_run B E (map RqCall (r2 # rs)) (set_called i ?s fr))
      = map Some (map (call_after E i FeThrown)
          (talk (committed_rows B fr) (k' (params_of r2)) rows (map params_of rs)))"
    using Cons.IH [where r = r2 and fr = "set_called i ?s fr" and s = ?s and k = k'
        and ex = "ex\<lparr>ex_state := Waiting k'\<rparr>", OF i(3) called_present _ _ _ t len] Cons.prems(4) base
    by simp
  then show ?case
    unfolding front_run_call [of B E r] step using e y by simp
qed

text \<open>C12: The answers to a call and to the scheduler's messages that follow it are those of the
  program of the called contract, run by itself on a fresh storage above the committed rows.\<close>
theorem call_runs_its_program:
  assumes "em_type m = MSG_MESSAGE" and "fr_called fr (message_id m) = None"
    and typed: "typed_prog (fe_body E (ch_committed (fr_chain fr)) (params_of m))"
    and "answers_to (message_id m) ms"
    and evs: "evs = talk (committed_rows B fr) (fe_body E (ch_committed (fr_chain fr)) (params_of m))
           Map.empty (map params_of ms)"
    and "length evs = Suc (length ms)"
  shows "fst (front_run B E (map RqCall (m # ms)) fr)
     = map Some (call_after E (message_id m) (FeError (-1)) (hd evs)
         # map (call_after E (message_id m) FeThrown) (tl evs))"
proof -
  let ?i = "message_id m" and ?p = "fe_body E (ch_committed (fr_chain fr)) (params_of m)"
  obtain ev rows where e: "step_prog ?p (committed_rows B fr) None Map.empty = (ev, rows)" by fastforce
  note step = new_call_step [OF assms(1,2) e]
  show ?thesis
  proof (cases ms)
    case Nil
    then show ?thesis
      unfolding front_run_call step using evs e by (simp add: call_answer_event)
  next
    case (Cons r rs)
    obtain q k where y: "ev = Yielded q k"
      using assms(6) evs e Cons by (cases ev) auto
    have q: "cp_type q \<in> {CP_MESSAGE, CP_KEY_LOCK}" and t: "typed_prog (k (params_of r))"
      using typed_step(1) [OF typed, of "committed_rows B fr" None Map.empty q k] e y by auto
    let ?s = "\<lparr>cs_number = ch_committed (fr_chain fr), cs_rows = rows, cs_executives = [?i \<mapsto>
       (create_executive (codeAddress (params_of m)) ?i)\<lparr>ex_state := snd (dispatched ev)\<rparr>]\<rparr>"
    let ?f = "set_called ?i ?s fr"
    have base: "committed_rows B ?f = committed_rows B fr" by (simp add: set_called_def)
    have tl: "talk (committed_rows B ?f) (k (params_of r)) (cs_rows ?s) (map params_of rs) = tl evs"
      using evs e y Cons base by simp
    have "fst (front_run B E (map RqCall (r # rs)) ?f) = map Some (map (call_after E ?i FeThrown)
       (talk (committed_rows B ?f) (k (params_of r)) (cs_rows ?s) (map params_of rs)))"
    proof (rule resumed_conversation [OF _ called_present])
      show "cs_executives ?s = [?i \<mapsto>
          (create_executive (codeAddress (params_of m)) ?i)\<lparr>ex_state := snd (dispatched ev)\<rparr>]" by simp
    qed (use assms(4,6) Cons y tl t in simp_all)
    moreover have "call_request B E m fr = (call_after E ?i (FeError (-1)) ev, ?f)"
      unfolding step y by (rule yielded_state(2) [OF q])
    ultimately show ?thesis
      using evs e y Cons base by (simp only: front_run_call fst_conv snd_conv) simp
  qed
qed

section \<open>Transactions and the block states\<close>

lemma store_rows_ok: "chain_ok x \<Longrightarrow> chain_ok (store_rows i d x)"
  unfolding store_rows_def by (rule set_layer_ok) auto

lemma front_step_chain_ok:
  assumes "chain_ok (fr_chain fr)" and "called_ok fr"
  shows "chain_ok (fr_chain (snd (front_step B E r fr)))"
proof (cases r)
  case (RqCall m)
  then show ?thesis
    using assms call_keeps_others [OF assms(2), of m B E] by (simp add: step_fields keeps_others_def)
next
  case (RqExecute m)
  then show ?thesis using assms(1)
    by (auto simp: front_step_def execute_transaction_def store_rows_ok split: option.split prod.split)
next
  case (RqChain op)
  then show ?thesis using assms(1) by (simp add: front_step_def chain_request_def run_ok)
qed

text \<open>The block states stay linked under all requests, and a transaction changes the rows of the
  newest block only.\<close>

theorem front_keeps_chain:
  assumes "front_reach B E (new_front c b) fr"
  shows "chain_ok (fr_chain fr)"
    and "ch_context (fr_chain fr) = Some x \<Longrightarrow> i \<noteq> bc_storage x
         \<Longrightarrow> rows_of (fr_chain (snd (execute_transaction B E m fr))) i = rows_of (fr_chain fr) i"
proof -
  show "chain_ok (fr_chain fr)"
    using assms
  proof induction
    case start
    then show ?case by (simp add: new_front_def reach_ok [OF chain_reach.start])
  next
    case (step f r)
    show ?case by (rule front_step_chain_ok [OF step(2) front_reach_ok [OF step(1)]])
  qed
  show "ch_context (fr_chain fr) = Some x \<Longrightarrow> i \<noteq> bc_storage x
         \<Longrightarrow> rows_of (fr_chain (snd (execute_transaction B E m fr))) i = rows_of (fr_chain fr) i"
    by (simp add: execute_transaction_def store_rows_def rows_of_def set_layer_def split: prod.split)
qed

section \<open>Failed calls\<close>

text \<open>An error of a call is not followed by an erase: its identifier stays taken, every later call
  under it is refused, and an answer for it pulls a coroutine that has ended.\<close>

theorem failed_call_blocks_its_id:
  assumes "called_ok fr" and "call_failed i fr" and "message_id m = i"
  shows "em_type m = MSG_MESSAGE \<Longrightarrow> call_request B E m fr = (FeError CALL_ERROR, fr)"
    and "em_type m \<in> {MSG_FINISHED, MSG_REVERT} \<Longrightarrow> call_request B E m fr = (FeUndefined, fr)"
proof -
  obtain s ex where s: "fr_called fr i = Some s" "cs_executives s i = Some ex" "ex_state ex = Ended"
    using assms(2) by (auto simp: call_failed_def split: option.splits exec_state.splits)
  then have x: "cs_executives s = [i \<mapsto> ex]" using assms(1) unfolding called_ok_def by fastforce
  show "call_request B E m fr = (FeError CALL_ERROR, fr)" if "em_type m = MSG_MESSAGE"
    using s(1) that assms(3) by (intro refused_call_step) (simp add: find_call_state_def)
  show "call_request B E m fr = (FeUndefined, fr)" if "em_type m \<in> {MSG_FINISHED, MSG_REVERT}"
    using dead_call_step [OF that] s(1,3) x assms(3) by simp
qed

text \<open>The scheduler's answer to a key-lock request of a call is not a message type \<open>call\<close> knows.\<close>

theorem call_refuses_key_lock:
  "em_type m = MSG_KEY_LOCK \<Longrightarrow> call_request B E m fr = (FeError CALL_ERROR, fr)"
  by (intro refused_call_step) (simp add: find_call_state_def)

text \<open>Executives of a block are never removed: a second message under the identifiers of one that
  has finished pulls its ended coroutine.\<close>

theorem finished_executive_pulled_again:
  assumes "rc_executives c (message_id m) = Some ex" and "ex_state ex = Ended"
    and "em_type m \<in> {MSG_MESSAGE, MSG_FINISHED, MSG_REVERT}"
  shows "async_execute E m static c = (FeUndefined, c)"
proof -
  have "execute_message E m static c = (FeUndefined, c)"
    using assms(1,2) params_some [OF assms(3), of static]
    by (cases "create_call_parameters m static")
      (simp_all add: execute_message_def get_executive_def message_id_def resume_executive_def)
  then show ?thesis using assms(3) by (auto simp: async_execute_def)
qed

section \<open>Witnesses\<close>

text \<open>A program that writes a row, asks another contract, and returns its answer.\<close>

definition example_prog :: prog where
  "example_prog = Prog (\<lambda>c l d.
     (Yielded ((new_call_parameters CP_MESSAGE)\<lparr>receiveAddress := ''b''\<rparr>)
        (\<lambda>q. Prog (\<lambda>c l d.
           (Returned ((new_call_parameters CP_FINISHED)\<lparr>cp_data := cp_data q @ [1]\<rparr>), d))),
      d((''t'', ''k'') \<mapsto> Some ''v'')))"

definition example_env :: fe_env where
  "example_env = \<lparr>fe_default = blank_message, fe_txpool = (\<lambda>h. TxError),
     fe_body = (\<lambda>n p. example_prog)\<rparr>"

lemma example_typed: "typed_prog example_prog"
  unfolding example_prog_def
  by (rule typed_prog.intros) (auto intro!: typed_prog.intros simp: new_call_parameters_def)

lemma example_body [simp]: "fe_body example_env n p = example_prog"
  by (simp add: example_env_def)

lemma example_body_typed: "typed_prog (fe_body example_env n p)"
  by (simp add: example_typed)

definition example_answer :: execution_message where
  "example_answer = blank_message\<lparr>em_type := MSG_FINISHED, em_data := [7]\<rparr>"

abbreviation example_front :: "store front" where
  "example_front \<equiv> new_front None example_store"

theorem call_contexts_tracked_witness:
  "(let (a, fr) = call_request pair_backend example_env blank_message example_front
    in call_outcome blank_message example_front a fr \<and> call_waits (0, 0) fr)"
proof -
  obtain a fr where c: "call_request pair_backend example_env blank_message example_front = (a, fr)"
    by fastforce
  have o: "call_outcome blank_message example_front a fr"
    using call_contexts_tracked [OF front_reach.start _ c] example_typed by simp
  have "call_waits (0, 0) fr"
    using c by (auto simp: call_request_def find_call_state_def new_front_def new_chain_def
        blank_message_def message_id_def async_execute_def execute_message_def
        create_call_parameters_def call_type_of_def get_executive_def call_context_def
        start_executive_def insert_executive_def run_executive_def example_prog_def
        executive_result_def call_answer_def create_executive_def new_call_parameters_def
        call_state_of_def call_waits_def to_execution_result_of_def result_header_def)
  with o c show ?thesis by simp
qed

theorem call_runs_its_program_witness:
  "map_option (\<lambda>a. case a of FeMessage r \<Rightarrow> em_data r | _ \<Rightarrow> [])
     (fst (front_run pair_backend example_env (map RqCall [blank_message, example_answer]) example_front) ! 1)
   = Some [7, 1]"
proof -
  have "fst (front_run pair_backend example_env (map RqCall (blank_message # [example_answer])) example_front)
     = map Some (call_after example_env (message_id blank_message) (FeError (-1))
         (hd (talk (committed_rows pair_backend example_front)
            (fe_body example_env (ch_committed (fr_chain example_front)) (params_of blank_message))
            Map.empty (map params_of [example_answer])))
       # map (call_after example_env (message_id blank_message) FeThrown)
         (tl (talk (committed_rows pair_backend example_front)
            (fe_body example_env (ch_committed (fr_chain example_front)) (params_of blank_message))
            Map.empty (map params_of [example_answer]))))"
    by (rule call_runs_its_program [OF _ _ example_body_typed _ refl])
      (simp_all add: blank_message_def new_front_def answers_to_def example_answer_def
        message_id_def example_prog_def)
  then show ?thesis
    by (simp add: example_prog_def call_after_def params_of_def example_answer_def blank_message_def
        create_call_parameters_def call_type_of_def to_execution_result_of_def new_call_parameters_def)
qed

end
