(* ===== verification/EvmPrecompiled.thy ===== *)
theory EvmPrecompiled imports Prelude begin

unbundle bit_operations_syntax

text \<open>
  The precompiled contracts of the virtual machine (\<open>src/vm/Precompiled.h\<close> and
  \<open>src/vm/Precompiled.cpp\<close>) and their registration by \<open>initPrecompiled\<close> of
  \<open>src/executor/TransactionExecutor.cpp\<close>.  Numbers of type \<open>bigint\<close> are \<open>nat\<close>s; a contract
  returns a flag and its output, or \<open>None\<close> where an \<open>assert\<close> of the sources fails or the input is
  read outside its bounds.  The hash and curve functions of the wedpr library are parameters: they
  return the contents of the output buffer, or \<open>None\<close> when they report an error.  A word is stored
  with its lowest byte first, as on the hosts the program runs on.
\<close>

section \<open>Parsing\<close>

text \<open>\<open>fromBigEndian\<close>; \<open>size_limit\<close> is \<open>numeric_limits<size_t>::max() / 8\<close>.\<close>

definition big_endian :: "bytes \<Rightarrow> nat" where
  "big_endian bs = foldl (\<lambda>a b. 256 * a + unat b) 0 bs"

definition size_limit :: nat where "size_limit = (2 ^ 64 - 1) div 8"

definition cropped :: "bytes \<Rightarrow> nat \<Rightarrow> nat \<Rightarrow> bytes" where
  "cropped bs begin cnt = take cnt (drop begin bs)"

definition parse_right_padded :: "bytes \<Rightarrow> nat \<Rightarrow> nat \<Rightarrow> nat option" where
  "parse_right_padded input begin cnt =
     (if begin > length input then Some 0
      else if cnt > size_limit then None
      else (let c = cropped input begin (min cnt (length input - begin))
            in Some (push_bit (8 * (cnt - length c)) (big_endian c))))"

text \<open>\<open>toBigEndian(_val, o_out)\<close>: the low bytes of the number, as many as the buffer holds.\<close>

fun to_big_endian :: "nat \<Rightarrow> nat \<Rightarrow> bytes" where
  "to_big_endian 0 n = []"
| "to_big_endian (Suc k) n = to_big_endian k (n div 256) @ [of_nat n]"

section \<open>Modular exponentiation\<close>

definition modexp :: "bytes \<Rightarrow> (bool \<times> bytes) option" where
  "modexp input =
     Option.bind (parse_right_padded input 0 32) (\<lambda>baseLength.
     Option.bind (parse_right_padded input 32 32) (\<lambda>expLength.
     Option.bind (parse_right_padded input 64 32) (\<lambda>modLength.
     if modLength > size_limit \<or> baseLength > size_limit then None
     else if modLength = 0 \<and> baseLength = 0 then Some (True, [])
     else if expLength > size_limit then None
     else
       Option.bind (parse_right_padded input 96 baseLength) (\<lambda>base.
       Option.bind (parse_right_padded input (96 + baseLength) expLength) (\<lambda>e.
       Option.bind (parse_right_padded input (96 + baseLength + expLength) modLength) (\<lambda>m.
       Some (True, to_big_endian modLength (if m \<noteq> 0 then base ^ e mod m else 0))))))))"

text \<open>\<open>msb\<close>: the position of the highest bit.\<close>

fun highest_bit :: "nat \<Rightarrow> nat" where
  "highest_bit n = (if n < 2 then 0 else Suc (highest_bit (n div 2)))"

declare highest_bit.simps [simp del]

definition exp_length_adjust :: "nat \<Rightarrow> nat \<Rightarrow> bytes \<Rightarrow> nat option" where
  "exp_length_adjust expOffset expLength input =
     (if expLength \<le> 32
      then map_option (\<lambda>e. if e \<noteq> 0 then highest_bit e else 0)
             (parse_right_padded input expOffset expLength)
      else map_option (\<lambda>w. 8 * (expLength - 32) + (if w \<noteq> 0 then highest_bit w else 0))
             (parse_right_padded input expOffset 32))"

definition mult_complexity :: "nat \<Rightarrow> nat" where
  "mult_complexity x =
     (if x \<le> 64 then x * x
      else if x \<le> 1024 then (x * x) div 4 + 96 * x - 3072
      else (x * x) div 16 + 480 * x - 199680)"

definition modexp_price :: "bytes \<Rightarrow> nat option" where
  "modexp_price input =
     Option.bind (parse_right_padded input 0 32) (\<lambda>baseLength.
     Option.bind (parse_right_padded input 32 32) (\<lambda>expLength.
     Option.bind (parse_right_padded input 64 32) (\<lambda>modLength.
     Option.bind (exp_length_adjust (baseLength + 96) expLength input) (\<lambda>adjusted.
     Some (mult_complexity (max modLength baseLength) * max adjusted 1 div 20)))))"

section \<open>The compression function of BLAKE2b\<close>

definition blake2b_IV :: "u64 list" where
  "blake2b_IV =
     [0x6a09e667f3bcc908, 0xbb67ae8584caa73b, 0x3c6ef372fe94f82b, 0xa54ff53a5f1d36f1,
      0x510e527fade682d1, 0x9b05688c2b3e6c1f, 0x1f83d9abfb41bd6b, 0x5be0cd19137e2179]"

definition blake2b_sigma :: "nat list list" where
  "blake2b_sigma =
     [[ 0,  1,  2,  3,  4,  5,  6,  7,  8,  9, 10, 11, 12, 13, 14, 15],
      [14, 10,  4,  8,  9, 15, 13,  6,  1, 12,  0,  2, 11,  7,  5,  3],
      [11,  8, 12,  0,  5,  2, 15, 13, 10, 14,  3,  6,  7,  1,  9,  4],
      [ 7,  9,  3,  1, 13, 12, 11, 14,  2,  6,  5, 10,  4,  0, 15,  8],
      [ 9,  0,  5,  7,  2,  4, 10, 15, 14,  1, 11, 12,  6,  8,  3, 13],
      [ 2, 12,  6, 10,  0, 11,  8,  3,  4, 13,  7,  5, 15, 14,  1,  9],
      [12,  5,  1, 15, 14, 13,  4, 10,  0,  7,  6,  3,  9,  2,  8, 11],
      [13, 11,  7, 14, 12,  1,  3,  9,  5,  0, 15,  4,  8,  6,  2, 10],
      [ 6, 15, 14,  9, 11,  3,  0,  8, 12,  2, 13,  7,  1,  4, 10,  5],
      [10,  2,  8,  4,  7,  6,  1,  5, 15, 11,  9, 14,  3, 12, 13,  0]]"

definition rotr64 :: "u64 \<Rightarrow> nat \<Rightarrow> u64" where
  "rotr64 w c = (drop_bit c w) OR (push_bit (64 - c) w)"

text \<open>\<open>G\<close> on the four words it is given by reference: two halves of the same form.\<close>

fun mix_half :: "u64 \<Rightarrow> nat \<Rightarrow> nat \<Rightarrow> u64 \<times> u64 \<times> u64 \<times> u64 \<Rightarrow> u64 \<times> u64 \<times> u64 \<times> u64" where
  "mix_half x r1 r2 (a, b, c, d) =
     (let a1 = a + b + x;
          d1 = rotr64 (d XOR a1) r1;
          c1 = c + d1;
          b1 = rotr64 (b XOR c1) r2
      in (a1, b1, c1, d1))"

definition mix :: "u64 \<Rightarrow> u64 \<Rightarrow> u64 \<times> u64 \<times> u64 \<times> u64 \<Rightarrow> u64 \<times> u64 \<times> u64 \<times> u64" where
  "mix x y w = mix_half y 16 63 (mix_half x 32 24 w)"

fun words_at :: "nat \<times> nat \<times> nat \<times> nat \<Rightarrow> u64 list \<Rightarrow> u64 \<times> u64 \<times> u64 \<times> u64" where
  "words_at (ia, ib, ic, ie) v = (v ! ia, v ! ib, v ! ic, v ! ie)"

fun set_words :: "nat \<times> nat \<times> nat \<times> nat \<Rightarrow> u64 \<times> u64 \<times> u64 \<times> u64 \<Rightarrow> u64 list \<Rightarrow> u64 list" where
  "set_words (ia, ib, ic, ie) (a, b, c, d) v = v[ia := a, ib := b, ic := c, ie := d]"

definition mix_at ::
    "u64 list \<Rightarrow> nat \<Rightarrow> nat \<Rightarrow> nat \<times> nat \<times> nat \<times> nat \<Rightarrow> u64 list \<Rightarrow> u64 list" where
  "mix_at m r i p v =
     set_words p (mix (m ! (blake2b_sigma ! r ! (2 * i))) (m ! (blake2b_sigma ! r ! (2 * i + 1)))
                    (words_at p v)) v"

text \<open>\<open>ROUND\<close>, and its body with the row of the permutation table.\<close>

definition mix_all :: "u64 list \<Rightarrow> nat \<Rightarrow> u64 list \<Rightarrow> u64 list" where
  "mix_all m r v =
     mix_at m r 7 (3, 4, 9, 14) (mix_at m r 6 (2, 7, 8, 13)
       (mix_at m r 5 (1, 6, 11, 12) (mix_at m r 4 (0, 5, 10, 15)
         (mix_at m r 3 (3, 7, 11, 15) (mix_at m r 2 (2, 6, 10, 14)
           (mix_at m r 1 (1, 5, 9, 13) (mix_at m r 0 (0, 4, 8, 12) v)))))))"

definition blake_round :: "u64 list \<Rightarrow> nat \<Rightarrow> u64 list \<Rightarrow> u64 list" where
  "blake_round m round v = mix_all m (round mod 10) v"

record blake2b_state =
  bl_h :: "u64 list"
  bl_t :: "u64 \<times> u64"
  bl_f :: "u64 \<times> u64"

fun load64 :: "bytes \<Rightarrow> u64" where
  "load64 [] = 0"
| "load64 (b # bs) = ucast b OR push_bit 8 (load64 bs)"

fun load_words :: "nat \<Rightarrow> bytes \<Rightarrow> u64 list" where
  "load_words 0 bs = []"
| "load_words (Suc k) bs = load64 (take 8 bs) # load_words k (drop 8 bs)"

definition store64 :: "u64 \<Rightarrow> bytes" where
  "store64 w = map (\<lambda>i. ucast (drop_bit (8 * i) w)) [0, 1, 2, 3, 4, 5, 6, 7]"

definition initial_vector :: "blake2b_state \<Rightarrow> u64 list" where
  "initial_vector s = bl_h s @ take 4 blake2b_IV @
     [blake2b_IV ! 4 XOR fst (bl_t s), blake2b_IV ! 5 XOR snd (bl_t s),
      blake2b_IV ! 6 XOR fst (bl_f s), blake2b_IV ! 7 XOR snd (bl_f s)]"

definition blake2b_compress :: "nat \<Rightarrow> blake2b_state \<Rightarrow> bytes \<Rightarrow> blake2b_state" where
  "blake2b_compress rounds s block =
     (let m = load_words 16 block;
          v = fold (blake_round m) [0..<rounds] (initial_vector s)
      in s\<lparr>bl_h := map2 (XOR) (map2 (XOR) (bl_h s) (take 8 v)) (drop 8 v)\<rparr>)"

text \<open>\<open>None\<close> is the exception \<open>InvalidInputSize\<close>.\<close>

definition blake2F_compression ::
    "nat \<Rightarrow> bytes \<Rightarrow> bytes \<Rightarrow> bytes \<Rightarrow> bool \<Rightarrow> bytes \<Rightarrow> bytes option" where
  "blake2F_compression rounds stateVector t0 t1 lastBlock block =
     (if length stateVector \<noteq> 64 then None
      else if length t0 \<noteq> 8 \<or> length t1 \<noteq> 8 then None
      else if length block \<noteq> 128 then None
      else (let s = \<lparr>bl_h = load_words 8 stateVector, bl_t = (load64 t0, load64 t1),
                     bl_f = (if lastBlock then - 1 else 0, 0)\<rparr>
            in Some (concat (map store64 (bl_h (blake2b_compress rounds s block))))))"

definition blake2_compression :: "bytes \<Rightarrow> (bool \<times> bytes) option" where
  "blake2_compression input =
     (if length input \<noteq> 213 then Some (False, [])
      else
        (let rounds = big_endian (cropped input 0 4);
             flag = input ! 212
         in if flag \<noteq> 0 \<and> flag \<noteq> 1 then Some (False, [])
            else map_option (Pair True)
              (blake2F_compression rounds (cropped input 4 64) (cropped input 196 8)
                 (cropped input 204 8) (flag \<noteq> 0) (cropped input 68 128))))"

definition blake2_price :: "bytes \<Rightarrow> nat" where
  "blake2_price input = big_endian (cropped input 0 4)"

section \<open>Hashes and curves\<close>

record wedpr =
  wp_sha256 :: "bytes \<Rightarrow> bytes option"
  wp_ripemd160 :: "bytes \<Rightarrow> bytes option"
  wp_keccak256 :: "bytes \<Rightarrow> bytes option"
  wp_recover :: "bytes \<Rightarrow> bytes \<Rightarrow> bytes option"
  wp_g1_add :: "bytes \<Rightarrow> bytes option"
  wp_g1_mul :: "bytes \<Rightarrow> bytes option"
  wp_pairing :: "bytes \<Rightarrow> bytes option"

definition zeros :: "nat \<Rightarrow> bytes" where "zeros n = replicate n 0"

definition evm_sha256 :: "wedpr \<Rightarrow> bytes \<Rightarrow> bool \<times> bytes" where
  "evm_sha256 W input = (True, case wp_sha256 W input of None \<Rightarrow> zeros 32 | Some h \<Rightarrow> h)"

text \<open>\<open>h256(h160, AlignRight)\<close> puts twelve zeros before the hash.\<close>

definition evm_ripemd160 :: "wedpr \<Rightarrow> bytes \<Rightarrow> bool \<times> bytes" where
  "evm_ripemd160 W input =
     (True, zeros 12 @ (case wp_ripemd160 W input of None \<Rightarrow> zeros 20 | Some h \<Rightarrow> h))"

definition evm_identity :: "bytes \<Rightarrow> bool \<times> bytes" where
  "evm_identity input = (True, input)"

text \<open>The input is hash (32 bytes), v (32), r (32), s (32); the bytes are copied unchecked.\<close>

definition ec_recover :: "wedpr \<Rightarrow> bytes \<Rightarrow> (bool \<times> bytes) option" where
  "ec_recover W input =
     (if length input < 128 then None
      else
        (let rsv = cropped input 64 64 @ [input ! 63 - 27] in
         Some (case wp_recover W (take 32 input) rsv of
                 None \<Rightarrow> (True, [])
               | Some publicKey \<Rightarrow>
                   (case wp_keccak256 W publicKey of
                      None \<Rightarrow> (True, [])
                    | Some h \<Rightarrow> (True, zeros 12 @ drop 12 h)))))"

definition g1_add :: "wedpr \<Rightarrow> bytes \<Rightarrow> bool \<times> bytes" where
  "g1_add W input = (case wp_g1_add W input of None \<Rightarrow> (False, zeros 64) | Some p \<Rightarrow> (True, p))"

definition g1_mul :: "wedpr \<Rightarrow> bytes \<Rightarrow> bool \<times> bytes" where
  "g1_mul W input = (case wp_g1_mul W input of None \<Rightarrow> (False, zeros 64) | Some p \<Rightarrow> (True, p))"

definition pairing_product :: "wedpr \<Rightarrow> bytes \<Rightarrow> bool \<times> bytes" where
  "pairing_product W input =
     (let pairs = length input div 192 in
      if pairs * 192 \<noteq> length input then (False, zeros 32)
      else (case wp_pairing W input of None \<Rightarrow> (False, zeros 32) | Some r \<Rightarrow> (True, r)))"

definition pairing_price :: "bytes \<Rightarrow> nat" where
  "pairing_price input = 45000 + length input div 192 * 34000"

section \<open>Registration\<close>

text \<open>The two tables of \<open>PrecompiledRegistrar\<close>; \<open>None\<close> is \<open>ExecutorNotFound\<close> or
  \<open>PricerNotFound\<close>.\<close>

type_synonym evm_executor = "bytes \<Rightarrow> (bool \<times> bytes) option"
type_synonym evm_pricer = "bytes \<Rightarrow> nat option"

definition registered_executors :: "wedpr \<Rightarrow> (string \<times> evm_executor) list" where
  "registered_executors W =
     [(''ecrecover'', ec_recover W),
      (''sha256'', \<lambda>x. Some (evm_sha256 W x)),
      (''ripemd160'', \<lambda>x. Some (evm_ripemd160 W x)),
      (''identity'', \<lambda>x. Some (evm_identity x)),
      (''modexp'', modexp),
      (''alt_bn128_G1_add'', \<lambda>x. Some (g1_add W x)),
      (''alt_bn128_G1_mul'', \<lambda>x. Some (g1_mul W x)),
      (''alt_bn128_pairing_product'', \<lambda>x. Some (pairing_product W x)),
      (''blake2_compression'', blake2_compression)]"

definition registered_pricers :: "(string \<times> evm_pricer) list" where
  "registered_pricers =
     [(''modexp'', modexp_price),
      (''alt_bn128_pairing_product'', \<lambda>x. Some (pairing_price x)),
      (''blake2_compression'', \<lambda>x. Some (blake2_price x))]"

definition executor_of :: "wedpr \<Rightarrow> string \<Rightarrow> evm_executor option" where
  "executor_of W name = map_of (registered_executors W) name"

definition pricer_of :: "string \<Rightarrow> evm_pricer option" where
  "pricer_of name = map_of registered_pricers name"

text \<open>\<open>PrecompiledContract(_base, _word, _exec)\<close>.\<close>

definition linear_price :: "nat \<Rightarrow> nat \<Rightarrow> evm_pricer" where
  "linear_price base word input = Some (base + (length input + 31) div 32 * word)"

text \<open>\<open>fillZero\<close>: a number below sixteen as forty hexadecimal digits.\<close>

definition fill_zero :: "nat \<Rightarrow> string" where
  "fill_zero n = replicate 39 (CHR ''0'') @ [char_of (if n < 10 then 48 + n else 87 + n)]"

text \<open>The entries of \<open>m_precompiledContract\<close> in the order of \<open>initPrecompiled\<close>: number, price,
  name of the code.\<close>

definition evm_entries :: "(nat \<times> evm_pricer option \<times> string) list" where
  "evm_entries =
     [(1, Some (linear_price 3000 0), ''ecrecover''),
      (2, Some (linear_price 60 12), ''sha256''),
      (3, Some (linear_price 600 120), ''ripemd160''),
      (4, Some (linear_price 15 3), ''identity''),
      (5, pricer_of ''modexp'', ''modexp''),
      (6, Some (linear_price 150 0), ''alt_bn128_G1_add''),
      (7, Some (linear_price 6000 0), ''alt_bn128_G1_mul''),
      (8, pricer_of ''alt_bn128_pairing_product'', ''alt_bn128_pairing_product''),
      (9, pricer_of ''blake2_compression'', ''blake2_compression'')]"

fun register_entries ::
    "wedpr \<Rightarrow> (nat \<times> evm_pricer option \<times> string) list
     \<Rightarrow> (string \<times> evm_pricer \<times> evm_executor) list option" where
  "register_entries W [] = Some []"
| "register_entries W ((n, price, name) # es) =
     (case (price, executor_of W name) of
        (Some p, Some x) \<Rightarrow> map_option (Cons (fill_zero n, p, x)) (register_entries W es)
      | _ \<Rightarrow> None)"

definition evm_precompiled :: "wedpr \<Rightarrow> string \<Rightarrow> (evm_pricer \<times> evm_executor) option" where
  "evm_precompiled W a = (case register_entries W evm_entries of
       None \<Rightarrow> None | Some table \<Rightarrow> map_of table a)"

text \<open>\<open>costOfPrecompiled\<close> and \<open>executeOriginPrecompiled\<close> of the executive, as the host uses them; the
  conversion of a \<open>bigint\<close> to \<open>int64_t\<close> is the parameter \<open>conv\<close>.  Every registered price is defined
  (\<open>registered_price\<close> in theory \<open>EvmPrecompiledSpec\<close>).\<close>

definition evm_host ::
    "(nat \<Rightarrow> int) \<Rightarrow> wedpr \<Rightarrow> string \<Rightarrow> ((bytes \<Rightarrow> int) \<times> evm_executor) option" where
  "evm_host conv W a =
     map_option (\<lambda>(price, run). (\<lambda>input. case price input of Some n \<Rightarrow> conv n | None \<Rightarrow> 0, run))
       (evm_precompiled W a)"

end
