(* ===== verification/EvmPrecompiledSpec.thy ===== *)
theory EvmPrecompiledSpec imports EvmPrecompiled HostSpec begin

unbundle bit_operations_syntax

text \<open>
  Lemmas on the precompiled contracts of the virtual machine: the parser reads the input as if
  zeros followed it, \<open>modexp\<close> computes a power, prices grow with the operands, the rounds of
  BLAKE2b are permutations, and what a call through the host of the virtual machine gives.
\<close>

section \<open>Numbers and bytes\<close>

lemma big_endian_foldl: "foldl (\<lambda>a b. 256 * a + unat b) x bs = x * 256 ^ length bs + big_endian bs"
proof (induction bs arbitrary: x)
  case Nil
  then show ?case by (simp add: big_endian_def)
next
  case (Cons b bs)
  have "foldl (\<lambda>a b. 256 * a + unat b) (unat b) bs = unat b * 256 ^ length bs + big_endian bs"
    by (rule Cons.IH)
  then show ?case
    using Cons.IH [of "256 * x + unat b"] by (simp add: big_endian_def algebra_simps)
qed

lemma big_endian_simps [simp]:
  "big_endian [] = 0"
  "big_endian (b # bs) = unat b * 256 ^ length bs + big_endian bs"
  "big_endian (xs @ ys) = big_endian xs * 256 ^ length ys + big_endian ys"
proof -
  show "big_endian [] = 0" by (simp add: big_endian_def)
  show "big_endian (b # bs) = unat b * 256 ^ length bs + big_endian bs"
    using big_endian_foldl [of "unat b" bs] by (simp add: big_endian_def)
  have "big_endian (xs @ ys) = foldl (\<lambda>a b. 256 * a + unat b) (big_endian xs) ys"
    by (simp add: big_endian_def)
  then show "big_endian (xs @ ys) = big_endian xs * 256 ^ length ys + big_endian ys"
    by (simp add: big_endian_foldl)
qed

lemma big_endian_zeros [simp]: "big_endian (replicate n 0) = 0"
  by (induction n) simp_all

lemma unat_less_256: "unat (b :: u8) < 256"
  using unsigned_less [where w = b and ?'a = nat] by simp

lemma big_endian_less: "big_endian bs < 256 ^ length bs"
proof (induction bs)
  case (Cons b bs)
  have "unat b * 256 ^ length bs + big_endian bs < unat b * 256 ^ length bs + 256 ^ length bs"
    using Cons.IH by simp
  also have "\<dots> = (unat b + 1) * 256 ^ length bs" by simp
  also have "\<dots> \<le> 256 * 256 ^ length bs"
    using unat_less_256 [of b] by (intro mult_le_mono1) simp
  finally show ?case by simp
qed simp

lemma length_to_big_endian [simp]: "length (to_big_endian k n) = k"
  by (induction k arbitrary: n) simp_all

lemma big_endian_to: "big_endian (to_big_endian k n) = n mod 256 ^ k"
proof (induction k arbitrary: n)
  case (Suc k)
  have "unat (of_nat n :: u8) = n mod 256" by (simp add: unat_of_nat)
  then show ?case
    using Suc.IH [of "n div 256"] by (simp add: mod_mult2_eq mult.commute)
qed simp

section \<open>The input followed by zeros\<close>

definition padded :: "bytes \<Rightarrow> nat \<Rightarrow> nat \<Rightarrow> bytes" where
  "padded input begin n = take n (drop begin input @ replicate n 0)"

lemma length_padded [simp]: "length (padded input b n) = n"
  by (simp add: padded_def)

lemma parse_padded:
  assumes "n \<le> size_limit"
  shows "parse_right_padded input b n = Some (big_endian (padded input b n))"
proof (cases "b > length input")
  case True
  then show ?thesis by (simp add: parse_right_padded_def padded_def)
next
  case False
  let ?c = "cropped input b (min n (length input - b))"
  have c: "?c = take n (drop b input)" "length ?c = min n (length input - b)"
    by (simp_all add: cropped_def min_def)
  have "padded input b n = ?c @ replicate (n - length ?c) 0"
    using c by (simp add: padded_def)
  moreover have "(256 :: nat) ^ k = 2 ^ (8 * k)" for k by (simp add: power_mult)
  ultimately show ?thesis
    using False assms by (simp add: parse_right_padded_def push_bit_eq_mult Let_def)
qed

lemma word_fits: "(32 :: nat) \<le> size_limit"
  by (simp add: size_limit_def)

section \<open>Modular exponentiation\<close>

text \<open>C26: \<open>modexp\<close> reads three lengths and then base, exponent and modulus of these lengths, all as
  if zeros followed the input, and returns the power modulo the modulus (zero for modulus zero)
  in as many bytes as the modulus has; nothing of it is cut off.\<close>
theorem modexp_is_power:
  assumes "B = big_endian (padded input 0 32)" and "L = big_endian (padded input 32 32)"
    and "M = big_endian (padded input 64 32)"
    and "B \<le> size_limit" and "L \<le> size_limit" and "M \<le> size_limit"
    and "m = big_endian (padded input (96 + B + L) M)"
  shows "\<exists>out. modexp input = Some (True, out) \<and> length out = M
     \<and> big_endian out = (if m = 0 then 0
         else big_endian (padded input 96 B) ^ big_endian (padded input (96 + B) L) mod m)"
proof -
  let ?r = "if m \<noteq> 0 then big_endian (padded input 96 B) ^ big_endian (padded input (96 + B) L) mod m else 0"
  have l: "parse_right_padded input 0 32 = Some B" "parse_right_padded input 32 32 = Some L"
    "parse_right_padded input 64 32 = Some M"
    using assms(1-3) by (simp_all add: parse_padded word_fits)
  have "modexp input = Some (True, to_big_endian M ?r)"
  proof (cases "M = 0 \<and> B = 0")
    case True
    with l show ?thesis by (simp add: modexp_def)
  next
    case False
    with l assms(4-7) show ?thesis by (simp add: modexp_def parse_padded)
  qed
  moreover have "m < 256 ^ M" using assms(7) big_endian_less [of "padded input (96 + B + L) M"] by simp
  then have "?r < 256 ^ M"
    by (cases "m = 0") (simp_all add: order.strict_trans [OF mod_less_divisor])
  then have "big_endian (to_big_endian M ?r) = ?r" by (simp add: big_endian_to)
  ultimately show ?thesis by auto
qed

section \<open>Prices\<close>

lemma mult_complexity_Suc: "mult_complexity n \<le> mult_complexity (Suc n)"
proof -
  have q: "n * n div k \<le> Suc n * Suc n div k" for k by (intro div_le_mono mult_le_mono) simp_all
  have less: "p \<le> q \<Longrightarrow> p + k * n - j \<le> q + k * Suc n - j" for p q k j :: nat by simp
  consider "n < 64" | "n = 64" | "64 < n" "n < 1024" | "n = 1024" | "1024 < n" by linarith
  then show ?thesis
  proof cases
    case 3
    then have "mult_complexity n = n * n div 4 + 96 * n - 3072"
      and "mult_complexity (Suc n) = Suc n * Suc n div 4 + 96 * Suc n - 3072"
      by (simp_all only: mult_complexity_def) simp_all
    with less [OF q [of 4]] show ?thesis by (simp only:)
  next
    case 5
    then have "mult_complexity n = n * n div 16 + 480 * n - 199680"
      and "mult_complexity (Suc n) = Suc n * Suc n div 16 + 480 * Suc n - 199680"
      by (simp_all only: mult_complexity_def) simp_all
    with less [OF q [of 16]] show ?thesis by (simp only:)
  qed (simp_all add: mult_complexity_def)
qed

lemma mult_complexity_mono: "x \<le> y \<Longrightarrow> mult_complexity x \<le> mult_complexity y"
  by (rule lift_Suc_mono_le [of mult_complexity, OF mult_complexity_Suc])

section \<open>The rounds of BLAKE2b\<close>

lemma rotr64_inj: "c \<le> 64 \<Longrightarrow> rotr64 w c = rotr64 w' c \<Longrightarrow> w = w'"
proof (rule bit_word_eqI)
  fix n
  assume c: "c \<le> 64" and e: "rotr64 w c = rotr64 w' c" and n: "n < LENGTH(64)"
  let ?k = "if c \<le> n then n - c else n + 64 - c"
  have k: "?k < 64 \<or> c = 0" using n c by auto
  have "bit (rotr64 u c) ?k = bit u n" for u
    using n c by (auto simp: rotr64_def bit_or_iff bit_drop_bit_eq bit_push_bit_iff dest: bit_imp_le_length)
  then show "bit w n = bit w' n" using e by metis
qed

lemma xor_right_cancel: "u XOR v = w XOR v \<Longrightarrow> u = (w :: u64)"
proof (rule bit_word_eqI)
  fix n
  assume "u XOR v = w XOR v"
  then have "bit (u XOR v) n = bit (w XOR v) n" by simp
  then show "bit u n = bit w n" by (simp add: bit_xor_iff) blast
qed

lemma mix_half_inj:
  assumes "r1 \<le> 64" and "r2 \<le> 64" and "mix_half x r1 r2 w = mix_half x r1 r2 w'"
  shows "w = w'"
proof -
  obtain a b c d a' b' c' d' where w: "w = (a, b, c, d)" "w' = (a', b', c', d')"
    by (metis prod_cases4)
  let ?e = "d XOR (a + b + x)" and ?e' = "d' XOR (a' + b' + x)"
  have 1: "a + b + x = a' + b' + x" and 2: "rotr64 ?e r1 = rotr64 ?e' r1"
    and 3: "c + rotr64 ?e r1 = c' + rotr64 ?e' r1"
    and 4: "rotr64 (b XOR (c + rotr64 ?e r1)) r2 = rotr64 (b' XOR (c' + rotr64 ?e' r1)) r2"
    using assms(3) unfolding w mix_half.simps Let_def prod.inject by blast+
  have c: "c = c'" using 2 3 by simp
  have "b XOR (c + rotr64 ?e r1) = b' XOR (c + rotr64 ?e r1)"
    using rotr64_inj [OF assms(2) 4] 3 by simp
  then have b: "b = b'" by (rule xor_right_cancel)
  have a: "a = a'" using 1 b by simp
  have "d XOR (a + b + x) = d' XOR (a + b + x)" using rotr64_inj [OF assms(1) 2] 1 by simp
  then have "d = d'" by (rule xor_right_cancel)
  with a b c w show ?thesis by simp
qed

lemma mix_inj: "mix x y w = mix x y w' \<Longrightarrow> w = w'"
  unfolding mix_def by (drule mix_half_inj [rotated 2], simp, simp, drule mix_half_inj [rotated 2], simp_all)

definition four_places :: "nat \<times> nat \<times> nat \<times> nat \<Rightarrow> bool" where
  "four_places = (\<lambda>(ia, ib, ic, ie). distinct [ia, ib, ic, ie] \<and> ia < 16 \<and> ib < 16 \<and> ic < 16 \<and> ie < 16)"

lemma length_set_words [simp]: "length (set_words p w v) = length v"
  by (cases p; cases w) simp

lemma words_at_set:
  "length v = 16 \<Longrightarrow> four_places p \<Longrightarrow> words_at p (set_words p w v) = w"
  by (cases p; cases w) (simp add: four_places_def)

lemma set_words_other:
  "k \<notin> {ia, ib, ic, ie} \<Longrightarrow> set_words (ia, ib, ic, ie) w v ! k = v ! k"
  by (cases w) (simp add: nth_list_update_neq)

lemma length_mix_at [simp]: "length (mix_at m r i p v) = length v"
  by (simp add: mix_at_def)

lemma mix_at_inj:
  assumes "length v = 16" and "length v' = 16" and p: "four_places p"
    and e: "mix_at m r i p v = mix_at m r i p v'"
  shows "v = v'"
proof -
  obtain ia ib ic ie where q: "p = (ia, ib, ic, ie)" by (metis prod_cases4)
  from e have "words_at p (mix_at m r i p v) = words_at p (mix_at m r i p v')" by simp
  then have w: "words_at p v = words_at p v'"
    using assms(1-3) by (auto simp: mix_at_def words_at_set dest: mix_inj)
  show ?thesis
  proof (rule nth_equalityI)
    fix k
    assume "k < length v"
    show "v ! k = v' ! k"
    proof (cases "k \<in> {ia, ib, ic, ie}")
      case True
      then show ?thesis using w by (auto simp: q)
    next
      case False
      then show ?thesis
        using e set_words_other [OF False] by (simp add: mix_at_def q) metis
    qed
  qed (simp add: assms)
qed

definition vectors :: "u64 list set" where
  "vectors = {v. length v = 16}"

lemma blake_round_inj: "inj_on (blake_round m k) vectors"
  unfolding inj_on_def vectors_def blake_round_def mix_all_def
  by (auto simp: four_places_def dest!: mix_at_inj [rotated -1])

lemma blake_round_vectors: "v \<in> vectors \<Longrightarrow> blake_round m k v \<in> vectors"
  by (simp add: vectors_def blake_round_def mix_all_def)

lemma finite_vectors: "finite vectors"
  using finite_lists_length_eq [of "UNIV :: u64 set" 16] by (simp add: vectors_def)

lemma blake_round_bij: "bij_betw (blake_round m k) vectors vectors"
proof -
  have "blake_round m k ` vectors = vectors"
    by (rule endo_inj_surj [OF finite_vectors _ blake_round_inj]) (auto intro: blake_round_vectors)
  then show ?thesis using blake_round_inj by (simp add: bij_betw_def)
qed

lemma rounds_bij: "bij_betw (fold (blake_round m) ks) vectors vectors"
proof (induction ks)
  case Nil
  then show ?case by (simp add: bij_betw_def)
next
  case (Cons k ks)
  have "bij_betw (fold (blake_round m) ks \<circ> blake_round m k) vectors vectors"
    by (rule bij_betw_trans [OF blake_round_bij Cons.IH])
  then show ?case by (simp only: fold.simps)
qed

text \<open>Any number of rounds of the compression function is a permutation of the working vectors
  of sixteen words, whatever the message block: no two states meet in the rounds.\<close>
theorem blake2_rounds_permute: "bij_betw (fold (blake_round m) [0..<rounds]) vectors vectors"
  by (rule rounds_bij)

section \<open>Input checks of the compression function\<close>

lemma length_load_words [simp]: "length (load_words k bs) = k"
  by (induction k arbitrary: bs) simp_all

lemma length_initial_vector: "length (bl_h s) = 8 \<Longrightarrow> initial_vector s \<in> vectors"
  by (simp add: initial_vector_def vectors_def blake2b_IV_def)

lemma length_compressed:
  assumes "length (bl_h s) = 8"
  shows "length (bl_h (blake2b_compress k s block)) = 8"
proof -
  have "fold (blake_round m) rs v \<in> vectors" if "v \<in> vectors" for m rs v
    using bij_betwE [OF rounds_bij] that by blast
  from this [OF length_initial_vector [OF assms]] show ?thesis
    using assms by (simp add: blake2b_compress_def Let_def vectors_def)
qed

lemma length_concat_words: "length (concat (map store64 ws)) = 8 * length ws"
  by (induction ws) (simp_all add: store64_def)

lemma length_cropped: "b + n \<le> length input \<Longrightarrow> length (cropped input b n) = n"
  by (simp add: cropped_def)

text \<open>The compression contract answers exactly the inputs of 213 bytes whose last byte is 0 or 1, with
  64 bytes.\<close>
theorem blake2_input_checked:
  "if length input = 213 \<and> input ! 212 \<in> {0, 1}
   then \<exists>out. blake2_compression input = Some (True, out) \<and> length out = 64
   else blake2_compression input = Some (False, [])"
proof (cases "length input = 213 \<and> input ! 212 \<in> {0, 1}")
  case True
  then have l: "length (cropped input 4 64) = 64" "length (cropped input 196 8) = 8"
    "length (cropped input 204 8) = 8" "length (cropped input 68 128) = 128"
    by (simp_all add: length_cropped)
  with True show ?thesis
    by (auto simp: blake2_compression_def blake2F_compression_def Let_def length_concat_words
        length_compressed)
next
  case False
  then show ?thesis by (auto simp: blake2_compression_def Let_def)
qed

section \<open>The registered contracts\<close>

lemma evm_table:
  "register_entries W evm_entries = Some (map (\<lambda>(n, p, name). (fill_zero n, the p, the (executor_of W name))) evm_entries)"
  by (simp add: evm_entries_def executor_of_def pricer_of_def registered_executors_def
      registered_pricers_def)

lemma fill_zero_inj: "n < 10 \<Longrightarrow> m < 10 \<Longrightarrow> (fill_zero n = fill_zero m) = (n = m)"
  by (auto simp: fill_zero_def of_char_of dest: arg_cong [where f = "of_char :: char \<Rightarrow> nat"])

text \<open>Exactly the nine addresses have a contract.\<close>
theorem evm_addresses: "evm_precompiled W a \<noteq> None \<longleftrightarrow> a \<in> fill_zero ` {1..9}"
proof -
  have "evm_precompiled W a \<noteq> None \<longleftrightarrow> a \<in> fill_zero ` fst ` set evm_entries"
    by (force simp: evm_precompiled_def evm_table map_of_eq_None_iff)
  also have "fst ` set evm_entries = {1..9}" by (auto simp: evm_entries_def)
  finally show ?thesis .
qed

lemma evm_modexp: "evm_precompiled W (fill_zero 5) = Some (modexp_price, modexp)"
  by (simp add: evm_precompiled_def evm_table evm_entries_def fill_zero_inj executor_of_def
      pricer_of_def registered_executors_def registered_pricers_def)

lemma modexp_price_some: "\<exists>n. modexp_price input = Some n"
proof -
  have "\<exists>n. exp_length_adjust b e input = Some n" for b e
    using parse_padded [of e input b] parse_padded [OF word_fits, of input b] word_fits
    by (auto simp: exp_length_adjust_def)
  then obtain f where "exp_length_adjust b e input = Some (f b e)" for b e by metis
  then show ?thesis by (simp add: modexp_price_def parse_padded word_fits)
qed

lemma registered_price:
  assumes "evm_precompiled W a = Some (price, run)"
  shows "\<exists>n. price input = Some n"
proof -
  have "(a, price, run) \<in> set (map (\<lambda>(n, p, name). (fill_zero n, the p, the (executor_of W name))) evm_entries)"
    using assms map_of_SomeD by (fastforce simp: evm_precompiled_def evm_table)
  then show ?thesis
    by (auto simp: evm_entries_def linear_price_def pricer_of_def registered_pricers_def modexp_price_some)
qed

lemma big_endian_ones: "big_endian (replicate n 255) + 1 = 256 ^ n"
  by (induction n) simp_all

text \<open>A contract is run before its price is compared with the gas of the call: with a modulus length
  beyond the address space the assertion of \<open>modexp\<close> fails, whatever gas was sent.\<close>
theorem modexp_runs_before_gas_check:
  assumes "he_evm E = evm_host conv W" and "receiveAddress r = fill_zero 5"
    and "cp_data r = replicate 64 0 @ replicate 32 255"
  shows "call_builtin E r True h s = (Undefined, s)"
proof -
  let ?d = "replicate 64 0 @ replicate 32 255 :: bytes"
  have "padded ?d 64 32 = replicate 32 255" by (simp add: padded_def)
  moreover have "\<not> big_endian (replicate 32 (255 :: u8)) \<le> size_limit"
  proof -
    have "(2 ^ 64 - 1) div 8 + 1 < (256 :: nat) ^ 32" by simp
    then show ?thesis using big_endian_ones [of 32] unfolding size_limit_def by linarith
  qed
  ultimately have "modexp ?d = None"
    by (simp only: modexp_def parse_padded [OF word_fits] Option.bind.bind_lunit) simp
  then show ?thesis
    using assms by (simp add: call_builtin_def evm_host_def evm_modexp)
qed

text \<open>What a call of a registered contract gives: its price is taken from the gas, too little gas
  is an error that keeps the storage, and a contract that fails takes all gas.\<close>
theorem evm_contract_call:
  assumes "he_evm E = evm_host conv W" and "evm_precompiled W (receiveAddress r) = Some (price, run)"
    and "price (cp_data r) = Some n" and "run (cp_data r) = Some (ok, out)"
    and "he_status E StNone = 0"
  shows "\<exists>res h'. call_builtin E r True h s = (Done (res, h'), s)
    \<and> res = (if \<not> ok then zero_result\<lparr>er_status := EVMC_INTERNAL_ERROR\<rparr>
             else if cp_gas r < conv n then zero_result\<lparr>er_status := EVMC_OUT_OF_GAS\<rparr>
             else zero_result\<lparr>er_gas := cp_gas r - conv n, er_output := out\<rparr>)
    \<and> hc_params h' = hc_params h"
  using assms by (simp add: call_builtin_def evm_host_def builtin_result_def Let_def)

section \<open>Witnesses\<close>

text \<open>Three to the second power modulo five.\<close>

theorem modexp_is_power_witness:
  "\<exists>out. modexp (to_big_endian 32 1 @ to_big_endian 32 1 @ to_big_endian 32 1 @ [3, 2, 5]) = Some (True, out)
     \<and> length out = 1 \<and> big_endian out = 4"
proof -
  let ?in = "to_big_endian 32 1 @ to_big_endian 32 1 @ to_big_endian 32 1 @ [3, 2, 5]"
  have p: "padded ?in 0 32 = to_big_endian 32 1" "padded ?in 32 32 = to_big_endian 32 1"
    "padded ?in 64 32 = to_big_endian 32 1"
    "padded ?in 96 1 = [3]" "padded ?in (96 + 1) 1 = [2]" "padded ?in (96 + 1 + 1) 1 = [5]"
    by (simp_all add: padded_def)
  have one: "1 = big_endian (to_big_endian 32 1)" by (simp add: big_endian_to)
  have small: "(1 :: nat) \<le> size_limit" by (simp add: size_limit_def)
  have "\<exists>out. modexp ?in = Some (True, out) \<and> length out = 1
     \<and> big_endian out = (if (5 :: nat) = 0 then 0
         else big_endian (padded ?in 96 1) ^ big_endian (padded ?in (96 + 1) 1) mod 5)"
    by (rule modexp_is_power) (simp_all only: p small one [symmetric], simp)
  then show ?thesis by (simp only: p) simp
qed

end
