(* ===== verification/Blake2Vector.thy ===== *)
theory Blake2Vector imports EvmPrecompiledSpec begin

unbundle bit_operations_syntax

text \<open>
  The compression function on a published input: stored words are loaded back unchanged
  (\<open>load_store64\<close>), and one round on the block \<open>abc\<close> gives the output of the repository's test.
\<close>

section \<open>Storing and loading words\<close>

lemma bit_load64: "length bs = 8 \<Longrightarrow> n < 64 \<Longrightarrow> bit (load64 bs) n = bit (bs ! (n div 8)) (n mod 8)"
proof -
  have "n < 64 \<Longrightarrow> bit (load64 cs) n = (n div 8 < length cs \<and> bit (cs ! (n div 8)) (n mod 8))" for cs
  proof (induction cs arbitrary: n)
    case (Cons c cs)
    show ?case
    proof (cases "n < 8")
      case True
      then show ?thesis using Cons.prems by (simp add: bit_or_iff bit_ucast_iff bit_push_bit_iff)
    next
      case False
      then obtain k where k: "n = k + 8" by (metis le_add_diff_inverse2 not_less)
      then have "\<not> bit c n" by (auto dest: bit_imp_le_length)
      with k Cons.IH [of k] Cons.prems show ?thesis
        by (simp add: bit_or_iff bit_ucast_iff bit_push_bit_iff)
    qed
  qed simp
  then show "length bs = 8 \<Longrightarrow> n < 64 \<Longrightarrow> bit (load64 bs) n = bit (bs ! (n div 8)) (n mod 8)"
    by auto
qed

text \<open>Words survive being stored and loaded.\<close>

lemma load_store64 [simp]: "load64 (store64 w) = w"
proof (rule bit_word_eqI)
  fix n
  assume n: "n < LENGTH(64)"
  have s: "store64 w = map (\<lambda>i. ucast (drop_bit (8 * i) w)) [0..<8]"
    by (simp add: store64_def upt_rec)
  have "bit (load64 (store64 w)) n = bit (store64 w ! (n div 8)) (n mod 8)"
    using n by (intro bit_load64) (simp_all add: store64_def)
  also have "\<dots> = bit (ucast (drop_bit (8 * (n div 8)) w) :: u8) (n mod 8)"
  proof -
    have "n div 8 < 8" using n by simp
    then show ?thesis by (simp add: s)
  qed
  also have "\<dots> = bit w n" using n by (simp add: bit_ucast_iff bit_drop_bit_eq)
  finally show "bit (load64 (store64 w)) n = bit w n" .
qed

lemma length_store64 [simp]: "length (store64 w) = 8"
  by (simp add: store64_def)

lemma load_words_store [simp]:
  "load_words (length ws) (concat (map store64 ws)) = ws"
  by (induction ws) (simp_all del: load64.simps)

lemma load_words_stored: "length ws = k \<Longrightarrow> load_words k (concat (map store64 ws)) = ws"
  using load_words_store [of ws] by simp

text \<open>Rotation as arithmetic, which evaluates faster than bit by bit.\<close>

lemma rotr64_arith:
  assumes "c \<le> 64"
  shows "rotr64 w c = word_of_int (uint w div 2 ^ c + uint w mod 2 ^ c * 2 ^ (64 - c))"
proof -
  have "drop_bit c w = word_of_int (uint w div 2 ^ c)"
    by (rule bit_word_eqI)
      (auto simp: bit_word_of_int_iff bit_drop_bit_eq bit_uint_iff simp flip: drop_bit_eq_div
        dest: bit_imp_le_length)
  moreover have "push_bit (64 - c) w = word_of_int (uint w mod 2 ^ c * 2 ^ (64 - c))"
  proof (rule bit_word_eqI)
    fix n assume n: "n < LENGTH(64)"
    show "bit (push_bit (64 - c) w) n = bit (word_of_int (uint w mod 2 ^ c * 2 ^ (64 - c)) :: u64) n"
      using n assms by (simp add: bit_push_bit_iff bit_word_of_int_iff flip: take_bit_eq_mod push_bit_eq_mult)
        (auto simp: bit_push_bit_iff bit_take_bit_iff bit_uint_iff)
  qed
  moreover have "drop_bit c w OR push_bit (64 - c) w = drop_bit c w + push_bit (64 - c) w"
    by (rule disjunctive_add_eq_or [symmetric], rule bit_word_eqI)
      (use assms in \<open>auto simp: bit_push_bit_iff bit_drop_bit_eq bit_and_iff dest: bit_imp_le_length\<close>)
  ultimately show ?thesis by (simp add: rotr64_def)
qed

lemmas rotr64_eval =
  rotr64_arith [of 16, simplified] rotr64_arith [of 24, simplified] rotr64_arith [of 32, simplified]
  rotr64_arith [of 63, simplified]

section \<open>The test vector\<close>

definition abc_state :: "u64 list" where
  "abc_state =
     [0x6a09e667f2bdc948, 0xbb67ae8584caa73b, 0x3c6ef372fe94f82b, 0xa54ff53a5f1d36f1,
      0x510e527fade682d1, 0x9b05688c2b3e6c1f, 0x1f83d9abfb41bd6b, 0x5be0cd19137e2179]"

definition abc_answer :: "u64 list" where
  "abc_answer =
     [0x527d89b20c383ab6, 0x182cee3452a89419, 0x4c622c4d845f1b, 0xfbd2493470e97726,
      0xf5cd3b33a8b351a5, 0x2339d59389e0f7f2, 0x4e038cc6fc643dde, 0x21a4d7fe93927b71]"

definition abc_vector :: "u64 list" where
  "abc_vector =
     [0x86b7c1568029bb79, 0xc12cbcc809ff59f3, 0xc6a5214cc0eaca8e, 0xc87cd524c14cc5d,
      0x44ee6039bd86a9f7, 0xa447c850aa694a7e, 0xde080f1bb1c0f84b, 0x595cb8a9a1aca66c,
      0xbec3ae837eac4887, 0x6267fc79df9d6ad1, 0xfa87b01273fa6dbe, 0x521a715c63e08d8a,
      0xe02d0975b8d37a83, 0x1c7b754f08b7d193, 0x8f885a76b6e578fe, 0x2318a24e2140fc64]"

lemma abc_round:
  "blake_round (0x636261 # replicate 15 0) 0
     (initial_vector \<lparr>bl_h = abc_state, bl_t = (3, 0), bl_f = (- 1, 0)\<rparr>) = abc_vector"
  by (simp add: initial_vector_def abc_state_def abc_vector_def blake2b_IV_def blake_round_def mix_all_def
      mix_at_def mix_def rotr64_eval blake2b_sigma_def)

text \<open>The test vector of one round in \<open>test/old/EVMPrecompiledTest.cpp\<close> (\<open>test7\<close>).\<close>
theorem blake2_one_round:
  "blake2F_compression 1 (concat (map store64 abc_state)) (store64 3) (store64 0) True
     (concat (map store64 (0x636261 # replicate 15 0))) = Some (concat (map store64 abc_answer))"
proof -
  have w: "load_words 16 (concat (map store64 (0x636261 # replicate 15 0))) = 0x636261 # replicate 15 0"
    "load_words 8 (concat (map store64 abc_state)) = abc_state"
    by (rule load_words_stored, simp add: abc_state_def)+
  have l: "length (concat (map store64 abc_state)) = 64"
    "length (concat (map store64 (0x636261 # replicate 15 0))) = 128"
    by (simp_all add: length_concat_words abc_state_def del: map_replicate)
  have "map2 (XOR) (map2 (XOR) abc_state (take 8 abc_vector)) (drop 8 abc_vector) = abc_answer"
    by (simp add: abc_state_def abc_vector_def abc_answer_def)
  then have "bl_h (blake2b_compress 1 \<lparr>bl_h = abc_state, bl_t = (3, 0), bl_f = (- 1, 0)\<rparr>
      (concat (map store64 (0x636261 # replicate 15 0)))) = abc_answer"
    unfolding blake2b_compress_def w(1) by (simp add: abc_round)
  then show ?thesis unfolding blake2F_compression_def l w(2) by simp
qed

end
