(* ===== verification/AbiJson.thy ===== *)
theory AbiJson imports ConflictGraph begin

text \<open>
  \<open>FunctionAbi::deserialize\<close> and \<open>parseParameter\<close> of \<open>src/dag/Abi.cpp\<close>: looking up, in the JSON
  description of a contract, the function that a call selects.

  \<open>json\<close> is the data of a \<open>Json::Value\<close>.  The members of an object are listed in the order of its map.
  A double is given by its text, whether it is non-zero, and its value as an unsigned int where that
  is in range.  The library is external code: \<open>parse\<close> is \<open>Json::Reader::parse\<close>, and the conversions
  of a value are the record \<open>json_lib\<close>, with the documented laws in the locale \<open>json_library\<close>.  A value
  of the wrong kind throws \<open>Json::LogicError\<close>; \<open>Undef\<close> is an assertion that fails (or, in a build
  without assertions, what the code then does).
\<close>

section \<open>Values and accessors\<close>

datatype json = JNull | JBool bool | JInt int | JReal string bool "u32 option" | JString string
  | JArray "json list" | JObject "(string \<times> json) list"

definition logic_error :: "'a eval" where
  "logic_error = Throw ''Json::LogicError''"

fun eval_list :: "'a eval list \<Rightarrow> 'a list eval" where
  "eval_list [] = Val []"
| "eval_list (m # ms) = bind_eval m (\<lambda>x. bind_eval (eval_list ms) (\<lambda>xs. Val (x # xs)))"

lemma eval_list_Val: "(\<And>x. x \<in> set xs \<Longrightarrow> f x = Val (g x)) \<Longrightarrow> eval_list (map f xs) = Val (map g xs)"
  by (induction xs) simp_all

lemma eval_list_id: "(\<And>x. x \<in> set xs \<Longrightarrow> f (h x) = Val x) \<Longrightarrow> eval_list (map f (map h xs)) = Val xs"
  using eval_list_Val [of xs "f \<circ> h" "\<lambda>x. x"] by simp

text \<open>\<open>operator[]\<close> with a member name: null stands for a missing member.\<close>

definition json_get :: "string \<Rightarrow> json \<Rightarrow> json eval" where
  "json_get k j = (case j of
     JNull \<Rightarrow> Val JNull
   | JObject ms \<Rightarrow> Val (case map_of ms k of None \<Rightarrow> JNull | Some v \<Rightarrow> v)
   | _ \<Rightarrow> logic_error)"

text \<open>\<open>operator[]\<close> with an index.\<close>

definition json_at :: "nat \<Rightarrow> json \<Rightarrow> json eval" where
  "json_at i j = (case j of
     JNull \<Rightarrow> Val JNull
   | JArray xs \<Rightarrow> Val (if i < length xs then xs ! i else JNull)
   | _ \<Rightarrow> logic_error)"

fun json_size :: "json \<Rightarrow> nat" where
  "json_size (JArray xs) = length xs"
| "json_size (JObject ms) = length ms"
| "json_size _ = 0"

text \<open>The values a range-based \<open>for\<close> visits.\<close>

fun json_items :: "json \<Rightarrow> json list" where
  "json_items (JArray xs) = xs"
| "json_items (JObject ms) = map snd ms"
| "json_items _ = []"

definition int_text :: "int \<Rightarrow> string" where
  "int_text i = (if i < 0 then CHR ''-'' # dec_of_nat (nat (- i)) else dec_of_nat (nat i))"

text \<open>The conversions \<open>asString\<close>, \<open>asBool\<close>, \<open>asUInt\<close>, and the laws the code relies on.\<close>

record json_lib =
  jl_string :: "json \<Rightarrow> string eval"
  jl_bool :: "json \<Rightarrow> bool eval"
  jl_uint :: "json \<Rightarrow> u32 eval"

locale json_library =
  fixes J :: json_lib
  assumes string_value: "jl_string J (JString s) = Val s"
    and bool_value: "jl_bool J (JBool b) = Val b"
    and uint_value: "0 \<le> i \<Longrightarrow> i < 2 ^ 32 \<Longrightarrow> jl_uint J (JInt i) = Val (of_int i)"

text \<open>The conversions as jsoncpp documents them.\<close>

fun as_string :: "json \<Rightarrow> string eval" where
  "as_string JNull = Val []"
| "as_string (JBool b) = Val (if b then ''true'' else ''false'')"
| "as_string (JInt i) = Val (int_text i)"
| "as_string (JReal t _ _) = Val t"
| "as_string (JString s) = Val s"
| "as_string _ = logic_error"

fun as_bool :: "json \<Rightarrow> bool eval" where
  "as_bool JNull = Val False"
| "as_bool (JBool b) = Val b"
| "as_bool (JInt i) = Val (i \<noteq> 0)"
| "as_bool (JReal _ nz _) = Val nz"
| "as_bool _ = logic_error"

fun as_uint :: "json \<Rightarrow> u32 eval" where
  "as_uint JNull = Val 0"
| "as_uint (JBool b) = Val (if b then 1 else 0)"
| "as_uint (JInt i) = (if 0 \<le> i \<and> i < 2 ^ 32 then Val (of_int i) else logic_error)"
| "as_uint (JReal _ _ (Some u)) = Val u"
| "as_uint _ = logic_error"

definition plain_json :: json_lib where
  "plain_json = \<lparr>jl_string = as_string, jl_bool = as_bool, jl_uint = as_uint\<rparr>"

interpretation plain: json_library plain_json
  by unfold_locales (simp_all add: plain_json_def)

section \<open>Parameters\<close>

lemma json_get_smaller:
  assumes "json_get k j = Val v" and "x \<in> set (json_items v)"
  shows "size x < size j"
proof -
  have *: "size y < size v" if "y \<in> set (json_items v)" for y
    using that
  proof (cases v)
    case (JArray xs)
    then have "size y < Suc (size_list size xs)" using that size_list_estimation' [of y xs "size y" size] by simp
    then show ?thesis using JArray by simp
  next
    case (JObject ms)
    then have "y \<in> snd ` set ms" using that by simp
    then obtain k' where "(k', y) \<in> set ms" by (elim imageE) (metis prod.collapse)
    then have "size_prod (\<lambda>_. 0) size (k', y) \<le> size_list (size_prod (\<lambda>_. 0) size) ms"
      using size_list_estimation' [of "(k', y)" ms _ "size_prod (\<lambda>_. 0) size"] by blast
    then show ?thesis using JObject by simp
  qed simp_all
  obtain ms where "j = JObject ms" "map_of ms k = Some v \<or> v = JNull"
    using assms by (auto simp: json_get_def logic_error_def split: json.splits option.splits)
  then show ?thesis
  proof (elim disjE)
    assume "map_of ms k = Some v"
    then have "(k, v) \<in> set ms" by (rule map_of_SomeD)
    then have "size_prod (\<lambda>_. 0) size (k, v) \<le> size_list (size_prod (\<lambda>_. 0) size) ms"
      using size_list_estimation' [of "(k, v)" ms _ "size_prod (\<lambda>_. 0) size"] by blast
    then show ?thesis using * [OF assms(2)] \<open>j = JObject ms\<close> by simp
  qed (use assms(2) in simp)
qed

function (sequential) parse_parameter :: "json_lib \<Rightarrow> json \<Rightarrow> parameter_abi eval" where
  "parse_parameter J input =
     bind_eval (json_get ''type'' input) (\<lambda>t. bind_eval (jl_string J t) (\<lambda>ty.
       if starts_with ty ''tuple''
       then bind_eval (json_get ''components'' input) (\<lambda>cs.
         if cs = JNull then Undef
         else bind_eval (eval_list (map (parse_parameter J) (json_items cs)))
           (\<lambda>ps. Val (ParameterAbi ty ps)))
       else Val (ParameterAbi ty [])))"
  by pat_completeness auto
termination
  by (relation "measure (size \<circ> snd)") (auto dest: json_get_smaller)

declare parse_parameter.simps [simp del]

section \<open>Functions\<close>

text \<open>
  The loop over the inputs: \<open>n\<close> is \<open>functionInputs.size()\<close>; the parameters and the signature so far
  are the accumulators.
\<close>

fun parse_inputs :: "json_lib \<Rightarrow> json \<Rightarrow> nat \<Rightarrow> nat list \<Rightarrow> parameter_abi list \<Rightarrow> string \<Rightarrow>
    (parameter_abi list \<times> string) eval" where
  "parse_inputs J ins n [] ps sg = Val (ps, sg)"
| "parse_inputs J ins n (i # is) ps sg =
     bind_eval (json_at i ins) (\<lambda>j. bind_eval (parse_parameter J j) (\<lambda>p.
       parse_inputs J ins n is (ps @ [p])
         (sg @ canonize_parameter p @ (if i < n - 1 then '','' else ''''))))"

definition parse_path :: "json_lib \<Rightarrow> json \<Rightarrow> u8 list eval" where
  "parse_path J c = bind_eval (json_get ''path'' c) (\<lambda>p.
     eval_list (map (\<lambda>x. bind_eval (jl_uint J x) (\<lambda>u. Val (ucast u))) (json_items p)))"

definition parse_conflict_field :: "json_lib \<Rightarrow> json \<Rightarrow> conflict_field eval" where
  "parse_conflict_field J c =
     bind_eval (parse_path J c) (\<lambda>path.
     bind_eval (bind_eval (json_get ''kind'' c) (jl_uint J)) (\<lambda>kind.
     bind_eval (bind_eval (json_get ''read_only'' c) (jl_bool J)) (\<lambda>ro.
     bind_eval (bind_eval (json_get ''slot'' c) (jl_uint J)) (\<lambda>slot.
       Val \<lparr>cfl_kind = ucast kind, cfl_path = path, cfl_read_only = ro, cfl_slot = ucast slot\<rparr>))))"

text \<open>One element of the description: \<open>None\<close> is \<open>continue\<close>.\<close>

definition parse_function ::
    "json_lib \<Rightarrow> (string \<Rightarrow> bytes) \<Rightarrow> bytes \<Rightarrow> json \<Rightarrow> function_abi option eval" where
  "parse_function J hash expected f =
     bind_eval (json_get ''type'' f) (\<lambda>ty.
     if ty = JNull then Val None
     else bind_eval (jl_string J ty) (\<lambda>t.
     if t \<noteq> ''function'' then Val None
     else bind_eval (json_get ''constant'' f) (\<lambda>c.
     if c = JNull then Val None
     else bind_eval (jl_bool J c) (\<lambda>b.
     if b then Val None
     else bind_eval (json_get ''name'' f) (\<lambda>nm.
     if nm = JNull then Undef
     else bind_eval (jl_string J nm) (\<lambda>name.
     bind_eval (json_get ''inputs'' f) (\<lambda>ins.
     if ins = JNull then Undef
     else bind_eval (parse_inputs J ins (json_size ins) [0..<json_size ins] [] (name @ ''(''))
       (\<lambda>(ps, sg).
     if take 4 (hash (sg @ '')'')) \<noteq> expected then Val None
     else bind_eval (json_get ''conflictFields'' f) (\<lambda>cf.
       bind_eval (eval_list (map (parse_conflict_field J) (json_items cf))) (\<lambda>cs.
         Val (Some \<lparr>fa_name = name, fa_inputs = ps, fa_conflicts = cs\<rparr>)))))))))))"

fun parse_functions ::
    "json_lib \<Rightarrow> (string \<Rightarrow> bytes) \<Rightarrow> bytes \<Rightarrow> json list \<Rightarrow> function_abi option eval" where
  "parse_functions J hash expected [] = Val None"
| "parse_functions J hash expected (f # fs) =
     bind_eval (parse_function J hash expected f) (\<lambda>r. case r of
       Some a \<Rightarrow> Val (Some a) | None \<Rightarrow> parse_functions J hash expected fs)"

definition abi_deserialize ::
    "json_lib \<Rightarrow> (string \<Rightarrow> json option) \<Rightarrow> (string \<Rightarrow> bytes) \<Rightarrow> string \<Rightarrow> bytes \<Rightarrow> function_abi option eval" where
  "abi_deserialize J parse hash abiStr expected =
     (if length expected \<noteq> 4 then Undef
      else case parse abiStr of
        Some (JArray fs) \<Rightarrow> parse_functions J hash expected fs
      | _ \<Rightarrow> Val None)"

section \<open>Descriptions that come back\<close>

text \<open>The JSON of a parameter, a conflict field and a function, as the compilers write them.\<close>

fun json_of_parameter :: "parameter_abi \<Rightarrow> json" where
  "json_of_parameter (ParameterAbi ty cs) =
     JObject [(''components'', JArray (map json_of_parameter cs)), (''type'', JString ty)]"

definition json_of_conflict :: "conflict_field \<Rightarrow> json" where
  "json_of_conflict c = JObject
     [(''kind'', JInt (uint (cfl_kind c))), (''path'', JArray (map (\<lambda>b. JInt (uint b)) (cfl_path c))),
      (''read_only'', JBool (cfl_read_only c)), (''slot'', JInt (uint (cfl_slot c)))]"

definition json_of_item :: "string \<Rightarrow> bool \<Rightarrow> function_abi \<Rightarrow> json" where
  "json_of_item ty constant f = JObject
     [(''conflictFields'', JArray (map json_of_conflict (fa_conflicts f))), (''constant'', JBool constant),
      (''inputs'', JArray (map json_of_parameter (fa_inputs f))), (''name'', JString (fa_name f)),
      (''type'', JString ty)]"

text \<open>Only tuples have components.\<close>

fun tuples_only :: "parameter_abi \<Rightarrow> bool" where
  "tuples_only (ParameterAbi ty cs) \<longleftrightarrow>
     (starts_with ty ''tuple'' \<or> cs = []) \<and> (\<forall>c \<in> set cs. tuples_only c)"

text \<open>The text whose hash selects a function.\<close>

fun comma_separated :: "string list \<Rightarrow> string" where
  "comma_separated [] = ''''"
| "comma_separated [s] = s"
| "comma_separated (s # t # ss) = s @ '','' @ comma_separated (t # ss)"

definition signature_text :: "function_abi \<Rightarrow> string" where
  "signature_text f =
     fa_name f @ ''('' @ comma_separated (map canonize_parameter (fa_inputs f)) @ '')''"

lemma byte_back: "ucast (ucast (w :: u8) :: u32) = w"
  by (rule bit_word_eqI) (simp add: bit_simps)

context json_library
begin

lemmas json_values = string_value bool_value

lemma parse_json_of_parameter: "tuples_only p \<Longrightarrow> parse_parameter J (json_of_parameter p) = Val p"
proof (induction p)
  case (ParameterAbi ty cs)
  have cs: "eval_list (map (parse_parameter J) (map json_of_parameter cs)) = Val cs"
    using ParameterAbi by (intro eval_list_id) simp
  show ?case
    using ParameterAbi.prems cs
    by (subst parse_parameter.simps) (auto simp: json_get_def json_values simp del: map_map)
qed

lemma parse_inputs_list:
  assumes "\<forall>p \<in> set ps. tuples_only p"
  shows "i + m = length ps \<Longrightarrow>
    parse_inputs J (JArray (map json_of_parameter ps)) (length ps) [i..<length ps] qs sg
      = Val (qs @ drop i ps, sg @ comma_separated (map canonize_parameter (drop i ps)))"
proof (induction m arbitrary: i qs sg)
  case 0
  then show ?case by simp
next
  case (Suc m)
  then have i: "i < length ps" by simp
  then have up: "[i..<length ps] = i # [Suc i..<length ps]" by (rule upt_conv_Cons)
  have dr: "drop i ps = ps ! i # drop (Suc i) ps" using i by (simp add: Cons_nth_drop_Suc)
  have p: "parse_parameter J (json_of_parameter (ps ! i)) = Val (ps ! i)"
    using assms i by (intro parse_json_of_parameter) simp
  have tail: "comma_separated (map canonize_parameter (drop i ps))
      = canonize_parameter (ps ! i) @ (if i < length ps - 1 then '','' else '''')
          @ comma_separated (map canonize_parameter (drop (Suc i) ps))"
  proof (cases "Suc i < length ps")
    case True
    then have "drop (Suc i) ps = ps ! Suc i # drop (Suc (Suc i)) ps" by (simp add: Cons_nth_drop_Suc)
    moreover have "i < length ps - 1" using True by simp
    ultimately show ?thesis unfolding dr by simp
  qed (use dr in simp)
  show ?case
    using Suc.IH [of "Suc i"] Suc.prems i p
    by (simp add: up json_at_def tail) (simp add: dr)
qed

lemma uint_byte: "jl_uint J (JInt (uint (w :: u8))) = Val (ucast w)"
proof -
  have "uint w < 256" using uint_lt2p [of w] by simp
  then show ?thesis by (simp add: uint_value ucast_eq [symmetric])
qed

lemma parse_path_json:
  "eval_list (map (\<lambda>x. bind_eval (jl_uint J x) (\<lambda>u. Val (ucast u))) (map (\<lambda>b. JInt (uint b)) path)) = Val (path :: u8 list)"
  by (rule eval_list_id) (simp only: uint_byte bind_eval.simps byte_back)

lemma parse_json_of_conflict: "parse_conflict_field J (json_of_conflict c) = Val c"
proof -
  have "parse_path J (json_of_conflict c) = Val (cfl_path c)"
    using parse_path_json [of "cfl_path c"]
    by (simp add: parse_path_def json_of_conflict_def json_get_def del: map_map)
  then show ?thesis
    by (simp add: parse_conflict_field_def uint_byte byte_back json_get_def json_of_conflict_def json_values)
qed

lemma parse_function_item:
  assumes "\<forall>p \<in> set (fa_inputs f). tuples_only p"
  shows "parse_function J hash expected (json_of_item ty constant f) =
    Val (if ty = ''function'' \<and> \<not> constant \<and> take 4 (hash (signature_text f)) = expected
         then Some f else None)"
proof -
  have cs: "eval_list (map (parse_conflict_field J) (map json_of_conflict (fa_conflicts f)))
      = Val (fa_conflicts f)"
    by (rule eval_list_id) (rule parse_json_of_conflict)
  have ins: "parse_inputs J (JArray (map json_of_parameter (fa_inputs f))) (length (fa_inputs f))
      [0..<length (fa_inputs f)] [] sg
    = Val (fa_inputs f, sg @ comma_separated (map canonize_parameter (fa_inputs f)))" for sg
    using parse_inputs_list [OF assms, of 0 "length (fa_inputs f)"] by simp
  show ?thesis
    using cs ins [of "fa_name f @ ''(''"]
    by (simp add: parse_function_def json_of_item_def json_get_def signature_text_def json_values
        del: map_map)
qed

lemma parse_functions_items:
  assumes "\<forall>(ty, c, f) \<in> set items. \<forall>p \<in> set (fa_inputs f). tuples_only p"
  shows "parse_functions J hash sel (map (\<lambda>(ty, c, f). json_of_item ty c f) items)
    = Val (find (\<lambda>f. take 4 (hash (signature_text f)) = sel)
        (map (\<lambda>(ty, c, f). f) (filter (\<lambda>(ty, c, f). ty = ''function'' \<and> \<not> c) items)))"
  using assms by (induction items) (auto simp: parse_function_item split: if_splits)

end

text \<open>C27: The ABI of a contract comes back: for the JSON array that lists the items of a contract, of any
  type, the deserialiser returns the first function that is not constant and whose signature
  hashes to the selector, with its parameters and conflict fields as they were described.\<close>
theorem abi_roundtrip:
  assumes "json_library J"
    and "parse txt = Some (JArray (map (\<lambda>(ty, c, f). json_of_item ty c f) items))"
    and "\<forall>(ty, c, f) \<in> set items. \<forall>p \<in> set (fa_inputs f). tuples_only p"
    and "length sel = 4"
  shows "abi_deserialize J parse hash txt sel = Val (find (\<lambda>f. take 4 (hash (signature_text f)) = sel)
    (map (\<lambda>(ty, c, f). f) (filter (\<lambda>(ty, c, f). ty = ''function'' \<and> \<not> c) items)))"
  using json_library.parse_functions_items [OF assms(1,3), of hash sel] assms(2,4)
  by (simp add: abi_deserialize_def)

text \<open>A transfer with a tuple parameter, after an event and a constant function.\<close>

definition transfer_abi :: function_abi where
  "transfer_abi = \<lparr>fa_name = ''transfer'',
     fa_inputs = [ParameterAbi ''string'' [],
                  ParameterAbi ''tuple[2]'' [ParameterAbi ''string'' [], ParameterAbi ''uint32'' []]],
     fa_conflicts = [\<lparr>cfl_kind = 3, cfl_path = [0], cfl_read_only = False, cfl_slot = 1\<rparr>]\<rparr>"

definition contract_items :: "(string \<times> bool \<times> function_abi) list" where
  "contract_items = [(''event'', False, transfer_abi), (''function'', True, transfer_abi),
     (''function'', False, transfer_abi)]"

definition first_letters :: "string \<Rightarrow> bytes" where
  "first_letters s = text_bytes (take 32 s)"

lemma transfer_signature: "signature_text transfer_abi = ''transfer(string,(string,uint32)[2])''"
  by (simp add: signature_text_def transfer_abi_def starts_with_def)

theorem abi_roundtrip_witness:
  "abi_deserialize plain_json (\<lambda>_. Some (JArray (map (\<lambda>(ty, c, f). json_of_item ty c f) contract_items)))
     first_letters ''abi'' (text_bytes ''tran'') = Val (Some transfer_abi)"
proof -
  have "take 4 (first_letters (signature_text transfer_abi)) = text_bytes ''tran''"
    by (simp add: transfer_signature first_letters_def text_bytes_def)
  then show ?thesis
    by (subst abi_roundtrip [OF plain.json_library_axioms, of _ _ contract_items])
      (simp_all add: contract_items_def transfer_abi_def text_bytes_def starts_with_def)
qed

text \<open>A member of the wrong kind is an exception, not a missing description.\<close>

theorem constant_text_throws:
  "abi_deserialize plain_json (\<lambda>_. Some (JArray [JObject [(''constant'', JString ''false''), (''type'', JString ''function'')]]))
     hash txt [1, 2, 3, 4] = Throw ''Json::LogicError''"
  by (simp add: abi_deserialize_def parse_function_def json_get_def logic_error_def plain_json_def)

end
