(* ===== verification/WasmBatch.thy ===== *)
theory WasmBatch imports AbiJson DagSerial ClockCacheSpec begin

text \<open>
  \<open>dagExecuteTransactionsForWasm\<close> of \<open>src/executor/TransactionExecutor.cpp\<close> as a whole: the parallel
  stage that finds the conflict keys of each call through the cache of ABI descriptions, and the run
  of the task graph of theory ConflictGraph.

  The cache is the one of theory ClockCache.  It compares hashes of keys only and may evict any entry
  at any time, so here it is the set of what was ever inserted: a lookup may miss, and when it hits,
  the value was inserted under a key of the same hash (\<open>cache_hit_is_a_step\<close>).  Reading
  the contract's table leaves the storage as it is.  The executives and TBB are as in the other
  branch: \<open>start\<close> is \<open>TransactionExecutive::start\<close>, \<open>None\<close> its exception.
\<close>

section \<open>The conflict keys of one call\<close>

datatype wasm_stage = SentBack | SentBackEmpty | Keyed "bytes list" | StageThrow string | StageUndef

text \<open>\<open>we_hash\<close> is the hash of the chain, \<open>we_address_hash\<close> the one of \<open>boost\<close>.\<close>

record 's wasm_env =
  we_ops :: "'s storage_ops"
  we_json :: json_lib
  we_parse :: "string \<Rightarrow> json option"
  we_hash :: "string \<Rightarrow> bytes"
  we_address_hash :: "string \<Rightarrow> u64"
  we_compact_len :: "u32 \<Rightarrow> u32"
  we_timestamp :: u64
  we_number :: u64

definition call_selector :: "call_parameters \<Rightarrow> bytes" where
  "call_selector p = take 4 (cp_data p)"

definition abi_key :: "call_parameters \<Rightarrow> bytes" where
  "abi_key p = text_bytes (receiveAddress p) @ call_selector p"

definition stage_with_abi :: "'s wasm_env \<Rightarrow> function_abi \<Rightarrow> call_parameters \<Rightarrow> wasm_stage" where
  "stage_with_abi E f p =
     (case decode_conflict_fields (we_address_hash E) (we_compact_len E) (we_timestamp E) (we_number E) f p of
        CfNone \<Rightarrow> SentBackEmpty
      | CfUndef \<Rightarrow> StageUndef
      | CfKeys ks \<Rightarrow> Keyed ks)"

text \<open>Loading the description from the contract's table.\<close>

definition load_abi :: "'s wasm_env \<Rightarrow> 's \<Rightarrow> call_parameters \<Rightarrow> function_abi option eval" where
  "load_abi E s p =
     (let table = ''/apps'' @ receiveAddress p in
      if \<not> st_open (we_ops E) s table then Undef
      else case row (we_ops E) s table ''abi'' of
        None \<Rightarrow> Undef
      | Some abiStr \<Rightarrow> abi_deserialize (we_json E) (we_parse E) (we_hash E) abiStr (call_selector p))"

definition stage_loaded :: "'s wasm_env \<Rightarrow> function_abi option eval \<Rightarrow> call_parameters \<Rightarrow> wasm_stage" where
  "stage_loaded E r p = (case r of
     Val (Some f) \<Rightarrow> stage_with_abi E f p
   | Val None \<Rightarrow> SentBack
   | Throw e \<Rightarrow> StageThrow e
   | Undef \<Rightarrow> StageUndef)"

section \<open>The parallel stage\<close>

text \<open>
  A worker looks the key up; after a miss it takes the lock, looks again, and otherwise loads and
  inserts the description.  What happens under the lock is one step, since the other threads only
  look up meanwhile.
\<close>

datatype wasm_pc = Fresh | Missed | Staged wasm_stage

record wasm_sys =
  ws_pcs :: "wasm_pc list"
  ws_inserted :: "(bytes \<times> function_abi) set"

definition stage_done :: "nat \<Rightarrow> wasm_stage \<Rightarrow> wasm_sys \<Rightarrow> wasm_sys" where
  "stage_done i st w = w\<lparr>ws_pcs := (ws_pcs w)[i := Staged st]\<rparr>"

text \<open>\<open>hk\<close> is the hash of a key.\<close>

inductive wasm_step :: "'s wasm_env \<Rightarrow> (bytes \<Rightarrow> u64) \<Rightarrow> 's \<Rightarrow> call_parameters list \<Rightarrow> wasm_sys \<Rightarrow> wasm_sys \<Rightarrow> bool"
  for E hk s inputs where
  ws_create: "i < length inputs \<Longrightarrow> ws_pcs w ! i = Fresh \<Longrightarrow> cp_create (inputs ! i) \<Longrightarrow>
    wasm_step E hk s inputs w (stage_done i SentBack w)"
| ws_hit: "i < length inputs \<Longrightarrow> ws_pcs w ! i \<in> {Fresh, Missed} \<Longrightarrow> \<not> cp_create (inputs ! i) \<Longrightarrow>
    (k, f) \<in> ws_inserted w \<Longrightarrow> hk k = hk (abi_key (inputs ! i)) \<Longrightarrow>
    wasm_step E hk s inputs w (stage_done i (stage_with_abi E f (inputs ! i)) w)"
| ws_miss: "i < length inputs \<Longrightarrow> ws_pcs w ! i = Fresh \<Longrightarrow> \<not> cp_create (inputs ! i) \<Longrightarrow>
    wasm_step E hk s inputs w (w\<lparr>ws_pcs := (ws_pcs w)[i := Missed]\<rparr>)"
| ws_load: "i < length inputs \<Longrightarrow> ws_pcs w ! i = Missed \<Longrightarrow> \<not> cp_create (inputs ! i) \<Longrightarrow>
    load_abi E s (inputs ! i) = r \<Longrightarrow>
    wasm_step E hk s inputs w
      (stage_done i (stage_loaded E r (inputs ! i))
        (case r of Val (Some f) \<Rightarrow> w\<lparr>ws_inserted := insert (abi_key (inputs ! i), f) (ws_inserted w)\<rparr>
         | _ \<Rightarrow> w))"

inductive wasm_stage_run :: "'s wasm_env \<Rightarrow> (bytes \<Rightarrow> u64) \<Rightarrow> 's \<Rightarrow> call_parameters list \<Rightarrow>
    (bytes \<times> function_abi) set \<Rightarrow> wasm_sys \<Rightarrow> bool" for E hk s inputs cached where
  wr_start: "wasm_stage_run E hk s inputs cached
    \<lparr>ws_pcs = replicate (length inputs) Fresh, ws_inserted = cached\<rparr>"
| wr_step: "wasm_stage_run E hk s inputs cached w \<Longrightarrow> wasm_step E hk s inputs w w' \<Longrightarrow>
    wasm_stage_run E hk s inputs cached w'"

section \<open>Running the graph\<close>

definition stage_fields :: "wasm_stage \<Rightarrow> bytes list option" where
  "stage_fields st = (case st of Keyed ks \<Rightarrow> Some ks | _ \<Rightarrow> None)"

text \<open>The results after the first stage; \<open>m0\<close> is the message of \<open>createExecutionMessage\<close>.\<close>

definition stage_result :: "execution_message \<Rightarrow> call_parameters \<Rightarrow> wasm_stage \<Rightarrow> execution_message" where
  "stage_result m0 p st = (case st of
     SentBack \<Rightarrow> (to_execution_result m0 p)\<lparr>em_type := MSG_SEND_BACK\<rparr>
   | SentBackEmpty \<Rightarrow> m0\<lparr>em_type := MSG_SEND_BACK\<rparr>
   | _ \<Rightarrow> m0)"

text \<open>Task number \<open>t\<close> belongs to the \<open>t\<close>-th input with conflict keys.\<close>

definition task_inputs :: "wasm_stage list \<Rightarrow> nat list" where
  "task_inputs stages = filter (\<lambda>i. stage_fields (stages ! i) \<noteq> None) [0..<length stages]"

definition wasm_task :: "execution_message \<Rightarrow> (call_parameters \<Rightarrow> 's \<Rightarrow> call_parameters option \<times> 's) \<Rightarrow>
    call_parameters list \<Rightarrow> nat \<Rightarrow> execution_message list \<times> 's \<Rightarrow> execution_message list \<times> 's" where
  "wasm_task m0 start inputs i rs =
     (let p = inputs ! i in
      case start p (snd rs) of
        (None, s') \<Rightarrow> ((fst rs)[i := (fst rs ! i)\<lparr>em_type := MSG_REVERT\<rparr>], s')
      | (Some out, s') \<Rightarrow>
          ((fst rs)[i := to_execution_result_of m0 (cp_contextID p) (cp_seq p) out], s'))"

definition thrown :: "wasm_stage list \<Rightarrow> string list" where
  "thrown stages = concat (map (\<lambda>st. case st of StageThrow e \<Rightarrow> [e] | _ \<Rightarrow> []) stages)"

text \<open>The whole call, given what the first stage found and the order in which TBB ran the tasks.\<close>

definition dag_execute_wasm :: "execution_message \<Rightarrow>
    (call_parameters \<Rightarrow> 's \<Rightarrow> call_parameters option \<times> 's) \<Rightarrow> wasm_stage list \<Rightarrow> call_parameters list \<Rightarrow>
    nat list \<Rightarrow> 's \<Rightarrow> (execution_message list \<times> 's) eval" where
  "dag_execute_wasm m0 start stages inputs order s =
     (if StageUndef \<in> set stages then Undef
      else if thrown stages \<noteq> [] then Throw (hd (thrown stages))
      else Val (fold (\<lambda>t. wasm_task m0 start inputs (task_inputs stages ! t)) order
                   (map2 (stage_result m0) inputs stages, s)))"

section \<open>The cache does not show\<close>

text \<open>A handle of the concurrent cache, in which only what this program inserted is, gives a step here.\<close>

theorem cache_hit_is_a_step:
  assumes "cache_reachable capacity threads y" and "0 < capacity" and "threads < 2 ^ 30 - 1"
    and ins: "set (cy_inserted y) \<subseteq> (\<lambda>(k, f). (hk k, f)) ` ws_inserted w"
    and t: "t < length (cy_pcs y)" "cy_pcs y ! t = Holding e (hk (abi_key (inputs ! i)))"
    and "i < length inputs" and "ws_pcs w ! i \<in> {Fresh, Missed}" and "\<not> cp_create (inputs ! i)"
  shows "wasm_step E hk s inputs w
    (stage_done i (stage_with_abi E (ci_value (cs_list (cy_shard y) ! e)) (inputs ! i)) w)"
proof -
  let ?f = "ci_value (cs_list (cy_shard y) ! e)"
  have "cache_inv y" using assms(1-3) by (rule cache_reachable_inv)
  then have "(hk (abi_key (inputs ! i)), ?f) \<in> set (cy_inserted y)" using t by (rule holding_entry(3))
  then obtain k where "(k, ?f) \<in> ws_inserted w" "hk k = hk (abi_key (inputs ! i))" using ins by auto
  then show ?thesis using assms(7-9) by (intro ws_hit)
qed

text \<open>What a call's stage is without any cache.\<close>

definition direct_stage :: "'s wasm_env \<Rightarrow> 's \<Rightarrow> call_parameters \<Rightarrow> wasm_stage" where
  "direct_stage E s p = (if cp_create p then SentBack else stage_loaded E (load_abi E s p) p)"

text \<open>
  What was inserted for the key of a call is what its contract's table says; \<open>keys_apart\<close> says that the
  calls of the batch have no two keys the cache confuses.
\<close>

definition cache_agrees :: "'s wasm_env \<Rightarrow> (bytes \<Rightarrow> u64) \<Rightarrow> 's \<Rightarrow> call_parameters list \<Rightarrow>
    (bytes \<times> function_abi) set \<Rightarrow> bool" where
  "cache_agrees E hk s inputs cached \<longleftrightarrow> (\<forall>(k, f) \<in> cached. \<forall>p \<in> set inputs.
     \<not> cp_create p \<longrightarrow> hk k = hk (abi_key p) \<longrightarrow> load_abi E s p = Val (Some f))"

definition keys_apart :: "(bytes \<Rightarrow> u64) \<Rightarrow> call_parameters list \<Rightarrow> bool" where
  "keys_apart hk inputs \<longleftrightarrow> (\<forall>p \<in> set inputs. \<forall>q \<in> set inputs.
     hk (abi_key p) = hk (abi_key q) \<longrightarrow>
       receiveAddress p = receiveAddress q \<and> call_selector p = call_selector q)"

definition staged_ok :: "'s wasm_env \<Rightarrow> 's \<Rightarrow> call_parameters list \<Rightarrow> wasm_sys \<Rightarrow> bool" where
  "staged_ok E s inputs w \<longleftrightarrow> length (ws_pcs w) = length inputs \<and> (\<forall>i < length inputs. \<forall>st.
     ws_pcs w ! i = Staged st \<longrightarrow> st = direct_stage E s (inputs ! i))"

lemma staged_ok_update:
  assumes "staged_ok E s inputs w" and "\<And>st. pc = Staged st \<Longrightarrow> st = direct_stage E s (inputs ! i)"
  shows "staged_ok E s inputs (w\<lparr>ws_pcs := (ws_pcs w)[i := pc]\<rparr>)"
  unfolding staged_ok_def
proof (intro conjI allI impI)
  fix j st
  assume "j < length inputs" "ws_pcs (w\<lparr>ws_pcs := (ws_pcs w)[i := pc]\<rparr>) ! j = Staged st"
  then show "st = direct_stage E s (inputs ! j)"
    using assms by (cases "j = i") (auto simp: staged_ok_def)
qed (use assms(1) in \<open>simp add: staged_ok_def\<close>)

lemma staged_ok_inserted [simp]:
  "staged_ok E s inputs (w\<lparr>ws_inserted := c\<rparr>) = staged_ok E s inputs w"
  by (simp add: staged_ok_def)

lemma load_abi_same:
  "receiveAddress p = receiveAddress q \<Longrightarrow> call_selector p = call_selector q \<Longrightarrow>
     load_abi E s p = load_abi E s q"
  by (simp add: load_abi_def Let_def split: option.split)

lemma cache_agreesD:
  "cache_agrees E hk s inputs c \<Longrightarrow> (k, f) \<in> c \<Longrightarrow> p \<in> set inputs \<Longrightarrow> \<not> cp_create p \<Longrightarrow>
     hk k = hk (abi_key p) \<Longrightarrow> load_abi E s p = Val (Some f)"
  unfolding cache_agrees_def by blast

lemma cache_agrees_insert:
  assumes "cache_agrees E hk s inputs c" and "keys_apart hk inputs" and "p \<in> set inputs"
    and "load_abi E s p = Val (Some f)"
  shows "cache_agrees E hk s inputs (insert (abi_key p, f) c)"
proof -
  have "load_abi E s q = Val (Some g)"
    if kg: "(k, g) \<in> insert (abi_key p, f) c" and q: "q \<in> set inputs" "\<not> cp_create q" "hk k = hk (abi_key q)"
    for k g q
  proof (cases "(k, g) \<in> c")
    case True
    then show ?thesis using cache_agreesD [OF assms(1)] q by blast
  next
    case False
    then have eq: "k = abi_key p" "g = f" using kg by auto
    then have "receiveAddress p = receiveAddress q \<and> call_selector p = call_selector q"
      using assms(2,3) q unfolding keys_apart_def by blast
    then have "load_abi E s p = load_abi E s q" by (intro load_abi_same) simp_all
    then show ?thesis using assms(4) eq by simp
  qed
  then show ?thesis unfolding cache_agrees_def by blast
qed

lemma wasm_step_keeps:
  assumes "wasm_step E hk s inputs w w'" and "keys_apart hk inputs"
    and "cache_agrees E hk s inputs (ws_inserted w)" and "staged_ok E s inputs w"
  shows "cache_agrees E hk s inputs (ws_inserted w') \<and> staged_ok E s inputs w'"
  using assms
proof (induction rule: wasm_step.induct)
  case (ws_create i w)
  then show ?case by (auto simp: stage_done_def direct_stage_def intro!: staged_ok_update)
next
  case (ws_hit i w k f)
  then have "load_abi E s (inputs ! i) = Val (Some f)" by (auto simp: cache_agrees_def)
  then show ?case
    using ws_hit by (auto simp: stage_done_def direct_stage_def stage_loaded_def intro!: staged_ok_update)
next
  case (ws_miss i w)
  then show ?case by (auto intro!: staged_ok_update)
next
  case (ws_load i w r)
  have "staged_ok E s inputs (stage_done i (stage_loaded E r (inputs ! i)) w)"
    using ws_load by (auto simp: stage_done_def direct_stage_def intro!: staged_ok_update)
  moreover have "staged_ok E s inputs (stage_done i st (w\<lparr>ws_inserted := c\<rparr>))
      = staged_ok E s inputs (stage_done i st w)" for st c
    by (simp add: stage_done_def staged_ok_def)
  moreover have "cache_agrees E hk s inputs (insert (abi_key (inputs ! i), f) (ws_inserted w))"
    if "r = Val (Some f)" for f
    using ws_load that by (intro cache_agrees_insert) auto
  ultimately show ?case
    using ws_load.prems(2) by (auto simp: stage_done_def split: eval.split option.split)
qed

lemma wasm_stage_run_keeps:
  assumes "wasm_stage_run E hk s inputs cached w" and "keys_apart hk inputs"
    and "cache_agrees E hk s inputs cached"
  shows "cache_agrees E hk s inputs (ws_inserted w) \<and> staged_ok E s inputs w"
  using assms
proof (induction rule: wasm_stage_run.induct)
  case wr_start
  then show ?case by (simp add: staged_ok_def)
next
  case (wr_step w w')
  note ok = wr_step.IH [OF wr_step.prems]
  show ?case
    using wasm_step_keeps [OF wr_step.hyps(2) wr_step.prems(1)] ok by blast
qed

lemma stage_independent:
  assumes "wasm_stage_run E hk s inputs cached w" and "keys_apart hk inputs"
    and "cache_agrees E hk s inputs cached" and "ws_pcs w = map Staged stages"
  shows "stages = map (direct_stage E s) inputs"
proof -
  have ok: "staged_ok E s inputs w" using wasm_stage_run_keeps [OF assms(1-3)] by simp
  then have len: "length stages = length inputs" using assms(4) by (simp add: staged_ok_def)
  show ?thesis
    using ok len assms(4) by (intro nth_equalityI) (simp_all add: staged_ok_def)
qed

section \<open>Serializability\<close>

lemma wasm_task_commute:
  assumes "i \<noteq> j" and "starts_commute start (inputs ! i) (inputs ! j)"
  shows "wasm_task m0 start inputs i (wasm_task m0 start inputs j rs)
    = wasm_task m0 start inputs j (wasm_task m0 start inputs i rs)"
proof -
  let ?p = "inputs ! i" and ?q = "inputs ! j" and ?s = "snd rs"
  have c: "fst (start ?p (snd (start ?q ?s))) = fst (start ?p ?s)"
      "fst (start ?q (snd (start ?p ?s))) = fst (start ?q ?s)"
      "snd (start ?p (snd (start ?q ?s))) = snd (start ?q (snd (start ?p ?s)))"
    using assms(2) unfolding starts_commute_def by blast+
  obtain a s1 b s2 where ab: "start ?p ?s = (a, s1)" "start ?q ?s = (b, s2)"
    by (metis surj_pair)
  have "start ?p s2 = (a, snd (start ?q s1))" "start ?q s1 = (b, snd (start ?q s1))"
    using c ab by (auto intro!: prod_eqI)
  then obtain t where "start ?p s2 = (a, t)" "start ?q s1 = (b, t)" by blast
  with ab assms(1) show ?thesis
    by (auto simp: wasm_task_def Let_def list_update_swap split: option.split)
qed

lemma distinct_task_inputs: "distinct (task_inputs stages)"
  by (simp add: task_inputs_def)

lemma task_fields_inputs:
  "task_fields (map stage_fields stages) = map (\<lambda>i. the (stage_fields (stages ! i))) (task_inputs stages)"
proof -
  have "map stage_fields stages = map (\<lambda>i. stage_fields (stages ! i)) [0..<length stages]"
    by (rule nth_equalityI) simp_all
  then show ?thesis by (simp add: task_fields_def task_inputs_def filter_map o_def)
qed

lemma split_precedes: "distinct log \<Longrightarrow> log = ps @ i # qs @ j # rs \<Longrightarrow> precedes log i j"
  unfolding precedes_def
proof (intro allI impI)
  fix k
  assume d: "distinct log" and l: "log = ps @ i # qs @ j # rs" and k: "k < length log" "log ! k = j"
  let ?m = "length ps + Suc (length qs)"
  have "log ! ?m = j" "?m < length log" by (simp_all add: l nth_append)
  then have "k = ?m" using k d nth_eq_iff_index_eq by metis
  then show "i \<in> set (take k log)" by (simp add: l)
qed

lemma tbb_distinct: "tbb_order g ns \<Longrightarrow> distinct ns"
  by (induction rule: tbb_order.induct) auto

lemma tbb_conflict_order:
  assumes "tbb_order (build_graph xs) ns" and "i < j" and "j < length (task_fields xs)"
    and "j \<in> set ns" and "keys_conflict (task_fields xs) i j"
  shows "precedes ns i j"
proof -
  obtain a b where ab: "a \<in> set (task_fields xs ! i)" "b \<in> set (task_fields xs ! j)" "conflicting a b"
    using assms(5) by (auto simp: keys_conflict_def)
  have inv: "graph_inv (all_seen (task_fields xs)) (build_graph xs)"
    using add_tasks_inv by (simp add: build_graph_tasks)
  have "(i, a) \<in> all_seen (task_fields xs)" "(j, b) \<in> all_seen (task_fields xs)"
    using assms ab by (auto simp: all_seen_def)
  then have "(i, j) \<in> reach (build_graph xs)" using graph_invD(3) [OF inv] assms ab by blast
  then obtain ps qs rs where "ns = ps @ i # qs @ j # rs"
    using tbb_before [OF assms(1)] assms(2,4) unfolding reach_def by blast
  then show ?thesis by (rule split_precedes [OF tbb_distinct [OF assms(1)]])
qed

text \<open>Any part of a run gives what the same tasks give in block order.\<close>

lemma tasks_serial:
  assumes run: "tbb_order (build_graph (map stage_fields stages)) ns"
    and comm: "\<And>i j. i < j \<Longrightarrow> i \<in> set ns \<Longrightarrow> j \<in> set ns \<Longrightarrow>
      \<not> keys_conflict (task_fields (map stage_fields stages)) i j \<Longrightarrow>
      starts_commute start (inputs ! (task_inputs stages ! i)) (inputs ! (task_inputs stages ! j))"
  shows "fold (\<lambda>t. wasm_task m0 start inputs (task_inputs stages ! t)) ns rs
    = fold (\<lambda>t. wasm_task m0 start inputs (task_inputs stages ! t))
        (filter (\<lambda>t. t \<in> set ns) [0..<length (task_inputs stages)]) rs"
proof -
  let ?n = "length (task_inputs stages)" and ?kss = "task_fields (map stage_fields stages)"
  let ?f = "\<lambda>t. wasm_task m0 start inputs (task_inputs stages ! t)"
  let ?g = "\<lambda>t rs. if t \<in> set ns then ?f t rs else rs"
  let ?k = "\<lambda>i j. i \<in> set ns \<and> j \<in> set ns \<and> keys_conflict ?kss i j"
  have len: "length ?kss = ?n" by (simp add: task_fields_inputs)
  have bound: "set ns \<subseteq> {..<?n}" using tbb_bound [OF run] len by simp
  let ?log = "ns @ filter (\<lambda>t. t \<notin> set ns) [0..<?n]"
  have steps: "independent_steps ?g ?k"
  proof
    fix i j :: nat and rs
    assume c: "\<not> ?k i j" "i < j"
    show "?g i (?g j rs) = ?g j (?g i rs)"
    proof (cases "i \<in> set ns \<and> j \<in> set ns")
      case True
      then have ij: "i \<in> set ns" "j \<in> set ns" by simp_all
      then have "task_inputs stages ! i \<noteq> task_inputs stages ! j"
        using c(2) bound distinct_task_inputs [of stages] by (auto simp: nth_eq_iff_index_eq)
      then show ?thesis
        using ij wasm_task_commute [OF _ comm [OF c(2) ij]] c(1) by simp
    qed auto
  qed
  have "fold ?g ?log rs = fold ?g [0..<?n] rs"
  proof (rule independent_steps.schedule_serial [OF steps])
    show "distinct ?log" using tbb_distinct [OF run] by auto
    show "set ?log = {0..<?n}" using bound by auto
    fix i j
    assume ij: "i < j" "j < ?n" "?k i j"
    then have "precedes ns i j" using tbb_conflict_order [OF run] len by simp
    then show "precedes ?log i j"
      using ij unfolding precedes_def by (auto simp: nth_append)
  qed
  moreover have "fold ?g xs rs = fold ?f (filter (\<lambda>t. t \<in> set ns) xs) rs" for xs rs
    by (induction xs arbitrary: rs) simp_all
  moreover have "filter (\<lambda>t. t \<in> set ns) ?log = ns" by simp
  ultimately show ?thesis by metis
qed

text \<open>C3: The WASM branch is serializable.  Let the calls that run and have no conflicting keys commute,
  let no two keys of the batch collide in the cache (\<open>keys_apart\<close>) and let the entries it holds agree
  with the contracts (\<open>cache_agrees\<close>).  Then, whatever the interleaving of the first stage, whatever the
  cache evicts and whatever order TBB chooses, the results and the final state at any moment of the run
  are those of decoding each call's own description and running the calls run so far in block order.
  The tasks that run are never those that wait forever: a task whose keys overlap with themselves, and
  what conflicts with a waiting task before it; when TBB can run nothing more, all others have run.  So
  if no task overlaps with itself, the outcome is that of all calls in block order.\<close>
theorem wasm_branch_serializable:
  assumes "wasm_stage_run E hk s inputs cached w" and "ws_pcs w = map Staged stages"
    and "keys_apart hk inputs" and "cache_agrees E hk s inputs cached"
    and "tbb_order (build_graph (map stage_fields stages)) ns"
    and "\<And>i j. i < j \<Longrightarrow> i \<in> set ns \<Longrightarrow> j \<in> set ns \<Longrightarrow>
      \<not> keys_conflict (task_fields (map stage_fields stages)) i j \<Longrightarrow>
      starts_commute start (inputs ! (task_inputs stages ! i)) (inputs ! (task_inputs stages ! j))"
  shows "let kss = task_fields (map stage_fields stages); n = length (task_inputs stages);
      stuck = (\<forall>m. \<not> tbb_order (build_graph (map stage_fields stages)) (ns @ [m]));
      serial = (\<lambda>ts. dag_execute_wasm m0 start (map (direct_stage E s) inputs) inputs ts st)
    in dag_execute_wasm m0 start stages inputs ns st = serial (filter (\<lambda>t. t \<in> set ns) [0..<n])
      \<and> set ns \<subseteq> {t. t < n \<and> \<not> waits_forever kss t}
      \<and> (stuck \<longrightarrow> set ns = {t. t < n \<and> \<not> waits_forever kss t})
      \<and> (stuck \<and> (\<forall>fs \<in> set kss. \<not> self_overlap fs) \<longrightarrow>
           dag_execute_wasm m0 start stages inputs ns st = serial [0..<n])"
proof -
  let ?kss = "task_fields (map stage_fields stages)"
  have len: "length ?kss = length (task_inputs stages)" by (simp add: task_fields_inputs)
  have serial: "dag_execute_wasm m0 start stages inputs ns st
      = dag_execute_wasm m0 start (map (direct_stage E s) inputs) inputs
          (filter (\<lambda>t. t \<in> set ns) [0..<length (task_inputs stages)]) st"
    unfolding stage_independent [OF assms(1,3,4,2), symmetric]
    using tasks_serial [OF assms(5,6)] by (simp add: dag_execute_wasm_def)
  have sub: "set ns \<subseteq> {t. t < length (task_inputs stages) \<and> \<not> waits_forever ?kss t}"
    using tbb_bound [OF assms(5)] tbb_not_waiting [OF assms(5)] len by auto
  have all: "set ns = {t. t < length (task_inputs stages) \<and> \<not> waits_forever ?kss t}"
    if "\<forall>m. \<not> tbb_order (build_graph (map stage_fields stages)) (ns @ [m])"
    using tbb_complete [OF assms(5)] that len by simp
  have "\<not> waits_forever ?kss t" if "\<forall>fs \<in> set ?kss. \<not> self_overlap fs" for t
    using that by (auto simp: waits_forever_def)
  then have "filter (\<lambda>t. t \<in> set ns) [0..<length (task_inputs stages)] = [0..<length (task_inputs stages)]"
    if "\<forall>m. \<not> tbb_order (build_graph (map stage_fields stages)) (ns @ [m])" "\<forall>fs \<in> set ?kss. \<not> self_overlap fs"
    using all [OF that(1)] that(2) by (simp add: filter_id_conv)
  then show ?thesis using serial sub all by (simp add: Let_def)
qed

text \<open>Three calls of one contract, the first two by the same sender, which its conflict field names; the
  second and third find in the cache what the first one loaded, and TBB runs the third first.\<close>

definition mark_abi :: function_abi where
  "mark_abi = \<lparr>fa_name = ''mark'', fa_inputs = [],
     fa_conflicts = [\<lparr>cfl_kind = 2, cfl_path = [0], cfl_read_only = False, cfl_slot = 1\<rparr>]\<rparr>"

definition mark_env :: "mem wasm_env" where
  "mark_env = \<lparr>we_ops = mem_ops, we_json = plain_json, we_parse = (\<lambda>_. Some (JArray [json_of_item ''function'' False mark_abi])),
     we_hash = first_letters, we_address_hash = (\<lambda>_. 0), we_compact_len = (\<lambda>_. 1), we_timestamp = 0,
     we_number = 7\<rparr>"

definition mark_mem :: mem where
  "mark_mem = mem_empty(mem_sys := [''/apps/c'' \<mapsto> ''''], ''/apps/c'' := [''abi'' \<mapsto> ''[...]''])"

definition mark_call :: "string \<Rightarrow> call_parameters" where
  "mark_call sender = (new_call_parameters CP_MESSAGE)\<lparr>senderAddress := sender,
     receiveAddress := ''/c'', cp_data := text_bytes ''mark''\<rparr>"

definition mark_inputs :: "call_parameters list" where
  "mark_inputs = [mark_call ''x'', mark_call ''x'', mark_call ''y'']"

definition mark_stage :: "string \<Rightarrow> wasm_stage" where
  "mark_stage sender = Keyed [[1, 0, 0, 0, 0, 0, 0, 0] @ text_bytes sender]"

definition mark_stages :: "wasm_stage list" where
  "mark_stages = [mark_stage ''x'', mark_stage ''x'', mark_stage ''y'']"

definition mark_start :: "call_parameters \<Rightarrow> (string \<Rightarrow> bytes list) \<Rightarrow>
    call_parameters option \<times> (string \<Rightarrow> bytes list)" where
  "mark_start p m = (Some p, m(senderAddress p := m (senderAddress p) @ [cp_data p]))"

lemma mark_load: "load_abi mark_env mark_mem (mark_call sender) = Val (Some mark_abi)"
proof -
  have "take 4 (first_letters (signature_text mark_abi)) = text_bytes ''mark''"
    by (simp add: signature_text_def mark_abi_def first_letters_def text_bytes_def)
  moreover have "length (text_bytes ''mark'') = 4" by (simp add: text_bytes_def)
  moreover have "parse_function plain_json first_letters expected (json_of_item ''function'' False mark_abi) =
      Val (if take 4 (first_letters (signature_text mark_abi)) = expected then Some mark_abi else None)" for expected
    by (subst plain.parse_function_item) (simp_all add: mark_abi_def)
  ultimately show ?thesis
    by (simp add: load_abi_def mark_env_def mark_mem_def mark_call_def call_selector_def row_def mem_sys_def
        abi_deserialize_def)
qed

lemma mark_with_abi: "stage_with_abi mark_env mark_abi (mark_call sender) = mark_stage sender"
proof -
  have "[0..<8] = [0, 1, 2, 3, 4, 5, 6, 7 :: nat]" by code_simp
  then have "raw_u64 (0 + ucast (1 :: u8)) = [1, 0, 0, 0, 0, 0, 0, 0]" by (simp add: raw_u64_def le_bytes_def)
  then show ?thesis
    by (simp add: stage_with_abi_def decode_conflict_fields_def mark_env_def mark_abi_def field_key_def
        env_bytes_def mark_call_def mark_stage_def)
qed

lemma mark_run:
  "wasm_stage_run mark_env hk mark_mem mark_inputs {}
    \<lparr>ws_pcs = map Staged mark_stages, ws_inserted = {(abi_key (mark_call ''x''), mark_abi)}\<rparr>"
proof -
  let ?run = "wasm_stage_run mark_env hk mark_mem mark_inputs {}"
  let ?w = "\<lambda>pcs ins. \<lparr>ws_pcs = pcs, ws_inserted = ins\<rparr>"
  let ?c = "{(abi_key (mark_call ''x''), mark_abi)}"
  have nc: "\<not> cp_create (mark_call a)" for a by (simp add: mark_call_def new_call_parameters_def)
  have key: "abi_key (mark_call a) = abi_key (mark_call b)" for a b
    by (simp add: abi_key_def mark_call_def call_selector_def)
  have "?run (?w [Fresh, Fresh, Fresh] {})"
    using wr_start [of mark_env hk mark_mem mark_inputs "{}"] by (simp add: mark_inputs_def)
  from wr_step [OF this ws_miss [of 0]] nc
  have "?run (?w [Missed, Fresh, Fresh] {})" by (simp add: mark_inputs_def)
  from wr_step [OF this ws_load [of 0, OF _ _ _ refl]] nc
  have "?run (?w [Staged (mark_stage ''x''), Fresh, Fresh] ?c)"
    by (simp add: mark_inputs_def mark_load stage_loaded_def mark_with_abi stage_done_def)
  from wr_step [OF this ws_hit [of 1 _ _ "abi_key (mark_call ''x'')" mark_abi]] nc
  have "?run (?w [Staged (mark_stage ''x''), Staged (mark_stage ''x''), Fresh] ?c)"
    by (simp add: mark_inputs_def mark_with_abi stage_done_def)
  from wr_step [OF this ws_hit [of 2 _ _ "abi_key (mark_call ''x'')" mark_abi]] nc key [of "''x''" "''y''"]
  show ?thesis
    by (simp add: mark_inputs_def mark_with_abi stage_done_def mark_stages_def)
qed

lemma mark_fields: "map stage_fields mark_stages =
    [Some [[1, 0, 0, 0, 0, 0, 0, 0] @ text_bytes ''x''], Some [[1, 0, 0, 0, 0, 0, 0, 0] @ text_bytes ''x''],
     Some [[1, 0, 0, 0, 0, 0, 0, 0] @ text_bytes ''y'']]"
  by (simp add: mark_stages_def mark_stage_def stage_fields_def)

lemma mark_order: "tbb_order (build_graph (map stage_fields mark_stages)) [2, 0, 1]"
proof -
  have e: "set (wg_edges (build_graph (map stage_fields mark_stages))) = {(0, 1)}"
    "wg_starts (build_graph (map stage_fields mark_stages)) = [0, 2]"
    unfolding mark_fields by (code_simp, code_simp)
  have "tbb_order (build_graph (map stage_fields mark_stages)) [2]"
    using tbb_snoc [OF tbb_nil, of 2] e by auto
  from tbb_snoc [OF this, of 0] e
  have "tbb_order (build_graph (map stage_fields mark_stages)) [2, 0]" by auto
  from tbb_snoc [OF this, of 1] e show ?thesis by auto
qed

lemma mark_tasks: "task_inputs mark_stages = [0, 1, 2]"
  by (simp add: task_inputs_def mark_stages_def mark_stage_def stage_fields_def numeral_2_eq_2)

lemma mark_order_ends: "\<not> tbb_order (build_graph (map stage_fields mark_stages)) ([2, 0, 1] @ [m])"
proof
  assume run: "tbb_order (build_graph (map stage_fields mark_stages)) ([2, 0, 1] @ [m])"
  have "m < 3" using tbb_bound [OF run] by (simp add: mark_fields task_fields_def)
  moreover have "m \<notin> {2, 0, 1}" using tbb_distinct [OF run] by auto
  ultimately show False by auto
qed

theorem wasm_branch_serializable_witness:
  "dag_execute_wasm blank_message mark_start mark_stages mark_inputs [2, 0, 1] (\<lambda>_. [])
    = dag_execute_wasm blank_message mark_start (map (direct_stage mark_env mark_mem) mark_inputs) mark_inputs
        [0, 1, 2] (\<lambda>_. [])"
proof -
  let ?kss = "task_fields (map stage_fields mark_stages)"
  have up: "[0..<length (task_inputs mark_stages)] = [0, 1, 2]" by (simp add: mark_tasks numeral_2_eq_2)
  have comm: "starts_commute mark_start (mark_inputs ! (task_inputs mark_stages ! i)) (mark_inputs ! (task_inputs mark_stages ! j))"
    if ij: "i < j" "i \<in> set [2, 0, 1]" "j \<in> set [2, 0, 1]" "\<not> keys_conflict ?kss i j" for i j :: nat
  proof -
    have "(i, j) \<in> {(0, 1), (0, 2), (1, 2)}" using ij(1-3) by auto
    moreover have "keys_conflict ?kss 0 1"
      by (simp add: mark_fields task_fields_def keys_conflict_def conflicting_def)
    ultimately have "(i, j) \<in> {(0, 2), (1, 2)}" using ij(4) by auto
    moreover have "starts_commute mark_start (mark_call ''x'') (mark_call ''y'')"
      by (simp add: starts_commute_def mark_start_def mark_call_def fun_upd_twist)
    ultimately show ?thesis by (auto simp: mark_tasks mark_inputs_def)
  qed
  have apart: "keys_apart (\<lambda>_. 0) mark_inputs"
    by (simp add: keys_apart_def mark_inputs_def mark_call_def call_selector_def)
  have cached: "cache_agrees mark_env (\<lambda>_. 0) mark_mem mark_inputs {}" by (simp add: cache_agrees_def)
  have "\<forall>fs \<in> set ?kss. \<not> self_overlap fs"
    by (simp add: mark_fields task_fields_def self_overlap_def)
  moreover have "\<forall>m. \<not> tbb_order (build_graph (map stage_fields mark_stages)) ([2, 0, 1] @ [m])"
    using mark_order_ends by blast
  moreover note w = wasm_branch_serializable [OF mark_run _ apart cached mark_order comm, of blank_message "\<lambda>_. []",
      unfolded Let_def up]
  ultimately show ?thesis using w by simp
qed

end
