(* ===== verification/Contracts.thy ===== *)
theory Contracts imports ParallelConfig Utilities Gas Codec ContractAuth begin

text \<open>
  The smaller precompiled contracts: the dispatch of \<open>ParallelConfigPrecompiled\<close>, the example
  \<open>HelloWorldPrecompiled\<close> (\<open>src/precompiled/extension/HelloWorldPrecompiled.cpp\<close>) and
  \<open>CryptoPrecompiled\<close> (\<open>src/precompiled/CryptoPrecompiled.cpp\<close>), and the registry of precompiled
  contracts that \<open>TransactionExecutor::initPrecompiled\<close> fills and an executive looks up; before them the
  selectors of functions (\<open>getFuncSelector\<close> of \<open>src/precompiled/Utilities.cpp\<close>).

  The codecs, the size of an entry and the hash and signature functions are parameters.
\<close>

section \<open>Selectors\<close>

text \<open>
  \<open>getFuncSelectorByFunctionName\<close>, the first four bytes of the hash of a signature as a big-endian word
  (\<open>None\<close> is a hash of fewer bytes), and \<open>getFuncSelector\<close> with the global cache
  \<open>s_name2SelectCache\<close>, whose key is the signature alone.
\<close>

definition func_selector_by_name :: "(string \<Rightarrow> bytes) \<Rightarrow> string \<Rightarrow> u32 option" where
  "func_selector_by_name hash name = get_param_func (take 4 (hash name))"

definition get_func_selector ::
    "(string \<Rightarrow> bytes) \<Rightarrow> string \<Rightarrow> (string \<rightharpoonup> u32) \<Rightarrow> u32 option \<times> (string \<rightharpoonup> u32)" where
  "get_func_selector hash name cache = (case cache name of
     Some sel \<Rightarrow> (Some sel, cache)
   | None \<Rightarrow> (case func_selector_by_name hash name of
       None \<Rightarrow> (None, cache)
     | Some sel \<Rightarrow> (Some sel, cache(name \<mapsto> sel))))"

definition selectors_cached :: "(string \<Rightarrow> bytes) \<Rightarrow> (string \<rightharpoonup> u32) \<Rightarrow> bool" where
  "selectors_cached hash cache \<longleftrightarrow> (\<forall>n sel. cache n = Some sel \<longrightarrow> func_selector_by_name hash n = Some sel)"

lemma get_func_selector_cached:
  "selectors_cached hash cache \<Longrightarrow> fst (get_func_selector hash name cache) = func_selector_by_name hash name
     \<and> selectors_cached hash (snd (get_func_selector hash name cache))"
  by (auto simp: get_func_selector_def selectors_cached_def split: option.split)

lemma get_param_func_selector:
  assumes "selectors_cached hash cache" and "4 \<le> length (hash name)"
  shows "get_param_func (take 4 (hash name) @ args) = fst (get_func_selector hash name cache)"
proof -
  obtain b0 b1 b2 b3 r where h: "hash name = b0 # b1 # b2 # b3 # r"
    using assms(2) by (auto simp: eval_nat_numeral Suc_le_length_iff)
  show ?thesis
    using get_func_selector_cached [OF assms(1), of name] by (simp add: func_selector_by_name_def h)
qed

text \<open>The cache is global and does not know the hash: after a lookup with another hash the selector is the
  other one.\<close>

theorem selector_of_another_hash:
  assumes "func_selector_by_name hash name = Some sel"
  shows "fst (get_func_selector hash' name (snd (get_func_selector hash name Map.empty))) = Some sel"
  using assms by (simp add: get_func_selector_def)

section \<open>The codec of the contracts\<close>

text \<open>
  \<open>PrecompiledCodec\<close> chooses between the external ABI and SCALE codecs; \<open>pl_hash\<close> is the hash of the chain.
  \<open>None\<close> is the assertion that the type is set.  Decoding with an unset type leaves the arguments as
  they are, \<open>None\<close> inside.
\<close>

datatype vm_type = TypeEvm | TypeWasm | TypeUndefined

record 'a codec_lib =
  pl_abi_in :: "string \<Rightarrow> 'a \<Rightarrow> bytes"
  pl_abi_out :: "bytes \<Rightarrow> 'a option"
  pl_scale :: "'a \<Rightarrow> bytes"
  pl_descale :: "bytes \<Rightarrow> 'a option"
  pl_hash :: "string \<Rightarrow> bytes"

definition new_precompiled_codec :: "bool \<Rightarrow> vm_type" where
  "new_precompiled_codec isWasm = (if isWasm then TypeWasm else TypeEvm)"

definition codec_encode :: "'a codec_lib \<Rightarrow> vm_type \<Rightarrow> 'a \<Rightarrow> bytes option" where
  "codec_encode L ty x = (case ty of
     TypeUndefined \<Rightarrow> None | TypeEvm \<Rightarrow> Some (pl_abi_in L '''' x) | TypeWasm \<Rightarrow> Some (pl_scale L x))"

definition codec_encode_with_sig :: "'a codec_lib \<Rightarrow> vm_type \<Rightarrow> string \<Rightarrow> 'a \<Rightarrow> bytes option" where
  "codec_encode_with_sig L ty sg x = (case ty of
     TypeUndefined \<Rightarrow> None
   | TypeEvm \<Rightarrow> Some (pl_abi_in L sg x)
   | TypeWasm \<Rightarrow> Some (take 4 (pl_hash L sg) @ pl_scale L x))"

definition codec_decode :: "'a codec_lib \<Rightarrow> vm_type \<Rightarrow> bytes \<Rightarrow> 'a option option" where
  "codec_decode L ty dat = (case ty of
     TypeUndefined \<Rightarrow> None | TypeEvm \<Rightarrow> Some (pl_abi_out L dat) | TypeWasm \<Rightarrow> Some (pl_descale L dat))"

text \<open>The laws of the external codecs: decoding undoes encoding, and the ABI puts the selector in front.\<close>

locale call_codec =
  fixes L :: "'a codec_lib"
  assumes abi_out_in: "pl_abi_out L (pl_abi_in L '''' x) = Some x"
    and abi_sig: "sg \<noteq> '''' \<Longrightarrow> pl_abi_in L sg x = take 4 (pl_hash L sg) @ pl_abi_in L '''' x"
    and descale_scale: "pl_descale L (pl_scale L x) = Some x"
    and hash_size: "4 \<le> length (pl_hash L sg)"
begin

lemma encoded_call:
  assumes "sg \<noteq> ''''" and "codec_encode_with_sig L (new_precompiled_codec w) sg x = Some dat"
  shows "\<exists>rest. dat = take 4 (pl_hash L sg) @ rest \<and> codec_decode L (new_precompiled_codec w) rest = Some (Some x)"
  using assms
  by (intro exI [of _ "if w then pl_scale L x else pl_abi_in L '''' x"])
    (auto simp: codec_encode_with_sig_def new_precompiled_codec_def codec_decode_def
      abi_sig abi_out_in descale_scale)

end

text \<open>The codec of bytes with a hash of four letters.\<close>

definition plain_codec :: "bytes codec_lib" where
  "plain_codec = \<lparr>pl_abi_in = (\<lambda>sg x. (if sg = '''' then [] else take 4 (text_bytes sg @ replicate 4 0)) @ x),
     pl_abi_out = Some, pl_scale = (\<lambda>x. x), pl_descale = Some,
     pl_hash = (\<lambda>sg. take 4 (text_bytes sg @ replicate 4 0))\<rparr>"

interpretation plain_call: call_codec plain_codec
  by unfold_locales (simp_all add: plain_codec_def)

text \<open>A call encoded for either machine reaches the function of its signature with its arguments.\<close>

theorem encoded_calls_are_dispatched:
  assumes "call_codec L" and "sg \<noteq> ''''" and "selectors_cached (pl_hash L) cache"
    and "codec_encode_with_sig L (new_precompiled_codec w) sg x = Some dat"
  shows "get_param_func dat = fst (get_func_selector (pl_hash L) sg cache)
    \<and> codec_decode L (new_precompiled_codec w) (get_param_data dat) = Some (Some x)"
proof -
  obtain rest where r: "dat = take 4 (pl_hash L sg) @ rest"
      "codec_decode L (new_precompiled_codec w) rest = Some (Some x)"
    using call_codec.encoded_call [OF assms(1,2,4)] by blast
  have len: "4 \<le> length (pl_hash L sg)" using call_codec.hash_size [OF assms(1)] .
  then have "get_param_data dat = rest" by (simp add: r(1) get_param_data_def)
  then show ?thesis
    using r get_param_func_selector [OF assms(3) len, of rest] by simp
qed

theorem encoded_calls_are_dispatched_witness:
  "get_param_func (the (codec_encode_with_sig plain_codec (new_precompiled_codec True) ''set(string)'' [7]))
     = fst (get_func_selector (pl_hash plain_codec) ''set(string)'' Map.empty)"
  by (rule conjunct1 [OF encoded_calls_are_dispatched [OF plain_call.call_codec_axioms, where w = True and x = "[7]"]])
    (simp_all add: selectors_cached_def codec_encode_with_sig_def new_precompiled_codec_def)

section \<open>Helpers of the contracts\<close>

text \<open>\<open>getErrorCodeOut\<close>: codes below 128 are written as \<open>u256\<close>, the others as \<open>s256\<close>.\<close>

definition get_error_code_out :: "(u256 \<Rightarrow> bytes) \<Rightarrow> (int \<Rightarrow> bytes) \<Rightarrow> int \<Rightarrow> bytes" where
  "get_error_code_out enc_u256 enc_s256 r =
     (if 0 \<le> r \<and> r < 128 then enc_u256 (of_int r) else enc_s256 r)"

text \<open>\<open>Condition\<close>: \<open>EQ\<close> to \<open>LE\<close> add a comparison unless it is there, \<open>limit\<close> sets the window.\<close>

record condition =
  m_conditions :: "compare_triple list"
  m_limit :: "nat \<times> nat"

definition condition_compare :: "comparator \<Rightarrow> string \<Rightarrow> string \<Rightarrow> condition \<Rightarrow> condition" where
  "condition_compare cmp k v c = c\<lparr>m_conditions := add_condition k v cmp (m_conditions c)\<rparr>"

definition condition_limit :: "nat \<Rightarrow> nat \<Rightarrow> condition \<Rightarrow> condition" where
  "condition_limit start stop c = c\<lparr>m_limit := (start, stop)\<rparr>"

definition condition_limit_count :: "nat \<Rightarrow> condition \<Rightarrow> condition" where
  "condition_limit_count n c = condition_limit 0 n c"

text \<open>\<open>getEntriesCapacity\<close>, with the sum in 64 bits.\<close>

definition entries_capacity :: "u64 list \<Rightarrow> u64" where
  "entries_capacity sizes = foldl (\<lambda>t n. t + n) 0 sizes"

text \<open>A comparison added twice is there once.\<close>

lemma add_condition_distinct: "distinct cs \<Longrightarrow> distinct (add_condition k v cmp cs)"
  by (simp add: add_condition_def)

lemma condition_compare_distinct:
  "distinct (m_conditions c) \<Longrightarrow> distinct (m_conditions (condition_compare cmp k v c))
     \<and> set (m_conditions (condition_compare cmp k v c)) = insert (k, v, cmp) (set (m_conditions c))"
  by (auto simp: condition_compare_def add_condition_def)

section \<open>Parallel configuration\<close>

datatype para_call =
    ParaRegister string string u256 | ParaUnregister string string | ParaUnknown

definition para_run ::
    "'s storage_ops \<Rightarrow> (para_config \<Rightarrow> string) \<Rightarrow> (string \<Rightarrow> u32) \<Rightarrow> para_call \<Rightarrow> 's
     \<Rightarrow> (unit + int option) \<times> 's" where
  "para_run ops ser sel c s = (case c of
     ParaRegister contract name n \<Rightarrow> register_parallel_function ops ser sel contract name n s
   | ParaUnregister contract name \<Rightarrow> unregister_parallel_function ops sel contract name s
   | ParaUnknown \<Rightarrow> (Inr None, s))"

definition para_dispatch ::
    "'s storage_ops \<Rightarrow> (para_config \<Rightarrow> string) \<Rightarrow> (string \<Rightarrow> u32) \<Rightarrow> (int \<Rightarrow> bytes) \<Rightarrow> para_call \<Rightarrow> 's
     \<Rightarrow> (bytes \<times> u64) eval \<times> 's" where
  "para_dispatch ops ser sel enc c s =
     (case para_run ops ser sel c s of
        (Inl _, s1) \<Rightarrow> (Throw ''std::bad_optional_access'', s1)
      | (Inr a, s1) \<Rightarrow>
          (let out = (case a of None \<Rightarrow> [] | Some code \<Rightarrow> enc code) in
           (Val (out, cal_total_gas (update_mem_used (of_nat (length out)) create_precompiled_gas)), s1)))"

section \<open>Hello world\<close>

definition HELLO_WORLD_TABLE_NAME :: string where "HELLO_WORLD_TABLE_NAME = ''hello_world''"
definition HELLO_WORLD_KEY_FIELD_NAME :: string where "HELLO_WORLD_KEY_FIELD_NAME = ''hello_key''"
definition HELLO_WORLD_VALUE_FIELD :: string where "HELLO_WORLD_VALUE_FIELD = ''value''"
definition CODE_UNKNOW_FUNCTION_CALL :: int where "CODE_UNKNOW_FUNCTION_CALL = -50101"

datatype hello_call = HelloGet | HelloSet string | HelloUnknown

datatype hello_answer = HelloText string | HelloCode int | HelloWord int

text \<open>The answer with the meter; the meter is \<open>None\<close> where the gas of the result is never set.\<close>

definition hello_body ::
    "'s storage_ops \<Rightarrow> (string \<Rightarrow> u64) \<Rightarrow> hello_call \<Rightarrow> precompiled_gas \<Rightarrow> 's
     \<Rightarrow> (hello_answer \<times> precompiled_gas option) eval \<times> 's" where
  "hello_body ops esize c g s =
     (let t = get_table_name HELLO_WORLD_TABLE_NAME in
      case c of
        HelloGet \<Rightarrow>
          (case st_get ops s t HELLO_WORLD_KEY_FIELD_NAME of
             (None, s1) \<Rightarrow> (Undef, s1)
           | (Some e, s1) \<Rightarrow> (Val (HelloText ''Hello World!'', Some g), s1))
      | HelloSet v \<Rightarrow>
          (case st_get ops s t HELLO_WORLD_KEY_FIELD_NAME of
             (None, s1) \<Rightarrow> (Undef, s1)
           | (Some e, s1) \<Rightarrow>
               (let g1 = append_operation OpSelect 1 (update_mem_used (esize e) g);
                    s2 = st_set ops s1 t HELLO_WORLD_KEY_FIELD_NAME v;
                    g2 = update_mem_used (esize v) (append_operation OpUpdate 1 g1)
                in (Val (HelloCode 1, Some g2), s2)))
      | HelloUnknown \<Rightarrow> (Val (HelloWord CODE_UNKNOW_FUNCTION_CALL, Some g), s))"

definition hello_run ::
    "'s storage_ops \<Rightarrow> (string \<Rightarrow> u64) \<Rightarrow> hello_call \<Rightarrow> nat \<Rightarrow> 's
     \<Rightarrow> (hello_answer \<times> precompiled_gas option) eval \<times> 's" where
  "hello_run ops esize c n s =
     (let t = get_table_name HELLO_WORLD_TABLE_NAME;
          g = append_operation OpOpenTable 1 (create_precompiled_gas\<lparr>mem_used := of_nat n\<rparr>)
      in if st_open ops s t then hello_body ops esize c g s
         else case st_create ops s t HELLO_WORLD_VALUE_FIELD of
           (False, s1) \<Rightarrow> (Val (HelloCode CODE_NO_AUTHORIZED, None), s1)
         | (True, s1) \<Rightarrow> hello_body ops esize c (append_operation OpCreateTable 1 g) s1)"

definition hello_dispatch ::
    "'s storage_ops \<Rightarrow> (string \<Rightarrow> u64) \<Rightarrow> (hello_answer \<Rightarrow> bytes) \<Rightarrow> hello_call \<Rightarrow> nat \<Rightarrow> 's
     \<Rightarrow> (bytes \<times> u64 option) eval \<times> 's" where
  "hello_dispatch ops esize enc c n s =
     (case hello_run ops esize c n s of
        (Val (a, g), s1) \<Rightarrow>
          (Val (enc a, map_option (\<lambda>g. cal_total_gas (update_mem_used (of_nat (length (enc a))) g)) g), s1)
      | (Throw e, s1) \<Rightarrow> (Throw e, s1)
      | (Undef, s1) \<Rightarrow> (Undef, s1))"

text \<open>While nothing is stored, every call but an unknown one is undefined, and nothing is ever stored; a
  stored text would not be read.\<close>

context table_storage
begin

lemma hello_never_stores:
  assumes "inv s" and t: "get_table_name HELLO_WORLD_TABLE_NAME \<noteq> st_sys ops"
    and "row ops s (get_table_name HELLO_WORLD_TABLE_NAME) HELLO_WORLD_KEY_FIELD_NAME = None"
  shows "row ops (snd (hello_run ops esize c n s)) (get_table_name HELLO_WORLD_TABLE_NAME)
      HELLO_WORLD_KEY_FIELD_NAME = None
    \<and> inv (snd (hello_run ops esize c n s))
    \<and> (c \<noteq> HelloUnknown \<longrightarrow> fst (hello_run ops esize c n s) = Undef)"
proof -
  let ?t = "get_table_name HELLO_WORLD_TABLE_NAME" and ?k = HELLO_WORLD_KEY_FIELD_NAME
  have body: "row ops (snd (hello_body ops esize c g s1)) ?t ?k = None \<and> inv (snd (hello_body ops esize c g s1))
      \<and> (c \<noteq> HelloUnknown \<longrightarrow> fst (hello_body ops esize c g s1) = Undef)"
    if s1: "inv s1" "row ops s1 ?t ?k = None" for g s1
  proof -
    obtain s2 where s2: "st_get ops s1 ?t ?k = (None, s2)"
      using s1(2) by (metis prod.collapse row_def)
    then have "inv s2" "row ops s2 ?t ?k = None"
      using get_inv [OF s1(1), of ?t ?k] get_row [OF s1(1), of ?t ?k ?t ?k] s1(2) by simp_all
    then show ?thesis using s1 s2 by (cases c) (simp_all add: hello_body_def)
  qed
  show ?thesis
  proof (cases "st_open ops s ?t")
    case True
    then show ?thesis using body [OF assms(1,3)] by (simp add: hello_run_def)
  next
    case False
    obtain s1 where s1: "st_create ops s ?t HELLO_WORLD_VALUE_FIELD = (True, s1)"
      using create_ok [OF assms(1) False] by (metis prod.collapse)
    then have "inv s1" "row ops s1 ?t ?k = None"
      using create_inv [OF assms(1), of ?t HELLO_WORLD_VALUE_FIELD]
        create_row [OF assms(1) False t, of HELLO_WORLD_VALUE_FIELD ?k] assms(3) by simp_all
    from body [OF this] show ?thesis using False s1 by (simp add: hello_run_def)
  qed
qed

end

theorem hello_world_undefined:
  assumes "table_storage ops I" and "I s"
    and "get_table_name HELLO_WORLD_TABLE_NAME \<noteq> st_sys ops"
    and "row ops s (get_table_name HELLO_WORLD_TABLE_NAME) HELLO_WORLD_KEY_FIELD_NAME = None"
  shows "fst (hello_run ops esize HelloGet n s) = Undef \<and> fst (hello_run ops esize (HelloSet v) n s) = Undef"
  using table_storage.hello_never_stores [OF assms, of esize HelloGet n]
    table_storage.hello_never_stores [OF assms, of esize "HelloSet v" n] by simp

theorem hello_world_undefined_witness:
  "fst (hello_run mem_ops (\<lambda>_. 0) (HelloSet ''hi'') 68 mem_empty) = Undef"
  by (rule conjunct2 [OF hello_world_undefined [OF mem.table_storage_axioms, of mem_empty "\<lambda>_. 0" 68 "''hi''"]])
    (simp_all add: get_table_name_def HELLO_WORLD_TABLE_NAME_def mem_sys_def row_def mem_empty_def)

section \<open>Hashes and signatures\<close>

text \<open>
  \<open>cr_hash_type\<close> is the constructor of \<open>HashType\<close> from bytes, \<open>cr_sm2_recover\<close> gives the public key of a
  hash and a signature, if there is one; its \<open>Inl\<close> is an exception.
\<close>

record crypto_env =
  cr_sm3 :: "bytes \<Rightarrow> bytes"
  cr_keccak :: "bytes \<Rightarrow> bytes"
  cr_hash_type :: "bytes \<Rightarrow> bytes"
  cr_sm2_recover :: "bytes \<Rightarrow> bytes \<Rightarrow> unit + bytes option"
  cr_right160 :: "bytes \<Rightarrow> bytes"

datatype crypto_call =
    CryptoSm3 bytes | CryptoKeccak bytes | CryptoSm2Verify "(bytes \<times> bytes) option" | CryptoUnknown

datatype crypto_answer = CryptoHash bytes | CryptoVerified bool bytes | CryptoCode int

text \<open>The parameters are \<open>None\<close> when decoding throws; every exception gives the empty address.\<close>

definition sm2_verify :: "crypto_env \<Rightarrow> (bytes \<times> bytes) option \<Rightarrow> crypto_answer" where
  "sm2_verify E params = (case params of
     None \<Rightarrow> CryptoVerified False (replicate 20 0)
   | Some (message, sign) \<Rightarrow>
       (case cr_sm2_recover E (cr_hash_type E message) sign of
          Inl _ \<Rightarrow> CryptoVerified False (replicate 20 0)
        | Inr None \<Rightarrow> CryptoVerified False (replicate 20 0)
        | Inr (Some key) \<Rightarrow> CryptoVerified True (cr_right160 E (cr_sm3 E key))))"

definition crypto_run :: "crypto_env \<Rightarrow> crypto_call \<Rightarrow> crypto_answer" where
  "crypto_run E c = (case c of
     CryptoSm3 input \<Rightarrow> CryptoHash (cr_sm3 E input)
   | CryptoKeccak input \<Rightarrow> CryptoHash (cr_keccak E input)
   | CryptoSm2Verify params \<Rightarrow> sm2_verify E params
   | CryptoUnknown \<Rightarrow> CryptoCode CODE_UNKNOW_FUNCTION_CALL)"

definition crypto_dispatch ::
    "crypto_env \<Rightarrow> (crypto_answer \<Rightarrow> bytes) \<Rightarrow> crypto_call \<Rightarrow> nat \<Rightarrow> bytes \<times> u64" where
  "crypto_dispatch E enc c n =
     (let out = enc (crypto_run E c);
          g = create_precompiled_gas\<lparr>mem_used := of_nat n\<rparr>
      in (out, cal_total_gas (update_mem_used (of_nat (length out)) g)))"

section \<open>The registry\<close>

datatype contract_kind =
    SysConfigContract | ConsensusContract | CnsContract | ParallelConfigContract | KvTableContract
  | DagTransferContract | CryptoContract | BfsContract | ContractAuthContract

text \<open>The names (or addresses) of the framework, in the order in which they are inserted.\<close>

record sys_names =
  SYS_CONFIG_NAME :: string
  CONSENSUS_NAME :: string
  CNS_NAME :: string
  PARALLEL_CONFIG_NAME :: string
  KV_TABLE_NAME :: string
  DAG_TRANSFER_NAME :: string
  CRYPTO_NAME :: string
  BFS_NAME :: string
  CONTRACT_AUTH_NAME :: string

text \<open>\<open>std::map::insert\<close> keeps an entry that is there.\<close>

definition insert_contract :: "string \<Rightarrow> 'p \<Rightarrow> (string \<rightharpoonup> 'p) \<Rightarrow> (string \<rightharpoonup> 'p)" where
  "insert_contract a p m = (if m a = None then m(a \<mapsto> p) else m)"

definition registrations :: "sys_names \<Rightarrow> (string \<times> contract_kind) list" where
  "registrations n =
     [(SYS_CONFIG_NAME n, SysConfigContract), (CONSENSUS_NAME n, ConsensusContract),
      (CNS_NAME n, CnsContract), (PARALLEL_CONFIG_NAME n, ParallelConfigContract),
      (KV_TABLE_NAME n, KvTableContract), (DAG_TRANSFER_NAME n, DagTransferContract),
      (CRYPTO_NAME n, CryptoContract), (BFS_NAME n, BfsContract),
      (CONTRACT_AUTH_NAME n, ContractAuthContract)]"

text \<open>\<open>m_constantPrecompiled\<close> and \<open>m_builtInPrecompiled\<close>: \<open>names\<close> for WASM, \<open>addresses\<close> otherwise.\<close>

definition init_precompiled ::
    "sys_names \<Rightarrow> sys_names \<Rightarrow> bool \<Rightarrow> (string \<rightharpoonup> contract_kind) \<times> string set" where
  "init_precompiled names addresses isWasm =
     (let n = (if isWasm then names else addresses) in
      (fold (\<lambda>(a, p). insert_contract a p) (registrations n) Map.empty, {CRYPTO_NAME n}))"

text \<open>The executive's copy: \<open>getPrecompiled\<close>, \<open>isPrecompiled\<close> and the setters.\<close>

definition get_precompiled :: "(string \<rightharpoonup> 'p) \<Rightarrow> string \<Rightarrow> 'p option" where
  "get_precompiled m a = m a"

definition set_constant_precompiled :: "string \<Rightarrow> 'p \<Rightarrow> (string \<rightharpoonup> 'p) \<Rightarrow> (string \<rightharpoonup> 'p)" where
  "set_constant_precompiled a p m = insert_contract a p m"

lemma fold_insert_contract:
  "distinct (map fst kps) \<Longrightarrow> (\<And>a. a \<in> fst ` set kps \<Longrightarrow> m a = None) \<Longrightarrow>
     fold (\<lambda>(a, p). insert_contract a p) kps m = m ++ map_of kps"
proof (induction kps arbitrary: m)
  case Nil
  then show ?case by simp
next
  case (Cons kp kps)
  obtain a p where kp: "kp = (a, p)" by (cases kp)
  have "m a = None" using Cons.prems(2) kp by simp
  then have "fold (\<lambda>(a, p). insert_contract a p) (kp # kps) m = m(a \<mapsto> p) ++ map_of kps"
    using Cons.prems kp by (subst Cons.IH [symmetric]) (auto simp: insert_contract_def)
  moreover have "a \<notin> dom (map_of kps)" using Cons.prems(1) kp by (simp add: dom_map_of_conv_image_fst)
  ultimately show ?case using kp by (auto simp: map_add_def split: option.split)
qed

text \<open>With nine different names, each contract is found at its name and nothing elsewhere, and the only
  contract that is built in is registered.\<close>

theorem precompiled_found:
  assumes "distinct (map fst (registrations (if isWasm then names else addresses)))"
    and "init_precompiled names addresses isWasm = (m, b)"
  shows "(get_precompiled m a = Some p \<longleftrightarrow>
      (a, p) \<in> set (registrations (if isWasm then names else addresses)))
    \<and> (a \<in> b \<longrightarrow> get_precompiled m a = Some CryptoContract)"
proof -
  let ?n = "if isWasm then names else addresses"
  have m: "m = map_of (registrations ?n)" and b: "b = {CRYPTO_NAME ?n}"
    using assms fold_insert_contract [OF assms(1), of Map.empty]
    by (simp_all add: init_precompiled_def Let_def)
  have mem: "map_of (registrations ?n) x = Some q \<longleftrightarrow> (x, q) \<in> set (registrations ?n)" for x q
    using assms(1) map_of_eq_Some_iff by metis
  have "(CRYPTO_NAME ?n, CryptoContract) \<in> set (registrations ?n)" by (simp add: registrations_def)
  then show ?thesis using m b mem by (simp add: get_precompiled_def)
qed

definition example_names :: sys_names where
  "example_names = \<lparr>SYS_CONFIG_NAME = ''/sys/status'', CONSENSUS_NAME = ''/sys/consensus'', CNS_NAME = ''/sys/cns'',
     PARALLEL_CONFIG_NAME = ''/sys/parallel_config'', KV_TABLE_NAME = ''/sys/kv_storage'',
     DAG_TRANSFER_NAME = ''/tables/dag_transfer'', CRYPTO_NAME = ''/sys/crypto_tools'', BFS_NAME = ''/sys/bfs'',
     CONTRACT_AUTH_NAME = ''/sys/contract_auth''\<rparr>"

theorem precompiled_found_witness:
  "get_precompiled (fst (init_precompiled example_names example_names True)) ''/sys/bfs'' = Some BfsContract"
proof -
  have "distinct (map fst (registrations (if True then example_names else example_names)))"
    by (simp add: registrations_def example_names_def)
  from precompiled_found [OF this, of "fst (init_precompiled example_names example_names True)"
      "snd (init_precompiled example_names example_names True)" "''/sys/bfs''" BfsContract]
  show ?thesis by (simp add: registrations_def example_names_def)
qed

end
