(* ===== verification/Owners.thy ===== *)
theory Owners imports Prelude "HOL-Library.Multiset" begin

text \<open>
  Objects that own something which has to be given back once: \<open>held xs\<close> is what the objects \<open>xs\<close> own,
  \<open>None\<close> being an object that owns nothing (moved from or destroyed).
\<close>

definition held :: "'a option list \<Rightarrow> 'a multiset" where
  "held xs = (\<Sum>x \<leftarrow> xs. case x of None \<Rightarrow> {#} | Some a \<Rightarrow> {#a#})"

lemma held_simps [simp]:
  "held [] = {#}" "held (x # xs) = (case x of None \<Rightarrow> {#} | Some a \<Rightarrow> {#a#}) + held xs"
  "held (xs @ ys) = held xs + held ys"
  by (simp_all add: held_def)

lemma held_clear:
  "i < length xs \<Longrightarrow> held xs = (case xs ! i of None \<Rightarrow> {#} | Some a \<Rightarrow> {#a#}) + held (xs[i := None])"
proof (induction xs arbitrary: i)
  case Nil
  then show ?case by simp
next
  case (Cons x xs)
  show ?case
  proof (cases i)
    case 0
    then show ?thesis by simp
  next
    case (Suc j)
    then have "held xs = (case xs ! j of None \<Rightarrow> {#} | Some a \<Rightarrow> {#a#}) + held (xs[j := None])"
      using Cons.prems by (intro Cons.IH) simp
    then show ?thesis using Suc by (simp add: ac_simps)
  qed
qed

lemma held_replace:
  "i < length xs \<Longrightarrow> held (xs[i := Some a]) = add_mset a (held (xs[i := None]))"
  using held_clear [of i "xs[i := Some a]"] by simp

lemma held_none: "i < length xs \<Longrightarrow> xs ! i = None \<Longrightarrow> held (xs[i := None]) = held xs"
  using held_clear [of i xs] by simp

end
