(* ===== verification/Machines.thy ===== *)
theory Machines imports Owners begin

text \<open>
  The choice of a machine: the gas schedules of \<open>src/Common.h\<close>, their EVMC revision (\<open>toRevision\<close> of
  \<open>src/vm/VMInstance.cpp\<close>) and \<open>VMFactory::create\<close> with the constructor of \<open>VMInstance\<close>.  The machines are
  external: constructors, and a machine given by its ABI version and its optional setter of options.
\<close>

section \<open>Schedules\<close>

record evm_schedule =
  es_tierStepGas :: "u32 list"
  es_exceptionalFailedCodeDeposit :: bool
  es_haveDelegateCall :: bool
  es_eip150Mode :: bool
  es_eip158Mode :: bool
  es_haveBitwiseShifting :: bool
  es_haveRevert :: bool
  es_haveReturnData :: bool
  es_haveStaticCall :: bool
  es_haveCreate2 :: bool
  es_haveExtcodehash :: bool
  es_enableIstanbul :: bool
  es_expGas :: u32
  es_expByteGas :: u32
  es_sha3Gas :: u32
  es_sha3WordGas :: u32
  es_sloadGas :: u32
  es_sstoreSetGas :: u32
  es_sstoreResetGas :: u32
  es_sstoreRefundGas :: u32
  es_jumpdestGas :: u32
  es_logGas :: u32
  es_logDataGas :: u32
  es_logTopicGas :: u32
  es_createGas :: u32
  es_callGas :: u32
  es_callStipend :: u32
  es_callValueTransferGas :: u32
  es_callNewAccountGas :: u32
  es_suicideRefundGas :: u32
  es_memoryGas :: u32
  es_quadCoeffDiv :: u32
  es_createDataGas :: u32
  es_txGas :: u32
  es_txCreateGas :: u32
  es_txDataZeroGas :: u32
  es_txDataNonZeroGas :: u32
  es_copyGas :: u32
  es_extcodesizeGas :: u32
  es_extcodecopyGas :: u32
  es_extcodehashGas :: u32
  es_balanceGas :: u32
  es_suicideGas :: u32
  es_blockhashGas :: u32
  es_maxCodeSize :: u32
  es_blockRewardOverwrite :: "u256 option"

text \<open>The member initialisers, and the constructor with three arguments.\<close>

definition default_evm_schedule :: evm_schedule where
  "default_evm_schedule =
     \<lparr>es_tierStepGas = [0, 2, 3, 5, 8, 10, 20, 0],
      es_exceptionalFailedCodeDeposit = True, es_haveDelegateCall = False, es_eip150Mode = True,
      es_eip158Mode = True, es_haveBitwiseShifting = False, es_haveRevert = True,
      es_haveReturnData = True, es_haveStaticCall = True, es_haveCreate2 = True,
      es_haveExtcodehash = False, es_enableIstanbul = False, es_expGas = 10,
      es_expByteGas = 10, es_sha3Gas = 30, es_sha3WordGas = 6,
      es_sloadGas = 50, es_sstoreSetGas = 20000, es_sstoreResetGas = 5000,
      es_sstoreRefundGas = 15000, es_jumpdestGas = 1, es_logGas = 375,
      es_logDataGas = 8, es_logTopicGas = 375, es_createGas = 32000,
      es_callGas = 40, es_callStipend = 2300, es_callValueTransferGas = 9000,
      es_callNewAccountGas = 25000, es_suicideRefundGas = 24000, es_memoryGas = 3,
      es_quadCoeffDiv = 512, es_createDataGas = 20, es_txGas = 21000,
      es_txCreateGas = 53000, es_txDataZeroGas = 4, es_txDataNonZeroGas = 68,
      es_copyGas = 3, es_extcodesizeGas = 20, es_extcodecopyGas = 20,
      es_extcodehashGas = 400, es_balanceGas = 20, es_suicideGas = 0,
      es_blockhashGas = 20, es_maxCodeSize = - 1,
      es_blockRewardOverwrite = None\<rparr>"

definition new_evm_schedule :: "bool \<Rightarrow> bool \<Rightarrow> u32 \<Rightarrow> evm_schedule" where
  "new_evm_schedule efcd hdc txCreateGas = default_evm_schedule
     \<lparr>es_exceptionalFailedCodeDeposit := efcd, es_haveDelegateCall := hdc, es_txCreateGas := txCreateGas\<rparr>"

definition FrontierSchedule :: evm_schedule where
  "FrontierSchedule = new_evm_schedule False False 21000"

definition HomesteadSchedule :: evm_schedule where
  "HomesteadSchedule = new_evm_schedule True True 53000"

definition EIP150Schedule :: evm_schedule where
  "EIP150Schedule = HomesteadSchedule
     \<lparr>es_eip150Mode := True, es_extcodesizeGas := 700, es_extcodecopyGas := 700, es_balanceGas := 400,
      es_sloadGas := 200, es_callGas := 700, es_suicideGas := 5000\<rparr>"

definition EIP158Schedule :: evm_schedule where
  "EIP158Schedule = EIP150Schedule
     \<lparr>es_expByteGas := 50, es_eip158Mode := True, es_maxCodeSize := 0x6000\<rparr>"

definition ByzantiumSchedule :: evm_schedule where
  "ByzantiumSchedule = EIP158Schedule
     \<lparr>es_haveRevert := True, es_haveReturnData := True, es_haveStaticCall := True\<rparr>"

definition ConstantinopleSchedule :: evm_schedule where
  "ConstantinopleSchedule = ByzantiumSchedule
     \<lparr>es_blockhashGas := 800, es_haveCreate2 := True, es_haveBitwiseShifting := True,
      es_haveExtcodehash := True\<rparr>"

definition FiscoBcosSchedule :: evm_schedule where
  "FiscoBcosSchedule = ConstantinopleSchedule"

definition FiscoBcosScheduleV2 :: evm_schedule where
  "FiscoBcosScheduleV2 = ConstantinopleSchedule\<lparr>es_maxCodeSize := 0x40000\<rparr>"

definition FiscoBcosScheduleV3 :: evm_schedule where
  "FiscoBcosScheduleV3 = FiscoBcosScheduleV2\<lparr>es_enableIstanbul := True\<rparr>"

definition EWASMSchedule :: evm_schedule where
  "EWASMSchedule = FiscoBcosScheduleV3
     \<lparr>es_maxCodeSize := - 1, es_txDataZeroGas := es_txDataNonZeroGas FiscoBcosScheduleV3\<rparr>"

definition DefaultSchedule :: evm_schedule where
  "DefaultSchedule = FiscoBcosScheduleV3"

text \<open>The questions a schedule answers.\<close>

definition static_call_depth_limit :: "evm_schedule \<Rightarrow> bool" where
  "static_call_depth_limit s \<longleftrightarrow> \<not> es_eip150Mode s"

definition suicide_charges_new_account_gas :: "evm_schedule \<Rightarrow> bool" where
  "suicide_charges_new_account_gas s \<longleftrightarrow> es_eip150Mode s"

definition emptiness_is_nonexistence :: "evm_schedule \<Rightarrow> bool" where
  "emptiness_is_nonexistence s \<longleftrightarrow> es_eip158Mode s"

definition zero_value_transfer_charges_new_account_gas :: "evm_schedule \<Rightarrow> bool" where
  "zero_value_transfer_charges_new_account_gas s \<longleftrightarrow> \<not> es_eip158Mode s"

section \<open>Revisions\<close>

datatype evmc_revision =
    EVMC_FRONTIER | EVMC_HOMESTEAD | EVMC_TANGERINE_WHISTLE | EVMC_SPURIOUS_DRAGON | EVMC_BYZANTIUM
  | EVMC_CONSTANTINOPLE | EVMC_ISTANBUL

definition to_revision :: "evm_schedule \<Rightarrow> evmc_revision" where
  "to_revision s =
     (if es_enableIstanbul s then EVMC_ISTANBUL
      else if es_haveCreate2 s then EVMC_CONSTANTINOPLE
      else if es_haveRevert s then EVMC_BYZANTIUM
      else if es_eip158Mode s then EVMC_SPURIOUS_DRAGON
      else if es_eip150Mode s then EVMC_TANGERINE_WHISTLE
      else if es_haveDelegateCall s then EVMC_HOMESTEAD
      else EVMC_FRONTIER)"

text \<open>The initialisers already switch on what the forks were to add, so that every schedule before the
  Istanbul one has the revision of Constantinople.\<close>

lemma frontier_flags: "es_haveCreate2 FrontierSchedule" "\<not> es_enableIstanbul FrontierSchedule"
  by (simp_all add: FrontierSchedule_def new_evm_schedule_def default_evm_schedule_def)

lemma homestead_flags: "es_haveCreate2 HomesteadSchedule" "\<not> es_enableIstanbul HomesteadSchedule"
  by (simp_all add: HomesteadSchedule_def new_evm_schedule_def default_evm_schedule_def)

lemma eip150_flags: "es_haveCreate2 EIP150Schedule" "\<not> es_enableIstanbul EIP150Schedule"
  by (simp_all add: EIP150Schedule_def homestead_flags)

lemma eip158_flags: "es_haveCreate2 EIP158Schedule" "\<not> es_enableIstanbul EIP158Schedule"
  by (simp_all add: EIP158Schedule_def eip150_flags)

lemma byzantium_flags: "es_haveCreate2 ByzantiumSchedule" "\<not> es_enableIstanbul ByzantiumSchedule"
  by (simp_all add: ByzantiumSchedule_def eip158_flags)

lemma constantinople_flags:
  "es_haveCreate2 ConstantinopleSchedule" "\<not> es_enableIstanbul ConstantinopleSchedule"
  by (simp_all add: ConstantinopleSchedule_def byzantium_flags)

lemma istanbul_flags: "es_enableIstanbul FiscoBcosScheduleV3" "es_enableIstanbul EWASMSchedule"
  by (simp_all add: FiscoBcosScheduleV3_def EWASMSchedule_def)

lemmas schedule_flags = frontier_flags homestead_flags eip150_flags eip158_flags byzantium_flags
  constantinople_flags istanbul_flags

theorem schedule_revisions:
  "to_revision s = EVMC_CONSTANTINOPLE"
  if "s \<in> {FrontierSchedule, HomesteadSchedule, EIP150Schedule, EIP158Schedule, ByzantiumSchedule,
     ConstantinopleSchedule, FiscoBcosSchedule, FiscoBcosScheduleV2}"
  using that by (auto simp: to_revision_def schedule_flags FiscoBcosSchedule_def FiscoBcosScheduleV2_def)

theorem schedule_revisions_witness: "to_revision FrontierSchedule = EVMC_CONSTANTINOPLE"
  by (rule schedule_revisions) simp

theorem host_revision: "to_revision FiscoBcosScheduleV3 = EVMC_ISTANBUL \<and> to_revision EWASMSchedule = EVMC_ISTANBUL"
  by (simp add: to_revision_def schedule_flags)

section \<open>Machines\<close>

datatype vm_kind = KindEvmone | KindHera | KindDLL

record 'm machine_lib =
  ml_hera :: 'm
  ml_evmone :: 'm
  ml_dll :: 'm
  ml_abi_version :: "'m \<Rightarrow> int"
  ml_set_option :: "'m \<Rightarrow> (string \<Rightarrow> string \<Rightarrow> 'm \<Rightarrow> 'm) option"

text \<open>The constructor of \<open>VMInstance\<close>: \<open>None\<close> is the assertion on the ABI version; \<open>options\<close> is
  \<open>evmcOptions()\<close>.\<close>

definition vm_instance :: "'m machine_lib \<Rightarrow> int \<Rightarrow> (string \<times> string) list \<Rightarrow> 'm \<Rightarrow> 'm option" where
  "vm_instance L version options mach =
     (if ml_abi_version L mach \<noteq> version then None
      else case ml_set_option L mach of
        None \<Rightarrow> Some mach
      | Some f \<Rightarrow> Some (fold (\<lambda>(name, val). f name val) options mach))"

definition vm_create_kind ::
    "'m machine_lib \<Rightarrow> int \<Rightarrow> (string \<times> string) list \<Rightarrow> vm_kind \<Rightarrow> 'm option" where
  "vm_create_kind L version options kind = (case kind of
     KindHera \<Rightarrow> vm_instance L version options (ml_hera L)
   | KindEvmone \<Rightarrow> vm_instance L version options (ml_evmone L)
   | KindDLL \<Rightarrow> vm_instance L version options (ml_dll L))"

definition vm_create :: "'m machine_lib \<Rightarrow> int \<Rightarrow> (string \<times> string) list \<Rightarrow> 'm option" where
  "vm_create L version options = vm_create_kind L version options KindEvmone"

section \<open>Results of a machine\<close>

text \<open>
  \<open>Result\<close> owns what the machine allocated: \<open>Some r\<close> is a release function left to call.  Moving it
  leaves none behind, and the destructor calls it; \<open>ro_released\<close> counts the calls per allocation.
\<close>

record result_objects =
  ro_objects :: "nat option list"
  ro_released :: "nat list"

datatype result_op = MakeResult nat | MoveResult nat | DestroyResult nat

definition result_step :: "result_op \<Rightarrow> result_objects \<Rightarrow> result_objects" where
  "result_step c r = (case c of
     MakeResult a \<Rightarrow> r\<lparr>ro_objects := ro_objects r @ [Some a]\<rparr>
   | MoveResult i \<Rightarrow> r\<lparr>ro_objects := (ro_objects r)[i := None] @ [ro_objects r ! i]\<rparr>
   | DestroyResult i \<Rightarrow>
       (case ro_objects r ! i of
          None \<Rightarrow> r
        | Some a \<Rightarrow> r\<lparr>ro_objects := (ro_objects r)[i := None], ro_released := a # ro_released r\<rparr>))"

text \<open>The life of the objects, from none: \<open>made\<close> are the allocations so far.\<close>

inductive result_run :: "nat list \<Rightarrow> result_objects \<Rightarrow> bool" where
  rr_start: "result_run [] \<lparr>ro_objects = [], ro_released = []\<rparr>"
| rr_make: "result_run made r \<Longrightarrow> result_run (a # made) (result_step (MakeResult a) r)"
| rr_move: "result_run made r \<Longrightarrow> i < length (ro_objects r) \<Longrightarrow> result_run made (result_step (MoveResult i) r)"
| rr_destroy: "result_run made r \<Longrightarrow> i < length (ro_objects r) \<Longrightarrow>
    result_run made (result_step (DestroyResult i) r)"

text \<open>What a machine allocated is released once at most, and what is not yet released is still held.\<close>

theorem results_released_once:
  assumes "result_run made r"
  shows "mset made = mset (ro_released r) + held (ro_objects r)"
  using assms
proof (induction rule: result_run.induct)
  case rr_start
  then show ?case by simp
next
  case (rr_make made r a)
  then show ?case by (simp add: result_step_def)
next
  case (rr_move made r i)
  then show ?case using held_clear [OF rr_move.hyps(2)] by (simp add: result_step_def ac_simps)
next
  case (rr_destroy made r i)
  then show ?case
    using held_clear [OF rr_destroy.hyps(2)] by (simp add: result_step_def split: option.split)
qed

theorem results_released_once_witness:
  "\<exists>r. result_run [5] r \<and> mset [5] = mset (ro_released r) + held (ro_objects r) \<and> ro_released r = [5]"
proof -
  let ?r = "result_step (DestroyResult 1) (result_step (MoveResult 0)
      (result_step (MakeResult 5) \<lparr>ro_objects = [], ro_released = []\<rparr>))"
  have run: "result_run [5] ?r"
    by (rule rr_destroy [OF rr_move [OF rr_make [OF rr_start]]]) (simp_all add: result_step_def)
  have "ro_released ?r = [5]" by (simp add: result_step_def)
  then show ?thesis using run results_released_once [OF run] by blast
qed

end
