(* ===== verification/CacheHandles.thy ===== *)
theory CacheHandles imports ClockCache Owners Codec begin

text \<open>
  The front of the cache (\<open>ClockCache\<close> and \<open>CacheHandle\<close> of \<open>src/dag/ClockCache.h\<close>): its shards, and the
  handles that own one reference of an entry each.  Entries are numbered across the shards.
  \<open>Uninit\<close> is a handle whose members were never set, \<open>Gone\<close> a destroyed one; reading either is \<open>Undef\<close>.
\<close>

section \<open>Shards\<close>

definition shard_bits :: "int \<Rightarrow> nat" where
  "shard_bits numShardBits = (if numShardBits = -1 then 4 else nat numShardBits)"

text \<open>Every shard gets the whole capacity.\<close>

definition new_clock_cache :: "nat \<Rightarrow> int \<Rightarrow> 'v cache_shard list" where
  "new_clock_cache capacity numShardBits =
     replicate (2 ^ shard_bits numShardBits) (empty_shard capacity)"

definition get_shard :: "int \<Rightarrow> u64 \<Rightarrow> 'v cache_shard list \<Rightarrow> 'v cache_shard" where
  "get_shard numShardBits h shards = shards ! shard_of (shard_bits numShardBits) h"

lemma shard_in_range:
  shows "shard_of (shard_bits b) h < length (new_clock_cache capacity b)"
proof -
  let ?n = "shard_bits b"
  have "push_bit ?n 1 - 1 = (mask ?n :: u64)" by (simp add: mask_eq_exp_minus_1 push_bit_eq_mult)
  then have "shard_of ?n h = unat (take_bit ?n h)"
    by (simp add: shard_of_def take_bit_eq_mask)
  also have "\<dots> = take_bit ?n (unat h)" by (rule unsigned_take_bit_eq)
  also have "\<dots> < 2 ^ ?n" by (rule take_bit_nat_less_exp)
  finally show ?thesis by (simp add: new_clock_cache_def)
qed

section \<open>Handles\<close>

datatype cache_handle = Uninit | Gone | Null | Holds nat

record handle_sys =
  hd_handles :: "cache_handle list"
  hd_refs :: "nat multiset"

text \<open>
  \<open>HandleFor\<close> is the constructor with what \<open>lookup\<close> or \<open>insert\<close> of a shard returned, the reference of which
  was taken there.
\<close>

datatype handle_op =
    HandleDefault | HandleFor "nat option" | HandleMoveConstruct nat | HandleMoveAssign nat nat
  | HandleRelease nat | HandleDestroy nat

definition handle_valid :: "cache_handle \<Rightarrow> bool eval" where
  "handle_valid h = (case h of Holds _ \<Rightarrow> Val True | Null \<Rightarrow> Val False | _ \<Rightarrow> Undef)"

text \<open>\<open>if (isValid()) m_ownedShard->unref(m_item, true)\<close>.\<close>

definition drop_handle :: "cache_handle \<Rightarrow> nat multiset \<Rightarrow> nat multiset eval" where
  "drop_handle h refs = bind_eval (handle_valid h) (\<lambda>v.
     Val (case h of Holds i \<Rightarrow> refs - {#i#} | _ \<Rightarrow> refs))"

definition handle_at :: "nat \<Rightarrow> handle_sys \<Rightarrow> cache_handle" where
  "handle_at i s = (if i < length (hd_handles s) then hd_handles s ! i else Gone)"

definition handle_step :: "handle_op \<Rightarrow> handle_sys \<Rightarrow> handle_sys eval" where
  "handle_step c s = (case c of
     HandleDefault \<Rightarrow> Val (s\<lparr>hd_handles := hd_handles s @ [Uninit]\<rparr>)
   | HandleFor item \<Rightarrow> (case item of
       None \<Rightarrow> Val (s\<lparr>hd_handles := hd_handles s @ [Null]\<rparr>)
     | Some i \<Rightarrow> Val (s\<lparr>hd_handles := hd_handles s @ [Holds i], hd_refs := add_mset i (hd_refs s)\<rparr>))
   | HandleMoveConstruct src \<Rightarrow>
       bind_eval (drop_handle Uninit (hd_refs s)) (\<lambda>refs.
         Val (s\<lparr>hd_handles := (hd_handles s)[src := Null] @ [handle_at src s], hd_refs := refs\<rparr>))
   | HandleMoveAssign dst src \<Rightarrow>
       if dst = src then Val s
       else bind_eval (drop_handle (handle_at dst s) (hd_refs s)) (\<lambda>refs.
         bind_eval (handle_valid (handle_at src s)) (\<lambda>_.
           Val (s\<lparr>hd_handles := (hd_handles s)[dst := handle_at src s, src := Null], hd_refs := refs\<rparr>)))
   | HandleRelease i \<Rightarrow>
       bind_eval (drop_handle (handle_at i s) (hd_refs s)) (\<lambda>refs.
         Val (s\<lparr>hd_handles := (hd_handles s)[i := Null], hd_refs := refs\<rparr>))
   | HandleDestroy i \<Rightarrow>
       bind_eval (drop_handle (handle_at i s) (hd_refs s)) (\<lambda>refs.
         Val (s\<lparr>hd_handles := (hd_handles s)[i := Gone], hd_refs := refs\<rparr>)))"

fun handle_run :: "handle_op list \<Rightarrow> handle_sys \<Rightarrow> handle_sys eval" where
  "handle_run [] s = Val s"
| "handle_run (c # cs) s = bind_eval (handle_step c s) (handle_run cs)"

definition no_handles :: handle_sys where
  "no_handles = \<lparr>hd_handles = [], hd_refs = {#}\<rparr>"

section \<open>References balance\<close>

definition owns :: "cache_handle \<Rightarrow> nat option" where
  "owns h = (case h of Holds i \<Rightarrow> Some i | _ \<Rightarrow> None)"

lemma owns_simps [simp]:
  "owns Uninit = None" "owns Gone = None" "owns Null = None" "owns (Holds i) = Some i"
  by (simp_all add: owns_def)

definition handles_ok :: "handle_sys \<Rightarrow> bool" where
  "handles_ok s \<longleftrightarrow> hd_refs s = held (map owns (hd_handles s))"

lemma bind_eval_Val: "bind_eval m f = Val y \<longleftrightarrow> (\<exists>x. m = Val x \<and> f x = Val y)"
  by (cases m) simp_all

lemma handle_validD: "handle_valid h = Val v \<Longrightarrow> h = Null \<or> (\<exists>i. h = Holds i)"
  by (auto simp: handle_valid_def split: cache_handle.splits)

lemma drop_handle_ok:
  assumes "handles_ok s" and "drop_handle (handle_at i s) (hd_refs s) = Val refs"
  shows "i < length (hd_handles s) \<and> refs = held ((map owns (hd_handles s))[i := None])"
proof -
  have "\<exists>v. handle_valid (handle_at i s) = Val v" using assms(2) by (auto simp: drop_handle_def bind_eval_Val)
  then have v: "handle_at i s = Null \<or> (\<exists>j. handle_at i s = Holds j)" using handle_validD by blast
  then have i: "i < length (hd_handles s)" by (auto simp: handle_at_def split: if_splits)
  then have at: "handle_at i s = hd_handles s ! i" by (simp add: handle_at_def)
  have c: "hd_refs s = (case owns (hd_handles s ! i) of None \<Rightarrow> {#} | Some a \<Rightarrow> {#a#})
      + held ((map owns (hd_handles s))[i := None])"
    using held_clear [of i "map owns (hd_handles s)"] i assms(1) by (simp add: handles_ok_def)
  show ?thesis
    using v c i assms(2) at by (auto simp: drop_handle_def handle_valid_def)
qed

lemma handles_ok_clear:
  assumes "handles_ok s" and "drop_handle (handle_at i s) (hd_refs s) = Val refs" and "owns h = None"
  shows "handles_ok (s\<lparr>hd_handles := (hd_handles s)[i := h], hd_refs := refs\<rparr>)"
  using drop_handle_ok [OF assms(1,2)] assms(3) by (simp add: handles_ok_def map_update)

lemma handles_ok_move:
  assumes ok: "handles_ok s" and d: "drop_handle (handle_at dst s) (hd_refs s) = Val refs"
    and v: "handle_valid (handle_at src s) = Val b" and ne: "dst \<noteq> src"
  shows "handles_ok (s\<lparr>hd_handles := (hd_handles s)[dst := handle_at src s, src := Null], hd_refs := refs\<rparr>)"
proof -
  let ?xs = "map owns (hd_handles s)"
  have dst: "dst < length ?xs" "refs = held (?xs[dst := None])" using drop_handle_ok [OF ok d] by simp_all
  have "handle_at src s \<noteq> Gone" using handle_validD [OF v] by auto
  then have src: "src < length ?xs" "handle_at src s = hd_handles s ! src"
    by (auto simp: handle_at_def split: if_splits)
  let ?ys = "?xs[dst := None]"
  have "held ?ys = (case ?xs ! src of None \<Rightarrow> {#} | Some a \<Rightarrow> {#a#}) + held (?ys[src := None])"
    using held_clear [of src ?ys] src(1) ne by simp
  moreover have "held (?xs[dst := ?xs ! src, src := None])
      = (case ?xs ! src of None \<Rightarrow> {#} | Some a \<Rightarrow> {#a#}) + held (?ys[src := None])"
    using held_clear [of dst "?xs[dst := ?xs ! src, src := None]"] dst(1) ne
    by (simp add: list_update_swap)
  ultimately show ?thesis
    using dst(2) src by (simp add: handles_ok_def map_update)
qed

lemma handle_step_ok: "handles_ok s \<Longrightarrow> handle_step c s = Val s' \<Longrightarrow> handles_ok s'"
proof (cases c)
  case HandleDefault
  then show "handles_ok s \<Longrightarrow> handle_step c s = Val s' \<Longrightarrow> handles_ok s'"
    by (auto simp: handle_step_def handles_ok_def)
next
  case (HandleFor item)
  then show "handles_ok s \<Longrightarrow> handle_step c s = Val s' \<Longrightarrow> handles_ok s'"
    by (auto simp: handle_step_def handles_ok_def split: option.splits)
next
  case (HandleMoveConstruct src)
  then show "handles_ok s \<Longrightarrow> handle_step c s = Val s' \<Longrightarrow> handles_ok s'"
    by (simp add: handle_step_def drop_handle_def handle_valid_def)
next
  case (HandleMoveAssign dst src)
  then show "handles_ok s \<Longrightarrow> handle_step c s = Val s' \<Longrightarrow> handles_ok s'"
    using handles_ok_move [of s dst _ src] by (auto simp: handle_step_def bind_eval_Val split: if_splits)
next
  case (HandleRelease i)
  then show "handles_ok s \<Longrightarrow> handle_step c s = Val s' \<Longrightarrow> handles_ok s'"
    using handles_ok_clear [of s i _ Null] by (auto simp: handle_step_def bind_eval_Val)
next
  case (HandleDestroy i)
  then show "handles_ok s \<Longrightarrow> handle_step c s = Val s' \<Longrightarrow> handles_ok s'"
    using handles_ok_clear [of s i _ Gone] by (auto simp: handle_step_def bind_eval_Val)
qed

lemma handle_run_ok: "handles_ok s \<Longrightarrow> handle_run cs s = Val s' \<Longrightarrow> handles_ok s'"
  by (induction cs arbitrary: s) (auto simp: bind_eval_Val dest: handle_step_ok)

text \<open>In every program that is not undefined, the references taken and not given back are those of the
  handles that live; when all are destroyed none is left.\<close>

theorem references_balance:
  assumes "handle_run cs no_handles = Val s"
  shows "hd_refs s = held (map owns (hd_handles s))
    \<and> (set (hd_handles s) \<subseteq> {Gone} \<longrightarrow> hd_refs s = {#})"
proof -
  have ok: "handles_ok s" using handle_run_ok [OF _ assms] by (simp add: handles_ok_def no_handles_def)
  have "set xs \<subseteq> {Gone} \<Longrightarrow> held (map owns xs) = {#}" for xs by (induction xs) auto
  then show ?thesis using ok by (simp add: handles_ok_def)
qed

text \<open>The lookups of the WASM branch: a miss, a second lookup that is assigned over the first, an insertion
  that gives its handle, and the end of the scope.\<close>

theorem references_balance_witness:
  "\<exists>s. handle_run [HandleFor None, HandleFor None, HandleMoveAssign 0 1, HandleDestroy 1, HandleFor (Some 7),
      HandleMoveAssign 0 2, HandleDestroy 2, HandleDestroy 0] no_handles = Val s \<and> hd_refs s = {#}"
proof -
  let ?cs = "[HandleFor None, HandleFor None, HandleMoveAssign 0 1, HandleDestroy 1, HandleFor (Some 7),
      HandleMoveAssign 0 2, HandleDestroy 2, HandleDestroy 0]"
  have run: "handle_run ?cs no_handles = Val \<lparr>hd_handles = [Gone, Gone, Gone], hd_refs = {#}\<rparr>"
    by (simp add: handle_step_def drop_handle_def handle_valid_def handle_at_def no_handles_def
        numeral_2_eq_2)
  show ?thesis using references_balance [OF run] run by simp
qed

text \<open>The move constructor is undefined: it tests members it has not initialised.\<close>

theorem move_construction_undefined: "handle_step (HandleMoveConstruct i) s = Undef"
  by (simp add: handle_step_def drop_handle_def handle_valid_def)

end
