(* ===== verification/Spec2Isabelle.thy ===== *)
theory Spec2Isabelle imports DagSerial ConflictGraph SyncStorage LruStorage ContractAuthSpec FileSystemSpec ExecutiveProps StateChainSpec ConsensusSpec SystemConfig TablesSpec NameService GasInjectorSpec ClockCacheSpec FrontEndSpec Blake2Vector WasmBatch Contracts Machines CacheHandles begin

text \<open>
  A verification library of the transaction executor of FISCO BCOS (bcos-executor).

  \<^bold>\<open>The program.\<close>  A scheduler sends the transactions of a block to the executor.  The executor keeps one
  state storage per uncommitted block, on top of a cached or transactional storage, and runs each
  transaction in an executive, which prepares a call or a creation, runs a virtual machine through its
  host functions, or a precompiled contract.  An executive that calls another contract is suspended as a
  coroutine, and its message goes back to the scheduler.  A batch of transactions may be run in parallel
  along a graph of their conflicts.  WASM code is metered before it is deposited.

  \<^bold>\<open>Theories and sources.\<close>  Paths are under \<open>src/\<close>; names of definitions follow the functions.

  \<^item> Parallel execution.  \<open>Dag\<close>, \<open>TxDag\<close>: \<open>dag/DAG\<close>, \<open>dag/TxDAG\<close>.  \<open>Scheduler\<close>: any number of threads in
    \<open>TxDAG::executeUnit\<close>, one atomic action per step.  \<open>DagExecute\<close>: \<open>dagExecuteTransactions\<close> and
    \<open>dagExecuteTransactionsForEvm\<close> of \<open>executor/TransactionExecutor\<close>.  \<open>ConflictGraph\<close>, \<open>WasmBatch\<close>:
    \<open>dagExecuteTransactionsForWasm\<close>, its task graph and its parallel stage with the run as a whole.
    \<open>ScaleUtils\<close>, \<open>AbiJson\<close>: \<open>dag/ScaleUtils\<close> and \<open>dag/Abi\<close>.  \<open>ClockCache\<close>, \<open>CacheHandles\<close>:
    \<open>dag/ClockCache\<close>, a shard under any interleaving, and the handles.
  \<^item> Storages.  \<open>Storage\<close>: the interface of tables and rows, and its instance, a store of maps.
    \<open>SyncStorage\<close>: \<open>executive/SyncStorageWrapper\<close>.  \<open>LruStorage\<close>: \<open>storage/LRUStorage\<close>.  \<open>StateChain\<close>: the
    block states of \<open>executor/TransactionExecutor\<close> (\<open>nextBlockHeader\<close>, \<open>getHash\<close>, \<open>prepare\<close>, \<open>commit\<close>,
    \<open>rollback\<close>, \<open>reset\<close>, \<open>removeCommittedState\<close>).
  \<^item> Execution.  \<open>ExecMessages\<close>: \<open>CallParameters\<close> and their exchange with messages.  \<open>FrontEnd\<close>: \<open>call\<close>,
    \<open>executeTransaction\<close>, \<open>asyncExecute\<close> and \<open>getCode\<close> of \<open>executor/TransactionExecutor\<close>, the executives of
    \<open>executive/BlockContext\<close>, and coroutines, which are resumptions: a program is an answer, or a message
    with what to do with the reply.  \<open>Host\<close>: \<open>vm/HostContext\<close> and \<open>vm/EVMHostInterface\<close>; a machine is a
    tree of host calls.  \<open>Executive\<close>: \<open>executive/TransactionExecutive\<close>.  \<open>Machines\<close>: \<open>vm/VMFactory\<close>,
    \<open>vm/VMInstance\<close> and the schedules of \<open>Common.h\<close>.
  \<^item> WASM gas.  \<open>GasInjector\<close>: \<open>vm/gas_meter/GasInjector\<close> and \<open>Metric\<close>.  \<open>WasmRun\<close>: a semantics of the
    instructions, to say what the injected code does.
  \<^item> Precompiled contracts.  \<open>EvmPrecompiled\<close>: \<open>vm/Precompiled\<close>.  In \<open>precompiled/\<close>: \<open>Gas\<close>:
    \<open>PrecompiledGas\<close>.  \<open>Utilities\<close>: the helpers.  \<open>DagTransfer\<close>, \<open>ParallelConfig\<close>, \<open>ContractAuth\<close>,
    \<open>FileSystem\<close>, \<open>Consensus\<close>, \<open>SystemConfig\<close>, \<open>Tables\<close> (both table factories and the conditions) and
    \<open>NameService\<close>: the contract of that name.  \<open>Contracts\<close>: \<open>HelloWorldPrecompiled\<close>,
    \<open>CryptoPrecompiled\<close>, \<open>PrecompiledCodec\<close>, selectors, and the registry of \<open>initPrecompiled\<close>.
  \<^item> Shared vocabulary: \<open>Prelude\<close>, \<open>Decimal\<close> (numbers as text), \<open>Owners\<close> (what objects own), \<open>Codec\<close>
    (results of a call: a value, an exception, or \<open>Undef\<close> where C++ has undefined behaviour; codecs).

  \<^bold>\<open>Interfaces.\<close>  Code outside the repository is a parameter with a contract, a locale that every theory
  states once and interprets on a concrete instance: the table storage (\<open>table_storage\<close>, and
  \<open>user_tables\<close> for the list of tables and the query for keys), the two-phase storage
  (\<open>transactional\<close>), codecs and archives (\<open>text_codec\<close>, \<open>number_text\<close>), string algorithms (\<open>text_lib\<close>,
  \<open>path_lib\<close>), calls (\<open>call_codec\<close>) and JSON values (\<open>json_library\<close>), and the storage with a
  journal of undone writes (\<open>recorded\<close>, \<open>snapshot\<close>).  Properties name the contract as a hypothesis, and their witnesses use the instances.

  \<^bold>\<open>What is shown.\<close>

  \<^item> \<open>Serializable\<close>, \<open>Liveness\<close>, \<open>Commute\<close>, \<open>DagSerial\<close> and this theory: every order the threads may take
    gives the result of the serial execution, each transaction runs once, the execution can always
    finish, and productive steps are bounded by a potential.  \<open>ConflictGraph\<close>: conflicting tasks are
    ordered, every task runs, and the one way in which a task does not.  \<open>WasmBatch\<close>: if
    calls without conflicting keys commute, the WASM branch is at every moment the serial execution of the
    tasks run so far, of all of them once the rest waits forever behind a self-overlap, and the cache of
    descriptions does not show; \<open>AbiJson\<close>: descriptions are read back as they were written.
  \<^item> \<open>SyncStorage\<close>: in any run of row accesses a key is locked before its row is touched, and every key
    touched is reported or still among the own locks; \<open>LruStorage\<close>: what the cleaner evicts.
  \<^item> \<open>ClockCacheSpec\<close>: a value in use is valid and freed once; \<open>CacheHandles\<close>: references balance.
  \<^item> \<open>StateChainSpec\<close>: the invariant of the chain, and that a commit does not change what later blocks
    read.  \<open>FrontEndSpec\<close>: calls on different contexts do not interfere, contexts are tracked, and a call
    with its resumptions runs its program.  \<open>RollbackSpec\<close>, \<open>ExecutiveProps\<close>: answers are well typed, a
    reverted call leaves nothing, with the exceptions the code has, and a creation whose machine returned
    with success stores its code or is refused; \<open>HostSpec\<close>: storage slots, the code of
    a contract, and the origin a machine sees.
  \<^item> \<open>GasMetering\<close>, \<open>GasTermination\<close>, \<open>GasInjectorSpec\<close>: metered code does what the code did and uses gas
    for exactly the instructions it runs, or stops out of gas; with gas it always ends.  Both hold for
    modules that import functions only; with a memory import a metered loop can run forever.
  \<^item> \<open>EvmPrecompiledSpec\<close>, \<open>Blake2Vector\<close>: \<open>modexp\<close> is the power modulo, the rounds of BLAKE2b permute
    their vectors, with a test vector, and the addresses of the contracts.
  \<^item> \<open>DagTransferSpec\<close>, \<open>ConsensusSpec\<close>: refinement of balances and of rosters.  \<open>ContractAuthSpec\<close>: who
    can change a row, and when a permission takes effect, also if the mode is switched in the same block.
    \<open>FileSystemSpec\<close>: the tree of directories stays consistent, and \<open>mkdir\<close> for every path.
    \<open>TablesSpec\<close>, \<open>NameService\<close>, \<open>SystemConfig\<close>: the effect of each operation on every branch, and
    invariants over sequences of calls.

  \<^bold>\<open>Bounds.\<close>  Recursion is structural, or over a list of keys, names or host calls, except \<open>view\<close> of
  \<open>StateChain\<close>, which follows identities downwards, and the loops of \<open>ScaleUtils\<close> and \<open>AbiJson\<close>, with a
  termination proof.  Only the semantics of WASM takes fuel, since code may run forever; for metered code
  a fuel that depends on the gas is enough, which is shown.  Gas and memory counters are 64-bit words,
  amounts 256-bit words; block numbers and the gas of messages and of WASM segments, which the code keeps
  in 64 signed bits, are integers.  The
  reference counts of the cache are right for fewer than \<open>2 ^ 30 - 1\<close> threads.  Atomic operations are
  sequentially consistent.

  \<^bold>\<open>Not modelled.\<close>  What machines do between host calls, the hash, curve and signature functions, the
  codecs and the JSON reader, which are external; \<open>tools/\<close>, a command-line wrapper of the injector; abstract
  interfaces.  The contracts take one encoder each, a parameter, in place of the codec.
  Logging, metrics and error texts are left out.
\<close>

section \<open>Parallel execution\<close>

text \<open>C1: parallel execution of a batch of DAG-transfer calls is serializable.  On any storage
  that keeps the storage contract, whatever order the threads run the calls in, when the graph
  has finished the answers of all calls and the balances are those of the serial execution in
  block order, and no other table has changed.\<close>
theorem dag_transfer_serializable:
  assumes "table_storage ops I" and "number_text str num"
    and "ce_precompiled E addr = Some (dt_info dec)"
    and "\<forall>p \<in> set inputs. receiveAddress p = addr"
    and "map (get_tx_criticals E) inputs = map Some crits"
    and "fits (length inputs) crits" and "txdag_init (length inputs) crits new_tx_dag = Some td"
    and "sched_run (sched_start td k) ls s" and "has_finished (s_tx s)" and "I st"
  shows "let start = dt_start ops str num enc finish (\<lambda>d. dec d (ce_isWasm E));
             par = dag_execute_evm m0 start hashes crits inputs (s_log s) st;
             ser = dag_execute_evm m0 start hashes crits inputs [0..<length inputs] st
         in fst par = fst ser \<and> dt_abs ops num (snd par) = dt_abs ops num (snd ser)
           \<and> (\<forall>t j. t \<noteq> DAG_TRANSFER \<longrightarrow> t \<noteq> st_sys ops \<longrightarrow>
                row ops (snd par) t j = row ops st t j)"
proof -
  have env: "dt_env ops I str num" using assms(1,2) by (simp add: dt_env_def)
  note runs = dt_env.dt_parallel_serial [OF env assms(3-10)]
  show ?thesis
    using runs [of "s_log s"] runs [of "[0..<length inputs]"]
    by (simp add: Let_def dt_env.represents_def [OF env] dt_env.same_rest_def [OF env])
qed

text \<open>A batch of two calls on one user: saving 5, then sending 2 to another user.\<close>

definition two_calls :: "bytes \<Rightarrow> bool \<Rightarrow> dt_call" where
  "two_calls d w = (if d = [1] then UserSave ''a'' 5 else UserTransfer ''a'' ''b'' 2)"

definition two_env :: criticals_env where
  "two_env = \<lparr>ce_precompiled = (\<lambda>a. if a = ''100c'' then Some (dt_info two_calls) else None),
     ce_isWasm = False, ce_config = (\<lambda>_ _. None), ce_parser = (\<lambda>_. None),
     ce_abi_out = (\<lambda>_ _. None)\<rparr>"

definition two_inputs :: "call_parameters list" where
  "two_inputs = map (\<lambda>d. (new_call_parameters CP_MESSAGE)\<lparr>receiveAddress := ''100c'', cp_data := d\<rparr>)
     [[1], [2]]"

definition two_crits :: "string list list" where
  "two_crits = [[''a100c''], [''a100c'', ''b100c'']]"

lemma two_fit: "fits 2 two_crits"
  by (simp add: two_crits_def fits_def INVALID_ID_def)

lemma two_facts:
  "ce_precompiled two_env ''100c'' = Some (dt_info two_calls)"
  "\<forall>p \<in> set two_inputs. receiveAddress p = ''100c''"
  "map (get_tx_criticals two_env) two_inputs = map Some two_crits"
  "fits (length two_inputs) two_crits"
  by (simp_all add: two_env_def two_inputs_def two_crits_def new_call_parameters_def
      get_tx_criticals_def dt_info_def two_calls_def fits_def INVALID_ID_def)

theorem dag_transfer_serializable_witness:
  "\<exists>td ls s. txdag_init 2 two_crits new_tx_dag = Some td \<and> sched_run (sched_start td 3) ls s
    \<and> has_finished (s_tx s)
    \<and> (let start = dt_start mem_ops u256_str u256_num (\<lambda>_. []) (\<lambda>p r. p) (\<lambda>d. two_calls d False);
           par = dag_execute_evm blank_message start [] two_crits two_inputs (s_log s) mem_empty;
           ser = dag_execute_evm blank_message start [] two_crits two_inputs [0..<2] mem_empty
       in fst par = fst ser \<and> dt_abs mem_ops u256_num (snd par) = dt_abs mem_ops u256_num (snd ser))"
proof -
  have two: "length two_inputs = 2" "ce_isWasm two_env = False"
    by (simp_all add: two_inputs_def two_env_def)
  obtain td ls s where run: "txdag_init (length two_inputs) two_crits new_tx_dag = Some td"
      "sched_run (sched_start td 3) ls s" "has_finished (s_tx s)"
    using finished_run_exists [OF two_facts(4), of 3] by auto
  have "table_storage mem_ops (\<lambda>_. True)" "number_text u256_str u256_num"
    by (rule mem.table_storage_axioms, rule u256_text.number_text_axioms)
  from dag_transfer_serializable [OF this two_facts run, where st = mem_empty and ?m0.0 = blank_message
      and enc = "\<lambda>_. []" and finish = "\<lambda>p r. p" and hashes = "[]"]
  show ?thesis using run unfolding two by (auto simp: Let_def)
qed

text \<open>C2: the EVM branch is serializable for any calls whose order cannot be observed unless they
  share a critical field: the results and the final state of the parallel run are those of the
  serial run in block order, for any number of threads and any interleaving.\<close>
theorem evm_branch_serializable:
  assumes "fits (length inputs) crits" and "txdag_init (length inputs) crits new_tx_dag = Some td"
    and "sched_run (sched_start td k) ls s" and "has_finished (s_tx s)"
    and "\<And>i j. i < j \<Longrightarrow> j < length inputs \<Longrightarrow> crits ! i \<noteq> [] \<Longrightarrow> crits ! j \<noteq> [] \<Longrightarrow>
      set (crits ! i) \<inter> set (crits ! j) = {} \<Longrightarrow> starts_commute start (inputs ! i) (inputs ! j)"
  shows "dag_execute_evm m0 start hashes crits inputs (s_log s) st
    = dag_execute_evm m0 start hashes crits inputs [0..<length inputs] st"
  by (rule dag_execute_evm_serial [OF assms(1-4)]) (use assms(5) in \<open>simp add: crit_clash_def\<close>)

text \<open>A call that appends its data to a state of counters.\<close>

definition count_start :: "call_parameters \<Rightarrow> nat \<Rightarrow> call_parameters option \<times> nat" where
  "count_start p s = (Some p, s + length (cp_data p))"

theorem evm_branch_serializable_witness:
  "\<exists>td ls s. txdag_init 2 two_crits new_tx_dag = Some td \<and> sched_run (sched_start td 4) ls s
    \<and> has_finished (s_tx s)
    \<and> dag_execute_evm blank_message count_start [] two_crits two_inputs (s_log s) 7
      = dag_execute_evm blank_message count_start [] two_crits two_inputs [0..<2] 7"
proof -
  have two: "length two_inputs = 2" by (simp add: two_inputs_def)
  obtain td ls s where run: "txdag_init (length two_inputs) two_crits new_tx_dag = Some td"
      "sched_run (sched_start td 4) ls s" "has_finished (s_tx s)"
    using finished_run_exists [OF two_facts(4), of 4] by auto
  have "starts_commute count_start p q" for p q
    by (simp add: starts_commute_def count_start_def)
  then have "dag_execute_evm blank_message count_start [] two_crits two_inputs (s_log s) 7
      = dag_execute_evm blank_message count_start [] two_crits two_inputs [0..<length two_inputs] 7"
    by (intro evm_branch_serializable [OF two_facts(4) run])
  then show ?thesis using run unfolding two by blast
qed

text \<open>C4: in every run, finished or not, a transaction is run only after every earlier
  transaction of the block with which it shares a critical field.\<close>
theorem conflicting_txs_in_block_order:
  assumes "fits n crits" and "txdag_init n crits new_tx_dag = Some td"
    and "sched_run (sched_start td k) ls s"
    and "i < j" and "j < n" and "c \<in> set (crits ! i)" and "c \<in> set (crits ! j)"
  shows "precedes (s_log s) i j"
  by (rule shared_critical_order [OF assms])

theorem conflicting_txs_in_block_order_witness:
  "\<exists>td ls s. txdag_init 2 two_crits new_tx_dag = Some td \<and> sched_run (sched_start td 2) ls s
    \<and> 1 \<in> set (s_log s) \<and> precedes (s_log s) 0 1"
proof -
  obtain td ls s where run: "txdag_init 2 two_crits new_tx_dag = Some td"
      "sched_run (sched_start td 2) ls s" "has_finished (s_tx s)"
    using finished_run_exists [OF two_fit, of 2] by auto
  have "precedes (s_log s) 0 1"
    by (rule conflicting_txs_in_block_order [OF two_fit run(1,2), of 0 1 "''a100c''"])
      (simp_all add: two_crits_def)
  moreover have "1 \<in> set (s_log s)" using finished_permutation(2) [OF two_fit run] by simp
  ultimately show ?thesis using run by blast
qed

text \<open>C5: no transaction is run twice, and when \<open>hasFinished\<close> holds every transaction has been
  run.\<close>
theorem every_tx_exactly_once:
  assumes "fits n crits" and "txdag_init n crits new_tx_dag = Some td"
    and "sched_run (sched_start td k) ls s"
  shows "distinct (s_log s) \<and> set (s_log s) \<subseteq> {0..<n}
    \<and> (has_finished (s_tx s) \<longrightarrow> set (s_log s) = {0..<n})"
proof -
  have inv: "sched_inv (m_dag td) s" by (rule run_from_start [OF assms])
  have "set (s_log s) \<subseteq> {0..<n}"
    using sched_invD(7) [OF inv] txdag_init_facts(2) [OF assms(1,2)] by auto
  then show ?thesis using sched_log_distinct [OF inv] finished_permutation(2) [OF assms] by blast
qed

theorem every_tx_exactly_once_witness:
  "\<exists>td ls s. txdag_init 2 two_crits new_tx_dag = Some td \<and> sched_run (sched_start td 2) ls s
    \<and> distinct (s_log s) \<and> set (s_log s) = {0, 1}"
proof -
  obtain td ls s where run: "txdag_init 2 two_crits new_tx_dag = Some td"
      "sched_run (sched_start td 2) ls s" "has_finished (s_tx s)"
    using finished_run_exists [OF two_fit, of 2] by auto
  have "{0..<2} = {0, 1 :: nat}" by auto
  then show ?thesis using every_tx_exactly_once [OF two_fit run(1,2)] run by blast
qed

text \<open>C6: no deadlock and no lost wake-up: from every state the threads can reach, with at least
  one thread, some continuation makes \<open>hasFinished\<close> true.\<close>
theorem execution_can_always_finish:
  assumes "fits n crits" and "txdag_init n crits new_tx_dag = Some td"
    and "sched_run (sched_start td k) ls s" and "0 < k"
  shows "\<exists>ls' s'. sched_run s ls' s' \<and> has_finished (s_tx s')"
proof -
  have "s_workers s \<noteq> []"
    using run_workers [OF assms(3)] assms(4) by (auto simp: sched_start_def)
  then show ?thesis using can_finish [OF run_from_start [OF assms(1-3)]] by blast
qed

theorem execution_can_always_finish_witness:
  "\<exists>td ls s. txdag_init 2 two_crits new_tx_dag = Some td \<and> sched_run (sched_start td 1) ls s
    \<and> has_finished (s_tx s)"
proof -
  obtain td where td: "txdag_init 2 two_crits new_tx_dag = Some td"
    using txdag_init_Some [OF two_fit] by blast
  show ?thesis
    using execution_can_always_finish [OF two_fit td sched_run.run_nil, of 1] td by auto
qed

text \<open>C31: termination: whatever the scheduling, the steps other than entering and leaving
  \<open>executeUnit\<close> are bounded by three per transaction, one per edge and one per thread.\<close>
theorem productive_steps_bounded:
  assumes "fits n crits" and "txdag_init n crits new_tx_dag = Some td"
    and "sched_run (sched_start td k) ls s"
  shows "length (filter productive ls) \<le>
    (\<Sum>v \<leftarrow> vtxs (m_dag td). length (out_edge v) + 3) + k"
proof -
  have "map (\<lambda>u. length (out_of (m_dag td) u) + 3) [0..<length (vtxs (m_dag td))]
      = map (\<lambda>v. length (out_edge v) + 3) (vtxs (m_dag td))"
    by (rule nth_equalityI) (simp_all add: out_of_def)
  then have "potential (m_dag td) (sched_start td k) =
      (\<Sum>v \<leftarrow> vtxs (m_dag td). length (out_edge v) + 3) + k"
    by (simp add: potential_def unexecuted_def sched_start_def sum_list_replicate)
  then show ?thesis using run_length_bound [OF assms] by simp
qed

theorem productive_steps_bounded_witness:
  "\<exists>td ls s. txdag_init 2 two_crits new_tx_dag = Some td \<and> sched_run (sched_start td 2) ls s
    \<and> has_finished (s_tx s)
    \<and> length (filter productive ls) \<le> (\<Sum>v \<leftarrow> vtxs (m_dag td). length (out_edge v) + 3) + 2"
proof -
  obtain td ls s where run: "txdag_init 2 two_crits new_tx_dag = Some td"
      "sched_run (sched_start td 2) ls s" "has_finished (s_tx s)"
    using finished_run_exists [OF two_fit, of 2] by auto
  show ?thesis using productive_steps_bounded [OF two_fit run(1,2)] run by blast
qed

text \<open>Building the graph stays in range and links each transaction to exactly the previous
  user of each of its critical fields; in-degrees count the edges without wrap-around, and the
  queue starts with exactly the transactions of in-degree zero.\<close>
theorem graph_links_last_users:
  assumes "fits n crits"
  shows "\<exists>d. build_dag n crits = Some d \<and> length (vtxs d) = n
    \<and> (\<forall>f t. has_edge d f t \<longleftrightarrow>
         t < n \<and> (\<exists>c \<in> set (crits ! t). last_use crits t c = f \<and> f \<noteq> INVALID_ID))
    \<and> (\<forall>v < n. unat (in_degree (vtxs d ! v)) = edge_count (vtxs d) v)
    \<and> top_level d = filter (\<lambda>v. in_degree (vtxs d ! v) = 0) [0..<n]"
  using build_dag_ok [OF assms] by (auto simp: dag_ready_def degrees_ok_def)

theorem graph_links_last_users_witness:
  "\<exists>d. build_dag 2 two_crits = Some d \<and> has_edge d 0 1 \<and> \<not> has_edge d 1 0"
proof -
  obtain d where d: "build_dag 2 two_crits = Some d" "length (vtxs d) = 2"
      "\<forall>f t. has_edge d f t \<longleftrightarrow>
         t < 2 \<and> (\<exists>c \<in> set (two_crits ! t). last_use two_crits t c = f \<and> f \<noteq> INVALID_ID)"
    using graph_links_last_users [OF two_fit] by blast
  have "has_edge d 0 1" "\<not> has_edge d 1 0"
    using d(3) by (auto simp: two_crits_def INVALID_ID_def numeral_2_eq_2)
  then show ?thesis using d(1) by blast
qed

end
